(* ===== verification/Prelude.thy ===== *)
theory Prelude
  imports Complex_Main "HOL-Library.AList" "HOL-Library.List_Lexorder"
    "HOL-Library.Product_Lexorder"
begin

text \<open>
  Shared vocabulary of the development.

  A Python \<open>str\<close> is a list of code points (\<^typ>\<open>nat list\<close>); an ASCII literal of the
  source is written \<open>asc ''...''\<close>. A Python \<open>dict\<close> is an association list with
  distinct keys: insertion order is kept, \<open>AList.update\<close> replaces a value in place or
  appends the new key at the end, and \<open>AList.delete\<close> removes it, as \<open>d[k] = v\<close> and
  \<open>d.pop(k, None)\<close> do. Exceptions are the left component of a sum.
\<close>

type_synonym pystr = "nat list"
type_synonym bytes = "nat list"
type_synonym ('k, 'v) dict = "('k \<times> 'v) list"

named_theorems dict_simps "facts on Python dictionaries as association lists"
named_theorems str_simps "facts on literals, prefixes and splitting of Python strings"

subsection \<open>String literals and the string methods the source uses\<close>

definition asc :: "string \<Rightarrow> pystr" where
  "asc s = map of_char s"

lemma asc_eq_iff [simp, str_simps]: "asc s = asc t \<longleftrightarrow> s = t"
  unfolding asc_def by (metis injD inj_mapI inj_of_char)

lemma asc_append [str_simps]: "asc (s @ t) = asc s @ asc t"
  by (simp add: asc_def)

lemma length_asc [simp, str_simps]: "length (asc s) = length s"
  by (simp add: asc_def)

lemma asc_Nil [simp]: "asc [] = []"
  by (simp add: asc_def)

lemma asc_eq_Nil_iff [simp]: "asc s = [] \<longleftrightarrow> s = []" "[] = asc s \<longleftrightarrow> s = []"
  by (auto simp: asc_def)

lemma lf_asc [simp]: "10 \<in> set (asc s) \<longleftrightarrow> CHR 0x0A \<in> set s"
proof -
  have "(10::nat) = of_char x \<longleftrightarrow> x = CHR 0x0A" for x
    using of_char_eq_iff [of "CHR 0x0A" x, where ?'a = nat] by auto
  then show ?thesis by (auto simp: asc_def image_iff)
qed

definition starts_with :: "pystr \<Rightarrow> pystr \<Rightarrow> bool" where
  "starts_with p s \<longleftrightarrow> take (length p) s = p"

definition ends_with :: "pystr \<Rightarrow> pystr \<Rightarrow> bool" where
  "ends_with p s \<longleftrightarrow> length p \<le> length s \<and> drop (length s - length p) s = p"

lemma starts_with_append [simp, str_simps]: "starts_with p (p @ s)"
  by (simp add: starts_with_def)

lemma starts_with_iff: "starts_with p s \<longleftrightarrow> (\<exists>t. s = p @ t)"
  by (metis append_eq_conv_conj append_take_drop_id starts_with_def)

text \<open>\<open>needle in s\<close> for strings.\<close>

fun has_sub :: "pystr \<Rightarrow> pystr \<Rightarrow> bool" where
  "has_sub p [] \<longleftrightarrow> p = []"
| "has_sub p (c # s) \<longleftrightarrow> starts_with p (c # s) \<or> has_sub p s"

lemma has_sub_iff: "has_sub p s \<longleftrightarrow> (\<exists>a b. s = a @ p @ b)"
proof (induction s)
  case Nil
  then show ?case by simp
next
  case (Cons c s)
  note IH = Cons.IH
  show ?case
  proof
    assume "has_sub p (c # s)"
    then show "\<exists>a b. c # s = a @ p @ b"
      by (metis IH append.left_neutral append_Cons has_sub.simps(2) starts_with_iff)
  next
    assume "\<exists>a b. c # s = a @ p @ b"
    then obtain a b where ab: "c # s = a @ p @ b" by blast
    show "has_sub p (c # s)"
    proof (cases a)
      case Nil
      with ab have "starts_with p (c # s)" by (auto simp: starts_with_iff)
      then show ?thesis by simp
    next
      case (Cons x a')
      with ab have "has_sub p s" using IH by auto
      then show ?thesis by simp
    qed
  qed
qed

text \<open>Whitespace for \<open>str.strip\<close> and \<open>str.split\<close> (the ASCII part of Unicode whitespace,
  and the two Latin-1 code points NEL and NBSP).\<close>

definition is_space :: "nat \<Rightarrow> bool" where
  "is_space c \<longleftrightarrow> c = 32 \<or> (9 \<le> c \<and> c \<le> 13) \<or> (28 \<le> c \<and> c \<le> 31) \<or> c = 133 \<or> c = 160"

definition lstrip :: "pystr \<Rightarrow> pystr" where
  "lstrip s = dropWhile is_space s"

definition rstrip :: "pystr \<Rightarrow> pystr" where
  "rstrip s = rev (dropWhile is_space (rev s))"

definition strip :: "pystr \<Rightarrow> pystr" where
  "strip s = rstrip (lstrip s)"

definition lower_char :: "nat \<Rightarrow> nat" where
  "lower_char c = (if 65 \<le> c \<and> c \<le> 90 then c + 32 else c)"

definition lower :: "pystr \<Rightarrow> pystr" where
  "lower s = map lower_char s"

definition upper_char :: "nat \<Rightarrow> nat" where
  "upper_char c = (if 97 \<le> c \<and> c \<le> 122 then c - 32 else c)"

definition upper :: "pystr \<Rightarrow> pystr" where
  "upper s = map upper_char s"

lemma lower_idem [simp]: "lower (lower s) = lower s"
  by (simp add: lower_def lower_char_def)

text \<open>\<open>s.split(sep)\<close> on one character: always at least one field.\<close>

fun split_on :: "nat \<Rightarrow> pystr \<Rightarrow> pystr list" where
  "split_on sep [] = [[]]"
| "split_on sep (c # s) =
     (if c = sep then [] # split_on sep s
      else (case split_on sep s of [] \<Rightarrow> [[c]] | f # fs \<Rightarrow> (c # f) # fs))"

text \<open>\<open>s.split()\<close>: maximal runs of non-whitespace.\<close>

fun split_ws_aux :: "pystr \<Rightarrow> pystr \<Rightarrow> pystr list" where
  "split_ws_aux cur [] = (if cur = [] then [] else [cur])"
| "split_ws_aux cur (c # s) =
     (if is_space c then (if cur = [] then split_ws_aux [] s else cur # split_ws_aux [] s)
      else split_ws_aux (cur @ [c]) s)"

definition split_ws :: "pystr \<Rightarrow> pystr list" where
  "split_ws s = split_ws_aux [] s"

fun join :: "pystr \<Rightarrow> pystr list \<Rightarrow> pystr" where
  "join sep [] = []"
| "join sep [x] = x"
| "join sep (x # y # zs) = x @ sep @ join sep (y # zs)"

text \<open>\<open>s.partition(sep)\<close> and \<open>s.rpartition(sep)\<close> on one character.\<close>

fun partition_on :: "nat \<Rightarrow> pystr \<Rightarrow> pystr \<times> bool \<times> pystr" where
  "partition_on sep [] = ([], False, [])"
| "partition_on sep (c # s) =
     (if c = sep then ([], True, s)
      else (case partition_on sep s of (a, f, b) \<Rightarrow> (c # a, f, b)))"

definition rpartition_on :: "nat \<Rightarrow> pystr \<Rightarrow> pystr \<times> bool \<times> pystr" where
  "rpartition_on sep s =
     (case partition_on sep (rev s) of
        (a, True, b) \<Rightarrow> (rev b, True, rev a)
      | (a, False, b) \<Rightarrow> ([], False, s))"

text \<open>\<open>s.replace(c, r)\<close> for a single character \<open>c\<close>.\<close>

definition replace_char :: "nat \<Rightarrow> pystr \<Rightarrow> pystr \<Rightarrow> pystr" where
  "replace_char c r s = concat (map (\<lambda>x. if x = c then r else [x]) s)"

lemma split_on_nonempty [simp]: "split_on sep s \<noteq> []"
  by (induction s) (auto split: list.splits)

lemma split_on_no_sep: "f \<in> set (split_on sep s) \<Longrightarrow> sep \<notin> set f"
  by (induction s arbitrary: f) (auto split: list.splits if_splits)

lemma join_split_on: "join [sep] (split_on sep s) = s"
proof (induction s)
  case Nil
  then show ?case by simp
next
  case (Cons c s)
  obtain f fs where ff: "split_on sep s = f # fs" by (cases "split_on sep s") auto
  then show ?case using Cons by (cases fs) auto
qed

lemma split_on_append_sep: "sep \<notin> set a \<Longrightarrow> split_on sep (a @ sep # b) = a # split_on sep b"
  by (induction a) simp_all

lemma split_on_append:
  "split_on sep (a @ sep # b) = split_on sep a @ split_on sep b"
proof (induction a)
  case Nil
  then show ?case by simp
next
  case (Cons c a)
  show ?case
  proof (cases "c = sep")
    case True
    then show ?thesis using Cons by simp
  next
    case False
    obtain f fs where "split_on sep a = f # fs" by (cases "split_on sep a") auto
    then show ?thesis using Cons False by simp
  qed
qed

lemma split_on_lines:
  "\<forall>l\<in>set ls. sep \<notin> set l \<Longrightarrow> split_on sep (concat (map (\<lambda>l. l @ [sep]) ls)) = ls @ [[]]"
  by (induction ls) (simp_all add: split_on_append_sep)

lemma split_on_whole: "sep \<notin> set a \<Longrightarrow> split_on sep a = [a]"
  by (induction a) simp_all

lemma split_on_join:
  "xs \<noteq> [] \<Longrightarrow> \<forall>x\<in>set xs. sep \<notin> set x \<Longrightarrow> split_on sep (join [sep] xs) = xs"
  by (induction "[sep]" xs rule: join.induct)
     (simp_all add: split_on_append_sep split_on_whole)

lemma split_ws_aux_tokens:
  "t \<in> set (split_ws_aux cur s) \<Longrightarrow> (\<forall>c\<in>set cur. \<not> is_space c) \<Longrightarrow>
     t \<noteq> [] \<and> (\<forall>c\<in>set t. \<not> is_space c)"
proof (induction cur s rule: split_ws_aux.induct)
  case (1 cur)
  then show ?case by (cases "cur = []") simp_all
next
  case (2 cur c s)
  show ?case
  proof (cases "is_space c")
    case space: True
    show ?thesis
    proof (cases "cur = []")
      case True
      have "t \<in> set (split_ws_aux [] s)" using "2.prems"(1) space True by simp
      then show ?thesis using "2.IH"(1) [OF space True] by simp
    next
      case False
      then have "t = cur \<or> t \<in> set (split_ws_aux [] s)"
        using "2.prems"(1) space by simp
      then show ?thesis using "2.IH"(2) [OF space False] "2.prems"(2) False by auto
    qed
  next
    case False
    have "t \<in> set (split_ws_aux (cur @ [c]) s)" using "2.prems"(1) False by simp
    moreover have "\<forall>x\<in>set (cur @ [c]). \<not> is_space x" using "2.prems"(2) False by simp
    ultimately show ?thesis using "2.IH"(3) [OF False] by blast
  qed
qed

lemma split_ws_tokens: "t \<in> set (split_ws s) \<Longrightarrow> t \<noteq> [] \<and> (\<forall>c\<in>set t. \<not> is_space c)"
  unfolding split_ws_def using split_ws_aux_tokens [of t "[]" s] by simp

subsection \<open>Decimal rendering of integers\<close>

fun digits :: "nat \<Rightarrow> pystr" where
  "digits n = (if n < 10 then [48 + n] else digits (n div 10) @ [48 + n mod 10])"

declare digits.simps [simp del]

definition show_int :: "int \<Rightarrow> pystr" where
  "show_int i = (if i < 0 then 45 # digits (nat (- i)) else digits (nat i))"

definition is_digit :: "nat \<Rightarrow> bool" where
  "is_digit c \<longleftrightarrow> 48 \<le> c \<and> c \<le> 57"

lemma digits_nonempty [simp]: "digits n \<noteq> []"
  by (subst digits.simps) simp

lemma digits_are_digits: "c \<in> set (digits n) \<Longrightarrow> is_digit c"
proof (induction n arbitrary: c rule: digits.induct)
  case (1 n)
  show ?case
  proof (cases "n < 10")
    case True
    with "1.prems" show ?thesis by (simp add: digits.simps [of n] is_digit_def)
  next
    case False
    with "1.prems" have "c \<in> set (digits (n div 10)) \<or> c = 48 + n mod 10"
      by (auto simp: digits.simps [of n])
    then show ?thesis
    proof
      assume "c \<in> set (digits (n div 10))"
      with "1.IH" False show ?thesis by blast
    next
      assume "c = 48 + n mod 10"
      then show ?thesis by (simp add: is_digit_def)
    qed
  qed
qed

text \<open>\<open>int(s)\<close> on a run of digits.\<close>

definition undigits :: "pystr \<Rightarrow> nat" where
  "undigits s = foldl (\<lambda>a c. 10 * a + (c - 48)) 0 s"

lemma undigits_digits [simp]: "undigits (digits n) = n"
proof (induction n rule: digits.induct)
  case (1 n)
  show ?case
  proof (cases "n < 10")
    case True
    then show ?thesis by (simp add: digits.simps [of n] undigits_def)
  next
    case False
    then have "undigits (digits (n div 10)) = n div 10" by (rule "1.IH")
    then show ?thesis using False by (simp add: digits.simps [of n] undigits_def)
  qed
qed

lemma digits_inj [simp]: "digits m = digits n \<longleftrightarrow> m = n"
  by (metis undigits_digits)

lemma digits_not_minus: "digits n \<noteq> 45 # s"
  using digits_are_digits [of 45 n] by (auto simp: is_digit_def)

lemma show_int_inj [simp]: "show_int i = show_int j \<longleftrightarrow> i = j"
  using digits_not_minus digits_not_minus [symmetric]
  by (auto simp: show_int_def split: if_splits)

subsection \<open>Dictionaries\<close>

abbreviation dget :: "('k, 'v) dict \<Rightarrow> 'k \<Rightarrow> 'v option" where
  "dget d k \<equiv> map_of d k"

abbreviation dset :: "'k \<Rightarrow> 'v \<Rightarrow> ('k, 'v) dict \<Rightarrow> ('k, 'v) dict" where
  "dset k v d \<equiv> AList.update k v d"

abbreviation ddel :: "'k \<Rightarrow> ('k, 'v) dict \<Rightarrow> ('k, 'v) dict" where
  "ddel k d \<equiv> AList.delete k d"

definition dkeys :: "('k, 'v) dict \<Rightarrow> 'k list" where
  "dkeys d = map fst d"

definition dwf :: "('k, 'v) dict \<Rightarrow> bool" where
  "dwf d \<longleftrightarrow> distinct (map fst d)"

text \<open>\<open>{k: v for k, v in d.items() if P k v}\<close>\<close>

definition dfilter :: "('k \<Rightarrow> 'v \<Rightarrow> bool) \<Rightarrow> ('k, 'v) dict \<Rightarrow> ('k, 'v) dict" where
  "dfilter P d = filter (\<lambda>(k, v). P k v) d"

lemma dget_dset [simp, dict_simps]:
  "dget (dset k v d) k' = (if k' = k then Some v else dget d k')"
  by (simp add: update_conv')

lemma dget_ddel [simp, dict_simps]:
  "dget (ddel k d) k' = (if k' = k then None else dget d k')"
  by (simp add: delete_conv')

lemma dwf_Nil [simp]: "dwf []"
  by (simp add: dwf_def)

lemma dwf_dset [simp, intro]: "dwf d \<Longrightarrow> dwf (dset k v d)"
  by (simp add: dwf_def distinct_update)

lemma dwf_ddel [simp, intro]: "dwf d \<Longrightarrow> dwf (ddel k d)"
  by (simp add: dwf_def distinct_delete)

lemma dwf_dfilter [simp, intro]: "dwf d \<Longrightarrow> dwf (dfilter P d)"
  by (auto simp: dwf_def dfilter_def intro: distinct_map_filter)

lemma dwf_filter [simp, intro]: "dwf d \<Longrightarrow> dwf (filter Q d)"
  by (simp add: dwf_def distinct_map_filter)

lemma dwf_Cons: "dwf ((k, v) # d) \<longleftrightarrow> k \<notin> fst ` set d \<and> dwf d"
  by (simp add: dwf_def)

lemma dget_filter:
  "dwf d \<Longrightarrow> dget (filter Q d) k =
     (case dget d k of None \<Rightarrow> None | Some v \<Rightarrow> if Q (k, v) then Some v else None)"
  by (induction d)
     (auto simp: dwf_def map_of_eq_None_iff split: option.splits dest: map_of_SomeD)

lemma dget_dfilter [dict_simps]:
  "dwf d \<Longrightarrow> dget (dfilter P d) k =
     (case dget d k of None \<Rightarrow> None | Some v \<Rightarrow> if P k v then Some v else None)"
  by (simp add: dfilter_def dget_filter split: option.splits)

lemma length_dset:
  "length (dset k v d) = (if dget d k = None then Suc (length d) else length d)"
  by (induction d) (auto simp: map_of_eq_None_iff)

lemma length_ddel_le: "length (ddel k d) \<le> length d"
  by (simp add: length_delete_le)

lemma length_ddel:
  "dwf d \<Longrightarrow> dget d k \<noteq> None \<Longrightarrow> Suc (length (ddel k d)) = length d"
proof (induction d)
  case Nil
  then show ?case by simp
next
  case (Cons a d)
  show ?case
  proof (cases "fst a = k")
    case True
    with Cons.prems have "k \<notin> fst ` set d" by (auto simp: dwf_def)
    with True show ?thesis by simp
  next
    case False
    with Cons show ?thesis by (cases a) (auto simp: dwf_def)
  qed
qed

lemma in_set_dset:
  "(k', v') \<in> set (dset k v d) \<Longrightarrow> (k' = k \<and> v' = v) \<or> (k', v') \<in> set d"
  by (induction d) (auto split: if_splits)

lemma in_set_dget: "dwf d \<Longrightarrow> (k, v) \<in> set d \<longleftrightarrow> dget d k = Some v"
  by (simp add: dwf_def)

lemma set_ddel: "set (ddel k d) = {p \<in> set d. fst p \<noteq> k}"
  by (auto simp: AList.delete_eq)

subsection \<open>The first element that satisfies a test\<close>

text \<open>\<open>next((x for x in xs if P(x)), None)\<close> is \<^const>\<open>find\<close>.\<close>

lemma find_Some_in: "find P xs = Some x \<Longrightarrow> x \<in> set xs \<and> P x"
  by (auto simp: find_Some_iff)

lemma find_None_all: "find P xs = None \<longleftrightarrow> (\<forall>x\<in>set xs. \<not> P x)"
  by (auto simp: find_None_iff)

text \<open>Fields joined by a separator neither field holds.\<close>

lemma sep_split_first:
  assumes "a @ x # b = a' @ x # b'" "x \<notin> set a" "x \<notin> set a'"
  shows "a = a' \<and> b = b'"
proof -
  have "takeWhile (\<lambda>y. y \<noteq> x) (c @ x # d) = c" if "x \<notin> set c" for c d
    using that by (simp add: takeWhile_append takeWhile_eq_all_conv)
  then have "a = a'" by (metis assms)
  with assms(1) show ?thesis by simp
qed

lemma sep_split_last:
  assumes "a @ x # b = a' @ x # b'" "x \<notin> set b" "x \<notin> set b'"
  shows "a = a' \<and> b = b'"
proof -
  have "rev b @ x # rev a = rev b' @ x # rev a'"
    using arg_cong [OF assms(1), of rev] by simp
  then have "rev b = rev b' \<and> rev a = rev a'" using assms(2,3) by (intro sep_split_first) auto
  then show ?thesis by simp
qed

lemma partition_on_shape:
  "partition_on sep s = (a, f, b) \<Longrightarrow>
     s = (if f then a @ sep # b else a) \<and> sep \<notin> set a \<and> (\<not> f \<longrightarrow> b = [])"
  by (induction s arbitrary: a) (auto split: if_splits prod.splits)

lemma partition_on_found: "sep \<notin> set a \<Longrightarrow> partition_on sep (a @ sep # b) = (a, True, b)"
  by (induction a) auto

lemma partition_on_absent: "sep \<notin> set s \<Longrightarrow> partition_on sep s = (s, False, [])"
  by (induction s) auto

lemma rpartition_on_shape:
  assumes "rpartition_on sep s = (a, f, b)"
  shows "s = (if f then a @ sep # b else b)"
proof -
  obtain x g y where p: "partition_on sep (rev s) = (x, g, y)" using prod_cases3 by blast
  from partition_on_shape [OF p] have "s = (if g then rev y @ sep # rev x else rev x)"
    by (metis append_assoc append_Cons append_Nil rev.simps(2) rev_append rev_rev_ident)
  then show ?thesis using assms p by (auto simp: rpartition_on_def split: bool.splits)
qed

end
