(* ===== verification/Machines.thy ===== *)
theory Machines
  imports Prelude
begin

text \<open>
  Components as deterministic machines, and the two contracts their properties rest on: an
  invariant every operation keeps, and a ledger in which nothing is spent that was not
  earned. Each component interprets them on its own step function.
\<close>

primrec run :: "('s \<Rightarrow> 'e \<Rightarrow> 's) \<Rightarrow> 's \<Rightarrow> 'e list \<Rightarrow> 's" where
  "run step s [] = s"
| "run step s (e # es) = run step (step s e) es"

text \<open>The sum of a per-step quantity along a run.\<close>

primrec total_of ::
  "('s \<Rightarrow> 'e \<Rightarrow> 's) \<Rightarrow> ('s \<Rightarrow> 'e \<Rightarrow> nat) \<Rightarrow> 's \<Rightarrow> 'e list \<Rightarrow> nat" where
  "total_of step f s [] = 0"
| "total_of step f s (e # es) = f s e + total_of step f (step s e) es"

lemma run_append: "run step s (es @ fs) = run step (run step s es) fs"
  by (induction es arbitrary: s) simp_all

lemma run_snoc: "run step s (es @ [e]) = step (run step s es) e"
  by (simp add: run_append)

locale machine_inv =
  fixes step :: "'s \<Rightarrow> 'e \<Rightarrow> 's"
    and inv :: "'s \<Rightarrow> bool"
  assumes inv_step: "inv s \<Longrightarrow> inv (step s e)"
begin

lemma inv_run: "inv s \<Longrightarrow> inv (run step s es)"
  by (induction es arbitrary: s) (simp_all add: inv_step)

lemma inv_prefix: "inv s \<Longrightarrow> inv (run step s (take n es))"
  by (rule inv_run)

end

text \<open>\<open>stock\<close> counts what may still be spent; every unit spent leaves it.\<close>

locale ledger =
  fixes step :: "'s \<Rightarrow> 'e \<Rightarrow> 's"
    and inv :: "'s \<Rightarrow> bool"
    and stock :: "'s \<Rightarrow> nat"
    and earns :: "'s \<Rightarrow> 'e \<Rightarrow> nat"
    and spends :: "'s \<Rightarrow> 'e \<Rightarrow> nat"
  assumes ledger_inv: "inv s \<Longrightarrow> inv (step s e)"
    and stock_step: "inv s \<Longrightarrow> stock (step s e) + spends s e \<le> stock s + earns s e"
begin

sublocale machine_inv step inv
  by unfold_locales (rule ledger_inv)

lemma balance:
  "inv s \<Longrightarrow>
     stock (run step s es) + total_of step spends s es \<le> stock s + total_of step earns s es"
proof (induction es arbitrary: s)
  case Nil
  then show ?case by simp
next
  case (Cons e es)
  have "stock (run step (step s e) es) + total_of step spends (step s e) es
      \<le> stock (step s e) + total_of step earns (step s e) es"
    by (rule Cons.IH) (rule ledger_inv [OF Cons.prems])
  with stock_step [OF Cons.prems, of e] show ?case by simp
qed

lemma spent_le_earned:
  "inv s \<Longrightarrow> stock s = 0 \<Longrightarrow> total_of step spends s es \<le> total_of step earns s es"
  using balance [of s es] by simp

end

end
