(* ===== verification/Util.thy ===== *)
theory Util
  imports Prelude
begin

text \<open>
  \<open>src/relay_shell/util.py\<close> and \<open>src/relay_shell/errors.py\<close>: clamping, byte-budget
  truncation, identifiers and the error line; with the UTF-8 codec of Python's
  \<open>str.encode("utf-8", "replace")\<close> and \<open>bytes.decode("utf-8", "replace")\<close> that
  truncation, hashing and session reads rest on.
\<close>

subsection \<open>The UTF-8 codec with error handler \<open>replace\<close>\<close>

definition is_surrogate :: "nat \<Rightarrow> bool" where
  "is_surrogate c \<longleftrightarrow> 0xD800 \<le> c \<and> c \<le> 0xDFFF"

text \<open>A Python string: every code point is below \<open>0x110000\<close> (lone surrogates allowed).\<close>

definition wf_str :: "pystr \<Rightarrow> bool" where
  "wf_str s \<longleftrightarrow> (\<forall>c\<in>set s. c < 0x110000)"

definition scalar :: "nat \<Rightarrow> bool" where
  "scalar c \<longleftrightarrow> c < 0x110000 \<and> \<not> is_surrogate c"

definition encode_char :: "nat \<Rightarrow> bytes" where
  "encode_char c =
     (if c < 0x80 then [c]
      else if c < 0x800 then [0xC0 + c div 64, 0x80 + c mod 64]
      else if is_surrogate c then [63]
      else if c < 0x10000 then [0xE0 + c div 4096, 0x80 + c div 64 mod 64, 0x80 + c mod 64]
      else [0xF0 + c div 262144, 0x80 + c div 4096 mod 64, 0x80 + c div 64 mod 64,
            0x80 + c mod 64])"

definition utf8_encode :: "pystr \<Rightarrow> bytes" where
  "utf8_encode s = concat (map encode_char s)"

definition is_cont :: "nat \<Rightarrow> bool" where
  "is_cont b \<longleftrightarrow> 0x80 \<le> b \<and> b < 0xC0"

text \<open>The second byte a three- or four-byte lead admits (no overlong forms, no surrogates,
  nothing above \<open>0x10FFFF\<close>).\<close>

definition second_ok :: "nat \<Rightarrow> nat \<Rightarrow> bool" where
  "second_ok b c \<longleftrightarrow> is_cont c \<and> (b = 0xE0 \<longrightarrow> 0xA0 \<le> c) \<and> (b = 0xED \<longrightarrow> c < 0xA0) \<and>
     (b = 0xF0 \<longrightarrow> 0x90 \<le> c) \<and> (b = 0xF4 \<longrightarrow> c < 0x90)"

text \<open>Each maximal ill-formed run becomes one U+FFFD.\<close>

fun utf8_decode :: "bytes \<Rightarrow> pystr" where
  "utf8_decode [] = []"
| "utf8_decode (b # bs) =
     (if b < 0x80 then b # utf8_decode bs
      else if b < 0xC2 \<or> 0xF5 \<le> b then 0xFFFD # utf8_decode bs
      else if b < 0xE0 then
        (case bs of
           [] \<Rightarrow> [0xFFFD]
         | c # cs \<Rightarrow>
             if is_cont c then ((b - 0xC0) * 64 + (c - 0x80)) # utf8_decode cs
             else 0xFFFD # utf8_decode bs)
      else if b < 0xF0 then
        (case bs of
           [] \<Rightarrow> [0xFFFD]
         | c # cs \<Rightarrow>
             if \<not> second_ok b c then 0xFFFD # utf8_decode bs
             else (case cs of
                     [] \<Rightarrow> [0xFFFD]
                   | d # ds \<Rightarrow>
                       if is_cont d
                       then ((b - 0xE0) * 4096 + (c - 0x80) * 64 + (d - 0x80)) # utf8_decode ds
                       else 0xFFFD # utf8_decode cs))
      else
        (case bs of
           [] \<Rightarrow> [0xFFFD]
         | c # cs \<Rightarrow>
             if \<not> second_ok b c then 0xFFFD # utf8_decode bs
             else (case cs of
                     [] \<Rightarrow> [0xFFFD]
                   | d # ds \<Rightarrow>
                       if \<not> is_cont d then 0xFFFD # utf8_decode cs
                       else (case ds of
                               [] \<Rightarrow> [0xFFFD]
                             | e # es \<Rightarrow>
                                 if is_cont e
                                 then ((b - 0xF0) * 262144 + (c - 0x80) * 4096 + (d - 0x80) * 64
                                       + (e - 0x80)) # utf8_decode es
                                 else 0xFFFD # utf8_decode ds))))"

declare utf8_decode.simps(2) [simp del]

lemma utf8_encode_Nil [simp]: "utf8_encode [] = []"
  and utf8_encode_Cons: "utf8_encode (c # s) = encode_char c @ utf8_encode s"
  and utf8_encode_append: "utf8_encode (s @ t) = utf8_encode s @ utf8_encode t"
  by (simp_all add: utf8_encode_def)

lemma encode_char_nonempty [simp]: "encode_char c \<noteq> []"
  by (simp add: encode_char_def)

lemma encode_char_ascii: "c < 128 \<Longrightarrow> encode_char c = [c]"
  by (simp add: encode_char_def)

lemma length_encode_char: "length (encode_char c) \<le> 4"
  by (simp add: encode_char_def)

lemma asc_ascii_encode: "\<forall>c\<in>set s. c < 128 \<Longrightarrow> utf8_encode s = s"
  by (induction s) (simp_all add: utf8_encode_Cons encode_char_ascii)

lemma div64_split: "(c::nat) = c div 64 * 64 + c mod 64"
  by simp

lemma nat_base64_3: "(c::nat) div 4096 * 4096 + c div 64 mod 64 * 64 + c mod 64 = c"
proof -
  have "c div 4096 = c div 64 div 64" by (simp add: div_mult2_eq)
  moreover have "c div 64 = c div 64 div 64 * 64 + c div 64 mod 64" by simp
  moreover have "c = c div 64 * 64 + c mod 64" by simp
  ultimately show ?thesis by linarith
qed

lemma nat_base64_4:
  "(c::nat) div 262144 * 262144 + c div 4096 mod 64 * 4096 + c div 64 mod 64 * 64 + c mod 64 = c"
proof -
  have "c div 262144 = c div 4096 div 64" by (simp add: div_mult2_eq)
  moreover have "c div 4096 = c div 4096 div 64 * 64 + c div 4096 mod 64" by simp
  moreover have "c div 4096 * 4096 + c div 64 mod 64 * 64 + c mod 64 = c" by (rule nat_base64_3)
  ultimately show ?thesis by linarith
qed

lemma is_cont_plus: "n < 64 \<Longrightarrow> is_cont (128 + n)"
  by (simp add: is_cont_def)

lemma second_ok_3:
  assumes "0x800 \<le> c" "c < 0x10000" "\<not> is_surrogate c"
  shows "second_ok (0xE0 + c div 4096) (0x80 + c div 64 mod 64)"
proof -
  have m: "c div 64 = c div 4096 * 64 + c div 64 mod 64"
    using div_mod_decomp [of "c div 64" 64] by (simp add: div_mult2_eq [symmetric])
  have e0: "c div 4096 = 0 \<Longrightarrow> 32 \<le> c div 64 mod 64"
    using m assms(1) by simp
  have ed: "c div 4096 = 13 \<Longrightarrow> c div 64 mod 64 < 32"
  proof (rule ccontr)
    assume d: "c div 4096 = 13" and n: "\<not> c div 64 mod 64 < 32"
    then have "864 \<le> c div 64" "c div 64 < 896" using m by simp_all
    then show False using assms(3) by (auto simp: is_surrogate_def)
  qed
  have "c div 4096 < 16" using assms(2) by simp
  then show ?thesis using e0 ed by (auto simp: second_ok_def is_cont_def)
qed

lemma second_ok_4:
  assumes "0x10000 \<le> c" "c < 0x110000"
  shows "second_ok (0xF0 + c div 262144) (0x80 + c div 4096 mod 64)"
proof -
  have m: "c div 4096 = c div 262144 * 64 + c div 4096 mod 64"
    using div_mod_decomp [of "c div 4096" 64] by (simp add: div_mult2_eq [symmetric])
  have "c div 262144 = 0 \<Longrightarrow> 16 \<le> c div 4096 mod 64" using m assms(1) by simp
  moreover have "c div 262144 = 4 \<Longrightarrow> c div 4096 mod 64 < 16" using m assms(2) by simp
  moreover have "c div 262144 < 5" using assms(2) by simp
  ultimately show ?thesis by (auto simp: second_ok_def is_cont_def)
qed

lemma decode_encode_char:
  assumes "scalar c"
  shows "utf8_decode (encode_char c @ bs) = c # utf8_decode bs"
proof -
  consider "c < 0x80" | "0x80 \<le> c" "c < 0x800" | "0x800 \<le> c" "c < 0x10000" "\<not> is_surrogate c"
    | "0x10000 \<le> c" "c < 0x110000" "\<not> is_surrogate c"
    using assms by (fastforce simp: scalar_def)
  then show ?thesis
  proof cases
    case 1
    then show ?thesis by (simp add: encode_char_def utf8_decode.simps(2))
  next
    case 2
    moreover from 2 have "2 \<le> c div 64" "c div 64 < 32" by simp_all
    ultimately show ?thesis
      by (simp add: encode_char_def utf8_decode.simps(2) is_cont_plus)
  next
    case 3
    moreover from 3 have "c div 4096 < 16" by simp
    ultimately show ?thesis
      using second_ok_3 [OF 3] nat_base64_3 [of c]
      by (simp add: encode_char_def utf8_decode.simps(2) is_cont_plus)
  next
    case 4
    moreover from 4 have "c div 262144 < 5" by simp
    ultimately show ?thesis
      using second_ok_4 [OF 4(1,2)] nat_base64_4 [of c]
      by (simp add: encode_char_def utf8_decode.simps(2) is_cont_plus)
  qed
qed

lemma decode_encode_append:
  "\<forall>c\<in>set s. scalar c \<Longrightarrow> utf8_decode (utf8_encode s @ bs) = s @ utf8_decode bs"
  by (induction s) (simp_all add: utf8_encode_Cons decode_encode_char)

lemma decode_encode: "\<forall>c\<in>set s. scalar c \<Longrightarrow> utf8_decode (utf8_encode s) = s"
  using decode_encode_append [of s "[]"] by simp

text \<open>A proper non-empty prefix of one character's bytes is a single ill-formed run.\<close>

lemma decode_cut_char:
  assumes "scalar c" "0 < n" "n < length (encode_char c)"
  shows "utf8_decode (take n (encode_char c)) = [0xFFFD]"
proof -
  consider "c < 0x80" | "0x80 \<le> c" "c < 0x800" | "0x800 \<le> c" "c < 0x10000" "\<not> is_surrogate c"
    | "0x10000 \<le> c" "c < 0x110000" "\<not> is_surrogate c"
    using assms by (fastforce simp: scalar_def)
  then show ?thesis
  proof cases
    case 1
    then show ?thesis using assms by (simp add: encode_char_def)
  next
    case 2
    then have "n = 1" using assms by (simp add: encode_char_def)
    moreover from 2 have "2 \<le> c div 64" "c div 64 < 32" by simp_all
    ultimately show ?thesis using 2 by (simp add: encode_char_def utf8_decode.simps(2))
  next
    case 3
    then have "n = 1 \<or> n = 2" using assms by (auto simp: encode_char_def)
    moreover from 3 have "c div 4096 < 16" by simp
    ultimately show ?thesis
      using 3 second_ok_3 [OF 3] by (auto simp: encode_char_def utf8_decode.simps(2))
  next
    case 4
    define b0 where "b0 = c div 262144"
    define b1 where "b1 = c div 4096 mod 64"
    define b2 where "b2 = c div 64 mod 64"
    define b3 where "b3 = c mod 64"
    have e: "encode_char c = [240 + b0, 128 + b1, 128 + b2, 128 + b3]"
      using 4 by (simp add: encode_char_def b0_def b1_def b2_def b3_def)
    have b0: "b0 < 5" using 4 by (simp add: b0_def)
    have ok: "second_ok (240 + b0) (128 + b1)"
      using second_ok_4 [OF 4(1,2)] by (simp add: b0_def b1_def)
    have b2: "b2 < 64" by (simp add: b2_def)
    consider "n = 1" | "n = 2" | "n = 3" using assms(2,3) e by fastforce
    then show ?thesis
    proof cases
      case 1
      with e b0 show ?thesis by (simp add: utf8_decode.simps(2))
    next
      case 2
      with e b0 ok show ?thesis by (simp add: utf8_decode.simps(2))
    next
      case 3
      then have "take n (encode_char c) = [240 + b0, 128 + b1, 128 + b2]"
        using e by (simp add: numeral_eq_Suc)
      with b0 ok b2 show ?thesis by (simp add: utf8_decode.simps(2) is_cont_plus)
    qed
  qed
qed

text \<open>What decoding a byte prefix of an encoded text gives: whole characters, then at most one
  replacement character.\<close>

fun cut_text :: "nat \<Rightarrow> pystr \<Rightarrow> pystr" where
  "cut_text n [] = []"
| "cut_text n (c # s) =
     (if length (encode_char c) \<le> n then c # cut_text (n - length (encode_char c)) s
      else if n = 0 then [] else [0xFFFD])"

lemma decode_take_encode:
  "\<forall>c\<in>set s. scalar c \<Longrightarrow> utf8_decode (take n (utf8_encode s)) = cut_text n s"
proof (induction s arbitrary: n)
  case Nil
  then show ?case by simp
next
  case (Cons c s)
  show ?case
  proof (cases "length (encode_char c) \<le> n")
    case True
    then have "take n (utf8_encode (c # s))
        = encode_char c @ take (n - length (encode_char c)) (utf8_encode s)"
      by (simp add: utf8_encode_Cons)
    with Cons True show ?thesis by (simp add: decode_encode_char)
  next
    case False
    then have "take n (utf8_encode (c # s)) = take n (encode_char c)"
      by (simp add: utf8_encode_Cons)
    with Cons False show ?thesis by (cases "n = 0") (simp_all add: decode_cut_char)
  qed
qed

lemma cut_text_shape:
  "\<exists>k. cut_text n s = take k s \<or> cut_text n s = take k s @ [0xFFFD]"
proof (induction n s rule: cut_text.induct)
  case (1 n)
  then show ?case by simp
next
  case (2 n c s)
  show ?case
  proof (cases "length (encode_char c) \<le> n")
    case True
    with 2 obtain k where "cut_text (n - length (encode_char c)) s = take k s \<or>
        cut_text (n - length (encode_char c)) s = take k s @ [0xFFFD]" by blast
    then have "cut_text n (c # s) = take (Suc k) (c # s) \<or>
        cut_text n (c # s) = take (Suc k) (c # s) @ [0xFFFD]" using True by auto
    then show ?thesis by blast
  next
    case False
    then have "cut_text n (c # s) = take 0 (c # s) \<or>
        cut_text n (c # s) = take 0 (c # s) @ [0xFFFD]" by auto
    then show ?thesis by blast
  qed
qed

lemma cut_text_bytes: "length (utf8_encode (cut_text n s)) \<le> n + 2"
  by (induction n s rule: cut_text.induct)
     (auto simp: utf8_encode_Cons, simp add: encode_char_def is_surrogate_def)

text \<open>An ASCII byte is never part of a longer sequence: decoding splits there.\<close>

lemma not_cont_ascii [simp]: "a < 128 \<Longrightarrow> \<not> is_cont a" "a < 128 \<Longrightarrow> \<not> second_ok b a"
  by (simp_all add: is_cont_def second_ok_def)

lemma decode_ascii [simp]: "a < 128 \<Longrightarrow> utf8_decode (a # bs) = a # utf8_decode bs"
  by (simp add: utf8_decode.simps(2))

lemma decode_step:
  "b < 0x80 \<Longrightarrow> utf8_decode (b # bs) = b # utf8_decode bs"
  "b \<ge> 0x80 \<Longrightarrow> b < 0xC2 \<or> 0xF5 \<le> b \<Longrightarrow> utf8_decode (b # bs) = 0xFFFD # utf8_decode bs"
  "0xC2 \<le> b \<Longrightarrow> b < 0xF5 \<Longrightarrow> utf8_decode [b] = [0xFFFD]"
  "0xC2 \<le> b \<Longrightarrow> b < 0xE0 \<Longrightarrow> utf8_decode (b # c # cs) =
     (if is_cont c then ((b - 0xC0) * 64 + (c - 0x80)) # utf8_decode cs
      else 0xFFFD # utf8_decode (c # cs))"
  "0xE0 \<le> b \<Longrightarrow> b < 0xF5 \<Longrightarrow> \<not> second_ok b c \<Longrightarrow>
     utf8_decode (b # c # cs) = 0xFFFD # utf8_decode (c # cs)"
  "0xE0 \<le> b \<Longrightarrow> b < 0xF5 \<Longrightarrow> second_ok b c \<Longrightarrow> utf8_decode [b, c] = [0xFFFD]"
  "0xE0 \<le> b \<Longrightarrow> b < 0xF0 \<Longrightarrow> second_ok b c \<Longrightarrow> utf8_decode (b # c # d # ds) =
     (if is_cont d then ((b - 0xE0) * 4096 + (c - 0x80) * 64 + (d - 0x80)) # utf8_decode ds
      else 0xFFFD # utf8_decode (d # ds))"
  "0xF0 \<le> b \<Longrightarrow> b < 0xF5 \<Longrightarrow> second_ok b c \<Longrightarrow> \<not> is_cont d \<Longrightarrow>
     utf8_decode (b # c # d # ds) = 0xFFFD # utf8_decode (d # ds)"
  "0xF0 \<le> b \<Longrightarrow> b < 0xF5 \<Longrightarrow> second_ok b c \<Longrightarrow> is_cont d \<Longrightarrow>
     utf8_decode [b, c, d] = [0xFFFD]"
  "0xF0 \<le> b \<Longrightarrow> b < 0xF5 \<Longrightarrow> second_ok b c \<Longrightarrow> is_cont d \<Longrightarrow>
     utf8_decode (b # c # d # e # es) =
       (if is_cont e then ((b - 0xF0) * 262144 + (c - 0x80) * 4096 + (d - 0x80) * 64 + (e - 0x80))
          # utf8_decode es
        else 0xFFFD # utf8_decode (e # es))"
  by (subst utf8_decode.simps(2), simp)+

lemma decode_ascii_split:
  assumes "a < 128"
  shows "utf8_decode (xs @ a # ys) = utf8_decode xs @ a # utf8_decode ys"
proof (induction xs rule: length_induct)
  case (1 xs)
  have IH: "length zs < length xs \<Longrightarrow> utf8_decode (zs @ a # ys) = utf8_decode zs @ a # utf8_decode ys"
    for zs using 1 by blast
  note n = not_cont_ascii [OF assms]
  show ?case
  proof (cases xs)
    case Nil
    then show ?thesis using assms by simp
  next
    case (Cons b bs)
    note IHb = IH [unfolded Cons]
    consider "b < 0x80" | "b \<ge> 0x80" "b < 0xC2 \<or> 0xF5 \<le> b" | "0xC2 \<le> b" "b < 0xE0"
      | "0xE0 \<le> b" "b < 0xF0" | "0xF0 \<le> b" "b < 0xF5" by linarith
    then show ?thesis
    proof cases
      case 1
      then show ?thesis using IHb [of bs] by (simp add: Cons decode_step)
    next
      case 2
      then show ?thesis using IHb [of bs] by (simp add: Cons decode_step(2))
    next
      case 3
      show ?thesis
      proof (cases bs)
        case Nil
        then show ?thesis using 3 n assms by (simp add: Cons decode_step(3,4))
      next
        case (Cons c cs)
        then show ?thesis
          using 3 IHb [of cs] IHb [of bs] \<open>xs = b # bs\<close> by (simp add: decode_step(4))
      qed
    next
      case 4
      show ?thesis
      proof (cases bs)
        case Nil
        then show ?thesis using 4 n assms by (simp add: Cons decode_step(3,5))
      next
        case c: (Cons c cs)
        show ?thesis
        proof (cases "second_ok b c")
          case False
          then show ?thesis using 4 IHb [of bs] c \<open>xs = b # bs\<close> by (simp add: decode_step(5))
        next
          case True
          show ?thesis
          proof (cases cs)
            case Nil
            then show ?thesis
              using 4 True n assms c \<open>xs = b # bs\<close> by (simp add: decode_step(6,7))
          next
            case (Cons d ds)
            then show ?thesis
              using 4 True IHb [of ds] IHb [of cs] c \<open>xs = b # bs\<close> by (simp add: decode_step(7))
          qed
        qed
      qed
    next
      case 5
      show ?thesis
      proof (cases bs)
        case Nil
        then show ?thesis using 5 n assms by (simp add: Cons decode_step(3,5))
      next
        case c: (Cons c cs)
        show ?thesis
        proof (cases "second_ok b c")
          case False
          then show ?thesis using 5 IHb [of bs] c \<open>xs = b # bs\<close> by (simp add: decode_step(5))
        next
          case True
          show ?thesis
          proof (cases cs)
            case Nil
            then show ?thesis
              using 5 True n assms c \<open>xs = b # bs\<close> by (simp add: decode_step(6,8))
          next
            case d: (Cons d ds)
            show ?thesis
            proof (cases "is_cont d")
              case False
              then show ?thesis
                using 5 True IHb [of cs] c d \<open>xs = b # bs\<close> by (simp add: decode_step(8))
            next
              case dc: True
              show ?thesis
              proof (cases ds)
                case Nil
                then show ?thesis
                  using 5 True dc n assms c d \<open>xs = b # bs\<close> by (simp add: decode_step(9,10))
              next
                case (Cons e es)
                then show ?thesis
                  using 5 True dc IHb [of es] IHb [of ds] c d \<open>xs = b # bs\<close>
                  by (simp add: decode_step(10))
              qed
            qed
          qed
        qed
      qed
    qed
  qed
qed

text \<open>Encoding writes a lone surrogate as \<open>?\<close>; after that replacement the text is scalar.\<close>

definition scrub_surrogates :: "pystr \<Rightarrow> pystr" where
  "scrub_surrogates s = map (\<lambda>c. if is_surrogate c then 63 else c) s"

lemma encode_scrub: "utf8_encode (scrub_surrogates s) = utf8_encode s"
  by (induction s)
     (auto simp: scrub_surrogates_def utf8_encode_Cons encode_char_def is_surrogate_def)

lemma scalar_scrub: "wf_str s \<Longrightarrow> \<forall>c\<in>set (scrub_surrogates s). scalar c"
  by (auto simp: scrub_surrogates_def wf_str_def scalar_def is_surrogate_def)

text \<open>\<open>sha256_hex\<close> over the parameter \<open>sha\<close>, the hexadecimal SHA-256 of a byte string. The
  encoding is injective on text without lone surrogates.\<close>

definition sha256_hex :: "(bytes \<Rightarrow> pystr) \<Rightarrow> pystr \<Rightarrow> pystr" where
  "sha256_hex sha s = sha (utf8_encode s)"

lemma utf8_encode_inj:
  "\<forall>c\<in>set s. scalar c \<Longrightarrow> \<forall>c\<in>set t. scalar c \<Longrightarrow> utf8_encode s = utf8_encode t \<Longrightarrow> s = t"
  by (metis decode_encode)

lemma scalar_asc [simp]: "\<forall>c\<in>set (asc s). scalar c"
proof
  fix c assume "c \<in> set (asc s)"
  then obtain x where "c = of_char x" by (auto simp: asc_def)
  then have "c < 256" by simp
  then show "scalar c" by (simp add: scalar_def is_surrogate_def)
qed

subsection \<open>\<open>clamp\<close>, \<open>truncate\<close>, \<open>gen_id\<close>, \<open>fmt_exc\<close>\<close>

definition clamp :: "int \<Rightarrow> int \<Rightarrow> int \<Rightarrow> int" where
  "clamp value lo hi =
     (let (lo, hi) = (if lo > hi then (hi, lo) else (lo, hi)) in max lo (min hi value))"

text \<open>The slice \<open>raw[:limit]\<close> with Python's negative indices.\<close>

definition slice_to :: "'a list \<Rightarrow> int \<Rightarrow> 'a list" where
  "slice_to xs k = (if k < 0 then take (length xs - nat (- k)) xs else take (nat k) xs)"

definition truncate_marker :: "nat \<Rightarrow> int \<Rightarrow> pystr" where
  "truncate_marker n limit =
     [10, 10] @ asc ''[TRUNCATED - '' @ show_int (int n) @ asc '' bytes total, '' @ show_int limit
       @ asc '' shown]''"

definition truncate_str :: "pystr \<Rightarrow> int \<Rightarrow> pystr" where
  "truncate_str text limit =
     (let raw = utf8_encode text in
      if int (length raw) \<le> limit then text
      else utf8_decode (slice_to raw limit) @ truncate_marker (length raw) limit)"

text \<open>\<open>secrets.token_hex(6)\<close> is the parameter \<open>rnd\<close>.\<close>

definition gen_id :: "pystr \<Rightarrow> pystr \<Rightarrow> pystr" where
  "gen_id prefix rnd = prefix @ asc ''-'' @ rnd"

text \<open>An exception as the formatter sees it: its class name and \<open>str(exc)\<close>.\<close>

record exn =
  exn_class :: pystr
  exn_text :: pystr

definition fmt_exc :: "exn \<Rightarrow> pystr" where
  "fmt_exc e =
     (let m = strip (exn_text e); msg = (if m = [] then exn_class e else m) in
      asc ''[ERROR: '' @ exn_class e @ asc '': '' @ msg @ asc '']'')"

lemma clamp_bounds: "lo \<le> hi \<Longrightarrow> lo \<le> clamp v lo hi \<and> clamp v lo hi \<le> hi"
  by (simp add: clamp_def)

lemma clamp_id: "lo \<le> v \<Longrightarrow> v \<le> hi \<Longrightarrow> clamp v lo hi = v"
  by (simp add: clamp_def)

lemma clamp_swap: "clamp v lo hi = clamp v hi lo"
  by (simp add: clamp_def)

lemma truncate_short: "int (length (utf8_encode t)) \<le> limit \<Longrightarrow> truncate_str t limit = t"
  by (simp add: truncate_str_def)

lemma truncate_long:
  assumes "wf_str t" "0 \<le> limit" "limit < int (length (utf8_encode t))"
  shows "truncate_str t limit = cut_text (nat limit) (scrub_surrogates t)
           @ truncate_marker (length (utf8_encode t)) limit"
proof -
  have "utf8_decode (slice_to (utf8_encode t) limit) = cut_text (nat limit) (scrub_surrogates t)"
    using assms decode_take_encode [OF scalar_scrub [OF assms(1)], of "nat limit"]
    by (simp add: slice_to_def encode_scrub)
  then show ?thesis using assms by (simp add: truncate_str_def)
qed

end
