(* ===== verification/Json.thy ===== *)
theory Json
  imports Util
begin

text \<open>
  The part of Python's \<open>json\<close> module the program relies on: \<open>json.dumps\<close> with its
  separators, \<open>ensure_ascii\<close> and \<open>sort_keys\<close>, and \<open>json.loads\<close>. A float is carried
  by its literal. The round trip is proved for every separator choice the program uses; it
  is what lets the audit log, the OAuth stores and the evidence anchors be read back. The
  locale \<open>json_codec\<close> is the interface those clients use.
\<close>

datatype json =
    JNull
  | JBool bool
  | JInt int
  | JFloat pystr
  | JStr pystr
  | JList "json list"
  | JObj "(pystr \<times> json) list"

record json_fmt =
  fmt_ascii :: bool
  fmt_item :: pystr
  fmt_key :: pystr

text \<open>\<open>json.dumps(v, ensure_ascii=False)\<close>; the same with \<open>separators=(",", ":")\<close>; and the
  default \<open>json.dumps(v)\<close>.\<close>

definition fmt_plain :: json_fmt where
  "fmt_plain = \<lparr>fmt_ascii = False, fmt_item = asc '', '', fmt_key = asc '': ''\<rparr>"

definition fmt_compact :: json_fmt where
  "fmt_compact = \<lparr>fmt_ascii = False, fmt_item = asc '','', fmt_key = asc '':''\<rparr>"

definition fmt_default :: json_fmt where
  "fmt_default = \<lparr>fmt_ascii = True, fmt_item = asc '', '', fmt_key = asc '': ''\<rparr>"

subsection \<open>Writing\<close>

definition hex_digit :: "nat \<Rightarrow> nat" where
  "hex_digit n = (if n < 10 then 48 + n else 87 + n)"

definition hex4 :: "nat \<Rightarrow> pystr" where
  "hex4 n = [hex_digit (n div 4096 mod 16), hex_digit (n div 256 mod 16),
             hex_digit (n div 16 mod 16), hex_digit (n mod 16)]"

definition u_escape :: "nat \<Rightarrow> pystr" where
  "u_escape n = 92 # 117 # hex4 n"

definition esc_char :: "bool \<Rightarrow> nat \<Rightarrow> pystr" where
  "esc_char ascii c =
     (if c = 34 then [92, 34]
      else if c = 92 then [92, 92]
      else if c = 10 then [92, 110]
      else if c = 13 then [92, 114]
      else if c = 9 then [92, 116]
      else if c = 12 then [92, 102]
      else if c = 8 then [92, 98]
      else if c < 32 then u_escape c
      else if \<not> ascii \<or> c < 127 then [c]
      else if c < 0x10000 then u_escape c
      else u_escape (0xD800 + (c - 0x10000) div 1024) @ u_escape (0xDC00 + (c - 0x10000) mod 1024))"

definition dump_str :: "bool \<Rightarrow> pystr \<Rightarrow> pystr" where
  "dump_str ascii s = [34] @ concat (map (esc_char ascii) s) @ [34]"

fun dumps :: "json_fmt \<Rightarrow> json \<Rightarrow> pystr"
and dumps_items :: "json_fmt \<Rightarrow> json list \<Rightarrow> pystr"
and dumps_members :: "json_fmt \<Rightarrow> (pystr \<times> json) list \<Rightarrow> pystr" where
  "dumps f JNull = asc ''null''"
| "dumps f (JBool b) = (if b then asc ''true'' else asc ''false'')"
| "dumps f (JInt i) = show_int i"
| "dumps f (JFloat t) = t"
| "dumps f (JStr s) = dump_str (fmt_ascii f) s"
| "dumps f (JList vs) = [91] @ dumps_items f vs @ [93]"
| "dumps f (JObj kvs) = [123] @ dumps_members f kvs @ [125]"
| "dumps_items f [] = []"
| "dumps_items f (v # vs) =
     dumps f v @ (if vs = [] then [] else fmt_item f @ dumps_items f vs)"
| "dumps_members f [] = []"
| "dumps_members f ((k, v) # kvs) =
     dump_str (fmt_ascii f) k @ fmt_key f @ dumps f v @
       (if kvs = [] then [] else fmt_item f @ dumps_members f kvs)"

text \<open>\<open>sort_keys=True\<close>: every object is written in key order.\<close>

fun sort_json :: "json \<Rightarrow> json"
and sort_items :: "json list \<Rightarrow> json list"
and sort_members :: "(pystr \<times> json) list \<Rightarrow> (pystr \<times> json) list" where
  "sort_json (JList vs) = JList (sort_items vs)"
| "sort_json (JObj kvs) = JObj (sort_key fst (sort_members kvs))"
| "sort_json v = v"
| "sort_items [] = []"
| "sort_items (v # vs) = sort_json v # sort_items vs"
| "sort_members [] = []"
| "sort_members ((k, v) # kvs) = (k, sort_json v) # sort_members kvs"

subsection \<open>Reading\<close>

definition is_ws :: "nat \<Rightarrow> bool" where
  "is_ws c \<longleftrightarrow> c = 32 \<or> c = 9 \<or> c = 10 \<or> c = 13"

definition skip_ws :: "pystr \<Rightarrow> pystr" where
  "skip_ws s = dropWhile is_ws s"

definition hex_val :: "nat \<Rightarrow> nat option" where
  "hex_val c =
     (if 48 \<le> c \<and> c \<le> 57 then Some (c - 48)
      else if 97 \<le> c \<and> c \<le> 102 then Some (c - 87)
      else if 65 \<le> c \<and> c \<le> 70 then Some (c - 55) else None)"

definition hex4_val :: "pystr \<Rightarrow> nat option" where
  "hex4_val s =
     (case s of
        a # b # c # d # _ \<Rightarrow>
          (case (hex_val a, hex_val b, hex_val c, hex_val d) of
             (Some x, Some y, Some z, Some w) \<Rightarrow> Some (x * 4096 + y * 256 + z * 16 + w)
           | _ \<Rightarrow> None)
      | _ \<Rightarrow> None)"

text \<open>The low half of an escaped surrogate pair, if \<open>s\<close> starts with one.\<close>

definition low_half :: "pystr \<Rightarrow> nat option" where
  "low_half s =
     (if take 2 s = [92, 117]
      then (case hex4_val (drop 2 s) of
              Some l \<Rightarrow> if 0xDC00 \<le> l \<and> l \<le> 0xDFFF then Some l else None
            | None \<Rightarrow> None)
      else None)"

definition unescape :: "nat \<Rightarrow> nat option" where
  "unescape e =
     (if e = 34 then Some 34 else if e = 92 then Some 92 else if e = 47 then Some 47
      else if e = 98 then Some 8 else if e = 102 then Some 12 else if e = 110 then Some 10
      else if e = 114 then Some 13 else if e = 116 then Some 9 else None)"

definition cons_fst :: "'a \<Rightarrow> ('a list \<times> 'b) option \<Rightarrow> ('a list \<times> 'b) option" where
  "cons_fst x r = map_option (\<lambda>(xs, t). (x # xs, t)) r"

lemma cons_fst_Some [simp]: "cons_fst x (Some (xs, t)) = Some (x # xs, t)"
  by (simp add: cons_fst_def)

function parse_str :: "pystr \<Rightarrow> (pystr \<times> pystr) option" where
  "parse_str [] = None"
| "parse_str (c # s) =
     (if c = 34 then Some ([], s)
      else if c = 92 then
        (case s of
           [] \<Rightarrow> None
         | e # t \<Rightarrow>
             if e = 117 then
               (case hex4_val t of
                  None \<Rightarrow> None
                | Some h \<Rightarrow>
                    (case (if 0xD800 \<le> h \<and> h \<le> 0xDBFF then low_half (drop 4 t) else None) of
                       Some l \<Rightarrow>
                         cons_fst (0x10000 + (h - 0xD800) * 1024 + (l - 0xDC00))
                           (parse_str (drop 10 t))
                     | None \<Rightarrow> cons_fst h (parse_str (drop 4 t))))
             else (case unescape e of
                     None \<Rightarrow> None
                   | Some x \<Rightarrow> cons_fst x (parse_str t)))
      else if c < 32 then None
      else cons_fst c (parse_str s))"
  by pat_completeness auto
termination
  by (relation "measure length") auto

declare parse_str.simps(2) [simp del]

definition is_numchar :: "nat \<Rightarrow> bool" where
  "is_numchar c \<longleftrightarrow> is_digit c \<or> c = 45 \<or> c = 43 \<or> c = 46 \<or> c = 101 \<or> c = 69"

text \<open>\<open>-?(0|[1-9][0-9]*)\<close>\<close>

definition is_nat_lit :: "pystr \<Rightarrow> bool" where
  "is_nat_lit s \<longleftrightarrow> s \<noteq> [] \<and> (\<forall>c\<in>set s. is_digit c) \<and> (hd s = 48 \<longrightarrow> tl s = [])"

definition is_int_lit :: "pystr \<Rightarrow> bool" where
  "is_int_lit s \<longleftrightarrow> is_nat_lit (if s \<noteq> [] \<and> hd s = 45 then tl s else s)"

definition int_of_lit :: "pystr \<Rightarrow> int" where
  "int_of_lit s = (if s \<noteq> [] \<and> hd s = 45 then - int (undigits (tl s)) else int (undigits s))"

text \<open>An integer literal followed by a fraction, an exponent or both.\<close>

definition is_exponent :: "pystr \<Rightarrow> bool" where
  "is_exponent s \<longleftrightarrow> s \<noteq> [] \<and> (hd s = 101 \<or> hd s = 69) \<and>
     (let d = (if tl s \<noteq> [] \<and> (hd (tl s) = 43 \<or> hd (tl s) = 45) then tl (tl s) else tl s)
      in d \<noteq> [] \<and> (\<forall>c\<in>set d. is_digit c))"

definition is_float_lit :: "pystr \<Rightarrow> bool" where
  "is_float_lit s \<longleftrightarrow>
     (let sign = (if s \<noteq> [] \<and> hd s = 45 then [45] else []);
          body = (if s \<noteq> [] \<and> hd s = 45 then tl s else s);
          ip = takeWhile is_digit body;
          rest = dropWhile is_digit body
      in is_int_lit (sign @ ip) \<and> rest \<noteq> [] \<and>
         (if hd rest = 46
          then (let fp = takeWhile is_digit (tl rest); ex = dropWhile is_digit (tl rest)
                in fp \<noteq> [] \<and> (ex = [] \<or> is_exponent ex))
          else is_exponent rest))"

definition parse_number :: "pystr \<Rightarrow> (json \<times> pystr) option" where
  "parse_number s =
     (let t = takeWhile is_numchar s; r = dropWhile is_numchar s in
      if is_int_lit t then Some (JInt (int_of_lit t), r)
      else if is_float_lit t then Some (JFloat t, r)
      else None)"

definition parse_const :: "pystr \<Rightarrow> (json \<times> pystr) option" where
  "parse_const s =
     (if starts_with (asc ''null'') s then Some (JNull, drop 4 s)
      else if starts_with (asc ''true'') s then Some (JBool True, drop 4 s)
      else if starts_with (asc ''false'') s then Some (JBool False, drop 5 s)
      else if starts_with (asc ''NaN'') s then Some (JFloat (asc ''NaN''), drop 3 s)
      else if starts_with (asc ''Infinity'') s then Some (JFloat (asc ''Infinity''), drop 8 s)
      else if starts_with (asc ''-Infinity'') s then Some (JFloat (asc ''-Infinity''), drop 9 s)
      else None)"

text \<open>The fuel bounds the nesting and the number of elements; the length of the text is enough.
  A repeated key keeps its first position and its last value, as in a Python dict.\<close>

fun parse_value :: "nat \<Rightarrow> pystr \<Rightarrow> (json \<times> pystr) option"
and parse_items :: "nat \<Rightarrow> pystr \<Rightarrow> (json list \<times> pystr) option"
and parse_members :: "nat \<Rightarrow> (pystr \<times> json) list \<Rightarrow> pystr \<Rightarrow>
     ((pystr \<times> json) list \<times> pystr) option" where
  "parse_value 0 s = None"
| "parse_value (Suc n) s =
     (case s of
        [] \<Rightarrow> None
      | c # r \<Rightarrow>
          if c = 34 then map_option (\<lambda>(x, t). (JStr x, t)) (parse_str r)
          else if c = 91 then
            (if skip_ws r \<noteq> [] \<and> hd (skip_ws r) = 93 then Some (JList [], tl (skip_ws r))
             else map_option (\<lambda>(x, t). (JList x, t)) (parse_items n (skip_ws r)))
          else if c = 123 then
            (if skip_ws r \<noteq> [] \<and> hd (skip_ws r) = 125 then Some (JObj [], tl (skip_ws r))
             else map_option (\<lambda>(x, t). (JObj x, t)) (parse_members n [] (skip_ws r)))
          else (case parse_const s of Some p \<Rightarrow> Some p | None \<Rightarrow> parse_number s))"
| "parse_items 0 s = None"
| "parse_items (Suc n) s =
     (case parse_value n s of
        None \<Rightarrow> None
      | Some (v, r) \<Rightarrow>
          (case skip_ws r of
             [] \<Rightarrow> None
           | c # t \<Rightarrow>
               if c = 93 then Some ([v], t)
               else if c = 44 then cons_fst v (parse_items n (skip_ws t))
               else None))"
| "parse_members 0 d s = None"
| "parse_members (Suc n) d s =
     (case s of
        [] \<Rightarrow> None
      | q # s' \<Rightarrow>
          if q \<noteq> 34 then None
          else (case parse_str s' of
                  None \<Rightarrow> None
                | Some (k, r) \<Rightarrow>
                    (case skip_ws r of
                       [] \<Rightarrow> None
                     | c # t \<Rightarrow>
                         if c \<noteq> 58 then None
                         else (case parse_value n (skip_ws t) of
                                 None \<Rightarrow> None
                               | Some (v, r') \<Rightarrow>
                                   (case skip_ws r' of
                                      [] \<Rightarrow> None
                                    | e # t' \<Rightarrow>
                                        if e = 125 then Some (dset k v d, t')
                                        else if e = 44
                                        then parse_members n (dset k v d) (skip_ws t')
                                        else None)))))"

definition loads :: "pystr \<Rightarrow> json option" where
  "loads s =
     (case parse_value (Suc (length s)) (skip_ws s) of
        None \<Rightarrow> None
      | Some (v, r) \<Rightarrow> if skip_ws r = [] then Some v else None)"

subsection \<open>Strings read back\<close>

lemma hex_val_digit: "n < 16 \<Longrightarrow> hex_val (hex_digit n) = Some n"
  by (auto simp: hex_val_def hex_digit_def)

lemma hex4_val_hex4:
  assumes "n < 65536"
  shows "hex4_val (hex4 n @ s) = Some n"
proof -
  have "n div 4096 * 4096 + n div 256 mod 16 * 256 + n div 16 mod 16 * 16 + n mod 16 = n"
  proof -
    have "n = n div 16 * 16 + n mod 16" by simp
    moreover have "n div 16 = n div 256 * 16 + n div 16 mod 16"
      using div_mod_decomp [of "n div 16" 16] by (simp add: div_mult2_eq [symmetric])
    moreover have "n div 256 = n div 4096 * 16 + n div 256 mod 16"
      using div_mod_decomp [of "n div 256" 16] by (simp add: div_mult2_eq [symmetric])
    ultimately show ?thesis by linarith
  qed
  moreover have "n div 4096 < 16" using assms by simp
  ultimately show ?thesis by (simp add: hex4_def hex4_val_def hex_val_digit)
qed

lemma length_hex4 [simp]: "length (hex4 n) = 4"
  by (simp add: hex4_def)

lemma drop_hex4 [simp]: "drop 4 (hex4 n @ s) = s"
  by (simp add: hex4_def)

lemma drop_hex4_more: "drop 10 (hex4 n @ 92 # 117 # hex4 l @ s) = s"
  by (simp add: hex4_def)

lemma low_half_pair:
  "0xDC00 \<le> l \<Longrightarrow> l \<le> 0xDFFF \<Longrightarrow> low_half (92 # 117 # hex4 l @ s) = Some l"
  by (simp add: low_half_def hex4_val_hex4)

lemma parse_str_u_escape:
  assumes "c < 65536" "\<not> is_surrogate c"
  shows "parse_str (u_escape c @ s) = cons_fst c (parse_str s)"
  using assms
  by (auto simp: u_escape_def parse_str.simps(2) hex4_val_hex4 is_surrogate_def)

lemma parse_str_pair:
  assumes "0xD800 \<le> h" "h \<le> 0xDBFF" "0xDC00 \<le> l" "l \<le> 0xDFFF"
  shows "parse_str (u_escape h @ u_escape l @ s)
           = cons_fst (0x10000 + (h - 0xD800) * 1024 + (l - 0xDC00)) (parse_str s)"
proof -
  have "hex4_val (hex4 h @ 92 # 117 # hex4 l @ s) = Some h"
    using assms by (intro hex4_val_hex4) simp
  then show ?thesis
    using assms low_half_pair [OF assms(3,4), of s] drop_hex4_more [of h l s]
    by (simp add: u_escape_def parse_str.simps(2))
qed

lemma parse_str_esc_char:
  assumes "ascii \<longrightarrow> scalar c"
  shows "parse_str (esc_char ascii c @ s) = cons_fst c (parse_str s)"
proof -
  have simple: "parse_str (92 # e # s) = cons_fst c (parse_str s)"
    if "e \<noteq> 117" "unescape e = Some c" for e
    using that by (simp add: parse_str.simps(2))
  consider "c = 34" | "c = 92" | "c = 10" | "c = 13" | "c = 9" | "c = 12" | "c = 8"
    | "c < 32" "c \<notin> {10, 13, 9, 12, 8}"
    | "32 \<le> c" "c \<notin> {34, 92}" "\<not> ascii \<or> c < 127"
    | "127 \<le> c" "ascii" "c < 0x10000"
    | "ascii" "0x10000 \<le> c" by fastforce
  then show ?thesis
  proof cases
    case 8
    then have "esc_char ascii c = u_escape c" by (auto simp: esc_char_def)
    then show ?thesis using 8 by (simp add: parse_str_u_escape is_surrogate_def)
  next
    case 9
    then have "esc_char ascii c = [c]" by (auto simp: esc_char_def)
    then show ?thesis using 9 by (simp add: parse_str.simps(2))
  next
    case 10
    then have "esc_char ascii c = u_escape c" by (auto simp: esc_char_def)
    moreover have "\<not> is_surrogate c" using assms 10 by (simp add: scalar_def)
    ultimately show ?thesis using 10 by (simp add: parse_str_u_escape)
  next
    case 11
    define h where "h = 0xD800 + (c - 0x10000) div 1024"
    define l where "l = 0xDC00 + (c - 0x10000) mod 1024"
    have c: "c < 0x110000" using assms 11 by (simp add: scalar_def)
    have h: "0xD800 \<le> h" "h \<le> 0xDBFF" using c by (simp_all add: h_def)
    have l: "0xDC00 \<le> l" "l \<le> 0xDFFF" by (simp_all add: l_def)
    have "(c - 0x10000) div 1024 * 1024 + (c - 0x10000) mod 1024 = c - 0x10000" by simp
    then have "0x10000 + (h - 0xD800) * 1024 + (l - 0xDC00) = c"
      using 11 by (simp add: h_def l_def)
    moreover have "esc_char ascii c = u_escape h @ u_escape l"
      using 11 by (simp add: esc_char_def h_def l_def)
    ultimately show ?thesis using parse_str_pair [OF h l, of s] by simp
  qed (auto simp: esc_char_def simple unescape_def)
qed

lemma parse_str_escaped:
  assumes "ascii \<longrightarrow> (\<forall>c\<in>set x. scalar c)"
  shows "parse_str (concat (map (esc_char ascii) x) @ 34 # r) = Some (x, r)"
  using assms
  by (induction x) (simp_all add: parse_str.simps(2) parse_str_esc_char)

subsection \<open>Numbers and constants read back\<close>

definition delimited :: "pystr \<Rightarrow> bool" where
  "delimited r \<longleftrightarrow> r = [] \<or> \<not> is_numchar (hd r)"

lemma takeWhile_delimited:
  assumes "\<forall>c\<in>set t. is_numchar c" "delimited r"
  shows "takeWhile is_numchar (t @ r) = t" "dropWhile is_numchar (t @ r) = r"
  using assms by (cases r; simp add: delimited_def)+

lemma is_nat_lit_digits: "is_nat_lit (digits n)"
proof (induction n rule: digits.induct)
  case (1 n)
  show ?case
  proof (cases "n < 10")
    case True
    then show ?thesis by (simp add: digits.simps [of n] is_nat_lit_def is_digit_def)
  next
    case False
    then have "is_nat_lit (digits (n div 10))" by (rule "1.IH")
    moreover have "hd (digits (n div 10)) \<noteq> 48"
    proof
      assume z: "hd (digits (n div 10)) = 48"
      with calculation have "digits (n div 10) = [48]"
        by (metis digits_nonempty is_nat_lit_def list.collapse)
      then have "n div 10 = 0"
        by (metis undigits_digits digits.simps le0 le_add1 le_numeral_extra(4) not_numeral_less_zero
            add.right_neutral less_numeral_extra(3) undigits_digits zero_less_numeral)
      with False show False by simp
    qed
    ultimately show ?thesis
      using False by (auto simp: digits.simps [of n] is_nat_lit_def is_digit_def)
  qed
qed

lemma show_int_numchars: "c \<in> set (show_int i) \<Longrightarrow> is_numchar c"
  by (auto simp: show_int_def is_numchar_def dest: digits_are_digits split: if_splits)

lemma hd_digits_not_minus: "hd (digits n) \<noteq> 45"
  using digits_are_digits [of "hd (digits n)" n] by (auto simp: is_digit_def)

lemma int_lit_show_int: "is_int_lit (show_int i)" "int_of_lit (show_int i) = i"
  using hd_digits_not_minus
  by (auto simp: is_int_lit_def int_of_lit_def show_int_def is_nat_lit_digits)

lemma parse_number_int: "delimited r \<Longrightarrow> parse_number (show_int i @ r) = Some (JInt i, r)"
  using takeWhile_delimited [of "show_int i" r] show_int_numchars [of _ i]
  by (simp only: parse_number_def Let_def int_lit_show_int ball_simps) (auto simp: int_lit_show_int)

text \<open>Constants start with a letter, or with \<open>-I\<close>; literals never do.\<close>

lemma parse_const_number:
  assumes "\<forall>c\<in>set t. is_numchar c" "t \<noteq> []" "t \<noteq> [45]"
  shows "parse_const (t @ r) = None"
proof -
  obtain a t' where t: "t = a # t'" using assms(2) by (cases t) auto
  have a: "a \<noteq> 110" "a \<noteq> 116" "a \<noteq> 102" "a \<noteq> 78" "a \<noteq> 73"
    using assms(1) t by (auto simp: is_numchar_def is_digit_def)
  have "\<not> starts_with (asc ''-Infinity'') (t @ r)"
  proof (cases t')
    case Nil
    then show ?thesis using assms(3) t by (simp add: starts_with_def asc_def)
  next
    case (Cons b t'')
    then have "b \<noteq> 73" using assms(1) t by (auto simp: is_numchar_def is_digit_def)
    then show ?thesis using t Cons by (simp add: starts_with_def asc_def)
  qed
  then show ?thesis using t a by (simp add: parse_const_def starts_with_def asc_def)
qed

subsection \<open>The round trip\<close>

definition wf_float :: "pystr \<Rightarrow> bool" where
  "wf_float t \<longleftrightarrow> t \<in> {asc ''NaN'', asc ''Infinity'', asc ''-Infinity''} \<or>
     (is_float_lit t \<and> \<not> is_int_lit t \<and> (\<forall>c\<in>set t. is_numchar c))"

text \<open>Values \<open>json.dumps\<close> can be given: floats are literals, dictionaries have distinct keys,
  and under \<open>ensure_ascii\<close> no lone surrogates (the escapes of two adjacent halves read back
  as one character).\<close>

fun wf_json :: "bool \<Rightarrow> json \<Rightarrow> bool"
and wf_items :: "bool \<Rightarrow> json list \<Rightarrow> bool"
and wf_members :: "bool \<Rightarrow> (pystr \<times> json) list \<Rightarrow> bool" where
  "wf_json a (JFloat t) \<longleftrightarrow> wf_float t"
| "wf_json a (JStr s) \<longleftrightarrow> (a \<longrightarrow> (\<forall>c\<in>set s. scalar c))"
| "wf_json a (JList vs) \<longleftrightarrow> wf_items a vs"
| "wf_json a (JObj kvs) \<longleftrightarrow> distinct (map fst kvs) \<and> wf_members a kvs"
| "wf_json a v \<longleftrightarrow> True"
| "wf_items a [] \<longleftrightarrow> True"
| "wf_items a (v # vs) \<longleftrightarrow> wf_json a v \<and> wf_items a vs"
| "wf_members a [] \<longleftrightarrow> True"
| "wf_members a ((k, v) # kvs) \<longleftrightarrow>
     (a \<longrightarrow> (\<forall>c\<in>set k. scalar c)) \<and> wf_json a v \<and> wf_members a kvs"

definition wf_fmt :: "json_fmt \<Rightarrow> bool" where
  "wf_fmt f \<longleftrightarrow>
     fmt_item f \<noteq> [] \<and> hd (fmt_item f) = 44 \<and> (\<forall>c\<in>set (tl (fmt_item f)). is_ws c) \<and>
     fmt_key f \<noteq> [] \<and> hd (fmt_key f) = 58 \<and> (\<forall>c\<in>set (tl (fmt_key f)). is_ws c)"

lemma wf_fmts [simp]: "wf_fmt fmt_plain" "wf_fmt fmt_compact" "wf_fmt fmt_default"
  by (simp_all add: wf_fmt_def fmt_plain_def fmt_compact_def fmt_default_def asc_def is_ws_def)

text \<open>The recursion depth the parser needs.\<close>

fun need :: "json \<Rightarrow> nat"
and need_items :: "json list \<Rightarrow> nat"
and need_members :: "(pystr \<times> json) list \<Rightarrow> nat" where
  "need (JList vs) = Suc (need_items vs)"
| "need (JObj kvs) = Suc (need_members kvs)"
| "need JNull = 1"
| "need (JBool b) = 1"
| "need (JInt i) = 1"
| "need (JFloat t) = 1"
| "need (JStr s) = 1"
| "need_items [] = 0"
| "need_items (v # vs) = Suc (max (need v) (need_items vs))"
| "need_members [] = 0"
| "need_members ((k, v) # kvs) = Suc (max (need v) (need_members kvs))"

lemma float_lit_shape:
  assumes "is_float_lit t"
  shows "t \<noteq> []" "t \<noteq> [45]"
  using assms by (auto simp: is_float_lit_def is_int_lit_def is_nat_lit_def is_digit_def Let_def)

lemma first_char:
  assumes "wf_json a v"
  shows "dumps f v \<noteq> [] \<and> \<not> is_ws (hd (dumps f v)) \<and> hd (dumps f v) \<noteq> 93 \<and> hd (dumps f v) \<noteq> 125"
proof (cases v)
  case JNull
  then show ?thesis by (simp add: asc_def is_ws_def)
next
  case (JBool b)
  then show ?thesis by (simp add: asc_def is_ws_def)
next
  case (JInt i)
  have "show_int i \<noteq> []" by (simp add: show_int_def)
  moreover from this have "is_numchar (hd (show_int i))"
    by (intro show_int_numchars) (rule hd_in_set)
  ultimately show ?thesis using JInt by (auto simp: is_numchar_def is_digit_def is_ws_def)
next
  case (JFloat t)
  show ?thesis
  proof (cases "is_float_lit t \<and> (\<forall>c\<in>set t. is_numchar c)")
    case True
    then have "t \<noteq> []" "is_numchar (hd t)" using float_lit_shape by auto
    then show ?thesis using JFloat by (auto simp: is_numchar_def is_digit_def is_ws_def)
  next
    case False
    then show ?thesis using JFloat assms by (auto simp: wf_float_def asc_def is_ws_def)
  qed
next
  case (JStr x)
  then show ?thesis by (simp add: dump_str_def is_ws_def)
next
  case (JList x)
  then show ?thesis by (simp add: is_ws_def)
next
  case (JObj x)
  then show ?thesis by (simp add: is_ws_def)
qed

lemma skip_ws_id: "s \<noteq> [] \<Longrightarrow> \<not> is_ws (hd s) \<Longrightarrow> skip_ws (s @ r) = s @ r"
  by (cases s) (simp_all add: skip_ws_def)

lemma skip_ws_dumps: "wf_json a v \<Longrightarrow> skip_ws (dumps f v @ r) = dumps f v @ r"
  using first_char by (simp add: skip_ws_id)

lemma skip_ws_ws: "\<forall>c\<in>set w. is_ws c \<Longrightarrow> skip_ws (w @ s) = skip_ws s"
  by (simp add: skip_ws_def dropWhile_append1 dropWhile_append2)

lemma parse_value_const:
  assumes "v = JNull \<or> (\<exists>b. v = JBool b) \<or>
     (\<exists>t. v = JFloat t \<and> t \<in> {asc ''NaN'', asc ''Infinity'', asc ''-Infinity''})"
  shows "parse_value (Suc n) (dumps f v @ r) = Some (v, r)"
  using assms
  by (auto simp: parse_const_def starts_with_def asc_def)

lemma parse_value_number:
  assumes "\<forall>c\<in>set t. is_numchar c" "t \<noteq> []" "t \<noteq> [45]"
  shows "parse_value (Suc n) (t @ r) = parse_number (t @ r)"
proof -
  obtain a t' where t: "t = a # t'" using assms(2) by (cases t) auto
  have "a \<noteq> 34" "a \<noteq> 91" "a \<noteq> 123"
    using assms(1) t by (auto simp: is_numchar_def is_digit_def)
  then show ?thesis using t parse_const_number [OF assms, of r] by simp
qed

lemma parse_value_int:
  assumes "delimited r"
  shows "parse_value (Suc n) (show_int i @ r) = Some (JInt i, r)"
proof -
  have "show_int i \<noteq> []" by (simp add: show_int_def)
  moreover have "show_int i \<noteq> [45]"
    using int_lit_show_int(1) [of i] by (auto simp: is_int_lit_def is_nat_lit_def)
  ultimately show ?thesis
    using parse_number_int [OF assms] parse_value_number [of "show_int i" n r]
    by (simp add: show_int_numchars del: parse_value.simps)
qed

lemma parse_value_float:
  assumes "delimited r" "wf_float t"
  shows "parse_value (Suc n) (t @ r) = Some (JFloat t, r)"
proof (cases "is_float_lit t \<and> \<not> is_int_lit t \<and> (\<forall>c\<in>set t. is_numchar c)")
  case True
  have "parse_number (t @ r) = Some (JFloat t, r)"
    using True takeWhile_delimited [of t r] assms(1)
    by (simp only: parse_number_def Let_def) simp
  then show ?thesis
    using True float_lit_shape parse_value_number [of t n r] by (simp del: parse_value.simps)
next
  case False
  then show ?thesis
    using assms(2) parse_value_const [of "JFloat t" n _ r]
    by (auto simp: wf_float_def simp del: parse_value.simps)
qed

lemma parse_value_str:
  assumes "fmt_ascii f \<longrightarrow> (\<forall>c\<in>set x. scalar c)"
  shows "parse_value (Suc n) (dump_str (fmt_ascii f) x @ r) = Some (JStr x, r)"
  using parse_str_escaped [OF assms] by (simp add: dump_str_def)

lemma delimited_seps [simp]:
  "delimited (93 # r)" "delimited (125 # r)" "wf_fmt f \<Longrightarrow> delimited (fmt_item f @ r)"
  by (auto simp: delimited_def is_numchar_def is_digit_def wf_fmt_def)

lemma fmt_item_split: "wf_fmt f \<Longrightarrow> \<exists>w. fmt_item f = 44 # w \<and> (\<forall>c\<in>set w. is_ws c)"
  by (cases "fmt_item f") (auto simp: wf_fmt_def)

lemma fmt_key_split: "wf_fmt f \<Longrightarrow> \<exists>w. fmt_key f = 58 # w \<and> (\<forall>c\<in>set w. is_ws c)"
  by (cases "fmt_key f") (auto simp: wf_fmt_def)

lemma skip_ws_dumps_items:
  "wf_items a vs \<Longrightarrow> vs \<noteq> [] \<Longrightarrow> skip_ws (dumps_items f vs @ r) = dumps_items f vs @ r
     \<and> dumps_items f vs \<noteq> [] \<and> hd (dumps_items f vs) \<noteq> 93"
  using first_char by (cases vs) (auto simp: skip_ws_dumps)

lemma skip_ws_dumps_members:
  "kvs \<noteq> [] \<Longrightarrow> skip_ws (dumps_members f kvs @ r) = dumps_members f kvs @ r
     \<and> dumps_members f kvs \<noteq> [] \<and> hd (dumps_members f kvs) \<noteq> 125"
  by (cases kvs) (auto simp: skip_ws_def dump_str_def is_ws_def)

lemma dset_new: "k \<notin> fst ` set d \<Longrightarrow> dset k v d = d @ [(k, v)]"
  by (induction d) auto

lemma parse_dumps:
  assumes "wf_fmt f"
  shows "wf_json (fmt_ascii f) v \<Longrightarrow> need v \<le> n \<Longrightarrow> delimited r \<Longrightarrow>
           parse_value n (dumps f v @ r) = Some (v, r)"
    and "vs \<noteq> [] \<Longrightarrow> wf_items (fmt_ascii f) vs \<Longrightarrow> need_items vs \<le> n \<Longrightarrow>
           parse_items n (dumps_items f vs @ 93 # r) = Some (vs, r)"
    and "kvs \<noteq> [] \<Longrightarrow> wf_members (fmt_ascii f) kvs \<Longrightarrow> need_members kvs \<le> n \<Longrightarrow>
           distinct (map fst d @ map fst kvs) \<Longrightarrow>
           parse_members n d (dumps_members f kvs @ 125 # r) = Some (d @ kvs, r)"
proof (induction v and vs and kvs arbitrary: n r and n r and n d r
    rule: need_need_items_need_members.induct)
  case (1 vs)
  then obtain m where n: "n = Suc m" by (cases n) auto
  show ?case
  proof (cases "vs = []")
    case True
    then show ?thesis using n by (simp add: skip_ws_def is_ws_def)
  next
    case False
    have "parse_items m (dumps_items f vs @ 93 # r) = Some (vs, r)"
      using "1.IH" [OF False] "1.prems" n by simp
    then show ?thesis
      using n skip_ws_dumps_items [of "fmt_ascii f" vs f "93 # r"] False "1.prems" by simp
  qed
next
  case (2 kvs)
  then obtain m where n: "n = Suc m" by (cases n) auto
  show ?case
  proof (cases "kvs = []")
    case True
    then show ?thesis using n by (simp add: skip_ws_def is_ws_def)
  next
    case False
    have "parse_members m [] (dumps_members f kvs @ 125 # r) = Some ([] @ kvs, r)"
      using "2.IH" [OF False, of m "[]"] "2.prems" n by simp
    then show ?thesis
      using n skip_ws_dumps_members [of kvs f "125 # r"] False by simp
  qed
next
  case 3
  then obtain m where "n = Suc m" by (cases n) auto
  then show ?case using parse_value_const [of JNull m f r] by blast
next
  case (4 b)
  then obtain m where "n = Suc m" by (cases n) auto
  then show ?case using parse_value_const [of "JBool b" m f r] by blast
next
  case (5 i)
  then obtain m where "n = Suc m" by (cases n) auto
  then show ?case using parse_value_int 5 by simp
next
  case (6 t)
  then obtain m where "n = Suc m" by (cases n) auto
  then show ?case using parse_value_float [of r t m] 6 by simp
next
  case (7 x)
  then obtain m where "n = Suc m" by (cases n) auto
  then show ?case using parse_value_str [of f x m r] 7 by simp
next
  case 8
  then show ?case by simp
next
  case (9 v vs)
  then obtain m where n: "n = Suc m" by (cases n) auto
  have wf: "wf_json (fmt_ascii f) v" "wf_items (fmt_ascii f) vs" using "9.prems" by auto
  show ?case
  proof (cases "vs = []")
    case True
    have "parse_value m (dumps f v @ 93 # r) = Some (v, 93 # r)"
      using "9.IH"(1) wf "9.prems" n by simp
    then show ?thesis using n True by (simp add: skip_ws_def is_ws_def)
  next
    case False
    obtain w where w: "fmt_item f = 44 # w" "\<forall>c\<in>set w. is_ws c"
      using fmt_item_split [OF assms] by blast
    let ?rest = "fmt_item f @ dumps_items f vs @ 93 # r"
    have v: "parse_value m (dumps f v @ ?rest) = Some (v, ?rest)"
      using "9.IH"(1) [OF wf(1), of m ?rest] assms "9.prems" n by simp
    have vs: "parse_items m (dumps_items f vs @ 93 # r) = Some (vs, r)"
      using "9.IH"(2) [OF False wf(2)] "9.prems" n by simp
    have "skip_ws ?rest = 44 # w @ dumps_items f vs @ 93 # r"
      using w by (simp add: skip_ws_def is_ws_def)
    moreover have "skip_ws (w @ dumps_items f vs @ 93 # r) = dumps_items f vs @ 93 # r"
      using skip_ws_dumps_items [OF wf(2) False, of f "93 # r"] w(2) by (simp add: skip_ws_ws)
    ultimately show ?thesis using n False v vs by simp
  qed
next
  case 10
  then show ?case by simp
next
  case (11 k v kvs)
  then obtain m where n: "n = Suc m" by (cases n) auto
  have wf: "fmt_ascii f \<longrightarrow> (\<forall>c\<in>set k. scalar c)" "wf_json (fmt_ascii f) v"
      "wf_members (fmt_ascii f) kvs" using "11.prems" by auto
  have knew: "dset k v d = d @ [(k, v)]" using "11.prems" by (intro dset_new) auto
  obtain wk where wk: "fmt_key f = 58 # wk" "\<forall>c\<in>set wk. is_ws c"
    using fmt_key_split [OF assms] by blast
  have key: "parse_str (concat (map (esc_char (fmt_ascii f)) k) @ 34 # x) = Some (k, x)" for x
    by (rule parse_str_escaped [OF wf(1)])
  have colon: "skip_ws (fmt_key f @ x) = 58 # wk @ x" for x
    using wk by (simp add: skip_ws_def is_ws_def)
  have val: "skip_ws (wk @ dumps f v @ x) = dumps f v @ x" for x
    using wk(2) wf(2) by (simp add: skip_ws_ws skip_ws_dumps)
  show ?case
  proof (cases "kvs = []")
    case True
    have "parse_value m (dumps f v @ 125 # r) = Some (v, 125 # r)"
      using "11.IH"(1) wf "11.prems" n by simp
    then show ?thesis
      using n True key colon val knew by (simp add: dump_str_def skip_ws_def is_ws_def)
  next
    case False
    obtain w where w: "fmt_item f = 44 # w" "\<forall>c\<in>set w. is_ws c"
      using fmt_item_split [OF assms] by blast
    let ?rest = "fmt_item f @ dumps_members f kvs @ 125 # r"
    have v: "parse_value m (dumps f v @ ?rest) = Some (v, ?rest)"
      using "11.IH"(1) [OF wf(2), of m ?rest] assms "11.prems" n by simp
    have kvs: "parse_members m (d @ [(k, v)]) (dumps_members f kvs @ 125 # r)
        = Some ((d @ [(k, v)]) @ kvs, r)"
      using "11.IH"(2) [OF False wf(3), of m "d @ [(k, v)]" r] "11.prems" n by simp
    have "skip_ws ?rest = 44 # w @ dumps_members f kvs @ 125 # r"
      using w by (simp add: skip_ws_def is_ws_def)
    moreover have "skip_ws (w @ dumps_members f kvs @ 125 # r) = dumps_members f kvs @ 125 # r"
      using skip_ws_dumps_members [OF False, of f "125 # r"] w(2) by (simp add: skip_ws_ws)
    ultimately show ?thesis using n False v kvs key colon val knew by (simp add: dump_str_def)
  qed
qed

text \<open>The length of the text is enough fuel.\<close>

lemma need_le_length:
  assumes "wf_fmt f"
  shows "wf_json (fmt_ascii f) v \<Longrightarrow> need v \<le> length (dumps f v)"
    and "wf_items (fmt_ascii f) vs \<Longrightarrow> need_items vs \<le> Suc (length (dumps_items f vs))"
    and "wf_members (fmt_ascii f) kvs \<Longrightarrow> need_members kvs \<le> Suc (length (dumps_members f kvs))"
proof (induction v and vs and kvs rule: need_need_items_need_members.induct)
  case (5 i)
  then show ?case by (simp add: show_int_def Suc_le_eq)
next
  case (6 t)
  then have "t \<noteq> []" using first_char [of "fmt_ascii f" "JFloat t" f] by simp
  then show ?case by (simp add: Suc_le_eq)
next
  case (9 v vs)
  have "1 \<le> length (fmt_item f)" using assms by (simp add: wf_fmt_def Suc_le_eq)
  with 9 show ?case by auto
next
  case (11 k v kvs)
  have "1 \<le> length (fmt_item f)" using assms by (simp add: wf_fmt_def Suc_le_eq)
  with 11 show ?case by auto
qed (auto simp: dump_str_def)

theorem loads_dumps:
  assumes "wf_fmt f" "wf_json (fmt_ascii f) v"
  shows "loads (dumps f v) = Some v"
proof -
  have "parse_value (Suc (length (dumps f v))) (dumps f v @ []) = Some (v, [])"
    using need_le_length(1) [OF assms]
    by (intro parse_dumps(1) [OF assms]) (simp_all add: delimited_def)
  then show ?thesis
    using skip_ws_dumps [OF assms(2), of f "[]"] by (simp add: loads_def skip_ws_def)
qed

lemma dumps_inj:
  assumes "wf_fmt f" "wf_json (fmt_ascii f) v" "wf_json (fmt_ascii f) w" "dumps f v = dumps f w"
  shows "v = w"
  by (metis assms loads_dumps option.inject)

subsection \<open>The codec interface of the clients\<close>

text \<open>What a client that stores records as text relies on: a written value reads back.\<close>

locale json_codec =
  fixes enc :: "json \<Rightarrow> pystr"
    and dec :: "pystr \<Rightarrow> json option"
    and ok :: "json \<Rightarrow> bool"
  assumes dec_enc: "ok v \<Longrightarrow> dec (enc v) = Some v"
begin

lemma enc_inj: "ok v \<Longrightarrow> ok w \<Longrightarrow> enc v = enc w \<Longrightarrow> v = w"
  by (metis dec_enc option.inject)

lemma dec_map_enc: "\<forall>v\<in>set vs. ok v \<Longrightarrow> map dec (map enc vs) = map Some vs"
  by (induction vs) (simp_all add: dec_enc)

lemma enc_list_inj:
  "\<forall>v\<in>set vs. ok v \<Longrightarrow> \<forall>w\<in>set ws. ok w \<Longrightarrow> map enc vs = map enc ws \<Longrightarrow> vs = ws"
  by (metis dec_map_enc inj_map_eq_map inj_Some)

end

interpretation plain: json_codec "dumps fmt_plain" loads "wf_json False"
  by unfold_locales (rule loads_dumps [OF wf_fmts(1)], simp add: fmt_plain_def)

interpretation compact: json_codec "dumps fmt_compact" loads "wf_json False"
  by unfold_locales (rule loads_dumps [OF wf_fmts(2)], simp add: fmt_compact_def)

interpretation dflt: json_codec "dumps fmt_default" loads "wf_json True"
  by unfold_locales (rule loads_dumps [OF wf_fmts(3)], simp add: fmt_default_def)

subsection \<open>Canonical form\<close>

lemma fst_sort_members: "map fst (sort_members kvs) = map fst kvs"
  by (induction kvs) auto

lemma wf_members_sort_key: "wf_members a (sort_key g kvs) \<longleftrightarrow> wf_members a kvs"
proof -
  have iff: "wf_members a xs \<longleftrightarrow>
      (\<forall>(k, v)\<in>set xs. (a \<longrightarrow> (\<forall>c\<in>set k. scalar c)) \<and> wf_json a v)" for xs
    by (induction xs) auto
  show ?thesis by (simp add: iff)
qed

lemma wf_sort:
  shows "wf_json a v \<Longrightarrow> wf_json a (sort_json v)"
    and "wf_items a vs \<Longrightarrow> wf_items a (sort_items vs)"
    and "wf_members a kvs \<Longrightarrow> wf_members a (sort_members kvs)"
proof (induction v and vs and kvs rule: sort_json_sort_items_sort_members.induct)
  case (2 kvs)
  have "distinct (map fst (sort_key fst (sort_members kvs)))"
    using "2.prems" fst_sort_members [of kvs]
    by (metis (no_types, lifting) distinct_map distinct_sort set_sort wf_json.simps(4))
  with 2 show ?case by (simp add: wf_members_sort_key)
qed auto

text \<open>Equal canonical objects have the same keys with equal canonical values.\<close>

lemma dget_sort_members:
  "dget (sort_members kvs) k = map_option sort_json (dget kvs k)"
  by (induction kvs) auto

lemma dget_sort_key:
  assumes "distinct (map fst kvs)"
  shows "dget (sort_key fst kvs) k = dget kvs k"
proof -
  have "distinct (map fst (sort_key fst kvs))"
    using assms by (metis distinct_map distinct_sort set_sort)
  then have "dget (sort_key fst kvs) k = Some v \<longleftrightarrow> dget kvs k = Some v" for v
    using assms by simp
  then show ?thesis by (metis not_None_eq)
qed

lemma sort_json_obj_eq:
  assumes "sort_json (JObj a) = sort_json (JObj b)"
    "distinct (map fst a)" "distinct (map fst b)"
  shows "map_option sort_json (dget a k) = map_option sort_json (dget b k)"
  using assms dget_sort_key [of "sort_members a" k] dget_sort_key [of "sort_members b" k]
  by (simp add: fst_sort_members dget_sort_members)

text \<open>A written value has no control characters: in particular no NUL and no line feed.\<close>

lemma esc_char_printable: "x \<in> set (esc_char a c) \<Longrightarrow> 32 \<le> x"
proof -
  have d: "32 \<le> hex_digit n" for n by (simp add: hex_digit_def)
  have u: "x \<in> set (u_escape n) \<Longrightarrow> 32 \<le> x" for n
    using d by (auto simp: u_escape_def hex4_def)
  show "x \<in> set (esc_char a c) \<Longrightarrow> 32 \<le> x"
    using u by (auto simp: esc_char_def split: if_splits)
qed

lemma dump_str_printable: "x \<in> set (dump_str a s) \<Longrightarrow> 32 \<le> x"
  by (auto simp: dump_str_def dest: esc_char_printable)

lemma wf_float_printable: "wf_float t \<Longrightarrow> x \<in> set t \<Longrightarrow> 32 \<le> x"
  by (auto simp: wf_float_def asc_def is_numchar_def is_digit_def)

lemma show_int_printable: "x \<in> set (show_int i) \<Longrightarrow> 32 \<le> x"
  by (drule show_int_numchars) (auto simp: is_numchar_def is_digit_def)

definition printable_fmt :: "json_fmt \<Rightarrow> bool" where
  "printable_fmt f \<longleftrightarrow> (\<forall>x\<in>set (fmt_item f) \<union> set (fmt_key f). 32 \<le> x)"

lemma printable_fmts [simp]:
  "printable_fmt fmt_plain" "printable_fmt fmt_compact" "printable_fmt fmt_default"
  by (simp_all add: printable_fmt_def fmt_plain_def fmt_compact_def fmt_default_def asc_def)

lemma dumps_printable:
  assumes "printable_fmt f"
  shows "wf_json a v \<Longrightarrow> x \<in> set (dumps f v) \<Longrightarrow> 32 \<le> x"
    and "wf_items a vs \<Longrightarrow> x \<in> set (dumps_items f vs) \<Longrightarrow> 32 \<le> x"
    and "wf_members a kvs \<Longrightarrow> x \<in> set (dumps_members f kvs) \<Longrightarrow> 32 \<le> x"
proof (induction a v and a vs and a kvs rule: wf_json_wf_items_wf_members.induct)
  have seps: "y \<in> set (fmt_item f) \<Longrightarrow> 32 \<le> y" "y \<in> set (fmt_key f) \<Longrightarrow> 32 \<le> y" for y
    using assms by (auto simp: printable_fmt_def)
  note facts = seps dump_str_printable wf_float_printable show_int_printable
  {
    case (1 a t)
    then show ?case by (auto dest: facts)
  next
    case (2 a s)
    then show ?case by (auto dest: facts)
  next
    case (3 a vs)
    then show ?case by auto
  next
    case (4 a kvs)
    then show ?case by auto
  next
    case (7 a v vs)
    then show ?case by (auto dest: facts split: if_splits)
  next
    case (9 a k v kvs)
    then show ?case by (auto dest: facts split: if_splits)
  }
qed (auto simp: asc_def dest: show_int_printable split: if_splits)

subsection \<open>The canonical text of a value\<close>

text \<open>\<open>json.dumps(v, sort_keys=True, separators=(",", ":"), ensure_ascii=False)\<close>, hashed by the
  audit chain and by the confirmation broker.\<close>

definition canonical_json :: "json \<Rightarrow> pystr" where
  "canonical_json v = dumps fmt_compact (sort_json v)"

lemma canonical_inj:
  assumes "wf_json False v" "wf_json False w" "canonical_json v = canonical_json w"
  shows "sort_json v = sort_json w"
  using assms(3) unfolding canonical_json_def
  by (rule compact.enc_inj [OF wf_sort(1) [OF assms(1)] wf_sort(1) [OF assms(2)]])

lemma canonical_printable: "wf_json a v \<Longrightarrow> x \<in> set (canonical_json v) \<Longrightarrow> 32 \<le> x"
  unfolding canonical_json_def by (rule dumps_printable(1) [OF printable_fmts(2) wf_sort(1)])

lemma canonical_obj: "\<exists>t. canonical_json (JObj kvs) = 123 # t"
  by (simp add: canonical_json_def)

subsection \<open>Parsed values are well formed\<close>

lemma wf_members_update:
  "wf_members a d \<Longrightarrow> wf_json a v \<Longrightarrow> (a \<longrightarrow> (\<forall>c\<in>set k. scalar c)) \<Longrightarrow>
     wf_members a (dset k v d)"
  by (induction d) (auto split: if_splits)

lemma parse_const_wf: "parse_const s = Some (v, r) \<Longrightarrow> wf_json a v"
  by (auto simp: parse_const_def wf_float_def split: if_splits)

lemma parse_number_wf: "parse_number s = Some (v, r) \<Longrightarrow> wf_json a v"
  by (auto simp: parse_number_def Let_def wf_float_def dest: set_takeWhileD split: if_splits)

lemma parse_wf:
  "(\<forall>s v r. parse_value n s = Some (v, r) \<longrightarrow> wf_json False v) \<and>
   (\<forall>s vs r. parse_items n s = Some (vs, r) \<longrightarrow> wf_items False vs) \<and>
   (\<forall>d s kvs r. parse_members n d s = Some (kvs, r) \<longrightarrow> distinct (map fst d) \<longrightarrow>
      wf_members False d \<longrightarrow> distinct (map fst kvs) \<and> wf_members False kvs)"
proof (induction n)
  case 0
  then show ?case by simp
next
  case (Suc n)
  then have V: "\<And>s v r. parse_value n s = Some (v, r) \<Longrightarrow> wf_json False v"
    and I: "\<And>s vs r. parse_items n s = Some (vs, r) \<Longrightarrow> wf_items False vs"
    and M: "\<And>d s kvs r. parse_members n d s = Some (kvs, r) \<Longrightarrow> distinct (map fst d) \<Longrightarrow>
      wf_members False d \<Longrightarrow> distinct (map fst kvs) \<and> wf_members False kvs"
    by blast+
  have "wf_json False v" if "parse_value (Suc n) s = Some (v, r)" for s v r
  proof (cases s)
    case Nil
    then show ?thesis using that by simp
  next
    case (Cons c t)
    then show ?thesis
      using that I M [of "[]"]
      by (auto split: if_splits option.splits dest: parse_const_wf parse_number_wf)
  qed
  moreover have "wf_items False vs" if "parse_items (Suc n) s = Some (vs, r)" for s vs r
    using that V I by (auto simp: cons_fst_def split: option.splits list.splits if_splits)
  moreover have "distinct (map fst kvs) \<and> wf_members False kvs"
    if P: "parse_members (Suc n) d s = Some (kvs, r)" and dd: "distinct (map fst d)" "wf_members False d"
    for d s kvs r
  proof -
    obtain q s' where s: "s = q # s'"
      using P by (cases s) simp_all
    have q: "q = 34" using P s by (auto split: if_splits)
    obtain k r0 where k: "parse_str s' = Some (k, r0)"
      using P s q by (auto split: option.splits)
    obtain c t where t: "skip_ws r0 = c # t" using P s q k by (auto split: list.splits)
    have c: "c = 58" using P s q k t by (auto split: if_splits)
    obtain v r' where step: "parse_value n (skip_ws t) = Some (v, r')"
      using P s q k t c by (auto split: option.splits)
    obtain e t' where e: "skip_ws r' = e # t'"
      using P s q k t c step by (auto split: list.splits)
    have alt: "kvs = dset k v d \<or> parse_members n (dset k v d) (skip_ws t') = Some (kvs, r)"
      using P s q k t c step e by (auto split: if_splits)
    have d': "distinct (map fst (dset k v d))" "wf_members False (dset k v d)"
      using dd V [OF step] by (simp_all add: distinct_update wf_members_update)
    then show ?thesis using alt M by blast
  qed
  ultimately show ?case by blast
qed

lemma loads_wf:
  assumes "loads s = Some v"
  shows "wf_json False v"
proof -
  obtain r where "parse_value (Suc (length s)) (skip_ws s) = Some (v, r)"
    using assms unfolding loads_def
    by (cases "parse_value (Suc (length s)) (skip_ws s)")
       (auto split: if_splits simp del: parse_value.simps)
  then show ?thesis using parse_wf by blast
qed

text \<open>Text written from scalar strings is scalar.\<close>

lemma scalar_low: "c < 128 \<Longrightarrow> scalar c"
  by (simp add: scalar_def is_surrogate_def)

lemma dump_str_scalar:
  assumes "\<forall>c\<in>set s. scalar c" "x \<in> set (dump_str False s)"
  shows "scalar x"
proof -
  have "hex_digit m < 128" if "m < 16" for m using that by (simp add: hex_digit_def)
  then have hd: "hex_digit (n mod 16) < 128" for n by simp
  then have u: "x \<in> set (u_escape n) \<Longrightarrow> scalar x" for n
    by (auto simp: u_escape_def hex4_def intro!: scalar_low)
  have "x \<in> set (esc_char False c) \<Longrightarrow> scalar c \<Longrightarrow> scalar x" for c
    using u by (auto simp: esc_char_def scalar_low split: if_splits)
  with assms show ?thesis by (auto simp: dump_str_def scalar_low)
qed

lemma numchar_scalar: "is_numchar c \<Longrightarrow> scalar c"
  by (auto simp: is_numchar_def is_digit_def intro!: scalar_low)

lemma wf_float_scalar: "wf_float t \<Longrightarrow> x \<in> set t \<Longrightarrow> scalar x"
  using scalar_asc numchar_scalar by (auto simp: wf_float_def)

definition scalar_fmt :: "json_fmt \<Rightarrow> bool" where
  "scalar_fmt f \<longleftrightarrow> \<not> fmt_ascii f \<and> (\<forall>c\<in>set (fmt_item f) \<union> set (fmt_key f). scalar c)"

lemma scalar_fmts [simp]: "scalar_fmt fmt_plain" "scalar_fmt fmt_compact"
  by (simp_all add: scalar_fmt_def fmt_plain_def fmt_compact_def ball_Un)

lemma dumps_scalar:
  shows "scalar_fmt f \<Longrightarrow> wf_json True v \<Longrightarrow> x \<in> set (dumps f v) \<Longrightarrow> scalar x"
    and "scalar_fmt f \<Longrightarrow> wf_items True vs \<Longrightarrow> x \<in> set (dumps_items f vs) \<Longrightarrow> scalar x"
    and "scalar_fmt f \<Longrightarrow> wf_members True kvs \<Longrightarrow> x \<in> set (dumps_members f kvs) \<Longrightarrow> scalar x"
proof (induction f v and f vs and f kvs rule: dumps_dumps_items_dumps_members.induct)
  case (2 f b)
  then show ?case using scalar_asc by (auto split: if_splits)
next
  case (3 f i)
  then show ?case by (auto dest!: show_int_numchars numchar_scalar)
next
  case (4 f t)
  then show ?case using wf_float_scalar by auto
next
  case (5 f s)
  then show ?case using dump_str_scalar by (auto simp: scalar_fmt_def)
next
  case (9 f v vs)
  then show ?case by (auto simp: scalar_fmt_def split: if_splits)
next
  case (11 f k v kvs)
  then show ?case using dump_str_scalar by (auto simp: scalar_fmt_def split: if_splits)
qed (use scalar_asc in \<open>auto simp: scalar_low\<close>)

lemma wf_json_weaken:
  shows "wf_json True v \<Longrightarrow> wf_json False v"
    and "wf_items True vs \<Longrightarrow> wf_items False vs"
    and "wf_members True kvs \<Longrightarrow> wf_members False kvs"
  by (induction v and vs and kvs rule: need_need_items_need_members.induct) auto

subsection \<open>Truth value of a decoded value\<close>

definition truthy :: "json \<Rightarrow> bool" where
  "truthy v = (case v of JNull \<Rightarrow> False | JBool b \<Rightarrow> b | JInt i \<Rightarrow> i \<noteq> 0
     | JFloat t \<Rightarrow> \<not> list_all (\<lambda>c. c \<in> {45, 48, 46}) (takeWhile (\<lambda>c. c \<noteq> 101 \<and> c \<noteq> 69) t)
     | JStr s \<Rightarrow> s \<noteq> [] | JList vs \<Rightarrow> vs \<noteq> [] | JObj kvs \<Rightarrow> kvs \<noteq> [])"

end
