(* ===== verification/AuditLog.thy ===== *)
theory AuditLog
  imports Machines Json "HOL-Library.Word"
begin

text \<open>
  \<open>src/relay_shell/audit.py\<close>: the append-only audit trail, its optional hash chain, the
  verifier, the SIEM formatters and the tail reader. Hexadecimal SHA-256 of a byte string is
  the parameter \<open>sha\<close>; timestamps are arguments; the file on disk is a byte list of the state.
\<close>

subsection \<open>Formatters\<close>

type_synonym record_fields = "(pystr, json) dict"

definition format_jsonl :: "record_fields \<Rightarrow> pystr" where
  "format_jsonl entry = dumps fmt_plain (JObj entry)"

definition U64_MASK :: int where
  "U64_MASK = 2 ^ 64 - 1"

definition I64_SIGN_BIT :: int where
  "I64_SIGN_BIT = 2 ^ 63"

text \<open>\<open>f"0x{value:016x}"\<close>\<close>

fun hex_pad :: "nat \<Rightarrow> nat \<Rightarrow> pystr" where
  "hex_pad 0 n = []"
| "hex_pad (Suc w) n = hex_pad w (n div 16) @ [hex_digit (n mod 16)]"

text \<open>\<open>arg & _U64_MASK\<close> is the 64-bit register value.\<close>

definition syscall_arg_fields :: "int list \<Rightarrow> int list \<times> pystr list" where
  "syscall_arg_fields args =
     (let regs = map (\<lambda>arg. uint (word_of_int arg :: 64 word)) args;
          sgn_args = map (\<lambda>v. if v < I64_SIGN_BIT then v else v - (U64_MASK + 1)) regs;
          exact_hex = map (\<lambda>v. asc ''0x'' @ hex_pad 16 (nat v)) regs
      in (sgn_args, exact_hex))"

text \<open>\<open>str\<close> of the scalars, compact JSON for the rest. A float is kept as its JSON literal,
  which is also its \<open>str\<close> except for the three non-finite values.\<close>

definition float_str :: "pystr \<Rightarrow> pystr" where
  "float_str t =
     (if t = asc ''NaN'' then asc ''nan'' else if t = asc ''Infinity'' then asc ''inf''
      else if t = asc ''-Infinity'' then asc ''-inf'' else t)"

fun stringify :: "json \<Rightarrow> pystr" where
  "stringify (JStr s) = s"
| "stringify (JInt i) = show_int i"
| "stringify (JFloat t) = float_str t"
| "stringify (JBool b) = (if b then asc ''True'' else asc ''False'')"
| "stringify JNull = asc ''None''"
| "stringify v = dumps fmt_compact v"

definition cef_escape :: "pystr \<Rightarrow> pystr" where
  "cef_escape v =
     replace_char 13 [92, 114] (replace_char 10 [92, 110] (replace_char 124 [92, 124]
       (replace_char 61 [92, 61] (replace_char 92 [92, 92] v))))"

definition cef_header_escape :: "pystr \<Rightarrow> pystr" where
  "cef_header_escape v =
     replace_char 13 [92, 114] (replace_char 10 [92, 110] (replace_char 124 [92, 124]
       (replace_char 92 [92, 92] v)))"

definition leef_escape :: "pystr \<Rightarrow> pystr" where
  "leef_escape v =
     replace_char 13 [92, 114] (replace_char 10 [92, 110] (replace_char 9 [92, 116]
       (replace_char 61 [92, 61] (replace_char 92 [92, 92] v))))"

definition siem_field :: "(pystr \<Rightarrow> pystr) \<Rightarrow> pystr \<times> json \<Rightarrow> pystr" where
  "siem_field esc kv = fst kv @ [61] @ esc (stringify (snd kv))"

definition format_cef :: "record_fields \<Rightarrow> pystr" where
  "format_cef entry =
     (let header = join [124] (map (\<lambda>f. cef_header_escape (asc f))
            [''relay-shell'', ''relay-shell'', ''1.0'', ''audit'', ''tool-call'', ''5'']);
          ext = join [32] (map (siem_field cef_escape) (sort_key fst entry))
      in asc ''CEF:0|'' @ header @ [124] @ ext)"

definition format_leef :: "record_fields \<Rightarrow> pystr" where
  "format_leef entry =
     asc ''LEEF:2.0|relay-shell|relay-shell|1.0|audit|x09|'' @
     join [9] (map (siem_field leef_escape) (sort_key fst entry))"

definition formatter :: "pystr \<Rightarrow> record_fields \<Rightarrow> pystr" where
  "formatter fmt =
     (if fmt = asc ''cef'' then format_cef else if fmt = asc ''leef'' then format_leef
      else format_jsonl)"

subsection \<open>Reading the end of a file\<close>

text \<open>Lines are separated by line feeds after universal newline translation; the last field
  counts as a line only when it is not empty.\<close>

fun universal_newlines :: "pystr \<Rightarrow> pystr" where
  "universal_newlines [] = []"
| "universal_newlines (c # s) =
     (if c = 13 then 10 # universal_newlines (if s \<noteq> [] \<and> hd s = 10 then tl s else s)
      else c # universal_newlines s)"

definition text_lines :: "pystr \<Rightarrow> pystr list" where
  "text_lines s =
     (let parts = split_on 10 (universal_newlines s) in
      if last parts = [] then butlast parts else parts)"

definition last_n :: "nat \<Rightarrow> 'a list \<Rightarrow> 'a list" where
  "last_n n xs = drop (length xs - n) xs"

definition CHUNK :: nat where
  "CHUNK = 8192"

text \<open>Backward reading in chunks until enough line feeds were seen.\<close>

function tail_read :: "bytes \<Rightarrow> nat \<Rightarrow> nat \<Rightarrow> bytes \<Rightarrow> bytes" where
  "tail_read file n offset data =
     (if offset > 0 \<and> count_list data 10 \<le> n
      then (let rd = min CHUNK offset; offset' = offset - rd
            in tail_read file n offset' (take rd (drop offset' file) @ data))
      else data)"
  by pat_completeness auto
termination
  by (relation "measure (\<lambda>(file, n, offset, data). offset)") (auto simp: CHUNK_def)

declare tail_read.simps [simp del]

text \<open>A log segment: plain bytes, or a compressed file given by its decompressed text.\<close>

datatype segment = Plain bytes | Gz pystr

definition rstrip_eol :: "pystr \<Rightarrow> pystr" where
  "rstrip_eol s = rev (dropWhile (\<lambda>c. c = 13 \<or> c = 10) (rev s))"

definition tail_path :: "segment \<Rightarrow> int \<Rightarrow> pystr" where
  "tail_path seg n =
     (if n \<le> 0 then []
      else case seg of
        Gz txt \<Rightarrow>
          join [10] (last_n (nat n) (map rstrip_eol (filter (\<lambda>l. strip l \<noteq> []) (text_lines txt))))
      | Plain file \<Rightarrow>
          if file = [] then []
          else (let txt = utf8_decode (tail_read file (nat n) (length file) []);
                    recs = filter (\<lambda>l. strip l \<noteq> []) (split_on 10 txt)
                in join [10] (last_n (nat n) recs)))"

text \<open>A directory entry: modification time, name, whether it is a regular file, contents.\<close>

record dirent =
  d_mtime :: int
  d_name :: pystr
  d_file :: bool
  d_seg :: segment

definition is_rotated_name :: "pystr \<Rightarrow> pystr \<Rightarrow> bool" where
  "is_rotated_name target name =
     (let suffix = drop (length target) name;
          suffix = (if ends_with (asc ''.gz'') suffix then take (length suffix - 3) suffix
                    else suffix)
      in length suffix > 1 \<and> (hd suffix = 45 \<or> hd suffix = 46) \<and> list_all is_digit (tl suffix))"

definition latest_rotated_path :: "pystr \<Rightarrow> dirent list \<Rightarrow> dirent option" where
  "latest_rotated_path target entries =
     (let cands = filter (\<lambda>d. d_name d \<noteq> target \<and> d_file d \<and> is_rotated_name target (d_name d))
            entries
      in if cands = [] then None
         else Some (last (sort_key (\<lambda>d. (d_mtime d, d_name d)) cands)))"

subsection \<open>The hash chain\<close>

definition CHAIN_GENESIS :: pystr where
  "CHAIN_GENESIS = replicate 64 48"

definition chain_value :: "(bytes \<Rightarrow> pystr) \<Rightarrow> pystr \<Rightarrow> record_fields \<Rightarrow> pystr" where
  "chain_value sha prev entry = sha256_hex sha (prev @ canonical_json (JObj entry))"

text \<open>\<open>isinstance(v, int)\<close> holds of booleans too, and a boolean compares as 0 or 1.\<close>

fun as_int :: "json option \<Rightarrow> int option" where
  "as_int (Some (JInt i)) = Some i"
| "as_int (Some (JBool b)) = Some (if b then 1 else 0)"
| "as_int _ = None"

fun as_str :: "json option \<Rightarrow> pystr option" where
  "as_str (Some (JStr s)) = Some s"
| "as_str _ = None"

definition seq_of :: "record_fields \<Rightarrow> int option" where
  "seq_of kvs = as_int (dget kvs (asc ''seq''))"

definition prev_of :: "record_fields \<Rightarrow> pystr option" where
  "prev_of kvs = as_str (dget kvs (asc ''prev''))"

definition chain_of :: "record_fields \<Rightarrow> pystr option" where
  "chain_of kvs = as_str (dget kvs (asc ''chain''))"

fun is_chained :: "json \<Rightarrow> bool" where
  "is_chained (JObj kvs) \<longleftrightarrow> seq_of kvs \<noteq> None \<and> prev_of kvs \<noteq> None \<and> chain_of kvs \<noteq> None"
| "is_chained _ \<longleftrightarrow> False"

fun fields_of :: "json \<Rightarrow> record_fields" where
  "fields_of (JObj kvs) = kvs"
| "fields_of _ = []"

definition chain_body :: "record_fields \<Rightarrow> record_fields" where
  "chain_body kvs = filter (\<lambda>(k, v). k \<noteq> asc ''chain'') kvs"

record chain_result =
  cr_ok :: bool
  cr_records :: nat
  cr_start_seq :: "int option"
  cr_start_prev :: "pystr option"
  cr_broken_at :: "nat option"
  cr_reason :: pystr
  cr_anchored :: bool
  cr_present :: bool

text \<open>The loop state of \<open>verify_chain\<close>: \<open>v_start\<close> is set at the first chained record.\<close>

record vstate =
  v_records :: nat
  v_start :: "(int \<times> pystr) option"
  v_seq :: int
  v_prev :: pystr

definition verify_init :: vstate where
  "verify_init = \<lparr>v_records = 0, v_start = None, v_seq = 0, v_prev = CHAIN_GENESIS\<rparr>"

definition broken :: "vstate \<Rightarrow> nat \<Rightarrow> pystr \<Rightarrow> chain_result" where
  "broken st lineno why =
     \<lparr>cr_ok = False, cr_records = v_records st, cr_start_seq = map_option fst (v_start st),
      cr_start_prev = map_option snd (v_start st), cr_broken_at = Some lineno,
      cr_reason = asc ''line '' @ show_int (int lineno) @ asc '': '' @ why,
      cr_anchored = False, cr_present = True\<rparr>"

text \<open>One chained record: \<open>Inl\<close> the reason it breaks the chain (with the loop state at that
  point), \<open>Inr\<close> the next loop state.\<close>

definition verify_record ::
  "(bytes \<Rightarrow> pystr) \<Rightarrow> vstate \<Rightarrow> record_fields \<Rightarrow> (vstate \<times> pystr) + vstate" where
  "verify_record sha st kvs =
     (let seq = the (seq_of kvs); prev = the (prev_of kvs); chain = the (chain_of kvs);
          fresh = (v_start st = None);
          st = (if fresh then st\<lparr>v_start := Some (seq, prev), v_seq := seq, v_prev := prev\<rparr> else st)
      in
      if fresh \<and> seq = 0 \<and> prev \<noteq> CHAIN_GENESIS
      then Inl (st, asc ''seq 0 must anchor to genesis'')
      else if seq \<noteq> v_seq st
      then Inl (st, asc ''expected seq '' @ show_int (v_seq st) @ asc '', found '' @
                 stringify (the (dget kvs (asc ''seq''))))
      else if prev \<noteq> v_prev st
      then Inl (st, asc ''prev does not match the previous record's chain'')
      else if chain_value sha prev (chain_body kvs) \<noteq> chain
      then Inl (st, asc ''record body does not match its chain hash (tampered)'')
      else Inr (st\<lparr>v_records := v_records st + 1, v_prev := chain, v_seq := v_seq st + 1\<rparr>))"

fun verify_lines ::
  "(bytes \<Rightarrow> pystr) \<Rightarrow> vstate \<Rightarrow> nat \<Rightarrow> pystr list \<Rightarrow> chain_result + vstate" where
  "verify_lines sha st n [] = Inr st"
| "verify_lines sha st n (raw # rest) =
     (let line = strip raw in
      if line = [] then verify_lines sha st (n + 1) rest
      else (case loads line of
          None \<Rightarrow>
            if v_start st \<noteq> None
            then Inl (broken st n (asc ''invalid JSON inside the chained region''))
            else verify_lines sha st (n + 1) rest
        | Some rec \<Rightarrow>
            if \<not> is_chained rec then
              (if v_start st \<noteq> None
               then Inl (broken st n
                      (asc ''record missing chain fields inside the chained region''))
               else verify_lines sha st (n + 1) rest)
            else
              (case verify_record sha st (fields_of rec) of
                 Inl (st', why) \<Rightarrow> Inl (broken st' n why)
               | Inr st' \<Rightarrow> verify_lines sha st' (n + 1) rest)))"

text \<open>What the verifier finds at the path; \<open>Contents\<close> carries the read error that ends the
  reading early, if any.\<close>

datatype audit_file =
    Missing
  | Inaccessible pystr
  | Contents bytes "pystr option"

definition plain_result :: "bool \<Rightarrow> pystr \<Rightarrow> bool \<Rightarrow> chain_result" where
  "plain_result ok why present =
     \<lparr>cr_ok = ok, cr_records = 0, cr_start_seq = None, cr_start_prev = None, cr_broken_at = None,
      cr_reason = why, cr_anchored = False, cr_present = present\<rparr>"

definition verify_finish :: "vstate \<Rightarrow> chain_result" where
  "verify_finish st =
     (case v_start st of
        None \<Rightarrow> plain_result True (asc ''no chained records found (empty or unchained log)'') True
      | Some (seq, prev) \<Rightarrow>
          (let anchored = (seq = 0 \<and> prev = CHAIN_GENESIS) in
           \<lparr>cr_ok = True, cr_records = v_records st, cr_start_seq = Some seq,
            cr_start_prev = Some prev, cr_broken_at = None,
            cr_reason =
              (if anchored
               then asc ''chain intact and genesis-anchored: '' @ show_int (int (v_records st)) @
                    asc '' record(s) from seq 0''
               else asc ''chain internally consistent: '' @ show_int (int (v_records st)) @
                    asc '' record(s) from seq '' @ show_int seq @
                    asc '', but NOT genesis-anchored''),
            cr_anchored = anchored, cr_present = True\<rparr>))"

definition verify_chain :: "(bytes \<Rightarrow> pystr) \<Rightarrow> pystr \<Rightarrow> audit_file \<Rightarrow> chain_result" where
  "verify_chain sha path f =
     (case f of
        Missing \<Rightarrow> plain_result True (asc ''audit file not found: '' @ path) False
      | Inaccessible e \<Rightarrow> plain_result False (asc ''cannot access audit file: '' @ e) False
      | Contents b err \<Rightarrow>
          (case verify_lines sha verify_init 1 (text_lines (utf8_decode b)) of
             Inl r \<Rightarrow> r
           | Inr st \<Rightarrow>
               (case err of
                  None \<Rightarrow> verify_finish st
                | Some e \<Rightarrow>
                    \<lparr>cr_ok = False, cr_records = v_records st,
                     cr_start_seq = map_option fst (v_start st),
                     cr_start_prev = map_option snd (v_start st), cr_broken_at = None,
                     cr_reason = asc ''read error: '' @ e, cr_anchored = False,
                     cr_present = True\<rparr>)))"

subsection \<open>The logger\<close>

record audit =
  au_format :: pystr
  au_chain :: bool
  au_degraded :: bool
  au_reason :: pystr
  au_to_file :: bool
  au_seq :: int
  au_prev :: pystr
  au_disk :: bytes

definition mark_degraded :: "pystr \<Rightarrow> audit \<Rightarrow> audit" where
  "mark_degraded why au =
     (if au_degraded au then au else au\<lparr>au_reason := why, au_degraded := True\<rparr>)"

text \<open>The last record of the active file, or of the newest rotated sibling when the active
  file is empty.\<close>

definition resume_chain :: "pystr \<Rightarrow> dirent list \<Rightarrow> audit \<Rightarrow> audit" where
  "resume_chain target entries au =
     (let last = strip (tail_path (Plain (au_disk au)) 1);
          last = (if last = [] \<and> au_disk au = []
                  then (case latest_rotated_path target entries of
                          None \<Rightarrow> last
                        | Some d \<Rightarrow> strip (tail_path (d_seg d) 1))
                  else last)
      in if last = [] then au
         else (case loads last of
                 Some (JObj kvs) \<Rightarrow>
                   if is_chained (JObj kvs)
                   then au\<lparr>au_seq := the (seq_of kvs) + 1, au_prev := the (chain_of kvs)\<rparr>
                   else au
               | _ \<Rightarrow> au))"

text \<open>Construction: \<open>open_error\<close> is the failure to open the sink, if any; \<open>disk\<close> is what the
  file already holds.\<close>

definition audit_init ::
  "pystr \<Rightarrow> bool \<Rightarrow> pystr option \<Rightarrow> bytes \<Rightarrow> pystr \<Rightarrow> dirent list \<Rightarrow> audit" where
  "audit_init fmt chain open_error disk target entries =
     (let au = \<lparr>au_format = fmt, au_chain = chain, au_degraded = (open_error \<noteq> None),
                au_reason = (case open_error of None \<Rightarrow> [] | Some e \<Rightarrow> e),
                au_to_file = (open_error = None), au_seq = 0, au_prev = CHAIN_GENESIS,
                au_disk = disk\<rparr>
      in if chain \<and> \<not> au_degraded au then resume_chain target entries au else au)"

text \<open>The file handler encodes lone surrogates as backslash escapes.\<close>

definition encode_backslashreplace :: "pystr \<Rightarrow> bytes" where
  "encode_backslashreplace s =
     concat (map (\<lambda>c. if is_surrogate c then u_escape c else encode_char c) s)"

text \<open>Handing a line to the handler: a failed write only marks the sink degraded.\<close>

definition log_line :: "bool \<Rightarrow> pystr \<Rightarrow> audit \<Rightarrow> audit" where
  "log_line write_ok line au =
     (if \<not> au_to_file au then au
      else if write_ok then au\<lparr>au_disk := au_disk au @ encode_backslashreplace (line @ [10])\<rparr>
      else mark_degraded (asc ''audit write failed at runtime'') au)"

definition emit :: "(bytes \<Rightarrow> pystr) \<Rightarrow> bool \<Rightarrow> record_fields \<Rightarrow> audit \<Rightarrow> audit" where
  "emit sha write_ok entry au =
     (if au_chain au
      then (let e1 = dset (asc ''prev'') (JStr (au_prev au))
                       (dset (asc ''seq'') (JInt (au_seq au)) entry);
                chain = chain_value sha (au_prev au) e1;
                e2 = dset (asc ''chain'') (JStr chain) e1;
                au1 = log_line write_ok (formatter (au_format au) e2) au
            in au1\<lparr>au_seq := au_seq au + 1, au_prev := chain\<rparr>)
      else log_line write_ok (formatter (au_format au) entry) au)"

record audit_call =
  ac_tool :: pystr
  ac_args :: "(pystr, json) dict"
  ac_output :: pystr
  ac_exit :: "int option"
  ac_tier :: int
  ac_request_id :: pystr
  ac_client_id :: pystr
  ac_denied :: bool
  ac_action :: pystr

definition opt_field :: "string \<Rightarrow> pystr \<Rightarrow> record_fields \<Rightarrow> record_fields" where
  "opt_field name v e = (if v = [] then e else dset (asc name) (JStr v) e)"

definition record_entry :: "(bytes \<Rightarrow> pystr) \<Rightarrow> pystr \<Rightarrow> audit_call \<Rightarrow> record_fields" where
  "record_entry sha ts c =
     opt_field ''action'' (ac_action c) (opt_field ''client_id'' (ac_client_id c)
      (opt_field ''request_id'' (ac_request_id c)
        [(asc ''ts'', JStr ts), (asc ''tool'', JStr (ac_tool c)), (asc ''tier'', JInt (ac_tier c)),
         (asc ''denied'', JBool (ac_denied c)), (asc ''args'', JObj (ac_args c)),
         (asc ''output_sha256'', JStr (sha256_hex sha (ac_output c))),
         (asc ''output_len'', JInt (int (length (utf8_encode (ac_output c))))),
         (asc ''exit_code'', case ac_exit c of None \<Rightarrow> JNull | Some i \<Rightarrow> JInt i)]))"

definition audit_record :: "(bytes \<Rightarrow> pystr) \<Rightarrow> bool \<Rightarrow> pystr \<Rightarrow> audit_call \<Rightarrow> audit \<Rightarrow> audit" where
  "audit_record sha write_ok ts c au = emit sha write_ok (record_entry sha ts c) au"

definition syscall_entry ::
  "pystr \<Rightarrow> int \<Rightarrow> pystr \<Rightarrow> int \<Rightarrow> int list \<Rightarrow> pystr \<Rightarrow> record_fields" where
  "syscall_entry ts pid syscall nr args request_id =
     (case syscall_arg_fields args of (sgn_args, exact_hex) \<Rightarrow>
        opt_field ''request_id'' request_id
          [(asc ''ts'', JStr ts), (asc ''tool'', JStr (asc ''syscall_notify'')),
           (asc ''tier'', JInt 0), (asc ''pid'', JInt pid), (asc ''syscall'', JStr syscall),
           (asc ''nr'', JInt nr), (asc ''syscall_args'', JList (map JInt sgn_args)),
           (asc ''syscall_args_hex'', JList (map JStr exact_hex))])"

definition record_syscall ::
  "(bytes \<Rightarrow> pystr) \<Rightarrow> bool \<Rightarrow> pystr \<Rightarrow> int \<Rightarrow> pystr \<Rightarrow> int \<Rightarrow> int list \<Rightarrow> pystr \<Rightarrow> audit \<Rightarrow> audit" where
  "record_syscall sha write_ok ts pid syscall nr args request_id au =
     emit sha write_ok (syscall_entry ts pid syscall nr args request_id) au"

definition overflow_entry :: "pystr \<Rightarrow> int \<Rightarrow> int \<Rightarrow> pystr \<Rightarrow> record_fields" where
  "overflow_entry ts pid cap request_id =
     opt_field ''request_id'' request_id
       [(asc ''ts'', JStr ts), (asc ''tool'', JStr (asc ''syscall_notify_overflow'')),
        (asc ''tier'', JInt 0), (asc ''pid'', JInt pid), (asc ''cap'', JInt cap)]"

definition record_syscall_overflow ::
  "(bytes \<Rightarrow> pystr) \<Rightarrow> bool \<Rightarrow> pystr \<Rightarrow> int \<Rightarrow> int \<Rightarrow> pystr \<Rightarrow> audit \<Rightarrow> audit" where
  "record_syscall_overflow sha write_ok ts pid cap request_id au =
     emit sha write_ok (overflow_entry ts pid cap request_id) au"

definition audit_tail :: "int \<Rightarrow> audit \<Rightarrow> pystr" where
  "audit_tail lines au = (if lines \<le> 0 then [] else tail_path (Plain (au_disk au)) lines)"

subsection \<open>Syscall arguments\<close>

text \<open>What a reader of the hexadecimal field computes.\<close>

definition unhex :: "pystr \<Rightarrow> nat" where
  "unhex s = foldl (\<lambda>a c. a * 16 + the (hex_val c)) 0 s"

lemma unhex_hex_pad: "n < 16 ^ w \<Longrightarrow> unhex (hex_pad w n) = n"
proof (induction w arbitrary: n)
  case 0
  then show ?case by (simp add: unhex_def)
next
  case (Suc w)
  then have "unhex (hex_pad w (n div 16)) = n div 16" by (simp add: less_mult_imp_div_less mult.commute)
  then show ?case by (simp add: unhex_def hex_val_digit)
qed

lemma length_hex_pad [simp]: "length (hex_pad w n) = w"
  by (induction w arbitrary: n) simp_all

lemma sint_from_uint:
  fixes w :: "64 word"
  shows "sint w = (if uint w < 2 ^ 63 then uint w else uint w - 2 ^ 64)"
proof -
  have b: "- (2 ^ 63) \<le> sint w" "sint w < 2 ^ 63"
    using sint_ge [of w] sint_lt [of w] by simp_all
  have "uint w = sint w mod 2 ^ 64" by (simp add: uint_sint take_bit_eq_mod)
  moreover have "sint w mod 2 ^ 64 = sint w + 2 ^ 64" if "sint w < 0"
  proof -
    have "(sint w + 2 ^ 64) mod 2 ^ 64 = sint w + 2 ^ 64"
      using that b by (intro mod_pos_pos_trivial) auto
    then show ?thesis by (simp only: mod_add_self2)
  qed
  moreover have "sint w mod 2 ^ 64 = sint w" if "0 \<le> sint w"
    using that b by simp
  ultimately show ?thesis using b by (cases "sint w < 0") auto
qed

text \<open>A syscall record loses no bit: every register argument appears once as the signed
  64-bit value of the register, and once as 16 hexadecimal digits that read back to the
  unsigned value modulo 2^64.\<close>

theorem syscall_args_exact:
  "fst (syscall_arg_fields args) = map (\<lambda>a. sint (word_of_int a :: 64 word)) args \<and>
   map (\<lambda>h. int (unhex (drop 2 h))) (snd (syscall_arg_fields args)) = map (\<lambda>a. a mod 2 ^ 64) args \<and>
   map length (snd (syscall_arg_fields args)) = map (\<lambda>a. 18) args"
proof -
  have "unhex (hex_pad 16 (nat (uint (word_of_int a :: 64 word)))) = nat (a mod 2 ^ 64)" for a
    by (subst unhex_hex_pad) (simp_all add: uint_word_of_int nat_less_iff)
  moreover have "drop 2 (asc ''0x'' @ t) = t" for t by (simp add: asc_def)
  ultimately show ?thesis
    by (simp add: syscall_arg_fields_def Let_def sint_from_uint I64_SIGN_BIT_def U64_MASK_def)
qed

subsection \<open>One record, one line\<close>

lemma replace_char_gone: "c \<notin> set r \<Longrightarrow> c \<notin> set (replace_char c r s)"
  by (auto simp: replace_char_def)

lemma replace_char_keeps_out: "x \<notin> set s \<Longrightarrow> x \<notin> set r \<Longrightarrow> x \<notin> set (replace_char c r s)"
  by (auto simp: replace_char_def)

lemma escapes_no_eol:
  "10 \<notin> set (cef_escape v)" "13 \<notin> set (cef_escape v)"
  "10 \<notin> set (leef_escape v)" "13 \<notin> set (leef_escape v)" "9 \<notin> set (leef_escape v)"
  "10 \<notin> set (cef_header_escape v)" "13 \<notin> set (cef_header_escape v)"
  unfolding cef_escape_def leef_escape_def cef_header_escape_def
  by (intro replace_char_gone replace_char_keeps_out; simp)+

lemma join_out: "\<forall>x\<in>set xs. c \<notin> set x \<Longrightarrow> c \<notin> set sep \<Longrightarrow> c \<notin> set (join sep xs)"
  by (induction sep xs rule: join.induct) auto

lemma cr_asc [simp]: "13 \<in> set (asc s) \<longleftrightarrow> CHR 0x0D \<in> set s"
proof -
  have "(13::nat) = of_char x \<longleftrightarrow> x = CHR 0x0D" for x
    using of_char_eq_iff [of "CHR 0x0D" x, where ?'a = nat] by auto
  then show ?thesis by (auto simp: asc_def image_iff)
qed

definition plain_keys :: "record_fields \<Rightarrow> bool" where
  "plain_keys e \<longleftrightarrow> (\<forall>(k, v)\<in>set e. 9 \<notin> set k \<and> 10 \<notin> set k \<and> 13 \<notin> set k)"

lemma siem_fields_out:
  assumes "plain_keys e" "x \<in> {9, 10, 13}" "\<And>v. x \<notin> set (esc v)" "f \<in> set (map (siem_field esc) (sort_key fst e))"
  shows "x \<notin> set f"
  using assms by (fastforce simp: siem_field_def plain_keys_def)

lemma format_cef_line:
  assumes "plain_keys e"
  shows "10 \<notin> set (format_cef e)" "13 \<notin> set (format_cef e)"
proof -
  have "x \<notin> set (format_cef e)" if x: "x = 10 \<or> x = 13" for x
  proof -
    have "x \<notin> set (join [32] (map (siem_field cef_escape) (sort_key fst e)))"
      using siem_fields_out [OF assms, of x cef_escape] escapes_no_eol x by (intro join_out) auto
    moreover have "x \<notin> set (join [124] (map (\<lambda>f. cef_header_escape (asc f)) fs))" for fs
      using escapes_no_eol x by (intro join_out) auto
    ultimately show ?thesis using x escapes_no_eol by (auto simp: format_cef_def Let_def)
  qed
  then show "10 \<notin> set (format_cef e)" "13 \<notin> set (format_cef e)" by simp_all
qed

lemma format_leef_line:
  assumes "plain_keys e"
  shows "10 \<notin> set (format_leef e)" "13 \<notin> set (format_leef e)"
proof -
  have "x \<notin> set (format_leef e)" if x: "x = 10 \<or> x = 13" for x
  proof -
    have "x \<notin> set (join [9] (map (siem_field leef_escape) (sort_key fst e)))"
      using siem_fields_out [OF assms, of x leef_escape] escapes_no_eol x by (intro join_out) auto
    then show ?thesis using x by (auto simp: format_leef_def)
  qed
  then show "10 \<notin> set (format_leef e)" "13 \<notin> set (format_leef e)" by simp_all
qed

text \<open>In every output format a record is one line, whatever its values hold; and the extension
  of a LEEF record splits at tabs into exactly its fields.\<close>

theorem record_is_one_line:
  assumes "plain_keys e" "wf_json False (JObj e)" "e \<noteq> []"
  shows "10 \<notin> set (formatter fmt e) \<and> 13 \<notin> set (formatter fmt e) \<and>
    split_on 9 (drop 47 (format_leef e)) = map (siem_field leef_escape) (sort_key fst e)"
proof -
  have "10 \<notin> set (format_jsonl e)" "13 \<notin> set (format_jsonl e)"
    using dumps_printable(1) [OF printable_fmts(1) assms(2)] unfolding format_jsonl_def by force+
  moreover have "split_on 9 (join [9] (map (siem_field leef_escape) (sort_key fst e)))
      = map (siem_field leef_escape) (sort_key fst e)"
  proof (rule split_on_join)
    show "map (siem_field leef_escape) (sort_key fst e) \<noteq> []"
      using assms(3) by (metis length_0_conv length_map length_sort)
    show "\<forall>x\<in>set (map (siem_field leef_escape) (sort_key fst e)). 9 \<notin> set x"
      using siem_fields_out [OF assms(1), of 9 leef_escape] escapes_no_eol(5) by blast
  qed
  moreover have "drop 47 (format_leef e) = join [9] (map (siem_field leef_escape) (sort_key fst e))"
    by (simp add: format_leef_def)
  ultimately show ?thesis
    using format_cef_line [OF assms(1)] format_leef_line [OF assms(1)] by (simp add: formatter_def)
qed

theorem record_is_one_line_witness:
  "10 \<notin> set (formatter (asc ''leef'') [(asc ''k'', JStr [10, 9])]) \<and>
   13 \<notin> set (formatter (asc ''leef'') [(asc ''k'', JStr [10, 9])]) \<and>
   split_on 9 (drop 47 (format_leef [(asc ''k'', JStr [10, 9])]))
     = map (siem_field leef_escape) (sort_key fst [(asc ''k'', JStr [10, 9])])"
  by (rule record_is_one_line) (simp_all add: plain_keys_def asc_def)

end
