(* ===== verification/Broker.thy ===== *)
theory Broker
  imports Machines Json "HOL-Library.Multiset"
begin

text \<open>
  \<open>src/relay_shell/broker.py\<close>: single-use, TTL-bounded confirmation tokens for Tier-3
  operations, and \<open>_confirm_op_key\<close> of \<open>src/relay_shell/server.py\<close>, the operation
  identity a token is bound to. Hexadecimal SHA-256 is the parameter \<open>sha\<close>, the unguessable token and
  the clock reading are arguments of each operation.
\<close>

definition op_hash :: "(bytes \<Rightarrow> pystr) \<Rightarrow> pystr \<Rightarrow> pystr \<Rightarrow> pystr" where
  "op_hash sha tool op_key = sha256_hex sha (tool @ [0] @ op_key)"

definition confirm_op_key :: "pystr \<Rightarrow> json \<Rightarrow> pystr" where
  "confirm_op_key policy_text audit_args = policy_text @ [0] @ canonical_json audit_args"

record entry =
  e_hash :: pystr
  e_expires :: real
  e_client :: pystr
  e_armed :: bool

record challenge =
  ch_token :: pystr
  ch_ttl :: int

record broker =
  b_ttl :: int
  b_max :: nat
  b_tokens :: "(pystr, entry) dict"

definition broker_init :: "int \<Rightarrow> nat \<Rightarrow> broker" where
  "broker_init ttl max_pending = \<lparr>b_ttl = max 1 ttl, b_max = max_pending, b_tokens = []\<rparr>"

definition MAX_PENDING :: nat where
  "MAX_PENDING = 256"

definition evict_key :: "pystr \<times> entry \<Rightarrow> bool \<times> real" where
  "evict_key kv = (e_armed (snd kv), e_expires (snd kv))"

definition broker_sweep :: "real \<Rightarrow> broker \<Rightarrow> broker" where
  "broker_sweep now b =
     (let live = filter (\<lambda>(tok, e). \<not> e_expires e \<le> now) (b_tokens b) in
      if length live > b_max b
      then (let doomed = map fst (take (length live - b_max b) (sort_key evict_key live))
            in b\<lparr>b_tokens := filter (\<lambda>(tok, e). tok \<notin> set doomed) live\<rparr>)
      else b\<lparr>b_tokens := live\<rparr>)"

definition plan ::
  "(bytes \<Rightarrow> pystr) \<Rightarrow> real \<Rightarrow> pystr \<Rightarrow> pystr \<Rightarrow> pystr \<Rightarrow> pystr \<Rightarrow> broker \<Rightarrow> challenge \<times> broker" where
  "plan sha now token tool op_key client b =
     (let b1 = broker_sweep now b;
          e = \<lparr>e_hash = op_hash sha tool op_key, e_expires = now + of_int (b_ttl b),
               e_client = client, e_armed = False\<rparr>;
          b2 = b1\<lparr>b_tokens := dset token e (b_tokens b1)\<rparr>
      in (\<lparr>ch_token = token, ch_ttl = b_ttl b\<rparr>, broker_sweep now b2))"

definition arm :: "real \<Rightarrow> pystr \<Rightarrow> pystr \<Rightarrow> broker \<Rightarrow> bool \<times> broker" where
  "arm now token client b =
     (let b1 = broker_sweep now b in
      case dget (b_tokens b1) token of
        None \<Rightarrow> (False, b1)
      | Some e \<Rightarrow>
          if e_client e \<noteq> client then (False, b1)
          else (True, b1\<lparr>b_tokens := dset token (e\<lparr>e_armed := True\<rparr>) (b_tokens b1)\<rparr>))"

definition consume ::
  "(bytes \<Rightarrow> pystr) \<Rightarrow> real \<Rightarrow> pystr \<Rightarrow> pystr \<Rightarrow> pystr \<Rightarrow> broker \<Rightarrow> bool \<times> broker" where
  "consume sha now tool op_key client b =
     (let target = op_hash sha tool op_key; b1 = broker_sweep now b in
      case find (\<lambda>(tok, e). e_armed e \<and> e_hash e = target \<and> e_client e = client) (b_tokens b1) of
        None \<Rightarrow> (False, b1)
      | Some (tok, e) \<Rightarrow> (True, b1\<lparr>b_tokens := ddel tok (b_tokens b1)\<rparr>))"

definition pending :: "real \<Rightarrow> broker \<Rightarrow> nat \<times> broker" where
  "pending now b = (let b1 = broker_sweep now b in (length (b_tokens b1), b1))"

subsection \<open>The broker as a machine\<close>

datatype broker_event =
    Plan real pystr pystr pystr pystr
  | Arm real pystr pystr
  | Consume real pystr pystr pystr
  | Pending real

fun broker_step :: "(bytes \<Rightarrow> pystr) \<Rightarrow> broker \<Rightarrow> broker_event \<Rightarrow> broker" where
  "broker_step sha b (Plan now token tool op_key client) =
     snd (plan sha now token tool op_key client b)"
| "broker_step sha b (Arm now token client) = snd (arm now token client b)"
| "broker_step sha b (Consume now tool op_key client) =
     snd (consume sha now tool op_key client b)"
| "broker_step sha b (Pending now) = snd (pending now b)"

text \<open>For the operation with hash \<open>h\<close> and the client \<open>c\<close>: whether a step plans it, arms one
  of its tokens, or releases it.\<close>

definition owns :: "pystr \<Rightarrow> pystr \<Rightarrow> entry \<Rightarrow> bool" where
  "owns h c e \<longleftrightarrow> e_hash e = h \<and> e_client e = c"

fun plans_of :: "(bytes \<Rightarrow> pystr) \<Rightarrow> pystr \<Rightarrow> pystr \<Rightarrow> broker \<Rightarrow> broker_event \<Rightarrow> nat" where
  "plans_of sha h c b (Plan now token tool op_key client) =
     (if client = c \<and> op_hash sha tool op_key = h then 1 else 0)"
| "plans_of sha h c b _ = 0"

fun arms_of :: "pystr \<Rightarrow> pystr \<Rightarrow> broker \<Rightarrow> broker_event \<Rightarrow> nat" where
  "arms_of h c b (Arm now token client) =
     (case dget (b_tokens (broker_sweep now b)) token of
        Some e \<Rightarrow> if client = c \<and> owns h c e then 1 else 0
      | None \<Rightarrow> 0)"
| "arms_of h c b _ = 0"

fun releases_of ::
  "(bytes \<Rightarrow> pystr) \<Rightarrow> pystr \<Rightarrow> pystr \<Rightarrow> broker \<Rightarrow> broker_event \<Rightarrow> nat" where
  "releases_of sha h c b (Consume now tool op_key client) =
     (if client = c \<and> op_hash sha tool op_key = h \<and>
         fst (consume sha now tool op_key client b) then 1 else 0)"
| "releases_of sha h c b _ = 0"

definition broker_ok :: "broker \<Rightarrow> bool" where
  "broker_ok b \<longleftrightarrow> dwf (b_tokens b) \<and> length (b_tokens b) \<le> b_max b \<and> 1 \<le> b_ttl b"

text \<open>Entries that satisfy a test.\<close>

definition entries :: "(entry \<Rightarrow> bool) \<Rightarrow> broker \<Rightarrow> nat" where
  "entries P b = length (filter (\<lambda>(tok, e). P e) (b_tokens b))"

subsection \<open>Lemmas\<close>

lemma length_filter_notin:
  assumes "distinct (map fst xs)" "ys = map fst (take n (sort_key f xs))" "n \<le> length xs"
  shows "length (filter (\<lambda>(k, v). k \<notin> set ys) xs) = length xs - n"
proof -
  let ?s = "sort_key f xs"
  have d: "distinct (map fst ?s)" using assms(1) by (metis distinct_map distinct_sort set_sort)
  have "mset (filter (\<lambda>(k, v). k \<notin> set ys) xs) = mset (filter (\<lambda>(k, v). k \<notin> set ys) ?s)"
    by (simp add: mset_filter)
  then have "length (filter (\<lambda>(k, v). k \<notin> set ys) xs) = length (filter (\<lambda>(k, v). k \<notin> set ys) ?s)"
    by (metis size_mset)
  also have "filter (\<lambda>(k, v). k \<notin> set ys) ?s = drop n ?s"
  proof -
    have split: "?s = take n ?s @ drop n ?s" by simp
    have disj: "fst ` set (take n ?s) \<inter> fst ` set (drop n ?s) = {}"
      using d by (metis append_take_drop_id distinct_append map_append set_map)
    have "filter (\<lambda>(k, v). k \<notin> set ys) (take n ?s) = []"
      by (force simp: assms(2) filter_empty_conv)
    moreover have "filter (\<lambda>(k, v). k \<notin> set ys) (drop n ?s) = drop n ?s"
      using disj by (force simp: assms(2) filter_id_conv)
    ultimately show ?thesis by (metis append_Nil filter_append split)
  qed
  finally show ?thesis using assms(3) by simp
qed

lemma sweep_fields [simp]:
  "b_ttl (broker_sweep now b) = b_ttl b" "b_max (broker_sweep now b) = b_max b"
  by (simp_all add: broker_sweep_def Let_def)

lemma sweep_is_filter:
  "\<exists>Q. b_tokens (broker_sweep now b) = filter Q (b_tokens b) \<and>
       (\<forall>x. Q x \<longrightarrow> now < e_expires (snd x))"
proof -
  define live where "live = filter (\<lambda>(tok, e). \<not> e_expires e \<le> now) (b_tokens b)"
  define doomed where
    "doomed = (if length live > b_max b
       then map fst (take (length live - b_max b) (sort_key evict_key live)) else [])"
  have "b_tokens (broker_sweep now b) = filter (\<lambda>(tok, e). tok \<notin> set doomed) live"
    by (simp add: broker_sweep_def Let_def live_def doomed_def)
  also have "\<dots> = filter (\<lambda>x. \<not> e_expires (snd x) \<le> now \<and> fst x \<notin> set doomed) (b_tokens b)"
    unfolding live_def filter_filter by (rule filter_cong) auto
  finally show ?thesis by (intro exI) auto
qed

lemma sweep_dwf: "dwf (b_tokens b) \<Longrightarrow> dwf (b_tokens (broker_sweep now b))"
  using sweep_is_filter [of now b] by auto

lemma sweep_subset: "set (b_tokens (broker_sweep now b)) \<subseteq> set (b_tokens b)"
  using sweep_is_filter [of now b] by auto

lemma sweep_live: "(t, e) \<in> set (b_tokens (broker_sweep now b)) \<Longrightarrow> now < e_expires e"
  using sweep_is_filter [of now b] by fastforce

lemma sweep_length:
  assumes "dwf (b_tokens b)"
  shows "length (b_tokens (broker_sweep now b)) \<le> b_max b"
proof -
  define live where "live = filter (\<lambda>(tok, e). \<not> e_expires e \<le> now) (b_tokens b)"
  have "distinct (map fst live)" using assms by (simp add: live_def dwf_def distinct_map_filter)
  then show ?thesis
    using length_filter_notin [of live _ "length live - b_max b" evict_key]
    by (auto simp: broker_sweep_def Let_def live_def [symmetric])
qed

lemma sweep_ok: "dwf (b_tokens b) \<Longrightarrow> 1 \<le> b_ttl b \<Longrightarrow> broker_ok (broker_sweep now b)"
  by (simp add: broker_ok_def sweep_dwf sweep_length)

lemma sweep_entries: "entries P (broker_sweep now b) \<le> entries P b"
proof -
  obtain Q where Q: "b_tokens (broker_sweep now b) = filter Q (b_tokens b)"
    using sweep_is_filter by blast
  have "filter (\<lambda>(tok, e). P e) (filter Q (b_tokens b))
      = filter Q (filter (\<lambda>(tok, e). P e) (b_tokens b))"
    unfolding filter_filter by (rule filter_cong) auto
  then show ?thesis by (simp add: entries_def Q del: filter_filter)
qed

text \<open>How the store operations change the number of entries that satisfy a test.\<close>

lemma filter_dset_le:
  "length (filter (\<lambda>(t, e). P e) (dset k v d)) \<le>
     length (filter (\<lambda>(t, e). P e) d) + (if P v then 1 else 0)"
  by (induction d) auto

lemma filter_dset_same:
  "dget d k = Some e \<Longrightarrow> P v = P e \<Longrightarrow>
     length (filter (\<lambda>(t, e). P e) (dset k v d)) = length (filter (\<lambda>(t, e). P e) d)"
  by (induction d) (auto split: if_splits)

lemma filter_ddel_le:
  "length (filter (\<lambda>(t, e). P e) (ddel k d)) \<le> length (filter (\<lambda>(t, e). P e) d)"
  by (induction d) auto

lemma filter_ddel_less:
  "(k, e) \<in> set d \<Longrightarrow> P e \<Longrightarrow>
     Suc (length (filter (\<lambda>(t, e). P e) (ddel k d))) \<le> length (filter (\<lambda>(t, e). P e) d)"
proof (induction d)
  case Nil
  then show ?case by simp
next
  case (Cons x d)
  then show ?case
    using filter_ddel_le [of P k d] by (cases x) (auto simp: le_SucI)
qed

lemma find_entry:
  "find (\<lambda>(tok, e). R e) d = Some (t, e) \<Longrightarrow> (t, e) \<in> set d \<and> R e"
  by (drule find_Some_in) simp

text \<open>What \<open>consume\<close> and \<open>arm\<close> do, as one case distinction each.\<close>

lemma consume_cases:
  obtains (refused) "consume sha now tool key c b = (False, broker_sweep now b)"
      "\<forall>(t, e)\<in>set (b_tokens (broker_sweep now b)).
         \<not> (e_armed e \<and> owns (op_hash sha tool key) c e)"
  | (released) t e where
      "consume sha now tool key c b =
         (True, (broker_sweep now b)\<lparr>b_tokens := ddel t (b_tokens (broker_sweep now b))\<rparr>)"
      "(t, e) \<in> set (b_tokens (broker_sweep now b))"
      "e_armed e" "owns (op_hash sha tool key) c e"
proof (cases "find (\<lambda>(tok, e). e_armed e \<and> e_hash e = op_hash sha tool key \<and> e_client e = c)
    (b_tokens (broker_sweep now b))")
  case None
  then have "consume sha now tool key c b = (False, broker_sweep now b)"
    by (simp add: consume_def Let_def)
  moreover have "\<forall>(t, e)\<in>set (b_tokens (broker_sweep now b)).
      \<not> (e_armed e \<and> owns (op_hash sha tool key) c e)"
    using None by (auto simp: owns_def find_None_all)
  ultimately show thesis by (rule refused)
next
  case (Some p)
  obtain t e where p: "p = (t, e)" by (cases p)
  have "(t, e) \<in> set (b_tokens (broker_sweep now b)) \<and>
      e_armed e \<and> e_hash e = op_hash sha tool key \<and> e_client e = c"
    by (rule find_entry) (use Some p in simp)
  with Some p show thesis
    by (intro released [of t e]) (simp_all add: consume_def Let_def owns_def)
qed

lemma arm_cases:
  obtains (refused) "arm now t c b = (False, broker_sweep now b)"
      "\<And>e. dget (b_tokens (broker_sweep now b)) t = Some e \<Longrightarrow> e_client e \<noteq> c"
  | (armed) e where
      "arm now t c b =
         (True, (broker_sweep now b)
            \<lparr>b_tokens := dset t (e\<lparr>e_armed := True\<rparr>) (b_tokens (broker_sweep now b))\<rparr>)"
      "dget (b_tokens (broker_sweep now b)) t = Some e" "e_client e = c"
  by (cases "dget (b_tokens (broker_sweep now b)) t")
     (auto simp: arm_def Let_def split: if_splits)

lemmas broker_ops = plan_def arm_def consume_def pending_def Let_def

subsection \<open>The store invariant\<close>

lemma broker_ok_step:
  assumes "broker_ok b"
  shows "broker_ok (broker_step sha b ev)"
proof -
  have ok: "dwf (b_tokens b)" "1 \<le> b_ttl b" using assms by (simp_all add: broker_ok_def)
  note swept = sweep_ok [OF ok] sweep_dwf [OF ok(1)]
  show ?thesis
  proof (cases ev)
    case (Plan now token tool op_key client)
    then show ?thesis using swept ok by (simp add: plan_def Let_def sweep_ok)
  next
    case (Arm now token client)
    then show ?thesis
      using swept(1) [of now]
      by (cases rule: arm_cases [of now token client b])
         (auto simp: broker_ok_def length_dset)
  next
    case (Consume now tool op_key client)
    then show ?thesis
      using swept(1) [of now] order_trans [OF length_ddel_le]
      by (cases rule: consume_cases [of sha now tool op_key client b]) (auto simp: broker_ok_def)
  next
    case (Pending now)
    then show ?thesis using swept(1) by (simp add: pending_def Let_def)
  qed
qed

interpretation store: machine_inv "broker_step sha" broker_ok for sha
  by unfold_locales (rule broker_ok_step)

text \<open>Tokens of an operation are earned by plans; armed tokens of it by arms; both are spent
  by releases.\<close>

lemma entries_simps [simp]:
  "entries P (b\<lparr>b_tokens := d\<rparr>) = length (filter (\<lambda>(t, e). P e) d)"
  by (simp add: entries_def)

lemma entries_planned_step:
  assumes "broker_ok b"
  shows "entries (owns h c) (broker_step sha b ev) + releases_of sha h c b ev
           \<le> entries (owns h c) b + plans_of sha h c b ev"
proof (cases ev)
  case (Plan now token tool op_key client)
  let ?b1 = "broker_sweep now b"
  let ?e = "\<lparr>e_hash = op_hash sha tool op_key, e_expires = now + of_int (b_ttl b),
               e_client = client, e_armed = False\<rparr>"
  have "entries (owns h c) (broker_step sha b ev)
      \<le> length (filter (\<lambda>(t, e). owns h c e) (dset token ?e (b_tokens ?b1)))"
    using sweep_entries [of "owns h c" now "?b1\<lparr>b_tokens := dset token ?e (b_tokens ?b1)\<rparr>"]
    by (simp add: Plan plan_def Let_def)
  also have "\<dots> \<le> entries (owns h c) ?b1 + (if owns h c ?e then 1 else 0)"
    unfolding entries_def by (rule filter_dset_le)
  also have "\<dots> \<le> entries (owns h c) b + plans_of sha h c b ev"
    using sweep_entries [of "owns h c" now b] by (auto simp: Plan owns_def)
  finally show ?thesis by (simp add: Plan)
next
  case (Arm now token client)
  then show ?thesis
    using sweep_entries [of "owns h c" now b]
    by (cases rule: arm_cases [of now token client b])
       (auto simp: filter_dset_same owns_def entries_def)
next
  case (Consume now tool op_key client)
  show ?thesis
  proof (cases rule: consume_cases [of sha now tool op_key client b])
    case refused
    then show ?thesis using Consume sweep_entries [of "owns h c" now b] by simp
  next
    case (released t e)
    then show ?thesis
      using Consume sweep_entries [of "owns h c" now b]
        filter_ddel_less [of t e "b_tokens (broker_sweep now b)" "owns h c"]
        filter_ddel_le [of "owns h c" t "b_tokens (broker_sweep now b)"]
      by (auto simp: entries_def [of _ "broker_sweep now b"])
  qed
next
  case (Pending now)
  then show ?thesis using sweep_entries [of "owns h c" now b] by (simp add: pending_def Let_def)
qed

interpretation planned: ledger "broker_step sha" broker_ok "entries (owns h c)"
  "plans_of sha h c" "releases_of sha h c" for sha h c
  by unfold_locales (rule broker_ok_step, assumption, rule entries_planned_step)

lemma entries_armed_step:
  assumes "broker_ok b"
  shows "entries (\<lambda>e. e_armed e \<and> owns h c e) (broker_step sha b ev) + releases_of sha h c b ev
           \<le> entries (\<lambda>e. e_armed e \<and> owns h c e) b + arms_of h c b ev"
proof (cases ev)
  case (Plan now token tool op_key client)
  let ?P = "\<lambda>e. e_armed e \<and> owns h c e"
  let ?b1 = "broker_sweep now b"
  let ?e = "\<lparr>e_hash = op_hash sha tool op_key, e_expires = now + of_int (b_ttl b),
               e_client = client, e_armed = False\<rparr>"
  have "entries ?P (broker_step sha b ev)
      \<le> length (filter (\<lambda>(t, e). ?P e) (dset token ?e (b_tokens ?b1)))"
    using sweep_entries [of ?P now "?b1\<lparr>b_tokens := dset token ?e (b_tokens ?b1)\<rparr>"]
    by (simp add: Plan plan_def Let_def)
  also have "\<dots> \<le> entries ?P ?b1"
    using filter_dset_le [of ?P token ?e "b_tokens ?b1"] by (simp add: entries_def)
  also have "\<dots> \<le> entries ?P b" by (rule sweep_entries)
  finally show ?thesis by (simp add: Plan)
next
  case (Arm now token client)
  let ?P = "\<lambda>e. e_armed e \<and> owns h c e"
  show ?thesis
  proof (cases rule: arm_cases [of now token client b])
    case refused
    then show ?thesis using Arm sweep_entries [of ?P now b] by simp
  next
    case (armed e)
    then show ?thesis
      using Arm sweep_entries [of ?P now b]
        filter_dset_le [of ?P token "e\<lparr>e_armed := True\<rparr>" "b_tokens (broker_sweep now b)"]
      by (auto simp: owns_def entries_def [of _ "broker_sweep now b"] split: if_splits)
  qed
next
  case (Consume now tool op_key client)
  let ?P = "\<lambda>e. e_armed e \<and> owns h c e"
  show ?thesis
  proof (cases rule: consume_cases [of sha now tool op_key client b])
    case refused
    then show ?thesis using Consume sweep_entries [of ?P now b] by simp
  next
    case (released t e)
    then show ?thesis
      using Consume sweep_entries [of ?P now b]
        filter_ddel_less [of t e "b_tokens (broker_sweep now b)" ?P]
        filter_ddel_le [of ?P t "b_tokens (broker_sweep now b)"]
      by (auto simp: entries_def [of _ "broker_sweep now b"])
  qed
next
  case (Pending now)
  then show ?thesis using sweep_entries [of _ now b] by (simp add: pending_def Let_def)
qed

interpretation armed: ledger "broker_step sha" broker_ok
  "entries (\<lambda>e. e_armed e \<and> owns h c e)" "arms_of h c" "releases_of sha h c" for sha h c
  by unfold_locales (rule broker_ok_step, assumption, rule entries_armed_step)

lemma broker_init_ok [simp]: "broker_ok (broker_init ttl n)"
  by (simp add: broker_ok_def broker_init_def)

lemma broker_init_empty [simp]: "entries P (broker_init ttl n) = 0"
  by (simp add: entries_def broker_init_def)

subsection \<open>Eviction spares armed tokens\<close>

lemma sorted_unarmed_first:
  "sorted (map evict_key s) \<Longrightarrow>
     s = filter (\<lambda>(t, e). \<not> e_armed e) s @ filter (\<lambda>(t, e). e_armed e) s"
proof (induction s)
  case Nil
  then show ?case by simp
next
  case (Cons x s)
  show ?case
  proof (cases "e_armed (snd x)")
    case True
    have "\<forall>y\<in>set s. e_armed (snd y)"
      using Cons.prems True by (auto simp: evict_key_def less_eq_prod_def)
    then have "filter (\<lambda>(t, e). \<not> e_armed e) s = []" "filter (\<lambda>(t, e). e_armed e) s = s"
      by (auto simp: filter_empty_conv filter_id_conv)
    with True show ?thesis by (cases x) simp
  next
    case False
    with Cons show ?thesis by (cases x) simp
  qed
qed

lemma take_unarmed:
  assumes "length (filter (\<lambda>(t, e). e_armed e) xs) \<le> m" "m \<le> length xs"
    "(t, e) \<in> set (take (length xs - m) (sort_key evict_key xs))"
  shows "\<not> e_armed e"
proof -
  let ?s = "sort_key evict_key xs"
  let ?u = "filter (\<lambda>(t, e). \<not> e_armed e) ?s"
  have "mset (filter (\<lambda>(t, e). e_armed e) ?s) = mset (filter (\<lambda>(t, e). e_armed e) xs)"
    by (simp add: mset_filter)
  then have "length (filter (\<lambda>(t, e). e_armed e) ?s) \<le> m"
    using assms(1) by (metis size_mset)
  moreover have s: "?s = ?u @ filter (\<lambda>(t, e). e_armed e) ?s"
    by (rule sorted_unarmed_first) simp
  moreover have "length ?s = length ?u + length (filter (\<lambda>(t, e). e_armed e) ?s)"
    using arg_cong [OF s, of length] by (simp only: length_append)
  ultimately have le: "length xs - m \<le> length ?u" by simp
  have "take (length xs - m) ?s
      = take (length xs - m) (?u @ filter (\<lambda>(t, e). e_armed e) ?s)"
    using s by (rule arg_cong)
  also have "\<dots> = take (length xs - m) ?u" using le by simp
  finally have "take (length xs - m) ?s = take (length xs - m) ?u" .
  then have "(t, e) \<in> set ?u" using assms(3) by (metis in_set_takeD)
  then show ?thesis by simp
qed

lemma sweep_keeps_armed:
  assumes "dwf (b_tokens b)" "entries e_armed b \<le> b_max b"
    and "(t, e) \<in> set (b_tokens b)" "e_armed e" "now < e_expires e"
  shows "(t, e) \<in> set (b_tokens (broker_sweep now b))"
proof -
  define live where "live = filter (\<lambda>(tok, e). \<not> e_expires e \<le> now) (b_tokens b)"
  have mem: "(t, e) \<in> set live" using assms by (simp add: live_def)
  have "length (filter (\<lambda>(t, e). e_armed e) live) \<le> entries e_armed b"
  proof -
    have "filter (\<lambda>(t, e). e_armed e) live
        = filter (\<lambda>(tok, e). \<not> e_expires e \<le> now) (filter (\<lambda>(t, e). e_armed e) (b_tokens b))"
      unfolding live_def filter_filter by (rule filter_cong) auto
    then show ?thesis by (simp add: entries_def del: filter_filter)
  qed
  then have few: "length (filter (\<lambda>(t, e). e_armed e) live) \<le> b_max b" using assms(2) by simp
  show ?thesis
  proof (cases "length live > b_max b")
    case False
    then show ?thesis using mem by (simp add: broker_sweep_def Let_def live_def)
  next
    case True
    have "t \<notin> fst ` set (take (length live - b_max b) (sort_key evict_key live))"
    proof
      assume "t \<in> fst ` set (take (length live - b_max b) (sort_key evict_key live))"
      then obtain e' where e': "(t, e') \<in> set (take (length live - b_max b) (sort_key evict_key live))"
        by auto
      have "\<not> e_armed e'" by (rule take_unarmed [OF few _ e']) (use True in simp)
      moreover have "(t, e') \<in> set live" using e' by (metis in_set_takeD set_sort)
      then have "e' = e" using mem assms(1) by (auto simp: live_def in_set_dget)
      ultimately show False using assms(4) by simp
    qed
    then show ?thesis
      using mem True by (simp add: broker_sweep_def Let_def live_def [symmetric] del: set_map) auto
  qed
qed

subsection \<open>Properties\<close>

text \<open>Confirmations are single use. In every history of a fresh broker, for each operation
  and client, the number of times \<open>consume\<close> lets the operation run is at most the number of
  times that client armed a token of that operation, and at most the number of times the
  operation was planned for that client.\<close>

theorem confirm_single_use:
  "total_of (broker_step sha) (releases_of sha h c) (broker_init ttl n) es
     \<le> total_of (broker_step sha) (arms_of h c) (broker_init ttl n) es \<and>
   total_of (broker_step sha) (releases_of sha h c) (broker_init ttl n) es
     \<le> total_of (broker_step sha) (plans_of sha h c) (broker_init ttl n) es"
  by (intro conjI armed.spent_le_earned planned.spent_le_earned) simp_all

text \<open>A call is released exactly when a live token exists that was armed, planned by this
  client and minted for this operation.\<close>

theorem consume_iff:
  "fst (consume sha now tool key c b) \<longleftrightarrow>
     (\<exists>t e. (t, e) \<in> set (b_tokens (broker_sweep now b)) \<and> now < e_expires e \<and> e_armed e \<and>
        e_client e = c \<and> e_hash e = op_hash sha tool key)"
proof (cases rule: consume_cases [of sha now tool key c b])
  case refused
  then show ?thesis by (auto simp: owns_def)
next
  case (released t e)
  then show ?thesis using sweep_live [OF released(2)] unfolding owns_def by (metis fst_conv)
qed

text \<open>The binding of a token identifies the call. If the hash does not collide on the two
  messages, equal operation hashes mean the same tool, the same policy text, and argument
  objects with the same keys and the same canonical values.\<close>

theorem op_binding:
  assumes "op_hash sha t (confirm_op_key p (JObj a)) = op_hash sha t' (confirm_op_key p' (JObj a'))"
    and "sha (utf8_encode (t @ [0] @ confirm_op_key p (JObj a)))
           = sha (utf8_encode (t' @ [0] @ confirm_op_key p' (JObj a'))) \<longrightarrow>
         utf8_encode (t @ [0] @ confirm_op_key p (JObj a))
           = utf8_encode (t' @ [0] @ confirm_op_key p' (JObj a'))"
    and "0 \<notin> set t" "0 \<notin> set t'"
    and "\<forall>x\<in>set (t @ confirm_op_key p (JObj a)). scalar x"
    and "\<forall>x\<in>set (t' @ confirm_op_key p' (JObj a')). scalar x"
    and "wf_json False (JObj a)" "wf_json False (JObj a')"
  shows "t = t' \<and> p = p' \<and>
     (\<forall>k. map_option sort_json (dget a k) = map_option sort_json (dget a' k))"
proof -
  have enc: "utf8_encode (t @ [0] @ confirm_op_key p (JObj a))
      = utf8_encode (t' @ [0] @ confirm_op_key p' (JObj a'))"
    using assms(1,2) unfolding op_hash_def sha256_hex_def by blast
  have "scalar 0" by (simp add: scalar_def is_surrogate_def)
  then have "t @ [0] @ confirm_op_key p (JObj a) = t' @ [0] @ confirm_op_key p' (JObj a')"
    using assms(5,6) by (intro utf8_encode_inj [OF _ _ enc]) simp_all
  then have t: "t = t'" "confirm_op_key p (JObj a) = confirm_op_key p' (JObj a')"
    using sep_split_first [of t 0 _ t'] assms(3,4) by simp_all
  have wf: "wf_json False (sort_json (JObj a))" "wf_json False (sort_json (JObj a'))"
    using wf_sort(1) assms(7,8) by blast+
  have nz: "0 \<notin> set (canonical_json (JObj x))" if "wf_json False (JObj x)" for x
    unfolding canonical_json_def
    using dumps_printable(1) [OF printable_fmts(2) wf_sort(1) [OF that]] by force
  have "p = p'" and c: "canonical_json (JObj a) = canonical_json (JObj a')"
    using sep_split_last [of p 0 _ p'] t(2) nz assms(7,8) by (simp_all add: confirm_op_key_def)
  moreover have "sort_json (JObj a) = sort_json (JObj a')"
    by (rule compact.enc_inj [OF wf]) (use c in \<open>simp add: canonical_json_def\<close>)
  then have "map_option sort_json (dget a k) = map_option sort_json (dget a' k)" for k
    using assms(7,8) by (intro sort_json_obj_eq) simp_all
  ultimately show ?thesis using t by simp
qed

theorem op_binding_witness:
  "asc ''shell_exec'' = asc ''shell_exec'' \<and> asc ''rm'' = asc ''rm'' \<and>
   (\<forall>k. map_option sort_json (dget [(asc ''a'', JInt 1), (asc ''b'', JInt 2)] k)
      = map_option sort_json (dget [(asc ''b'', JInt 2), (asc ''a'', JInt 1)] k))"
proof (rule op_binding [of "\<lambda>m. m"])
  have keys: "sort_key fst [(asc ''a'', JInt 1), (asc ''b'', JInt 2)]
      = sort_key fst [(asc ''b'', JInt 2), (asc ''a'', JInt 1)]"
    by (simp add: asc_def)
  then show "op_hash (\<lambda>m. m) (asc ''shell_exec'')
       (confirm_op_key (asc ''rm'') (JObj [(asc ''a'', JInt 1), (asc ''b'', JInt 2)]))
     = op_hash (\<lambda>m. m) (asc ''shell_exec'')
       (confirm_op_key (asc ''rm'') (JObj [(asc ''b'', JInt 2), (asc ''a'', JInt 1)]))"
    by (simp add: confirm_op_key_def canonical_json_def)
qed (simp_all add: asc_def confirm_op_key_def canonical_json_def dump_str_def esc_char_def
    fmt_compact_def show_int_def digits.simps scalar_def is_surrogate_def)

subsubsection \<open>Expiry\<close>

definition dies_by :: "pystr \<Rightarrow> real \<Rightarrow> broker \<Rightarrow> bool" where
  "dies_by tok D b \<longleftrightarrow> (\<forall>e. (tok, e) \<in> set (b_tokens b) \<longrightarrow> e_expires e \<le> D)"

lemma dies_by_sweep: "dies_by tok D b \<Longrightarrow> dies_by tok D (broker_sweep now b)"
  using sweep_subset by (auto simp: dies_by_def)

lemma dies_by_step:
  assumes "dies_by tok D b" "\<forall>now tool key cl. ev \<noteq> Plan now tok tool key cl"
  shows "dies_by tok D (broker_step sha b ev)"
proof (cases ev)
  case (Plan now t tool key cl)
  then have "t \<noteq> tok" using assms(2) by blast
  then have "dies_by tok D ((broker_sweep now b)\<lparr>b_tokens := dset t e (b_tokens (broker_sweep now b))\<rparr>)"
    for e
    using dies_by_sweep [OF assms(1)] by (auto simp: dies_by_def dest!: in_set_dset)
  then show ?thesis using Plan by (simp add: plan_def Let_def dies_by_sweep)
next
  case (Arm now t cl)
  show ?thesis
  proof (cases rule: arm_cases [of now t cl b])
    case refused
    then show ?thesis using Arm dies_by_sweep [OF assms(1)] by simp
  next
    case (armed e)
    then show ?thesis
      using Arm dies_by_sweep [OF assms(1), of now] map_of_SomeD [OF armed(2)]
      by (auto simp: dies_by_def dest!: in_set_dset)
  qed
next
  case (Consume now tool key cl)
  show ?thesis
    using Consume dies_by_sweep [OF assms(1), of now]
    by (cases rule: consume_cases [of sha now tool key cl b])
       (auto simp: dies_by_def set_ddel)
next
  case (Pending now)
  then show ?thesis using dies_by_sweep [OF assms(1)] by (simp add: pending_def Let_def)
qed

lemma dies_by_run:
  "dies_by tok D b \<Longrightarrow> \<forall>ev\<in>set es. \<forall>now tool key cl. ev \<noteq> Plan now tok tool key cl \<Longrightarrow>
     dies_by tok D (run (broker_step sha) b es)"
  by (induction es arbitrary: b) (simp_all add: dies_by_step)

lemma plan_dies_by:
  assumes "broker_ok b"
  shows "dies_by tok (t0 + of_int (b_ttl b)) (snd (plan sha t0 tok tool key c b))"
proof -
  let ?b1 = "broker_sweep t0 b"
  have "dwf (b_tokens ?b1)" using assms by (simp add: broker_ok_def sweep_dwf)
  then have "dies_by tok (t0 + of_int (b_ttl b)) (?b1\<lparr>b_tokens := dset tok e (b_tokens ?b1)\<rparr>)"
    if "e_expires e = t0 + of_int (b_ttl b)" for e
    using that by (simp add: dies_by_def in_set_dget)
  then show ?thesis by (simp add: plan_def Let_def dies_by_sweep)
qed

text \<open>A challenge expires. After a plan at \<open>t0\<close> and any further operations, arming its
  token at or after \<open>t0 + ttl\<close> fails (the token text is never minted a second time).\<close>

theorem token_expires:
  assumes "broker_ok b" "t0 + of_int (b_ttl b) \<le> now"
    and "\<forall>ev\<in>set es. \<forall>n tl k cl. ev \<noteq> Plan n tok tl k cl"
  shows "\<not> fst (arm now tok c (run (broker_step sha) (snd (plan sha t0 tok tool key c0 b)) es))"
proof -
  let ?b = "run (broker_step sha) (snd (plan sha t0 tok tool key c0 b)) es"
  have "dies_by tok (t0 + of_int (b_ttl b)) ?b"
    using plan_dies_by [OF assms(1)] assms(3) by (rule dies_by_run)
  then have "dies_by tok (t0 + of_int (b_ttl b)) (broker_sweep now ?b)" by (rule dies_by_sweep)
  then have "dget (b_tokens (broker_sweep now ?b)) tok \<noteq> Some e" for e
    using sweep_live [of tok e now ?b] assms(2) map_of_SomeD [of _ tok e]
    by (fastforce simp: dies_by_def)
  then show ?thesis by (cases rule: arm_cases [of now tok c ?b]) auto
qed

theorem token_expires_witness:
  "\<not> fst (arm 30 (asc ''t'') [] (run (broker_step (\<lambda>m. m))
      (snd (plan (\<lambda>m. m) 0 (asc ''t'') (asc ''x'') (asc ''k'') [] (broker_init 30 256)))
      [Arm 5 (asc ''t'') [], Plan 6 (asc ''u'') (asc ''x'') (asc ''k'') []]))"
  by (rule token_expires) (simp_all add: broker_init_def broker_ok_def)

subsubsection \<open>A flood of plans\<close>

lemma armed_survives_plan:
  assumes "dwf (b_tokens b)" "entries e_armed b \<le> b_max b"
    and "dget (b_tokens b) t = Some e" "e_armed e" "now < e_expires e" "tok \<noteq> t"
    and b'_def: "b' = snd (plan sha now tok tool key c b)"
  shows "dwf (b_tokens b') \<and> entries e_armed b' \<le> b_max b' \<and> dget (b_tokens b') t = Some e"
proof -
  let ?b1 = "broker_sweep now b"
  let ?e = "\<lparr>e_hash = op_hash sha tool key, e_expires = now + of_int (b_ttl b),
               e_client = c, e_armed = False\<rparr>"
  let ?b2 = "?b1\<lparr>b_tokens := dset tok ?e (b_tokens ?b1)\<rparr>"
  have b': "b' = broker_sweep now ?b2" by (simp add: b'_def plan_def Let_def)
  have mem: "(t, e) \<in> set (b_tokens b)" using assms(3) by (rule map_of_SomeD)
  have d1: "dwf (b_tokens ?b1)" using assms(1) by (rule sweep_dwf)
  have "(t, e) \<in> set (b_tokens ?b1)" by (rule sweep_keeps_armed) (use assms mem in simp_all)
  then have in2: "(t, e) \<in> set (b_tokens ?b2)" using d1 assms(6) by (simp add: in_set_dget)
  have d2: "dwf (b_tokens ?b2)" using d1 by simp
  have "entries e_armed ?b2 \<le> entries e_armed ?b1"
    using filter_dset_le [of e_armed tok ?e "b_tokens ?b1"] by (simp add: entries_def)
  then have n2: "entries e_armed ?b2 \<le> b_max ?b2"
    using sweep_entries [of e_armed now b] assms(2) by simp
  have "(t, e) \<in> set (b_tokens b')"
    unfolding b' by (rule sweep_keeps_armed [OF d2 n2 in2 assms(4,5)])
  moreover have "dwf (b_tokens b')" unfolding b' by (rule sweep_dwf [OF d2])
  ultimately show ?thesis
    using n2 sweep_entries [of e_armed now ?b2] by (simp add: b' in_set_dget)
qed

lemma armed_survives_plans:
  "dwf (b_tokens b) \<Longrightarrow> entries e_armed b \<le> b_max b \<Longrightarrow> dget (b_tokens b) t = Some e \<Longrightarrow>
     e_armed e \<Longrightarrow>
     \<forall>ev\<in>set es. \<exists>n tok tl k cl. ev = Plan n tok tl k cl \<and> tok \<noteq> t \<and> n < e_expires e \<Longrightarrow>
     dwf (b_tokens (run (broker_step sha) b es)) \<and>
     entries e_armed (run (broker_step sha) b es) \<le> b_max (run (broker_step sha) b es) \<and>
     dget (b_tokens (run (broker_step sha) b es)) t = Some e"
proof (induction es arbitrary: b)
  case Nil
  then show ?case by simp
next
  case (Cons ev es)
  obtain n tok tl k cl where ev: "ev = Plan n tok tl k cl" "tok \<noteq> t" "n < e_expires e"
    using Cons.prems(5) by auto
  note step = armed_survives_plan [OF Cons.prems(1-4) ev(3,2) refl, of sha tl k cl]
  show ?case
    using Cons.IH [of "snd (plan sha n tok tl k cl b)"] step Cons.prems(4,5) by (simp add: ev(1))
qed

text \<open>C31: A confirmation is not lost to a flood. While at most \<open>max_pending\<close> tokens are armed,
  an armed token releases its operation after any number of further plans by anyone, until
  it expires.\<close>

theorem armed_token_survives_flood:
  assumes "broker_ok b" "entries e_armed b \<le> b_max b"
    and "dget (b_tokens b) t = Some e" "e_armed e" "e_client e = c"
    and "e_hash e = op_hash sha tool key" "now < e_expires e"
    and "\<forall>ev\<in>set es. \<exists>n tok tl k cl. ev = Plan n tok tl k cl \<and> tok \<noteq> t \<and> n < e_expires e"
  shows "fst (consume sha now tool key c (run (broker_step sha) b es))"
proof -
  let ?b = "run (broker_step sha) b es"
  have wf: "dwf (b_tokens b)" using assms(1) by (simp add: broker_ok_def)
  note s = armed_survives_plans [OF wf assms(2,3,4,8), of sha]
  then have "(t, e) \<in> set (b_tokens ?b)" by (intro map_of_SomeD) simp
  then have "(t, e) \<in> set (b_tokens (broker_sweep now ?b))"
    using s assms(4,7) by (intro sweep_keeps_armed) simp_all
  then show ?thesis
    using assms(4-6)
    by (cases rule: consume_cases [of sha now tool key c ?b]) (auto simp: owns_def)
qed

theorem armed_token_survives_flood_witness:
  "fst (consume (\<lambda>m. m) 20 (asc ''x'') (asc ''k'') [] (run (broker_step (\<lambda>m. m))
      \<lparr>b_ttl = 30, b_max = 1, b_tokens = [(asc ''t'',
         \<lparr>e_hash = op_hash (\<lambda>m. m) (asc ''x'') (asc ''k''), e_expires = 30, e_client = [],
          e_armed = True\<rparr>)]\<rparr>
      [Plan 1 (asc ''u'') (asc ''x'') (asc ''k'') [], Plan 2 (asc ''v'') (asc ''x'') (asc ''k'') []]))"
  by (rule armed_token_survives_flood [where t = "asc ''t''" and
        e = "\<lparr>e_hash = op_hash (\<lambda>m. m) (asc ''x'') (asc ''k''), e_expires = 30, e_client = [],
          e_armed = True\<rparr>"])
     (simp_all add: broker_ok_def dwf_def entries_def)

end
