(* ===== verification/Metrics.thy ===== *)
theory Metrics
  imports Machines
begin

text \<open>
  \<open>src/relay_shell/metrics.py\<close>: the in-memory counter and gauge registry and its Prometheus
  text exposition. A gauge provider is a handle; \<open>scrape\<close> gives the text of the float it
  returns, or \<open>None\<close> when it raises.
\<close>

definition TOOL_CALLS_TOTAL :: pystr where
  "TOOL_CALLS_TOTAL = asc ''relay_shell_tool_calls_total''"

definition SECCOMP_NOTIFY_EVENTS_TOTAL :: pystr where
  "SECCOMP_NOTIFY_EVENTS_TOTAL = asc ''relay_shell_seccomp_notify_events_total''"

definition SECCOMP_NOTIFY_OVERFLOW_TOTAL :: pystr where
  "SECCOMP_NOTIFY_OVERFLOW_TOTAL = asc ''relay_shell_seccomp_notify_overflow_total''"

definition ACTIVE_SESSIONS :: pystr where
  "ACTIVE_SESSIONS = asc ''relay_shell_active_sessions''"

definition ACTIVE_FORWARDS :: pystr where
  "ACTIVE_FORWARDS = asc ''relay_shell_active_forwards''"

definition AUDIT_DEGRADED :: pystr where
  "AUDIT_DEGRADED = asc ''relay_shell_audit_degraded''"

text \<open>\<open>_METRICS\<close>: name, kind, help text, in exposition order.\<close>

definition METRICS :: "(pystr \<times> pystr \<times> pystr) list" where
  "METRICS =
     [(TOOL_CALLS_TOTAL, asc ''counter'',
       asc ''Total tool invocations, labelled by tool/tier/mode/outcome.''),
      (SECCOMP_NOTIFY_EVENTS_TOTAL, asc ''counter'',
       asc ''Total seccomp-notify syscall observations, labelled by syscall.''),
      (SECCOMP_NOTIFY_OVERFLOW_TOTAL, asc ''counter'',
       asc ''Total tool calls whose syscall-notify per-call cap was hit.''),
      (ACTIVE_SESSIONS, asc ''gauge'', asc ''Current count of live local/SSH PTY sessions.''),
      (ACTIVE_FORWARDS, asc ''gauge'', asc ''Current count of live SSH port forwards.''),
      (AUDIT_DEGRADED, asc ''gauge'', asc ''1 if the audit sink is degraded; 0 otherwise.'')]"

definition HELP :: "(pystr, pystr) dict" where
  "HELP = map (\<lambda>(name, kind, txt). (name, txt)) METRICS"

definition TYPES :: "(pystr, pystr) dict" where
  "TYPES = map (\<lambda>(name, kind, txt). (name, kind)) METRICS"

definition COUNTER_ORDER :: "pystr list" where
  "COUNTER_ORDER = map fst (filter (\<lambda>(n, kind, t). kind = asc ''counter'') METRICS)"

definition GAUGE_ORDER :: "pystr list" where
  "GAUGE_ORDER = map fst (filter (\<lambda>(n, kind, t). kind = asc ''gauge'') METRICS)"

type_synonym labels = "(pystr \<times> pystr) list"

definition escape_label_value :: "pystr \<Rightarrow> pystr" where
  "escape_label_value value =
     replace_char 10 [92, 110] (replace_char 34 [92, 34] (replace_char 92 [92, 92] value))"

definition format_label :: "pystr \<times> pystr \<Rightarrow> pystr" where
  "format_label kv = fst kv @ [61, 34] @ escape_label_value (snd kv) @ [34]"

definition format_labels :: "labels \<Rightarrow> pystr" where
  "format_labels labels =
     (if labels = [] then []
      else [123] @ join [44] (map format_label (sort labels)) @ [125])"

record metrics =
  m_counters :: "(pystr, (labels, nat) dict) dict"
  m_gauges :: "(pystr, nat) dict"

definition metrics_init :: metrics where
  "metrics_init = \<lparr>m_counters = [], m_gauges = []\<rparr>"

text \<open>\<open>self._counters[name][labels] += 1\<close> on nested default dictionaries.\<close>

definition the_counts :: "metrics \<Rightarrow> pystr \<Rightarrow> (labels, nat) dict" where
  "the_counts m name = (case dget (m_counters m) name of None \<Rightarrow> [] | Some d \<Rightarrow> d)"

definition count :: "metrics \<Rightarrow> pystr \<Rightarrow> labels \<Rightarrow> nat" where
  "count m name ls = (case dget (the_counts m name) ls of None \<Rightarrow> 0 | Some n \<Rightarrow> n)"

definition bump :: "pystr \<Rightarrow> labels \<Rightarrow> metrics \<Rightarrow> metrics" where
  "bump name ls m =
     m\<lparr>m_counters := dset name (dset ls (count m name ls + 1) (the_counts m name)) (m_counters m)\<rparr>"

definition tool_labels :: "pystr \<Rightarrow> int \<Rightarrow> pystr \<Rightarrow> pystr \<Rightarrow> labels" where
  "tool_labels tool tier mode outcome =
     [(asc ''mode'', mode), (asc ''outcome'', outcome), (asc ''tier'', show_int tier),
      (asc ''tool'', tool)]"

definition inc_tool_call :: "pystr \<Rightarrow> int \<Rightarrow> pystr \<Rightarrow> pystr \<Rightarrow> metrics \<Rightarrow> metrics" where
  "inc_tool_call tool tier mode outcome m =
     bump TOOL_CALLS_TOTAL (tool_labels tool tier mode outcome) m"

definition inc_seccomp_event :: "pystr \<Rightarrow> metrics \<Rightarrow> metrics" where
  "inc_seccomp_event syscall m = bump SECCOMP_NOTIFY_EVENTS_TOTAL [(asc ''syscall'', syscall)] m"

definition inc_seccomp_overflow :: "metrics \<Rightarrow> metrics" where
  "inc_seccomp_overflow m = bump SECCOMP_NOTIFY_OVERFLOW_TOTAL [] m"

text \<open>\<open>ValueError\<close> for a name that is not a gauge.\<close>

definition register_gauge :: "pystr \<Rightarrow> nat \<Rightarrow> metrics \<Rightarrow> pystr + metrics" where
  "register_gauge name provider m =
     (if dget TYPES name \<noteq> Some (asc ''gauge'')
      then Inl (asc ''unknown or non-gauge metric'')
      else Inr (m\<lparr>m_gauges := dset name provider (m_gauges m)\<rparr>))"

definition sample_line :: "pystr \<Rightarrow> labels \<times> nat \<Rightarrow> pystr" where
  "sample_line name s = name @ format_labels (fst s) @ [32] @ show_int (int (snd s))"

definition head_lines :: "pystr \<Rightarrow> pystr list" where
  "head_lines name =
     [asc ''# HELP '' @ name @ [32] @ the (dget HELP name),
      asc ''# TYPE '' @ name @ [32] @ the (dget TYPES name)]"

definition counter_lines :: "metrics \<Rightarrow> pystr \<Rightarrow> pystr list" where
  "counter_lines m name = head_lines name @ map (sample_line name) (sort (the_counts m name))"

definition gauge_lines :: "(nat \<Rightarrow> pystr option) \<Rightarrow> metrics \<Rightarrow> pystr \<Rightarrow> pystr list" where
  "gauge_lines scrape m name = head_lines name @
     (case dget (m_gauges m) name of
        None \<Rightarrow> []
      | Some provider \<Rightarrow>
          (case scrape provider of None \<Rightarrow> [] | Some v \<Rightarrow> [name @ [32] @ v]))"

definition render_lines :: "(nat \<Rightarrow> pystr option) \<Rightarrow> metrics \<Rightarrow> pystr list" where
  "render_lines scrape m =
     concat (map (counter_lines m) COUNTER_ORDER) @
     concat (map (gauge_lines scrape m) GAUGE_ORDER)"

definition render :: "(nat \<Rightarrow> pystr option) \<Rightarrow> metrics \<Rightarrow> pystr" where
  "render scrape m = join [10] (render_lines scrape m @ [[]])"

subsection \<open>The registry as a machine\<close>

datatype metrics_event =
    IncTool pystr int pystr pystr
  | IncEvent pystr
  | IncOverflow
  | Register pystr nat

fun metrics_step :: "metrics \<Rightarrow> metrics_event \<Rightarrow> metrics" where
  "metrics_step m (IncTool tool tier mode outcome) = inc_tool_call tool tier mode outcome m"
| "metrics_step m (IncEvent syscall) = inc_seccomp_event syscall m"
| "metrics_step m IncOverflow = inc_seccomp_overflow m"
| "metrics_step m (Register name provider) =
     (case register_gauge name provider m of Inl _ \<Rightarrow> m | Inr m' \<Rightarrow> m')"

text \<open>The label keys are the literals of the code; they hold no line feed.\<close>

definition metrics_ok :: "metrics \<Rightarrow> bool" where
  "metrics_ok m \<longleftrightarrow>
     (\<forall>(name, d)\<in>set (m_counters m). \<forall>(ls, n)\<in>set d. \<forall>(k, v)\<in>set ls. 10 \<notin> set k)"

subsection \<open>Lemmas\<close>

lemma count_bump:
  "count (bump name ls m) name' ls' =
     count m name' ls' + (if name' = name \<and> ls' = ls then 1 else 0)"
  by (simp add: bump_def count_def the_counts_def)

lemma inc_gauges [simp]: "m_gauges (bump name ls m) = m_gauges m"
  by (simp add: bump_def)

lemma the_counts_in: "p \<in> set (the_counts m name) \<Longrightarrow> \<exists>d. (name, d) \<in> set (m_counters m) \<and> p \<in> set d"
  by (cases "dget (m_counters m) name") (auto simp: the_counts_def dest: map_of_SomeD)

lemma metrics_ok_bump:
  assumes "metrics_ok m" "\<forall>(k, v)\<in>set ls. 10 \<notin> set k"
  shows "metrics_ok (bump name ls m)"
  unfolding metrics_ok_def
proof (clarify)
  fix name' d ls' n k v
  assume in_m: "(name', d) \<in> set (m_counters (bump name ls m))"
    and in_d: "(ls', n) \<in> set d" and in_l: "(k, v) \<in> set ls'" and bad: "10 \<in> set k"
  have old: "\<not> ((name'', d'') \<in> set (m_counters m) \<and> (ls', n) \<in> set d'')" for name'' d''
    using assms(1) in_l bad by (fastforce simp: metrics_ok_def)
  have "(ls', n) \<notin> set (the_counts m name)" using old the_counts_in by blast
  moreover have "ls' \<noteq> ls" using assms(2) in_l bad by auto
  ultimately have "(ls', n) \<notin> set (dset ls (count m name ls + 1) (the_counts m name))"
    using in_set_dset by fastforce
  then show False
    using in_m in_d old unfolding bump_def by (auto dest!: in_set_dset)
qed

interpretation registry: machine_inv metrics_step metrics_ok
proof
  fix m e
  assume "metrics_ok m"
  then show "metrics_ok (metrics_step m e)"
    by (cases e)
       (auto simp: inc_tool_call_def inc_seccomp_event_def inc_seccomp_overflow_def
          tool_labels_def register_gauge_def asc_def intro!: metrics_ok_bump,
        simp add: metrics_ok_def)
qed

text \<open>Escaping, character by character.\<close>

definition esc_label :: "nat \<Rightarrow> pystr" where
  "esc_label c = (if c = 92 then [92, 92] else if c = 34 then [92, 34]
     else if c = 10 then [92, 110] else [c])"

lemma replace_char_simps [simp]:
  "replace_char c r [] = []"
  "replace_char c r (x # s) = (if x = c then r else [x]) @ replace_char c r s"
  by (simp_all add: replace_char_def)

lemma escape_label_value_eq: "escape_label_value s = concat (map esc_label s)"
  by (induction s) (simp_all add: escape_label_value_def esc_label_def)

text \<open>What a scraper reads back: backslash escapes undone, up to the closing quote.\<close>

fun read_label_value :: "pystr \<Rightarrow> (pystr \<times> pystr) option" where
  "read_label_value [] = None"
| "read_label_value (c # s) =
     (if c = 34 then Some ([], s)
      else if c = 92 then
        (case s of
           [] \<Rightarrow> None
         | d # t \<Rightarrow> map_option (\<lambda>(v, r). ((if d = 110 then 10 else d) # v, r)) (read_label_value t))
      else map_option (\<lambda>(v, r). (c # v, r)) (read_label_value s))"

lemma no_lf_escape: "10 \<notin> set (escape_label_value s)"
  by (auto simp: escape_label_value_eq esc_label_def split: if_splits)

lemma no_lf_join: "\<forall>x\<in>set xs. c \<notin> set x \<Longrightarrow> c \<notin> set sep \<Longrightarrow> c \<notin> set (join sep xs)"
  by (induction sep xs rule: join.induct) auto

lemma no_lf_digits: "10 \<notin> set (show_int i)"
  by (auto simp: show_int_def is_digit_def dest: digits_are_digits)

lemma no_lf_sample:
  assumes "10 \<notin> set name" "\<forall>(k, v)\<in>set ls. 10 \<notin> set k"
  shows "10 \<notin> set (sample_line name (ls, n))"
proof -
  have "\<forall>x\<in>set (map format_label (sort ls)). 10 \<notin> set x"
    using assms(2) no_lf_escape by (auto simp: format_label_def)
  then have "10 \<notin> set (join [44] (map format_label (sort ls)))" by (rule no_lf_join) simp
  then have "10 \<notin> set (format_labels ls)" by (simp add: format_labels_def)
  then show ?thesis using assms(1) no_lf_digits by (simp add: sample_line_def)
qed

lemmas metric_names = TOOL_CALLS_TOTAL_def SECCOMP_NOTIFY_EVENTS_TOTAL_def
  SECCOMP_NOTIFY_OVERFLOW_TOTAL_def ACTIVE_SESSIONS_def ACTIVE_FORWARDS_def AUDIT_DEGRADED_def

lemma no_lf_tables:
  "list_all (\<lambda>name. 10 \<notin> set name \<and> list_all (\<lambda>l. 10 \<notin> set l) (head_lines name))
     (COUNTER_ORDER @ GAUGE_ORDER)"
  by (simp add: COUNTER_ORDER_def GAUGE_ORDER_def METRICS_def head_lines_def HELP_def TYPES_def
      metric_names)

lemma no_lf_names:
  "name \<in> set (COUNTER_ORDER @ GAUGE_ORDER) \<Longrightarrow>
     10 \<notin> set name \<and> (\<forall>x\<in>set (head_lines name). 10 \<notin> set x)"
  using no_lf_tables unfolding list_all_iff by blast

lemma no_lf_lines:
  assumes "metrics_ok m" "\<And>p v. scrape p = Some v \<Longrightarrow> 10 \<notin> set v"
    and "l \<in> set (render_lines scrape m)"
  shows "10 \<notin> set l"
proof -
  consider (counter) name where "name \<in> set COUNTER_ORDER" "l \<in> set (counter_lines m name)"
    | (gauge) name where "name \<in> set GAUGE_ORDER" "l \<in> set (gauge_lines scrape m name)"
    using assms(3) by (auto simp: render_lines_def)
  then show ?thesis
  proof cases
    case counter
    then have "l \<in> set (head_lines name) \<or>
        (\<exists>ls n. (ls, n) \<in> set (the_counts m name) \<and> l = sample_line name (ls, n))"
      by (auto simp: counter_lines_def)
    then show ?thesis
    proof
      assume "l \<in> set (head_lines name)"
      then show ?thesis using no_lf_names counter(1) by auto
    next
      assume "\<exists>ls n. (ls, n) \<in> set (the_counts m name) \<and> l = sample_line name (ls, n)"
      then obtain ls n where s: "(ls, n) \<in> set (the_counts m name)" "l = sample_line name (ls, n)"
        by blast
      then have "\<forall>(k, v)\<in>set ls. 10 \<notin> set k"
        using assms(1) the_counts_in by (fastforce simp: metrics_ok_def)
      then show ?thesis using no_lf_names counter(1) s(2) no_lf_sample by simp
    qed
  next
    case gauge
    then have "l \<in> set (head_lines name) \<or> (\<exists>p v. scrape p = Some v \<and> l = name @ [32] @ v)"
      by (auto simp: gauge_lines_def split: option.splits)
    then show ?thesis using no_lf_names gauge(1) assms(2) by auto
  qed
qed

lemma tool_labels_inj [simp]:
  "tool_labels t i md oc = tool_labels t' i' md' oc' \<longleftrightarrow> t = t' \<and> i = i' \<and> md = md' \<and> oc = oc'"
  by (auto simp: tool_labels_def)

lemma count_step:
  "count (metrics_step m e) TOOL_CALLS_TOTAL (tool_labels t i md oc) =
     count m TOOL_CALLS_TOTAL (tool_labels t i md oc) + (if e = IncTool t i md oc then 1 else 0)"
proof (cases e)
  case (Register name provider)
  then show ?thesis by (simp add: register_gauge_def count_def the_counts_def)
qed (auto simp: inc_tool_call_def inc_seccomp_event_def inc_seccomp_overflow_def count_bump
    metric_names)

subsection \<open>Properties\<close>

text \<open>Counters are exact: whatever else happened, the series of a tool, tier, mode and
  outcome equals the number of calls recorded with exactly those labels.\<close>

theorem tool_counter_exact:
  "count (run metrics_step metrics_init es) TOOL_CALLS_TOTAL (tool_labels t i md oc)
     = length (filter (\<lambda>e. e = IncTool t i md oc) es)"
proof -
  have "count (run metrics_step m es) TOOL_CALLS_TOTAL (tool_labels t i md oc)
      = count m TOOL_CALLS_TOTAL (tool_labels t i md oc)
        + length (filter (\<lambda>e. e = IncTool t i md oc) es)" for m
    by (induction es arbitrary: m) (simp_all add: count_step del: metrics_step.simps)
  then show ?thesis by (simp add: metrics_init_def count_def the_counts_def)
qed

text \<open>A label value survives the exposition format: the escaped text up to its closing
  quote reads back as the value, whatever quotes, backslashes or line feeds it holds.\<close>

theorem label_value_roundtrip:
  "read_label_value (escape_label_value v @ 34 # r) = Some (v, r)"
  by (induction v) (simp_all add: escape_label_value_eq esc_label_def)

text \<open>No label value can forge a sample: in every state the server reaches, the rendered
  text splits at line feeds into exactly the lines the renderer built, and the empty last
  one.\<close>

theorem exposition_lines:
  assumes "\<And>p v. scrape p = Some v \<Longrightarrow> 10 \<notin> set v"
  shows "split_on 10 (render scrape (run metrics_step metrics_init es))
           = render_lines scrape (run metrics_step metrics_init es) @ [[]]"
proof -
  have "metrics_ok (run metrics_step metrics_init es)"
    by (rule registry.inv_run) (simp add: metrics_ok_def metrics_init_def)
  then show ?thesis
    unfolding render_def
    by (intro split_on_join) (auto dest: no_lf_lines [OF _ assms])
qed

theorem exposition_lines_witness:
  "split_on 10 (render (\<lambda>p. if p = 0 then Some (asc ''1.0'') else None)
      (run metrics_step metrics_init [IncEvent [10], Register AUDIT_DEGRADED 0]))
     = render_lines (\<lambda>p. if p = 0 then Some (asc ''1.0'') else None)
      (run metrics_step metrics_init [IncEvent [10], Register AUDIT_DEGRADED 0]) @ [[]]"
  by (rule exposition_lines) (auto simp: asc_def split: if_splits)

end
