(* ===== verification/Policy.thy ===== *)
theory Policy
  imports Prelude
begin

text \<open>
  \<open>src/relay_shell/policy.py\<close>: the tier of a call and its admission under the configured
  mode. The compiled regular expressions of \<open>patterns.py\<close> and the operator's deny and allow
  expressions are parameters (\<open>scans\<close>, \<open>deny\<close>, \<open>allow\<close>): every statement holds for
  any tables. The removal of shell line continuations, which the code does with
  \<open>LINE_CONTINUATION_PATTERN\<close>, is written out.
\<close>

subsection \<open>Tiers\<close>

datatype tier = READ_ONLY | REVERSIBLE | STATEFUL | IRREVERSIBLE

fun tier_int :: "tier \<Rightarrow> int" where
  "tier_int READ_ONLY = 0"
| "tier_int REVERSIBLE = 1"
| "tier_int STATEFUL = 2"
| "tier_int IRREVERSIBLE = 3"

fun tier_name :: "tier \<Rightarrow> pystr" where
  "tier_name READ_ONLY = asc ''READ_ONLY''"
| "tier_name REVERSIBLE = asc ''REVERSIBLE''"
| "tier_name STATEFUL = asc ''STATEFUL''"
| "tier_name IRREVERSIBLE = asc ''IRREVERSIBLE''"

lemma tier_int_inj [simp]: "tier_int a = tier_int b \<longleftrightarrow> a = b"
  by (cases a; cases b) auto

instantiation tier :: linorder
begin

definition less_eq_tier :: "tier \<Rightarrow> tier \<Rightarrow> bool" where
  "less_eq_tier a b \<longleftrightarrow> tier_int a \<le> tier_int b"

definition less_tier :: "tier \<Rightarrow> tier \<Rightarrow> bool" where
  "less_tier a b \<longleftrightarrow> tier_int a < tier_int b"

instance
  by standard (auto simp: less_eq_tier_def less_tier_def)

end

lemma tier_le_simps [simp]:
  "READ_ONLY \<le> t" "t \<le> IRREVERSIBLE" "t \<le> READ_ONLY \<longleftrightarrow> t = READ_ONLY"
  "IRREVERSIBLE \<le> t \<longleftrightarrow> t = IRREVERSIBLE"
  "STATEFUL \<le> t \<longleftrightarrow> t = STATEFUL \<or> t = IRREVERSIBLE"
  "t < REVERSIBLE \<longleftrightarrow> t = READ_ONLY" "\<not> t < READ_ONLY" "\<not> IRREVERSIBLE < t"
  by (cases t; simp add: less_eq_tier_def less_tier_def)+

subsection \<open>Classification\<close>

definition READ_ONLY_TOOLS :: "pystr list" where
  "READ_ONLY_TOOLS = map asc [''server_info'', ''ssh_hosts'', ''ssh_check'', ''session_list'',
     ''session_recv'', ''ssh_forward_list'', ''audit_tail'', ''operation_confirm'']"

definition MUTATING_TOOLS :: "pystr list" where
  "MUTATING_TOOLS = map asc [''ssh_upload'', ''ssh_download'', ''ssh_forward'']"

definition BASIS_READ_ONLY :: pystr where
  "BASIS_READ_ONLY = asc ''read-only tool''"

definition BASIS_IRREVERSIBLE :: pystr where
  "BASIS_IRREVERSIBLE = asc ''matched an irreversible-operation pattern''"

definition BASIS_PRIVILEGE :: pystr where
  "BASIS_PRIVILEGE = asc ''matched a privilege-escalation pattern''"

definition BASIS_STATEFUL :: pystr where
  "BASIS_STATEFUL = asc ''matched a state-changing pattern''"

definition BASIS_MUTATING_TOOL :: pystr where
  "BASIS_MUTATING_TOOL = asc ''the tool changes local or remote state''"

definition BASIS_DEFAULT :: pystr where
  "BASIS_DEFAULT = asc ''arbitrary command with no state-changing pattern''"

text \<open>The rest of the text after the closing quote of a double-quoted span
  (\<open>(?:\\.|[^"\\])*"\<close>), if there is one.\<close>

fun dquote_rest :: "pystr \<Rightarrow> pystr option" where
  "dquote_rest [] = None"
| "dquote_rest (c # s) =
     (if c = 34 then Some s
      else if c = 92 then
        (case s of [] \<Rightarrow> None | d # t \<Rightarrow> if d = 10 then None else dquote_rest t)
      else dquote_rest s)"

lemma dquote_rest_length: "dquote_rest s = Some r \<Longrightarrow> length r < length s"
proof (induction s rule: dquote_rest.induct)
  case 1
  then show ?case by simp
next
  case (2 c s)
  then show ?case by (fastforce split: if_splits list.splits)
qed

text \<open>\<open>LINE_CONTINUATION_PATTERN.sub\<close>: the alternatives in order, at each position: a
  single-quoted span, a double-quoted span, a continuation (deleted), an escaped character.\<close>

function strip_continuations :: "pystr \<Rightarrow> pystr" where
  "strip_continuations [] = []"
| "strip_continuations (c # s) =
     (if c = 39 \<and> 39 \<in> set s then
        (let body = takeWhile (\<lambda>x. x \<noteq> 39) s; r = tl (dropWhile (\<lambda>x. x \<noteq> 39) s)
         in (39 # body @ [39]) @ strip_continuations r)
      else if c = 34 \<and> dquote_rest s \<noteq> None then
        (let r = the (dquote_rest s)
         in (34 # take (length s - length r) s) @ strip_continuations r)
      else if c = 92 \<and> take 1 s = [10] then strip_continuations (drop 1 s)
      else if c = 92 \<and> take 2 s = [13, 10] then strip_continuations (drop 2 s)
      else if c = 92 \<and> s \<noteq> [] then c # hd s # strip_continuations (tl s)
      else c # strip_continuations s)"
  by pat_completeness auto
termination
proof (relation "measure length", goal_cases)
  case (2 c s x xa)
  then show ?case
    by (simp add: le_imp_less_Suc length_dropWhile_le le_SucI le_diff_conv)
next
  case (3 c s x)
  then show ?case using dquote_rest_length by fastforce
qed auto

declare strip_continuations.simps(2) [simp del]

definition strip_line_continuations :: "pystr \<Rightarrow> pystr" where
  "strip_line_continuations text =
     (if \<not> has_sub [92, 10] text \<and> \<not> has_sub [92, 13, 10] text then text
      else strip_continuations text)"

text \<open>The compiled tables of \<open>patterns.py\<close> the classifier consults, as tests (and one
  substitution) on the text.\<close>

record scans =
  matches_tier3 :: "pystr \<Rightarrow> bool"
  matches_tier2 :: "pystr \<Rightarrow> bool"
  priv_esc :: "pystr \<Rightarrow> bool"
  priv_esc_eval_hint :: "pystr \<Rightarrow> bool"
  priv_esc_reader_sub :: "pystr \<Rightarrow> pystr"

record assessment =
  a_tier :: tier
  a_basis :: pystr

definition assess :: "scans \<Rightarrow> pystr \<Rightarrow> pystr \<Rightarrow> assessment" where
  "assess sc tool command =
     (if tool \<in> set READ_ONLY_TOOLS then \<lparr>a_tier = READ_ONLY, a_basis = BASIS_READ_ONLY\<rparr>
      else
        let text = strip_line_continuations command in
        if matches_tier3 sc text
        then \<lparr>a_tier = IRREVERSIBLE, a_basis = BASIS_IRREVERSIBLE\<rparr>
        else if priv_esc sc text \<and>
          priv_esc sc (if priv_esc_eval_hint sc text then text else priv_esc_reader_sub sc text)
        then \<lparr>a_tier = STATEFUL, a_basis = BASIS_PRIVILEGE\<rparr>
        else if matches_tier2 sc text then \<lparr>a_tier = STATEFUL, a_basis = BASIS_STATEFUL\<rparr>
        else if tool \<in> set MUTATING_TOOLS
        then \<lparr>a_tier = STATEFUL, a_basis = BASIS_MUTATING_TOOL\<rparr>
        else \<lparr>a_tier = REVERSIBLE, a_basis = BASIS_DEFAULT\<rparr>)"

definition classify :: "scans \<Rightarrow> pystr \<Rightarrow> pystr \<Rightarrow> tier" where
  "classify sc tool command = a_tier (assess sc tool command)"

subsection \<open>Admission\<close>

record policy_decision =
  allowed :: bool
  d_tier :: tier
  reason :: pystr
  basis :: pystr

text \<open>\<open>deny\<close> and \<open>allow\<close> are the compiled operator expressions' \<open>search\<close>, or none.\<close>

record policy =
  mode :: pystr
  deny :: "(pystr \<Rightarrow> bool) option"
  allow :: "(pystr \<Rightarrow> bool) option"

definition hits :: "(pystr \<Rightarrow> bool) option \<Rightarrow> pystr \<Rightarrow> bool" where
  "hits rx probe \<longleftrightarrow> (case rx of None \<Rightarrow> False | Some f \<Rightarrow> f probe)"

definition probe_text :: "pystr \<Rightarrow> pystr \<Rightarrow> pystr" where
  "probe_text tool command = strip (tool @ asc '' '' @ command)"

definition policy_check ::
  "scans \<Rightarrow> policy \<Rightarrow> pystr \<Rightarrow> pystr \<Rightarrow> tier \<Rightarrow> policy_decision" where
  "policy_check sc p tool command min_tier =
     (let a = assess sc tool command;
          t = max (a_tier a) min_tier;
          b = (if min_tier > a_tier a
               then asc ''raised by the tool (a target the command text does not show)''
               else a_basis a);
          probe = probe_text tool command;
          shown = asc '' Tier '' @ show_int (tier_int t) @ asc '' ('' @ tier_name t @ asc '')''
      in
      if hits (deny p) probe
      then \<lparr>allowed = False, d_tier = t, reason = asc ''matched RELAY_SHELL_POLICY_DENY'',
            basis = b\<rparr>
      else if mode p = asc ''readonly'' \<and> t \<noteq> READ_ONLY
      then \<lparr>allowed = False, d_tier = t,
            reason = asc ''readonly mode refuses'' @ shown, basis = b\<rparr>
      else if mode p = asc ''guarded'' \<and> STATEFUL \<le> t
      then (if hits (allow p) probe
            then \<lparr>allowed = True, d_tier = t,
                  reason = asc ''guarded: allowed by RELAY_SHELL_POLICY_ALLOW'', basis = b\<rparr>
            else \<lparr>allowed = False, d_tier = t,
                  reason = asc ''guarded mode refuses'' @ shown @
                    asc '' without an RELAY_SHELL_POLICY_ALLOW match'', basis = b\<rparr>)
      else \<lparr>allowed = True, d_tier = t, reason = asc ''permitted'', basis = b\<rparr>)"

subsection \<open>Lemmas\<close>

lemma tier_cases_le: "a \<le> (b::tier) \<or> b \<le> a"
  by (rule linear)

lemma assess_read_only_tool [simp]:
  "tool \<in> set READ_ONLY_TOOLS \<Longrightarrow> a_tier (assess sc tool cmd) = READ_ONLY"
  by (simp add: assess_def)

lemma assess_other_tool:
  "tool \<notin> set READ_ONLY_TOOLS \<Longrightarrow> REVERSIBLE \<le> a_tier (assess sc tool cmd)"
  by (simp add: assess_def Let_def less_eq_tier_def)

lemma check_tier: "d_tier (policy_check sc p tool cmd m) = max (a_tier (assess sc tool cmd)) m"
  by (simp add: policy_check_def Let_def)

text \<open>Admission as a plain condition, without the message texts.\<close>

lemma check_allowed_iff:
  "allowed (policy_check sc p tool cmd m) \<longleftrightarrow>
     \<not> hits (deny p) (probe_text tool cmd) \<and>
     (mode p = asc ''readonly'' \<longrightarrow> max (a_tier (assess sc tool cmd)) m = READ_ONLY) \<and>
     (mode p = asc ''guarded'' \<longrightarrow> STATEFUL \<le> max (a_tier (assess sc tool cmd)) m \<longrightarrow>
        hits (allow p) (probe_text tool cmd))"
  by (simp add: policy_check_def Let_def)

lemma strip_plain:
  "\<forall>c\<in>set s. c \<noteq> 34 \<and> c \<noteq> 39 \<and> c \<noteq> 92 \<Longrightarrow> strip_continuations (s @ t) = s @ strip_continuations t"
  by (induction s) (simp_all add: strip_continuations.simps(2))

lemma strip_plain_all:
  "\<forall>c\<in>set s. c \<noteq> 34 \<and> c \<noteq> 39 \<and> c \<noteq> 92 \<Longrightarrow> strip_continuations s = s"
  using strip_plain [of s "[]"] by simp

text \<open>The early return of the code is only an optimisation.\<close>

lemma no_continuation_take:
  "\<not> has_sub [92, 10] (92 # s) \<Longrightarrow> take (Suc 0) s \<noteq> [10]"
  "\<not> has_sub [92, 13, 10] (92 # s) \<Longrightarrow> take 2 s \<noteq> [13, 10]"
  by (auto simp: starts_with_def numeral_2_eq_2)

lemma has_sub_drop: "has_sub p (drop n s) \<Longrightarrow> has_sub p s"
  unfolding has_sub_iff by (metis append_assoc append_take_drop_id)

lemma has_sub_Cons_drop: "\<not> has_sub p (c # s) \<Longrightarrow> \<not> has_sub p (drop n s)"
  using has_sub_drop [of p n s] by auto

lemma dquote_rest_drop: "dquote_rest s = Some r \<Longrightarrow> r = drop (length s - length r) s"
proof (induction s rule: dquote_rest.induct)
  case 1
  then show ?case by simp
next
  case (2 c s)
  show ?case
  proof (cases "c = 34")
    case True
    with 2 show ?thesis by simp
  next
    case False
    show ?thesis
    proof (cases "c = 92")
      case True
      then obtain d t where s: "s = d # t" "d \<noteq> 10" "dquote_rest t = Some r"
        using "2.prems" False by (auto split: list.splits if_splits)
      then have "r = drop (length t - length r) t" using "2.IH"(1) [OF False True] by simp
      moreover have "length r < length t" using s dquote_rest_length by blast
      ultimately show ?thesis using s by (simp add: Suc_diff_le)
    next
      case n92: False
      then have "dquote_rest s = Some r" using "2.prems" False by simp
      moreover from this have "length r < length s" by (rule dquote_rest_length)
      ultimately show ?thesis using "2.IH"(2) [OF False n92] by (simp add: Suc_diff_le)
    qed
  qed
qed

lemma tl_dropWhile_drop: "tl (dropWhile P s) = drop (Suc (length (takeWhile P s))) s"
  by (simp add: dropWhile_eq_drop drop_Suc tl_drop)

lemma strip_no_continuation:
  "\<not> has_sub [92, 10] s \<Longrightarrow> \<not> has_sub [92, 13, 10] s \<Longrightarrow> strip_continuations s = s"
proof (induction s rule: strip_continuations.induct)
  case 1
  then show ?case by simp
next
  case (2 c s)
  note none = has_sub_Cons_drop [OF "2.prems"(1)] has_sub_Cons_drop [OF "2.prems"(2)]
  show ?case
  proof (cases "c = 39 \<and> 39 \<in> set s")
    case True
    define r where "r = tl (dropWhile (\<lambda>x. x \<noteq> 39) s)"
    have "dropWhile (\<lambda>x. x \<noteq> 39) s \<noteq> []" using True by simp
    moreover have "hd (dropWhile (\<lambda>x. x \<noteq> 39) s) = 39"
      using calculation hd_dropWhile [of "\<lambda>x. x \<noteq> 39" s] by blast
    ultimately have "s = takeWhile (\<lambda>x. x \<noteq> 39) s @ 39 # r"
      unfolding r_def by (metis list.collapse takeWhile_dropWhile_id)
    moreover have "strip_continuations r = r"
      using "2.IH"(1) [OF True] none unfolding r_def tl_dropWhile_drop by blast
    ultimately show ?thesis
      using True by (simp add: strip_continuations.simps(2) Let_def r_def [symmetric])
  next
    case nq: False
    show ?thesis
    proof (cases "c = 34 \<and> dquote_rest s \<noteq> None")
      case True
      then obtain r where r: "dquote_rest s = Some r" by auto
      have "strip_continuations r = r"
        using "2.IH"(2) [OF nq True] none r dquote_rest_drop [OF r] by (metis option.sel)
      moreover have "take (length s - length r) s @ r = s"
        using dquote_rest_drop [OF r] by (metis append_take_drop_id)
      ultimately show ?thesis using nq True r by (simp add: strip_continuations.simps(2) Let_def)
    next
      case nd: False
      show ?thesis
      proof (cases "c = 92")
        case True
        then have n: "\<not> (c = 92 \<and> take 1 s = [10])" "\<not> (c = 92 \<and> take 2 s = [13, 10])"
          using no_continuation_take [of s] "2.prems" by auto
        show ?thesis
        proof (cases "s = []")
          case True
          then show ?thesis using nq nd n by (simp add: strip_continuations.simps(2))
        next
          case False
          have "strip_continuations (tl s) = tl s"
            using "2.IH"(5) [OF nq nd n] True False none [of 1] by (simp add: drop_Suc)
          then show ?thesis
            using nq nd n True False by (simp add: strip_continuations.simps(2))
        qed
      next
        case False
        then have "strip_continuations s = s"
          using "2.IH"(6) [OF nq nd] none [of 0] by simp
        moreover have "strip_continuations (c # s) = c # strip_continuations s"
          using False by (simp only: strip_continuations.simps(2) nq nd if_False simp_thms)
        ultimately show ?thesis by simp
      qed
    qed
  qed
qed

lemma strip_line_continuations_eq: "strip_line_continuations s = strip_continuations s"
  by (simp add: strip_line_continuations_def strip_no_continuation)

lemma strip_joined:
  assumes "\<forall>c\<in>set a. c \<noteq> 34 \<and> c \<noteq> 39 \<and> c \<noteq> 92"
  shows "strip_line_continuations (a @ [92, 10] @ b) = a @ strip_line_continuations b"
    and "strip_line_continuations (a @ [92, 13, 10] @ b) = a @ strip_line_continuations b"
    and "strip_line_continuations (a @ b) = a @ strip_line_continuations b"
  using assms
  by (simp_all add: strip_line_continuations_eq strip_plain strip_continuations.simps(2))

subsection \<open>Properties\<close>

text \<open>The modes are nested and \<open>min_tier\<close> only tightens: what \<open>readonly\<close> admits,
  \<open>guarded\<close> admits; what \<open>guarded\<close> admits, \<open>open\<close> admits; and what is admitted with a higher
  \<open>min_tier\<close> is admitted with a lower one. A deny match refuses in every mode.\<close>

theorem admission_monotone:
  "(allowed (policy_check sc (p\<lparr>mode := asc ''readonly''\<rparr>) tool cmd m) \<longrightarrow>
      allowed (policy_check sc (p\<lparr>mode := asc ''guarded''\<rparr>) tool cmd m)) \<and>
   (allowed (policy_check sc (p\<lparr>mode := asc ''guarded''\<rparr>) tool cmd m) \<longrightarrow>
      allowed (policy_check sc (p\<lparr>mode := asc ''open''\<rparr>) tool cmd m)) \<and>
   (m' \<le> m \<longrightarrow> allowed (policy_check sc p tool cmd m) \<longrightarrow>
      allowed (policy_check sc p tool cmd m')) \<and>
   (hits (deny p) (probe_text tool cmd) \<longrightarrow> \<not> allowed (policy_check sc p tool cmd m))"
proof (intro conjI impI)
  let ?x = "max (a_tier (assess sc tool cmd)) m" and ?y = "max (a_tier (assess sc tool cmd)) m'"
  assume le: "m' \<le> m" and ok: "allowed (policy_check sc p tool cmd m)"
  then have xy: "?y \<le> ?x" by (simp add: max.coboundedI2)
  have "?y = READ_ONLY" if "?x = READ_ONLY" using xy unfolding that by simp
  moreover have "STATEFUL \<le> ?x" if "STATEFUL \<le> ?y" using that xy by (rule order_trans)
  ultimately show "allowed (policy_check sc p tool cmd m')"
    using ok unfolding check_allowed_iff by blast
qed (auto simp: check_allowed_iff)

text \<open>Small tables, for concrete runs.\<close>

definition sample_scans :: scans where
  "sample_scans = \<lparr>matches_tier3 = has_sub (asc ''rm -rf''), matches_tier2 = has_sub (asc ''kill''),
     priv_esc = has_sub (asc ''sudo''), priv_esc_eval_hint = has_sub (asc ''| sh''),
     priv_esc_reader_sub = (\<lambda>t. t)\<rparr>"

theorem admission_monotone_witness:
  "\<not> allowed (policy_check sample_scans
      \<lparr>mode = asc ''open'', deny = Some (\<lambda>t. True), allow = None\<rparr>
      (asc ''shell_exec'') (asc ''ls'') READ_ONLY)"
  using admission_monotone [of sample_scans
      "\<lparr>mode = asc ''open'', deny = Some (\<lambda>t. True), allow = None\<rparr>"
      "asc ''shell_exec''" "asc ''ls''" READ_ONLY READ_ONLY]
  by (simp add: hits_def)

text \<open>A line continuation outside quotes does not change how a command is classified:
  whatever the tables are, the joined command and the continued one get the same tier and
  the same basis.\<close>

theorem continuation_transparent:
  assumes "\<forall>c\<in>set a. c \<noteq> 34 \<and> c \<noteq> 39 \<and> c \<noteq> 92"
  shows "assess sc tool (a @ [92, 10] @ b) = assess sc tool (a @ b) \<and>
    assess sc tool (a @ [92, 13, 10] @ b) = assess sc tool (a @ b)"
  using strip_joined [OF assms, of b] by (simp add: assess_def)

theorem continuation_transparent_witness:
  "assess sample_scans (asc ''shell_exec'') (asc ''r'' @ [92, 10] @ asc ''m -rf /'')
     = assess sample_scans (asc ''shell_exec'') (asc ''r'' @ asc ''m -rf /'') \<and>
   assess sample_scans (asc ''shell_exec'') (asc ''r'' @ [92, 13, 10] @ asc ''m -rf /'')
     = assess sample_scans (asc ''shell_exec'') (asc ''r'' @ asc ''m -rf /'')"
  by (rule continuation_transparent) (simp add: asc_def)

end
