(* ===== verification/Config.thy ===== *)
theory Config
  imports Util
begin

text \<open>
  \<open>src/relay_shell/config.py\<close>: the settings record, its field and model validators and the
  check for misspelled names. \<open>re.compile\<close> succeeding on a text is the parameter \<open>rx_ok\<close>,
  \<open>ipaddress.ip_address(h).is_loopback\<close> is \<open>ip_loopback\<close> (\<open>None\<close>: not an address) and
  \<open>difflib.get_close_matches(name, known, n=1)\<close> is \<open>close_match\<close>.
\<close>

record settings =
  transport :: pystr
  http_host :: pystr
  http_port :: int
  allow_unauth_network :: bool
  max_output :: int
  max_output_hard :: int
  max_input :: int
  default_timeout :: int
  max_timeout :: int
  max_sessions :: int
  max_forwards :: int
  max_conns :: int
  session_idle_timeout :: int
  session_buffer_bytes :: int
  policy_mode :: pystr
  policy_deny :: pystr
  policy_allow :: pystr
  unsafe_notices :: bool
  confirm_tier3 :: bool
  confirm_ttl :: int
  audit_path :: pystr
  audit_stderr :: bool
  audit_format :: pystr
  audit_session_input :: pystr
  audit_chain :: bool
  audit_intent :: bool
  seccomp_notify :: bool
  seccomp_notify_cap :: int
  ssh_config :: pystr
  inventory :: pystr
  ssh_known_hosts :: pystr
  ssh_allow_weaker_known_hosts :: bool
  ssh_connect_timeout :: int
  ssh_keepalive :: int
  ssh_idle_timeout :: int
  auth_enabled :: bool
  auth_issuer :: pystr
  auth_resource_url :: pystr
  auth_state_dir :: pystr
  auth_single_client :: bool
  auth_require_approval :: bool
  auth_access_ttl :: int
  auth_refresh_ttl :: int
  auth_code_ttl :: int

definition default_settings :: settings where
  "default_settings =
     \<lparr>transport = asc ''stdio'', http_host = asc ''127.0.0.1'', http_port = 8080,
      allow_unauth_network = False, max_output = 65536, max_output_hard = 1048576,
      max_input = 2097152, default_timeout = 60, max_timeout = 900, max_sessions = 64,
      max_forwards = 64, max_conns = 256, session_idle_timeout = 1800,
      session_buffer_bytes = 262144, policy_mode = asc ''open'', policy_deny = [],
      policy_allow = [], unsafe_notices = True, confirm_tier3 = False, confirm_ttl = 120,
      audit_path = asc ''/var/log/relay-shell/audit.jsonl'', audit_stderr = False,
      audit_format = asc ''jsonl'', audit_session_input = asc ''redacted'', audit_chain = False,
      audit_intent = False, seccomp_notify = False, seccomp_notify_cap = 256,
      ssh_config = asc ''~/.ssh/config'', inventory = [], ssh_known_hosts = asc ''accept-new'',
      ssh_allow_weaker_known_hosts = True, ssh_connect_timeout = 10, ssh_keepalive = 30,
      ssh_idle_timeout = 1800, auth_enabled = False, auth_issuer = asc ''https://localhost:8080'',
      auth_resource_url = [], auth_state_dir = asc ''/var/lib/relay-shell/oauth'',
      auth_single_client = True, auth_require_approval = True, auth_access_ttl = 3600,
      auth_refresh_ttl = 2592000, auth_code_ttl = 300\<rparr>"

text \<open>\<open>Field(ge=, le=)\<close> of every numeric field.\<close>

definition in_range :: "int \<Rightarrow> int \<Rightarrow> int \<Rightarrow> bool" where
  "in_range lo hi v \<longleftrightarrow> lo \<le> v \<and> v \<le> hi"

definition bounds_ok :: "settings \<Rightarrow> bool" where
  "bounds_ok s \<longleftrightarrow>
     in_range 1 65535 (http_port s) \<and> in_range 1024 16777216 (max_output s) \<and>
     in_range 4096 134217728 (max_output_hard s) \<and> in_range 1024 134217728 (max_input s) \<and>
     in_range 1 86400 (default_timeout s) \<and> in_range 1 86400 (max_timeout s) \<and>
     in_range 1 1024 (max_sessions s) \<and> in_range 1 1024 (max_forwards s) \<and>
     in_range 1 4096 (max_conns s) \<and> in_range 10 86400 (session_idle_timeout s) \<and>
     in_range 4096 16777216 (session_buffer_bytes s) \<and> in_range 5 3600 (confirm_ttl s) \<and>
     in_range 1 65536 (seccomp_notify_cap s) \<and> in_range 1 120 (ssh_connect_timeout s) \<and>
     in_range 0 600 (ssh_keepalive s) \<and> in_range 0 86400 (ssh_idle_timeout s) \<and>
     60 \<le> auth_access_ttl s \<and> 300 \<le> auth_refresh_ttl s \<and> 30 \<le> auth_code_ttl s"

definition TRANSPORTS :: "pystr list" where
  "TRANSPORTS = map asc [''stdio'', ''http'']"

definition POLICY_MODES :: "pystr list" where
  "POLICY_MODES = map asc [''open'', ''guarded'', ''readonly'']"

definition KNOWN_HOSTS :: "pystr list" where
  "KNOWN_HOSTS = map asc [''strict'', ''accept-new'', ''ignore'']"

definition AUDIT_FORMATS :: "pystr list" where
  "AUDIT_FORMATS = map asc [''jsonl'', ''cef'', ''leef'']"

definition AUDIT_SESSION_INPUT :: "pystr list" where
  "AUDIT_SESSION_INPUT = map asc [''redacted'', ''hash'']"

text \<open>\<open>v.strip().lower()\<close>, then membership; the error names the field.\<close>

definition v_enum :: "pystr list \<Rightarrow> pystr \<Rightarrow> pystr \<Rightarrow> pystr + pystr" where
  "v_enum choices field v =
     (let v = lower (strip v) in
      if v \<in> set choices then Inr v else Inl (field @ asc '' must be one of the choices''))"

definition v_transport :: "pystr \<Rightarrow> pystr + pystr" where
  "v_transport v = v_enum TRANSPORTS (asc ''transport'') v"

definition v_policy :: "pystr \<Rightarrow> pystr + pystr" where
  "v_policy v = v_enum POLICY_MODES (asc ''policy_mode'') v"

definition v_known_hosts :: "pystr \<Rightarrow> pystr + pystr" where
  "v_known_hosts v = v_enum KNOWN_HOSTS (asc ''ssh_known_hosts'') v"

definition v_audit_session_input :: "pystr \<Rightarrow> pystr + pystr" where
  "v_audit_session_input v = v_enum AUDIT_SESSION_INPUT (asc ''audit_session_input'') v"

definition v_audit_format :: "pystr \<Rightarrow> pystr + pystr" where
  "v_audit_format v = v_enum AUDIT_FORMATS (asc ''audit_format'') v"

definition v_policy_regex :: "(pystr \<Rightarrow> bool) \<Rightarrow> pystr \<Rightarrow> pystr \<Rightarrow> pystr + pystr" where
  "v_policy_regex rx_ok field v =
     (if rx_ok v then Inr v else Inl (field @ asc '' is not a valid regular expression''))"

text \<open>\<open>s.strip("[]")\<close>\<close>

definition strip_brackets :: "pystr \<Rightarrow> pystr" where
  "strip_brackets s =
     (let br = (\<lambda>c. c = 91 \<or> c = 93) in rev (dropWhile br (rev (dropWhile br s))))"

definition is_loopback :: "(pystr \<Rightarrow> bool option) \<Rightarrow> pystr \<Rightarrow> bool" where
  "is_loopback ip_loopback host =
     (let h = lower (strip_brackets (strip host)) in
      h = asc ''localhost'' \<or> (case ip_loopback h of Some b \<Rightarrow> b | None \<Rightarrow> False))"

definition v_http_exposure :: "(pystr \<Rightarrow> bool option) \<Rightarrow> settings \<Rightarrow> pystr + settings" where
  "v_http_exposure ip_loopback s =
     (if transport s = asc ''http'' \<and> \<not> auth_enabled s \<and> \<not> allow_unauth_network s \<and>
         \<not> is_loopback ip_loopback (http_host s)
      then Inl (asc ''refusing to serve HTTP without authentication'') else Inr s)"

definition v_chain_requires_jsonl :: "settings \<Rightarrow> pystr + settings" where
  "v_chain_requires_jsonl s =
     (if audit_chain s \<and> audit_format s \<noteq> asc ''jsonl''
      then Inl (asc ''audit_chain=true requires audit_format=jsonl'') else Inr s)"

text \<open>Validation in field order, then the model validators; the first error is reported.\<close>

definition bind :: "'e + 'a \<Rightarrow> ('a \<Rightarrow> 'e + 'b) \<Rightarrow> 'e + 'b" where
  "bind r f = (case r of Inl e \<Rightarrow> Inl e | Inr v \<Rightarrow> f v)"

lemma bind_simps [simp]: "bind (Inl e) f = Inl e" "bind (Inr v) f = f v"
  by (simp_all add: bind_def)

lemma bind_Inr: "bind r f = Inr y \<longleftrightarrow> (\<exists>x. r = Inr x \<and> f x = Inr y)"
  by (cases r) simp_all

definition load_settings ::
  "(pystr \<Rightarrow> bool) \<Rightarrow> (pystr \<Rightarrow> bool option) \<Rightarrow> settings \<Rightarrow> pystr + settings" where
  "load_settings rx_ok ip_loopback raw =
     (if \<not> bounds_ok raw then Inl (asc ''a value is out of range'') else
      bind (v_transport (transport raw)) (\<lambda>tr.
      bind (v_policy (policy_mode raw)) (\<lambda>pm.
      bind (v_policy_regex rx_ok (asc ''policy_deny'') (policy_deny raw)) (\<lambda>dn.
      bind (v_policy_regex rx_ok (asc ''policy_allow'') (policy_allow raw)) (\<lambda>al.
      bind (v_audit_format (audit_format raw)) (\<lambda>af.
      bind (v_audit_session_input (audit_session_input raw)) (\<lambda>si.
      bind (v_known_hosts (ssh_known_hosts raw)) (\<lambda>kh.
      bind (v_http_exposure ip_loopback
              (raw\<lparr>transport := tr, policy_mode := pm, policy_deny := dn, policy_allow := al,
                   audit_format := af, audit_session_input := si, ssh_known_hosts := kh\<rparr>))
        v_chain_requires_jsonl))))))))"

subsection \<open>Names no setting reads\<close>

text \<open>\<open>_DOTENV_KEY_RE.match\<close>: leading whitespace, an optional \<open>export\<close>, a single-quoted or a
  bare key, whitespace and \<open>=\<close>.\<close>

definition dotenv_tail :: "pystr \<Rightarrow> bool" where
  "dotenv_tail s \<longleftrightarrow> starts_with [61] (lstrip s)"

definition dotenv_plain :: "pystr \<Rightarrow> pystr option" where
  "dotenv_plain s =
     (if starts_with [39] s then
        (let k = takeWhile (\<lambda>c. c \<noteq> 39 \<and> c \<noteq> 61) (tl s);
             r = dropWhile (\<lambda>c. c \<noteq> 39 \<and> c \<noteq> 61) (tl s)
         in if k \<noteq> [] \<and> starts_with [39] r \<and> dotenv_tail (tl r) then Some k else None)
      else
        (let bare = (\<lambda>c. \<not> is_space c \<and> c \<notin> {61, 39, 34, 35});
             k = takeWhile bare s; r = dropWhile bare s
         in if k \<noteq> [] \<and> dotenv_tail r then Some k else None))"

definition dotenv_key :: "pystr \<Rightarrow> pystr option" where
  "dotenv_key line =
     (let s = lstrip line; r = drop 6 s in
      case (if starts_with (asc ''export'') s \<and> r \<noteq> [] \<and> is_space (hd r)
            then dotenv_plain (lstrip r) else None) of
        Some k \<Rightarrow> Some k
      | None \<Rightarrow> dotenv_plain s)"

definition PREFIX :: pystr where
  "PREFIX = asc ''RELAY_SHELL_''"

definition FOREIGN_PREFIX :: pystr where
  "FOREIGN_PREFIX = asc ''RELAY_SHELL_EDGE_''"

text \<open>\<open>Settings.model_fields\<close>, in declaration order.\<close>

definition model_fields :: "pystr list" where
  "model_fields = map asc
     [''transport'', ''http_host'', ''http_port'', ''allow_unauth_network'', ''max_output'',
      ''max_output_hard'', ''max_input'', ''default_timeout'', ''max_timeout'', ''max_sessions'',
      ''max_forwards'', ''max_conns'', ''session_idle_timeout'', ''session_buffer_bytes'',
      ''policy_mode'', ''policy_deny'', ''policy_allow'', ''unsafe_notices'', ''confirm_tier3'',
      ''confirm_ttl'', ''audit_path'', ''audit_stderr'', ''audit_format'', ''audit_session_input'',
      ''audit_chain'', ''audit_intent'', ''seccomp_notify'', ''seccomp_notify_cap'',
      ''ssh_config'', ''inventory'', ''ssh_known_hosts'', ''ssh_allow_weaker_known_hosts'',
      ''ssh_connect_timeout'', ''ssh_keepalive'', ''ssh_idle_timeout'', ''auth_enabled'',
      ''auth_issuer'', ''auth_resource_url'', ''auth_state_dir'', ''auth_single_client'',
      ''auth_require_approval'', ''auth_access_ttl'', ''auth_refresh_ttl'', ''auth_code_ttl'']"

definition known_names :: "pystr list" where
  "known_names = map (\<lambda>n. PREFIX @ upper n) model_fields"

text \<open>\<open>dotenv\<close> is the list of lines of the file, or \<open>None\<close> when it cannot be read; the
  result is sorted by name.\<close>

definition unknown_settings_names ::
  "(pystr \<Rightarrow> pystr option) \<Rightarrow> pystr list \<Rightarrow> pystr list option \<Rightarrow> (pystr \<times> pystr option) list" where
  "unknown_settings_names close_match environ dotenv =
     (let names = environ @ (case dotenv of None \<Rightarrow> []
            | Some ls \<Rightarrow> List.map_filter dotenv_key ls);
          raw = filter (\<lambda>n. starts_with PREFIX n \<and> n \<notin> set known_names \<and>
                         \<not> starts_with FOREIGN_PREFIX n) (map upper names)
      in map (\<lambda>n. (n, close_match n)) (sort (remdups raw)))"

subsection \<open>Properties\<close>

lemma v_enum_Inr: "v_enum cs f v = Inr w \<longleftrightarrow> w = lower (strip v) \<and> w \<in> set cs"
  by (auto simp: v_enum_def Let_def)

lemmas v_enums = v_transport_def v_policy_def v_known_hosts_def v_audit_session_input_def
  v_audit_format_def v_enum_Inr

lemma strip_plain_word:
  "s \<noteq> [] \<Longrightarrow> \<not> is_space (hd s) \<Longrightarrow> \<not> is_space (last s) \<Longrightarrow> strip s = s"
  using dropWhile_eq_self_iff [of is_space s] dropWhile_eq_self_iff [of is_space "rev s"]
  by (simp add: strip_def lstrip_def rstrip_def hd_rev)

lemma choices_normal:
  "w \<in> set (TRANSPORTS @ POLICY_MODES @ KNOWN_HOSTS @ AUDIT_FORMATS @ AUDIT_SESSION_INPUT) \<Longrightarrow>
     lower (strip w) = w"
  unfolding TRANSPORTS_def POLICY_MODES_def KNOWN_HOSTS_def AUDIT_FORMATS_def
    AUDIT_SESSION_INPUT_def
  by (auto simp: asc_def strip_plain_word lower_def lower_char_def is_space_def)

lemma load_settings_Inr:
  assumes "load_settings rx ip raw = Inr s"
  shows "bounds_ok raw" "transport s \<in> set TRANSPORTS" "policy_mode s \<in> set POLICY_MODES"
    "ssh_known_hosts s \<in> set KNOWN_HOSTS" "audit_format s \<in> set AUDIT_FORMATS"
    "audit_session_input s \<in> set AUDIT_SESSION_INPUT" "rx (policy_deny s)" "rx (policy_allow s)"
    "v_http_exposure ip s = Inr s" "v_chain_requires_jsonl s = Inr s"
    "s = raw\<lparr>transport := transport s, policy_mode := policy_mode s,
             audit_format := audit_format s, audit_session_input := audit_session_input s,
             ssh_known_hosts := ssh_known_hosts s\<rparr>"
  using assms
  by (auto simp: load_settings_def bind_Inr v_enums v_policy_regex_def v_http_exposure_def
      v_chain_requires_jsonl_def split: if_splits)



end
