(* ===== verification/Notices.thy ===== *)
theory Notices
  imports Policy Config Json
begin

text \<open>
  \<open>src/relay_shell/notices.py\<close>: the plain-language notices appended to a result, and the
  standing warnings about the configuration.
\<close>

definition NOTICE_MIN_TIER :: tier where
  "NOTICE_MIN_TIER = STATEFUL"

fun TIER_ADVICE :: "tier \<Rightarrow> pystr" where
  "TIER_ADVICE IRREVERSIBLE = asc ''It may not be undoable and ran with no confirmation step; '' @
     asc ''verify the target and take a backup or snapshot first''"
| "TIER_ADVICE STATEFUL = asc ''It changes state that a user or dependent service may notice''"
| "TIER_ADVICE t = []"

definition PRIVILEGE_ADVICE :: pystr where
  "PRIVILEGE_ADVICE =
     asc ''It runs with elevated privileges and can change anything the target account can''"

text \<open>\<open>str(args.get("known_hosts", "")).lower() == "ignore"\<close>: only a string can equal it.\<close>

definition host_check_off :: "(pystr, json) dict \<Rightarrow> bool" where
  "host_check_off args =
     (case dget args (asc ''known_hosts'') of
        Some (JStr s) \<Rightarrow> lower s = asc ''ignore''
      | _ \<Rightarrow> False)"

definition call_notices :: "policy_decision \<Rightarrow> (pystr, json) dict \<Rightarrow> pystr list" where
  "call_notices d audit_args =
     (if NOTICE_MIN_TIER \<le> d_tier d
      then (let advice = (if basis d = BASIS_PRIVILEGE then PRIVILEGE_ADVICE
                          else TIER_ADVICE (d_tier d))
            in [asc ''tier '' @ show_int (tier_int (d_tier d)) @ asc '' ('' @ tier_name (d_tier d) @
                asc ''), '' @ basis d @ asc ''. '' @ advice @
                asc ''. Classification is a heuristic, not a boundary''])
      else []) @
     (if host_check_off audit_args
      then [asc ''ssh: host-key verification is off (known_hosts=ignore); the peer is not '' @
            asc ''authenticated and the connection can be intercepted'']
      else [])"

definition unverified_host_notice :: "pystr list \<Rightarrow> pystr list" where
  "unverified_host_notice hosts =
     (if hosts = [] then []
      else (let shown = join (asc '', '') (take 5 hosts) @
                  (if 5 < length hosts
                   then asc '' and '' @ show_int (int (length hosts) - 5) @ asc '' more'' else [])
            in [asc ''ssh: host-key verification is off for '' @ shown @
                asc '' (known_hosts=ignore); the peer is not '' @
                asc ''authenticated and the connection can be intercepted'']))"

definition format_notices :: "pystr list \<Rightarrow> pystr" where
  "format_notices notes = concat (map (\<lambda>n. [10] @ asc ''[NOTICE '' @ n @ asc '']'') notes)"

definition attach_notices :: "pystr \<Rightarrow> pystr list \<Rightarrow> bool \<Rightarrow> pystr" where
  "attach_notices txt notes as_json =
     (if notes = [] then txt
      else case (if as_json then loads txt else None) of
        Some (JObj doc) \<Rightarrow>
          dumps fmt_default (JObj (dset (asc ''notices'') (JList (map JStr notes)) doc))
      | _ \<Rightarrow> txt @ format_notices notes)"

definition config_warnings :: "settings \<Rightarrow> int \<Rightarrow> pystr list" where
  "config_warnings s uid =
     (if uid = 0
      then [asc ''running as root: every command, session and SSH key use has root's reach; '' @
            asc ''there is no internal sandbox''] else []) @
     (if policy_mode s = asc ''open''
      then (let listed = (if policy_deny s \<noteq> [] then asc ''a deny list is set''
                          else asc ''no RELAY_SHELL_POLICY_DENY'');
                effect = (if confirm_tier3 s
                  then asc ''irreversible (Tier 3) commands need the two-step confirmation, every '' @
                       asc ''other command runs on the first request''
                  else asc ''irreversible commands run on the first request '' @
                       asc ''(RELAY_SHELL_CONFIRM_TIER3 off)'')
            in [asc ''policy mode is open ('' @ listed @ asc ''): '' @ effect @
                asc ''; 'guarded' or 'readonly' narrows this'']) else []) @
     (if ssh_known_hosts s = asc ''ignore''
      then [asc ''RELAY_SHELL_SSH_KNOWN_HOSTS=ignore: SSH host keys are not verified by default'']
      else if ssh_known_hosts s = asc ''accept-new''
      then [asc ''RELAY_SHELL_SSH_KNOWN_HOSTS=accept-new: an unknown host key is trusted on first '' @
            asc ''contact; 'strict' with ssh_keyscan removes the exposure''] else []) @
     (if ssh_allow_weaker_known_hosts s
      then [asc ''a caller may pass known_hosts=ignore per call '' @
            asc ''(RELAY_SHELL_SSH_ALLOW_WEAKER_KNOWN_HOSTS=false refuses it)''] else []) @
     (if transport s = asc ''http'' \<and> \<not> auth_enabled s
      then [asc ''HTTP transport without OAuth: any client that reaches the port can run commands '' @
            asc ''as the service user''] else []) @
     (if \<not> audit_chain s
      then [asc ''RELAY_SHELL_AUDIT_CHAIN is off: the audit log is not tamper-evident on its own'']
      else [])"

subsection \<open>Properties\<close>

lemma attach_notices_prefix:
  "\<not> as_json \<Longrightarrow> attach_notices txt notes as_json = txt @ format_notices notes"
  by (simp add: attach_notices_def format_notices_def)

lemma wf_members_dset:
  "wf_members a kvs \<Longrightarrow> wf_json a v \<Longrightarrow> a \<longrightarrow> (\<forall>c\<in>set k. scalar c) \<Longrightarrow> wf_members a (dset k v kvs)"
  by (induction kvs) (auto split: if_splits)

lemma wf_items_strs: "wf_items a (map JStr ns) \<longleftrightarrow> (a \<longrightarrow> (\<forall>n\<in>set ns. \<forall>c\<in>set n. scalar c))"
  by (induction ns) auto

text \<open>Notices never break a structured result. When the result is a JSON object, the text
  with notices attached still parses, to the same object with the notices under one key;
  otherwise the original text is kept whole and the notices follow it.\<close>

theorem notices_keep_json:
  assumes "wf_json True (JObj doc)" "\<forall>n\<in>set notes. \<forall>c\<in>set n. scalar c" "notes \<noteq> []"
  shows "loads (attach_notices (dumps fmt_default (JObj doc)) notes True)
           = Some (JObj (dset (asc ''notices'') (JList (map JStr notes)) doc)) \<and>
         take (length txt) (attach_notices txt notes False) = txt"
proof
  have "loads (dumps fmt_default (JObj doc)) = Some (JObj doc)"
    by (rule dflt.dec_enc [OF assms(1)])
  moreover have "wf_json True (JObj (dset (asc ''notices'') (JList (map JStr notes)) doc))"
    using assms(1,2) scalar_asc by (simp add: wf_members_dset wf_items_strs distinct_update)
  ultimately show "loads (attach_notices (dumps fmt_default (JObj doc)) notes True)
      = Some (JObj (dset (asc ''notices'') (JList (map JStr notes)) doc))"
    using assms(3) by (simp add: attach_notices_def dflt.dec_enc del: dumps.simps)
qed (simp add: attach_notices_prefix)

theorem notices_keep_json_witness:
  "loads (attach_notices (dumps fmt_default (JObj [(asc ''a'', JInt 1)])) [asc ''n''] True)
      = Some (JObj (dset (asc ''notices'') (JList (map JStr [asc ''n''])) [(asc ''a'', JInt 1)])) \<and>
   take (length (asc ''x'')) (attach_notices (asc ''x'') [asc ''n''] False) = asc ''x''"
  by (rule notices_keep_json) (simp_all add: asc_def scalar_def is_surrogate_def)

end
