(* ===== verification/Redaction.thy ===== *)
theory Redaction
  imports Json
begin

text \<open>
  \<open>src/relay_shell/redaction.py\<close>: the scrubbing of audited arguments. The compiled tables of
  \<open>patterns.py\<close> are parameters: each rule is its \<open>sub\<close> on a text, each probe its \<open>search\<close>. A
  prefix rule also says whether it is the built-in one at its index (only those may be
  skipped).
\<close>

record redaction_tables =
  url_creds_sub :: "pystr \<Rightarrow> pystr"
  url_token_sub :: "pystr \<Rightarrow> pystr"
  prefix_rules :: "(bool \<times> (pystr \<Rightarrow> pystr)) list"
  command_scoped_subs :: "(pystr \<Rightarrow> pystr) list"
  whole_match_subs :: "(pystr \<Rightarrow> pystr) list"
  mysql_family :: "pystr \<Rightarrow> bool"
  mysql_compact_sub :: "pystr \<Rightarrow> pystr"

definition WHOLE_MATCH_HINTS :: "pystr list" where
  "WHOLE_MATCH_HINTS = map asc
     [''-----BEGIN '', ''gith_pat_'', ''github_pat_'', ''ghp_'', ''gho_'', ''ghu_'', ''ghs_'',
      ''ghr_'', ''sk-'', ''hf_'', ''AKIA'', ''xox'', ''hooks.slack.com/services/'', ''AIza'',
      ''ya29.'', ''sk_'', ''rk_'', ''glpat-'', ''npm_'', ''pypi-'', ''ey'']"

definition prefix_hints :: "pystr list list" where
  "prefix_hints = map (map asc)
     [[''authorization''],
      [''bearer''],
      [''key'', ''secret'', ''token'', ''password'', ''passwd'', ''pwd'', ''credential''],
      [''key'', ''secret'', ''token'', ''password'', ''passwd'', ''pwd'', ''credential''],
      [''secret''],
      [''key''],
      [''sig=''],
      [''password'', ''passwd'', ''pwd'', ''passphrase'', ''secret'', ''token'', ''key'',
       ''credential''],
      [''convertto-securestring'']]"

definition is_ascii :: "pystr \<Rightarrow> bool" where
  "is_ascii s \<longleftrightarrow> list_all (\<lambda>c. c < 128) s"

definition any_hint :: "pystr list \<Rightarrow> pystr \<Rightarrow> bool" where
  "any_hint hints s \<longleftrightarrow> list_ex (\<lambda>h. has_sub h s) hints"

text \<open>One turn of the loop over the prefix rules, with its index.\<close>

definition prefix_step :: "pystr \<Rightarrow> nat \<times> bool \<times> (pystr \<Rightarrow> pystr) \<Rightarrow> pystr" where
  "prefix_step out r =
     (case r of (i, is_builtin, sub) \<Rightarrow>
        if is_builtin \<and> is_ascii out \<and> \<not> any_hint (prefix_hints ! i) (lower out)
        then out else sub out)"

definition redact :: "redaction_tables \<Rightarrow> pystr \<Rightarrow> pystr" where
  "redact T txt =
     (let out = url_token_sub T (url_creds_sub T txt);
          out = foldl prefix_step out (enumerate 0 (prefix_rules T));
          out = foldl (\<lambda>o' f. f o') out (command_scoped_subs T);
          out = (if any_hint WHOLE_MATCH_HINTS out
                 then foldl (\<lambda>o' f. f o') out (whole_match_subs T) else out)
      in if mysql_family T out then mysql_compact_sub T out else out)"

definition REDACT_SCAN_MARGIN :: nat where
  "REDACT_SCAN_MARGIN = 16384"

definition scrub_str :: "redaction_tables \<Rightarrow> pystr \<Rightarrow> nat \<Rightarrow> pystr" where
  "scrub_str T txt max_len =
     (let scanned = take (max_len + REDACT_SCAN_MARGIN) txt;
          red = redact T scanned;
          overflow = int (length red) - int max_len;
          tail = int (length txt) - int (length scanned)
      in if overflow > 0 \<or> tail > 0
         then take max_len red @ asc ''...(+'' @ show_int (max overflow 0 + tail) @ asc '')''
         else red)"

text \<open>\<open>_scrub\<close> on the values a tool call carries. A \<open>bytes\<close> value is decoded first
  (\<open>scrub_bytes\<close>). Two keys that collapse to the same text keep the first position and the
  last value, as in the comprehension of the source.\<close>

definition dict_of :: "('k \<times> 'v) list \<Rightarrow> ('k, 'v) dict" where
  "dict_of kvs = foldl (\<lambda>d kv. dset (fst kv) (snd kv) d) [] kvs"

fun scrub :: "redaction_tables \<Rightarrow> nat \<Rightarrow> json \<Rightarrow> json"
and scrub_items :: "redaction_tables \<Rightarrow> nat \<Rightarrow> json list \<Rightarrow> json list"
and scrub_members :: "redaction_tables \<Rightarrow> nat \<Rightarrow> (pystr \<times> json) list \<Rightarrow> (pystr \<times> json) list" where
  "scrub T n (JStr s) = JStr (scrub_str T s n)"
| "scrub T n (JObj kvs) = JObj (dict_of (scrub_members T n kvs))"
| "scrub T n (JList vs) = JList (scrub_items T n vs)"
| "scrub T n v = v"
| "scrub_items T n [] = []"
| "scrub_items T n (v # vs) = scrub T n v # scrub_items T n vs"
| "scrub_members T n [] = []"
| "scrub_members T n ((k, v) # kvs) = (scrub_str T k n, scrub T n v) # scrub_members T n kvs"

definition scrub_bytes :: "redaction_tables \<Rightarrow> nat \<Rightarrow> bytes \<Rightarrow> json" where
  "scrub_bytes T n b = JStr (scrub_str T (utf8_decode b) n)"

definition redact_args ::
  "redaction_tables \<Rightarrow> (pystr, json) dict \<Rightarrow> nat \<Rightarrow> (pystr, json) dict" where
  "redact_args T args max_len = map (\<lambda>(k, v). (k, scrub T max_len v)) args"

subsection \<open>The gates are only an optimisation\<close>

text \<open>The same passes with no gate.\<close>

definition redact_all :: "redaction_tables \<Rightarrow> pystr \<Rightarrow> pystr" where
  "redact_all T txt =
     (let out = url_token_sub T (url_creds_sub T txt);
          out = foldl (\<lambda>o' f. f o') out (map snd (prefix_rules T));
          out = foldl (\<lambda>o' f. f o') out (command_scoped_subs T);
          out = foldl (\<lambda>o' f. f o') out (whole_match_subs T)
      in if mysql_family T out then mysql_compact_sub T out else out)"

text \<open>What the gates rely on: a built-in rule leaves ASCII text without its anchors alone, and
  a whole-match rule leaves text without any anchor alone.\<close>

definition anchored_tables :: "redaction_tables \<Rightarrow> bool" where
  "anchored_tables T \<longleftrightarrow>
     (\<forall>i < length (prefix_rules T). fst (prefix_rules T ! i) \<longrightarrow>
        (\<forall>s. is_ascii s \<longrightarrow> \<not> any_hint (prefix_hints ! i) (lower s) \<longrightarrow>
           snd (prefix_rules T ! i) s = s)) \<and>
     (\<forall>f\<in>set (whole_match_subs T). \<forall>s. \<not> any_hint WHOLE_MATCH_HINTS s \<longrightarrow> f s = s)"

lemma prefix_fold:
  assumes "\<forall>r\<in>set rs. \<forall>s. prefix_step s r = snd (snd r) s"
  shows "foldl prefix_step out rs = foldl (\<lambda>o' f. f o') out (map (\<lambda>r. snd (snd r)) rs)"
  using assms by (induction rs arbitrary: out) auto

lemma whole_fold:
  "\<forall>f\<in>set fs. \<forall>s. \<not> any_hint hs s \<longrightarrow> f s = s \<Longrightarrow> \<not> any_hint hs out \<Longrightarrow>
     foldl (\<lambda>o' f. f o') out fs = out"
  by (induction fs arbitrary: out) auto

lemma map_snd_enumerate: "map (\<lambda>r. snd (snd r)) (enumerate n xs) = map snd xs"
  by (induction xs arbitrary: n) auto

text \<open>Skipping rules loses no redaction. If every built-in rule and every whole-match rule
  needs its literal anchor to match, the gated passes redact exactly what running every rule
  on every text would.\<close>

theorem gated_redaction_complete:
  assumes "anchored_tables T"
  shows "redact T txt = redact_all T txt"
proof -
  have "prefix_step s r = snd (snd r) s" if "r \<in> set (enumerate 0 (prefix_rules T))" for s r
  proof -
    obtain i where i: "i < length (prefix_rules T)" "r = (i, prefix_rules T ! i)"
      using \<open>r \<in> _\<close> by (auto simp: in_set_enumerate_eq)
    then show ?thesis
      using assms unfolding anchored_tables_def prefix_step_def
      by (cases "prefix_rules T ! i") (auto split: if_splits)
  qed
  then have p: "foldl prefix_step out (enumerate 0 (prefix_rules T))
      = foldl (\<lambda>o' f. f o') out (map snd (prefix_rules T))" for out
    using prefix_fold map_snd_enumerate by metis
  have "(if any_hint WHOLE_MATCH_HINTS out
      then foldl (\<lambda>o' f. f o') out (whole_match_subs T) else out)
      = foldl (\<lambda>o' f. f o') out (whole_match_subs T)" for out
    using whole_fold [of "whole_match_subs T" WHOLE_MATCH_HINTS out] assms
    by (simp add: anchored_tables_def)
  then show ?thesis by (simp only: redact_def redact_all_def p Let_def)
qed

text \<open>A table with one built-in rule and one whole-match rule, anchored as the source's are.\<close>

definition sample_tables :: redaction_tables where
  "sample_tables =
     \<lparr>url_creds_sub = (\<lambda>s. s), url_token_sub = (\<lambda>s. s),
      prefix_rules = [(True, \<lambda>s. if has_sub (asc ''authorization'') (lower s) then asc ''***'' else s)],
      command_scoped_subs = [],
      whole_match_subs = [\<lambda>s. if has_sub (asc ''ghp_'') s then asc ''***'' else s],
      mysql_family = (\<lambda>s. False), mysql_compact_sub = (\<lambda>s. s)\<rparr>"

theorem gated_redaction_complete_witness:
  "redact sample_tables (asc ''ghp_x'') = redact_all sample_tables (asc ''ghp_x'')"
  by (rule gated_redaction_complete)
     (simp add: anchored_tables_def sample_tables_def prefix_hints_def any_hint_def
        WHOLE_MATCH_HINTS_def)

subsection \<open>Nothing unscrubbed reaches the record\<close>

fun strings_of :: "json \<Rightarrow> pystr list"
and strings_of_items :: "json list \<Rightarrow> pystr list"
and strings_of_members :: "(pystr \<times> json) list \<Rightarrow> pystr list" where
  "strings_of (JStr s) = [s]"
| "strings_of (JList vs) = strings_of_items vs"
| "strings_of (JObj kvs) = strings_of_members kvs"
| "strings_of v = []"
| "strings_of_items [] = []"
| "strings_of_items (v # vs) = strings_of v @ strings_of_items vs"
| "strings_of_members [] = []"
| "strings_of_members ((k, v) # kvs) = k # strings_of v @ strings_of_members kvs"

lemma strings_of_members_mono:
  "set (strings_of_members (dset k v d)) \<subseteq>
     set (strings_of_members d) \<union> insert k (set (strings_of v))"
  by (induction d) auto

lemma strings_of_dict_of:
  "set (strings_of_members (foldl (\<lambda>d kv. dset (fst kv) (snd kv) d) d kvs)) \<subseteq>
     set (strings_of_members d) \<union> set (strings_of_members kvs)"
proof (induction kvs arbitrary: d)
  case Nil
  then show ?case by simp
next
  case (Cons kv kvs)
  then show ?case
    using Cons.IH [of "dset (fst kv) (snd kv) d"] strings_of_members_mono [of "fst kv" "snd kv" d]
    by (cases kv) fastforce
qed

lemma scrub_strings:
  shows "set (strings_of (scrub T n v)) \<subseteq> range (\<lambda>s. scrub_str T s n)"
    and "set (strings_of_items (scrub_items T n vs)) \<subseteq> range (\<lambda>s. scrub_str T s n)"
    and "set (strings_of_members (scrub_members T n kvs)) \<subseteq> range (\<lambda>s. scrub_str T s n)"
proof (induction T n v and T n vs and T n kvs rule: scrub_scrub_items_scrub_members.induct)
  case (2 T n kvs)
  then show ?case using strings_of_dict_of [of "[]" "scrub_members T n kvs"]
    by (auto simp: dict_of_def)
qed auto

text \<open>Every string, nested key and list element of a redacted argument map is the output of
  the scrubber, so it is at most the cap long or a cut redaction with its overflow marker; the
  argument names are unchanged.\<close>

theorem redact_args_scrubs_everything:
  "map fst (redact_args T args n) = map fst args \<and>
   (\<forall>(k, v)\<in>set (redact_args T args n). \<forall>s\<in>set (strings_of v).
      \<exists>t. s = scrub_str T t n \<and>
        (length s \<le> n \<or> (\<exists>more. s = take n (redact T (take (n + REDACT_SCAN_MARGIN) t)) @
           asc ''...(+'' @ show_int more @ asc '')'' \<and> more > 0)))"
proof -
  have cut: "length (scrub_str T t n) \<le> n \<or>
      (\<exists>more. scrub_str T t n = take n (redact T (take (n + REDACT_SCAN_MARGIN) t)) @
         asc ''...(+'' @ show_int more @ asc '')'' \<and> more > 0)" for t
    by (auto simp: scrub_str_def Let_def)
  have "\<exists>t. s = scrub_str T t n" if "(k, v) \<in> set (redact_args T args n)" "s \<in> set (strings_of v)"
    for k v s
    using that scrub_strings(1) by (fastforce simp: redact_args_def)
  then show ?thesis
    using cut by (fastforce simp: redact_args_def)
qed

theorem redact_args_scrubs_everything_witness:
  "map fst (redact_args sample_tables [(asc ''k'', JStr (asc ''ghp_x''))] 9) = [asc ''k''] \<and>
   (\<exists>t. scrub_str sample_tables (asc ''ghp_x'') 9 = scrub_str sample_tables t 9 \<and>
      length (scrub_str sample_tables t 9) \<le> 9)"
proof -
  have "redact sample_tables (asc ''ghp_x'') = asc ''***''"
    by (simp add: redact_def sample_tables_def prefix_step_def prefix_hints_def any_hint_def
        WHOLE_MATCH_HINTS_def is_ascii_def lower_def lower_char_def asc_def starts_with_def)
  then have "scrub_str sample_tables (asc ''ghp_x'') 9 = asc ''***''"
    by (simp add: scrub_str_def Let_def REDACT_SCAN_MARGIN_def)
  then have "length (scrub_str sample_tables (asc ''ghp_x'') 9) \<le> 9" by simp
  then show ?thesis
    using redact_args_scrubs_everything [of sample_tables "[(asc ''k'', JStr (asc ''ghp_x''))]" 9]
    by (auto simp: redact_args_def)
qed

text \<open>The overflow marker is exact for text the tables leave alone: it keeps the first
  \<open>max_len\<close> characters and names the number dropped, also past the scan window.\<close>

theorem scrub_str_count:
  assumes "\<And>s. redact T s = s"
  shows "scrub_str T txt n =
    (if length txt \<le> n then txt
     else take n txt @ asc ''...(+'' @ show_int (int (length txt) - int n) @ asc '')'')"
  using assms by (auto simp: scrub_str_def Let_def min_def)

theorem scrub_str_count_witness:
  "scrub_str \<lparr>url_creds_sub = (\<lambda>s. s), url_token_sub = (\<lambda>s. s), prefix_rules = [],
      command_scoped_subs = [], whole_match_subs = [], mysql_family = (\<lambda>s. False),
      mysql_compact_sub = (\<lambda>s. s)\<rparr> (asc ''abcde'') 2 =
    (if length (asc ''abcde'') \<le> 2 then asc ''abcde''
     else take 2 (asc ''abcde'') @ asc ''...(+'' @
       show_int (int (length (asc ''abcde'')) - int 2) @ asc '')'')"
  by (rule scrub_str_count) (simp add: redact_def)

end
