(* ===== verification/Relay.thy ===== *)
theory Relay
  imports AuditLog Broker Metrics Notices Redaction
begin

text \<open>
  The central runner of \<open>src/relay_shell/server.py\<close>: \<open>Relay.run\<close>, through which every tool call
  is admitted, gated, executed and audited, and the \<open>operation_confirm\<close> tool. The state is
  the audit logger, the confirmation broker, the metrics and the rest of the world \<open>'w\<close>; the
  work of a tool is a function on that state. Clock readings, the minted token, timestamps
  and the outcome of each audit write are the environment of the call.
\<close>

record 'w relay =
  rl_settings :: settings
  rl_policy :: policy
  rl_broker :: "broker option"
  rl_audit :: audit
  rl_metrics :: metrics
  rl_world :: 'w

text \<open>What the work did: returned text and exit code, raised, or was cancelled.\<close>

datatype work_outcome =
    Done pystr "int option"
  | Raised exn
  | Cancelled

text \<open>What \<open>run\<close> did: returned text, or let the cancellation propagate.\<close>

datatype reply =
    Reply pystr
  | Propagated

type_synonym 'w work = "'w relay \<Rightarrow> work_outcome \<times> 'w relay"

record env =
  ev_sha :: "bytes \<Rightarrow> pystr"
  ev_scans :: scans
  ev_tables :: redaction_tables
  ev_consume_at :: real
  ev_plan_at :: real
  ev_token :: pystr
  ev_ts :: "nat \<Rightarrow> pystr"
  ev_write_ok :: "nat \<Rightarrow> bool"

record call =
  c_tool :: pystr
  c_request_id :: pystr
  c_client_id :: pystr
  c_args :: "(pystr, json) dict"
  c_policy_text :: pystr
  c_max_output :: int
  c_min_tier :: tier
  c_extra_notices :: "pystr list"
  c_json_notices :: bool

definition clamp_timeout :: "settings \<Rightarrow> int \<Rightarrow> int" where
  "clamp_timeout s timeout = clamp timeout 1 (max_timeout s)"

definition exec_timeout :: "settings \<Rightarrow> int \<Rightarrow> int" where
  "exec_timeout s timeout = clamp_timeout s (if timeout = 0 then default_timeout s else timeout)"

definition clamp_output :: "settings \<Rightarrow> int \<Rightarrow> int" where
  "clamp_output s n = clamp n 1024 (max_output_hard s)"

definition tier_label :: "tier \<Rightarrow> pystr" where
  "tier_label t = show_int (tier_int t) @ asc '' ('' @ tier_name t @ asc '')''"

definition denied_body :: "tier \<Rightarrow> pystr \<Rightarrow> pystr" where
  "denied_body t why = asc ''[DENIED tier '' @ tier_label t @ asc '': '' @ why @ asc '']''"

definition oversize_reason :: "nat \<Rightarrow> int \<Rightarrow> pystr" where
  "oversize_reason n limit =
     asc ''input is '' @ show_int (int n) @ asc '' characters, over RELAY_SHELL_MAX_INPUT ('' @
     show_int limit @ asc '')''"

definition confirm_body :: "tier \<Rightarrow> challenge \<Rightarrow> pystr" where
  "confirm_body t ch =
     asc ''[CONFIRM REQUIRED tier '' @ tier_label t @
     asc '': this irreversible operation needs a second step. Call operation_confirm(token='' @
     [34] @ ch_token ch @ [34] @ asc '') then re-issue this exact call within '' @
     show_int (ch_ttl ch) @ asc ''s.]''"

text \<open>The record every exit of \<open>run\<close> writes; the fields that differ are arguments.\<close>

definition call_record ::
  "env \<Rightarrow> call \<Rightarrow> tier \<Rightarrow> pystr \<Rightarrow> int option \<Rightarrow> bool \<Rightarrow> pystr \<Rightarrow> audit_call" where
  "call_record E c t output exit_code was_denied action =
     \<lparr>ac_tool = c_tool c, ac_args = redact_args (ev_tables E) (c_args c) 500, ac_output = output,
      ac_exit = exit_code, ac_tier = tier_int t, ac_request_id = c_request_id c,
      ac_client_id = c_client_id c, ac_denied = was_denied, ac_action = action\<rparr>"

text \<open>\<open>self.audit.record(...)\<close>, the \<open>n\<close>-th record of the call.\<close>

definition write_record :: "env \<Rightarrow> nat \<Rightarrow> audit_call \<Rightarrow> 'w relay \<Rightarrow> 'w relay" where
  "write_record E n r s =
     s\<lparr>rl_audit := audit_record (ev_sha E) (ev_write_ok E n) (ev_ts E n) r (rl_audit s)\<rparr>"

definition count_call :: "call \<Rightarrow> tier \<Rightarrow> string \<Rightarrow> 'w relay \<Rightarrow> 'w relay" where
  "count_call c t outcome s =
     s\<lparr>rl_metrics := inc_tool_call (c_tool c) (tier_int t) (policy_mode (rl_settings s))
                      (asc outcome) (rl_metrics s)\<rparr>"

text \<open>From the write-ahead record on: run the work, write the completion record, count, and
  attach the notices.\<close>

definition execute :: "env \<Rightarrow> call \<Rightarrow> policy_decision \<Rightarrow> pystr \<Rightarrow> 'w work \<Rightarrow> 'w relay \<Rightarrow> reply \<times> 'w relay" where
  "execute E c d confirm_action work s =
     (let t = d_tier d;
          s = (if audit_intent (rl_settings s)
               then write_record E 0 (call_record E c t [] None False (asc ''intent'')) s else s)
      in case work s of
        (Cancelled, s') \<Rightarrow>
          (Propagated, count_call c t ''cancelled''
             (write_record E 1 (call_record E c t (asc ''[CANCELLED]'') None False (asc ''cancelled'')) s'))
      | (outcome, s') \<Rightarrow>
          (let (body, exit_code, errored) =
                 (case outcome of Done b x \<Rightarrow> (b, x, False) | Raised e \<Rightarrow> (fmt_exc e, None, True)
                  | Cancelled \<Rightarrow> ([], None, True));
               body = truncate_str body (clamp_output (rl_settings s') (c_max_output c));
               final = (case exit_code of
                          Some x \<Rightarrow> asc ''[exit '' @ show_int x @ asc '']'' @ [10] @ body
                        | None \<Rightarrow> body);
               s' = write_record E 1 (call_record E c t final exit_code False confirm_action) s';
               s' = count_call c t (if errored then ''error'' else ''ok'') s'
           in (Reply (if unsafe_notices (rl_settings s')
                      then attach_notices final (call_notices d (c_args c) @ c_extra_notices c)
                             (c_json_notices c)
                      else final), s')))"

definition refuse :: "env \<Rightarrow> call \<Rightarrow> tier \<Rightarrow> pystr \<Rightarrow> 'w relay \<Rightarrow> reply \<times> 'w relay" where
  "refuse E c t why s =
     (let body = denied_body t why in
      (Reply body, count_call c t ''denied''
         (write_record E 1 (call_record E c t body None True []) s)))"

definition relay_run :: "env \<Rightarrow> call \<Rightarrow> 'w work \<Rightarrow> 'w relay \<Rightarrow> reply \<times> 'w relay" where
  "relay_run E c work s =
     (if int (length (c_policy_text c)) > max_input (rl_settings s)
      then refuse E c (classify (ev_scans E) (c_tool c) [])
             (oversize_reason (length (c_policy_text c)) (max_input (rl_settings s))) s
      else
        let d = policy_check (ev_scans E) (rl_policy s) (c_tool c) (c_policy_text c) (c_min_tier c)
        in if \<not> allowed d then refuse E c (d_tier d) (reason d) s
           else case rl_broker s of
             None \<Rightarrow> execute E c d [] work s
           | Some b \<Rightarrow>
               if d_tier d \<noteq> IRREVERSIBLE then execute E c d [] work s
               else
                 let op_key = confirm_op_key (c_policy_text c) (JObj (c_args c));
                     (released, b1) = consume (ev_sha E) (ev_consume_at E) (c_tool c) op_key
                                        (c_client_id c) b
                 in if released
                    then execute E c d (asc ''confirm_execute'') work (s\<lparr>rl_broker := Some b1\<rparr>)
                    else
                      let (ch, b2) = plan (ev_sha E) (ev_plan_at E) (ev_token E) (c_tool c) op_key
                                       (c_client_id c) b1;
                          body = confirm_body (d_tier d) ch
                      in (Reply body, count_call c (d_tier d) ''confirm_required''
                           (write_record E 1
                             (call_record E c (d_tier d) body None False (asc ''confirm_plan''))
                             (s\<lparr>rl_broker := Some b2\<rparr>))))"

text \<open>\<open>operation_confirm\<close>: the work arms the token for the calling client; the record carries
  only a fingerprint of the token.\<close>

definition confirm_work :: "real \<Rightarrow> pystr \<Rightarrow> pystr \<Rightarrow> 'w work" where
  "confirm_work now token client s =
     (case rl_broker s of
        None \<Rightarrow> (Done (asc ''[confirmation broker disabled (RELAY_SHELL_CONFIRM_TIER3 is off)]'') None, s)
      | Some b \<Rightarrow>
          (case arm now token client b of
             (ok, b') \<Rightarrow>
               (Done (if ok then asc ''[armed: re-issue the exact Tier-3 call now to execute it]''
                      else asc ''[invalid or expired confirmation token]'') None,
                s\<lparr>rl_broker := Some b'\<rparr>)))"

definition confirm_call :: "(bytes \<Rightarrow> pystr) \<Rightarrow> pystr \<Rightarrow> pystr \<Rightarrow> pystr \<Rightarrow> call" where
  "confirm_call sha token request_id client =
     \<lparr>c_tool = asc ''operation_confirm'', c_request_id = request_id, c_client_id = client,
      c_args = [(asc ''token_sha256'',
        JStr (if token = [] then [] else take 12 (sha256_hex sha token)))],
      c_policy_text = [], c_max_output = 1024, c_min_tier = READ_ONLY, c_extra_notices = [],
      c_json_notices = False\<rparr>"

definition operation_confirm ::
  "env \<Rightarrow> real \<Rightarrow> pystr \<Rightarrow> pystr \<Rightarrow> pystr \<Rightarrow> 'w relay \<Rightarrow> reply \<times> 'w relay" where
  "operation_confirm E now token request_id client s =
     relay_run E (confirm_call (ev_sha E) token request_id client) (confirm_work now token client) s"

text \<open>\<open>_filter_audit_records\<close> and the \<open>audit_tail\<close> tool.\<close>

definition keep_record :: "pystr \<Rightarrow> int \<Rightarrow> bool option \<Rightarrow> record_fields \<Rightarrow> bool" where
  "keep_record tool t denied_is kvs \<longleftrightarrow>
     (tool = [] \<or> dget kvs (asc ''tool'') = Some (JStr tool)) \<and>
     (t < 0 \<or> as_int (dget kvs (asc ''tier'')) = Some t) \<and>
     (case denied_is of None \<Rightarrow> True
      | Some b \<Rightarrow> (case dget kvs (asc ''denied'') of None \<Rightarrow> False | Some v \<Rightarrow> truthy v) = b)"

text \<open>A line that parses to something other than an object has no \<open>get\<close>: the call raises.\<close>

definition filter_audit_records ::
  "pystr \<Rightarrow> pystr \<Rightarrow> int \<Rightarrow> bool option \<Rightarrow> exn + pystr" where
  "filter_audit_records txt tool t denied_is =
     (let lines = filter (\<lambda>l. strip l \<noteq> []) (split_on 10 txt);
          recs = List.map_filter (\<lambda>l. map_option (\<lambda>v. (l, v)) (loads l)) lines
      in if list_all (\<lambda>(l, v). case v of JObj kvs \<Rightarrow> True | _ \<Rightarrow> False) recs
         then Inr (join [10] (map fst (filter (\<lambda>(l, v). keep_record tool t denied_is (fields_of v)) recs)))
         else Inl \<lparr>exn_class = asc ''AttributeError'', exn_text = asc ''object has no attribute 'get' ''\<rparr>)"

definition audit_tail_work :: "int \<Rightarrow> pystr \<Rightarrow> int \<Rightarrow> bool option \<Rightarrow> 'w work" where
  "audit_tail_work lines tool t denied_is s =
     (let txt = audit_tail (clamp lines 1 1000) (rl_audit s) in
      if tool = [] \<and> t < 0 \<and> denied_is = None then (Done txt None, s)
      else (case filter_audit_records txt tool t denied_is of
              Inr r \<Rightarrow> (Done r None, s) | Inl e \<Rightarrow> (Raised e, s)))"

end
