(* ===== verification/AuditChain.thy ===== *)
theory AuditChain
  imports AuditLog
begin

text \<open>
  What the verifier of the audit chain accepts, what the logger writes, and how the two meet
  across restarts and rotation.
\<close>

subsection \<open>The chain as a property of records\<close>

definition as_record :: "json option \<Rightarrow> record_fields option" where
  "as_record p = (case p of Some (JObj kvs) \<Rightarrow> if is_chained (JObj kvs) then Some kvs else None
     | _ \<Rightarrow> None)"

text \<open>The non-blank lines, parsed.\<close>

definition parsed :: "pystr list \<Rightarrow> json option list" where
  "parsed raws = map loads (filter (\<lambda>l. l \<noteq> []) (map strip raws))"

definition chain_step :: "(bytes \<Rightarrow> pystr) \<Rightarrow> pystr \<Rightarrow> record_fields \<Rightarrow> pystr" where
  "chain_step sha p r = chain_value sha p (chain_body r)"

text \<open>\<open>linked sha p s rs\<close>: from the anchor \<open>p\<close> and sequence number \<open>s\<close> on, every record carries
  the next number, the chain value before it and its own.\<close>

fun linked :: "(bytes \<Rightarrow> pystr) \<Rightarrow> pystr \<Rightarrow> int \<Rightarrow> record_fields list \<Rightarrow> bool" where
  "linked sha p s [] \<longleftrightarrow> True"
| "linked sha p s (r # rs) \<longleftrightarrow>
     seq_of r = Some s \<and> prev_of r = Some p \<and> chain_of r = Some (chain_step sha p r) \<and>
     linked sha (chain_step sha p r) (s + 1) rs"

definition final_chain :: "(bytes \<Rightarrow> pystr) \<Rightarrow> pystr \<Rightarrow> record_fields list \<Rightarrow> pystr" where
  "final_chain sha p rs = foldl (chain_step sha) p rs"

lemma final_chain_simps [simp]:
  "final_chain sha p [] = p"
  "final_chain sha p (r # rs) = final_chain sha (chain_step sha p r) rs"
  "final_chain sha p (rs @ [r]) = chain_step sha (final_chain sha p rs) r"
  by (simp_all add: final_chain_def)

lemma linked_snoc:
  "linked sha p s (rs @ [r]) \<longleftrightarrow>
     linked sha p s rs \<and> seq_of r = Some (s + int (length rs)) \<and>
     prev_of r = Some (final_chain sha p rs) \<and>
     chain_of r = Some (chain_step sha (final_chain sha p rs) r)"
  by (induction rs arbitrary: p s) (auto simp: algebra_simps)

lemma linked_chained: "linked sha p s rs \<Longrightarrow> r \<in> set rs \<Longrightarrow> is_chained (JObj r)"
  by (induction rs arbitrary: p s) auto

text \<open>The whole file: leading lines that are not chained records, then an unbroken chain.\<close>

definition chain_region :: "json option list \<Rightarrow> json option list" where
  "chain_region ps = dropWhile (\<lambda>p. as_record p = None) ps"

definition chain_intact :: "(bytes \<Rightarrow> pystr) \<Rightarrow> json option list \<Rightarrow> bool" where
  "chain_intact sha ps \<longleftrightarrow>
     (let region = chain_region ps; rs = map (\<lambda>p. the (as_record p)) region in
      list_all (\<lambda>p. as_record p \<noteq> None) region \<and>
      (rs = [] \<or>
         (the (seq_of (hd rs)) = 0 \<longrightarrow> the (prev_of (hd rs)) = CHAIN_GENESIS) \<and>
         linked sha (the (prev_of (hd rs))) (the (seq_of (hd rs))) rs))"

subsection \<open>The verifier decides it\<close>

text \<open>The loop of \<open>verify_chain\<close> over parsed lines, without line numbers and messages.\<close>

fun chase :: "(bytes \<Rightarrow> pystr) \<Rightarrow> vstate \<Rightarrow> json option list \<Rightarrow> vstate option" where
  "chase sha st [] = Some st"
| "chase sha st (p # ps) =
     (case as_record p of
        None \<Rightarrow> if v_start st \<noteq> None then None else chase sha st ps
      | Some kvs \<Rightarrow>
          (case verify_record sha st kvs of Inl e \<Rightarrow> None | Inr st' \<Rightarrow> chase sha st' ps))"

lemma broken_not_ok [simp]: "\<not> cr_ok (broken st n why)" "\<not> cr_anchored (broken st n why)"
  by (simp_all add: broken_def)

lemma verify_lines_chase:
  "case verify_lines sha st n raws of
     Inr st' \<Rightarrow> chase sha st (parsed raws) = Some st'
   | Inl r \<Rightarrow> chase sha st (parsed raws) = None \<and> \<not> cr_ok r \<and> \<not> cr_anchored r"
proof (induction sha st n raws rule: verify_lines.induct)
  case (1 sha st n)
  then show ?case by (simp add: parsed_def)
next
  case (2 sha st n raw rest)
  show ?case
  proof (cases "strip raw = []")
    case True
    then have "parsed (raw # rest) = parsed rest" by (simp add: parsed_def)
    then show ?thesis using 2(1) [OF refl True] True by (simp split: sum.splits)
  next
    case False
    note ne = False
    have p: "parsed (raw # rest) = loads (strip raw) # parsed rest"
      using False by (simp add: parsed_def)
    show ?thesis
    proof (cases "loads (strip raw)")
      case n: None
      then have "as_record (loads (strip raw)) = None" by (simp add: as_record_def)
      then show ?thesis
        using 2(2) [OF refl ne n] ne n p
        by (cases "v_start st") (simp_all split: sum.splits)
    next
      case s: (Some rec)
      show ?thesis
      proof (cases "is_chained rec")
        case False
        then have "as_record (loads (strip raw)) = None"
          using s by (cases rec) (auto simp: as_record_def)
        then show ?thesis
          using 2(3) [OF refl ne s False] ne s False p
          by (cases "v_start st") (simp_all split: sum.splits)
      next
        case c: True
        then obtain kvs where kvs: "rec = JObj kvs" by (cases rec) auto
        have r: "as_record (loads (strip raw)) = Some kvs" using s c kvs by (simp add: as_record_def)
        show ?thesis
        proof (cases "verify_record sha st kvs")
          case (Inl e)
          then show ?thesis using s c ne r p kvs by (cases e) (simp del: is_chained.simps)
        next
          case (Inr st')
          then show ?thesis
            using 2(4) [OF refl ne s] s c ne r p kvs
            by (simp del: is_chained.simps split: sum.splits)
        qed
      qed
    qed
  qed
qed

lemma as_record_chained:
  "as_record p = Some kvs \<Longrightarrow> \<exists>s q c. seq_of kvs = Some s \<and> prev_of kvs = Some q \<and> chain_of kvs = Some c"
  by (auto simp: as_record_def split: option.splits json.splits if_splits)

lemma verify_record_started:
  assumes "v_start st = Some a" "seq_of kvs = Some s" "prev_of kvs = Some q" "chain_of kvs = Some c"
  shows "verify_record sha st kvs = Inr st' \<longleftrightarrow>
     s = v_seq st \<and> q = v_prev st \<and> c = chain_step sha q kvs \<and>
     st' = st\<lparr>v_records := v_records st + 1, v_prev := c, v_seq := v_seq st + 1\<rparr>"
  using assms by (auto simp: verify_record_def Let_def chain_step_def)

lemma verify_record_fresh:
  assumes "v_start st = None" "seq_of kvs = Some s" "prev_of kvs = Some q" "chain_of kvs = Some c"
  shows "verify_record sha st kvs = Inr st' \<longleftrightarrow>
     (s = 0 \<longrightarrow> q = CHAIN_GENESIS) \<and> c = chain_step sha q kvs \<and>
     st' = st\<lparr>v_start := Some (s, q), v_records := v_records st + 1, v_prev := c, v_seq := s + 1\<rparr>"
  using assms by (auto simp: verify_record_def Let_def chain_step_def)

abbreviation recs_of :: "json option list \<Rightarrow> record_fields list" where
  "recs_of ps \<equiv> map (\<lambda>p. the (as_record p)) ps"

lemma chase_started:
  "v_start st = Some a \<Longrightarrow> chase sha st ps = Some st' \<longleftrightarrow>
     list_all (\<lambda>p. as_record p \<noteq> None) ps \<and> linked sha (v_prev st) (v_seq st) (recs_of ps) \<and>
     st' = st\<lparr>v_records := v_records st + length ps, v_seq := v_seq st + int (length ps),
             v_prev := final_chain sha (v_prev st) (recs_of ps)\<rparr>"
proof (induction ps arbitrary: st)
  case Nil
  then show ?case by auto
next
  case (Cons p ps)
  show ?case
  proof (cases "as_record p")
    case None
    then show ?thesis using Cons.prems by simp
  next
    case (Some kvs)
    obtain s q c where f: "seq_of kvs = Some s" "prev_of kvs = Some q" "chain_of kvs = Some c"
      using as_record_chained [OF Some] by blast
    let ?st1 = "st\<lparr>v_records := v_records st + 1, v_prev := c, v_seq := v_seq st + 1\<rparr>"
    note vr = verify_record_started [OF Cons.prems f, of sha]
    show ?thesis
    proof (cases "s = v_seq st \<and> q = v_prev st \<and> c = chain_step sha q kvs")
      case True
      then have "verify_record sha st kvs = Inr ?st1" using vr by simp
      then show ?thesis
        using Some f True Cons.prems Cons.IH [of ?st1] by (auto simp: algebra_simps)
    next
      case False
      then obtain e where "verify_record sha st kvs = Inl e"
        using vr by (cases "verify_record sha st kvs") auto
      then show ?thesis using Some f False by auto
    qed
  qed
qed

lemma chase_fresh:
  "v_start st = None \<Longrightarrow> chase sha st ps = Some st' \<longleftrightarrow>
     (case chain_region ps of
        [] \<Rightarrow> st' = st
      | p # ps' \<Rightarrow> (\<exists>st1. verify_record sha st (the (as_record p)) = Inr st1 \<and>
          chase sha st1 ps' = Some st'))"
proof (induction ps)
  case Nil
  then show ?case by (auto simp: chain_region_def)
next
  case (Cons p ps)
  then show ?case
    by (cases "as_record p") (auto simp: chain_region_def split: sum.splits)
qed

definition final_state :: "(bytes \<Rightarrow> pystr) \<Rightarrow> json option list \<Rightarrow> vstate" where
  "final_state sha ps =
     (case recs_of (chain_region ps) of
        [] \<Rightarrow> verify_init
      | r # rs \<Rightarrow>
          \<lparr>v_records = length (r # rs), v_start = Some (the (seq_of r), the (prev_of r)),
           v_seq = the (seq_of r) + int (length (r # rs)),
           v_prev = final_chain sha (the (prev_of r)) (r # rs)\<rparr>)"

lemma chase_init:
  "chase sha verify_init ps = (if chain_intact sha ps then Some (final_state sha ps) else None)"
proof (cases "chain_region ps")
  case Nil
  then show ?thesis
    using chase_fresh [of verify_init sha ps verify_init]
    by (simp add: verify_init_def chain_intact_def final_state_def)
next
  case (Cons p ps')
  then have "as_record p \<noteq> None"
    unfolding chain_region_def by (metis (mono_tags, lifting) hd_dropWhile list.sel(1) list.simps(3))
  then obtain kvs where kvs: "as_record p = Some kvs" by blast
  obtain s q c where f: "seq_of kvs = Some s" "prev_of kvs = Some q" "chain_of kvs = Some c"
    using as_record_chained [OF kvs] by blast
  let ?st1 = "verify_init\<lparr>v_start := Some (s, q), v_records := 1, v_prev := c, v_seq := s + 1\<rparr>"
  have vi: "v_start verify_init = None" "v_records verify_init = 0" by (simp_all add: verify_init_def)
  have one: "chase sha verify_init ps = Some st' \<longleftrightarrow>
      (s = 0 \<longrightarrow> q = CHAIN_GENESIS) \<and> c = chain_step sha q kvs \<and> chase sha ?st1 ps' = Some st'" for st'
    using Cons kvs verify_record_fresh [OF vi(1) f] by (auto simp: chase_fresh [OF vi(1)] vi(2))
  have two: "chase sha ?st1 ps' = Some st' \<longleftrightarrow>
      list_all (\<lambda>p. as_record p \<noteq> None) ps' \<and> linked sha c (s + 1) (recs_of ps') \<and>
      st' = ?st1\<lparr>v_records := 1 + length ps', v_seq := s + 1 + int (length ps'),
              v_prev := final_chain sha c (recs_of ps')\<rparr>" for st'
    by (subst chase_started [where a = "(s, q)"]) simp_all
  have "chase sha verify_init ps = Some st' \<longleftrightarrow> chain_intact sha ps \<and> st' = final_state sha ps" for st'
    unfolding one two using Cons kvs f
    by (auto simp: chain_intact_def Let_def final_state_def verify_init_def)
  then show ?thesis by (cases "chase sha verify_init ps") auto
qed

text \<open>C13: The verifier decides exactly chain integrity. On a readable file it accepts if and only
  if, after leading lines that are not chained records, every line is a chained record with
  the next sequence number, the previous chain value and a chain value that recomputes from its
  own body (and a record numbered 0 starts from the genesis value); then it counts the
  records of that region, and it reports the log as anchored exactly when the region starts
  at genesis.\<close>

theorem verify_chain_iff:
  "(cr_ok (verify_chain sha path (Contents b None)) \<longleftrightarrow>
      chain_intact sha (parsed (text_lines (utf8_decode b)))) \<and>
   (cr_ok (verify_chain sha path (Contents b None)) \<and>
    cr_records (verify_chain sha path (Contents b None)) = k \<longleftrightarrow>
      chain_intact sha (parsed (text_lines (utf8_decode b))) \<and>
      length (chain_region (parsed (text_lines (utf8_decode b)))) = k) \<and>
   (cr_anchored (verify_chain sha path (Contents b None)) \<longleftrightarrow>
      chain_intact sha (parsed (text_lines (utf8_decode b))) \<and>
      (\<exists>r rs. recs_of (chain_region (parsed (text_lines (utf8_decode b)))) = r # rs \<and>
         the (seq_of r) = 0 \<and> the (prev_of r) = CHAIN_GENESIS))"
proof -
  let ?ps = "parsed (text_lines (utf8_decode b))"
  have v: "case verify_lines sha verify_init 1 (text_lines (utf8_decode b)) of
      Inr st' \<Rightarrow> chain_intact sha ?ps \<and> st' = final_state sha ?ps
    | Inl r \<Rightarrow> \<not> chain_intact sha ?ps \<and> \<not> cr_ok r \<and> \<not> cr_anchored r"
    using verify_lines_chase
      [where sha = sha and st = verify_init and n = 1 and raws = "text_lines (utf8_decode b)"]
    by (auto simp: chase_init split: sum.splits if_splits)
  show ?thesis
  proof (cases "verify_lines sha verify_init 1 (text_lines (utf8_decode b))")
    case (Inl r)
    then show ?thesis using v by (simp add: verify_chain_def)
  next
    case (Inr st')
    then show ?thesis
      using v by (cases "chain_region ?ps")
        (auto simp: verify_chain_def final_state_def verify_finish_def verify_init_def
          plain_result_def Let_def)
  qed
qed

subsection \<open>What the logger writes\<close>

definition good_entry :: "record_fields \<Rightarrow> bool" where
  "good_entry e \<longleftrightarrow> wf_json True (JObj e) \<and>
     list_all (\<lambda>k. dget e (asc k) = None) [''seq'', ''prev'', ''chain'']"

definition hex_sha :: "(bytes \<Rightarrow> pystr) \<Rightarrow> bool" where
  "hex_sha sha \<longleftrightarrow> (\<forall>m. \<forall>c\<in>set (sha m). scalar c \<and> c \<noteq> 123)"

text \<open>The record \<open>_emit\<close> writes under chaining.\<close>

definition stamp :: "(bytes \<Rightarrow> pystr) \<Rightarrow> int \<Rightarrow> pystr \<Rightarrow> record_fields \<Rightarrow> record_fields" where
  "stamp sha s p e =
     (let e1 = dset (asc ''prev'') (JStr p) (dset (asc ''seq'') (JInt s) e)
      in dset (asc ''chain'') (JStr (chain_value sha p e1)) e1)"

lemma filter_dset_new:
  "dget d k = None \<Longrightarrow> filter (\<lambda>(k', v). k' \<noteq> k) (dset k v d) = d"
  by (induction d) (auto simp: map_of_eq_None_iff filter_id_conv split: if_splits)

lemma stamp_fields:
  assumes "good_entry e"
  shows "seq_of (stamp sha s p e) = Some s" "prev_of (stamp sha s p e) = Some p"
    "chain_of (stamp sha s p e) = Some (chain_step sha p (stamp sha s p e))"
proof -
  let ?e1 = "dset (asc ''prev'') (JStr p) (dset (asc ''seq'') (JInt s) e)"
  have "dget ?e1 (asc ''chain'') = None" using assms by (simp add: good_entry_def)
  then have b: "chain_body (stamp sha s p e) = ?e1"
    by (simp add: stamp_def Let_def chain_body_def filter_dset_new)
  show "seq_of (stamp sha s p e) = Some s" "prev_of (stamp sha s p e) = Some p"
    by (simp_all add: stamp_def Let_def seq_of_def prev_of_def)
  show "chain_of (stamp sha s p e) = Some (chain_step sha p (stamp sha s p e))"
    by (simp add: chain_step_def b) (simp add: stamp_def Let_def chain_of_def)
qed

lemma stamp_wf:
  assumes "good_entry e" "hex_sha sha" "\<forall>c\<in>set p. scalar c"
  shows "wf_json True (JObj (stamp sha s p e))"
  using assms scalar_asc
  by (simp add: stamp_def Let_def good_entry_def wf_members_update distinct_update hex_sha_def
      chain_value_def sha256_hex_def)

lemma chain_value_scalar: "hex_sha sha \<Longrightarrow> \<forall>c\<in>set (chain_step sha p r). scalar c"
  by (simp add: hex_sha_def chain_step_def chain_value_def sha256_hex_def)

lemma genesis_scalar: "\<forall>c\<in>set CHAIN_GENESIS. scalar c \<and> c \<noteq> 123"
  by (simp add: CHAIN_GENESIS_def scalar_low)

lemma final_chain_scalar:
  "hex_sha sha \<Longrightarrow> \<forall>c\<in>set p. scalar c \<Longrightarrow> \<forall>c\<in>set (final_chain sha p rs). scalar c"
proof (induction rs arbitrary: p)
  case Nil
  then show ?case by simp
next
  case (Cons r rs)
  show ?case
    using Cons.IH [OF Cons.prems(1) chain_value_scalar [OF Cons.prems(1), of p r]] by simp
qed

text \<open>A written line: printable scalar text that reads back.\<close>

lemma line_shape:
  assumes "wf_json True (JObj r)"
  shows "\<forall>c\<in>set (format_jsonl r). scalar c \<and> 32 \<le> c" "strip (format_jsonl r) = format_jsonl r"
    "format_jsonl r \<noteq> []" "loads (format_jsonl r) = Some (JObj r)"
proof -
  show "\<forall>c\<in>set (format_jsonl r). scalar c \<and> 32 \<le> c"
    using dumps_scalar(1) [OF scalar_fmts(1) assms] dumps_printable(1) [OF printable_fmts(1) assms]
    unfolding format_jsonl_def by blast
  have "format_jsonl r \<noteq> []" "hd (format_jsonl r) = 123" "last (format_jsonl r) = 125"
    by (simp_all add: format_jsonl_def)
  then show "format_jsonl r \<noteq> []" "strip (format_jsonl r) = format_jsonl r"
    using dropWhile_eq_self_iff [of is_space "format_jsonl r"]
      dropWhile_eq_self_iff [of is_space "rev (format_jsonl r)"]
    by (simp_all add: strip_def lstrip_def rstrip_def hd_rev is_space_def)
  show "loads (format_jsonl r) = Some (JObj r)"
    unfolding format_jsonl_def by (rule plain.dec_enc [OF wf_json_weaken(1) [OF assms]])
qed

lemma encode_backslashreplace_scalar:
  "\<forall>c\<in>set s. scalar c \<Longrightarrow> encode_backslashreplace s = utf8_encode s"
  by (induction s) (auto simp: encode_backslashreplace_def utf8_encode_Cons scalar_def)

definition log_text :: "record_fields list \<Rightarrow> pystr" where
  "log_text rs = concat (map (\<lambda>l. l @ [10]) (map format_jsonl rs))"

lemma log_text_simps [simp]:
  "log_text [] = []" "log_text (rs @ [r]) = log_text rs @ format_jsonl r @ [10]"
  by (simp_all add: log_text_def)

lemma universal_newlines_id: "13 \<notin> set s \<Longrightarrow> universal_newlines s = s"
  by (induction s) auto

lemma log_text_scalar:
  "\<forall>r\<in>set rs. wf_json True (JObj r) \<Longrightarrow> \<forall>c\<in>set (log_text rs). scalar c \<and> c \<noteq> 13"
proof (induction rs)
  case Nil
  then show ?case by simp
next
  case (Cons r rs)
  then show ?case using line_shape(1) [of r] by (auto simp: log_text_def scalar_low)
qed

lemma log_lines:
  assumes "\<forall>r\<in>set rs. wf_json True (JObj r)"
  shows "text_lines (utf8_decode (utf8_encode (log_text rs))) = map format_jsonl rs"
proof -
  have d: "utf8_decode (utf8_encode (log_text rs)) = log_text rs"
    using log_text_scalar [OF assms] by (intro decode_encode) blast
  have u: "universal_newlines (log_text rs) = log_text rs"
    using log_text_scalar [OF assms] by (intro universal_newlines_id) blast
  have "\<forall>l\<in>set (map format_jsonl rs). 10 \<notin> set l" using line_shape(1) assms by fastforce
  then have "split_on 10 (log_text rs) = map format_jsonl rs @ [[]]"
    unfolding log_text_def by (rule split_on_lines)
  then show ?thesis by (simp add: d u text_lines_def)
qed

lemma log_parsed:
  assumes "\<forall>r\<in>set rs. wf_json True (JObj r)"
  shows "parsed (text_lines (utf8_decode (utf8_encode (log_text rs)))) = map (\<lambda>r. Some (JObj r)) rs"
proof -
  have "filter (\<lambda>l. l \<noteq> []) (map strip (map format_jsonl rs)) = map format_jsonl rs"
    using assms line_shape(2,3) by (induction rs) simp_all
  moreover have "map loads (map format_jsonl rs) = map (\<lambda>r. Some (JObj r)) rs"
    using assms line_shape(4) by simp
  ultimately show ?thesis by (simp only: log_lines [OF assms] parsed_def)
qed

text \<open>The state of a logger whose file holds the chain \<open>rs\<close> from the anchor \<open>p\<close>, \<open>s\<close>.\<close>

definition holds_chain ::
  "(bytes \<Rightarrow> pystr) \<Rightarrow> pystr \<Rightarrow> int \<Rightarrow> record_fields list \<Rightarrow> audit \<Rightarrow> bool" where
  "holds_chain sha p s rs au \<longleftrightarrow>
     au_format au = asc ''jsonl'' \<and> au_chain au \<and> au_to_file au \<and>
     au_disk au = utf8_encode (log_text rs) \<and> (\<forall>r\<in>set rs. wf_json True (JObj r)) \<and>
     linked sha p s rs \<and> au_seq au = s + int (length rs) \<and> au_prev au = final_chain sha p rs"

lemma emit_holds_chain:
  assumes "holds_chain sha p s rs au" "good_entry e" "hex_sha sha" "\<forall>c\<in>set p. scalar c"
  defines "r \<equiv> stamp sha (au_seq au) (au_prev au) e"
  shows "holds_chain sha p s (rs @ [r]) (emit sha True e au)"
proof -
  have h: "au_format au = asc ''jsonl''" "au_chain au" "au_to_file au"
      "au_disk au = utf8_encode (log_text rs)" "\<forall>r\<in>set rs. wf_json True (JObj r)"
      "linked sha p s rs" "au_seq au = s + int (length rs)" "au_prev au = final_chain sha p rs"
    using assms(1) by (simp_all add: holds_chain_def)
  have wf: "wf_json True (JObj r)"
    unfolding r_def using final_chain_scalar [OF assms(3,4)] h(8)
    by (intro stamp_wf [OF assms(2,3)]) simp
  note f = stamp_fields [OF assms(2), of sha "au_seq au" "au_prev au", folded r_def]
  have step: "chain_of r = Some (chain_value sha (au_prev au)
      (dset (asc ''prev'') (JStr (au_prev au)) (dset (asc ''seq'') (JInt (au_seq au)) e)))"
    by (simp add: r_def stamp_def Let_def chain_of_def)
  have line: "encode_backslashreplace (format_jsonl r @ [10]) = utf8_encode (format_jsonl r @ [10])"
    using line_shape(1) [OF wf] by (intro encode_backslashreplace_scalar) (auto simp: scalar_low)
  have "emit sha True e au = au\<lparr>au_disk := au_disk au @ utf8_encode (format_jsonl r @ [10]),
      au_seq := au_seq au + 1, au_prev := the (chain_of r)\<rparr>"
    using h(1-3) line step
    by (simp add: emit_def Let_def log_line_def formatter_def r_def stamp_def)
  then show ?thesis
    using h wf f by (auto simp: holds_chain_def linked_snoc utf8_encode_append)
qed

subsection \<open>Reading the last lines back\<close>

lemma tail_read_suffix:
  assumes "offset \<le> length file"
  shows "\<exists>k. tail_read file n offset (drop offset file) = drop k file \<and>
    (k = 0 \<or> n < count_list (drop k file) 10)"
  using assms
proof (induction offset rule: less_induct)
  case (less offset)
  show ?case
  proof (cases "offset > 0 \<and> count_list (drop offset file) 10 \<le> n")
    case False
    then have "tail_read file n offset (drop offset file) = drop offset file"
      by (subst tail_read.simps) auto
    then show ?thesis using False by auto
  next
    case True
    define rd where "rd = min CHUNK offset"
    have rd: "rd \<le> offset" by (simp add: rd_def)
    have more: "take rd (drop (offset - rd) file) @ drop offset file = drop (offset - rd) file"
      using append_take_drop_id [of rd "drop (offset - rd) file"] rd by (simp add: add.commute)
    have "tail_read file n offset (drop offset file)
        = tail_read file n (offset - rd) (drop (offset - rd) file)"
      using True more by (subst tail_read.simps) (simp add: Let_def rd_def)
    moreover have "0 < rd" using True by (simp add: rd_def CHUNK_def)
    then have "\<exists>k. tail_read file n (offset - rd) (drop (offset - rd) file) = drop k file \<and>
        (k = 0 \<or> n < count_list (drop k file) 10)"
      using True less(2) by (intro less(1)) simp_all
    ultimately show ?thesis by simp
  qed
qed

text \<open>A suffix of a file of lines is a partial line and then whole lines.\<close>

lemma suffix_of_lines:
  assumes "\<forall>e\<in>set es. (10::nat) \<notin> set e"
  shows "\<exists>x j. j \<le> length es \<and> (drop k (concat (map (\<lambda>e. e @ [10]) es))
      = x @ concat (map (\<lambda>e. e @ [10]) (drop j es))) \<and>
     (x = [] \<or> (\<exists>y. x = y @ [10] \<and> 10 \<notin> set y))"
  using assms
proof (induction es arbitrary: k)
  case Nil
  then show ?case by simp
next
  case (Cons e es)
  show ?case
  proof (cases "k \<le> length e")
    case True
    then have "drop k (concat (map (\<lambda>e. e @ [10]) (e # es)))
        = (drop k e @ [10]) @ concat (map (\<lambda>e. e @ [10]) (drop 1 (e # es)))" by simp
    moreover have "10 \<notin> set (drop k e)" using Cons.prems set_drop_subset [of k e] by auto
    ultimately show ?thesis by (intro exI [of _ "drop k e @ [10]"] exI [of _ 1]) auto
  next
    case False
    then have "k - length e = Suc (k - Suc (length e))" by simp
    then have "drop k (concat (map (\<lambda>e. e @ [10]) (e # es)))
        = drop (k - Suc (length e)) (concat (map (\<lambda>e. e @ [10]) es))"
      using False by simp
    moreover obtain x j where xj: "j \<le> length es"
        "drop (k - Suc (length e)) (concat (map (\<lambda>e. e @ [10]) es))
           = x @ concat (map (\<lambda>e. e @ [10]) (drop j es))"
        "x = [] \<or> (\<exists>y. x = y @ [10] \<and> 10 \<notin> set y)"
      using Cons.IH [of "k - Suc (length e)"] Cons.prems by auto
    ultimately have "drop k (concat (map (\<lambda>e. e @ [10]) (e # es)))
        = x @ concat (map (\<lambda>e. e @ [10]) (drop (Suc j) (e # es)))" by (simp only: drop_Suc_Cons)
    moreover have "Suc j \<le> length (e # es)" using xj(1) by simp
    ultimately show ?thesis using xj(3) by blast
  qed
qed

lemma count_lines:
  "\<forall>e\<in>set es. (10::nat) \<notin> set e \<Longrightarrow> count_list (concat (map (\<lambda>e. e @ [10]) es)) 10 = length es"
  by (induction es) (simp_all add: count_notin)

lemma utf8_encode_lines:
  "utf8_encode (concat (map (\<lambda>l. l @ [10]) ls)) = concat (map (\<lambda>e. e @ [10]) (map utf8_encode ls))"
  by (induction ls) (simp_all add: utf8_encode_append utf8_encode_Cons encode_char_ascii)

lemma utf8_no_lf: "10 \<notin> set l \<Longrightarrow> 10 \<notin> set (utf8_encode l)"
  by (induction l) (auto simp: utf8_encode_Cons encode_char_def is_surrogate_def split: if_splits)

lemma last_n_append: "n \<le> length ys \<Longrightarrow> last_n n (xs @ ys) = last_n n ys"
  by (simp add: last_n_def)

definition plain_line :: "pystr \<Rightarrow> bool" where
  "plain_line l \<longleftrightarrow> (\<forall>c\<in>set l. scalar c) \<and> 10 \<notin> set l \<and> strip l \<noteq> []"

lemma split_lines_tail:
  assumes "\<forall>l\<in>set ls. plain_line l"
  shows "filter (\<lambda>l. strip l \<noteq> []) (split_on 10 (utf8_decode
     (utf8_encode (concat (map (\<lambda>l. l @ [10]) ls))))) = ls"
proof -
  have "utf8_decode (utf8_encode (concat (map (\<lambda>l. l @ [10]) ls)))
      = concat (map (\<lambda>l. l @ [10]) ls)"
    using assms by (intro decode_encode) (auto simp: plain_line_def scalar_low)
  moreover have "split_on 10 (concat (map (\<lambda>l. l @ [10]) ls)) = ls @ [[]]"
    using assms by (intro split_on_lines) (auto simp: plain_line_def)
  moreover have "filter (\<lambda>l. strip l \<noteq> []) ls = ls"
    using assms by (auto simp: plain_line_def filter_id_conv)
  ultimately show ?thesis by (simp add: strip_def lstrip_def rstrip_def)
qed

lemma tail_path_lines:
  assumes "\<forall>l\<in>set ls. plain_line l"
  shows "tail_path (Plain (utf8_encode (concat (map (\<lambda>l. l @ [10]) ls)))) (int n)
           = join [10] (last_n n ls)"
proof (cases "n = 0 \<or> ls = []")
  case True
  then show ?thesis by (auto simp: tail_path_def last_n_def)
next
  case False
  let ?es = "map utf8_encode ls"
  let ?file = "concat (map (\<lambda>e. e @ [10]) ?es)"
  have no: "\<forall>e\<in>set ?es. 10 \<notin> set e" using assms utf8_no_lf by (auto simp: plain_line_def)
  obtain k where k: "tail_read ?file n (length ?file) [] = drop k ?file"
      "k = 0 \<or> n < count_list (drop k ?file) 10"
    using tail_read_suffix [of "length ?file" ?file n] by auto
  obtain x j where xj: "j \<le> length ?es"
      "drop k ?file = x @ concat (map (\<lambda>e. e @ [10]) (drop j ?es))"
      "x = [] \<or> (\<exists>y. x = y @ [10] \<and> 10 \<notin> set y)"
    using suffix_of_lines [OF no, of k] by blast
  let ?keep = "\<lambda>t. filter (\<lambda>l. strip l \<noteq> []) (split_on 10 (utf8_decode t))"
  have rest: "concat (map (\<lambda>e. e @ [10]) (drop j ?es))
      = utf8_encode (concat (map (\<lambda>l. l @ [10]) (drop j ls)))"
    by (simp add: utf8_encode_lines drop_map)
  have keep_rest: "?keep (concat (map (\<lambda>e. e @ [10]) (drop j ?es))) = drop j ls"
    unfolding rest using assms by (intro split_lines_tail) (meson in_set_dropD)
  have all: "?keep ?file = ls"
    using split_lines_tail [OF assms] by (simp add: utf8_encode_lines)
  have "last_n n (?keep (drop k ?file)) = last_n n ls"
  proof (cases "k = 0")
    case True
    then show ?thesis using all by simp
  next
    case False
    have "\<forall>e\<in>set (drop j ?es). 10 \<notin> set e" using no by (meson in_set_dropD)
    note cnt = count_lines [OF this]
    show ?thesis
    proof (cases "x = []")
      case True
      then have "n < length (drop j ls)" using False k(2) xj(2) cnt by simp
      then have "last_n n (drop j ls) = last_n n ls"
        using last_n_append [of n "drop j ls" "take j ls"] by simp
      then show ?thesis using True xj(2) keep_rest by simp
    next
      case F: False
      then obtain y where y: "x = y @ [10]" "10 \<notin> set y" using xj(3) by blast
      then have "n \<le> length (drop j ls)" using False k(2) xj(2) cnt by (simp add: count_notin)
      moreover have "drop k ?file = y @ 10 # concat (map (\<lambda>e. e @ [10]) (drop j ?es))"
        using xj(2) y(1) by (simp only: append_assoc append_Cons append_Nil)
      then have "?keep (drop k ?file) = ?keep y @ drop j ls"
        using keep_rest by (simp only: decode_ascii_split split_on_append filter_append)
      moreover have "last_n n ls = last_n n (drop j ls)"
        using calculation(1) last_n_append [of n "drop j ls" "take j ls"] by simp
      ultimately show ?thesis by (simp only: last_n_append)
    qed
  qed
  moreover have "?file \<noteq> []" using False by simp
  ultimately show ?thesis
    using False k(1) by (simp add: tail_path_def utf8_encode_lines Let_def)
qed

subsection \<open>Restarts and rotation\<close>

lemma log_line_plain: "wf_json True (JObj r) \<Longrightarrow> plain_line (format_jsonl r)"
  using line_shape [of r] by (auto simp: plain_line_def)

lemma rstrip_eol_line: "wf_json True (JObj r) \<Longrightarrow> rstrip_eol (format_jsonl r) = format_jsonl r"
  using dropWhile_eq_self_iff [of "\<lambda>c. c = 13 \<or> c = 10" "rev (format_jsonl r)"]
  by (simp add: rstrip_eol_def format_jsonl_def)

lemma tail_of_log:
  assumes "\<forall>r\<in>set (rs @ [r]). wf_json True (JObj r)"
  shows "strip (tail_path (Plain (utf8_encode (log_text (rs @ [r])))) 1) = format_jsonl r"
    and "strip (tail_path (Gz (log_text (rs @ [r]))) 1) = format_jsonl r"
proof -
  let ?ls = "map format_jsonl (rs @ [r])"
  have wf: "wf_json True (JObj r)" using assms by simp
  have one: "last_n (Suc 0) ?ls = [format_jsonl r]" by (simp add: last_n_def)
  have "\<forall>l\<in>set ?ls. plain_line l" using assms log_line_plain by (simp add: ball_Un)
  then have "tail_path (Plain (utf8_encode (log_text (rs @ [r])))) (int (Suc 0)) = format_jsonl r"
    unfolding log_text_def using one by (simp only: tail_path_lines join.simps)
  then show "strip (tail_path (Plain (utf8_encode (log_text (rs @ [r])))) 1) = format_jsonl r"
    using line_shape(2) [OF wf] by simp
  have d: "utf8_decode (utf8_encode (log_text (rs @ [r]))) = log_text (rs @ [r])"
    using log_text_scalar [OF assms] by (intro decode_encode) blast
  have "text_lines (log_text (rs @ [r])) = ?ls" using log_lines [OF assms] by (simp only: d)
  moreover have "filter (\<lambda>l. strip l \<noteq> []) ?ls = ?ls"
    using assms line_shape(2,3) by (auto simp: filter_id_conv)
  moreover have "map rstrip_eol ?ls = ?ls" using assms rstrip_eol_line by simp
  ultimately have "tail_path (Gz (log_text (rs @ [r]))) 1 = format_jsonl r"
    using one by (simp only: tail_path_def segment.case) simp
  then show "strip (tail_path (Gz (log_text (rs @ [r]))) 1) = format_jsonl r"
    using line_shape(2) [OF wf] by simp
qed

text \<open>Resuming from a text whose last line is a chained record.\<close>

lemma resume_from:
  assumes "linked sha p s (rs @ [r])" "wf_json True (JObj r)"
    "au_disk au \<noteq> [] \<longrightarrow> strip (tail_path (Plain (au_disk au)) 1) = format_jsonl r"
    "au_disk au = [] \<longrightarrow> (\<exists>d. latest_rotated_path target entries = Some d \<and>
        strip (tail_path (d_seg d) 1) = format_jsonl r)"
  shows "resume_chain target entries au
    = au\<lparr>au_seq := s + int (length (rs @ [r])), au_prev := final_chain sha p (rs @ [r])\<rparr>"
proof -
  have "is_chained (JObj r)" using linked_chained [OF assms(1)] by simp
  moreover have "seq_of r = Some (s + int (length rs))"
      "chain_of r = Some (final_chain sha p (rs @ [r]))"
    using assms(1) by (simp_all add: linked_snoc)
  moreover have "tail_path (Plain []) 1 = []" by (simp add: tail_path_def)
  moreover have "strip [] = []" by (simp add: strip_def lstrip_def rstrip_def)
  ultimately show ?thesis
    using assms(3,4) line_shape(3,4) [OF assms(2)]
    by (cases "au_disk au = []")
       (auto simp: resume_chain_def Let_def algebra_simps simp del: is_chained.simps)
qed

lemma init_holds_chain:
  "holds_chain sha CHAIN_GENESIS 0 [] (audit_init (asc ''jsonl'') True None [] target [])"
  by (simp add: holds_chain_def audit_init_def Let_def resume_chain_def tail_path_def
      latest_rotated_path_def strip_def lstrip_def rstrip_def)

lemma restart_holds_chain:
  assumes "holds_chain sha CHAIN_GENESIS 0 rs au"
  shows "holds_chain sha CHAIN_GENESIS 0 rs
    (audit_init (au_format au) (au_chain au) None (au_disk au) target [])"
proof (cases rs rule: rev_cases)
  case Nil
  then show ?thesis using assms init_holds_chain [of sha target] by (simp add: holds_chain_def)
next
  case (snoc qs r)
  have "au_disk au \<noteq> []"
    using assms snoc by (simp add: holds_chain_def utf8_encode_append utf8_encode_Cons)
  moreover have "strip (tail_path (Plain (au_disk au)) 1) = format_jsonl r"
    using assms snoc tail_of_log(1) [of qs r] by (simp add: holds_chain_def)
  ultimately show ?thesis
    using assms snoc resume_from [of sha CHAIN_GENESIS 0 qs r]
    by (simp add: holds_chain_def audit_init_def Let_def)
qed

datatype log_event = Record record_fields | Restart

fun log_step :: "(bytes \<Rightarrow> pystr) \<Rightarrow> audit \<Rightarrow> log_event \<Rightarrow> audit" where
  "log_step sha au (Record e) = emit sha True e au"
| "log_step sha au Restart =
     audit_init (au_format au) (au_chain au) None (au_disk au) (asc ''audit.jsonl'') []"

definition fresh_log :: audit where
  "fresh_log = audit_init (asc ''jsonl'') True None [] (asc ''audit.jsonl'') []"

definition is_record :: "log_event \<Rightarrow> bool" where
  "is_record ev \<longleftrightarrow> (case ev of Record e \<Rightarrow> True | Restart \<Rightarrow> False)"

definition good_event :: "log_event \<Rightarrow> bool" where
  "good_event ev \<longleftrightarrow> (case ev of Record e \<Rightarrow> good_entry e | Restart \<Rightarrow> True)"

lemma run_holds_chain:
  assumes "hex_sha sha"
  shows "holds_chain sha CHAIN_GENESIS 0 rs au \<Longrightarrow> \<forall>ev\<in>set es. good_event ev \<Longrightarrow>
     \<exists>rs'. holds_chain sha CHAIN_GENESIS 0 rs' (run (log_step sha) au es) \<and>
       length rs' = length rs + length (filter is_record es)"
proof (induction es arbitrary: au rs)
  case Nil
  then show ?case by auto
next
  case (Cons ev es)
  show ?case
  proof (cases ev)
    case (Record e)
    have h: "holds_chain sha CHAIN_GENESIS 0 (rs @ [stamp sha (au_seq au) (au_prev au) e])
        (emit sha True e au)"
      using Cons.prems Record genesis_scalar
      by (intro emit_holds_chain [OF _ _ assms]) (auto simp: good_event_def)
    show ?thesis using Cons.IH [OF h] Cons.prems(2) Record by (simp add: is_record_def)
  next
    case Restart
    then show ?thesis
      using Cons.IH [OF restart_holds_chain [OF Cons.prems(1)]] Cons.prems(2)
      by (simp add: is_record_def)
  qed
qed

lemma linked_intact:
  assumes "linked sha CHAIN_GENESIS 0 rs"
  shows "chain_region (map (\<lambda>r. Some (JObj r)) rs) = map (\<lambda>r. Some (JObj r)) rs"
    and "recs_of (map (\<lambda>r. Some (JObj r)) rs) = rs"
    and "chain_intact sha (map (\<lambda>r. Some (JObj r)) rs)"
proof -
  have a: "\<forall>r\<in>set rs. as_record (Some (JObj r)) = Some r"
    using linked_chained [OF assms] by (simp add: as_record_def)
  then show region: "chain_region (map (\<lambda>r. Some (JObj r)) rs) = map (\<lambda>r. Some (JObj r)) rs"
    by (cases rs) (simp_all add: chain_region_def)
  show recs: "recs_of (map (\<lambda>r. Some (JObj r)) rs) = rs"
    using a by (induction rs) simp_all
  show "chain_intact sha (map (\<lambda>r. Some (JObj r)) rs)"
    unfolding chain_intact_def region recs Let_def
    using a assms by (cases rs) (auto simp: list_all_iff)
qed

lemma log_verified:
  assumes "hex_sha sha" "\<forall>ev\<in>set es. good_event ev"
    and R: "R = verify_chain sha path (Contents (au_disk (run (log_step sha) fresh_log es)) None)"
  shows "cr_ok R \<and> cr_records R = length (filter is_record es) \<and>
    (cr_anchored R \<longleftrightarrow> (\<exists>ev\<in>set es. is_record ev))"
proof -
  obtain rs where h: "holds_chain sha CHAIN_GENESIS 0 rs (run (log_step sha) fresh_log es)"
      "length rs = length (filter is_record es)"
    using run_holds_chain [OF assms(1) init_holds_chain assms(2)] by (auto simp: fresh_log_def)
  have wf: "\<forall>r\<in>set rs. wf_json True (JObj r)" and l: "linked sha CHAIN_GENESIS 0 rs"
      and disk: "au_disk (run (log_step sha) fresh_log es) = utf8_encode (log_text rs)"
    using h(1) by (simp_all add: holds_chain_def)
  let ?ps = "parsed (text_lines (utf8_decode (au_disk (run (log_step sha) fresh_log es))))"
  have ps: "?ps = map (\<lambda>r. Some (JObj r)) rs" by (simp only: disk log_parsed [OF wf])
  note i = linked_intact [OF l]
  have "(\<exists>r rs'. recs_of (chain_region ?ps) = r # rs' \<and>
      the (seq_of r) = 0 \<and> the (prev_of r) = CHAIN_GENESIS) \<longleftrightarrow> rs \<noteq> []"
    unfolding ps i(1,2) using l by (cases rs) auto
  moreover have "chain_intact sha ?ps" "length (chain_region ?ps) = length (filter is_record es)"
    unfolding ps i(1) using i(3) h(2) by simp_all
  moreover have "rs \<noteq> [] \<longleftrightarrow> (\<exists>ev\<in>set es. is_record ev)"
    using h(2) by (metis filter_empty_conv length_0_conv)
  ultimately show ?thesis
    using verify_chain_iff [of sha path "au_disk (run (log_step sha) fresh_log es)"
        "length (filter is_record es)"]
    unfolding R by simp
qed

text \<open>C9: The log the server writes verifies. After any sequence of records and restarts of a
  chaining logger on its file, the verifier accepts the file, counts exactly the records that
  were appended, and reports it anchored at genesis as soon as there is one.\<close>

theorem log_verifies:
  assumes "hex_sha sha" "\<forall>ev\<in>set es. good_event ev"
    and R: "R = verify_chain sha path (Contents (au_disk (run (log_step sha) fresh_log es)) None)"
  shows "cr_ok R \<and> cr_records R = length (filter is_record es) \<and>
    (cr_anchored R \<longleftrightarrow> (\<exists>ev\<in>set es. is_record ev))"
  using assms(1,2) unfolding R by (rule log_verified [OF _ _ refl])

text \<open>A small hash for concrete runs: 64 digits that depend on the message length.\<close>

definition sample_sha :: "bytes \<Rightarrow> pystr" where
  "sample_sha m = replicate 64 (48 + length m mod 10)"

lemma sample_sha_hex [simp]: "hex_sha sample_sha"
  by (auto simp: hex_sha_def sample_sha_def intro: scalar_low)

theorem log_verifies_witness:
  "\<exists>R. R = verify_chain sample_sha (asc ''p'') (Contents (au_disk (run (log_step sample_sha) fresh_log
      [Record [(asc ''tool'', JStr (asc ''x''))], Restart, Record []])) None) \<and>
     cr_ok R \<and> cr_records R = 2 \<and> cr_anchored R"
proof (intro exI conjI)
  let ?es = "[Record [(asc ''tool'', JStr (asc ''x''))], Restart, Record []]"
  have "\<forall>ev\<in>set ?es. good_event ev"
    using scalar_asc by (simp add: good_event_def good_entry_def)
  note w = log_verifies [OF sample_sha_hex this refl]
  show "cr_ok (verify_chain sample_sha (asc ''p'')
      (Contents (au_disk (run (log_step sample_sha) fresh_log ?es)) None))"
    "cr_records (verify_chain sample_sha (asc ''p'')
      (Contents (au_disk (run (log_step sample_sha) fresh_log ?es)) None)) = 2"
    "cr_anchored (verify_chain sample_sha (asc ''p'')
      (Contents (au_disk (run (log_step sample_sha) fresh_log ?es)) None))"
    using w [of "asc ''p''"] by (auto simp: is_record_def)
qed simp

text \<open>The chain continues across rotation. A logger that starts on an empty active file
  whose newest rotated sibling, plain or compressed, is the log written so far continues with
  the next sequence number from the last chain value.\<close>

theorem rotation_seam:
  assumes "hex_sha sha" "\<forall>ev\<in>set es. good_event ev" "\<exists>ev\<in>set es. is_record ev"
    and "latest_rotated_path target entries = Some d"
    and "d_seg d = Plain (au_disk (run (log_step sha) fresh_log es)) \<or>
         d_seg d = Gz (utf8_decode (au_disk (run (log_step sha) fresh_log es)))"
  shows "audit_init (asc ''jsonl'') True None [] target entries
    = (run (log_step sha) fresh_log es)
        \<lparr>au_disk := [], au_degraded := False, au_reason := []\<rparr>"
proof -
  let ?au = "run (log_step sha) fresh_log es"
  obtain rs where h: "holds_chain sha CHAIN_GENESIS 0 rs ?au"
      "length rs = length (filter is_record es)"
    using run_holds_chain [OF assms(1) init_holds_chain assms(2)] by (auto simp: fresh_log_def)
  have "rs \<noteq> []" using h(2) assms(3) by (metis filter_empty_conv length_0_conv)
  then obtain qs r where rs: "rs = qs @ [r]" by (cases rs rule: rev_cases) auto
  have wf: "\<forall>r\<in>set rs. wf_json True (JObj r)" and l: "linked sha CHAIN_GENESIS 0 rs"
      and disk: "au_disk ?au = utf8_encode (log_text rs)"
    using h(1) by (simp_all add: holds_chain_def)
  have "utf8_decode (au_disk ?au) = log_text rs"
    unfolding disk using log_text_scalar [OF wf] by (intro decode_encode) blast
  then have "strip (tail_path (d_seg d) 1) = format_jsonl r"
    using assms(5) tail_of_log [of qs r] wf rs disk by auto
  then have "resume_chain target entries au1 = au1\<lparr>au_seq := int (length rs),
      au_prev := final_chain sha CHAIN_GENESIS rs\<rparr>" if "au_disk au1 = []" for au1
    using resume_from [of sha CHAIN_GENESIS 0 qs r au1 target entries] that assms(4) l wf rs by auto
  then show ?thesis
    using h(1) by (simp add: audit_init_def Let_def holds_chain_def)
qed

theorem rotation_seam_witness:
  "audit_init (asc ''jsonl'') True None [] (asc ''a'')
     [\<lparr>d_mtime = 7, d_name = asc ''a-1'', d_file = True,
       d_seg = Plain (au_disk (run (log_step sample_sha) fresh_log [Record []]))\<rparr>]
    = (run (log_step sample_sha) fresh_log [Record []])
        \<lparr>au_disk := [], au_degraded := False, au_reason := []\<rparr>"
  by (rule rotation_seam [where d = "\<lparr>d_mtime = 7, d_name = asc ''a-1'', d_file = True,
       d_seg = Plain (au_disk (run (log_step sample_sha) fresh_log [Record []]))\<rparr>"])
     (simp_all add: good_event_def good_entry_def is_record_def latest_rotated_path_def
        is_rotated_name_def Let_def asc_def ends_with_def is_digit_def)

subsection \<open>Tamper evidence\<close>

text \<open>The chained records of a file.\<close>

definition chain_records :: "bytes \<Rightarrow> record_fields list" where
  "chain_records b = recs_of (chain_region (parsed (text_lines (utf8_decode b))))"

text \<open>The texts the chain hashes, from the anchor \<open>p\<close> on.\<close>

fun messages :: "(bytes \<Rightarrow> pystr) \<Rightarrow> pystr \<Rightarrow> record_fields list \<Rightarrow> pystr list" where
  "messages sha p [] = []"
| "messages sha p (r # rs) =
     (p @ canonical_json (JObj (chain_body r))) # messages sha (chain_step sha p r) rs"

definition same_body :: "record_fields \<Rightarrow> record_fields \<Rightarrow> bool" where
  "same_body r r' \<longleftrightarrow> sort_json (JObj (chain_body r)) = sort_json (JObj (chain_body r'))"

lemma messages_snoc:
  "messages sha p (rs @ [r]) =
     messages sha p rs @ [final_chain sha p rs @ canonical_json (JObj (chain_body r))]"
  by (induction rs arbitrary: p) simp_all

lemma wf_members_filter: "wf_members a kvs \<Longrightarrow> wf_members a (filter P kvs)"
  by (induction kvs) auto

lemma wf_body: "wf_json a (JObj r) \<Longrightarrow> wf_json a (JObj (chain_body r))"
  by (simp add: chain_body_def wf_members_filter distinct_map_filter)

lemma as_int_sort: "as_int (map_option sort_json v) = as_int v"
  by (cases v; cases "the v") auto

lemma seq_of_body: "wf_json a (JObj r) \<Longrightarrow> seq_of (chain_body r) = seq_of r"
  unfolding seq_of_def chain_body_def
  by (subst dget_filter) (auto simp: dwf_def split: option.splits)

lemma same_body_seq:
  assumes "same_body r r'" "wf_json a (JObj r)" "wf_json a (JObj r')"
  shows "seq_of r = seq_of r'"
proof -
  have "map_option sort_json (dget (chain_body r) (asc ''seq''))
      = map_option sort_json (dget (chain_body r') (asc ''seq''))"
    using assms(1) wf_body [OF assms(2)] wf_body [OF assms(3)] unfolding same_body_def
    by (intro sort_json_obj_eq) simp_all
  then have "seq_of (chain_body r) = seq_of (chain_body r')"
    unfolding seq_of_def by (metis as_int_sort)
  then show ?thesis using seq_of_body assms(2,3) by metis
qed

lemma final_chain_no_brace:
  "hex_sha sha \<Longrightarrow> 123 \<notin> set p \<Longrightarrow> 123 \<notin> set (final_chain sha p rs)"
proof (induction rs arbitrary: p)
  case Nil
  then show ?case by simp
next
  case (Cons r rs)
  have "123 \<notin> set (chain_step sha p r)"
    using Cons.prems(1) by (auto simp: hex_sha_def chain_step_def chain_value_def sha256_hex_def)
  then show ?case using Cons.IH Cons.prems(1) by simp
qed

text \<open>The chain value after a record determines the record and the chain value before it.\<close>

lemma last_link:
  assumes "hex_sha sha" "123 \<notin> set p" "123 \<notin> set p'"
    and "chain_step sha p r = chain_step sha p' r'"
    and "wf_json False (JObj r)" "wf_json False (JObj r')"
    and scal: "\<forall>c\<in>set (p @ canonical_json (JObj (chain_body r))). scalar c"
      "\<forall>c\<in>set (p' @ canonical_json (JObj (chain_body r'))). scalar c"
    and coll: "sha (utf8_encode (p @ canonical_json (JObj (chain_body r))))
      = sha (utf8_encode (p' @ canonical_json (JObj (chain_body r')))) \<Longrightarrow>
      utf8_encode (p @ canonical_json (JObj (chain_body r)))
      = utf8_encode (p' @ canonical_json (JObj (chain_body r')))"
  shows "p = p' \<and> same_body r r'"
proof -
  have "utf8_encode (p @ canonical_json (JObj (chain_body r)))
      = utf8_encode (p' @ canonical_json (JObj (chain_body r')))"
    by (rule coll) (use assms(4) in \<open>simp add: chain_step_def chain_value_def sha256_hex_def\<close>)
  then have eq: "p @ canonical_json (JObj (chain_body r)) = p' @ canonical_json (JObj (chain_body r'))"
    by (rule utf8_encode_inj [OF scal])
  obtain t t' where t: "canonical_json (JObj (chain_body r)) = 123 # t"
      "canonical_json (JObj (chain_body r')) = 123 # t'"
    using canonical_obj by blast
  have "p = p' \<and> t = t'"
    using eq assms(2,3) unfolding t by (intro sep_split_first) simp_all
  then have "p = p'" "canonical_json (JObj (chain_body r)) = canonical_json (JObj (chain_body r'))"
    by (simp_all add: t)
  then show ?thesis
    unfolding same_body_def using canonical_inj wf_body assms(5,6) by blast
qed

definition no_collision :: "(bytes \<Rightarrow> pystr) \<Rightarrow> pystr list \<Rightarrow> pystr list \<Rightarrow> bool" where
  "no_collision sha ms ms' \<longleftrightarrow>
     (\<forall>x\<in>set ms. \<forall>y\<in>set ms'. sha (utf8_encode x) = sha (utf8_encode y) \<longrightarrow>
       utf8_encode x = utf8_encode y)"

definition scalar_texts :: "pystr list \<Rightarrow> bool" where
  "scalar_texts ms \<longleftrightarrow> list_all (list_all scalar) ms"

lemma chain_determines:
  assumes "hex_sha sha" "123 \<notin> set p"
  shows "linked sha p s rs \<Longrightarrow> linked sha p s rs' \<Longrightarrow>
     \<forall>r\<in>set (rs @ rs'). wf_json False (JObj r) \<Longrightarrow>
     scalar_texts (messages sha p rs @ messages sha p rs') \<Longrightarrow>
     no_collision sha (messages sha p rs) (messages sha p rs') \<Longrightarrow>
     rs \<noteq> [] \<and> rs' \<noteq> [] \<or> length rs = length rs' \<Longrightarrow>
     final_chain sha p rs = final_chain sha p rs' \<Longrightarrow> list_all2 same_body rs rs'"
proof (induction rs arbitrary: rs' rule: rev_induct)
  case Nil
  then show ?case by auto
next
  case (snoc r rs)
  then obtain qs q where q: "rs' = qs @ [q]" by (cases rs' rule: rev_cases) auto
  note nb = final_chain_no_brace [OF assms(1,2)]
  have "final_chain sha p rs = final_chain sha p qs \<and> same_body r q"
  proof (rule last_link [OF assms(1) nb nb])
    show "chain_step sha (final_chain sha p rs) r = chain_step sha (final_chain sha p qs) q"
      using snoc.prems(7) by (simp add: q)
  qed (use snoc.prems(3-5) in \<open>auto simp: q messages_snoc scalar_texts_def no_collision_def
        list_all_iff\<close>)
  then have eq: "final_chain sha p rs = final_chain sha p qs" "same_body r q" by simp_all
  have "seq_of r = seq_of q" using eq(2) snoc.prems(3) q by (intro same_body_seq) auto
  then have "length rs = length qs" using snoc.prems(1,2) q by (auto simp: linked_snoc)
  then have "list_all2 same_body rs qs"
    using snoc.prems eq(1) q
    by (intro snoc.IH) (auto simp: linked_snoc messages_snoc scalar_texts_def no_collision_def)
  then show ?case using eq(2) q by (simp add: list_all2_appendI)
qed

lemma chain_records_wf:
  assumes "chain_intact sha (parsed (text_lines (utf8_decode b)))"
  shows "\<forall>r\<in>set (chain_records b). wf_json False (JObj r)"
proof
  fix r assume "r \<in> set (chain_records b)"
  then obtain p where p: "p \<in> set (chain_region (parsed (text_lines (utf8_decode b))))"
      "r = the (as_record p)"
    by (auto simp: chain_records_def)
  then have "as_record p \<noteq> None"
    using assms by (auto simp: chain_intact_def Let_def list_all_iff)
  then have "p = Some (JObj r)"
    using p(2) by (auto simp: as_record_def split: option.splits json.splits if_splits)
  moreover have "p \<in> set (parsed (text_lines (utf8_decode b)))"
    using p(1) set_dropWhileD unfolding chain_region_def by metis
  ultimately have "\<exists>l. loads l = Some (JObj r)" by (auto simp: parsed_def)
  then show "wf_json False (JObj r)" using loads_wf by blast
qed

lemma anchored_records:
  assumes "cr_anchored (verify_chain sha path (Contents b None))"
  shows "linked sha CHAIN_GENESIS 0 (chain_records b)" "chain_records b \<noteq> []"
    "\<forall>r\<in>set (chain_records b). wf_json False (JObj r)"
proof -
  have a: "chain_intact sha (parsed (text_lines (utf8_decode b)))"
      "\<exists>r rs. chain_records b = r # rs \<and> the (seq_of r) = 0 \<and> the (prev_of r) = CHAIN_GENESIS"
    using assms verify_chain_iff unfolding chain_records_def by blast+
  obtain r rs where r: "chain_records b = r # rs" "the (seq_of r) = 0"
      "the (prev_of r) = CHAIN_GENESIS"
    using a(2) by blast
  then show "chain_records b \<noteq> []" by simp
  have "linked sha (the (prev_of (hd (chain_records b)))) (the (seq_of (hd (chain_records b))))
      (chain_records b)"
    using a(1) r(1) unfolding chain_intact_def Let_def chain_records_def [symmetric] by simp
  then show "linked sha CHAIN_GENESIS 0 (chain_records b)" unfolding r(1) using r(2,3) by simp
  show "\<forall>r\<in>set (chain_records b). wf_json False (JObj r)" using a(1) by (rule chain_records_wf)
qed

lemma linked_last:
  "linked sha p s rs \<Longrightarrow> rs \<noteq> [] \<Longrightarrow> chain_of (last rs) = Some (final_chain sha p rs)"
  by (cases rs rule: rev_cases) (simp_all add: linked_snoc)

text \<open>C28: Tamper evidence. Two files that both verify from genesis and end in the same chain value
  hold the same records, field by field, as long as the hash does not collide on the texts
  the two chains hash and those texts hold no lone surrogates. So an off-host copy of one
  chain value pins the whole history before it: an edited, inserted, removed or reordered
  record cannot be hidden.\<close>

theorem last_chain_pins_history:
  assumes "hex_sha sha"
    and "cr_anchored (verify_chain sha path (Contents b None))"
    and "cr_anchored (verify_chain sha path (Contents b' None))"
    and "chain_of (last (chain_records b)) = chain_of (last (chain_records b'))"
    and "no_collision sha (messages sha CHAIN_GENESIS (chain_records b))
           (messages sha CHAIN_GENESIS (chain_records b'))"
    and "scalar_texts (messages sha CHAIN_GENESIS (chain_records b) @
           messages sha CHAIN_GENESIS (chain_records b'))"
  shows "list_all2 same_body (chain_records b) (chain_records b')"
proof -
  note a = anchored_records [OF assms(2)] and a' = anchored_records [OF assms(3)]
  have "final_chain sha CHAIN_GENESIS (chain_records b)
      = final_chain sha CHAIN_GENESIS (chain_records b')"
    using assms(4) linked_last [OF a(1,2)] linked_last [OF a'(1,2)] by simp
  moreover have "\<forall>r\<in>set (chain_records b @ chain_records b'). wf_json False (JObj r)"
    using a(3) a'(3) by auto
  ultimately show ?thesis
    using a(1,2) a'(1,2) assms(5,6) genesis_scalar
    by (intro chain_determines [OF assms(1), of CHAIN_GENESIS 0]) auto
qed

lemma messages_scalar:
  "hex_sha sha \<Longrightarrow> \<forall>c\<in>set p. scalar c \<Longrightarrow> \<forall>r\<in>set rs. wf_json True (JObj r) \<Longrightarrow>
     scalar_texts (messages sha p rs)"
proof (induction rs arbitrary: p)
  case Nil
  then show ?case by (simp add: scalar_texts_def)
next
  case (Cons r rs)
  have "wf_json True (sort_json (JObj (chain_body r)))"
    using Cons.prems(3) wf_body [of True r] by (intro wf_sort(1)) simp
  then have "\<forall>c\<in>set (canonical_json (JObj (chain_body r))). scalar c"
    using dumps_scalar(1) [OF scalar_fmts(2)] unfolding canonical_json_def by blast
  then show ?case
    using Cons.IH [OF Cons.prems(1) chain_value_scalar [OF Cons.prems(1), of p r]] Cons.prems(2,3)
    by (auto simp: scalar_texts_def list_all_iff)
qed

lemma records_of_log:
  assumes "holds_chain sha CHAIN_GENESIS 0 rs au"
  shows "chain_records (au_disk au) = rs"
proof -
  have wf: "\<forall>r\<in>set rs. wf_json True (JObj r)" and l: "linked sha CHAIN_GENESIS 0 rs"
      and disk: "au_disk au = utf8_encode (log_text rs)"
    using assms by (simp_all add: holds_chain_def)
  show ?thesis
    unfolding chain_records_def disk log_parsed [OF wf] using linked_intact(1,2) [OF l] by simp
qed

theorem last_chain_pins_history_witness:
  "list_all2 same_body
     (chain_records (au_disk (run (log_step sample_sha) fresh_log [Record []])))
     (chain_records (au_disk (run (log_step sample_sha) fresh_log [Record [], Restart])))"
proof -
  let ?one = "run (log_step sample_sha) fresh_log [Record []]"
  let ?two = "run (log_step sample_sha) fresh_log [Record [], Restart]"
  let ?r = "stamp sample_sha 0 CHAIN_GENESIS []"
  have g: "good_entry []" by (simp add: good_entry_def)
  have h0: "holds_chain sample_sha CHAIN_GENESIS 0 [] fresh_log"
    unfolding fresh_log_def by (rule init_holds_chain)
  then have "au_seq fresh_log = 0" "au_prev fresh_log = CHAIN_GENESIS"
    by (simp_all add: holds_chain_def)
  then have h1: "holds_chain sample_sha CHAIN_GENESIS 0 [?r] ?one"
    using emit_holds_chain [OF h0 g sample_sha_hex] genesis_scalar by simp
  have h2: "holds_chain sample_sha CHAIN_GENESIS 0 [?r] ?two"
    using restart_holds_chain [OF h1] by simp
  have anch: "cr_anchored (verify_chain sample_sha [] (Contents (au_disk ?one) None))"
      "cr_anchored (verify_chain sample_sha [] (Contents (au_disk ?two) None))"
    using log_verified [OF sample_sha_hex _ refl, of "[Record []]" "[]"]
      log_verified [OF sample_sha_hex _ refl, of "[Record [], Restart]" "[]"] g
    by (simp_all add: good_event_def is_record_def)
  have wf: "\<forall>r\<in>set [?r]. wf_json True (JObj r)" using h1 by (simp add: holds_chain_def)
  have ms: "scalar_texts (messages sample_sha CHAIN_GENESIS [?r])"
    using genesis_scalar by (intro messages_scalar [OF sample_sha_hex _ wf]) blast
  note same = records_of_log [OF h1] records_of_log [OF h2]
  have coll: "no_collision sample_sha (messages sample_sha CHAIN_GENESIS [?r])
      (messages sample_sha CHAIN_GENESIS [?r])" by (simp add: no_collision_def)
  show ?thesis
  proof (rule last_chain_pins_history [OF sample_sha_hex anch])
    show "chain_of (last (chain_records (au_disk ?one)))
        = chain_of (last (chain_records (au_disk ?two)))" by (simp only: same)
    show "no_collision sample_sha
        (messages sample_sha CHAIN_GENESIS (chain_records (au_disk ?one)))
        (messages sample_sha CHAIN_GENESIS (chain_records (au_disk ?two)))"
      unfolding same by (rule coll)
    show "scalar_texts (messages sample_sha CHAIN_GENESIS (chain_records (au_disk ?one)) @
        messages sample_sha CHAIN_GENESIS (chain_records (au_disk ?two)))"
      unfolding same using ms by (simp add: scalar_texts_def)
  qed
qed

text \<open>The chain hashes the text with lone surrogates replaced by question marks. Two records
  that differ only in a question mark against a lone surrogate have the same chain value
  under every hash, so that edit of a record passes verification.\<close>

theorem surrogate_edit_undetected:
  "chain_value sha p [(asc ''args'', JObj [(asc ''command'', JStr (asc ''rm ?''))])]
     = chain_value sha p [(asc ''args'', JObj [(asc ''command'', JStr (asc ''rm '' @ [0xD800]))])] \<and>
   JStr (asc ''rm ?'') \<noteq> JStr (asc ''rm '' @ [0xD800])"
  by (simp add: chain_value_def sha256_hex_def canonical_json_def dump_str_def esc_char_def
      fmt_compact_def utf8_encode_append utf8_encode_Cons encode_char_def is_surrogate_def asc_def)

text \<open>The rotated sibling is chosen by the length of the active name, not by the name: a
  rotated segment of another log of equal name length is taken as the predecessor.\<close>

theorem rotated_sibling_of_another_log:
  "latest_rotated_path (asc ''audit.jsonl'')
     [\<lparr>d_mtime = 1, d_name = asc ''audit.jsonl-1'', d_file = True, d_seg = Plain b\<rparr>,
      \<lparr>d_mtime = 2, d_name = asc ''other.jsonl-1'', d_file = True, d_seg = Plain b'\<rparr>]
   = Some \<lparr>d_mtime = 2, d_name = asc ''other.jsonl-1'', d_file = True, d_seg = Plain b'\<rparr>"
  by (simp add: latest_rotated_path_def is_rotated_name_def Let_def asc_def ends_with_def
      is_digit_def less_eq_prod_def)

end
