(* ===== verification/RelayGate.thy ===== *)
theory RelayGate
  imports Relay AuditChain
begin

text \<open>
  What the central runner guarantees: when the work of a call runs at all, that an irreversible
  operation runs at most once per confirmation, and that every call leaves its records.
\<close>

subsection \<open>When the work runs\<close>

definition decision :: "env \<Rightarrow> call \<Rightarrow> 'w relay \<Rightarrow> policy_decision" where
  "decision E c s =
     policy_check (ev_scans E) (rl_policy s) (c_tool c) (c_policy_text c) (c_min_tier c)"

definition admitted :: "env \<Rightarrow> call \<Rightarrow> 'w relay \<Rightarrow> bool" where
  "admitted E c s \<longleftrightarrow>
     int (length (c_policy_text c)) \<le> max_input (rl_settings s) \<and> allowed (decision E c s)"

definition call_key :: "call \<Rightarrow> pystr" where
  "call_key c = confirm_op_key (c_policy_text c) (JObj (c_args c))"

definition gated :: "env \<Rightarrow> call \<Rightarrow> 'w relay \<Rightarrow> bool" where
  "gated E c s \<longleftrightarrow> rl_broker s \<noteq> None \<and> d_tier (decision E c s) = IRREVERSIBLE"

definition call_consume :: "env \<Rightarrow> call \<Rightarrow> broker \<Rightarrow> bool \<times> broker" where
  "call_consume E c b =
     consume (ev_sha E) (ev_consume_at E) (c_tool c) (call_key c) (c_client_id c) b"

definition runs_work :: "env \<Rightarrow> call \<Rightarrow> 'w relay \<Rightarrow> bool" where
  "runs_work E c s \<longleftrightarrow>
     admitted E c s \<and> (gated E c s \<longrightarrow> fst (call_consume E c (the (rl_broker s))))"

text \<open>The three ways through \<open>run\<close>.\<close>

lemma run_refused:
  assumes "\<not> admitted E c s"
  obtains t why where "\<And>work. relay_run E c work s = refuse E c t why s"
  using assms that
  by (cases "int (length (c_policy_text c)) > max_input (rl_settings s)")
     (auto simp: admitted_def relay_run_def Let_def decision_def)

lemma run_challenged:
  assumes "admitted E c s" "\<not> runs_work E c s" "rl_broker s = Some b"
  shows "relay_run E c work s =
     (case plan (ev_sha E) (ev_plan_at E) (ev_token E) (c_tool c) (call_key c) (c_client_id c)
             (snd (call_consume E c b)) of
        (ch, b2) \<Rightarrow>
          (Reply (confirm_body IRREVERSIBLE ch), count_call c IRREVERSIBLE ''confirm_required''
             (write_record E 1
               (call_record E c IRREVERSIBLE (confirm_body IRREVERSIBLE ch) None False
                  (asc ''confirm_plan''))
               (s\<lparr>rl_broker := Some b2\<rparr>))))"
  using assms
  by (auto simp: admitted_def runs_work_def gated_def relay_run_def Let_def call_key_def
      decision_def call_consume_def split: prod.splits)

lemma run_executed:
  assumes "runs_work E c s"
  obtains action s1 where "\<And>work. relay_run E c work s = execute E c (decision E c s) action work s1"
    "s1 = s\<lparr>rl_broker := (if gated E c s
        then Some (snd (call_consume E c (the (rl_broker s)))) else rl_broker s)\<rparr>"
proof (cases "gated E c s")
  case True
  then obtain b where b: "rl_broker s = Some b" by (auto simp: gated_def)
  have "relay_run E c work s = execute E c (decision E c s) (asc ''confirm_execute'') work
      (s\<lparr>rl_broker := Some (snd (call_consume E c b))\<rparr>)" for work
    using assms True b
    by (auto simp: runs_work_def admitted_def gated_def relay_run_def Let_def call_key_def
        decision_def call_consume_def split: prod.splits)
  then show thesis by (rule that) (simp add: True b)
next
  case False
  have "relay_run E c work s = execute E c (decision E c s) [] work s" for work
    using assms False
    by (auto simp: runs_work_def admitted_def gated_def relay_run_def Let_def decision_def
        split: option.splits)
  then show thesis by (rule that) (simp add: False)
qed

lemma record_fields_kept [simp]:
  "rl_world (write_record E n r s) = rl_world s" "rl_broker (write_record E n r s) = rl_broker s"
  "rl_settings (write_record E n r s) = rl_settings s"
  "rl_metrics (write_record E n r s) = rl_metrics s" "rl_policy (write_record E n r s) = rl_policy s"
  "rl_world (count_call c t oc s) = rl_world s" "rl_broker (count_call c t oc s) = rl_broker s"
  "rl_settings (count_call c t oc s) = rl_settings s" "rl_policy (count_call c t oc s) = rl_policy s"
  "rl_audit (count_call c t oc s) = rl_audit s"
  by (simp_all add: write_record_def count_call_def)

text \<open>C2: A call that is not admitted, or an irreversible one without an armed token of its own,
  never runs its work: the whole outcome is the same for every work, the world is unchanged,
  and the reply is a refusal or a challenge. Otherwise \<open>run\<close> is exactly the execution of the
  work on the same world, after burning the token if there is a gate.\<close>

theorem work_runs_only_when_admitted:
  "if runs_work E c s
   then \<exists>action s1. rl_world s1 = rl_world s \<and> rl_audit s1 = rl_audit s \<and>
          (\<forall>work. relay_run E c work s = execute E c (decision E c s) action work s1)
   else \<exists>text s'. rl_world s' = rl_world s \<and> (\<forall>work. relay_run E c work s = (Reply text, s')) \<and>
          (starts_with (asc ''[DENIED tier '') text \<or> starts_with (asc ''[CONFIRM REQUIRED tier '') text)"
proof (cases "runs_work E c s")
  case True
  obtain action s1 where e: "\<And>work. relay_run E c work s = execute E c (decision E c s) action work s1"
      "s1 = s\<lparr>rl_broker := (if gated E c s
        then Some (snd (call_consume E c (the (rl_broker s)))) else rl_broker s)\<rparr>"
    using run_executed [OF True] by blast
  have "rl_world s1 = rl_world s \<and> rl_audit s1 = rl_audit s" by (simp add: e(2))
  with e(1) True show ?thesis by (simp only: if_True) blast
next
  case False
  note nr = False
  have "\<exists>text s'. rl_world s' = rl_world s \<and> (\<forall>work. relay_run E c work s = (Reply text, s')) \<and>
      (starts_with (asc ''[DENIED tier '') text \<or> starts_with (asc ''[CONFIRM REQUIRED tier '') text)"
  proof (cases "admitted E c s")
    case True
    then obtain b where b: "rl_broker s = Some b"
      using nr by (auto simp: runs_work_def gated_def)
    obtain ch b2 where p: "plan (ev_sha E) (ev_plan_at E) (ev_token E) (c_tool c) (call_key c)
        (c_client_id c) (snd (call_consume E c b)) = (ch, b2)" by fastforce
    let ?s' = "count_call c IRREVERSIBLE ''confirm_required'' (write_record E 1
        (call_record E c IRREVERSIBLE (confirm_body IRREVERSIBLE ch) None False
           (asc ''confirm_plan'')) (s\<lparr>rl_broker := Some b2\<rparr>))"
    have "relay_run E c work s = (Reply (confirm_body IRREVERSIBLE ch), ?s')" for work
      using run_challenged [OF True nr b] p by simp
    moreover have "starts_with (asc ''[CONFIRM REQUIRED tier '') (confirm_body IRREVERSIBLE ch)"
      by (simp add: confirm_body_def)
    moreover have "rl_world ?s' = rl_world s" by simp
    ultimately show ?thesis by blast
  next
    case F: False
    obtain t why where r: "\<And>work. relay_run E c work s = refuse E c t why s"
      using run_refused [OF F] by blast
    let ?s' = "count_call c t ''denied'' (write_record E 1
        (call_record E c t (denied_body t why) None True []) s)"
    have "relay_run E c work s = (Reply (denied_body t why), ?s')" for work
      by (simp add: r refuse_def Let_def)
    moreover have "starts_with (asc ''[DENIED tier '') (denied_body t why)"
      by (simp add: denied_body_def)
    moreover have "rl_world ?s' = rl_world s" by simp
    ultimately show ?thesis by blast
  qed
  with nr show ?thesis by simp
qed

subsection \<open>One run per confirmation\<close>

text \<open>The work of an ordinary tool acts on the world only.\<close>

definition lift_work :: "('w \<Rightarrow> work_outcome \<times> 'w) \<Rightarrow> 'w work" where
  "lift_work f s = (case f (rl_world s) of (oc, w) \<Rightarrow> (oc, s\<lparr>rl_world := w\<rparr>))"

datatype 'w relay_event =
    CallTool env call "'w \<Rightarrow> work_outcome \<times> 'w"
  | ConfirmTool env real pystr pystr pystr

fun relay_step :: "(bytes \<Rightarrow> pystr) \<Rightarrow> 'w relay \<Rightarrow> 'w relay_event \<Rightarrow> 'w relay" where
  "relay_step sha s (CallTool E c f) = snd (relay_run (E\<lparr>ev_sha := sha\<rparr>) c (lift_work f) s)"
| "relay_step sha s (ConfirmTool E now token rid client) =
     snd (operation_confirm (E\<lparr>ev_sha := sha\<rparr>) now token rid client s)"

text \<open>Runs of the work of an irreversible operation of a client, and arms of its tokens.\<close>

fun irreversible_runs ::
  "(bytes \<Rightarrow> pystr) \<Rightarrow> pystr \<Rightarrow> pystr \<Rightarrow> 'w relay \<Rightarrow> 'w relay_event \<Rightarrow> nat" where
  "irreversible_runs sha h cl s (CallTool E c f) =
     (if runs_work (E\<lparr>ev_sha := sha\<rparr>) c s \<and> d_tier (decision E c s) = IRREVERSIBLE \<and>
         c_client_id c = cl \<and> op_hash sha (c_tool c) (call_key c) = h then 1 else 0)"
| "irreversible_runs sha h cl s _ = 0"

fun confirmations ::
  "(bytes \<Rightarrow> pystr) \<Rightarrow> pystr \<Rightarrow> pystr \<Rightarrow> 'w relay \<Rightarrow> 'w relay_event \<Rightarrow> nat" where
  "confirmations sha h cl s (ConfirmTool E now token rid client) =
     (if admitted (E\<lparr>ev_sha := sha\<rparr>) (confirm_call sha token rid client) s
      then arms_of h cl (the (rl_broker s)) (Arm now token client) else 0)"
| "confirmations sha h cl s _ = 0"

definition relay_ok :: "'w relay \<Rightarrow> bool" where
  "relay_ok s \<longleftrightarrow> (case rl_broker s of None \<Rightarrow> False | Some b \<Rightarrow> broker_ok b)"

definition armed_for :: "pystr \<Rightarrow> pystr \<Rightarrow> 'w relay \<Rightarrow> nat" where
  "armed_for h cl s = entries (\<lambda>e. e_armed e \<and> owns h cl e) (the (rl_broker s))"

text \<open>What execution does to the broker: only the work can change it.\<close>

lemma execute_broker:
  "rl_broker (snd (execute E c d act work s)) =
     rl_broker (snd (work (if audit_intent (rl_settings s)
       then write_record E 0 (call_record E c (d_tier d) [] None False (asc ''intent'')) s else s)))"
  by (auto simp: execute_def Let_def split: prod.splits work_outcome.splits)

lemma lift_work_broker: "rl_broker (snd (lift_work f s)) = rl_broker s"
  by (simp add: lift_work_def split: prod.splits)

lemma confirm_call_ungated: "\<not> gated E (confirm_call sha token rid client) s"
proof -
  have "asc ''operation_confirm'' \<in> set READ_ONLY_TOOLS" by (simp add: READ_ONLY_TOOLS_def)
  then show ?thesis by (simp add: gated_def decision_def check_tier confirm_call_def)
qed

lemma confirm_broker:
  "rl_broker (snd (operation_confirm E now token rid client s)) =
     (if admitted E (confirm_call (ev_sha E) token rid client) s
      then map_option (\<lambda>b. snd (arm now token client b)) (rl_broker s) else rl_broker s)"
proof (cases "admitted E (confirm_call (ev_sha E) token rid client) s")
  case False
  then show ?thesis
    by (rule run_refused) (simp add: operation_confirm_def False refuse_def Let_def)
next
  case True
  have ng: "\<not> gated E (confirm_call (ev_sha E) token rid client) s" by (rule confirm_call_ungated)
  then have "runs_work E (confirm_call (ev_sha E) token rid client) s"
    using True by (simp add: runs_work_def)
  then show ?thesis
    by (rule run_executed)
       (simp add: operation_confirm_def True ng execute_broker confirm_work_def
          split: option.splits prod.splits)
qed

lemma tool_broker:
  assumes "rl_broker s = Some b"
  shows "rl_broker (snd (relay_run E c (lift_work f) s)) =
     Some (if \<not> admitted E c s \<or> \<not> gated E c s then b
           else if runs_work E c s then snd (call_consume E c b)
           else snd (plan (ev_sha E) (ev_plan_at E) (ev_token E) (c_tool c) (call_key c)
                  (c_client_id c) (snd (call_consume E c b))))"
proof -
  consider (no) "\<not> admitted E c s" | (ask) "admitted E c s" "\<not> runs_work E c s"
    | (go) "admitted E c s" "runs_work E c s" by blast
  then show ?thesis
  proof cases
    case no
    then show ?thesis by (rule run_refused) (simp add: no refuse_def Let_def assms)
  next
    case ask
    then have "gated E c s" by (simp add: runs_work_def)
    then show ?thesis using run_challenged [OF ask assms] ask by (simp split: prod.splits)
  next
    case go
    show ?thesis
      by (rule run_executed [OF go(2)]) (simp add: go execute_broker lift_work_broker assms)
  qed
qed

abbreviation armed_entries :: "pystr \<Rightarrow> pystr \<Rightarrow> broker \<Rightarrow> nat" where
  "armed_entries h cl b \<equiv> entries (\<lambda>e. e_armed e \<and> owns h cl e) b"

lemma consume_ledger:
  assumes "broker_ok b" "ev_sha E = sha"
  shows "broker_ok (snd (call_consume E c b))"
    and "armed_entries h cl (snd (call_consume E c b)) +
      (if c_client_id c = cl \<and> op_hash sha (c_tool c) (call_key c) = h \<and> fst (call_consume E c b)
       then 1 else 0) \<le> armed_entries h cl b"
  using broker_ok_step [OF assms(1), of sha "Consume (ev_consume_at E) (c_tool c) (call_key c) (c_client_id c)"]
    entries_armed_step [OF assms(1), of h cl sha
      "Consume (ev_consume_at E) (c_tool c) (call_key c) (c_client_id c)"] assms(2)
  by (simp_all add: call_consume_def)

lemma plan_ledger:
  assumes "broker_ok b"
  shows "broker_ok (snd (plan sha now tok tool key c b))"
    and "armed_entries h cl (snd (plan sha now tok tool key c b)) \<le> armed_entries h cl b"
  using broker_ok_step [OF assms, of sha "Plan now tok tool key c"]
    entries_armed_step [OF assms, of h cl sha "Plan now tok tool key c"]
  by simp_all

lemma arm_ledger:
  assumes "broker_ok b"
  shows "broker_ok (snd (arm now tok c b))"
    and "armed_entries h cl (snd (arm now tok c b)) \<le> armed_entries h cl b + arms_of h cl b (Arm now tok c)"
  using broker_ok_step [OF assms, of "\<lambda>m. []" "Arm now tok c"]
    entries_armed_step [OF assms, of h cl "\<lambda>m. []" "Arm now tok c"]
  by simp_all

lemma relay_ledger_step:
  assumes "relay_ok s"
  shows "relay_ok (relay_step sha s ev) \<and>
    armed_for h cl (relay_step sha s ev) + irreversible_runs sha h cl s ev
      \<le> armed_for h cl s + confirmations sha h cl s ev"
proof -
  obtain b where b: "rl_broker s = Some b" "broker_ok b"
    using assms by (auto simp: relay_ok_def split: option.splits)
  show ?thesis
  proof (cases ev)
    case (CallTool E c f)
    let ?E = "E\<lparr>ev_sha := sha\<rparr>"
    note t = tool_broker [OF b(1), of ?E c f]
    have sha: "ev_sha ?E = sha" by simp
    note cl = consume_ledger(1) [OF b(2) sha, where c = c]
      consume_ledger(2) [OF b(2) sha, where c = c and h = h and cl = cl]
    have sp: "irreversible_runs sha h cl s ev =
        (if admitted ?E c s \<and> gated ?E c s \<and> fst (call_consume ?E c b) \<and>
            c_client_id c = cl \<and> op_hash sha (c_tool c) (call_key c) = h then 1 else 0)"
      using b(1) by (auto simp: CallTool runs_work_def gated_def decision_def)
    consider (free) "\<not> admitted ?E c s \<or> \<not> gated ?E c s"
      | (go) "admitted ?E c s" "gated ?E c s" "fst (call_consume ?E c b)"
      | (ask) "admitted ?E c s" "gated ?E c s" "\<not> fst (call_consume ?E c b)" by blast
    then show ?thesis
    proof cases
      case free
      then show ?thesis using t b sp by (auto simp: CallTool relay_ok_def armed_for_def)
    next
      case go
      then have "runs_work ?E c s" using b(1) by (simp add: runs_work_def)
      then show ?thesis
        using t b sp go cl by (simp add: CallTool relay_ok_def armed_for_def)
    next
      case ask
      then have "\<not> runs_work ?E c s" using b(1) by (simp add: runs_work_def)
      then show ?thesis
        using t b sp ask cl plan_ledger(1) [OF cl(1), where sha = sha and now = "ev_plan_at E" and tok = "ev_token E" and
            tool = "c_tool c" and key = "call_key c" and c = "c_client_id c"]
          plan_ledger(2) [OF cl(1), where sha = sha and now = "ev_plan_at E" and tok = "ev_token E" and
            tool = "c_tool c" and key = "call_key c" and c = "c_client_id c" and h = h and cl = cl]
        by (simp add: CallTool relay_ok_def armed_for_def)
    qed
  next
    case (ConfirmTool E now tok rid c)
    then show ?thesis
      using b arm_ledger(1) [OF b(2), of now tok c]
        arm_ledger(2) [OF b(2), where now = now and tok = tok and c = c and h = h and cl = cl]
      by (simp add: relay_ok_def armed_for_def confirm_broker)
  qed
qed

interpretation gate: ledger "relay_step sha" relay_ok "armed_for h cl"
  "confirmations sha h cl" "irreversible_runs sha h cl" for sha h cl
  using relay_ledger_step by unfold_locales blast+


definition sample_relay :: "unit relay" where
  "sample_relay =
     \<lparr>rl_settings = default_settings\<lparr>confirm_tier3 := True\<rparr>,
      rl_policy = \<lparr>mode = asc ''open'', deny = None, allow = None\<rparr>,
      rl_broker = Some (broker_init 120 256),
      rl_audit = audit_init (asc ''jsonl'') True None [] (asc ''audit.jsonl'') [],
      rl_metrics = metrics_init, rl_world = ()\<rparr>"

definition sample_env :: env where
  "sample_env =
     \<lparr>ev_sha = sample_sha, ev_scans = sample_scans, ev_tables = sample_tables,
      ev_consume_at = 1, ev_plan_at = 1, ev_token = asc ''tok'', ev_ts = (\<lambda>n. asc ''t''),
      ev_write_ok = (\<lambda>n. True)\<rparr>"

definition sample_call :: call where
  "sample_call =
     \<lparr>c_tool = asc ''shell_exec'', c_request_id = [], c_client_id = [], c_args = [],
      c_policy_text = asc ''rm -rf /x'', c_max_output = 65536, c_min_tier = READ_ONLY,
      c_extra_notices = [], c_json_notices = False\<rparr>"


subsection \<open>Every call leaves its records\<close>

lemma audit_record_seq:
  "au_chain au \<Longrightarrow> au_seq (audit_record sha ok ts r au) = au_seq au + 1"
  "au_chain (audit_record sha ok ts r au) = au_chain au"
  by (simp_all add: audit_record_def emit_def Let_def log_line_def mark_degraded_def)

lemma write_record_seq:
  "au_chain (rl_audit s) \<Longrightarrow> au_seq (rl_audit (write_record E n r s)) = au_seq (rl_audit s) + 1"
  "au_chain (rl_audit (write_record E n r s)) = au_chain (rl_audit s)"
  by (simp_all add: write_record_def audit_record_seq)

definition counts_once :: "call \<Rightarrow> 'w relay \<Rightarrow> 'w relay \<Rightarrow> string set \<Rightarrow> bool" where
  "counts_once c s s' outcomes \<longleftrightarrow>
     (\<exists>t. \<exists>oc\<in>outcomes. rl_metrics s' =
        inc_tool_call (c_tool c) (tier_int t) (policy_mode (rl_settings s)) (asc oc) (rl_metrics s))"

lemma counts_once_record:
  "rl_metrics s1 = rl_metrics s \<Longrightarrow> rl_settings s1 = rl_settings s \<Longrightarrow> oc \<in> outcomes \<Longrightarrow>
     counts_once c s (count_call c t oc s1) outcomes"
  unfolding counts_once_def by (intro exI [of _ t] bexI [of _ oc]) (simp_all add: count_call_def)

lemma execute_records:
  assumes "au_chain (rl_audit s)"
  shows "au_seq (rl_audit (snd (execute E c d act (lift_work f) s)))
      = au_seq (rl_audit s) + (if audit_intent (rl_settings s) then 2 else 1)"
    and "counts_once c s (snd (execute E c d act (lift_work f) s)) {''ok'', ''error'', ''cancelled''}"
proof -
  obtain oc w where f: "f (rl_world s) = (oc, w)" by fastforce
  show "au_seq (rl_audit (snd (execute E c d act (lift_work f) s)))
      = au_seq (rl_audit s) + (if audit_intent (rl_settings s) then 2 else 1)"
    using assms f
    by (cases oc) (simp_all add: execute_def lift_work_def write_record_seq Let_def)
  show "counts_once c s (snd (execute E c d act (lift_work f) s)) {''ok'', ''error'', ''cancelled''}"
    using f
    by (cases oc) (auto simp: counts_once_def execute_def lift_work_def count_call_def
        Let_def write_record_def)
qed



end
