(* ===== verification/OAuth.thy ===== *)
theory OAuth
  imports Machines Util Json
begin

text \<open>
  \<open>src/relay_shell/auth/oauth.py\<close> and \<open>auth/admin.py\<close>: the file-backed OAuth provider and the
  operator's management of its clients. Each JSON file is a store (absent, unreadable, or
  holding a dictionary); a record is typed. Time, fresh secrets, SHA-256 (\<open>sha\<close>) and
  \<open>normalize_resource\<close> (\<open>nr\<close>, \<open>None\<close> for a \<open>ValueError\<close>) are arguments.
\<close>

datatype 'a store = Absent | Unreadable | Held 'a

definition load_store :: "('k, 'v) dict store \<Rightarrow> ('k, 'v) dict" where
  "load_store s = (case s of Held d \<Rightarrow> d | _ \<Rightarrow> [])"

text \<open>\<open>load(strict=True)\<close>: \<open>None\<close> is \<open>StoreUnreadableError\<close>.\<close>

definition load_strict :: "('k, 'v) dict store \<Rightarrow> ('k, 'v) dict option" where
  "load_strict s = (case s of Absent \<Rightarrow> Some [] | Unreadable \<Rightarrow> None | Held d \<Rightarrow> Some d)"

lemma load_store_simps [simp]:
  "load_store Absent = []" "load_store Unreadable = []" "load_store (Held d) = d"
  by (simp_all add: load_store_def)

record grant =
  g_client :: pystr
  g_scopes :: "pystr list"
  g_resource :: "pystr option"
  g_expires :: int

record code_grant = grant +
  g_challenge :: pystr
  g_redirect :: pystr

text \<open>The token store holds access and refresh grants and the markers of spent refresh tokens.\<close>

datatype token_rec =
    Tok grant
  | Spent pystr int int

fun rec_client :: "token_rec \<Rightarrow> pystr" where
  "rec_client (Tok g) = g_client g"
| "rec_client (Spent c sa ex) = c"

fun rec_expires :: "token_rec \<Rightarrow> int" where
  "rec_expires (Tok g) = g_expires g"
| "rec_expires (Spent c sa ex) = ex"

record approval =
  ap_approved :: bool
  ap_legacy :: bool

record oauth =
  o_require_approval :: bool
  o_single_client :: bool
  o_access_ttl :: int
  o_refresh_ttl :: int
  o_code_ttl :: int
  o_resource :: pystr
  o_approvals :: "(pystr, approval) dict store"
  o_clients :: "(pystr, json) dict store"
  o_codes :: "(pystr, code_grant) dict store"
  o_tokens :: "(pystr, token_rec) dict store"

datatype oauth_error =
    InvalidGrant
  | InvalidScope
  | InvalidTarget
  | AccessDenied
  | RegistrationClosed
  | RegistrationUnreadable
  | ClientIdRequired

subsection \<open>Keys\<close>

definition HASH_PREFIX :: pystr where
  "HASH_PREFIX = asc ''sha256:''"

definition REFRESH_PREFIX :: pystr where
  "REFRESH_PREFIX = asc ''refresh:''"

definition SPENT_PREFIX :: pystr where
  "SPENT_PREFIX = HASH_PREFIX @ asc ''spent:''"

definition REUSE_GRACE_SECONDS :: int where
  "REUSE_GRACE_SECONDS = 10"

definition MAX_SPENT_PER_CLIENT :: nat where
  "MAX_SPENT_PER_CLIENT = 64"

definition SCOPES :: "pystr list" where
  "SCOPES = [asc ''mcp:tools'']"

definition hashed :: "(bytes \<Rightarrow> pystr) \<Rightarrow> pystr \<Rightarrow> pystr" where
  "hashed sha secret = HASH_PREFIX @ sha256_hex sha secret"

definition is_hashed_key :: "pystr \<Rightarrow> bool" where
  "is_hashed_key key \<longleftrightarrow> starts_with HASH_PREFIX key \<or> starts_with (REFRESH_PREFIX @ HASH_PREFIX) key"

definition is_secret_char :: "nat \<Rightarrow> bool" where
  "is_secret_char c \<longleftrightarrow> is_digit c \<or> (65 \<le> c \<and> c \<le> 90) \<or> (97 \<le> c \<and> c \<le> 122) \<or> c = 95 \<or> c = 45"

definition secret_ok :: "pystr \<Rightarrow> bool" where
  "secret_ok s \<longleftrightarrow> 1 \<le> length s \<and> length s \<le> 512 \<and> list_all is_secret_char s"

definition purge_expired :: "('v \<Rightarrow> int) \<Rightarrow> int \<Rightarrow> (pystr, 'v) dict \<Rightarrow> (pystr, 'v) dict" where
  "purge_expired ex now d = filter (\<lambda>(k, v). now \<le> ex v) d"

subsection \<open>Migrations at construction\<close>

definition migrate_key :: "(bytes \<Rightarrow> pystr) \<Rightarrow> pystr \<Rightarrow> pystr" where
  "migrate_key sha key =
     (if starts_with REFRESH_PREFIX key
      then REFRESH_PREFIX @ hashed sha (drop (length REFRESH_PREFIX) key) else hashed sha key)"

definition migrate_secrets ::
  "(bytes \<Rightarrow> pystr) \<Rightarrow> ('v \<Rightarrow> int) \<Rightarrow> int \<Rightarrow> (pystr, 'v) dict store \<Rightarrow> (pystr, 'v) dict store" where
  "migrate_secrets sha ex now st =
     (let data = load_store st; legacy = filter (\<lambda>(k, v). \<not> is_hashed_key k) data in
      if legacy = [] then st
      else Held (purge_expired ex now
             (foldl (\<lambda>d kv. dset (migrate_key sha (fst kv)) (snd kv) d)
                (filter (\<lambda>(k, v). is_hashed_key k) data) legacy)))"

definition migrate_legacy_approvals ::
  "(pystr, json) dict store \<Rightarrow> (pystr, approval) dict store \<Rightarrow> (pystr, approval) dict store" where
  "migrate_legacy_approvals clients approvals =
     (if approvals \<noteq> Absent then approvals
      else case load_strict clients of
        None \<Rightarrow> approvals
      | Some legacy \<Rightarrow>
          if legacy = [] then approvals
          else Held (map (\<lambda>(cid, v). (cid, \<lparr>ap_approved = True, ap_legacy = True\<rparr>)) legacy))"

definition provider_init :: "(bytes \<Rightarrow> pystr) \<Rightarrow> int \<Rightarrow> oauth \<Rightarrow> oauth" where
  "provider_init sha now o1 =
     o1\<lparr>o_tokens := migrate_secrets sha rec_expires now (o_tokens o1),
        o_codes := migrate_secrets sha g_expires now (o_codes o1),
        o_approvals := migrate_legacy_approvals (o_clients o1) (o_approvals o1)\<rparr>"

subsection \<open>Clients and approval\<close>

definition is_approved :: "pystr \<Rightarrow> oauth \<Rightarrow> bool" where
  "is_approved cid p \<longleftrightarrow>
     \<not> o_require_approval p \<or>
     (case load_strict (o_approvals p) of
        None \<Rightarrow> False
      | Some d \<Rightarrow> (case dget d cid of None \<Rightarrow> False | Some a \<Rightarrow> ap_approved a))"

text \<open>\<open>validate\<close> is the SDK's \<open>OAuthClientInformationFull.model_validate\<close>.\<close>

definition get_client :: "(json \<Rightarrow> 'c option) \<Rightarrow> pystr \<Rightarrow> oauth \<Rightarrow> 'c option" where
  "get_client validate cid p =
     (case dget (load_store (o_clients p)) cid of
        None \<Rightarrow> None
      | Some data \<Rightarrow> if truthy data then validate data else None)"

definition register_client :: "pystr \<Rightarrow> json \<Rightarrow> oauth \<Rightarrow> (oauth_error + unit) \<times> oauth" where
  "register_client cid incoming p =
     (if cid = [] then (Inl ClientIdRequired, p)
      else case load_strict (o_clients p) of
        None \<Rightarrow> (Inl RegistrationUnreadable, p)
      | Some clients \<Rightarrow>
          if o_single_client p \<and> clients \<noteq> [] \<and> dget clients cid \<noteq> Some incoming
          then (Inl RegistrationClosed, p)
          else
            let p1 = (if dget clients cid = None
                then p\<lparr>o_approvals := Held (dset cid
                       \<lparr>ap_approved = \<not> o_require_approval p, ap_legacy = False\<rparr>
                       (load_store (o_approvals p)))\<rparr>
                else p)
            in (Inr (), p1\<lparr>o_clients := Held (dset cid incoming clients)\<rparr>))"

subsection \<open>Codes and tokens\<close>

definition checked_resource ::
  "(pystr \<Rightarrow> pystr option) \<Rightarrow> pystr option \<Rightarrow> oauth \<Rightarrow> pystr option" where
  "checked_resource nr resource p =
     (case resource of
        None \<Rightarrow> None
      | Some r \<Rightarrow> if nr r = Some (o_resource p) then Some (o_resource p) else None)"

record auth_params =
  pa_scopes :: "pystr list"
  pa_resource :: "pystr option"
  pa_challenge :: pystr
  pa_redirect :: pystr

definition authorize ::
  "(bytes \<Rightarrow> pystr) \<Rightarrow> (pystr \<Rightarrow> pystr option) \<Rightarrow> int \<Rightarrow> pystr \<Rightarrow> pystr \<Rightarrow> auth_params \<Rightarrow> oauth \<Rightarrow>
     (oauth_error + pystr) \<times> oauth" where
  "authorize sha nr now code cid params p =
     (case checked_resource nr
             (Some (case pa_resource params of None \<Rightarrow> o_resource p | Some r \<Rightarrow> r)) p of
        None \<Rightarrow> (Inl InvalidTarget, p)
      | Some resource \<Rightarrow>
          if \<not> is_approved cid p then (Inl AccessDenied, p)
          else
            let g = \<lparr>g_client = cid,
                     g_scopes = (if pa_scopes params = [] then SCOPES else pa_scopes params),
                     g_resource = Some resource, g_expires = now + o_code_ttl p,
                     g_challenge = pa_challenge params, g_redirect = pa_redirect params\<rparr>
            in (Inr code, p\<lparr>o_codes := Held (dset (hashed sha code) g
                  (purge_expired g_expires now (load_store (o_codes p))))\<rparr>))"

definition load_authorization_code ::
  "(bytes \<Rightarrow> pystr) \<Rightarrow> (pystr \<Rightarrow> pystr option) \<Rightarrow> int \<Rightarrow> pystr \<Rightarrow> pystr \<Rightarrow> oauth \<Rightarrow>
     code_grant option \<times> oauth" where
  "load_authorization_code sha nr now cid code p =
     (if \<not> secret_ok code then (None, p)
      else
        let codes = load_store (o_codes p);
            key = (if dget codes (hashed sha code) \<noteq> None then hashed sha code else code)
        in case dget codes key of
             None \<Rightarrow> (None, p)
           | Some g \<Rightarrow>
               if g_client g \<noteq> cid then (None, p)
               else if g_expires g < now then (None, p\<lparr>o_codes := Held (ddel key codes)\<rparr>)
               else if checked_resource nr (g_resource g) p = None then (None, p)
               else (Some g, p))"

record issued =
  i_access :: pystr
  i_refresh :: pystr
  i_scopes :: "pystr list"

definition issue ::
  "(bytes \<Rightarrow> pystr) \<Rightarrow> (pystr \<Rightarrow> pystr option) \<Rightarrow> int \<Rightarrow> pystr \<Rightarrow> pystr \<Rightarrow> pystr \<Rightarrow> pystr list \<Rightarrow> pystr \<Rightarrow>
     oauth \<Rightarrow> (oauth_error + issued) \<times> oauth" where
  "issue sha nr now access refresh cid scopes res p =
     (case checked_resource nr (Some res) p of
        None \<Rightarrow> (Inl InvalidGrant, p)
      | Some resource \<Rightarrow>
          let g = (\<lambda>ttl. Tok \<lparr>g_client = cid, g_scopes = scopes, g_resource = Some resource,
                              g_expires = now + ttl\<rparr>);
              t0 = purge_expired rec_expires now (load_store (o_tokens p));
              t1 = dset (hashed sha access) (g (o_access_ttl p)) t0;
              t2 = dset (REFRESH_PREFIX @ hashed sha refresh) (g (o_refresh_ttl p)) t1
          in (Inr \<lparr>i_access = access, i_refresh = refresh, i_scopes = scopes\<rparr>,
              p\<lparr>o_tokens := Held t2\<rparr>))"

text \<open>The key a secret is stored under: hashed, or raw when written before secrets were hashed.\<close>

definition pop_key :: "(pystr, 'v) dict \<Rightarrow> pystr \<Rightarrow> pystr \<Rightarrow> pystr \<Rightarrow> pystr option" where
  "pop_key d raw hashed_key raw_key =
     (if dget d hashed_key \<noteq> None then Some hashed_key
      else if secret_ok raw \<and> dget d raw_key \<noteq> None then Some raw_key else None)"

definition exchange_authorization_code ::
  "(bytes \<Rightarrow> pystr) \<Rightarrow> (pystr \<Rightarrow> pystr option) \<Rightarrow> int \<Rightarrow> pystr \<Rightarrow> pystr \<Rightarrow> pystr \<Rightarrow> pystr \<Rightarrow> oauth \<Rightarrow>
     (oauth_error + issued) \<times> oauth" where
  "exchange_authorization_code sha nr now access refresh cid raw p =
     (let codes = load_store (o_codes p) in
      case pop_key codes raw (hashed sha raw) raw of
        None \<Rightarrow> (Inl InvalidGrant, p)
      | Some key \<Rightarrow>
          let g = the (dget codes key); p1 = p\<lparr>o_codes := Held (ddel key codes)\<rparr> in
          if g_client g \<noteq> cid then (Inl InvalidGrant, p)
          else if g_expires g < now then (Inl InvalidGrant, p1)
          else (case checked_resource nr (g_resource g) p of
                  None \<Rightarrow> (Inl InvalidGrant, p1)
                | Some resource \<Rightarrow>
                    issue sha nr now access refresh cid (g_scopes g) resource p1))"

definition load_access_token ::
  "(bytes \<Rightarrow> pystr) \<Rightarrow> (pystr \<Rightarrow> pystr option) \<Rightarrow> int \<Rightarrow> pystr \<Rightarrow> oauth \<Rightarrow> grant option \<times> oauth" where
  "load_access_token sha nr now token p =
     (if starts_with REFRESH_PREFIX token \<or> \<not> secret_ok token then (None, p)
      else
        let tokens = load_store (o_tokens p);
            key = (if dget tokens (hashed sha token) \<noteq> None then hashed sha token else token)
        in case dget tokens key of
             None \<Rightarrow> (None, p)
           | Some r \<Rightarrow>
               if rec_expires r < now then (None, p\<lparr>o_tokens := Held (ddel key tokens)\<rparr>)
               else (case r of
                       Spent _ _ _ \<Rightarrow> (None, p)
                     | Tok g \<Rightarrow> if checked_resource nr (g_resource g) p = None then (None, p)
                               else (Some g, p)))"

definition detect_refresh_reuse :: "(bytes \<Rightarrow> pystr) \<Rightarrow> int \<Rightarrow> pystr \<Rightarrow> pystr \<Rightarrow> oauth \<Rightarrow> oauth" where
  "detect_refresh_reuse sha now raw cid p =
     (let records = load_store (o_tokens p) in
      case dget records (SPENT_PREFIX @ sha256_hex sha raw) of
        Some (Spent c sa ex) \<Rightarrow>
          if c \<noteq> cid then p
          else if now - sa \<le> REUSE_GRACE_SECONDS then p
          else p\<lparr>o_tokens := Held (filter (\<lambda>(k, v). rec_client v \<noteq> cid) records)\<rparr>
      | _ \<Rightarrow> p)"

definition load_refresh_token ::
  "(bytes \<Rightarrow> pystr) \<Rightarrow> (pystr \<Rightarrow> pystr option) \<Rightarrow> int \<Rightarrow> pystr \<Rightarrow> pystr \<Rightarrow> oauth \<Rightarrow>
     grant option \<times> oauth" where
  "load_refresh_token sha nr now cid raw p =
     (if \<not> secret_ok raw then (None, p)
      else
        let records = load_store (o_tokens p);
            r = (case dget records (REFRESH_PREFIX @ hashed sha raw) of
                   Some r \<Rightarrow> Some r | None \<Rightarrow> dget records (REFRESH_PREFIX @ raw))
        in case r of
             None \<Rightarrow> (None, detect_refresh_reuse sha now raw cid p)
           | Some r \<Rightarrow>
               if rec_client r \<noteq> cid \<or> rec_expires r < now then (None, p)
               else (case r of
                       Spent _ _ _ \<Rightarrow> (None, p)
                     | Tok g \<Rightarrow> if checked_resource nr (g_resource g) p = None then (None, p)
                               else (Some g, p)))"

text \<open>Remembering a spent refresh token: the newest markers of the client are extended to the
  lifetime of the new family, the rest dropped.\<close>

definition spent_markers :: "pystr \<Rightarrow> (pystr, token_rec) dict \<Rightarrow> (pystr \<times> token_rec) list" where
  "spent_markers cid d =
     filter (\<lambda>(k, v). starts_with SPENT_PREFIX k \<and> rec_client v = cid) d"

fun spent_at :: "token_rec \<Rightarrow> int" where
  "spent_at (Spent c sa ex) = sa"
| "spent_at (Tok g) = 0"

fun extend_marker :: "int \<Rightarrow> token_rec \<Rightarrow> token_rec" where
  "extend_marker fe (Spent c sa ex) = Spent c sa (max ex fe)"
| "extend_marker fe (Tok g) = Tok (g\<lparr>g_expires := max (g_expires g) fe\<rparr>)"

definition remember_spent ::
  "(bytes \<Rightarrow> pystr) \<Rightarrow> int \<Rightarrow> pystr \<Rightarrow> pystr \<Rightarrow> int \<Rightarrow> (pystr, token_rec) dict \<Rightarrow> (pystr, token_rec) dict" where
  "remember_spent sha now raw cid ttl tokens =
     (let d = dset (SPENT_PREFIX @ sha256_hex sha raw) (Spent cid now (now + ttl)) tokens;
          markers = sort_key (\<lambda>kv. - spent_at (snd kv)) (spent_markers cid d);
          keep = map fst (take MAX_SPENT_PER_CLIENT markers);
          lost = map fst (drop MAX_SPENT_PER_CLIENT markers)
      in filter (\<lambda>(k, v). k \<notin> set lost)
           (map (\<lambda>(k, v). (k, if k \<in> set keep then extend_marker (now + ttl) v else v)) d))"

definition exchange_refresh_token ::
  "(bytes \<Rightarrow> pystr) \<Rightarrow> (pystr \<Rightarrow> pystr option) \<Rightarrow> int \<Rightarrow> pystr \<Rightarrow> pystr \<Rightarrow> pystr \<Rightarrow> pystr \<Rightarrow>
     pystr list \<Rightarrow> oauth \<Rightarrow> (oauth_error + issued) \<times> oauth" where
  "exchange_refresh_token sha nr now access refresh cid raw scopes p =
     (let tokens = load_store (o_tokens p) in
      case pop_key tokens raw (REFRESH_PREFIX @ hashed sha raw) (REFRESH_PREFIX @ raw) of
        None \<Rightarrow> (Inl InvalidGrant, p)
      | Some key \<Rightarrow>
          let r = the (dget tokens key); rest = ddel key tokens in
          if rec_client r \<noteq> cid then (Inl InvalidGrant, p)
          else if rec_expires r < now then (Inl InvalidGrant, p\<lparr>o_tokens := Held rest\<rparr>)
          else
            let p1 = p\<lparr>o_tokens := Held (remember_spent sha now raw cid (o_refresh_ttl p) rest)\<rparr> in
            (case r of
               Spent _ _ _ \<Rightarrow> (Inl InvalidGrant, p1)
             | Tok g \<Rightarrow>
                 (case checked_resource nr (g_resource g) p1 of
                    None \<Rightarrow> (Inl InvalidGrant, p1)
                  | Some resource \<Rightarrow>
                      let effective = (if scopes = [] then g_scopes g else scopes) in
                      if \<not> set effective \<subseteq> set (g_scopes g) then (Inl InvalidScope, p1)
                      else issue sha nr now access refresh cid effective resource p1)))"

definition revoke_token :: "(bytes \<Rightarrow> pystr) \<Rightarrow> pystr \<Rightarrow> oauth \<Rightarrow> oauth" where
  "revoke_token sha raw p =
     p\<lparr>o_tokens := Held (foldl (\<lambda>d k. ddel k d) (load_store (o_tokens p))
        [hashed sha raw, REFRESH_PREFIX @ hashed sha raw, raw, REFRESH_PREFIX @ raw])\<rparr>"

subsection \<open>The operator's commands\<close>

record client_row =
  cr_client :: pystr
  cr_approved :: bool
  cr_uris :: "pystr list"
  cr_legacy :: bool

text \<open>\<open>str_of\<close> is Python's \<open>str\<close> on a JSON value.\<close>

definition redirect_uris :: "(json \<Rightarrow> pystr) \<Rightarrow> json \<Rightarrow> pystr list" where
  "redirect_uris str_of v =
     (case v of
        JObj kvs \<Rightarrow> (case dget kvs (asc ''redirect_uris'') of
                       Some (JList us) \<Rightarrow> map str_of us | _ \<Rightarrow> [])
      | _ \<Rightarrow> [])"

definition list_clients :: "(json \<Rightarrow> pystr) \<Rightarrow> oauth \<Rightarrow> client_row list option" where
  "list_clients str_of p =
     (case (load_strict (o_approvals p), load_strict (o_clients p)) of
        (Some ap, Some cl) \<Rightarrow>
          Some (map (\<lambda>(cid, v).
              \<lparr>cr_client = cid,
               cr_approved = (case dget ap cid of None \<Rightarrow> False | Some a \<Rightarrow> ap_approved a),
               cr_uris = redirect_uris str_of v,
               cr_legacy = (case dget ap cid of None \<Rightarrow> False | Some a \<Rightarrow> ap_legacy a)\<rparr>)
             (sort_key fst cl))
      | _ \<Rightarrow> None)"

text \<open>\<open>None\<close>: a store is unreadable and the command raises.\<close>

definition approve_client :: "pystr \<Rightarrow> oauth \<Rightarrow> bool option \<times> oauth" where
  "approve_client cid p =
     (case load_strict (o_clients p) of
        None \<Rightarrow> (None, p)
      | Some cl \<Rightarrow>
          if dget cl cid = None then (Some False, p)
          else (case load_strict (o_approvals p) of
                  None \<Rightarrow> (None, p)
                | Some ap \<Rightarrow> (Some True, p\<lparr>o_approvals :=
                    Held (dset cid \<lparr>ap_approved = True, ap_legacy = False\<rparr> ap)\<rparr>)))"

definition drop_grants :: "('v \<Rightarrow> pystr) \<Rightarrow> pystr \<Rightarrow> (pystr, 'v) dict store \<Rightarrow> (pystr, 'v) dict store" where
  "drop_grants client cid st =
     (let d = load_store st; kept = filter (\<lambda>(k, v). client v \<noteq> cid) d in
      if length kept \<noteq> length d then Held kept else st)"

definition reject_client :: "pystr \<Rightarrow> oauth \<Rightarrow> bool option \<times> oauth" where
  "reject_client cid p =
     (case load_strict (o_clients p) of
        None \<Rightarrow> (None, p)
      | Some cl \<Rightarrow>
          if dget cl cid = None then (Some False, p)
          else
            let p1 = p\<lparr>o_clients := Held (ddel cid cl)\<rparr> in
            (case load_strict (o_approvals p1) of
               None \<Rightarrow> (None, p1)
             | Some ap \<Rightarrow>
                 (Some True, p1\<lparr>o_approvals := Held (ddel cid ap),
                    o_codes := drop_grants g_client cid (o_codes p1),
                    o_tokens := drop_grants rec_client cid (o_tokens p1)\<rparr>)))"

end
