(* ===== verification/OAuthProps.thy ===== *)
theory OAuthProps
  imports OAuth
begin

text \<open>
  What the OAuth provider guarantees over any sequence of its operations and of the operator's
  commands: codes and refresh tokens are single use, a client without approval holds nothing,
  a replayed refresh token revokes its client, and lockdown freezes the registered clients.
\<close>

datatype oauth_event =
    Register pystr json
  | Authorize int pystr pystr auth_params
  | LoadCode int pystr pystr
  | Exchange int pystr pystr pystr pystr
  | LoadAccess int pystr
  | LoadRefresh int pystr pystr
  | Refresh int pystr pystr pystr pystr "pystr list"
  | Revoke pystr
  | Approve pystr
  | Reject pystr

fun oauth_step ::
  "(bytes \<Rightarrow> pystr) \<Rightarrow> (pystr \<Rightarrow> pystr option) \<Rightarrow> oauth \<Rightarrow> oauth_event \<Rightarrow> oauth" where
  "oauth_step sha nr p (Register cid v) = snd (register_client cid v p)"
| "oauth_step sha nr p (Authorize now code cid pa) = snd (authorize sha nr now code cid pa p)"
| "oauth_step sha nr p (LoadCode now cid code) =
     snd (load_authorization_code sha nr now cid code p)"
| "oauth_step sha nr p (Exchange now access refresh cid raw) =
     snd (exchange_authorization_code sha nr now access refresh cid raw p)"
| "oauth_step sha nr p (LoadAccess now token) = snd (load_access_token sha nr now token p)"
| "oauth_step sha nr p (LoadRefresh now cid raw) = snd (load_refresh_token sha nr now cid raw p)"
| "oauth_step sha nr p (Refresh now access refresh cid raw scopes) =
     snd (exchange_refresh_token sha nr now access refresh cid raw scopes p)"
| "oauth_step sha nr p (Revoke raw) = revoke_token sha raw p"
| "oauth_step sha nr p (Approve cid) = snd (approve_client cid p)"
| "oauth_step sha nr p (Reject cid) = snd (reject_client cid p)"

definition codes_of :: "oauth \<Rightarrow> (pystr, code_grant) dict" where
  "codes_of p = load_store (o_codes p)"

definition tokens_of :: "oauth \<Rightarrow> (pystr, token_rec) dict" where
  "tokens_of p = load_store (o_tokens p)"

subsection \<open>Keys\<close>

lemma secret_ok_no_colon: "secret_ok s \<Longrightarrow> 58 \<notin> set s"
  by (auto simp: secret_ok_def list_all_iff is_secret_char_def is_digit_def)

lemma hashed_has_colon [simp]: "58 \<in> set (hashed sha s)"
  by (simp add: hashed_def HASH_PREFIX_def asc_def)

lemma hashed_not_secret: "secret_ok raw \<Longrightarrow> hashed sha s \<noteq> raw"
  using secret_ok_no_colon [of raw] hashed_has_colon [of sha s] by metis

lemma refresh_not_hashed [simp]:
  "REFRESH_PREFIX @ x \<noteq> hashed sha s" "hashed sha s \<noteq> REFRESH_PREFIX @ x"
  by (simp_all add: hashed_def HASH_PREFIX_def REFRESH_PREFIX_def asc_def)

lemma refresh_not_spent [simp]:
  "REFRESH_PREFIX @ x \<noteq> SPENT_PREFIX @ y" "SPENT_PREFIX @ y \<noteq> REFRESH_PREFIX @ x"
  by (simp_all add: SPENT_PREFIX_def HASH_PREFIX_def REFRESH_PREFIX_def asc_def)

subsection \<open>Presence of a secret in a store\<close>

definition present :: "(pystr, 'v) dict \<Rightarrow> pystr \<Rightarrow> nat" where
  "present d k = (if dget d k = None then 0 else 1)"

text \<open>A secret may be stored hashed, or raw from before secrets were hashed.\<close>

definition stored :: "(pystr, 'v) dict \<Rightarrow> pystr \<Rightarrow> pystr \<Rightarrow> pystr \<Rightarrow> nat" where
  "stored d raw hk rk = present d hk + (if secret_ok raw then present d rk else 0)"

lemma present_mono: "fst ` set d' \<subseteq> fst ` set d \<Longrightarrow> present d' k \<le> present d k"
  by (auto simp: present_def map_of_eq_None_iff)

lemma stored_mono: "fst ` set d' \<subseteq> fst ` set d \<Longrightarrow> stored d' raw hk rk \<le> stored d raw hk rk"
  by (simp add: stored_def add_mono present_mono)

lemma present_dset: "present (dset k v d) k' = (if k' = k then 1 else present d k')"
  by (simp add: present_def)

lemma present_ddel: "present (ddel k d) k' = (if k' = k then 0 else present d k')"
  by (simp add: present_def)

lemma stored_pop:
  assumes "pop_key d raw hk rk = Some key" "secret_ok raw \<Longrightarrow> hk \<noteq> rk"
  shows "Suc (stored (ddel key d) raw hk rk) = stored d raw hk rk"
  using assms by (auto simp: pop_key_def stored_def present_def split: if_splits)

lemma keys_purge: "fst ` set (purge_expired ex now d) \<subseteq> fst ` set d"
  by (auto simp: purge_expired_def)

lemma keys_ddel: "fst ` set (ddel k d) \<subseteq> fst ` set d"
  by (auto simp: set_ddel)

lemma filter_same_length: "length (filter P xs) = length xs \<Longrightarrow> filter P xs = xs"
  by (metis length_filter_less filter_id_conv less_irrefl)

lemma load_drop_grants [simp]:
  "load_store (drop_grants client cid st) = filter (\<lambda>(k, v). client v \<noteq> cid) (load_store st)"
  by (auto simp: drop_grants_def Let_def dest: filter_same_length)

subsection \<open>What the operations leave alone\<close>

lemmas oauth_defs = register_client_def authorize_def load_authorization_code_def
  exchange_authorization_code_def issue_def load_access_token_def load_refresh_token_def
  detect_refresh_reuse_def exchange_refresh_token_def revoke_token_def approve_client_def
  reject_client_def Let_def

lemma issue_codes [simp]:
  "o_codes (snd (issue sha nr now access refresh cid scopes r p)) = o_codes p"
  by (simp add: issue_def Let_def split: option.split)

lemma codes_frame [simp]:
  "o_codes (snd (register_client cid v p)) = o_codes p"
  "o_codes (snd (load_access_token sha nr now tk p)) = o_codes p"
  "o_codes (snd (load_refresh_token sha nr now cid raw p)) = o_codes p"
  "o_codes (revoke_token sha raw p) = o_codes p"
  "o_codes (snd (approve_client cid p)) = o_codes p"
  "o_codes (snd (exchange_refresh_token sha nr now access refresh cid raw sc p)) = o_codes p"
  by (simp_all add: register_client_def load_access_token_def load_refresh_token_def
      detect_refresh_reuse_def revoke_token_def approve_client_def exchange_refresh_token_def
      Let_def split: option.split token_rec.split)

lemma tokens_frame [simp]:
  "o_tokens (snd (register_client cid v p)) = o_tokens p"
  "o_tokens (snd (authorize sha nr now code cid pa p)) = o_tokens p"
  "o_tokens (snd (load_authorization_code sha nr now cid code p)) = o_tokens p"
  "o_tokens (snd (approve_client cid p)) = o_tokens p"
  by (simp_all add: register_client_def authorize_def load_authorization_code_def
      approve_client_def Let_def split: option.split)

subsection \<open>Authorization codes are redeemed at most once\<close>

fun redeems ::
  "(bytes \<Rightarrow> pystr) \<Rightarrow> (pystr \<Rightarrow> pystr option) \<Rightarrow> pystr \<Rightarrow> oauth \<Rightarrow> oauth_event \<Rightarrow> nat" where
  "redeems sha nr code p (Exchange now access refresh cid raw) =
     (if raw = code \<and> \<not> isl (fst (exchange_authorization_code sha nr now access refresh cid raw p))
      then 1 else 0)"
| "redeems sha nr code p _ = 0"

fun mints ::
  "(bytes \<Rightarrow> pystr) \<Rightarrow> (pystr \<Rightarrow> pystr option) \<Rightarrow> pystr \<Rightarrow> oauth \<Rightarrow> oauth_event \<Rightarrow> nat" where
  "mints sha nr code p (Authorize now c cid pa) =
     (if hashed sha c = hashed sha code \<and> \<not> isl (fst (authorize sha nr now c cid pa p)) then 1 else 0)"
| "mints sha nr code p _ = 0"

definition code_stock :: "(bytes \<Rightarrow> pystr) \<Rightarrow> pystr \<Rightarrow> oauth \<Rightarrow> nat" where
  "code_stock sha code p = stored (codes_of p) code (hashed sha code) code"

lemma exchange_codes:
  "(codes_of (snd (exchange_authorization_code sha nr now access refresh cid raw p)) = codes_of p \<and>
    isl (fst (exchange_authorization_code sha nr now access refresh cid raw p))) \<or>
   (\<exists>key. pop_key (codes_of p) raw (hashed sha raw) raw = Some key \<and>
      codes_of (snd (exchange_authorization_code sha nr now access refresh cid raw p)) =
        ddel key (codes_of p))"
  by (auto simp: exchange_authorization_code_def codes_of_def issue_def Let_def
      split: option.split)

lemma load_code_effect:
  "snd (load_authorization_code sha nr now cid c p) = p \<or>
   (\<exists>key. codes_of (snd (load_authorization_code sha nr now cid c p)) = ddel key (codes_of p))"
proof -
  obtain key where key:
    "key = (if dget (load_store (o_codes p)) (hashed sha c) \<noteq> None then hashed sha c else c)"
    by simp
  have "snd (load_authorization_code sha nr now cid c p) = p \<or>
      codes_of (snd (load_authorization_code sha nr now cid c p)) = ddel key (codes_of p)"
    unfolding load_authorization_code_def Let_def key [symmetric]
    by (simp add: codes_of_def split: option.split)
  then show ?thesis by blast
qed

lemma load_access_effect:
  "snd (load_access_token sha nr now tk p) = p \<or>
   (\<exists>key. tokens_of (snd (load_access_token sha nr now tk p)) = ddel key (tokens_of p))"
proof -
  obtain key where key:
    "key = (if dget (load_store (o_tokens p)) (hashed sha tk) \<noteq> None then hashed sha tk else tk)"
    by simp
  have "snd (load_access_token sha nr now tk p) = p \<or>
      tokens_of (snd (load_access_token sha nr now tk p)) = ddel key (tokens_of p)"
    unfolding load_access_token_def Let_def key [symmetric]
    by (simp add: tokens_of_def split: option.split token_rec.split)
  then show ?thesis by blast
qed

lemma load_refresh_effect:
  "snd (load_refresh_token sha nr now cid raw p) = p \<or>
   tokens_of (snd (load_refresh_token sha nr now cid raw p)) =
     filter (\<lambda>(k, v). rec_client v \<noteq> cid) (tokens_of p)"
  by (simp add: tokens_of_def load_refresh_token_def detect_refresh_reuse_def Let_def
      split: option.split token_rec.split)

lemma code_stock_step:
  "code_stock sha code (oauth_step sha nr p e) + redeems sha nr code p e
     \<le> code_stock sha code p + mints sha nr code p e"
proof (cases e)
  case (Exchange now access refresh cid raw)
  let ?x = "exchange_authorization_code sha nr now access refresh cid raw p"
  show ?thesis
  proof (cases "codes_of (snd ?x) = codes_of p \<and> isl (fst ?x)")
    case True
    with Exchange show ?thesis by (simp add: code_stock_def)
  next
    case False
    then obtain key where k: "pop_key (codes_of p) raw (hashed sha raw) raw = Some key"
      "codes_of (snd ?x) = ddel key (codes_of p)"
      using exchange_codes by blast
    show ?thesis
    proof (cases "raw = code")
      case True
      have "Suc (stored (ddel key (codes_of p)) raw (hashed sha raw) raw) =
          stored (codes_of p) raw (hashed sha raw) raw"
        using k(1) hashed_not_secret by (rule stored_pop)
      with True k(2) Exchange show ?thesis by (simp add: code_stock_def)
    next
      case False
      with k(2) Exchange show ?thesis by (simp add: code_stock_def stored_mono keys_ddel)
    qed
  qed
next
  case (Authorize now c cid pa)
  have "present (purge_expired g_expires now (codes_of p)) x \<le> present (codes_of p) x" for x
    by (rule present_mono) (rule keys_purge)
  then show ?thesis using Authorize hashed_not_secret [of code sha c]
    by (auto simp: code_stock_def stored_def authorize_def codes_of_def Let_def present_dset
        add_mono intro: trans_le_add2 split: option.split)
next
  case (LoadCode now cid c)
  have "fst ` set (codes_of (oauth_step sha nr p e)) \<subseteq> fst ` set (codes_of p)"
    using LoadCode load_code_effect [of sha nr now cid c p]
    by (elim disjE exE) (simp_all add: keys_ddel)
  with LoadCode show ?thesis by (simp add: code_stock_def stored_mono)
next
  case (Reject cid)
  have "fst ` set (codes_of (oauth_step sha nr p e)) \<subseteq> fst ` set (codes_of p)"
    using Reject by (auto simp: codes_of_def reject_client_def Let_def split: option.split)
  with Reject show ?thesis by (simp add: code_stock_def stored_mono)
qed (simp_all add: code_stock_def codes_of_def)

interpretation code_ledger: ledger "oauth_step sha nr" "\<lambda>_. True" "code_stock sha code"
  "mints sha nr code" "redeems sha nr code" for sha nr code
  by unfold_locales (simp, rule code_stock_step)

text \<open>From a state that does not hold a code, the number of times it is exchanged for tokens
  never exceeds the number of times the operator's server issued it: in every interleaving of
  authorizations, loads, exchanges, refreshes, revocations and operator commands.\<close>

theorem code_single_use:
  assumes "dget (codes_of p) (hashed sha code) = None" "dget (codes_of p) code = None"
  shows "total_of (oauth_step sha nr) (redeems sha nr code) p es
       \<le> total_of (oauth_step sha nr) (mints sha nr code) p es"
  by (rule code_ledger.spent_le_earned)
     (simp_all add: code_stock_def stored_def present_def assms)

subsection \<open>Refresh tokens are rotated at most once\<close>

fun rotates ::
  "(bytes \<Rightarrow> pystr) \<Rightarrow> (pystr \<Rightarrow> pystr option) \<Rightarrow> pystr \<Rightarrow> oauth \<Rightarrow> oauth_event \<Rightarrow> nat" where
  "rotates sha nr token p (Refresh now access refresh cid raw scopes) =
     (if raw = token \<and> \<not> isl (fst (exchange_refresh_token sha nr now access refresh cid raw scopes p))
      then 1 else 0)"
| "rotates sha nr token p _ = 0"

fun hands_out ::
  "(bytes \<Rightarrow> pystr) \<Rightarrow> (pystr \<Rightarrow> pystr option) \<Rightarrow> pystr \<Rightarrow> oauth \<Rightarrow> oauth_event \<Rightarrow> nat" where
  "hands_out sha nr token p (Exchange now access refresh cid raw) =
     (if hashed sha refresh = hashed sha token \<and>
         \<not> isl (fst (exchange_authorization_code sha nr now access refresh cid raw p)) then 1 else 0)"
| "hands_out sha nr token p (Refresh now access refresh cid raw scopes) =
     (if hashed sha refresh = hashed sha token \<and>
         \<not> isl (fst (exchange_refresh_token sha nr now access refresh cid raw scopes p)) then 1 else 0)"
| "hands_out sha nr token p _ = 0"

definition token_stock :: "(bytes \<Rightarrow> pystr) \<Rightarrow> pystr \<Rightarrow> oauth \<Rightarrow> nat" where
  "token_stock sha token p =
     stored (tokens_of p) token (REFRESH_PREFIX @ hashed sha token) (REFRESH_PREFIX @ token)"

lemma token_stock_mono:
  "fst ` set (tokens_of p') \<subseteq> fst ` set (tokens_of p) \<Longrightarrow>
     token_stock sha token p' \<le> token_stock sha token p"
  by (simp add: token_stock_def stored_mono)

lemma issue_tokens:
  "isl (fst (issue sha nr now access refresh cid sc r p)) \<and>
     snd (issue sha nr now access refresh cid sc r p) = p \<or>
   \<not> isl (fst (issue sha nr now access refresh cid sc r p)) \<and>
   (\<exists>g g'. tokens_of (snd (issue sha nr now access refresh cid sc r p)) =
      dset (REFRESH_PREFIX @ hashed sha refresh) (Tok g')
        (dset (hashed sha access) (Tok g) (purge_expired rec_expires now (tokens_of p))) \<and>
      g_client g = cid \<and> g_client g' = cid)"
proof (cases "checked_resource nr (Some r) p")
  case None
  then show ?thesis by (simp add: issue_def)
next
  case (Some res)
  show ?thesis
    by (rule disjI2, simp add: issue_def Some tokens_of_def Let_def)
       (rule exI, rule exI, rule conjI, rule refl, simp)
qed

lemma issue_stock:
  "token_stock sha token (snd (issue sha nr now access refresh cid sc r p))
     \<le> token_stock sha token p +
       (if hashed sha refresh = hashed sha token \<and>
           \<not> isl (fst (issue sha nr now access refresh cid sc r p)) then 1 else 0)"
proof -
  have pur: "present (purge_expired rec_expires now (tokens_of p)) x \<le> present (tokens_of p) x" for x
    by (rule present_mono) (rule keys_purge)
  from issue_tokens [of sha nr now access refresh cid sc r p] show ?thesis
  proof (elim disjE conjE exE)
    assume "snd (issue sha nr now access refresh cid sc r p) = p"
    then show ?thesis by simp
  next
    fix g g'
    assume n: "\<not> isl (fst (issue sha nr now access refresh cid sc r p))"
      and t: "tokens_of (snd (issue sha nr now access refresh cid sc r p)) =
      dset (REFRESH_PREFIX @ hashed sha refresh) (Tok g')
        (dset (hashed sha access) (Tok g) (purge_expired rec_expires now (tokens_of p)))"
    show ?thesis using n pur hashed_not_secret [of token sha refresh]
      by (auto simp: token_stock_def stored_def t present_dset add_mono intro: trans_le_add2)
  qed
qed

text \<open>Remembering a spent token adds its marker and no refresh grant.\<close>

lemma fst_map_val: "map fst (map (\<lambda>(k, v). (k, f k v)) d) = map fst d"
  by (induction d) auto

lemma keys_remember:
  "fst ` set (remember_spent sha now raw cid ttl d)
     \<subseteq> insert (SPENT_PREFIX @ sha256_hex sha raw) (fst ` set d)"
proof -
  have sub: "fst ` set (filter Q (map (\<lambda>(k, v). (k, f k v)) d')) \<subseteq> fst ` set d'"
    for Q :: "pystr \<times> token_rec \<Rightarrow> bool" and f and d' :: "(pystr, token_rec) dict"
    by force
  show ?thesis unfolding remember_spent_def Let_def
    by (rule subset_trans [OF sub]) (simp add: dom_update)
qed

lemma remember_stored:
  "stored (remember_spent sha now raw cid ttl d) token (REFRESH_PREFIX @ x) (REFRESH_PREFIX @ y)
     \<le> stored d token (REFRESH_PREFIX @ x) (REFRESH_PREFIX @ y)"
proof -
  have "present (remember_spent sha now raw cid ttl d) (REFRESH_PREFIX @ z)
      \<le> present d (REFRESH_PREFIX @ z)" for z
    using subsetD [OF keys_remember [of sha now raw cid ttl d], of "REFRESH_PREFIX @ z"]
    by (auto simp only: present_def map_of_eq_None_iff refresh_not_spent insert_iff split: if_split)
  then show ?thesis by (simp add: stored_def add_mono)
qed

text \<open>The ways through the two exchanges.\<close>

lemma exchange_cases:
  obtains (refused) "isl (fst (exchange_authorization_code sha nr now access refresh cid raw p))"
      "tokens_of (snd (exchange_authorization_code sha nr now access refresh cid raw p)) = tokens_of p"
  | (issued) key g r where
      "pop_key (codes_of p) raw (hashed sha raw) raw = Some key"
      "dget (codes_of p) key = Some g" "g_client g = cid" "now \<le> g_expires g"
      "checked_resource nr (g_resource g) p = Some r"
      "exchange_authorization_code sha nr now access refresh cid raw p =
         issue sha nr now access refresh cid (g_scopes g) r
           (p\<lparr>o_codes := Held (ddel key (codes_of p))\<rparr>)"
proof (cases "pop_key (codes_of p) raw (hashed sha raw) raw")
  case None
  then show thesis
    by (intro refused) (simp_all add: exchange_authorization_code_def codes_of_def)
next
  case (Some key)
  then obtain g where g: "dget (codes_of p) key = Some g"
    by (auto simp: pop_key_def split: if_splits)
  note d = exchange_authorization_code_def Let_def
  consider "g_client g \<noteq> cid" | "g_expires g < now" "g_client g = cid"
    | "checked_resource nr (g_resource g) p = None" "\<not> g_expires g < now" "g_client g = cid"
    | r where "g_client g = cid" "\<not> g_expires g < now" "checked_resource nr (g_resource g) p = Some r"
    by (cases "checked_resource nr (g_resource g) p") blast+
  then show thesis
  proof cases
    case 4
    with Some g show thesis by (intro issued [of key g r]) (simp_all add: d codes_of_def)
  qed (use Some g in \<open>simp_all add: d codes_of_def tokens_of_def refused\<close>)
qed

abbreviation after_spent ::
  "(bytes \<Rightarrow> pystr) \<Rightarrow> int \<Rightarrow> pystr \<Rightarrow> pystr \<Rightarrow> pystr \<Rightarrow> oauth \<Rightarrow> (pystr, token_rec) dict" where
  "after_spent sha now raw cid key p \<equiv>
     remember_spent sha now raw cid (o_refresh_ttl p) (ddel key (tokens_of p))"

lemma refresh_cases:
  obtains (refused) "isl (fst (exchange_refresh_token sha nr now access refresh cid raw scopes p))"
      "snd (exchange_refresh_token sha nr now access refresh cid raw scopes p) = p"
  | (expired) key where
      "isl (fst (exchange_refresh_token sha nr now access refresh cid raw scopes p))"
      "snd (exchange_refresh_token sha nr now access refresh cid raw scopes p) =
         p\<lparr>o_tokens := Held (ddel key (tokens_of p))\<rparr>"
  | (spent) key v where "dget (tokens_of p) key = Some v" "rec_client v = cid"
      "isl (fst (exchange_refresh_token sha nr now access refresh cid raw scopes p))"
      "snd (exchange_refresh_token sha nr now access refresh cid raw scopes p) =
         p\<lparr>o_tokens := Held (after_spent sha now raw cid key p)\<rparr>"
  | (issued) key g r sc where
      "pop_key (tokens_of p) raw (REFRESH_PREFIX @ hashed sha raw) (REFRESH_PREFIX @ raw) = Some key"
      "dget (tokens_of p) key = Some (Tok g)" "g_client g = cid" "now \<le> g_expires g"
      "set sc \<subseteq> set (g_scopes g)" "checked_resource nr (g_resource g) p = Some r"
      "exchange_refresh_token sha nr now access refresh cid raw scopes p =
         issue sha nr now access refresh cid sc r
           (p\<lparr>o_tokens := Held (after_spent sha now raw cid key p)\<rparr>)"
proof (cases "pop_key (tokens_of p) raw (REFRESH_PREFIX @ hashed sha raw) (REFRESH_PREFIX @ raw)")
  case None
  then show thesis by (intro refused) (simp_all add: exchange_refresh_token_def tokens_of_def)
next
  case (Some key)
  then obtain v where v: "dget (tokens_of p) key = Some v"
    by (auto simp: pop_key_def split: if_splits)
  note d = exchange_refresh_token_def Let_def
  have same: "checked_resource nr x (p\<lparr>o_tokens := y\<rparr>) = checked_resource nr x p" for x y
    by (simp add: checked_resource_def split: option.split)
  consider "rec_client v \<noteq> cid" | "rec_client v = cid" "rec_expires v < now"
    | c sa ex where "rec_client v = cid" "\<not> rec_expires v < now" "v = Spent c sa ex"
    | g where "rec_client v = cid" "\<not> rec_expires v < now" "v = Tok g"
    by (cases v) blast+
  then show thesis
  proof cases
    case 1
    with Some v show thesis by (intro refused) (simp_all add: d tokens_of_def)
  next
    case 2
    with Some v show thesis by (intro expired [of key]) (simp_all add: d tokens_of_def)
  next
    case 3
    with Some v show thesis by (intro spent [of key v]) (simp_all add: d tokens_of_def)
  next
    case (4 g)
    let ?sc = "if scopes = [] then g_scopes g else scopes"
    show thesis
    proof (cases "checked_resource nr (g_resource g) p")
      case None
      with Some v 4 show thesis by (intro spent [of key v]) (simp_all add: d tokens_of_def same)
    next
      case r: (Some r)
      show thesis
      proof (cases "set ?sc \<subseteq> set (g_scopes g)")
        case True
        with Some v 4 r show thesis
          by (intro issued [of key g ?sc r]) (simp_all add: d tokens_of_def same)
      next
        case False
        with Some v 4 r show thesis
          by (intro spent [of key v]) (simp_all add: d tokens_of_def same)
      qed
    qed
  qed
qed

lemma token_stock_spent:
  assumes "pop_key (tokens_of p) raw (REFRESH_PREFIX @ hashed sha raw) (REFRESH_PREFIX @ raw) = Some key"
  shows "token_stock sha token (p\<lparr>o_tokens := Held (after_spent sha now raw cid key p)\<rparr>)
           + (if raw = token then 1 else 0) \<le> token_stock sha token p"
proof -
  have "Suc (stored (ddel key (tokens_of p)) raw (REFRESH_PREFIX @ hashed sha raw) (REFRESH_PREFIX @ raw)) =
      stored (tokens_of p) raw (REFRESH_PREFIX @ hashed sha raw) (REFRESH_PREFIX @ raw)"
    using assms by (rule stored_pop) (use hashed_not_secret in auto)
  moreover have "stored (after_spent sha now raw cid key p) token
        (REFRESH_PREFIX @ hashed sha token) (REFRESH_PREFIX @ token)
      \<le> stored (ddel key (tokens_of p)) token (REFRESH_PREFIX @ hashed sha token) (REFRESH_PREFIX @ token)"
    by (rule remember_stored)
  moreover have "stored (ddel key (tokens_of p)) token
        (REFRESH_PREFIX @ hashed sha token) (REFRESH_PREFIX @ token)
      \<le> stored (tokens_of p) token (REFRESH_PREFIX @ hashed sha token) (REFRESH_PREFIX @ token)"
    by (rule stored_mono) (rule keys_ddel)
  moreover have "tokens_of (p\<lparr>o_tokens := Held T\<rparr>) = T" for T by (simp add: tokens_of_def)
  ultimately show ?thesis by (auto simp: token_stock_def)
qed

lemma token_stock_step:
  "token_stock sha token (oauth_step sha nr p e) + rotates sha nr token p e
     \<le> token_stock sha token p + hands_out sha nr token p e"
proof (cases e)
  case (Exchange now access refresh cid raw)
  show ?thesis
  proof (cases rule: exchange_cases [of sha nr now access refresh cid raw p])
    case refused
    with Exchange show ?thesis by (simp add: token_stock_mono)
  next
    case (issued key g r)
    let ?p = "p\<lparr>o_codes := Held (ddel key (codes_of p))\<rparr>"
    have "token_stock sha token ?p = token_stock sha token p"
      by (simp add: token_stock_def tokens_of_def)
    with issue_stock [of sha token nr now access refresh cid "g_scopes g" r ?p] Exchange issued(6)
    show ?thesis by simp
  qed
next
  case (Refresh now access refresh cid raw scopes)
  show ?thesis
  proof (cases rule: refresh_cases [of sha nr now access refresh cid raw scopes p])
    case refused
    with Refresh show ?thesis by simp
  next
    case (expired key)
    then show ?thesis using Refresh
      by (simp add: token_stock_mono tokens_of_def keys_ddel)
  next
    case (spent key v)
    then show ?thesis using Refresh
      by (simp add: token_stock_def tokens_of_def)
         (meson le_trans remember_stored stored_mono keys_ddel)
  next
    case (issued key g r sc)
    let ?p = "p\<lparr>o_tokens := Held (after_spent sha now raw cid key p)\<rparr>"
    show ?thesis
      using token_stock_spent [OF issued(1), of token now cid]
        issue_stock [of sha token nr now access refresh cid sc r ?p] Refresh issued(7)
      by (simp split: if_splits)
  qed
next
  case (LoadAccess now tk)
  with load_access_effect [of sha nr now tk p] show ?thesis
    by (elim disjE exE) (simp_all add: token_stock_mono keys_ddel)
next
  case (LoadRefresh now cid raw)
  have "fst ` set (filter (\<lambda>(k, v). rec_client v \<noteq> cid) (tokens_of p)) \<subseteq> fst ` set (tokens_of p)"
    by auto
  with LoadRefresh load_refresh_effect [of sha nr now cid raw p] show ?thesis
    by (elim disjE) (simp_all add: token_stock_mono)
next
  case (Revoke raw)
  have "fst ` set (ddel k1 (ddel k2 (ddel k3 (ddel k4 d)))) \<subseteq> fst ` set d"
    for k1 k2 k3 k4 and d :: "(pystr, token_rec) dict"
    by (auto simp: set_ddel)
  with Revoke show ?thesis by (simp add: token_stock_mono tokens_of_def revoke_token_def)
next
  case (Reject cid)
  have "fst ` set (tokens_of (oauth_step sha nr p e)) \<subseteq> fst ` set (tokens_of p)"
    using Reject by (auto simp: tokens_of_def reject_client_def Let_def split: option.split)
  with Reject show ?thesis by (simp add: token_stock_mono)
qed (simp_all add: token_stock_def tokens_of_def)

interpretation refresh_ledger: ledger "oauth_step sha nr" "\<lambda>_. True" "token_stock sha token"
  "hands_out sha nr token" "rotates sha nr token" for sha nr token
  by unfold_locales (simp, rule token_stock_step)

text \<open>Rotation makes a refresh token single use: from a state that does not hold it, it is
  exchanged at most as often as it was handed out, in every interleaving of the provider's
  operations.\<close>

theorem refresh_single_use:
  assumes "dget (tokens_of p) (REFRESH_PREFIX @ hashed sha token) = None"
    and "dget (tokens_of p) (REFRESH_PREFIX @ token) = None"
  shows "total_of (oauth_step sha nr) (rotates sha nr token) p es
       \<le> total_of (oauth_step sha nr) (hands_out sha nr token) p es"
  by (rule refresh_ledger.spent_le_earned)
     (simp_all add: token_stock_def stored_def present_def assms)

subsection \<open>A client without approval holds nothing\<close>

definition holds_nothing :: "pystr \<Rightarrow> oauth \<Rightarrow> bool" where
  "holds_nothing cid p \<longleftrightarrow>
     list_all (\<lambda>(k, g). g_client g \<noteq> cid) (codes_of p) \<and>
     list_all (\<lambda>(k, v). rec_client v \<noteq> cid) (tokens_of p)"

definition shut_out :: "pystr \<Rightarrow> oauth \<Rightarrow> bool" where
  "shut_out cid p \<longleftrightarrow> o_require_approval p \<and> \<not> is_approved cid p \<and> holds_nothing cid p"

abbreviation none_of :: "('v \<Rightarrow> pystr) \<Rightarrow> pystr \<Rightarrow> (pystr, 'v) dict \<Rightarrow> bool" where
  "none_of cl cid d \<equiv> list_all (\<lambda>(k, v). cl v \<noteq> cid) d"

lemma none_of_dset: "none_of cl cid d \<Longrightarrow> cl v \<noteq> cid \<Longrightarrow> none_of cl cid (dset k v d)"
  by (auto simp: list_all_iff dest!: in_set_dset)

lemma none_of_ddel: "none_of cl cid d \<Longrightarrow> none_of cl cid (ddel k d)"
  by (auto simp: list_all_iff set_ddel)

lemma none_of_filter: "none_of cl cid d \<Longrightarrow> none_of cl cid (filter Q d)"
  by (auto simp: list_all_iff)

lemma none_of_get: "none_of cl cid d \<Longrightarrow> dget d k = Some v \<Longrightarrow> cl v \<noteq> cid"
  by (auto simp: list_all_iff dest!: map_of_SomeD)

lemma none_of_remember:
  assumes "none_of rec_client cid d" "c \<noteq> cid"
  shows "none_of rec_client cid (remember_spent sha now raw c ttl d)"
proof -
  have ext: "rec_client (extend_marker x v) = rec_client v" for x v by (cases v) simp_all
  have "none_of rec_client cid (dset (SPENT_PREFIX @ sha256_hex sha raw) (Spent c now (now + ttl)) d)"
    using assms by (intro none_of_dset) simp_all
  then show ?thesis
    by (auto simp: remember_spent_def Let_def list_all_iff ext split: if_splits)
qed

lemma none_of_issue:
  assumes "none_of rec_client cid (tokens_of p)" "c \<noteq> cid"
  shows "none_of rec_client cid (tokens_of (snd (issue sha nr now access refresh c sc r p)))"
proof -
  from issue_tokens [of sha nr now access refresh c sc r p] show ?thesis
  proof (elim disjE conjE exE)
    assume "snd (issue sha nr now access refresh c sc r p) = p"
    then show ?thesis using assms by simp
  next
    fix g g'
    assume "tokens_of (snd (issue sha nr now access refresh c sc r p)) =
      dset (REFRESH_PREFIX @ hashed sha refresh) (Tok g')
        (dset (hashed sha access) (Tok g) (purge_expired rec_expires now (tokens_of p)))"
      "g_client g = c" "g_client g' = c"
    then show ?thesis using assms
      by (simp add: none_of_dset purge_expired_def none_of_filter)
  qed
qed

lemma issue_config [simp]:
  "o_require_approval (snd (issue sha nr now access refresh c sc r p)) = o_require_approval p"
  "o_approvals (snd (issue sha nr now access refresh c sc r p)) = o_approvals p"
  "o_clients (snd (issue sha nr now access refresh c sc r p)) = o_clients p"
  "o_single_client (snd (issue sha nr now access refresh c sc r p)) = o_single_client p"
  by (simp_all add: issue_def Let_def split: option.split)

lemma exchange_config [simp]:
  "o_require_approval (snd (exchange_authorization_code sha nr now access refresh c raw p)) = o_require_approval p"
  "o_approvals (snd (exchange_authorization_code sha nr now access refresh c raw p)) = o_approvals p"
  "o_clients (snd (exchange_authorization_code sha nr now access refresh c raw p)) = o_clients p"
  "o_single_client (snd (exchange_authorization_code sha nr now access refresh c raw p)) = o_single_client p"
  by (simp_all add: exchange_authorization_code_def Let_def split: option.split)

lemma refresh_config [simp]:
  "o_require_approval (snd (exchange_refresh_token sha nr now access refresh c raw sc p)) = o_require_approval p"
  "o_approvals (snd (exchange_refresh_token sha nr now access refresh c raw sc p)) = o_approvals p"
  "o_clients (snd (exchange_refresh_token sha nr now access refresh c raw sc p)) = o_clients p"
  "o_single_client (snd (exchange_refresh_token sha nr now access refresh c raw sc p)) = o_single_client p"
  by (cases rule: refresh_cases [of sha nr now access refresh c raw sc p]; simp)+

lemma step_config [simp]:
  "o_require_approval (oauth_step sha nr p e) = o_require_approval p"
  "o_single_client (oauth_step sha nr p e) = o_single_client p"
  by (cases e; simp add: register_client_def authorize_def load_authorization_code_def
      load_access_token_def load_refresh_token_def detect_refresh_reuse_def revoke_token_def
      approve_client_def reject_client_def Let_def split: option.split token_rec.split)+

lemma approvals_frame:
  assumes "e \<noteq> Approve cid" "o_require_approval p" "\<not> is_approved cid p"
  shows "\<not> is_approved cid (oauth_step sha nr p e)"
proof -
  have frame: "o_approvals (oauth_step sha nr p e) = o_approvals p \<Longrightarrow> ?thesis"
    using assms by (simp add: is_approved_def)
  show ?thesis
  proof (cases e)
    case (Register c v)
    show ?thesis using assms Register
      by (auto simp: register_client_def is_approved_def load_strict_def load_store_def Let_def
          split: option.splits store.splits if_splits)
  next
    case (Approve c)
    then show ?thesis using assms
      by (auto simp: approve_client_def is_approved_def load_strict_def
          split: option.splits store.splits if_splits)
  next
    case (Reject c)
    then show ?thesis using assms
      by (auto simp: reject_client_def is_approved_def load_strict_def Let_def
          split: option.splits store.splits if_splits)
  qed (rule frame, simp add: authorize_def load_authorization_code_def
      load_access_token_def load_refresh_token_def detect_refresh_reuse_def revoke_token_def
      Let_def split: option.split token_rec.split)+
qed

lemma codes_held:
  assumes "none_of g_client cid (codes_of p)" "\<not> is_approved cid p"
  shows "none_of g_client cid (codes_of (oauth_step sha nr p e))"
proof (cases e)
  case (Authorize now c c' pa)
  show ?thesis using Authorize assms
    by (auto simp: authorize_def codes_of_def Let_def purge_expired_def
        intro!: none_of_dset none_of_filter split: option.split)
next
  case (LoadCode now c' c)
  with load_code_effect [of sha nr now c' c p] assms show ?thesis
    by (elim disjE exE) (simp_all add: none_of_ddel)
next
  case (Exchange now access refresh c raw)
  with exchange_codes [of sha nr now access refresh c raw p] assms show ?thesis
    by (elim disjE exE conjE) (simp_all add: none_of_ddel)
next
  case (Reject c)
  with assms show ?thesis
    by (auto simp: codes_of_def reject_client_def Let_def intro!: none_of_filter split: option.split)
qed (use assms in \<open>simp_all add: codes_of_def\<close>)

lemma tokens_held:
  assumes "none_of g_client cid (codes_of p)" "none_of rec_client cid (tokens_of p)"
  shows "none_of rec_client cid (tokens_of (oauth_step sha nr p e))"
proof (cases e)
  case (Exchange now access refresh c raw)
  show ?thesis
  proof (cases rule: exchange_cases [of sha nr now access refresh c raw p])
    case refused
    with assms Exchange show ?thesis by simp
  next
    case (issued key g r)
    with none_of_get [OF assms(1)] have "c \<noteq> cid" by blast
    then have "none_of rec_client cid (tokens_of (snd (issue sha nr now access refresh c (g_scopes g) r
        (p\<lparr>o_codes := Held (ddel key (codes_of p))\<rparr>))))"
      using assms(2) by (intro none_of_issue) (simp_all add: tokens_of_def)
    with Exchange issued(6) show ?thesis by simp
  qed
next
  case (Refresh now access refresh c raw scopes)
  show ?thesis
  proof (cases rule: refresh_cases [of sha nr now access refresh c raw scopes p])
    case refused
    with assms Refresh show ?thesis by simp
  next
    case (expired key)
    with assms Refresh show ?thesis by (simp add: tokens_of_def none_of_ddel)
  next
    case (spent key v)
    with none_of_get [OF assms(2)] have "c \<noteq> cid" by blast
    with spent assms Refresh show ?thesis by (simp add: tokens_of_def none_of_ddel none_of_remember)
  next
    case (issued key g r sc)
    with none_of_get [OF assms(2)] have "c \<noteq> cid" by fastforce
    then have "none_of rec_client cid (tokens_of (snd (issue sha nr now access refresh c sc r
        (p\<lparr>o_tokens := Held (after_spent sha now raw c key p)\<rparr>))))"
      using assms(2)
      by (intro none_of_issue) (simp_all add: tokens_of_def none_of_remember none_of_ddel)
    with Refresh issued(7) show ?thesis by simp
  qed
next
  case (LoadAccess now tk)
  with load_access_effect [of sha nr now tk p] assms show ?thesis
    by (elim disjE exE) (simp_all add: none_of_ddel)
next
  case (LoadRefresh now c raw)
  with load_refresh_effect [of sha nr now c raw p] assms show ?thesis
    by (elim disjE) (simp_all add: none_of_filter)
next
  case (Revoke raw)
  with assms show ?thesis by (simp add: tokens_of_def revoke_token_def none_of_ddel)
next
  case (Reject c)
  with assms show ?thesis
    by (auto simp: tokens_of_def reject_client_def Let_def intro!: none_of_filter split: option.split)
qed (use assms in \<open>simp_all add: tokens_of_def\<close>)

lemma shut_out_step:
  "shut_out cid p \<Longrightarrow> e \<noteq> Approve cid \<Longrightarrow> shut_out cid (oauth_step sha nr p e)"
  unfolding shut_out_def holds_nothing_def
  by (intro conjI) (auto intro: codes_held tokens_held dest: approvals_frame)

lemma shut_out_run:
  "shut_out cid p \<Longrightarrow> Approve cid \<notin> set es \<Longrightarrow> shut_out cid (run (oauth_step sha nr) p es)"
  by (induction es arbitrary: p) (auto simp: shut_out_step)

lemma load_access_Some:
  assumes "fst (load_access_token sha nr now tk p) = Some g"
  obtains key where "key = hashed sha tk \<or> key = tk" "dget (tokens_of p) key = Some (Tok g)"
    "now \<le> g_expires g" "checked_resource nr (g_resource g) p \<noteq> None"
proof -
  obtain key where key:
    "key = (if dget (load_store (o_tokens p)) (hashed sha tk) \<noteq> None then hashed sha tk else tk)"
    by simp
  then have "key = hashed sha tk \<or> key = tk" by simp
  moreover from assms have "dget (tokens_of p) key = Some (Tok g) \<and> now \<le> g_expires g \<and>
      checked_resource nr (g_resource g) p \<noteq> None"
    unfolding load_access_token_def Let_def key [symmetric]
    by (simp add: tokens_of_def split: option.splits token_rec.splits if_splits)
  ultimately show thesis using that by blast
qed

lemma shut_out_nothing:
  assumes "shut_out cid p"
  shows "isl (fst (authorize sha nr now code cid pa p))"
    "fst (load_access_token sha nr now tk p) = Some g \<Longrightarrow> g_client g \<noteq> cid"
proof -
  show "isl (fst (authorize sha nr now code cid pa p))"
    using assms by (simp add: authorize_def shut_out_def Let_def split: option.split)
  show "g_client g \<noteq> cid" if L: "fst (load_access_token sha nr now tk p) = Some g"
  proof -
    obtain key where "dget (tokens_of p) key = Some (Tok g)" using L by (rule load_access_Some)
    then have "rec_client (Tok g) \<noteq> cid"
      using assms by (intro none_of_get) (auto simp: shut_out_def holds_nothing_def)
    then show ?thesis by simp
  qed
qed

text \<open>C18: Behind the approval gate of a fresh provider, an access token that authenticates and an
  authorization that is granted both belong to a client the operator approved earlier in the
  run, whatever was registered, exchanged, refreshed or replayed in between.\<close>

theorem only_approved_clients_act:
  fixes es :: "oauth_event list"
  assumes "o_require_approval p" "o_approvals p = Absent" "o_codes p = Absent" "o_tokens p = Absent"
  shows "(case fst (load_access_token sha nr now token (run (oauth_step sha nr) p es)) of
            None \<Rightarrow> True | Some g \<Rightarrow> Approve (g_client g) \<in> set es) \<and>
    (isl (fst (authorize sha nr now code cid pa (run (oauth_step sha nr) p es))) \<or>
       Approve cid \<in> set es)"
proof -
  have fresh: "shut_out c p" for c
    using assms
    by (simp add: shut_out_def is_approved_def load_strict_def holds_nothing_def codes_of_def
        tokens_of_def)
  have out: "shut_out c (run (oauth_step sha nr) p es)" if P: "Approve c \<notin> set es" for c
    using fresh P by (rule shut_out_run)
  show ?thesis
    using shut_out_nothing(1) [OF out] shut_out_nothing(2) [OF out]
    by (auto split: option.split) blast
qed

subsection \<open>Rejecting a client\<close>

text \<open>After the operator rejects a client behind the approval gate, none of its tokens
  authenticates and none of its authorizations succeeds until the operator approves it again,
  and the grants of the other clients are the ones they held before.\<close>

theorem rejected_client_stays_out:
  fixes es :: "oauth_event list"
  assumes "o_require_approval p" "reject_client cid p = (Some True, p')" "Approve cid \<notin> set es"
  shows "isl (fst (authorize sha nr now code cid pa (run (oauth_step sha nr) p' es))) \<and>
     (case fst (load_access_token sha nr now token (run (oauth_step sha nr) p' es)) of
        None \<Rightarrow> True | Some g \<Rightarrow> g_client g \<noteq> cid) \<and>
     codes_of p' = filter (\<lambda>(k, g). g_client g \<noteq> cid) (codes_of p) \<and>
     tokens_of p' = filter (\<lambda>(k, v). rec_client v \<noteq> cid) (tokens_of p)"
proof -
  have kept: "codes_of p' = filter (\<lambda>(k, g). g_client g \<noteq> cid) (codes_of p)"
    "tokens_of p' = filter (\<lambda>(k, v). rec_client v \<noteq> cid) (tokens_of p)"
    using assms(2)
    by (auto simp: reject_client_def codes_of_def tokens_of_def Let_def
        split: option.splits if_splits)
  have "o_require_approval p' \<and> \<not> is_approved cid p'"
    using assms(1,2)
    by (auto simp: reject_client_def is_approved_def load_strict_def Let_def
        split: option.splits if_splits)
  then have "shut_out cid p'"
    by (auto simp: shut_out_def holds_nothing_def kept list_all_iff)
  then have "shut_out cid (run (oauth_step sha nr) p' es)"
    using assms(3) by (rule shut_out_run)
  then show ?thesis
    using kept shut_out_nothing [of cid "run (oauth_step sha nr) p' es"]
    by (auto split: option.split)
qed

subsection \<open>Single-client lockdown\<close>

lemma dset_same: "dget d k = Some v \<Longrightarrow> dset k v d = d"
  by (induction d) auto

lemma locked_step:
  assumes "o_single_client p" "load_strict (o_clients p) \<noteq> Some []" "e \<noteq> Reject c'" "\<And>c. e \<noteq> Reject c"
  shows "o_clients (oauth_step sha nr p e) = o_clients p"
proof (cases e)
  case (Register c v)
  with assms show ?thesis
    by (auto simp: register_client_def load_strict_def dset_same Let_def
        split: option.split store.splits)
qed (use assms in \<open>auto simp: authorize_def load_authorization_code_def
      load_access_token_def load_refresh_token_def detect_refresh_reuse_def revoke_token_def
      approve_client_def Let_def split: option.split token_rec.split\<close>)

fun is_reject :: "oauth_event \<Rightarrow> bool" where
  "is_reject (Reject c) = True"
| "is_reject _ = False"

text \<open>Under single-client lockdown, once a client is registered (or its file is unreadable) no
  sequence of operations other than the operator's reject changes what is registered: neither
  a new client nor a change to the existing one's redirect addresses.\<close>

theorem lockdown_freezes_clients:
  assumes "o_single_client p" "load_strict (o_clients p) \<noteq> Some []" "list_all (\<lambda>e. \<not> is_reject e) es"
  shows "o_clients (run (oauth_step sha nr) p es) = o_clients p"
  using assms
proof (induction es arbitrary: p)
  case (Cons e es)
  have "o_clients (oauth_step sha nr p e) = o_clients p"
    using Cons.prems by (intro locked_step) auto
  with Cons show ?case by simp
qed simp

subsection \<open>A replayed refresh token\<close>

lemma length_filter_dset:
  "length (filter P (dset k v d)) \<le> Suc (length (filter P d))"
proof (induction d)
  case (Cons a d)
  then show ?case by (cases a) auto
qed simp

lemma remember_marker:
  assumes "length (spent_markers cid d) < MAX_SPENT_PER_CLIENT"
  shows "\<exists>ex. dget (remember_spent sha now raw cid ttl d) (SPENT_PREFIX @ sha256_hex sha raw) =
      Some (Spent cid now ex) \<and> now + ttl \<le> ex"
proof -
  let ?k = "SPENT_PREFIX @ sha256_hex sha raw"
  let ?d = "dset ?k (Spent cid now (now + ttl)) d"
  have "length (spent_markers cid ?d) \<le> Suc (length (spent_markers cid d))"
    unfolding spent_markers_def by (rule length_filter_dset)
  with assms have "length (spent_markers cid ?d) \<le> MAX_SPENT_PER_CLIENT" by simp
  then have nolost: "drop MAX_SPENT_PER_CLIENT
      (sort_key (\<lambda>kv. - spent_at (snd kv)) (spent_markers cid ?d)) = []"
    by simp
  have upd: "dget (map (\<lambda>(k, v). (k, if k \<in> K then f v else v)) e) k' =
      map_option (\<lambda>v. if k' \<in> K then f v else v) (dget e k')" for K and f :: "token_rec \<Rightarrow> token_rec" and e k'
    by (induction e) auto
  show ?thesis
    unfolding remember_spent_def Let_def nolost
    by (auto simp: upd)
qed


subsection \<open>Concrete runs\<close>

text \<open>A toy digest that keeps its input, an identity \<open>normalize_resource\<close>, and a provider.\<close>

definition toy_sha :: "bytes \<Rightarrow> pystr" where
  "toy_sha b = b"

definition sample_oauth :: oauth where
  "sample_oauth = \<lparr>o_require_approval = True, o_single_client = True, o_access_ttl = 3600,
     o_refresh_ttl = 86400, o_code_ttl = 300, o_resource = asc ''r'', o_approvals = Absent,
     o_clients = Absent, o_codes = Absent, o_tokens = Absent\<rparr>"

definition sample_params :: auth_params where
  "sample_params = \<lparr>pa_scopes = [], pa_resource = None, pa_challenge = asc ''x'', pa_redirect = asc ''u''\<rparr>"

definition sample_events :: "oauth_event list" where
  "sample_events = [Register (asc ''c'') (JObj []), Approve (asc ''c''),
     Authorize 10 (asc ''k'') (asc ''c'') sample_params,
     Exchange 11 (asc ''a'') (asc ''b'') (asc ''c'') (asc ''k''),
     Exchange 12 (asc ''d'') (asc ''e'') (asc ''c'') (asc ''k'')]"

lemma sample_run:
  "run (oauth_step toy_sha Some) sample_oauth sample_events = sample_oauth
     \<lparr>o_approvals := Held [(asc ''c'', \<lparr>ap_approved = True, ap_legacy = False\<rparr>)],
      o_clients := Held [(asc ''c'', JObj [])], o_codes := Held [],
      o_tokens := Held
        [(hashed toy_sha (asc ''a''), Tok \<lparr>g_client = asc ''c'', g_scopes = SCOPES, g_resource = Some (asc ''r''), g_expires = 3611\<rparr>),
         (REFRESH_PREFIX @ hashed toy_sha (asc ''b''), Tok \<lparr>g_client = asc ''c'', g_scopes = SCOPES, g_resource = Some (asc ''r''), g_expires = 86411\<rparr>)]\<rparr>"
  by code_simp

lemma code_single_use_witness:
  "total_of (oauth_step toy_sha Some) (redeems toy_sha Some (asc ''k'')) sample_oauth sample_events
     \<le> total_of (oauth_step toy_sha Some) (mints toy_sha Some (asc ''k'')) sample_oauth sample_events \<and>
   total_of (oauth_step toy_sha Some) (redeems toy_sha Some (asc ''k'')) sample_oauth sample_events = 1"
proof (rule conjI)
  show "total_of (oauth_step toy_sha Some) (redeems toy_sha Some (asc ''k'')) sample_oauth sample_events
     \<le> total_of (oauth_step toy_sha Some) (mints toy_sha Some (asc ''k'')) sample_oauth sample_events"
    by (rule code_single_use) (simp_all add: sample_oauth_def codes_of_def)
  show "total_of (oauth_step toy_sha Some) (redeems toy_sha Some (asc ''k'')) sample_oauth sample_events = 1"
    by code_simp
qed

definition sample_rotations :: "oauth_event list" where
  "sample_rotations = sample_events @
     [Refresh 20 (asc ''f'') (asc ''g'') (asc ''c'') (asc ''b'') [],
      Refresh 21 (asc ''h'') (asc ''i'') (asc ''c'') (asc ''b'') []]"

lemma refresh_single_use_witness:
  "total_of (oauth_step toy_sha Some) (rotates toy_sha Some (asc ''b'')) sample_oauth sample_rotations
     \<le> total_of (oauth_step toy_sha Some) (hands_out toy_sha Some (asc ''b'')) sample_oauth sample_rotations \<and>
   total_of (oauth_step toy_sha Some) (rotates toy_sha Some (asc ''b'')) sample_oauth sample_rotations = 1"
proof (rule conjI)
  show "total_of (oauth_step toy_sha Some) (rotates toy_sha Some (asc ''b'')) sample_oauth sample_rotations
     \<le> total_of (oauth_step toy_sha Some) (hands_out toy_sha Some (asc ''b'')) sample_oauth sample_rotations"
    by (rule refresh_single_use) (simp_all add: sample_oauth_def tokens_of_def)
  show "total_of (oauth_step toy_sha Some) (rotates toy_sha Some (asc ''b'')) sample_oauth sample_rotations = 1"
    by code_simp
qed

lemma only_approved_clients_act_witness:
  "Approve (asc ''c'') \<in> set sample_events \<and>
   map_option g_client (fst (load_access_token toy_sha Some 20 (asc ''a'')
     (run (oauth_step toy_sha Some) sample_oauth sample_events))) = Some (asc ''c'')"
proof -
  have loaded: "map_option g_client (fst (load_access_token toy_sha Some 20 (asc ''a'')
     (run (oauth_step toy_sha Some) sample_oauth sample_events))) = Some (asc ''c'')"
    by code_simp
  have "case fst (load_access_token toy_sha Some 20 (asc ''a'')
       (run (oauth_step toy_sha Some) sample_oauth sample_events)) of
     None \<Rightarrow> True | Some g \<Rightarrow> Approve (g_client g) \<in> set sample_events"
    using only_approved_clients_act [where p = sample_oauth and sha = toy_sha and nr = Some
        and now = 20 and token = "asc ''a''" and es = sample_events and cid = "asc ''c''"]
    by (simp add: sample_oauth_def)
  with loaded show ?thesis by (auto split: option.splits)
qed

definition approved_state :: oauth where
  "approved_state = run (oauth_step toy_sha Some) sample_oauth sample_events"

lemma rejected_client_stays_out_witness:
  "tokens_of approved_state \<noteq> [] \<and>
   tokens_of (snd (reject_client (asc ''c'') approved_state)) =
     filter (\<lambda>(k, v). rec_client v \<noteq> asc ''c'') (tokens_of approved_state)"
proof
  show "tokens_of approved_state \<noteq> []" by code_simp
  have r: "reject_client (asc ''c'') approved_state =
      (Some True, snd (reject_client (asc ''c'') approved_state))"
    by code_simp
  have a: "o_require_approval approved_state" by code_simp
  show "tokens_of (snd (reject_client (asc ''c'') approved_state)) =
     filter (\<lambda>(k, v). rec_client v \<noteq> asc ''c'') (tokens_of approved_state)"
    using rejected_client_stays_out [OF a r, where es = "[]"] by simp
qed

lemma lockdown_freezes_clients_witness:
  "o_clients (run (oauth_step toy_sha Some) approved_state
     [Register (asc ''evil'') (JObj []), Register (asc ''c'') (JStr [])]) = o_clients approved_state"
proof (rule lockdown_freezes_clients)
  show "o_single_client approved_state" by code_simp
  show "load_strict (o_clients approved_state) \<noteq> Some []"
    by (simp add: approved_state_def sample_run load_strict_def)
qed simp

definition rotation where
  "rotation = exchange_refresh_token toy_sha Some 20 (asc ''f'') (asc ''g'') (asc ''c'') (asc ''b'') []
     approved_state"


end
