(* ===== verification/Sessions.thy ===== *)
theory Sessions
  imports Machines Util
begin

text \<open>
  \<open>src/relay_shell/sessions.py\<close>: the session registry and its sessions. A session is a record;
  the registry keeps the session objects (\<open>rg_objs\<close>: a waiting \<open>recv\<close> may still hold one that
  is no longer registered), the registered ids in order (\<open>rg_live\<close>) and the calls made to the
  transports. The steps are the stretches of code between two \<open>await\<close>s. Clock readings, fresh
  ids and return codes are arguments.
\<close>

subsection \<open>Lines, prompts and character boundaries\<close>

definition lastn :: "nat \<Rightarrow> 'a list \<Rightarrow> 'a list" where
  "lastn n xs = drop (length xs - n) xs"

definition LINE_RESET :: "nat list" where
  "LINE_RESET = [10, 13, 3, 21]"

definition PENDING_MAX :: nat where
  "PENDING_MAX = 4096"

definition TAIL_BYTES :: nat where
  "TAIL_BYTES = 512"

text \<open>The text after the last character that ends or discards the line.\<close>

definition after_reset :: "pystr \<Rightarrow> pystr" where
  "after_reset t = rev (takeWhile (\<lambda>c. c \<notin> set LINE_RESET) (rev t))"

definition advance_line :: "pystr \<Rightarrow> pystr \<Rightarrow> pystr" where
  "advance_line pending typed =
     lastn PENDING_MAX
       (if list_ex (\<lambda>c. c \<in> set LINE_RESET) typed then after_reset typed else pending @ typed)"

text \<open>\<open>_ANSI_RE.sub\<close>: CSI sequences (parameters, intermediates, one final byte) and OSC sequences
  (up to BEL or ESC backslash).\<close>

definition csi_rest :: "bytes \<Rightarrow> bytes option" where
  "csi_rest bs =
     (case dropWhile (\<lambda>b. 32 \<le> b \<and> b \<le> 47)
        (dropWhile (\<lambda>b. (48 \<le> b \<and> b \<le> 57) \<or> b = 59 \<or> b = 63) bs) of
        [] \<Rightarrow> None
      | b # r \<Rightarrow> if 64 \<le> b \<and> b \<le> 126 then Some r else None)"

definition osc_rest :: "bytes \<Rightarrow> bytes option" where
  "osc_rest bs =
     (case dropWhile (\<lambda>b. b \<noteq> 7 \<and> b \<noteq> 27) bs of
        [] \<Rightarrow> None
      | b # r \<Rightarrow> if b = 7 then Some r
                 else (case r of [] \<Rightarrow> None | c # r' \<Rightarrow> if c = 92 then Some r' else None))"

definition ansi_rest :: "bytes \<Rightarrow> bytes option" where
  "ansi_rest bs =
     (case bs of
        b # k # r \<Rightarrow> if b \<noteq> 27 then None
          else if k = 91 then csi_rest r else if k = 93 then osc_rest r else None
      | _ \<Rightarrow> None)"

lemma length_dropWhile_lt: "dropWhile P xs = y # ys \<Longrightarrow> length ys < length xs"
  using length_dropWhile_le [of P xs] by simp

lemma ansi_rest_shorter: "ansi_rest bs = Some r \<Longrightarrow> length r < length bs"
proof -
  have csi: "length r < length xs" if C: "csi_rest xs = Some r" for xs
  proof -
    let ?u = "dropWhile (\<lambda>b. (48 \<le> b \<and> b \<le> 57) \<or> b = 59 \<or> b = 63) xs"
    from C obtain b where "dropWhile (\<lambda>b. 32 \<le> b \<and> b \<le> 47) ?u = b # r"
      by (auto simp: csi_rest_def split: list.splits if_splits)
    then have "length r < length ?u" by (rule length_dropWhile_lt)
    also have "\<dots> \<le> length xs" by (rule length_dropWhile_le)
    finally show ?thesis .
  qed
  have osc: "length r < length xs" if C: "osc_rest xs = Some r" for xs
    using C by (auto simp: osc_rest_def split: list.splits if_splits dest!: length_dropWhile_lt)
  show "ansi_rest bs = Some r \<Longrightarrow> length r < length bs"
    by (auto simp: ansi_rest_def split: list.splits if_splits dest!: csi osc)
qed

function strip_ansi :: "bytes \<Rightarrow> bytes" where
  "strip_ansi bs =
     (case ansi_rest bs of
        Some r \<Rightarrow> strip_ansi r
      | None \<Rightarrow> (case bs of [] \<Rightarrow> [] | b # r \<Rightarrow> b # strip_ansi r))"
  by pat_completeness auto
termination
  by (relation "measure length") (auto dest: ansi_rest_shorter)

declare strip_ansi.simps [simp del]

definition rstrip_blank :: "pystr \<Rightarrow> pystr" where
  "rstrip_blank s = rev (dropWhile (\<lambda>c. c = 32 \<or> c = 9) (rev s))"

text \<open>\<open>search\<close> is \<open>patterns.SECRET_PROMPT_PATTERN.search\<close>.\<close>

definition looks_like_secret_prompt :: "(pystr \<Rightarrow> bool) \<Rightarrow> bytes \<Rightarrow> bool" where
  "looks_like_secret_prompt search tail =
     (let txt = rstrip_blank (utf8_decode (strip_ansi tail))
      in search (rev (takeWhile (\<lambda>c. c \<noteq> 13 \<and> c \<noteq> 10) (rev txt))))"

primrec cut_back :: "bytes \<Rightarrow> nat \<Rightarrow> nat \<Rightarrow> nat" where
  "cut_back data limit 0 = 0"
| "cut_back data limit (Suc e) =
     (if limit - Suc e < 4 \<and> is_cont (data ! Suc e) then cut_back data limit e else Suc e)"

definition utf8_cut :: "bytes \<Rightarrow> nat \<Rightarrow> nat" where
  "utf8_cut data limit =
     (if length data \<le> limit then length data
      else let e = cut_back data limit limit
           in if e > 0 \<and> \<not> is_cont (data ! e) then e else limit)"

subsection \<open>A session\<close>

record session =
  ss_id :: pystr
  ss_kind :: pystr
  ss_title :: pystr
  ss_cols :: int
  ss_rows :: int
  ss_created :: real
  ss_last_used :: real
  ss_buffer :: bytes
  ss_produced :: nat
  ss_dropped :: nat
  ss_closed :: bool
  ss_exit :: "int option"
  ss_event :: bool
  ss_reading :: bool
  ss_waiters :: nat
  ss_pending :: pystr
  ss_tail :: bytes

definition new_session :: "real \<Rightarrow> pystr \<Rightarrow> pystr \<Rightarrow> pystr \<Rightarrow> int \<Rightarrow> int \<Rightarrow> session" where
  "new_session now sid kind title cols rows =
     \<lparr>ss_id = sid, ss_kind = kind, ss_title = title, ss_cols = cols, ss_rows = rows,
      ss_created = now, ss_last_used = now, ss_buffer = [], ss_produced = 0, ss_dropped = 0,
      ss_closed = False, ss_exit = None, ss_event = False, ss_reading = True, ss_waiters = 0,
      ss_pending = [], ss_tail = []\<rparr>"

definition sink :: "nat \<Rightarrow> bytes \<Rightarrow> session \<Rightarrow> session" where
  "sink cap data s =
     (let buf = ss_buffer s @ data; overflow = length buf - cap in
      s\<lparr>ss_produced := ss_produced s + length data,
        ss_tail := lastn TAIL_BYTES (ss_tail s @ data),
        ss_buffer := drop overflow buf,
        ss_dropped := ss_dropped s + overflow,
        ss_event := True\<rparr>)"

definition reader_end :: "int option \<Rightarrow> session \<Rightarrow> session" where
  "reader_end rc s = s\<lparr>ss_closed := True, ss_exit := rc, ss_event := True, ss_reading := False\<rparr>"

definition send_input :: "real \<Rightarrow> bytes \<Rightarrow> session \<Rightarrow> session" where
  "send_input now data s =
     s\<lparr>ss_last_used := now, ss_pending := advance_line (ss_pending s) (utf8_decode data),
       ss_tail := []\<rparr>"

text \<open>\<open>recv\<close>: entering, one pass of its loop under the buffer lock, and leaving.\<close>

datatype poll =
    Chunk bytes
  | Ended "int option"
  | Empty

definition recv_enter :: "real \<Rightarrow> session \<Rightarrow> session" where
  "recv_enter now s = s\<lparr>ss_last_used := now, ss_waiters := Suc (ss_waiters s)\<rparr>"

definition recv_poll :: "nat \<Rightarrow> session \<Rightarrow> poll \<times> session" where
  "recv_poll max_bytes s =
     (if ss_buffer s \<noteq> []
      then
        let n = utf8_cut (ss_buffer s) max_bytes; rest = drop n (ss_buffer s)
        in (Chunk (take n (ss_buffer s)),
            s\<lparr>ss_buffer := rest,
              ss_event := (if rest = [] \<and> \<not> ss_closed s then False else ss_event s)\<rparr>)
      else if ss_closed s then (Ended (ss_exit s), s)
      else (Empty, s\<lparr>ss_event := False\<rparr>))"

definition recv_leave :: "real \<Rightarrow> session \<Rightarrow> session" where
  "recv_leave now s = s\<lparr>ss_waiters := ss_waiters s - 1, ss_last_used := now\<rparr>"

definition ended_text :: "pystr \<Rightarrow> int option \<Rightarrow> pystr" where
  "ended_text sid x =
     [10] @ asc ''[session '' @ sid @ asc '' ended'' @
     (case x of None \<Rightarrow> [] | Some c \<Rightarrow> asc '', exit='' @ show_int c) @ asc '']''"

text \<open>What \<open>recv\<close> returns for a pass, \<open>None\<close> when it goes on to wait.\<close>

definition poll_text :: "pystr \<Rightarrow> poll \<Rightarrow> pystr option" where
  "poll_text sid r =
     (case r of Chunk b \<Rightarrow> Some (utf8_decode b) | Ended x \<Rightarrow> Some (ended_text sid x) | Empty \<Rightarrow> None)"

subsection \<open>The registry\<close>

datatype session_error =
    SessionLimit nat
  | UnknownSession pystr

datatype transport_call =
    TWrite pystr bytes
  | TResize pystr int int
  | TSignal pystr int
  | TClose pystr

record registry =
  rg_objs :: "(pystr, session) dict"
  rg_live :: "pystr list"
  rg_max :: nat
  rg_idle :: real
  rg_cap :: nat
  rg_calls :: "transport_call list"

definition registry_init :: "nat \<Rightarrow> real \<Rightarrow> nat \<Rightarrow> registry" where
  "registry_init n idle cap =
     \<lparr>rg_objs = [], rg_live = [], rg_max = n, rg_idle = idle, rg_cap = cap, rg_calls = []\<rparr>"

text \<open>An update of the session object \<open>sid\<close>.\<close>

definition on_session :: "pystr \<Rightarrow> (session \<Rightarrow> session) \<Rightarrow> registry \<Rightarrow> registry" where
  "on_session sid f r =
     (case dget (rg_objs r) sid of
        None \<Rightarrow> r
      | Some s \<Rightarrow> r\<lparr>rg_objs := dset sid (f s) (rg_objs r)\<rparr>)"

definition log_call :: "transport_call \<Rightarrow> registry \<Rightarrow> registry" where
  "log_call c r = r\<lparr>rg_calls := rg_calls r @ [c]\<rparr>"

definition get_session :: "pystr \<Rightarrow> registry \<Rightarrow> session_error + session" where
  "get_session sid r =
     (if sid \<in> set (rg_live r)
      then (case dget (rg_objs r) sid of None \<Rightarrow> Inl (UnknownSession sid) | Some s \<Rightarrow> Inr s)
      else Inl (UnknownSession sid))"

text \<open>Teardown: the reader is cancelled (its \<open>finally\<close> records the return code), the transport
  closed, the session marked closed.\<close>

definition teardown :: "(pystr \<Rightarrow> int option) \<Rightarrow> pystr \<Rightarrow> registry \<Rightarrow> registry" where
  "teardown rc sid r =
     log_call (TClose sid)
       (on_session sid (\<lambda>s. (if ss_reading s then reader_end (rc sid) s else s)\<lparr>ss_closed := True\<rparr>) r)"

definition doomed :: "real \<Rightarrow> registry \<Rightarrow> pystr \<Rightarrow> bool" where
  "doomed now r sid =
     (case dget (rg_objs r) sid of
        None \<Rightarrow> False
      | Some s \<Rightarrow>
          let idle = now - ss_last_used s in
          ss_waiters s = 0 \<and> ((ss_closed s \<and> ss_buffer s = [] \<and> idle > 5) \<or> idle > rg_idle r))"

definition sweep :: "(pystr \<Rightarrow> int option) \<Rightarrow> real \<Rightarrow> registry \<Rightarrow> registry" where
  "sweep rc now r =
     foldl (\<lambda>r sid. teardown rc sid r)
       (r\<lparr>rg_live := filter (\<lambda>sid. \<not> doomed now r sid) (rg_live r)\<rparr>)
       (filter (doomed now r) (rg_live r))"

definition add_session ::
  "(pystr \<Rightarrow> int option) \<Rightarrow> real \<Rightarrow> pystr \<Rightarrow> pystr \<Rightarrow> pystr \<Rightarrow> int \<Rightarrow> int \<Rightarrow> registry \<Rightarrow>
     (session_error + session) \<times> registry" where
  "add_session rc now sid kind title cols rows r0 =
     (let r = sweep rc now r0 in
      if length (rg_live r) \<ge> rg_max r then (Inl (SessionLimit (rg_max r)), r)
      else let s = new_session now sid kind title cols rows in
        (Inr s, r\<lparr>rg_objs := dset sid s (rg_objs r),
                  rg_live := (if sid \<in> set (rg_live r) then rg_live r else rg_live r @ [sid])\<rparr>))"

text \<open>\<open>Relay.register_session\<close>: a refused transport is closed before the error propagates.\<close>

definition register_session ::
  "(pystr \<Rightarrow> int option) \<Rightarrow> real \<Rightarrow> pystr \<Rightarrow> pystr \<Rightarrow> pystr \<Rightarrow> int \<Rightarrow> int \<Rightarrow> registry \<Rightarrow>
     (session_error + session) \<times> registry" where
  "register_session rc now sid kind title cols rows r0 =
     (case add_session rc now sid kind title cols rows r0 of
        (Inl e, r) \<Rightarrow> (Inl e, log_call (TClose sid) r)
      | (Inr s, r) \<Rightarrow> (Inr s, r))"

definition pending_input :: "pystr \<Rightarrow> registry \<Rightarrow> pystr" where
  "pending_input sid r = (case get_session sid r of Inl _ \<Rightarrow> [] | Inr s \<Rightarrow> ss_pending s)"

text \<open>\<open>echo_off\<close>: what the transport's \<open>echo_off()\<close> answers (\<open>False\<close> when it has none or raises).\<close>

definition awaiting_secret :: "(pystr \<Rightarrow> bool) \<Rightarrow> (pystr \<Rightarrow> bool) \<Rightarrow> pystr \<Rightarrow> registry \<Rightarrow> bool" where
  "awaiting_secret search echo_off sid r =
     (case get_session sid r of
        Inl _ \<Rightarrow> False
      | Inr s \<Rightarrow> if echo_off sid then True else looks_like_secret_prompt search (ss_tail s))"

definition session_send ::
  "real \<Rightarrow> pystr \<Rightarrow> bytes \<Rightarrow> registry \<Rightarrow> (session_error + unit) \<times> registry" where
  "session_send now sid data r =
     (case get_session sid r of
        Inl e \<Rightarrow> (Inl e, r)
      | Inr _ \<Rightarrow> (Inr (), log_call (TWrite sid data) (on_session sid (send_input now data) r)))"

definition session_resize ::
  "real \<Rightarrow> pystr \<Rightarrow> int \<Rightarrow> int \<Rightarrow> registry \<Rightarrow> (session_error + unit) \<times> registry" where
  "session_resize now sid cols rows r =
     (case get_session sid r of
        Inl e \<Rightarrow> (Inl e, r)
      | Inr _ \<Rightarrow> (Inr (), log_call (TResize sid cols rows)
          (on_session sid (\<lambda>s. s\<lparr>ss_cols := cols, ss_rows := rows, ss_last_used := now\<rparr>) r)))"

definition session_kill ::
  "real \<Rightarrow> pystr \<Rightarrow> int \<Rightarrow> registry \<Rightarrow> (session_error + unit) \<times> registry" where
  "session_kill now sid sig r =
     (case get_session sid r of
        Inl e \<Rightarrow> (Inl e, r)
      | Inr _ \<Rightarrow> (Inr (), on_session sid (\<lambda>s. s\<lparr>ss_last_used := now\<rparr>) (log_call (TSignal sid sig) r)))"

definition session_close ::
  "(pystr \<Rightarrow> int option) \<Rightarrow> pystr \<Rightarrow> registry \<Rightarrow> (session_error + unit) \<times> registry" where
  "session_close rc sid r =
     (if sid \<in> set (rg_live r)
      then (Inr (), teardown rc sid (r\<lparr>rg_live := removeAll sid (rg_live r)\<rparr>))
      else (Inl (UnknownSession sid), r))"

definition shutdown :: "(pystr \<Rightarrow> int option) \<Rightarrow> registry \<Rightarrow> registry" where
  "shutdown rc r = foldl (\<lambda>r sid. teardown rc sid r) (r\<lparr>rg_live := []\<rparr>) (rg_live r)"

definition session_count :: "registry \<Rightarrow> nat" where
  "session_count r = length (rg_live r)"

text \<open>\<open>recv\<close> from its entry on: \<open>_get\<close>, then the object is held until it leaves.\<close>

definition recv_begin :: "real \<Rightarrow> pystr \<Rightarrow> registry \<Rightarrow> (session_error + unit) \<times> registry" where
  "recv_begin now sid r =
     (case get_session sid r of
        Inl e \<Rightarrow> (Inl e, r)
      | Inr _ \<Rightarrow> (Inr (), on_session sid (recv_enter now) r))"

subsection \<open>The registry as a machine\<close>

datatype session_event =
    Added real pystr pystr pystr int int
  | Output pystr bytes
  | ReaderEnds pystr "int option"
  | Sent real pystr bytes
  | RecvBegins real pystr
  | RecvPolls pystr nat
  | RecvEnds real pystr
  | Resized real pystr int int
  | Killed real pystr int
  | Closed pystr
  | Listed real
  | Shutdown

fun registry_step :: "(pystr \<Rightarrow> int option) \<Rightarrow> registry \<Rightarrow> session_event \<Rightarrow> registry" where
  "registry_step rc r (Added now sid kind title cols rows) =
     snd (register_session rc now sid kind title cols rows r)"
| "registry_step rc r (Output sid data) = on_session sid (sink (rg_cap r) data) r"
| "registry_step rc r (ReaderEnds sid x) = on_session sid (reader_end x) r"
| "registry_step rc r (Sent now sid data) = snd (session_send now sid data r)"
| "registry_step rc r (RecvBegins now sid) = snd (recv_begin now sid r)"
| "registry_step rc r (RecvPolls sid n) = on_session sid (\<lambda>s. snd (recv_poll n s)) r"
| "registry_step rc r (RecvEnds now sid) = on_session sid (recv_leave now) r"
| "registry_step rc r (Resized now sid cols rows) = snd (session_resize now sid cols rows r)"
| "registry_step rc r (Killed now sid sig) = snd (session_kill now sid sig r)"
| "registry_step rc r (Closed sid) = snd (session_close rc sid r)"
| "registry_step rc r (Listed now) = sweep rc now r"
| "registry_step rc r Shutdown = shutdown rc r"

end
