(* ===== verification/SessionProps.thy ===== *)
theory SessionProps
  imports Sessions
begin

text \<open>
  What the session registry guarantees along any run: bounds, wakeups, the byte stream a reader
  sees, the line the policy classifies, and the teardown of every transport.
\<close>

subsection \<open>Suffixes and lines\<close>

lemma length_lastn [simp]: "length (lastn n xs) = min n (length xs)"
  by (simp add: lastn_def)

lemma lastn_append: "lastn n (lastn n xs @ ys) = lastn n (xs @ ys)"
  by (cases "length xs \<le> n") (auto simp: lastn_def add.commute)

lemma after_reset_append:
  "after_reset (a @ b) =
     (if list_ex (\<lambda>c. c \<in> set LINE_RESET) b then after_reset b else after_reset a @ b)"
proof (cases "list_ex (\<lambda>c. c \<in> set LINE_RESET) b")
  case True
  then obtain x where "x \<in> set (rev b)" "\<not> x \<notin> set LINE_RESET" by (auto simp: list_ex_iff)
  then show ?thesis using True by (simp add: after_reset_def takeWhile_append1)
next
  case False
  then have "\<And>x. x \<in> set (rev b) \<Longrightarrow> x \<notin> set LINE_RESET" by (auto simp: list_ex_iff)
  then have "takeWhile (\<lambda>c. c \<notin> set LINE_RESET) (rev b @ rev a) =
      rev b @ takeWhile (\<lambda>c. c \<notin> set LINE_RESET) (rev a)"
    by (intro takeWhile_append2) simp
  then show ?thesis using False by (simp add: after_reset_def)
qed

text \<open>How the text is cut into sends does not matter.\<close>

lemma advance_append: "advance_line (advance_line p a) b = advance_line p (a @ b)"
  using lastn_append [of PENDING_MAX "p @ a" b]
  by (simp add: advance_line_def after_reset_append lastn_append)

lemma advance_Nil: "length p \<le> PENDING_MAX \<Longrightarrow> advance_line p [] = p"
  by (simp add: advance_line_def lastn_def)

subsection \<open>Effects on one session object\<close>

definition obj :: "pystr \<Rightarrow> registry \<Rightarrow> session option" where
  "obj sid r = dget (rg_objs r) sid"

lemma obj_on_session [simp]:
  "obj x (on_session sid f r) = (if x = sid then map_option f (obj x r) else obj x r)"
  by (auto simp: obj_def on_session_def split: option.split)

lemma on_session_frame [simp]:
  "rg_live (on_session sid f r) = rg_live r" "rg_calls (on_session sid f r) = rg_calls r"
  "rg_max (on_session sid f r) = rg_max r" "rg_cap (on_session sid f r) = rg_cap r"
  "rg_idle (on_session sid f r) = rg_idle r"
  by (simp_all add: on_session_def split: option.split)

lemma log_call_frame [simp]:
  "obj x (log_call c r) = obj x r" "rg_live (log_call c r) = rg_live r"
  "rg_max (log_call c r) = rg_max r" "rg_cap (log_call c r) = rg_cap r"
  "rg_idle (log_call c r) = rg_idle r" "rg_calls (log_call c r) = rg_calls r @ [c]"
  by (simp_all add: log_call_def obj_def)

definition ended :: "int option \<Rightarrow> session \<Rightarrow> session" where
  "ended x s = (if ss_reading s then reader_end x s else s)\<lparr>ss_closed := True\<rparr>"

lemma teardown_eqs [simp]:
  "obj x (teardown rc sid r) = (if x = sid then map_option (ended (rc sid)) (obj x r) else obj x r)"
  "rg_live (teardown rc sid r) = rg_live r" "rg_calls (teardown rc sid r) = rg_calls r @ [TClose sid]"
  "rg_max (teardown rc sid r) = rg_max r" "rg_cap (teardown rc sid r) = rg_cap r"
  by (auto simp: teardown_def ended_def [abs_def])

lemma teardowns [simp]:
  "rg_live (foldl (\<lambda>r sid. teardown rc sid r) r xs) = rg_live r"
  "rg_max (foldl (\<lambda>r sid. teardown rc sid r) r xs) = rg_max r"
  "rg_cap (foldl (\<lambda>r sid. teardown rc sid r) r xs) = rg_cap r"
  "rg_calls (foldl (\<lambda>r sid. teardown rc sid r) r xs) = rg_calls r @ map TClose xs"
  by (induction xs arbitrary: r) simp_all

lemma ended_idem [simp]: "ended x (ended x s) = ended x s"
  by (simp add: ended_def reader_end_def)

lemma teardowns_obj [simp]:
  "obj x (foldl (\<lambda>r sid. teardown rc sid r) r xs) =
     (if x \<in> set xs then map_option (ended (rc x)) (obj x r) else obj x r)"
  by (induction xs arbitrary: r) (auto simp: option.map_comp comp_def)

lemma rg_live_update [simp]: "obj x (r\<lparr>rg_live := l\<rparr>) = obj x r"
  by (simp add: obj_def)

lemma sweep_eqs [simp]:
  "rg_live (sweep rc now r) = filter (\<lambda>sid. \<not> doomed now r sid) (rg_live r)"
  "rg_max (sweep rc now r) = rg_max r" "rg_cap (sweep rc now r) = rg_cap r"
  "rg_calls (sweep rc now r) = rg_calls r @ map TClose (filter (doomed now r) (rg_live r))"
  by (simp_all add: sweep_def)

lemma sweep_obj:
  "obj x (sweep rc now r) =
     (if doomed now r x \<and> x \<in> set (rg_live r) then map_option (ended (rc x)) (obj x r) else obj x r)"
  by (auto simp: sweep_def)

text \<open>One event acts on one session object in one of these ways.\<close>

inductive acts :: "nat \<Rightarrow> session_event \<Rightarrow> session \<Rightarrow> session \<Rightarrow> bool" for cap where
  act_none: "acts cap e s s"
| act_sink: "acts cap (Output sid data) s (sink cap data s)"
| act_reader: "acts cap (ReaderEnds sid x) s (reader_end x s)"
| act_ended: "acts cap e s (ended x s)"
| act_sent: "acts cap (Sent now sid data) s (send_input now data s)"
| act_enter: "acts cap (RecvBegins now sid) s (recv_enter now s)"
| act_poll: "acts cap (RecvPolls sid n) s (snd (recv_poll n s))"
| act_leave: "acts cap (RecvEnds now sid) s (recv_leave now s)"
| act_size: "acts cap (Resized now sid c w) s (s\<lparr>ss_cols := c, ss_rows := w, ss_last_used := now\<rparr>)"
| act_used: "acts cap (Killed now sid g) s (s\<lparr>ss_last_used := now\<rparr>)"
| act_new: "acts cap (Added now sid k t c w) s (new_session now sid k t c w)"

inductive_cases act_outputE: "acts cap (Output sid data) s s'"
inductive_cases act_pollE: "acts cap (RecvPolls sid n) s s'"
inductive_cases act_sentE: "acts cap (Sent now sid data) s s'"

lemmas registry_defs = register_session_def add_session_def session_send_def session_resize_def
  session_kill_def session_close_def shutdown_def recv_begin_def

lemma added_obj:
  "obj x (registry_step rc r (Added now sid kind title cols rows)) =
     (if length (rg_live (sweep rc now r)) \<ge> rg_max r then obj x (sweep rc now r)
      else if x = sid then Some (new_session now sid kind title cols rows)
      else obj x (sweep rc now r))"
proof (cases "length (rg_live (sweep rc now r)) \<ge> rg_max r")
  case True
  then show ?thesis by (simp add: registry_defs Let_def)
next
  case False
  then show ?thesis by (simp add: registry_defs Let_def obj_def)
qed

lemma step_acts:
  assumes "obj x r = Some s"
  shows "\<exists>s'. obj x (registry_step rc r e) = Some s' \<and> acts (rg_cap r) e s s'"
proof (cases e)
  case (Added now sid kind title cols rows)
  have sw: "\<exists>s'. obj x (sweep rc now r) = Some s' \<and> acts (rg_cap r) e s s'"
    using assms by (auto simp: sweep_obj intro: act_none act_ended)
  show ?thesis using sw by (auto simp only: Added added_obj split: if_split intro: act_new)
next
  case (Listed now)
  then show ?thesis using assms by (auto simp: sweep_obj intro: act_none act_ended)
qed (use assms in \<open>auto simp: registry_defs intro: acts.intros split: sum.split\<close>)

lemma step_cap [simp]: "rg_cap (registry_step rc r e) = rg_cap r"
  and step_max [simp]: "rg_max (registry_step rc r e) = rg_max r"
  by (cases e; simp add: registry_defs Let_def split: sum.split)+

lemma step_new_obj:
  assumes "obj x r = None" "obj x (registry_step rc r e) = Some s"
  obtains now kind title cols rows where "e = Added now x kind title cols rows"
    "s = new_session now x kind title cols rows"
proof (cases e)
  case (Added now sid kind title cols rows)
  have sw: "obj x (sweep rc now r) = None" using assms by (simp add: sweep_obj)
  have "x = sid \<and> s = new_session now sid kind title cols rows"
    using assms(2) sw by (auto simp only: Added added_obj split: if_splits)
  then show thesis using Added that by blast
qed (use assms in \<open>auto simp: registry_defs sweep_obj split: sum.splits if_splits\<close>)

subsection \<open>Bounds and wakeups\<close>

definition session_ok :: "nat \<Rightarrow> session \<Rightarrow> bool" where
  "session_ok cap s \<longleftrightarrow>
     length (ss_buffer s) \<le> cap \<and> length (ss_tail s) \<le> TAIL_BYTES \<and>
     length (ss_pending s) \<le> PENDING_MAX \<and>
     (ss_event s \<or> ss_buffer s = [] \<and> \<not> ss_closed s) \<and>
     (ss_reading s \<or> ss_closed s \<and> ss_event s)"

lemma new_session_ok [simp]: "session_ok cap (new_session now sid k t c w)"
  by (simp add: session_ok_def new_session_def)

lemma recv_poll_ok: "session_ok cap s \<Longrightarrow> session_ok cap (snd (recv_poll n s))"
  by (auto simp: recv_poll_def session_ok_def Let_def)

lemma acts_ok: "acts cap e s s' \<Longrightarrow> session_ok cap s \<Longrightarrow> session_ok cap s'"
proof (induction rule: acts.induct)
  case (act_poll sid n s)
  then show ?case by (rule recv_poll_ok)
qed (auto simp: session_ok_def sink_def reader_end_def ended_def send_input_def recv_enter_def
       recv_leave_def new_session_def advance_line_def Let_def)

definition registry_ok :: "registry \<Rightarrow> bool" where
  "registry_ok r \<longleftrightarrow>
     distinct (rg_live r) \<and> length (rg_live r) \<le> rg_max r \<and>
     (\<forall>x. case obj x r of None \<Rightarrow> x \<notin> set (rg_live r) | Some s \<Rightarrow> session_ok (rg_cap r) s)"

lemma step_live:
  "set (rg_live (registry_step rc r e)) \<subseteq> set (rg_live r) \<union>
     (case e of Added now sid kind title cols rows \<Rightarrow> {sid} | _ \<Rightarrow> {})"
  by (cases e) (auto simp: registry_defs Let_def split: sum.splits)

lemma added_live_obj:
  "x \<in> set (rg_live (registry_step rc r (Added now x k t c w))) \<Longrightarrow> x \<notin> set (rg_live r) \<Longrightarrow>
     obj x (registry_step rc r (Added now x k t c w)) \<noteq> None"
  by (auto simp: registry_defs Let_def obj_def split: if_splits)

lemma registry_ok_step:
  assumes "registry_ok r"
  shows "registry_ok (registry_step rc r e)"
proof -
  have "distinct (rg_live (registry_step rc r e)) \<and>
      length (rg_live (registry_step rc r e)) \<le> rg_max r"
    using assms
    by (cases e)
       (auto simp: registry_ok_def registry_defs Let_def distinct_removeAll
         length_filter_le [THEN le_trans] length_removeAll_less_eq [THEN le_trans]
         split: sum.split)
  moreover have "case obj x (registry_step rc r e) of
      None \<Rightarrow> x \<notin> set (rg_live (registry_step rc r e)) | Some s \<Rightarrow> session_ok (rg_cap r) s" for x
  proof (cases "obj x r")
    case (Some s)
    then obtain s' where "obj x (registry_step rc r e) = Some s'" "acts (rg_cap r) e s s'"
      using step_acts by blast
    moreover have "session_ok (rg_cap r) s"
      using assms Some by (auto simp: registry_ok_def split: option.splits dest: spec [of _ x])
    ultimately show ?thesis by (auto dest: acts_ok)
  next
    case None
    then have nl: "x \<notin> set (rg_live r)"
      using assms by (auto simp: registry_ok_def split: option.splits dest: spec [of _ x])
    show ?thesis
    proof (cases "obj x (registry_step rc r e)")
      case n: None
      have "x \<notin> set (rg_live (registry_step rc r e))"
      proof
        assume l: "x \<in> set (rg_live (registry_step rc r e))"
        then obtain now k t c w where e: "e = Added now x k t c w"
          using nl subsetD [OF step_live [of rc r e], of x] by (cases e) auto
        show False using added_live_obj [OF l [unfolded e] nl] n e by simp
      qed
      with n show ?thesis by simp
    next
      case (Some s)
      with None obtain now kind title cols rows where "s = new_session now x kind title cols rows"
        by (rule step_new_obj)
      with Some show ?thesis by simp
    qed
  qed
  ultimately show ?thesis unfolding registry_ok_def step_cap step_max by blast
qed

interpretation registry_inv: machine_inv "registry_step rc" registry_ok for rc
  by unfold_locales (rule registry_ok_step)

lemma registry_init_ok [simp]: "registry_ok (registry_init n idle cap)"
  by (simp add: registry_ok_def registry_init_def obj_def)

lemma run_cap [simp]: "rg_cap (run (registry_step rc) r es) = rg_cap r"
  and run_max [simp]: "rg_max (run (registry_step rc) r es) = rg_max r"
  by (induction es arbitrary: r) simp_all

text \<open>In every run the registry holds at most its maximum of sessions, every session's buffer,
  prompt tail and pending line stay within their caps, and no wakeup is lost: a session with
  output to read or an end to report has its event set.\<close>

theorem session_envelope:
  "length (rg_live (run (registry_step rc) (registry_init n idle cap) es)) \<le> n \<and>
   (case dget (rg_objs (run (registry_step rc) (registry_init n idle cap) es)) sid of
      None \<Rightarrow> True
    | Some s \<Rightarrow> length (ss_buffer s) \<le> cap \<and> length (ss_tail s) \<le> TAIL_BYTES \<and>
        length (ss_pending s) \<le> PENDING_MAX \<and>
        (ss_event s \<or> ss_buffer s = [] \<and> \<not> ss_closed s))"
proof -
  let ?r = "run (registry_step rc) (registry_init n idle cap) es"
  have "registry_ok ?r" by (rule registry_inv.inv_run) simp
  moreover have "rg_max ?r = n" "rg_cap ?r = cap" by (simp_all add: registry_init_def)
  ultimately show ?thesis
    by (auto simp: registry_ok_def session_ok_def obj_def split: option.splits dest: spec [of _ sid])
qed

subsection \<open>The byte stream\<close>

fun output_ev :: "pystr \<Rightarrow> session_event \<Rightarrow> bytes" where
  "output_ev sid (Output x data) = (if x = sid then data else [])"
| "output_ev sid _ = []"

definition output_of :: "pystr \<Rightarrow> session_event list \<Rightarrow> bytes" where
  "output_of sid es = concat (map (output_ev sid) es)"

fun received_ev :: "pystr \<Rightarrow> registry \<Rightarrow> session_event \<Rightarrow> bytes" where
  "received_ev sid r (RecvPolls x n) =
     (if x \<noteq> sid then [] else case dget (rg_objs r) sid of
        None \<Rightarrow> []
      | Some s \<Rightarrow> (case fst (recv_poll n s) of Chunk b \<Rightarrow> b | _ \<Rightarrow> []))"
| "received_ev sid r _ = []"

primrec received :: "(pystr \<Rightarrow> int option) \<Rightarrow> pystr \<Rightarrow> registry \<Rightarrow> session_event list \<Rightarrow> bytes" where
  "received rc sid r [] = []"
| "received rc sid r (e # es) = received_ev sid r e @ received rc sid (registry_step rc r e) es"

text \<open>What was produced is what was delivered or dropped, then the buffer.\<close>

definition stream_ok :: "bytes \<Rightarrow> bytes \<Rightarrow> session \<Rightarrow> bool" where
  "stream_ok sent got s \<longleftrightarrow>
     (\<exists>past. sent = past @ ss_buffer s \<and> length past = ss_dropped s + length got \<and>
       ss_produced s = length sent \<and> (ss_dropped s = 0 \<longrightarrow> past = got))"

lemma stream_ok_account:
  assumes "stream_ok sent got s"
  shows "length sent = ss_dropped s + length got + length (ss_buffer s) \<and>
     ss_produced s = length sent \<and> ss_buffer s = drop (ss_dropped s + length got) sent \<and>
     (ss_dropped s = 0 \<longrightarrow> got @ ss_buffer s = sent)"
  using assms by (auto simp: stream_ok_def)

lemma stream_sink:
  assumes "stream_ok sent got s"
  shows "stream_ok (sent @ data) got (sink cap data s)"
proof -
  obtain past where p: "sent = past @ ss_buffer s" "length past = ss_dropped s + length got"
    "ss_produced s = length sent" "ss_dropped s = 0 \<longrightarrow> past = got"
    using assms by (auto simp: stream_ok_def)
  define buf where "buf = ss_buffer s @ data"
  define ov where "ov = length buf - cap"
  have fields: "ss_buffer (sink cap data s) = drop ov buf" "ss_dropped (sink cap data s) = ss_dropped s + ov"
    "ss_produced (sink cap data s) = length (sent @ data)"
    using p(3) by (simp_all add: sink_def Let_def buf_def ov_def)
  have "sent @ data = (past @ take ov buf) @ drop ov buf"
    unfolding append.assoc append_take_drop_id by (simp add: p(1) buf_def)
  moreover have "length (past @ take ov buf) = (ss_dropped s + ov) + length got"
    using p(2) by (simp add: ov_def)
  moreover have "ss_dropped s + ov = 0 \<longrightarrow> past @ take ov buf = got"
    using p(4) by simp
  ultimately show ?thesis
    unfolding stream_ok_def fields by (intro exI [of _ "past @ take ov buf"] conjI refl)
qed

lemma cut_back_le: "cut_back data m k \<le> k"
  by (induction k) auto

lemma utf8_cut_le: "utf8_cut data n \<le> length data"
  using cut_back_le [of data n n] by (simp add: utf8_cut_def Let_def)

lemma stream_poll:
  assumes "stream_ok sent got s"
  shows "stream_ok sent (got @ (case fst (recv_poll n s) of Chunk b \<Rightarrow> b | _ \<Rightarrow> [])) (snd (recv_poll n s))"
proof (cases "ss_buffer s = []")
  case True
  with assms show ?thesis by (simp add: recv_poll_def stream_ok_def)
next
  case False
  obtain past where p: "sent = past @ ss_buffer s" "length past = ss_dropped s + length got"
    "ss_produced s = length sent" "ss_dropped s = 0 \<longrightarrow> past = got"
    using assms by (auto simp: stream_ok_def)
  let ?n = "utf8_cut (ss_buffer s) n"
  have "sent = (past @ take ?n (ss_buffer s)) @ drop ?n (ss_buffer s)" using p(1) by simp
  with False p(2-) show ?thesis
    unfolding stream_ok_def
    by (intro exI [of _ "past @ take ?n (ss_buffer s)"]) (simp add: recv_poll_def Let_def)
qed

lemma stream_frame [simp]:
  "stream_ok sent got (s\<lparr>ss_cols := c\<rparr>) = stream_ok sent got s"
  "stream_ok sent got (s\<lparr>ss_rows := c\<rparr>) = stream_ok sent got s"
  "stream_ok sent got (s\<lparr>ss_last_used := t\<rparr>) = stream_ok sent got s"
  "stream_ok sent got (s\<lparr>ss_closed := b\<rparr>) = stream_ok sent got s"
  "stream_ok sent got (s\<lparr>ss_exit := x\<rparr>) = stream_ok sent got s"
  "stream_ok sent got (s\<lparr>ss_event := b\<rparr>) = stream_ok sent got s"
  "stream_ok sent got (s\<lparr>ss_reading := b\<rparr>) = stream_ok sent got s"
  "stream_ok sent got (s\<lparr>ss_waiters := n\<rparr>) = stream_ok sent got s"
  "stream_ok sent got (s\<lparr>ss_pending := p\<rparr>) = stream_ok sent got s"
  "stream_ok sent got (s\<lparr>ss_tail := d\<rparr>) = stream_ok sent got s"
  "stream_ok sent got (ended x s) = stream_ok sent got s"
  by (simp_all add: stream_ok_def ended_def reader_end_def)

lemma ended_fields [simp]:
  "ss_buffer (ended x s) = ss_buffer s" "ss_produced (ended x s) = ss_produced s"
  "ss_dropped (ended x s) = ss_dropped s" "ss_pending (ended x s) = ss_pending s"
  by (simp_all add: ended_def reader_end_def)

text \<open>The stream along one event: the exact effect on the object, by the kind of the event.\<close>

lemma stream_step:
  assumes "obj sid r = Some s" "stream_ok sent got s" "\<And>now k t c w. e \<noteq> Added now sid k t c w"
  shows "\<exists>s'. obj sid (registry_step rc r e) = Some s' \<and>
           stream_ok (sent @ output_ev sid e) (got @ received_ev sid r e) s'"
proof (cases e)
  case (Output x data)
  with assms show ?thesis by (auto intro: stream_sink)
next
  case (RecvPolls x n)
  with assms show ?thesis by (auto simp: obj_def [symmetric] intro: stream_poll)
next
  case (Added now x k t c w)
  with assms(3) have "x \<noteq> sid" by blast
  then have "obj sid (registry_step rc r e) = obj sid (sweep rc now r)"
    by (simp only: Added added_obj if_False if_cancel) simp
  then show ?thesis using assms Added by (auto simp: sweep_obj)
next
  case (Listed now)
  with assms show ?thesis by (auto simp: sweep_obj)
qed (use assms in \<open>auto simp: registry_defs reader_end_def send_input_def recv_enter_def
      recv_leave_def split: sum.split\<close>)

fun adds :: "pystr \<Rightarrow> session_event \<Rightarrow> bool" where
  "adds sid (Added now x k t c w) = (x = sid)"
| "adds sid _ = False"

lemma stream_run:
  "obj sid r = Some s \<Longrightarrow> stream_ok sent got s \<Longrightarrow> list_all (\<lambda>e. \<not> adds sid e) es \<Longrightarrow>
     \<exists>s'. obj sid (run (registry_step rc) r es) = Some s' \<and>
       stream_ok (sent @ output_of sid es) (got @ received rc sid r es) s'"
proof (induction es arbitrary: r s sent got)
  case Nil
  then show ?case by (simp add: output_of_def)
next
  case (Cons e es)
  obtain s' where "obj sid (registry_step rc r e) = Some s'"
    "stream_ok (sent @ output_ev sid e) (got @ received_ev sid r e) s'"
    using stream_step [OF Cons.prems(1,2), of e rc] Cons.prems(3) by fastforce
  from Cons.IH [OF this] Cons.prems(3) show ?case by (simp add: output_of_def)
qed

text \<open>From the moment a session starts, what its readers received, what the ring buffer dropped
  and what it still holds add up to what the process wrote; the buffer is the end of that
  stream, and when nothing was dropped the readers received a prefix of it, in order and
  without loss or repetition.\<close>

theorem session_stream:
  assumes "dget (rg_objs r) sid = Some (new_session now sid kind title cols rows)"
    "list_all (\<lambda>e. \<not> adds sid e) es"
  shows "case dget (rg_objs (run (registry_step rc) r es)) sid of
      None \<Rightarrow> False
    | Some s \<Rightarrow>
        length (output_of sid es) = ss_dropped s + length (received rc sid r es) + length (ss_buffer s) \<and>
        ss_produced s = length (output_of sid es) \<and>
        ss_buffer s = drop (ss_dropped s + length (received rc sid r es)) (output_of sid es) \<and>
        (ss_dropped s = 0 \<longrightarrow> received rc sid r es @ ss_buffer s = output_of sid es)"
proof -
  have new: "stream_ok [] [] (new_session now sid kind title cols rows)"
    by (simp add: stream_ok_def new_session_def)
  have "obj sid r = Some (new_session now sid kind title cols rows)"
    using assms(1) by (simp add: obj_def)
  from stream_run [where rc = rc, OF this new assms(2), unfolded append_Nil]
  obtain s where S: "obj sid (run (registry_step rc) r es) = Some s"
    and T: "stream_ok (output_of sid es) (received rc sid r es) s"
    by blast
  show ?thesis
    unfolding S [unfolded obj_def] option.case by (rule stream_ok_account [OF T])
qed

subsection \<open>The line a send completes\<close>

fun typed_ev :: "pystr \<Rightarrow> session_event \<Rightarrow> pystr" where
  "typed_ev sid (Sent now x data) = (if x = sid then utf8_decode data else [])"
| "typed_ev sid _ = []"

definition typed_of :: "pystr \<Rightarrow> session_event list \<Rightarrow> pystr" where
  "typed_of sid es = concat (map (typed_ev sid) es)"

lemma recv_poll_pending [simp]: "ss_pending (snd (recv_poll n s)) = ss_pending s"
  by (simp add: recv_poll_def Let_def)

lemma typed_step:
  assumes "obj sid r = Some s" "sid \<in> set (rg_live (registry_step rc r e))" "\<not> adds sid e"
    "length (ss_pending s) \<le> PENDING_MAX"
  shows "sid \<in> set (rg_live r) \<and>
    (\<exists>s'. obj sid (registry_step rc r e) = Some s' \<and>
       ss_pending s' = advance_line (ss_pending s) (typed_ev sid e))"
proof -
  have live: "sid \<in> set (rg_live r)"
    using assms(2,3) subsetD [OF step_live [of rc r e], of sid] by (cases e) auto
  note keep = advance_Nil [OF assms(4)]
  have "\<exists>s'. obj sid (registry_step rc r e) = Some s' \<and>
       ss_pending s' = advance_line (ss_pending s) (typed_ev sid e)"
  proof (cases e)
    case (Sent now x data)
    with assms(1) live show ?thesis
      by (auto simp: registry_defs get_session_def obj_def [symmetric] send_input_def keep
          split: sum.split)
  next
    case (Added now x k t c w)
    with assms(3) have "x \<noteq> sid" by simp
    then have "obj sid (registry_step rc r e) = obj sid (sweep rc now r)"
      by (simp only: Added added_obj if_False if_cancel) simp
    then show ?thesis using assms(1) Added by (auto simp: sweep_obj keep)
  next
    case (RecvPolls x n)
    then show ?thesis using assms(1) by (auto simp: keep)
  next
    case (Listed now)
    then show ?thesis using assms(1) by (auto simp: sweep_obj keep)
  qed (use assms(1) in \<open>auto simp: registry_defs reader_end_def recv_enter_def sink_def Let_def keep
      recv_leave_def split: sum.split\<close>)
  with live show ?thesis by blast
qed

lemma typed_run:
  "obj sid r = Some s \<Longrightarrow> sid \<in> set (rg_live (run (registry_step rc) r es)) \<Longrightarrow>
   list_all (\<lambda>e. \<not> adds sid e) es \<Longrightarrow> length (ss_pending s) \<le> PENDING_MAX \<Longrightarrow>
     sid \<in> set (rg_live r) \<and>
     (\<exists>s'. obj sid (run (registry_step rc) r es) = Some s' \<and>
        ss_pending s' = advance_line (ss_pending s) (typed_of sid es))"
proof (induction es arbitrary: r s)
  case Nil
  then show ?case by (simp add: typed_of_def advance_Nil)
next
  case (Cons e es)
  obtain s1 where s1: "obj sid (registry_step rc r e) = Some s1"
    using step_acts [OF Cons.prems(1)] by blast
  have live1: "sid \<in> set (rg_live (registry_step rc r e)) \<or> \<not> sid \<in> set (rg_live (registry_step rc r e))"
    by blast
  have lv: "sid \<in> set (rg_live (registry_step rc r e))"
  proof (rule ccontr)
    assume n: "sid \<notin> set (rg_live (registry_step rc r e))"
    have "sid \<notin> set (rg_live (run (registry_step rc) q es))" if N: "sid \<notin> set (rg_live q)" for q
      using N Cons.prems(3)
    proof (induction es arbitrary: q)
      case (Cons f fs)
      then have "sid \<notin> set (rg_live (registry_step rc q f))"
        using subsetD [OF step_live [of rc q f], of sid] by (cases f) auto
      with Cons show ?case by simp
    qed simp
    with n Cons.prems(2) show False by simp
  qed
  from typed_step [OF Cons.prems(1) lv] Cons.prems(3,4)
  obtain s' where st: "sid \<in> set (rg_live r)" "obj sid (registry_step rc r e) = Some s'"
    "ss_pending s' = advance_line (ss_pending s) (typed_ev sid e)" by auto
  have "length (ss_pending s') \<le> PENDING_MAX" by (simp add: st(3) advance_line_def)
  from Cons.IH [OF st(2) _ _ this] Cons.prems(2,3) st(1,3)
  show ?case by (auto simp: advance_append typed_of_def)
qed

text \<open>C21: However a line is cut into sends, and whatever else happens in between, the partial line
  the registry reports is the one the terminal holds: the last 4096 characters after the last
  Enter, Ctrl-C or Ctrl-U of everything sent. So the policy, which is given that line and the
  next input, classifies a command split over several sends as the whole command.\<close>

theorem pending_is_the_line:
  assumes "dget (rg_objs r) sid = Some (new_session now sid kind title cols rows)"
    "list_all (\<lambda>e. \<not> adds sid e) es" "sid \<in> set (rg_live (run (registry_step rc) r es))"
  shows "pending_input sid (run (registry_step rc) r es) = lastn PENDING_MAX (after_reset (typed_of sid es))"
proof -
  have o: "obj sid r = Some (new_session now sid kind title cols rows)"
    using assms(1) by (simp add: obj_def)
  from typed_run [OF o assms(3,2)] obtain s' where
    "obj sid (run (registry_step rc) r es) = Some s'"
    "ss_pending s' = advance_line [] (typed_of sid es)"
    by (auto simp: new_session_def)
  moreover have "after_reset t = t" if N: "\<not> list_ex (\<lambda>c. c \<in> set LINE_RESET) t" for t
    using after_reset_append [of "[]" t] N by (simp add: after_reset_def)
  ultimately show ?thesis using assms(3)
    by (auto simp: pending_input_def get_session_def obj_def advance_line_def)
qed

subsection \<open>Every transport is closed once\<close>

definition closes :: "pystr \<Rightarrow> registry \<Rightarrow> nat" where
  "closes sid r = count_list (rg_calls r) (TClose sid)"

lemma count_closes [simp]: "count_list (map TClose xs) (TClose sid) = count_list xs sid"
  by (induction xs) auto

lemma count_distinct: "distinct xs \<Longrightarrow> count_list xs x = (if x \<in> set xs then 1 else 0)"
  by (induction xs) auto

lemma closes_step:
  assumes "registry_ok r" "\<not> adds sid e"
  shows "closes sid (registry_step rc r e) = closes sid r +
      (if sid \<in> set (rg_live r) \<and> sid \<notin> set (rg_live (registry_step rc r e)) then 1 else 0) \<and>
    (sid \<notin> set (rg_live r) \<longrightarrow> sid \<notin> set (rg_live (registry_step rc r e)))"
proof -
  have d: "distinct (rg_live r)" using assms(1) by (simp add: registry_ok_def)
  show ?thesis
    by (cases e) (use assms(2) in \<open>auto simp: closes_def registry_defs Let_def d count_distinct
      split: sum.split\<close>)
qed

lemma closes_run:
  "registry_ok r \<Longrightarrow> list_all (\<lambda>e. \<not> adds sid e) es \<Longrightarrow>
     closes sid r = (if sid \<in> set (rg_live r) then 0 else n) \<Longrightarrow> sid \<in> set (rg_live r) \<longrightarrow> n = 1 \<Longrightarrow>
     closes sid (run (registry_step rc) r es) =
       (if sid \<in> set (rg_live (run (registry_step rc) r es)) then 0 else n)"
proof (induction es arbitrary: r)
  case (Cons e es)
  have "registry_ok (registry_step rc r e)" by (rule registry_ok_step) (rule Cons.prems(1))
  moreover have "closes sid (registry_step rc r e) =
      (if sid \<in> set (rg_live (registry_step rc r e)) then 0 else n)"
    "sid \<in> set (rg_live (registry_step rc r e)) \<longrightarrow> n = 1"
    using closes_step [of r sid e rc] Cons.prems by (auto split: if_splits)
  ultimately show ?case using Cons.IH Cons.prems(2) by simp
qed simp

lemma closes_added:
  assumes "registry_ok r" "sid \<notin> set (rg_live r)" "closes sid r = 0"
  shows "closes sid (registry_step rc r (Added now sid kind title cols rows)) =
      (if sid \<in> set (rg_live (registry_step rc r (Added now sid kind title cols rows))) then 0 else 1)"
  using assms by (auto simp: closes_def registry_defs Let_def count_notin)

lemma not_live_run:
  "registry_ok r \<Longrightarrow> list_all (\<lambda>e. \<not> adds sid e) es \<Longrightarrow> sid \<notin> set (rg_live r) \<Longrightarrow>
     sid \<notin> set (rg_live (run (registry_step rc) r es))"
  by (induction es arbitrary: r) (auto dest: registry_ok_step closes_step)

text \<open>C20: A transport handed to the registry is closed exactly once if its session is not registered
  any more (closed, swept, shut down, or refused because the registry was full) and not at all
  while it is: none leaks, none is closed twice, none is closed under a live session.\<close>

theorem transports_closed_once:
  assumes "list_all (\<lambda>e. \<not> adds sid e) es" "list_all (\<lambda>e. \<not> adds sid e) fs"
  shows "let r = run (registry_step rc) (registry_init n idle cap)
             (es @ Added now sid kind title cols rows # fs)
    in count_list (rg_calls r) (TClose sid) = (if sid \<in> set (rg_live r) then 0 else 1)"
proof -
  let ?r0 = "run (registry_step rc) (registry_init n idle cap) es"
  let ?r1 = "registry_step rc ?r0 (Added now sid kind title cols rows)"
  have ok: "registry_ok ?r0" by (rule registry_inv.inv_run) simp
  have dead: "sid \<notin> set (rg_live ?r0)"
    by (rule not_live_run [OF registry_init_ok assms(1)]) (simp add: registry_init_def)
  moreover have "closes sid ?r0 = (if sid \<in> set (rg_live ?r0) then 0 else 0)"
    by (rule closes_run [OF registry_init_ok assms(1)]) (simp_all add: closes_def registry_init_def)
  then have "closes sid ?r0 = 0" by simp
  ultimately have c1: "closes sid ?r1 = (if sid \<in> set (rg_live ?r1) then 0 else 1)"
    using ok by (intro closes_added)
  have "closes sid (run (registry_step rc) ?r1 fs) =
      (if sid \<in> set (rg_live (run (registry_step rc) ?r1 fs)) then 0 else 1)"
    by (rule closes_run [OF registry_ok_step [OF ok] assms(2) c1]) simp
  then show ?thesis by (simp add: Let_def run_append closes_def)
qed

subsection \<open>Characters\<close>

lemma cont_char:
  assumes "0 < j" "j < length (encode_char c)"
  shows "is_cont (encode_char c ! j)"
proof -
  have m: "is_cont (128 + x mod 64)" for x by (simp add: is_cont_plus)
  have "j = 1 \<or> j = 2 \<or> j = 3" using assms length_encode_char [of c] by linarith
  then show ?thesis
    using assms(2) m [of c] m [of "c div 64"] m [of "c div 4096"]
    by (elim disjE) (auto simp: encode_char_def is_cont_def split: if_splits)
qed

lemma lead_char: "scalar c \<Longrightarrow> \<not> is_cont (hd (encode_char c))"
  by (auto simp: encode_char_def is_cont_def scalar_def)

lemma utf8_encode_append: "utf8_encode (a @ b) = utf8_encode a @ utf8_encode b"
  by (simp add: utf8_encode_def)

lemma utf8_cut_boundary:
  assumes "scalar c" "0 < length A" "length A \<le> limit" "limit < length A + length (encode_char c)"
  shows "utf8_cut (A @ encode_char c @ B) limit = length A"
proof -
  let ?d = "A @ encode_char c @ B"
  have at0: "?d ! length A = hd (encode_char c)"
    by (simp add: nth_append hd_conv_nth)
  have atj: "is_cont (?d ! (length A + j))" if J: "0 < j" "j < length (encode_char c)" for j
    using cont_char [OF J] J(2) by (simp add: nth_append)
  have walk: "cut_back ?d limit (length A + j) = length A"
    if J: "length A + j \<le> limit" for j
    using J
  proof (induction j)
    case 0
    obtain m where m: "length A = Suc m" using assms(2) by (cases "length A") auto
    then show ?case using at0 lead_char [OF assms(1)] by (simp add: m)
  next
    case (Suc j)
    have "is_cont (?d ! (length A + Suc j))" using Suc.prems assms(4) by (intro atj) auto
    moreover have "limit - Suc (length A + j) < 4"
      using assms(4) length_encode_char [of c] Suc.prems by linarith
    ultimately show ?case using Suc by simp
  qed
  have "cut_back ?d limit limit = length A"
    using walk [of "limit - length A"] assms(3) by simp
  then show ?thesis
    using assms(2,4) at0 lead_char [OF assms(1)] by (simp add: utf8_cut_def Let_def)
qed

lemma split_at_limit:
  "limit < length (utf8_encode s) \<Longrightarrow>
     \<exists>a c b. s = a @ c # b \<and> length (utf8_encode a) \<le> limit \<and>
       limit < length (utf8_encode a) + length (encode_char c)"
proof (induction s arbitrary: limit)
  case (Cons x s)
  show ?case
  proof (cases "limit < length (encode_char x)")
    case True
    then show ?thesis by (rule_tac x = "[]" in exI, rule_tac x = x in exI, rule_tac x = s in exI) simp
  next
    case False
    with Cons.prems have "limit - length (encode_char x) < length (utf8_encode s)"
      by (simp add: utf8_encode_Cons)
    from Cons.IH [OF this] obtain a c b where *: "s = a @ c # b"
      "length (utf8_encode a) \<le> limit - length (encode_char x)"
      "limit - length (encode_char x) < length (utf8_encode a) + length (encode_char c)" by blast
    with False show ?thesis
      by (rule_tac x = "x # a" in exI, rule_tac x = c in exI, rule_tac x = b in exI)
         (simp add: utf8_encode_Cons, linarith)
  qed
qed simp

text \<open>When the buffer holds whole characters, a read of at least four bytes returns whole
  characters and leaves whole characters, and at least one is returned.\<close>

theorem recv_keeps_characters:
  assumes "list_all scalar str" "str \<noteq> []" "4 \<le> n" "ss_buffer s = utf8_encode str"
  shows "\<exists>k>0. poll_text sid (fst (recv_poll n s)) = Some (take k str) \<and>
     ss_buffer (snd (recv_poll n s)) = utf8_encode (drop k str)"
proof -
  have sc: "\<forall>c\<in>set str. scalar c" using assms(1) by (simp add: list_all_iff)
  have ne: "ss_buffer s \<noteq> []"
    using assms(2,4) by (cases str) (simp_all add: utf8_encode_Cons)
  show ?thesis
  proof (cases "length (utf8_encode str) \<le> n")
    case True
    then have "utf8_cut (ss_buffer s) n = length (ss_buffer s)" using assms(4) by (simp add: utf8_cut_def)
    then show ?thesis using ne assms(2,4) sc
      by (intro exI [of _ "length str"]) (simp add: recv_poll_def Let_def poll_text_def decode_encode)
  next
    case False
    then obtain a c b where ab: "str = a @ c # b" "length (utf8_encode a) \<le> n"
      "n < length (utf8_encode a) + length (encode_char c)"
      using split_at_limit [of n str] by auto
    have enc: "utf8_encode str = utf8_encode a @ encode_char c @ utf8_encode b"
      by (simp add: ab(1) utf8_encode_append utf8_encode_Cons)
    have a0: "0 < length (utf8_encode a)"
      using ab(3) assms(3) length_encode_char [of c] by linarith
    then have "a \<noteq> []" by auto
    moreover have "utf8_cut (ss_buffer s) n = length (utf8_encode a)"
      unfolding assms(4) enc using sc ab a0 by (intro utf8_cut_boundary) simp_all
    moreover have "utf8_decode (utf8_encode a) = a" using sc ab(1) by (intro decode_encode) simp
    ultimately show ?thesis using ne assms(4) enc ab(1)
      by (intro exI [of _ "length a"])
         (simp add: recv_poll_def Let_def poll_text_def utf8_encode_Cons)
  qed
qed

text \<open>The guard covers a cut at the read limit, not a character still arriving: a read between
  the chunks of one character returns a replacement character for each part.\<close>

theorem recv_splits_late_character:
  "let s0 = new_session 0 sid kind title cols rows;
       s1 = sink 100 [0xE2, 0x82] s0; (p1, s2) = recv_poll 65536 s1;
       s3 = sink 100 [0xAC] s2; (p2, s4) = recv_poll 65536 s3
   in utf8_decode [0xE2, 0x82, 0xAC] = [0x20AC] \<and>
      poll_text sid p1 = Some [0xFFFD] \<and> poll_text sid p2 = Some [0xFFFD] \<and> ss_buffer s4 = []"
  by (simp add: new_session_def sink_def recv_poll_def Let_def poll_text_def utf8_cut_def
      utf8_decode.simps(2) is_cont_def second_ok_def)

subsection \<open>Concrete runs\<close>

definition sample_registry :: registry where
  "sample_registry = registry_step (\<lambda>_. None) (registry_init 4 3600 8) (Added 0 (asc ''a'') [] [] 80 24)"

lemma sample_new: "dget (rg_objs sample_registry) (asc ''a'') = Some (new_session 0 (asc ''a'') [] [] 80 24)"
  by (simp add: sample_registry_def register_session_def add_session_def sweep_def registry_init_def Let_def)

definition sample_io :: "session_event list" where
  "sample_io = [Output (asc ''a'') (asc ''hello''), RecvPolls (asc ''a'') 3,
     Sent 1 (asc ''a'') (asc ''r''), Sent 2 (asc ''a'') (asc ''m -rf /x'')]"

lemma session_stream_witness:
  "case dget (rg_objs (run (registry_step (\<lambda>_. None)) sample_registry sample_io)) (asc ''a'') of
     None \<Rightarrow> False
   | Some s \<Rightarrow> length (output_of (asc ''a'') sample_io) =
       ss_dropped s + length (received (\<lambda>_. None) (asc ''a'') sample_registry sample_io) + length (ss_buffer s)"
  using session_stream [OF sample_new, of sample_io "\<lambda>_. None"]
  by (auto simp: sample_io_def split: option.splits)

lemma pending_is_the_line_witness:
  "pending_input (asc ''a'') (run (registry_step (\<lambda>_. None)) sample_registry sample_io) = asc ''rm -rf /x''"
proof -
  have live: "asc ''a'' \<in> set (rg_live (run (registry_step (\<lambda>_. None)) sample_registry sample_io))"
    by code_simp
  have "pending_input (asc ''a'') (run (registry_step (\<lambda>_. None)) sample_registry sample_io) =
      lastn PENDING_MAX (after_reset (typed_of (asc ''a'') sample_io))"
    by (rule pending_is_the_line [OF sample_new _ live]) (simp add: sample_io_def)
  also have "\<dots> = asc ''rm -rf /x''" by code_simp
  finally show ?thesis .
qed

lemma transports_closed_once_witness:
  "count_list (rg_calls (run (registry_step (\<lambda>_. None)) (registry_init 0 3600 8)
     [Added 0 (asc ''a'') [] [] 80 24, Closed (asc ''a'')])) (TClose (asc ''a'')) = 1"
proof -
  have "let r = run (registry_step (\<lambda>_. None)) (registry_init 0 3600 8)
        ([] @ Added 0 (asc ''a'') [] [] 80 24 # [Closed (asc ''a'')])
      in count_list (rg_calls r) (TClose (asc ''a'')) = (if asc ''a'' \<in> set (rg_live r) then 0 else 1)"
    by (rule transports_closed_once) simp_all
  moreover have "asc ''a'' \<notin> set (rg_live (run (registry_step (\<lambda>_. None)) (registry_init 0 3600 8)
     [Added 0 (asc ''a'') [] [] 80 24, Closed (asc ''a'')]))"
    by code_simp
  ultimately show ?thesis by (simp only: Let_def append_Nil if_False)
qed

definition sample_text_session :: session where
  "sample_text_session = (new_session 0 [] [] [] 80 24)\<lparr>ss_buffer := utf8_encode [0x20AC, 0x20AC]\<rparr>"

lemma recv_keeps_characters_witness:
  "\<exists>k>0. poll_text [] (fst (recv_poll 5 sample_text_session)) = Some (take k [0x20AC, 0x20AC]) \<and>
     ss_buffer (snd (recv_poll 5 sample_text_session)) = utf8_encode (drop k [0x20AC, 0x20AC])"
  by (rule recv_keeps_characters)
     (simp_all add: sample_text_session_def scalar_def is_surrogate_def)

end
