(* ===== verification/Numerals.thy ===== *)
theory Numerals
  imports Prelude
begin

text \<open>
  Numbers read from text and from bytes: Python's \<open>int(s, base)\<close> on ASCII text (surrounding
  blanks, a sign, single underscores between digits, an \<open>0x\<close> prefix in base 16) and the
  little-endian integers of \<open>struct\<close>.
\<close>

definition digit_val :: "nat \<Rightarrow> nat option" where
  "digit_val c =
     (if 48 \<le> c \<and> c \<le> 57 then Some (c - 48)
      else if 97 \<le> c \<and> c \<le> 102 then Some (c - 87)
      else if 65 \<le> c \<and> c \<le> 70 then Some (c - 55) else None)"

text \<open>Digits of the base, the value so far as accumulator; an underscore must be followed by a digit.\<close>

fun read_digits :: "nat \<Rightarrow> nat \<Rightarrow> pystr \<Rightarrow> nat option" where
  "read_digits base acc [] = Some acc"
| "read_digits base acc (c # s) =
     (if c = 95 then
        (case s of
           [] \<Rightarrow> None
         | d # s' \<Rightarrow> (case digit_val d of
             None \<Rightarrow> None | Some v \<Rightarrow> if v < base then read_digits base (acc * base + v) s' else None))
      else (case digit_val c of
          None \<Rightarrow> None | Some v \<Rightarrow> if v < base then read_digits base (acc * base + v) s else None))"

definition unprefix :: "nat \<Rightarrow> pystr \<Rightarrow> pystr" where
  "unprefix base s =
     (if base = 16 \<and> lower (take 2 s) = asc ''0x''
      then (if take 1 (drop 2 s) = [95] then drop 3 s else drop 2 s) else s)"

definition py_int :: "nat \<Rightarrow> pystr \<Rightarrow> int option" where
  "py_int base s =
     (let t = strip s;
          (neg, t) = (case t of [] \<Rightarrow> (False, t) | c # r \<Rightarrow>
             if c = 45 then (True, r) else if c = 43 then (False, r) else (False, t));
          t = unprefix base t
      in if t = [] \<or> hd t = 95 then None
         else map_option (\<lambda>n. if neg then - int n else int n) (read_digits base 0 t))"

subsection \<open>Little-endian integers\<close>

primrec le_bytes :: "nat \<Rightarrow> nat \<Rightarrow> bytes" where
  "le_bytes 0 n = []"
| "le_bytes (Suc k) n = n mod 256 # le_bytes k (n div 256)"

primrec le_nat :: "bytes \<Rightarrow> nat" where
  "le_nat [] = 0"
| "le_nat (b # bs) = b + 256 * le_nat bs"

lemma length_le_bytes [simp]: "length (le_bytes k n) = k"
  by (induction k arbitrary: n) simp_all

lemma le_nat_bytes: "le_nat (le_bytes k n) = n mod 256 ^ k"
proof (induction k arbitrary: n)
  case (Suc k)
  have "n mod (256 * 256 ^ k) = 256 * (n div 256 mod 256 ^ k) + n mod 256"
    by (rule mod_mult2_eq)
  with Suc show ?case by simp
qed simp

lemma le_roundtrip [simp]: "n < 256 ^ k \<Longrightarrow> le_nat (le_bytes k n) = n"
  by (simp add: le_nat_bytes)

text \<open>Two's complement reading of \<open>k\<close> bytes.\<close>

definition le_int :: "bytes \<Rightarrow> int" where
  "le_int bs = (let n = int (le_nat bs); m = 256 ^ length bs in if 2 * n < m then n else n - m)"

lemma digit_val_underscore [simp]: "digit_val 95 = None"
  by (simp add: digit_val_def)

lemma read_digits_snoc:
  assumes "digit_val d = Some v" "v < base" "95 \<notin> set s"
  shows "read_digits base acc (s @ [d]) =
       (case read_digits base acc s of None \<Rightarrow> None | Some n \<Rightarrow> Some (n * base + v))"
  using assms(3)
proof (induction s arbitrary: acc)
  case Nil
  have "d \<noteq> 95" using assms(1) by auto
  then show ?case using assms(1,2) by simp
next
  case (Cons c s)
  then show ?case by (cases "digit_val c") auto
qed

lemma digit_val_digit: "is_digit c \<Longrightarrow> digit_val c = Some (c - 48)"
  by (simp add: digit_val_def is_digit_def)

lemma read_digits_digits: "read_digits 10 0 (digits n) = Some n"
proof (induction n rule: digits.induct)
  case (1 n)
  show ?case
  proof (cases "n < 10")
    case True
    then show ?thesis by (simp add: digits.simps [of n] digit_val_def)
  next
    case False
    have "95 \<notin> set (digits (n div 10))"
      using digits_are_digits [of 95 "n div 10"] by (auto simp: is_digit_def)
    moreover have "digits n = digits (n div 10) @ [48 + n mod 10]"
      using False by (simp add: digits.simps [of n])
    moreover have "digit_val (48 + n mod 10) = Some (n mod 10)" by (simp add: digit_val_def)
    ultimately show ?thesis using 1 False by (simp add: read_digits_snoc)
  qed
qed

end
