(* ===== verification/Seccomp.thy ===== *)
theory Seccomp
  imports Numerals Machines "HOL-Library.Word"
begin

unbundle bit_operations_syntax

text \<open>
  \<open>src/relay_shell/seccomp.py\<close>: the notified syscalls, the label assembler and the
  filter builder. The program is the packed \<open>sock_filter[]\<close> bytes (x86_64, little-endian).
  What the kernel does with it is the interface \<open>bpf_vm\<close>: the documented steps of the five
  classic BPF instructions the builder emits.
\<close>

subsection \<open>Tables\<close>

record notify =
  nf_name :: pystr
  nf_flag_arg :: "nat option"
  nf_flag_mask :: nat
  nf_eq_arg :: "nat option"
  nf_eq_values :: "nat list"

definition always :: "string \<Rightarrow> notify" where
  "always name = \<lparr>nf_name = asc name, nf_flag_arg = None, nf_flag_mask = 0, nf_eq_arg = None,
     nf_eq_values = []\<rparr>"

definition SYSCALLS :: "(pystr, (pystr, nat) dict) dict" where
  "SYSCALLS = [(asc ''x86_64'',
     [(asc ''execve'', 59), (asc ''execveat'', 322), (asc ''ptrace'', 101), (asc ''mount'', 165),
      (asc ''umount2'', 166), (asc ''unshare'', 272), (asc ''setns'', 308), (asc ''chroot'', 161),
      (asc ''pivot_root'', 155), (asc ''setuid'', 105), (asc ''setgid'', 106),
      (asc ''setreuid'', 113), (asc ''setregid'', 114), (asc ''setresuid'', 117),
      (asc ''setresgid'', 119), (asc ''openat'', 257), (asc ''open'', 2), (asc ''creat'', 85),
      (asc ''openat2'', 437), (asc ''prctl'', 157)])]"

definition AUDIT_ARCH :: "(pystr, nat) dict" where
  "AUDIT_ARCH = [(asc ''x86_64'', 0xC000003E)]"

definition O_WRITE_MASK :: nat where
  "O_WRITE_MASK = 0x43"

definition PRCTL_NOTIFIED_OPTIONS :: "nat list" where
  "PRCTL_NOTIFIED_OPTIONS = [4, 8, 22, 24, 28, 38, 47]"

definition NOTIFIED_SYSCALLS :: "notify list" where
  "NOTIFIED_SYSCALLS =
     map always [''execve'', ''execveat'', ''ptrace'', ''mount'', ''umount2'', ''unshare'',
       ''setns'', ''chroot'', ''pivot_root'', ''setuid'', ''setgid'', ''setreuid'', ''setregid'',
       ''setresuid'', ''setresgid''] @
     [(always ''openat'')\<lparr>nf_flag_arg := Some 2, nf_flag_mask := O_WRITE_MASK\<rparr>,
      (always ''open'')\<lparr>nf_flag_arg := Some 1, nf_flag_mask := O_WRITE_MASK\<rparr>,
      always ''creat'', always ''openat2'',
      (always ''prctl'')\<lparr>nf_eq_arg := Some 0, nf_eq_values := PRCTL_NOTIFIED_OPTIONS\<rparr>]"

definition syscall_name :: "pystr \<Rightarrow> int \<Rightarrow> pystr" where
  "syscall_name arch nr =
     (case find (\<lambda>(name, num). int num = nr)
             (case dget SYSCALLS arch of None \<Rightarrow> [] | Some t \<Rightarrow> t) of
        Some (name, num) \<Rightarrow> name
      | None \<Rightarrow> asc ''#'' @ show_int nr)"

definition SECCOMP_RET_ALLOW :: nat where
  "SECCOMP_RET_ALLOW = 0x7FFF0000"

definition SECCOMP_RET_USER_NOTIF :: nat where
  "SECCOMP_RET_USER_NOTIF = 0x7FC00000"

definition LD_W_ABS :: nat where "LD_W_ABS = 0x20"
definition JEQ_K :: nat where "JEQ_K = 0x15"
definition JSET_K :: nat where "JSET_K = 0x45"
definition JA :: nat where "JA = 0x05"
definition RET_K :: nat where "RET_K = 0x06"

definition DATA_ARGS_OFFSET :: nat where
  "DATA_ARGS_OFFSET = 16"

subsection \<open>The label assembler\<close>

datatype ins =
    Stmt nat nat
  | Jump nat nat pystr pystr
  | JumpAlways pystr

record assembler =
  as_ins :: "ins list"
  as_labels :: "(pystr, nat) dict"

datatype build_error =
    NoSuchKey pystr
  | JaOutOfRange nat
  | BranchOutOfRange nat
  | EmptyEqValues pystr

definition FALL :: pystr where
  "FALL = asc ''@fall''"

definition new_assembler :: assembler where
  "new_assembler = \<lparr>as_ins = [], as_labels = []\<rparr>"

definition label :: "pystr \<Rightarrow> assembler \<Rightarrow> assembler" where
  "label name a = a\<lparr>as_labels := dset name (length (as_ins a)) (as_labels a)\<rparr>"

definition stmt :: "nat \<Rightarrow> nat \<Rightarrow> assembler \<Rightarrow> assembler" where
  "stmt code k a = a\<lparr>as_ins := as_ins a @ [Stmt code k]\<rparr>"

definition jump :: "nat \<Rightarrow> nat \<Rightarrow> pystr \<Rightarrow> pystr \<Rightarrow> assembler \<Rightarrow> assembler" where
  "jump code k jt jf a = a\<lparr>as_ins := as_ins a @ [Jump code k jt jf]\<rparr>"

definition ja :: "pystr \<Rightarrow> assembler \<Rightarrow> assembler" where
  "ja target a = a\<lparr>as_ins := as_ins a @ [JumpAlways target]\<rparr>"

text \<open>\<open>struct.pack("HBBI", ...)\<close>\<close>

definition pack_ins :: "nat \<Rightarrow> nat \<Rightarrow> nat \<Rightarrow> nat \<Rightarrow> bytes" where
  "pack_ins code jt jf k = le_bytes 2 code @ [jt, jf] @ le_bytes 4 k"

definition offset :: "(pystr, nat) dict \<Rightarrow> nat \<Rightarrow> pystr \<Rightarrow> build_error + int" where
  "offset labels idx target =
     (case dget labels target of
        None \<Rightarrow> Inl (NoSuchKey target)
      | Some pos \<Rightarrow> Inr (int pos - int (idx + 1)))"

definition branch :: "(pystr, nat) dict \<Rightarrow> nat \<Rightarrow> pystr \<Rightarrow> build_error + int" where
  "branch labels idx target = (if target = FALL then Inr 0 else offset labels idx target)"

fun assemble_ins :: "(pystr, nat) dict \<Rightarrow> nat \<Rightarrow> ins \<Rightarrow> build_error + bytes" where
  "assemble_ins labels idx (Stmt code k) = Inr (pack_ins code 0 0 (k mod 2 ^ 32))"
| "assemble_ins labels idx (JumpAlways target) =
     (case offset labels idx target of
        Inl e \<Rightarrow> Inl e
      | Inr off \<Rightarrow>
          if 0 \<le> off \<and> off \<le> 0xFFFFFFFF then Inr (pack_ins JA 0 0 (nat off))
          else Inl (JaOutOfRange idx))"
| "assemble_ins labels idx (Jump code k jt jf) =
     (case branch labels idx jt of
        Inl e \<Rightarrow> Inl e
      | Inr t \<Rightarrow> (case branch labels idx jf of
          Inl e \<Rightarrow> Inl e
        | Inr f \<Rightarrow>
            if 0 \<le> t \<and> t \<le> 255 \<and> 0 \<le> f \<and> f \<le> 255
            then Inr (pack_ins code (nat t) (nat f) (k mod 2 ^ 32))
            else Inl (BranchOutOfRange idx)))"

fun assemble_from :: "(pystr, nat) dict \<Rightarrow> nat \<Rightarrow> ins list \<Rightarrow> build_error + bytes" where
  "assemble_from labels idx [] = Inr []"
| "assemble_from labels idx (i # is) =
     (case assemble_ins labels idx i of
        Inl e \<Rightarrow> Inl e
      | Inr b \<Rightarrow> (case assemble_from labels (Suc idx) is of Inl e \<Rightarrow> Inl e | Inr bs \<Rightarrow> Inr (b @ bs)))"

definition assemble :: "assembler \<Rightarrow> build_error + bytes" where
  "assemble a = assemble_from (as_labels a) 0 (as_ins a)"

subsection \<open>The filter builder\<close>

definition unconditional :: "notify \<Rightarrow> bool" where
  "unconditional s \<longleftrightarrow> nf_flag_arg s = None \<and> nf_eq_arg s = None"

definition ck :: "nat \<Rightarrow> pystr" where
  "ck i = asc ''ck'' @ digits i"

text \<open>The first loop: unconditional syscalls jump to \<open>notify\<close>, the others are collected.\<close>

fun dispatch_specs ::
  "(pystr, nat) dict \<Rightarrow> notify list \<Rightarrow> assembler \<Rightarrow> notify list \<Rightarrow> build_error + assembler \<times> notify list" where
  "dispatch_specs table [] a conditional = Inr (a, conditional)"
| "dispatch_specs table (s # ss) a conditional =
     (case dget table (nf_name s) of
        None \<Rightarrow> dispatch_specs table ss a conditional
      | Some nr \<Rightarrow>
          if nf_eq_arg s \<noteq> None \<and> nf_eq_values s = [] then Inl (EmptyEqValues (nf_name s))
          else if unconditional s
          then dispatch_specs table ss (jump JEQ_K nr (asc ''notify'') FALL a) conditional
          else dispatch_specs table ss a (conditional @ [s]))"

text \<open>The second loop routes the conditional ones to their check.\<close>

fun route_specs :: "(pystr, nat) dict \<Rightarrow> nat \<Rightarrow> notify list \<Rightarrow> assembler \<Rightarrow> assembler" where
  "route_specs table i [] a = a"
| "route_specs table i (s # ss) a =
     route_specs table (Suc i) ss
       (jump JEQ_K (case dget table (nf_name s) of Some nr \<Rightarrow> nr | None \<Rightarrow> 0) (ck i) FALL a)"

fun eq_any :: "nat list \<Rightarrow> assembler \<Rightarrow> assembler" where
  "eq_any [] a = a"
| "eq_any (v # vs) a =
     eq_any vs (jump JEQ_K v (asc ''notify'') (if vs = [] then asc ''allow'' else FALL) a)"

text \<open>The third loop emits the checks.\<close>

fun check_specs :: "nat \<Rightarrow> notify list \<Rightarrow> assembler \<Rightarrow> assembler" where
  "check_specs i [] a = a"
| "check_specs i (s # ss) a =
     check_specs (Suc i) ss
       (case nf_flag_arg s of
          Some arg \<Rightarrow>
            jump JSET_K (nf_flag_mask s) (asc ''notify'') (asc ''allow'')
              (stmt LD_W_ABS (DATA_ARGS_OFFSET + arg * 8) (label (ck i) a))
        | None \<Rightarrow>
            eq_any (nf_eq_values s)
              (stmt LD_W_ABS (DATA_ARGS_OFFSET + (case nf_eq_arg s of Some n \<Rightarrow> n | None \<Rightarrow> 0) * 8)
                (label (ck i) a)))"

definition filter_program :: "(pystr, nat) dict \<Rightarrow> nat \<Rightarrow> notify list \<Rightarrow> build_error + assembler" where
  "filter_program table arch_const specs =
     (let a = stmt LD_W_ABS 0 (jump JEQ_K arch_const FALL (asc ''allow'') (stmt LD_W_ABS 4 new_assembler))
      in case dispatch_specs table specs a [] of
           Inl e \<Rightarrow> Inl e
         | Inr (a, conditional) \<Rightarrow>
             Inr (stmt RET_K SECCOMP_RET_USER_NOTIF (label (asc ''notify'')
                   (stmt RET_K SECCOMP_RET_ALLOW (label (asc ''allow'')
                     (check_specs 0 conditional
                       (ja (asc ''allow'') (route_specs table 0 conditional a))))))))"

definition build_filter :: "pystr \<Rightarrow> build_error + bytes" where
  "build_filter arch =
     (case dget SYSCALLS arch of
        None \<Rightarrow> Inl (NoSuchKey arch)
      | Some table \<Rightarrow> (case dget AUDIT_ARCH arch of
          None \<Rightarrow> Inl (NoSuchKey arch)
        | Some arch_const \<Rightarrow> (case filter_program table arch_const NOTIFIED_SYSCALLS of
            Inl e \<Rightarrow> Inl e | Inr a \<Rightarrow> assemble a)))"

subsection \<open>The machine the program runs on\<close>

text \<open>The kernel's \<open>struct seccomp_data\<close> as the filter sees it.\<close>

record seccomp_data =
  sd_nr :: "32 word"
  sd_arch :: "32 word"
  sd_ip :: "64 word"
  sd_args :: "64 word list"

definition low_word :: "64 word \<Rightarrow> 32 word" where
  "low_word w = ucast w"

definition high_word :: "64 word \<Rightarrow> 32 word" where
  "high_word w = ucast (drop_bit 32 w)"

definition arg_of :: "seccomp_data \<Rightarrow> nat \<Rightarrow> 64 word" where
  "arg_of d i = (if i < length (sd_args d) then sd_args d ! i else 0)"

text \<open>The 32-bit word of \<open>seccomp_data\<close> at a byte offset.\<close>

definition data_word :: "seccomp_data \<Rightarrow> nat \<Rightarrow> 32 word" where
  "data_word d k =
     (if k = 0 then sd_nr d else if k = 4 then sd_arch d
      else if k = 8 then low_word (sd_ip d) else if k = 12 then high_word (sd_ip d)
      else if k mod 8 = 0 then low_word (arg_of d ((k - 16) div 8))
      else high_word (arg_of d ((k - 16) div 8)))"

text \<open>\<open>exec d A p\<close> is the filter's verdict on \<open>d\<close> from accumulator \<open>A\<close> with the remaining
  instructions \<open>p\<close> (8 bytes each). Jumps are forward and relative to the next instruction.\<close>

locale bpf_vm =
  fixes exec :: "seccomp_data \<Rightarrow> 32 word \<Rightarrow> bytes \<Rightarrow> nat option"
  assumes exec_ld: "k < 2 ^ 32 \<Longrightarrow>
      exec d A (pack_ins LD_W_ABS 0 0 k @ p) = exec d (data_word d k) p"
    and exec_jeq: "k < 2 ^ 32 \<Longrightarrow> jt < 256 \<Longrightarrow> jf < 256 \<Longrightarrow>
      exec d A (pack_ins JEQ_K jt jf k @ p) = exec d A (drop (8 * (if A = of_nat k then jt else jf)) p)"
    and exec_jset: "k < 2 ^ 32 \<Longrightarrow> jt < 256 \<Longrightarrow> jf < 256 \<Longrightarrow>
      exec d A (pack_ins JSET_K jt jf k @ p) =
        exec d A (drop (8 * (if A AND of_nat k \<noteq> 0 then jt else jf)) p)"
    and exec_ja: "k < 2 ^ 32 \<Longrightarrow> exec d A (pack_ins JA 0 0 k @ p) = exec d A (drop (8 * k) p)"
    and exec_ret: "k < 2 ^ 32 \<Longrightarrow> exec d A (pack_ins RET_K 0 0 k @ p) = Some k"

end
