(* ===== verification/SeccompProps.thy ===== *)
theory SeccompProps
  imports Seccomp
begin

text \<open>
  The assembler is correct for every label program it accepts, on every machine that executes the
  documented instructions; and the filter that ships decides exactly by the table of notified
  syscalls.
\<close>

subsection \<open>Label programs\<close>

definition cond_holds :: "nat \<Rightarrow> nat \<Rightarrow> 32 word \<Rightarrow> bool option" where
  "cond_holds code k A =
     (if code = JEQ_K then Some (A = of_nat k)
      else if code = JSET_K then Some (A AND of_nat k \<noteq> 0) else None)"

text \<open>Execution of a program with labels: \<open>idx\<close> is the index of the next instruction.\<close>

function label_run ::
  "(pystr, nat) dict \<Rightarrow> seccomp_data \<Rightarrow> nat \<Rightarrow> 32 word \<Rightarrow> ins list \<Rightarrow> nat option" where
  "label_run L d idx A [] = None"
| "label_run L d idx A (Stmt code k # is) =
     (if code = LD_W_ABS then label_run L d (Suc idx) (data_word d (k mod 2 ^ 32)) is
      else if code = RET_K then Some (k mod 2 ^ 32) else None)"
| "label_run L d idx A (JumpAlways t # is) =
     (case dget L t of None \<Rightarrow> None
      | Some pos \<Rightarrow> if pos \<le> idx then None else label_run L d pos A (drop (pos - Suc idx) is))"
| "label_run L d idx A (Jump code k jt jf # is) =
     (case cond_holds code k A of None \<Rightarrow> None
      | Some c \<Rightarrow>
          let t = (if c then jt else jf) in
          if t = FALL then label_run L d (Suc idx) A is
          else (case dget L t of None \<Rightarrow> None
            | Some pos \<Rightarrow> if pos \<le> idx then None else label_run L d pos A (drop (pos - Suc idx) is)))"
  by pat_completeness auto
termination
  by (relation "measure (\<lambda>(L, d, idx, A, is). length is)") auto

subsection \<open>Assembled code\<close>

lemma length_pack [simp]: "length (pack_ins code jt jf k) = 8"
  by (simp add: pack_ins_def)

lemma assemble_ins_length: "assemble_ins L idx i = Inr b \<Longrightarrow> length b = 8"
  by (cases i) (auto split: sum.splits if_splits)

lemma assemble_from_drop:
  "assemble_from L idx is = Inr bs \<Longrightarrow> assemble_from L (idx + n) (drop n is) = Inr (drop (8 * n) bs)"
proof (induction n arbitrary: idx "is" bs)
  case (Suc n)
  show ?case
  proof (cases "is")
    case Nil
    with Suc.prems show ?thesis by simp
  next
    case (Cons i is')
    with Suc.prems obtain b bs' where b: "assemble_ins L idx i = Inr b"
      "assemble_from L (Suc idx) is' = Inr bs'" "bs = b @ bs'"
      by (auto split: sum.splits)
    with Suc.IH [OF b(2)] Cons assemble_ins_length [OF b(1)] show ?thesis by simp
  qed
qed simp

lemma of_nat_mod_word [simp]: "(of_nat (k mod 2 ^ 32) :: 32 word) = of_nat k"
  by (simp only: word_unat_eq_iff unat_of_nat) simp

lemma of_nat_mod_word' [simp]: "(of_nat (k mod 4294967296) :: 32 word) = of_nat k"
  using of_nat_mod_word [of k] by simp

lemma offset_forward:
  "offset L idx t = Inr off \<Longrightarrow> 0 \<le> off \<Longrightarrow>
     \<exists>pos. dget L t = Some pos \<and> Suc idx \<le> pos \<and> nat off = pos - Suc idx"
  by (auto simp: offset_def split: option.splits)

text \<open>Where a branch goes: the next instruction, or the position of its label.\<close>

definition goes_to :: "(pystr, nat) dict \<Rightarrow> nat \<Rightarrow> pystr \<Rightarrow> nat \<Rightarrow> bool" where
  "goes_to L idx t n \<longleftrightarrow>
     (if t = FALL then n = 0 else \<exists>pos. dget L t = Some pos \<and> Suc idx \<le> pos \<and> n = pos - Suc idx)"

lemma branch_forward: "branch L idx t = Inr off \<Longrightarrow> 0 \<le> off \<Longrightarrow> goes_to L idx t (nat off)"
  using offset_forward [of L idx t off] by (auto simp: branch_def goes_to_def split: if_splits)

lemma assemble_jump:
  assumes "assemble_from L idx (Jump code k jt jf # is) = Inr bs"
  obtains t f bs' where "goes_to L idx jt t" "goes_to L idx jf f" "t < 256" "f < 256"
    "bs = pack_ins code t f (k mod 2 ^ 32) @ bs'" "assemble_from L (Suc idx) is = Inr bs'"
proof -
  from assms obtain b bs' where b: "assemble_ins L idx (Jump code k jt jf) = Inr b"
    "assemble_from L (Suc idx) is = Inr bs'" "bs = b @ bs'"
    by (auto simp del: assemble_ins.simps split: sum.splits)
  from b(1) obtain t f where tf: "branch L idx jt = Inr t" "branch L idx jf = Inr f"
    "0 \<le> t" "t \<le> 255" "0 \<le> f" "f \<le> 255" "b = pack_ins code (nat t) (nat f) (k mod 2 ^ 32)"
    by (auto split: sum.splits if_splits)
  show thesis
    by (rule that [of "nat t" "nat f" bs'])
       (use tf b branch_forward [OF tf(1,3)] branch_forward [OF tf(2,5)] in auto)
qed

lemma assemble_ja:
  assumes "assemble_from L idx (JumpAlways t # is) = Inr bs"
  obtains pos bs' where "dget L t = Some pos" "Suc idx \<le> pos" "pos - Suc idx < 2 ^ 32"
    "bs = pack_ins JA 0 0 (pos - Suc idx) @ bs'" "assemble_from L (Suc idx) is = Inr bs'"
proof -
  from assms obtain b bs' where b: "assemble_ins L idx (JumpAlways t) = Inr b"
    "assemble_from L (Suc idx) is = Inr bs'" "bs = b @ bs'"
    by (auto simp del: assemble_ins.simps split: sum.splits)
  from b(1) obtain off where o: "offset L idx t = Inr off" "0 \<le> off" "off \<le> 0xFFFFFFFF"
    "b = pack_ins JA 0 0 (nat off)"
    by (auto split: sum.splits if_splits)
  from offset_forward [OF o(1,2)] obtain pos where
    "dget L t = Some pos" "Suc idx \<le> pos" "nat off = pos - Suc idx" by blast
  with o b show thesis by (intro that [of pos bs']) auto
qed

context bpf_vm
begin

lemma assembled_runs:
  "assemble_from L idx is = Inr bs \<Longrightarrow> label_run L d idx A is = Some v \<Longrightarrow> exec d A bs = Some v"
proof (induction L d idx A "is" arbitrary: bs rule: label_run.induct)
  case (2 L d idx A code k "is")
  then obtain bs' where bs: "bs = pack_ins code 0 0 (k mod 2 ^ 32) @ bs'"
    "assemble_from L (Suc idx) is = Inr bs'"
    by (auto split: sum.splits)
  have k: "k mod 2 ^ 32 < (2::nat) ^ 32" by simp
  show ?case
  proof (cases "code = LD_W_ABS")
    case True
    with 2 bs show ?thesis using exec_ld [OF k] by simp
  next
    case False
    with 2 bs show ?thesis using exec_ret [OF k] by (auto split: if_splits)
  qed
next
  case (3 L d idx A t "is")
  obtain pos bs' where p: "dget L t = Some pos" "Suc idx \<le> pos" "pos - Suc idx < 2 ^ 32"
    "bs = pack_ins JA 0 0 (pos - Suc idx) @ bs'" "assemble_from L (Suc idx) is = Inr bs'"
    using "3.prems"(1) by (rule assemble_ja)
  have tl: "assemble_from L pos (drop (pos - Suc idx) is) = Inr (drop (8 * (pos - Suc idx)) bs')"
    using assemble_from_drop [OF p(5), of "pos - Suc idx"] p(2) by simp
  have "label_run L d pos A (drop (pos - Suc idx) is) = Some v"
    using "3.prems"(2) p(1,2) by simp
  with "3.IH" [OF p(1) _ tl] p(2) have "exec d A (drop (8 * (pos - Suc idx)) bs') = Some v" by simp
  with exec_ja [OF p(3)] show ?case by (simp add: p(4))
next
  case (4 L d idx A code k jt jf "is")
  obtain t f bs' where p: "goes_to L idx jt t" "goes_to L idx jf f" "t < 256" "f < 256"
    "bs = pack_ins code t f (k mod 2 ^ 32) @ bs'" "assemble_from L (Suc idx) is = Inr bs'"
    using "4.prems"(1) by (rule assemble_jump)
  obtain c where c: "cond_holds code k A = Some c"
    using "4.prems"(2) by (cases "cond_holds code k A") auto
  define n where "n = (if c then t else f)"
  define l where "l = (if c then jt else jf)"
  have g: "goes_to L idx l n" using p(1,2) by (simp add: n_def l_def)
  have tl: "assemble_from L (Suc idx + n) (drop n is) = Inr (drop (8 * n) bs')"
    using assemble_from_drop [OF p(6), of n] .
  have "exec d A (drop (8 * n) bs') = Some v"
  proof (cases "l = FALL")
    case True
    with g have "n = 0" by (simp add: goes_to_def)
    moreover have "label_run L d (Suc idx) A is = Some v"
      using "4.prems"(2) c True by (simp add: l_def Let_def)
    ultimately show ?thesis using "4.IH"(1) [OF c l_def True] tl by simp
  next
    case False
    with g obtain pos where pos: "dget L l = Some pos" "Suc idx \<le> pos" "n = pos - Suc idx"
      by (auto simp: goes_to_def)
    moreover have "label_run L d pos A (drop (pos - Suc idx) is) = Some v"
      using "4.prems"(2) c False pos by (simp add: l_def Let_def)
    ultimately show ?thesis using "4.IH"(2) [OF c l_def False pos(1)] tl by simp
  qed
  moreover have k: "k mod 2 ^ 32 < (2::nat) ^ 32" by simp
  ultimately show ?case
    using c of_nat_mod_word' [of k] exec_jeq [OF k p(3,4), of d A bs'] exec_jset [OF k p(3,4), of d A bs'] p(5)
    by (auto simp: cond_holds_def n_def split: if_splits)
qed simp

end

subsection \<open>An executable machine\<close>

text \<open>The interpreter of the packed program, as the documentation of classic BPF describes it.\<close>

function bpf_exec :: "seccomp_data \<Rightarrow> 32 word \<Rightarrow> bytes \<Rightarrow> nat option" where
  "bpf_exec d A p =
     (if length p < 8 then None
      else
        let code = le_nat (take 2 p); jt = p ! 2; jf = p ! 3; k = le_nat (take 4 (drop 4 p));
            rest = drop 8 p
        in if code = LD_W_ABS then bpf_exec d (data_word d k) rest
           else if code = JEQ_K then bpf_exec d A (drop (8 * (if A = of_nat k then jt else jf)) rest)
           else if code = JSET_K then bpf_exec d A (drop (8 * (if A AND of_nat k \<noteq> 0 then jt else jf)) rest)
           else if code = JA then bpf_exec d A (drop (8 * k) rest)
           else if code = RET_K then Some k
           else None)"
  by pat_completeness auto
termination
  by (relation "measure (\<lambda>(d, A, p). length p)") (auto simp: not_less)

declare bpf_exec.simps [simp del]

lemma fetch:
  assumes "code < 2 ^ 16" "k < 2 ^ 32"
  shows "le_nat (take 2 (pack_ins code jt jf k @ p)) = code" "(pack_ins code jt jf k @ p) ! 2 = jt"
    "(pack_ins code jt jf k @ p) ! 3 = jf" "le_nat (take 4 (drop 4 (pack_ins code jt jf k @ p))) = k"
    "drop 8 (pack_ins code jt jf k @ p) = p"
  using assms by (simp_all add: pack_ins_def nth_append take_append drop_append)

lemmas opcode_defs = LD_W_ABS_def JEQ_K_def JSET_K_def JA_def RET_K_def

lemma bpf_exec_pack:
  assumes "code < 2 ^ 16" "k < 2 ^ 32"
  shows "bpf_exec d A (pack_ins code jt jf k @ p) =
    (if code = LD_W_ABS then bpf_exec d (data_word d k) p
     else if code = JEQ_K then bpf_exec d A (drop (8 * (if A = of_nat k then jt else jf)) p)
     else if code = JSET_K then bpf_exec d A (drop (8 * (if A AND of_nat k \<noteq> 0 then jt else jf)) p)
     else if code = JA then bpf_exec d A (drop (8 * k) p)
     else if code = RET_K then Some k
     else None)"
proof -
  have len: "\<not> length (pack_ins code jt jf k @ p) < 8" by simp
  show ?thesis
    unfolding bpf_exec.simps [of d A "pack_ins code jt jf k @ p"] Let_def fetch [OF assms]
      if_not_P [OF len] ..
qed

interpretation bpf: bpf_vm bpf_exec
  by unfold_locales (simp_all add: bpf_exec_pack opcode_defs)

text \<open>C25: Whatever program the label assembler accepts, the bytes it emits do on the machine what the
  labels say: the two-pass resolution of jump targets, offsets and widths is right.\<close>

theorem assembler_correct:
  assumes "assemble a = Inr code" "label_run (as_labels a) d 0 0 (as_ins a) = Some v"
  shows "bpf_exec d 0 code = Some v"
  using assms by (intro bpf.assembled_runs) (simp_all add: assemble_def)

subsection \<open>The filter\<close>

definition matches :: "(pystr, nat) dict \<Rightarrow> seccomp_data \<Rightarrow> notify \<Rightarrow> bool" where
  "matches table d s \<longleftrightarrow>
     (case dget table (nf_name s) of
        None \<Rightarrow> False
      | Some nr \<Rightarrow> sd_nr d = of_nat nr \<and>
          (case nf_flag_arg s of
             Some a \<Rightarrow> low_word (arg_of d a) AND of_nat (nf_flag_mask s) \<noteq> 0
           | None \<Rightarrow> (case nf_eq_arg s of
               None \<Rightarrow> True
             | Some a \<Rightarrow> list_ex (\<lambda>v. low_word (arg_of d a) = of_nat v) (nf_eq_values s))))"

definition the_table :: "(pystr, nat) dict" where
  "the_table = (case dget SYSCALLS (asc ''x86_64'') of None \<Rightarrow> [] | Some t \<Rightarrow> t)"

definition filter_labels :: "(pystr, nat) dict" where
  "filter_labels = [(ck 0, 24), (ck 1, 26), (ck 2, 28), (asc ''allow'', 36), (asc ''notify'', 37)]"

definition uncond_ins :: "nat \<Rightarrow> ins" where
  "uncond_ins nr = Jump JEQ_K nr (asc ''notify'') FALL"

definition filter_ins :: "ins list" where
  "filter_ins =
     [Stmt LD_W_ABS 4, Jump JEQ_K 0xC000003E FALL (asc ''allow''), Stmt LD_W_ABS 0] @
     map uncond_ins [59, 322, 101, 165, 166, 272, 308, 161, 155, 105, 106, 113, 114, 117, 119, 85, 437] @
     [Jump JEQ_K 257 (ck 0) FALL, Jump JEQ_K 2 (ck 1) FALL, Jump JEQ_K 157 (ck 2) FALL,
      JumpAlways (asc ''allow''),
      Stmt LD_W_ABS 32, Jump JSET_K O_WRITE_MASK (asc ''notify'') (asc ''allow''),
      Stmt LD_W_ABS 24, Jump JSET_K O_WRITE_MASK (asc ''notify'') (asc ''allow''),
      Stmt LD_W_ABS 16] @
     map uncond_ins [4, 8, 22, 24, 28, 38] @
     [Jump JEQ_K 47 (asc ''notify'') (asc ''allow''),
      Stmt RET_K SECCOMP_RET_ALLOW, Stmt RET_K SECCOMP_RET_USER_NOTIF]"

lemma ck_simps [simp]: "ck 0 = asc ''ck0''" "ck (Suc 0) = asc ''ck1''" "ck 1 = asc ''ck1''" "ck (Suc (Suc 0)) = asc ''ck2''"
  "ck 2 = asc ''ck2''"
  by (simp_all add: ck_def digits.simps asc_def)

lemma the_filter:
  "filter_program the_table 0xC000003E NOTIFIED_SYSCALLS =
     Inr \<lparr>as_ins = filter_ins, as_labels = filter_labels\<rparr>"
  by (simp add: filter_program_def the_table_def NOTIFIED_SYSCALLS_def SYSCALLS_def always_def
      unconditional_def PRCTL_NOTIFIED_OPTIONS_def stmt_def jump_def ja_def label_def
      new_assembler_def Let_def filter_ins_def filter_labels_def uncond_ins_def DATA_ARGS_OFFSET_def)

lemma label_names [simp]:
  "FALL \<noteq> asc ''allow''" "FALL \<noteq> asc ''notify''" "asc ''allow'' \<noteq> FALL" "asc ''notify'' \<noteq> FALL"
  "asc ''ck0'' \<noteq> FALL" "asc ''ck1'' \<noteq> FALL" "asc ''ck2'' \<noteq> FALL"
  by (simp_all add: FALL_def)

lemma cond_jeq [simp]: "cond_holds JEQ_K k A = Some (A = of_nat k)"
  and cond_jset [simp]: "cond_holds JSET_K k A = Some (A AND of_nat k \<noteq> 0)"
  by (simp_all add: cond_holds_def opcode_defs)

lemma the_filter_assembles:
  "\<exists>code. assemble \<lparr>as_ins = filter_ins, as_labels = filter_labels\<rparr> = Inr code \<and> length code = 8 * 38"
  by (simp add: assemble_def filter_ins_def filter_labels_def uncond_ins_def branch_def offset_def)

definition is_notified :: "seccomp_data \<Rightarrow> bool" where
  "is_notified d \<longleftrightarrow> sd_arch d = 0xC000003E \<and> list_ex (matches the_table d) NOTIFIED_SYSCALLS"

definition verdict :: "seccomp_data \<Rightarrow> nat" where
  "verdict d = (if is_notified d then SECCOMP_RET_USER_NOTIF else SECCOMP_RET_ALLOW)"

lemma load_words [simp]: "data_word d 0 = sd_nr d" "data_word d 4 = sd_arch d"
  "data_word d 32 = low_word (arg_of d 2)" "data_word d 24 = low_word (arg_of d 1)"
  "data_word d 16 = low_word (arg_of d 0)"
  by (simp_all add: data_word_def)

definition plain_numbers :: "32 word set" where
  "plain_numbers = {59, 322, 101, 165, 166, 272, 308, 161, 155, 105, 106, 113, 114, 117, 119, 85, 437}"

lemma notified_cases:
  "is_notified d \<longleftrightarrow> sd_arch d = 0xC000003E \<and>
     (sd_nr d \<in> plain_numbers \<or>
      (sd_nr d = 257 \<and> low_word (arg_of d 2) AND 0x43 \<noteq> 0) \<or>
      (sd_nr d = 2 \<and> low_word (arg_of d 1) AND 0x43 \<noteq> 0) \<or>
      (sd_nr d = 157 \<and> low_word (arg_of d 0) \<in> {4, 8, 22, 24, 28, 38, 47}))"
  by (simp add: is_notified_def NOTIFIED_SYSCALLS_def matches_def the_table_def SYSCALLS_def
      always_def plain_numbers_def PRCTL_NOTIFIED_OPTIONS_def O_WRITE_MASK_def) blast

lemma the_filter_decides: "label_run filter_labels d 0 0 filter_ins = Some (verdict d)"
proof -
  have opn: "LD_W_ABS \<noteq> RET_K" "RET_K \<noteq> LD_W_ABS" by (simp_all add: opcode_defs)
  have run: "label_run filter_labels d 0 0 filter_ins =
    Some (if sd_arch d \<noteq> 0xC000003E then SECCOMP_RET_ALLOW
      else if sd_nr d \<in> plain_numbers
      then SECCOMP_RET_USER_NOTIF
      else if sd_nr d = 257 then (if low_word (arg_of d 2) AND 0x43 \<noteq> 0 then SECCOMP_RET_USER_NOTIF else SECCOMP_RET_ALLOW)
      else if sd_nr d = 2 then (if low_word (arg_of d 1) AND 0x43 \<noteq> 0 then SECCOMP_RET_USER_NOTIF else SECCOMP_RET_ALLOW)
      else if sd_nr d = 157 then (if low_word (arg_of d 0) \<in> {4, 8, 22, 24, 28, 38, 47} then SECCOMP_RET_USER_NOTIF else SECCOMP_RET_ALLOW)
      else SECCOMP_RET_ALLOW)"
    by (simp add: filter_ins_def uncond_ins_def filter_labels_def Let_def opn plain_numbers_def O_WRITE_MASK_def
        SECCOMP_RET_ALLOW_def SECCOMP_RET_USER_NOTIF_def)
  consider "sd_arch d \<noteq> 0xC000003E" | "sd_arch d = 0xC000003E" "sd_nr d \<in> plain_numbers"
    | "sd_arch d = 0xC000003E" "sd_nr d \<notin> plain_numbers" "sd_nr d = 257"
    | "sd_arch d = 0xC000003E" "sd_nr d \<notin> plain_numbers" "sd_nr d = 2"
    | "sd_arch d = 0xC000003E" "sd_nr d \<notin> plain_numbers" "sd_nr d = 157"
    | "sd_arch d = 0xC000003E" "sd_nr d \<notin> plain_numbers" "sd_nr d \<noteq> 257" "sd_nr d \<noteq> 2" "sd_nr d \<noteq> 157"
    by blast
  then show ?thesis
    unfolding run verdict_def notified_cases by cases simp_all
qed

text \<open>C24: The filter builds for x86_64 (38 instructions), and on every system call it notifies exactly
  when the call is made on that architecture and its number and scalar arguments match an
  entry of \<open>NOTIFIED_SYSCALLS\<close>; every other call, a 32-bit one included, is allowed.\<close>

theorem filter_decides:
  "case build_filter (asc ''x86_64'') of
     Inl e \<Rightarrow> False
   | Inr code \<Rightarrow> length code = 8 * 38 \<and>
       bpf_exec d 0 code = Some
         (if sd_arch d = 0xC000003E \<and> list_ex (matches the_table d) NOTIFIED_SYSCALLS
          then SECCOMP_RET_USER_NOTIF else SECCOMP_RET_ALLOW)"
proof -
  obtain code where c: "assemble \<lparr>as_ins = filter_ins, as_labels = filter_labels\<rparr> = Inr code"
    "length code = 8 * 38"
    using the_filter_assembles by blast
  have "build_filter (asc ''x86_64'') = Inr code"
    using the_filter c(1) by (simp add: build_filter_def the_table_def SYSCALLS_def AUDIT_ARCH_def)
  moreover have "bpf_exec d 0 code = Some (verdict d)"
    using c(1) the_filter_decides by (intro bpf.assembled_runs) (auto simp: assemble_def)
  ultimately show ?thesis using c(2) by (simp add: verdict_def is_notified_def)
qed

lemma assembler_correct_witness:
  "\<exists>code. assemble \<lparr>as_ins = filter_ins, as_labels = filter_labels\<rparr> = Inr code \<and>
     bpf_exec \<lparr>sd_nr = 59, sd_arch = 0xC000003E, sd_ip = 0, sd_args = []\<rparr> 0 code = Some SECCOMP_RET_USER_NOTIF"
proof -
  let ?d = "\<lparr>sd_nr = 59, sd_arch = 0xC000003E, sd_ip = 0, sd_args = []\<rparr> :: seccomp_data"
  obtain code where c: "assemble \<lparr>as_ins = filter_ins, as_labels = filter_labels\<rparr> = Inr code"
    using the_filter_assembles by blast
  have "label_run filter_labels ?d 0 0 filter_ins = Some (verdict ?d)" by (rule the_filter_decides)
  then have "bpf_exec ?d 0 code = Some (verdict ?d)"
    by (intro assembler_correct [OF c]) simp
  moreover have "verdict ?d = SECCOMP_RET_USER_NOTIF"
    by (simp add: verdict_def notified_cases plain_numbers_def)
  ultimately show ?thesis using c by auto
qed

end
