(* ===== verification/SeccompMonitor.thy ===== *)
theory SeccompMonitor
  imports Seccomp Util
begin

text \<open>
  The supervising half of \<open>seccomp.py\<close>: platform checks, the notification and response
  structures, retried ioctls, the per-call event cap, the handshake, and the hand-over of a
  listener that still has users to the detached server. Results of system calls are inputs.
\<close>

subsection \<open>Platform\<close>

text \<open>\<open>release.split("-", 1)[0].split(".")\<close>; \<open>int\<close> raises on anything but a numeral.\<close>

definition kernel_at_least :: "pystr \<Rightarrow> int \<Rightarrow> int \<Rightarrow> bool" where
  "kernel_at_least release major minor =
     (let parts = split_on 46 (takeWhile (\<lambda>c. c \<noteq> 45) release) in
      case parts of
        [] \<Rightarrow> False
      | p0 # rest \<Rightarrow>
          (case py_int 10 p0 of
             None \<Rightarrow> False
           | Some kmaj \<Rightarrow>
               (case (case rest of [] \<Rightarrow> Some 0 | p1 # _ \<Rightarrow> py_int 10 p1) of
                  None \<Rightarrow> False
                | Some kmin \<Rightarrow> kmaj > major \<or> (kmaj = major \<and> kmin \<ge> minor))))"

definition CAP_SYS_ADMIN :: nat where
  "CAP_SYS_ADMIN = 21"

text \<open>The lines of \<open>/proc/self/status\<close>, or \<open>None\<close> when it cannot be read. The result is \<open>None\<close>
  when the line has no second field (an \<open>IndexError\<close>, which is not caught).\<close>

definition has_cap_sys_admin :: "pystr list option \<Rightarrow> bool option" where
  "has_cap_sys_admin status =
     (case status of
        None \<Rightarrow> Some False
      | Some ls \<Rightarrow>
          (case find (starts_with (asc ''CapEff:'')) ls of
             None \<Rightarrow> Some False
           | Some l \<Rightarrow>
               (case split_ws l of
                  _ # w # _ \<Rightarrow> (case py_int 16 w of
                      None \<Rightarrow> Some False | Some caps \<Rightarrow> Some (caps div 2 ^ CAP_SYS_ADMIN mod 2 = 1))
                | _ \<Rightarrow> None)))"

record platform_env =
  pe_platform :: pystr
  pe_libc :: bool
  pe_arch :: pystr
  pe_kernel :: pystr
  pe_status :: "pystr list option"
  pe_sizes :: "(nat \<times> nat \<times> nat) option"

record platform_support =
  ps_ok :: bool
  ps_reason :: pystr

definition unsupported :: "pystr \<Rightarrow> platform_support" where
  "unsupported why = \<lparr>ps_ok = False, ps_reason = why\<rparr>"

text \<open>\<open>reason_arch\<close> is \<open>repr\<close> of the architecture and \<open>show_sizes\<close> that of the size triple.\<close>

definition platform_support ::
  "(pystr \<Rightarrow> pystr) \<Rightarrow> (nat \<times> nat \<times> nat \<Rightarrow> pystr) \<Rightarrow> platform_env \<Rightarrow> platform_support option" where
  "platform_support py_repr show_sizes e =
     (if \<not> starts_with (asc ''linux'') (pe_platform e)
      then Some (unsupported (asc ''not Linux ('' @ pe_platform e @ asc '')''))
      else if \<not> pe_libc e then Some (unsupported (asc ''libc unavailable''))
      else if dget SYSCALLS (pe_arch e) = None
      then Some (unsupported (asc ''unsupported arch '' @ py_repr (pe_arch e) @ asc '' (x86_64 only)''))
      else if \<not> kernel_at_least (pe_kernel e) 5 5
      then Some (unsupported (asc ''kernel '' @ pe_kernel e @ asc '' below 5.5 floor''))
      else (case has_cap_sys_admin (pe_status e) of
          None \<Rightarrow> None
        | Some False \<Rightarrow> Some (unsupported (asc ''requires CAP_SYS_ADMIN''))
        | Some True \<Rightarrow>
            Some (case pe_sizes e of
              None \<Rightarrow> unsupported (asc ''SECCOMP_GET_NOTIF_SIZES unavailable'')
            | Some sz \<Rightarrow>
                if sz \<noteq> (80, 24, 64)
                then unsupported (asc ''notify ABI sizes '' @ show_sizes sz @
                       asc '' differ from expected (80/24/64)'')
                else \<lparr>ps_ok = True, ps_reason = asc ''ok''\<rparr>)))"

subsection \<open>Notifications\<close>

definition ioc :: "nat \<Rightarrow> nat \<Rightarrow> nat \<Rightarrow> nat \<Rightarrow> nat" where
  "ioc direction typ nr sz =
     or (or (or (push_bit 30 direction) (push_bit 16 sz)) (push_bit 8 typ)) nr"

definition slice :: "nat \<Rightarrow> nat \<Rightarrow> 'a list \<Rightarrow> 'a list" where
  "slice pos n xs = take n (drop pos xs)"

record notif =
  no_id :: nat
  no_pid :: nat
  no_nr :: int
  no_args :: "nat list"

definition parse_notif :: "bytes \<Rightarrow> notif" where
  "parse_notif buf =
     \<lparr>no_id = le_nat (slice 0 8 buf), no_pid = le_nat (slice 8 4 buf),
      no_nr = le_int (slice 16 4 buf),
      no_args = map (\<lambda>i. le_nat (slice (32 + 8 * i) 8 buf)) [0, 1, 2, 3, 4, 5]\<rparr>"

text \<open>The response: same id, value and error zero, CONTINUE.\<close>

definition response :: "nat \<Rightarrow> bytes" where
  "response nid = le_bytes 8 nid @ le_bytes 8 0 @ le_bytes 4 0 @ le_bytes 4 1"

datatype errno = EINTR | ENOENT | OtherErr nat

text \<open>An ioctl's outcome at each attempt: success or an errno.\<close>

definition EINTR_RETRIES :: nat where
  "EINTR_RETRIES = 8"

primrec ioctl_tries :: "nat \<Rightarrow> (nat \<Rightarrow> errno option) \<Rightarrow> errno option" where
  "ioctl_tries 0 r = Some EINTR"
| "ioctl_tries (Suc n) r =
     (case r 0 of
        None \<Rightarrow> None
      | Some e \<Rightarrow> if e \<noteq> EINTR then Some e else ioctl_tries n (\<lambda>i. r (Suc i)))"

definition ioctl_retry :: "(nat \<Rightarrow> errno option) \<Rightarrow> errno option" where
  "ioctl_retry r = ioctl_tries EINTR_RETRIES r"

text \<open>Returns whether to keep serving, the notification received and the answer sent.\<close>

definition recv_and_continue :: "(nat \<Rightarrow> errno option) \<Rightarrow> bytes \<Rightarrow> bool \<times> (notif \<times> bytes) option" where
  "recv_and_continue recv_results notif_bytes =
     (case ioctl_retry recv_results of
        Some e \<Rightarrow> (e = ENOENT \<or> e = EINTR, None)
      | None \<Rightarrow> let n = parse_notif notif_bytes in (True, Some (n, response (no_id n))))"

subsection \<open>The event cap\<close>

datatype emitted =
    Event int pystr int "int list"
  | Overflow int

record monitor =
  mo_cap :: int
  mo_arch :: pystr
  mo_count :: int
  mo_out :: "emitted list"

definition new_monitor :: "int \<Rightarrow> pystr \<Rightarrow> monitor" where
  "new_monitor cap arch = \<lparr>mo_cap = max 1 cap, mo_arch = arch, mo_count = 0, mo_out = []\<rparr>"

definition dispatch :: "int \<times> int \<times> int list \<Rightarrow> monitor \<Rightarrow> monitor" where
  "dispatch call m =
     (case call of (pid, nr, args) \<Rightarrow>
        let c = mo_count m + 1; m' = m\<lparr>mo_count := c\<rparr> in
        if c \<le> mo_cap m
        then m'\<lparr>mo_out := mo_out m @ [Event pid (syscall_name (mo_arch m) nr) nr (take 6 args)]\<rparr>
        else if c = mo_cap m + 1 then m'\<lparr>mo_out := mo_out m @ [Overflow pid]\<rparr>
        else m')"

subsection \<open>The handshake\<close>

text \<open>Ancillary data: level and type SCM_RIGHTS or not, and the payload of 4-byte descriptors.\<close>

fun extract_fd :: "(bool \<times> bytes) list \<Rightarrow> int option" where
  "extract_fd [] = None"
| "extract_fd ((rights, data) # rest) =
     (if rights \<and> length data div 4 \<ge> 1 then Some (le_int (take 4 data)) else extract_fd rest)"

record handshake =
  hs_stop :: bool
  hs_ready :: bool
  hs_msg :: "(bytes \<times> (bool \<times> bytes) list) option"

definition handshake :: "handshake \<Rightarrow> int option" where
  "handshake h =
     (if hs_stop h \<or> \<not> hs_ready h then None
      else case hs_msg h of
        None \<Rightarrow> None
      | Some (msg, anc) \<Rightarrow> if msg \<noteq> [1] then None else extract_fd anc)"

subsection \<open>The detached server\<close>

record detached =
  de_pending :: "nat list"
  de_order :: "nat list"
  de_closed :: "nat list"

definition DETACHED_MAX :: nat where
  "DETACHED_MAX = 1024"

definition de_init :: detached where
  "de_init = \<lparr>de_pending = [], de_order = [], de_closed = []\<rparr>"

text \<open>\<open>can_run\<close>: the pipe and the thread could be started and woken.\<close>

definition adopt :: "bool \<Rightarrow> nat \<Rightarrow> detached \<Rightarrow> bool \<times> detached" where
  "adopt can_run fd s = (if can_run then (True, s\<lparr>de_pending := de_pending s @ [fd]\<rparr>) else (False, s))"

definition de_close :: "nat \<Rightarrow> detached \<Rightarrow> detached" where
  "de_close fd s = s\<lparr>de_order := remove1 fd (de_order s), de_closed := de_closed s @ [fd]\<rparr>"

text \<open>\<open>while len(order) >= max: close(order[0])\<close>\<close>

function evict :: "nat \<Rightarrow> detached \<Rightarrow> detached" where
  "evict cap s =
     (if de_order s = [] \<or> length (de_order s) < cap then s else evict cap (de_close (hd (de_order s)) s))"
  by pat_completeness auto
termination
  by (relation "measure (\<lambda>(cap, s). length (de_order s))")
     (auto simp: de_close_def length_remove1)

declare evict.simps [simp del]

definition take_one :: "nat \<Rightarrow> nat \<Rightarrow> detached \<Rightarrow> detached" where
  "take_one cap fd s = (let s = evict cap s in s\<lparr>de_order := de_order s @ [fd]\<rparr>)"

definition wake :: "nat \<Rightarrow> detached \<Rightarrow> detached" where
  "wake cap s = foldl (\<lambda>s fd. take_one cap fd s) (s\<lparr>de_pending := []\<rparr>) (de_pending s)"

text \<open>One poll report for a listener: readable (the notification's outcome in \<open>keep\<close>) or dead.\<close>

definition serve :: "nat \<Rightarrow> bool \<Rightarrow> bool \<Rightarrow> bool \<Rightarrow> detached \<Rightarrow> detached" where
  "serve fd readable dead keep s =
     (if fd \<notin> set (de_order s) then s
      else if readable then (if keep then s else de_close fd s)
      else if dead then de_close fd s else s)"

subsection \<open>Stopping a monitor\<close>

record stop_state =
  st_stopped :: bool
  st_listener :: "nat option"
  st_fds :: "nat list"
  st_closed :: "nat list"

definition monitor_stop ::
  "bool \<Rightarrow> bool \<Rightarrow> bool \<Rightarrow> stop_state \<times> detached \<Rightarrow> stop_state \<times> detached" where
  "monitor_stop thread_alive hung_up can_run sd =
     (case sd of (s, d) \<Rightarrow>
        if st_stopped s then (s, d)
        else
          let (s, d) =
            (case st_listener s of
               Some fd \<Rightarrow>
                 if \<not> thread_alive \<and> \<not> hung_up then
                   (case adopt can_run fd d of
                      (True, d') \<Rightarrow> (s\<lparr>st_listener := None\<rparr>, d')
                    | (False, d') \<Rightarrow> (s, d'))
                 else (s, d)
             | None \<Rightarrow> (s, d))
          in (s\<lparr>st_stopped := True,
                st_closed := st_closed s @ (case st_listener s of None \<Rightarrow> [] | Some fd \<Rightarrow> [fd]) @ st_fds s,
                st_listener := None, st_fds := []\<rparr>, d))"

end
