(* ===== verification/MonitorProps.thy ===== *)
theory MonitorProps
  imports SeccompMonitor "HOL-Library.Multiset"
begin

text \<open>
  What the monitor guarantees: the per-call cap, exact reading of notifications, and that a
  listener is owned by exactly one party until it is closed.
\<close>

subsection \<open>The event cap\<close>

definition event_of :: "pystr \<Rightarrow> int \<times> int \<times> int list \<Rightarrow> emitted" where
  "event_of arch call = (case call of (pid, nr, args) \<Rightarrow> Event pid (syscall_name arch nr) nr (take 6 args))"

lemma dispatch_fields [simp]:
  "mo_cap (dispatch c m) = mo_cap m" "mo_arch (dispatch c m) = mo_arch m"
  "mo_count (dispatch c m) = mo_count m + 1"
  by (auto simp: dispatch_def Let_def split: prod.split)

abbreviation dispatch_all :: "(int \<times> int \<times> int list) list \<Rightarrow> monitor \<Rightarrow> monitor" where
  "dispatch_all calls m \<equiv> foldl (\<lambda>m c. dispatch c m) m calls"

lemma dispatch_out:
  "mo_out (dispatch (pid, nr, args) m) = mo_out m @
     (if mo_count m < mo_cap m then [event_of (mo_arch m) (pid, nr, args)]
      else if mo_count m = mo_cap m then [Overflow pid] else [])"
  by (simp add: dispatch_def Let_def event_of_def)

lemma dispatch_all_fields:
  "mo_cap (dispatch_all calls m) = mo_cap m" "mo_arch (dispatch_all calls m) = mo_arch m"
  "mo_count (dispatch_all calls m) = mo_count m + int (length calls)"
  by (induction calls arbitrary: m) simp_all

lemma dispatch_all_out:
  assumes "mo_count m = 0" "mo_out m = []" "mo_cap m = int n"
  shows "mo_out (dispatch_all calls m) = map (event_of (mo_arch m)) (take n calls) @
     (case drop n calls of [] \<Rightarrow> [] | (pid, _) # _ \<Rightarrow> [Overflow pid])"
proof (induction calls rule: rev_induct)
  case Nil
  then show ?case using assms by simp
next
  case (snoc c calls)
  obtain pid nr args where c: "c = (pid, nr, args)" by (cases c)
  have out: "mo_out (dispatch_all (calls @ [c]) m) = mo_out (dispatch_all calls m) @
     (if length calls < n then [event_of (mo_arch m) c]
      else if length calls = n then [Overflow pid] else [])"
    using assms by (simp add: c dispatch_out dispatch_all_fields)
  consider "length calls < n" | "length calls = n" | "length calls > n" by linarith
  then show ?case
  proof cases
    case 1
    with snoc out show ?thesis by simp
  next
    case 2
    with snoc out show ?thesis by (simp add: c)
  next
    case 3
    then obtain x xs where "drop n calls = x # xs" by (cases "drop n calls") simp_all
    with snoc out 3 show ?thesis by simp
  qed
qed

text \<open>A monitor with cap \<open>n\<close> (at least 1) reports exactly the first \<open>n\<close> system calls of its
  child, in order, then one overflow that names the process of the next one, then nothing.\<close>

theorem event_cap:
  "mo_out (foldl (\<lambda>m c. dispatch c m) (new_monitor cap arch) calls) =
     map (event_of arch) (take (nat (max 1 cap)) calls) @
     (case drop (nat (max 1 cap)) calls of [] \<Rightarrow> [] | (pid, _) # _ \<Rightarrow> [Overflow pid])"
  using dispatch_all_out [of "new_monitor cap arch" "nat (max 1 cap)" calls]
  by (simp add: new_monitor_def)

subsection \<open>Notifications\<close>

text \<open>The kernel's \<open>struct seccomp_notif\<close> (id, pid, flags, then nr, arch, ip, args).\<close>

definition notif_bytes :: "nat \<Rightarrow> nat \<Rightarrow> nat \<Rightarrow> int \<Rightarrow> nat \<Rightarrow> nat \<Rightarrow> nat list \<Rightarrow> bytes" where
  "notif_bytes nid pid flags nr arch ip args =
     le_bytes 8 nid @ le_bytes 4 pid @ le_bytes 4 flags @ le_bytes 4 (nat (nr mod 2 ^ 32)) @
     le_bytes 4 arch @ le_bytes 8 ip @ concat (map (le_bytes 8) args)"

lemma le_int_4:
  assumes "- (2 ^ 31) \<le> nr" "nr < 2 ^ 31"
  shows "le_int (le_bytes 4 (nat (nr mod 2 ^ 32))) = nr"
proof -
  have n: "le_nat (le_bytes 4 (nat (nr mod 2 ^ 32))) = nat (nr mod 2 ^ 32)"
    by (rule le_roundtrip) (simp add: nat_less_iff)
  have m: "nr mod 2 ^ 32 = (if 0 \<le> nr then nr else nr + 2 ^ 32)"
  proof (cases "0 \<le> nr")
    case True
    then show ?thesis using assms by simp
  next
    case False
    then have "(nr + 2 ^ 32) mod 2 ^ 32 = nr + 2 ^ 32"
      using assms by (intro mod_pos_pos_trivial) simp_all
    then show ?thesis using False by simp
  qed
  show ?thesis
    unfolding le_int_def Let_def n length_le_bytes m using assms by (auto split: if_splits)
qed

lemma slice_skip: "length xs = k \<Longrightarrow> slice (k + pos) n (xs @ ys) = slice pos n ys"
  by (simp add: slice_def)

lemma slice_here: "length xs = n \<Longrightarrow> slice 0 n (xs @ ys) = xs"
  by (simp add: slice_def)

text \<open>Every notification the kernel can deliver is read back exactly, at the signed and unsigned
  widths of its fields, and is answered CONTINUE under its own id with value and error zero.\<close>

theorem notification_roundtrip:
  assumes "nid < 2 ^ 64" "pid < 2 ^ 32" "- (2 ^ 31) \<le> nr" "nr < 2 ^ 31"
    "list_all (\<lambda>a. a < 2 ^ 64) [a0, a1, a2, a3, a4, a5]" "r 0 = None"
  shows "recv_and_continue r (notif_bytes nid pid flags nr arch ip [a0, a1, a2, a3, a4, a5]) =
    (True, Some (\<lparr>no_id = nid, no_pid = pid, no_nr = nr, no_args = [a0, a1, a2, a3, a4, a5]\<rparr>,
       le_bytes 8 nid @ le_bytes 8 0 @ le_bytes 4 0 @ le_bytes 4 1))"
proof -
  let ?b = "notif_bytes nid pid flags nr arch ip [a0, a1, a2, a3, a4, a5]"
  have "le_nat (slice 0 8 ?b) = nid" "le_nat (slice 8 4 ?b) = pid" "le_int (slice 16 4 ?b) = nr"
    using assms(1-4) by (simp_all add: notif_bytes_def slice_def le_nat_bytes le_int_4 [simplified])
  moreover have "map (\<lambda>i. le_nat (slice (32 + 8 * i) 8 ?b)) [0, 1, 2, 3, 4, 5] = [a0, a1, a2, a3, a4, a5]"
    using assms(5) by (simp add: notif_bytes_def slice_def le_nat_bytes)
  ultimately have "parse_notif ?b =
      \<lparr>no_id = nid, no_pid = pid, no_nr = nr, no_args = [a0, a1, a2, a3, a4, a5]\<rparr>"
    unfolding parse_notif_def by simp
  moreover have "ioctl_retry r = None"
    using assms(6) by (simp add: ioctl_retry_def EINTR_RETRIES_def numeral_eq_Suc)
  ultimately show ?thesis by (simp add: recv_and_continue_def response_def Let_def)
qed

subsection \<open>The detached server\<close>

datatype detached_event =
    Adopt bool nat
  | Wake
  | Report nat bool bool bool

fun detached_step :: "nat \<Rightarrow> detached \<Rightarrow> detached_event \<Rightarrow> detached" where
  "detached_step cap s (Adopt can fd) = snd (adopt can fd s)"
| "detached_step cap s Wake = wake cap s"
| "detached_step cap s (Report fd readable dead keep) = serve fd readable dead keep s"

fun adopted :: "detached_event \<Rightarrow> nat list" where
  "adopted (Adopt can fd) = (if can then [fd] else [])"
| "adopted _ = []"

text \<open>A report that ends a listener: a failed receive, or a hang-up with nothing to read.\<close>

fun ends_listener :: "detached_event \<Rightarrow> bool" where
  "ends_listener (Report fd readable dead keep) = (if readable then \<not> keep else dead)"
| "ends_listener _ = False"

definition held :: "detached \<Rightarrow> nat multiset" where
  "held s = mset (de_pending s @ de_order s @ de_closed s)"

definition open_listeners :: "detached \<Rightarrow> nat" where
  "open_listeners s = length (de_pending s) + length (de_order s)"

lemma mset_remove1_add: "x \<in> set xs \<Longrightarrow> mset (remove1 x xs) + {#x#} = mset xs"
  by simp

lemma de_close_held [simp]: "fd \<in> set (de_order s) \<Longrightarrow> held (de_close fd s) = held s"
  by (simp add: held_def de_close_def)

lemma de_close_length: "fd \<in> set (de_order s) \<Longrightarrow> length (de_order (de_close fd s)) < length (de_order s)"
  using length_pos_if_in_set [of fd "de_order s"] by (simp add: de_close_def length_remove1)

lemma evict_props:
  "1 \<le> cap \<Longrightarrow> held (evict cap s) = held s \<and> length (de_order (evict cap s)) < cap \<and>
     de_pending (evict cap s) = de_pending s \<and>
     (length (de_order s) < cap \<longrightarrow> evict cap s = s)"
proof (induction cap s rule: evict.induct)
  case (1 cap s)
  show ?case
  proof (cases "de_order s = [] \<or> length (de_order s) < cap")
    case True
    with 1 show ?thesis by (subst (1 2 3 4) evict.simps) auto
  next
    case False
    then have "held (de_close (hd (de_order s)) s) = held s" by simp
    moreover have "de_pending (de_close (hd (de_order s)) s) = de_pending s" by (simp add: de_close_def)
    moreover have "evict cap s = evict cap (de_close (hd (de_order s)) s)"
      using False by (subst evict.simps) simp
    ultimately show ?thesis using 1 False by simp
  qed
qed

lemma take_one_props:
  assumes "1 \<le> cap"
  shows "held (take_one cap fd s) = held s + {#fd#}" "length (de_order (take_one cap fd s)) \<le> cap"
    "de_pending (take_one cap fd s) = de_pending s"
    "length (de_order s) < cap \<Longrightarrow> take_one cap fd s = s\<lparr>de_order := de_order s @ [fd]\<rparr>"
  using evict_props [OF assms, of s] by (auto simp: take_one_def Let_def held_def)

lemma take_all_props:
  assumes "1 \<le> cap"
  shows "length (de_order s) \<le> cap \<Longrightarrow> held (foldl (\<lambda>s fd. take_one cap fd s) s fds) = held s + mset fds \<and>
     length (de_order (foldl (\<lambda>s fd. take_one cap fd s) s fds)) \<le> cap \<and>
     de_pending (foldl (\<lambda>s fd. take_one cap fd s) s fds) = de_pending s \<and>
     (length (de_order s) + length fds \<le> cap \<longrightarrow>
        foldl (\<lambda>s fd. take_one cap fd s) s fds = s\<lparr>de_order := de_order s @ fds\<rparr>)"
proof (induction fds arbitrary: s)
  case (Cons f fds)
  note t = take_one_props [OF assms, where fd = f and s = s]
  from Cons.IH [OF t(2)] t show ?case by auto
qed simp

lemma wake_props:
  assumes "1 \<le> cap" "length (de_order s) \<le> cap"
  shows "held (wake cap s) = held s" "length (de_order (wake cap s)) \<le> cap"
    "open_listeners s \<le> cap \<Longrightarrow> de_closed (wake cap s) = de_closed s \<and> open_listeners (wake cap s) = open_listeners s"
  using take_all_props [OF assms(1), of "s\<lparr>de_pending := []\<rparr>" "de_pending s"] assms(2)
  by (auto simp: wake_def held_def open_listeners_def)

lemma detached_step_props:
  assumes "1 \<le> cap" "length (de_order s) \<le> cap"
  shows "held (detached_step cap s e) = held s + mset (adopted e)"
    "length (de_order (detached_step cap s e)) \<le> cap"
proof -
  have "held (detached_step cap s e) = held s + mset (adopted e) \<and>
      length (de_order (detached_step cap s e)) \<le> cap"
  proof (cases e)
    case (Report fd readable dead keep)
    then show ?thesis using assms(2) de_close_length [of fd s]
      by (auto simp: serve_def intro: order_trans [OF less_imp_le])
  qed (use assms wake_props in \<open>auto simp: adopt_def held_def\<close>)
  then show "held (detached_step cap s e) = held s + mset (adopted e)"
    "length (de_order (detached_step cap s e)) \<le> cap" by simp_all
qed

lemma detached_run_props:
  "1 \<le> cap \<Longrightarrow> length (de_order s) \<le> cap \<Longrightarrow>
     held (run (detached_step cap) s es) = held s + mset (concat (map adopted es)) \<and>
     length (de_order (run (detached_step cap) s es)) \<le> cap"
proof (induction es arbitrary: s)
  case (Cons e es)
  with Cons.IH [of "detached_step cap s e"] detached_step_props [of cap s e] show ?case by simp
qed simp

lemma detached_quiet:
  "1 \<le> cap \<Longrightarrow> length (de_order s) \<le> cap \<Longrightarrow> list_all (\<lambda>e. \<not> ends_listener e) es \<Longrightarrow>
   open_listeners s + length (concat (map adopted es)) \<le> cap \<Longrightarrow>
     de_closed (run (detached_step cap) s es) = de_closed s"
proof (induction es arbitrary: s)
  case (Cons e es)
  have "de_closed (detached_step cap s e) = de_closed s \<and>
      open_listeners (detached_step cap s e) = open_listeners s + length (adopted e)"
  proof (cases e)
    case Wake
    with Cons.prems wake_props(3) [of cap s] show ?thesis by simp
  next
    case (Report fd readable dead keep)
    with Cons.prems show ?thesis by (auto simp: serve_def split: if_splits)
  qed (simp add: adopt_def open_listeners_def)
  with Cons.IH [of "detached_step cap s e"] Cons.prems detached_step_props(2) [of cap s e]
  show ?case by simp
qed simp

text \<open>Every listener handed to the detached server is, at any time, waiting, being served or
  closed, and never two of these; at most the cap are served; and as long as no more than the
  cap were handed over, none is closed before it hangs up or fails.\<close>

theorem detached_conserves:
  "let s = run (detached_step DETACHED_MAX) de_init es;
       handed = concat (map adopted es)
   in mset (de_pending s @ de_order s @ de_closed s) = mset handed \<and>
      length (de_order s) \<le> DETACHED_MAX \<and>
      (list_all (\<lambda>e. \<not> ends_listener e) es \<and> length handed \<le> DETACHED_MAX \<longrightarrow> de_closed s = [])"
proof -
  have cap: "1 \<le> DETACHED_MAX" by (simp add: DETACHED_MAX_def)
  show ?thesis
    using detached_run_props [OF cap, of de_init es] detached_quiet [OF cap, of de_init es]
    by (simp add: Let_def de_init_def held_def open_listeners_def)
qed

subsection \<open>Stopping\<close>

text \<open>Stopping a monitor hands its listener to the detached server exactly when the supervisor
  has ended, some process still carries the filter and the server can run; otherwise it is
  closed. Everything else the monitor owns is closed, once: a second stop changes nothing.\<close>

theorem stop_releases_everything:
  assumes "\<not> st_stopped s" "st_listener s = Some fd"
  shows "let (s1, d1) = monitor_stop alive hung can (s, d);
             keeps = (\<not> alive \<and> \<not> hung \<and> can) in
      de_pending d1 = de_pending d @ (if keeps then [fd] else []) \<and>
      st_closed s1 = st_closed s @ (if keeps then [] else [fd]) @ st_fds s \<and>
      st_listener s1 = None \<and> st_fds s1 = [] \<and>
      monitor_stop alive' hung' can' (s1, d1) = (s1, d1)"
  using assms by (auto simp: monitor_stop_def adopt_def Let_def split: prod.splits bool.splits)

definition sample_stop :: stop_state where
  "sample_stop = \<lparr>st_stopped = False, st_listener = Some 7, st_fds = [8, 9], st_closed = []\<rparr>"

lemma stop_releases_everything_witness:
  "monitor_stop False False True (sample_stop, de_init) =
     (\<lparr>st_stopped = True, st_listener = None, st_fds = [], st_closed = [8, 9]\<rparr>,
      de_init\<lparr>de_pending := [7]\<rparr>)"
  using stop_releases_everything [of sample_stop 7 False False True de_init]
  by (simp add: sample_stop_def monitor_stop_def adopt_def de_init_def)

lemma detached_conserves_witness:
  "de_closed (run (detached_step DETACHED_MAX) de_init [Adopt True 3, Wake, Report 3 True False True]) = []"
  using detached_conserves [of "[Adopt True 3, Wake, Report 3 True False True]"]
  by (simp add: Let_def DETACHED_MAX_def)

lemma notification_roundtrip_witness:
  "recv_and_continue (\<lambda>_. None) (notif_bytes 5 77 0 (- 1) 0 0 [1, 2, 3, 4, 5, 6]) =
    (True, Some (\<lparr>no_id = 5, no_pid = 77, no_nr = - 1, no_args = [1, 2, 3, 4, 5, 6]\<rparr>,
       le_bytes 8 5 @ le_bytes 8 0 @ le_bytes 4 0 @ le_bytes 4 1))"
  by (rule notification_roundtrip) simp_all

end
