(* ===== verification/PolicyText.thy ===== *)
theory PolicyText
  imports Numerals Config
begin

text \<open>
  The texts the policy layer sees (\<open>_policy_text_*\<close> in \<open>src/relay_shell/server.py\<close>) and the
  canonical forms of literal addresses appended to them (\<open>_canonical_ips\<close>).

  \<open>socket.inet_aton\<close> follows the C library's grammar: one to four numbers in decimal, octal or
  hexadecimal separated by dots, the last one filling the remaining bytes. Dotted-quad
  addresses of \<open>ipaddress\<close> are read here; its IPv6 reader is a parameter \<open>ip6\<close>: the printed
  address and, when there is one, the printed embedded IPv4 address, or none where
  \<open>ip_address\<close> raises \<open>ValueError\<close>. As for \<open>is_space\<close>, the character classes are those of
  Latin-1: \<open>str.isdigit\<close> holds of the superscript digits, which \<open>int\<close> does not read.
\<close>

datatype py_error = ValueError | UnicodeEncodeError | AttributeError

type_synonym ip6_reader = "pystr \<Rightarrow> (pystr \<times> pystr option) option"

subsection \<open>Numbers and addresses\<close>

definition str_isdigit :: "pystr \<Rightarrow> bool" where
  "str_isdigit s \<longleftrightarrow> s \<noteq> [] \<and> list_all (\<lambda>c. is_digit c \<or> c = 178 \<or> c = 179 \<or> c = 185) s"

text \<open>\<open>int(s)\<close> on a text for which \<open>isdigit\<close> holds; more than 4300 digits are refused.\<close>

definition int_of_digits :: "pystr \<Rightarrow> py_error + nat" where
  "int_of_digits s =
     (if list_all is_digit s \<and> length s \<le> 4300 then Inr (undigits s) else Inl ValueError)"

text \<open>\<open>strtoul\<close>: the longest run of digits of the base, and the rest.\<close>

fun span_digits :: "nat \<Rightarrow> nat \<Rightarrow> pystr \<Rightarrow> nat \<times> pystr" where
  "span_digits base acc [] = (acc, [])"
| "span_digits base acc (c # s) =
     (case digit_val c of
        None \<Rightarrow> (acc, c # s)
      | Some v \<Rightarrow> if v < base then span_digits base (acc * base + v) s else (acc, c # s))"

definition is_hex :: "nat \<Rightarrow> bool" where
  "is_hex c \<longleftrightarrow> digit_val c \<noteq> None"

definition aton_number :: "pystr \<Rightarrow> nat \<times> pystr" where
  "aton_number s =
     (if lower (take 2 s) = asc ''0x'' \<and> list_all is_hex (take 1 (drop 2 s)) \<and> length s > 2
      then span_digits 16 0 (drop 2 s)
      else if take 1 s = [48] then span_digits 8 0 s
      else span_digits 10 0 s)"

definition c_space :: "nat \<Rightarrow> bool" where
  "c_space c \<longleftrightarrow> c = 32 \<or> (9 \<le> c \<and> c \<le> 13)"

text \<open>Up to \<open>k\<close> more dots; the bytes read so far are \<open>acc\<close>.\<close>

fun aton_from :: "nat \<Rightarrow> nat list \<Rightarrow> pystr \<Rightarrow> (nat list \<times> nat) option" where
  "aton_from k acc s =
     (if s = [] \<or> \<not> is_digit (hd s) then None
      else case aton_number s of (v, r) \<Rightarrow>
        if v > 4294967295 then None
        else case r of
          [] \<Rightarrow> Some (acc, v)
        | c # r' \<Rightarrow>
            if c = 46 then (case k of 0 \<Rightarrow> None
                            | Suc k' \<Rightarrow> if v > 255 then None else aton_from k' (acc @ [v]) r')
            else if c_space c then Some (acc, v) else None)"

declare aton_from.simps [simp del]

text \<open>The \<open>n\<close> low bytes of a number, most significant first.\<close>

primrec be_bytes :: "nat \<Rightarrow> nat \<Rightarrow> nat list" where
  "be_bytes 0 v = []"
| "be_bytes (Suc n) v = be_bytes n (v div 256) @ [v mod 256]"

definition inet_aton :: "pystr \<Rightarrow> nat list option" where
  "inet_aton s =
     (case aton_from 3 [] s of
        None \<Rightarrow> None
      | Some (acc, v) \<Rightarrow>
          if v < 256 ^ (4 - length acc) then Some (acc @ be_bytes (4 - length acc) v) else None)"

definition inet_ntoa :: "nat list \<Rightarrow> pystr" where
  "inet_ntoa bs = join [46] (map digits bs)"

text \<open>The argument conversion of \<open>socket.inet_aton\<close>: UTF-8, without a NUL.\<close>

definition c_string_error :: "pystr \<Rightarrow> py_error option" where
  "c_string_error s =
     (if list_ex is_surrogate s then Some UnicodeEncodeError
      else if 0 \<in> set s then Some ValueError else None)"

definition ipv4_octet :: "pystr \<Rightarrow> bool" where
  "ipv4_octet s \<longleftrightarrow> s \<noteq> [] \<and> list_all is_digit s \<and> length s \<le> 3 \<and>
     (s = [48] \<or> hd s \<noteq> 48) \<and> undigits s \<le> 255"

definition ip_address :: "ip6_reader \<Rightarrow> pystr \<Rightarrow> (pystr \<times> pystr option) option" where
  "ip_address ip6 t =
     (if length (split_on 46 t) = 4 \<and> list_all ipv4_octet (split_on 46 t) then Some (t, None)
      else ip6 t)"

definition looks_ipish :: "pystr \<Rightarrow> py_error + bool" where
  "looks_ipish t =
     (if 46 \<in> set t \<or> starts_with (asc ''0x'') (lower t) then Inr True
      else if str_isdigit t
      then (case int_of_digits t of Inl e \<Rightarrow> Inl e | Inr n \<Rightarrow> Inr (n > 65535))
      else Inr False)"

text \<open>\<open>list(dict.fromkeys(xs))\<close>.\<close>

definition fromkeys :: "'a list \<Rightarrow> 'a list" where
  "fromkeys xs = rev (remdups (rev xs))"

definition canonical_ips :: "ip6_reader \<Rightarrow> pystr \<Rightarrow> py_error + pystr list" where
  "canonical_ips ip6 token =
     (let t = strip_brackets (strip token) in
      if t = [] then Inr []
      else
        let found = (case ip_address ip6 t of
                       None \<Rightarrow> [] | Some (s, None) \<Rightarrow> [s] | Some (s, Some m) \<Rightarrow> [s, m])
        in case looks_ipish t of
             Inl e \<Rightarrow> Inl e
           | Inr False \<Rightarrow> Inr (fromkeys found)
           | Inr True \<Rightarrow>
               (case c_string_error t of
                  Some e \<Rightarrow> Inl e
                | None \<Rightarrow> (case inet_aton t of
                    None \<Rightarrow> Inr (fromkeys found)
                  | Some bs \<Rightarrow> Inr (fromkeys (found @ [inet_ntoa bs])))))"

definition MAX_CANON_TOKENS :: nat where
  "MAX_CANON_TOKENS = 128"

definition add_forms :: "pystr \<Rightarrow> pystr \<Rightarrow> pystr list \<Rightarrow> pystr list \<Rightarrow> pystr list" where
  "add_forms probe tok ips extra =
     foldl (\<lambda>ex ip. if ip \<noteq> tok \<and> ip \<notin> set ex \<and> \<not> has_sub ip probe then ex @ [ip] else ex) extra ips"

fun widen :: "ip6_reader \<Rightarrow> pystr \<Rightarrow> pystr list \<Rightarrow> pystr list \<Rightarrow> py_error + pystr list" where
  "widen ip6 probe [] extra = Inr extra"
| "widen ip6 probe (tok # toks) extra =
     (case canonical_ips ip6 tok of
        Inl e \<Rightarrow> Inl e
      | Inr ips \<Rightarrow> widen ip6 probe toks (add_forms probe tok ips extra))"

definition with_canonical_ips :: "ip6_reader \<Rightarrow> pystr \<Rightarrow> pystr list \<Rightarrow> py_error + pystr" where
  "with_canonical_ips ip6 probe toks =
     (case widen ip6 probe (take MAX_CANON_TOKENS toks) [] of
        Inl e \<Rightarrow> Inl e
      | Inr extra \<Rightarrow> Inr (if extra = [] then probe else probe @ [32] @ join [32] extra))"

subsection \<open>The builders\<close>

definition host_tokens :: "pystr \<Rightarrow> pystr list" where
  "host_tokens hosts = split_ws (replace_char 44 [32] hosts)"

text \<open>Lines of the non-empty parts.\<close>

definition join_parts :: "pystr list \<Rightarrow> pystr" where
  "join_parts ps = join [10] (filter (\<lambda>p. p \<noteq> []) ps)"

definition policy_text_shell_exec :: "pystr \<Rightarrow> pystr \<Rightarrow> pystr \<Rightarrow> pystr" where
  "policy_text_shell_exec command stdin env_json = join_parts [command, stdin, env_json]"

definition policy_text_shell_script :: "pystr \<Rightarrow> pystr \<Rightarrow> pystr" where
  "policy_text_shell_script script env_json = join_parts [script, env_json]"

definition policy_text_shell_spawn :: "pystr \<Rightarrow> pystr \<Rightarrow> pystr" where
  "policy_text_shell_spawn command env_json = join_parts [command, env_json]"

definition after_at :: "pystr \<Rightarrow> pystr" where
  "after_at hop = (case rpartition_on 64 hop of (_, _, b) \<Rightarrow> b)"

definition hop_host :: "pystr \<Rightarrow> pystr" where
  "hop_host hop =
     (let h = after_at hop in
      if count_list h 58 = 1 then fst (partition_on 58 h) else h)"

definition jump_hosts :: "pystr \<Rightarrow> pystr list" where
  "jump_hosts jump = map hop_host (host_tokens jump)"

definition with_jump :: "pystr \<Rightarrow> pystr \<Rightarrow> pystr \<times> pystr list" where
  "with_jump probe jump = (if jump = [] then (probe, []) else (probe @ [10] @ jump, jump_hosts jump))"

definition policy_text_ssh_exec :: "ip6_reader \<Rightarrow> pystr \<Rightarrow> pystr \<Rightarrow> pystr \<Rightarrow> py_error + pystr" where
  "policy_text_ssh_exec ip6 host command jump =
     (case with_jump (command @ [10] @ host) jump of
        (probe, hops) \<Rightarrow> with_canonical_ips ip6 probe (host # hops))"

definition policy_text_ssh_spawn :: "ip6_reader \<Rightarrow> pystr \<Rightarrow> pystr \<Rightarrow> pystr \<Rightarrow> py_error + pystr" where
  "policy_text_ssh_spawn ip6 host command jump =
     (case with_jump (command @ [10] @ host) jump of
        (probe, hops) \<Rightarrow> with_canonical_ips ip6 probe (host # hops))"

definition policy_text_ssh_fanout :: "ip6_reader \<Rightarrow> pystr \<Rightarrow> pystr \<Rightarrow> py_error + pystr" where
  "policy_text_ssh_fanout ip6 hosts command =
     with_canonical_ips ip6 (command @ [10] @ hosts) (host_tokens hosts)"

definition policy_text_ssh_check :: "ip6_reader \<Rightarrow> pystr \<Rightarrow> py_error + pystr" where
  "policy_text_ssh_check ip6 hosts = with_canonical_ips ip6 hosts (host_tokens hosts)"

definition policy_text_session_send :: "pystr \<Rightarrow> pystr \<Rightarrow> pystr" where
  "policy_text_session_send data pending = pending @ data"

definition policy_text_ssh_upload ::
  "ip6_reader \<Rightarrow> pystr \<Rightarrow> pystr \<Rightarrow> pystr \<Rightarrow> pystr \<Rightarrow> py_error + pystr" where
  "policy_text_ssh_upload ip6 host local_path remote_path jump =
     (case with_jump (asc ''upload '' @ local_path @ [32] @ host @ [58] @ remote_path) jump of
        (probe, hops) \<Rightarrow> with_canonical_ips ip6 probe (host # hops))"

definition policy_text_ssh_download ::
  "ip6_reader \<Rightarrow> pystr \<Rightarrow> pystr \<Rightarrow> pystr \<Rightarrow> pystr \<Rightarrow> py_error + pystr" where
  "policy_text_ssh_download ip6 host remote_path local_path jump =
     (case with_jump (asc ''download '' @ host @ [58] @ remote_path @ [32] @ local_path) jump of
        (probe, hops) \<Rightarrow> with_canonical_ips ip6 probe (host # hops))"

definition forward_dhost :: "pystr \<Rightarrow> pystr" where
  "forward_dhost spec =
     (let parts = split_on 58 spec in
      if length parts \<ge> 4 \<and> upper (strip (parts ! 0)) \<in> {asc ''L'', asc ''R''} then parts ! 2
      else [])"

definition policy_text_ssh_forward ::
  "ip6_reader \<Rightarrow> pystr \<Rightarrow> pystr \<Rightarrow> pystr \<Rightarrow> py_error + pystr" where
  "policy_text_ssh_forward ip6 spec host jump =
     (case with_jump (asc ''forward '' @ spec) jump of
        (probe, hops) \<Rightarrow>
          with_canonical_ips ip6 (if host \<noteq> [] then probe @ [10] @ host else probe)
            (forward_dhost spec # (if host \<noteq> [] then [host] else []) @ hops))"

definition augment_probe_with_ips :: "ip6_reader \<Rightarrow> pystr \<Rightarrow> py_error + pystr" where
  "augment_probe_with_ips ip6 hosts = with_canonical_ips ip6 hosts (host_tokens hosts)"

definition policy_text_ssh_keyscan :: "ip6_reader \<Rightarrow> pystr \<Rightarrow> py_error + pystr" where
  "policy_text_ssh_keyscan ip6 hosts = augment_probe_with_ips ip6 hosts"

end
