(* ===== verification/Inventory.thy ===== *)
theory Inventory
  imports PolicyText Json
begin

text \<open>
  \<open>src/relay_shell/inventory.py\<close>: the listing reader of \<open>ssh_config\<close>, the JSON inventory file,
  and the resolution of a target. A file is what reading it yields (\<open>file_state\<close>). The fields
  the JSON file supplies are Python values (the source does not check their types), \<open>None\<close>
  being \<open>JNull\<close>; \<open>repr\<close> stands for \<open>str\<close> of a float, list or object.
\<close>

datatype file_state = NoFile | NoAccess | FileBytes bytes

record host_spec =
  hs_name :: pystr
  hs_hostname :: pystr
  hs_user :: json
  hs_port :: "nat option"
  hs_identity_file :: json
  hs_jump :: json
  hs_known_hosts :: json
  hs_source :: pystr

definition explicit_spec :: "pystr \<Rightarrow> pystr \<Rightarrow> host_spec" where
  "explicit_spec name hostname =
     \<lparr>hs_name = name, hs_hostname = hostname, hs_user = JNull, hs_port = None,
      hs_identity_file = JNull, hs_jump = JNull, hs_known_hosts = JNull,
      hs_source = asc ''explicit''\<rparr>"

definition opt_str :: "pystr option \<Rightarrow> json" where
  "opt_str v = (case v of None \<Rightarrow> JNull | Some s \<Rightarrow> JStr s)"

definition as_dict :: "host_spec \<Rightarrow> (pystr, json) dict" where
  "as_dict h =
     [(asc ''name'', JStr (hs_name h)), (asc ''hostname'', JStr (hs_hostname h)),
      (asc ''user'', hs_user h),
      (asc ''port'', case hs_port h of None \<Rightarrow> JNull | Some p \<Rightarrow> JInt (int p)),
      (asc ''identity_file'', hs_identity_file h), (asc ''jump'', hs_jump h),
      (asc ''source'', JStr (hs_source h))]"

subsection \<open>ssh\_config\<close>

definition ascii_port :: "pystr \<Rightarrow> py_error + nat option" where
  "ascii_port value =
     (if value \<noteq> [] \<and> list_all is_digit value then map_sum (\<lambda>e. e) Some (int_of_digits value)
      else Inr None)"

definition is_none_word :: "pystr \<Rightarrow> bool" where
  "is_none_word s \<longleftrightarrow> lower (strip s) = asc ''none''"

text \<open>\<open>_proxyjump\<close>: \<open>strip\<close> of a value that is not a string raises.\<close>

definition proxyjump :: "json \<Rightarrow> py_error + json" where
  "proxyjump v =
     (case v of
        JNull \<Rightarrow> Inr JNull
      | JStr s \<Rightarrow> Inr (if is_none_word s then JNull else JStr s)
      | _ \<Rightarrow> Inl AttributeError)"

text \<open>\<open>str.splitlines\<close>.\<close>

definition line_end :: "nat \<Rightarrow> bool" where
  "line_end c \<longleftrightarrow> (10 \<le> c \<and> c \<le> 13) \<or> (28 \<le> c \<and> c \<le> 30) \<or> c = 133 \<or> c = 8232 \<or> c = 8233"

fun splitlines :: "pystr \<Rightarrow> pystr \<Rightarrow> pystr list" where
  "splitlines cur [] = (if cur = [] then [] else [cur])"
| "splitlines cur (c # s) =
     (if c = 13 \<and> take 1 s = [10] then splitlines cur s
      else if line_end c then cur # splitlines [] s
      else splitlines (cur @ [c]) s)"

record config_scan =
  cs_hosts :: "(pystr, host_spec) dict"
  cs_aliases :: "pystr list"
  cs_cur :: "(pystr, pystr) dict"

definition wildcard :: "pystr \<Rightarrow> bool" where
  "wildcard alias \<longleftrightarrow> 42 \<in> set alias \<or> 63 \<in> set alias \<or> 33 \<in> set alias"

text \<open>The entry \<open>_flush\<close> stores for one alias of the current block.\<close>

definition config_entry :: "(pystr, pystr) dict \<Rightarrow> pystr \<Rightarrow> py_error + host_spec" where
  "config_entry cur alias =
     (case ascii_port (case dget cur (asc ''port'') of None \<Rightarrow> [] | Some v \<Rightarrow> v) of
        Inl e \<Rightarrow> Inl e
      | Inr port \<Rightarrow>
          Inr \<lparr>hs_name = alias,
               hs_hostname = (case dget cur (asc ''hostname'') of None \<Rightarrow> alias | Some v \<Rightarrow> v),
               hs_user = opt_str (dget cur (asc ''user'')), hs_port = port,
               hs_identity_file = opt_str (dget cur (asc ''identityfile'')),
               hs_jump = opt_str (case dget cur (asc ''proxyjump'') of
                                    None \<Rightarrow> None
                                  | Some v \<Rightarrow> if is_none_word v then None else Some v),
               hs_known_hosts = JNull, hs_source = asc ''ssh_config''\<rparr>)"

fun flush_aliases ::
  "(pystr, pystr) dict \<Rightarrow> pystr list \<Rightarrow> (pystr, host_spec) dict \<Rightarrow> py_error + (pystr, host_spec) dict" where
  "flush_aliases cur [] hosts = Inr hosts"
| "flush_aliases cur (a # as) hosts =
     (if wildcard a then flush_aliases cur as hosts
      else case config_entry cur a of
        Inl e \<Rightarrow> Inl e
      | Inr h \<Rightarrow> flush_aliases cur as (dset a h hosts))"

definition flush :: "config_scan \<Rightarrow> py_error + (pystr, host_spec) dict" where
  "flush cs = flush_aliases (cs_cur cs) (cs_aliases cs) (cs_hosts cs)"

definition CONFIG_KEYS :: "pystr list" where
  "CONFIG_KEYS = map asc [''hostname'', ''user'', ''port'', ''identityfile'', ''proxyjump'']"

text \<open>Keyword and value of a stripped line.\<close>

definition config_pair :: "pystr \<Rightarrow> pystr \<times> pystr" where
  "config_pair line =
     (let sep = (if 61 \<in> set line \<and> 32 \<notin> set (strip (fst (partition_on 61 line))) then 61 else 32)
      in case partition_on sep line of (k, _, v) \<Rightarrow> (lower (strip k), strip v))"

definition config_line :: "pystr \<Rightarrow> config_scan \<Rightarrow> py_error + config_scan" where
  "config_line raw cs =
     (let line = strip raw in
      if line = [] \<or> hd line = 35 then Inr cs
      else case config_pair line of (key, val) \<Rightarrow>
        if key = [] then Inr cs
        else if key = asc ''host'' then
          (case flush cs of Inl e \<Rightarrow> Inl e
           | Inr hs \<Rightarrow> Inr \<lparr>cs_hosts = hs, cs_aliases = split_ws val, cs_cur = []\<rparr>)
        else if key = asc ''match'' then
          (case flush cs of Inl e \<Rightarrow> Inl e
           | Inr hs \<Rightarrow> Inr \<lparr>cs_hosts = hs, cs_aliases = [], cs_cur = []\<rparr>)
        else if key \<in> set CONFIG_KEYS \<and> dget (cs_cur cs) key = None
        then Inr (cs\<lparr>cs_cur := dset key val (cs_cur cs)\<rparr>)
        else Inr cs)"

fun config_lines :: "pystr list \<Rightarrow> config_scan \<Rightarrow> py_error + config_scan" where
  "config_lines [] cs = Inr cs"
| "config_lines (l # ls) cs =
     (case config_line l cs of Inl e \<Rightarrow> Inl e | Inr cs' \<Rightarrow> config_lines ls cs')"

definition parse_ssh_config :: "file_state \<Rightarrow> py_error + (pystr, host_spec) dict" where
  "parse_ssh_config file =
     (case file of
        FileBytes b \<Rightarrow>
          (case config_lines (splitlines [] (utf8_decode b))
                  \<lparr>cs_hosts = [], cs_aliases = [], cs_cur = []\<rparr> of
             Inl e \<Rightarrow> Inl e
           | Inr cs \<Rightarrow> flush cs)
      | _ \<Rightarrow> Inr [])"

subsection \<open>The JSON file\<close>

definition py_str :: "(json \<Rightarrow> pystr) \<Rightarrow> json \<Rightarrow> pystr" where
  "py_str repr v =
     (case v of
        JNull \<Rightarrow> asc ''None'' | JBool b \<Rightarrow> (if b then asc ''True'' else asc ''False'')
      | JInt i \<Rightarrow> show_int i | JStr s \<Rightarrow> s | _ \<Rightarrow> repr v)"

definition json_get :: "(pystr, json) dict \<Rightarrow> string \<Rightarrow> json" where
  "json_get d k = (case dget d (asc k) of None \<Rightarrow> JNull | Some v \<Rightarrow> v)"

text \<open>\<open>a or b\<close>.\<close>

definition py_or :: "json \<Rightarrow> json \<Rightarrow> json" where
  "py_or a b = (if truthy a then a else b)"

text \<open>The \<open>port\<close> expression: only an int or a str whose text is all digits is converted.\<close>

definition inventory_port :: "json \<Rightarrow> py_error + nat option" where
  "inventory_port v =
     (let digits_of = (\<lambda>t. if str_isdigit t then map_sum (\<lambda>e. e) Some (int_of_digits t) else Inr None)
      in case v of
           JInt i \<Rightarrow> Inr (if 0 \<le> i then Some (nat i) else None)
         | JStr s \<Rightarrow> digits_of s
         | _ \<Rightarrow> Inr None)"

definition inventory_entry ::
  "(json \<Rightarrow> pystr) \<Rightarrow> pystr \<Rightarrow> (pystr, json) dict \<Rightarrow> py_error + host_spec" where
  "inventory_entry repr name spec =
     (case inventory_port (json_get spec ''port'') of
        Inl e \<Rightarrow> Inl e
      | Inr port \<Rightarrow>
          (case proxyjump (py_or (json_get spec ''jump'') (json_get spec ''proxyjump'')) of
             Inl e \<Rightarrow> Inl e
           | Inr jump \<Rightarrow>
               Inr \<lparr>hs_name = name,
                    hs_hostname = py_str repr
                      (case dget spec (asc ''hostname'') of Some v \<Rightarrow> v
                       | None \<Rightarrow> (case dget spec (asc ''host'') of Some v \<Rightarrow> v | None \<Rightarrow> JStr name)),
                    hs_user = json_get spec ''user'', hs_port = port,
                    hs_identity_file = py_or (json_get spec ''identity_file'')
                                         (json_get spec ''identityfile''),
                    hs_jump = jump, hs_known_hosts = json_get spec ''known_hosts'',
                    hs_source = asc ''inventory''\<rparr>))"

fun inventory_entries ::
  "(json \<Rightarrow> pystr) \<Rightarrow> (pystr, json) dict \<Rightarrow> (pystr, host_spec) dict \<Rightarrow>
   py_error + (pystr, host_spec) dict" where
  "inventory_entries repr [] out = Inr out"
| "inventory_entries repr ((name, v) # rest) out =
     (case v of
        JObj spec \<Rightarrow>
          (case inventory_entry repr name spec of
             Inl e \<Rightarrow> Inl e
           | Inr h \<Rightarrow> inventory_entries repr rest (dset name h out))
      | _ \<Rightarrow> inventory_entries repr rest out)"

text \<open>\<open>read_text(encoding="utf-8")\<close> without \<open>errors\<close> raises a \<open>UnicodeDecodeError\<close>, a
  \<open>ValueError\<close>, on bytes that are not UTF-8.\<close>

definition load_inventory_file ::
  "(json \<Rightarrow> pystr) \<Rightarrow> file_state \<Rightarrow> py_error + (pystr, host_spec) dict" where
  "load_inventory_file repr file =
     (case file of
        FileBytes b \<Rightarrow>
          (if utf8_encode (utf8_decode b) \<noteq> b then Inl ValueError
           else case loads (utf8_decode b) of
                  Some (JObj d) \<Rightarrow> inventory_entries repr d []
                | _ \<Rightarrow> Inr [])
      | _ \<Rightarrow> Inr [])"

subsection \<open>The inventory\<close>

record inventory_state =
  in_hosts :: "(pystr, host_spec) dict"
  in_config_hosts :: "(pystr, host_spec) dict"

definition load_inventory ::
  "(json \<Rightarrow> pystr) \<Rightarrow> file_state \<Rightarrow> file_state option \<Rightarrow> py_error + inventory_state" where
  "load_inventory repr config file =
     (case parse_ssh_config config of
        Inl e \<Rightarrow> Inl e
      | Inr cfg \<Rightarrow>
          (case file of
             None \<Rightarrow> Inr \<lparr>in_hosts = cfg, in_config_hosts = cfg\<rparr>
           | Some f \<Rightarrow>
               (case load_inventory_file repr f of
                  Inl e \<Rightarrow> Inl e
                | Inr d \<Rightarrow>
                    Inr \<lparr>in_hosts = foldl (\<lambda>m (k, h). dset k h m) cfg d, in_config_hosts = cfg\<rparr>)))"

definition resolve :: "inventory_state \<Rightarrow> pystr \<Rightarrow> host_spec" where
  "resolve iv alias =
     (case dget (in_hosts iv) alias of
        Some h \<Rightarrow> h
      | None \<Rightarrow>
          (case partition_on 64 alias of
             (user, True, host) \<Rightarrow>
               (explicit_spec alias host)\<lparr>hs_user := (if user = [] then JNull else JStr user)\<rparr>
           | (_, False, _) \<Rightarrow> explicit_spec alias alias))"

definition knows :: "inventory_state \<Rightarrow> pystr \<Rightarrow> bool" where
  "knows iv target \<longleftrightarrow>
     dget (in_hosts iv) target \<noteq> None \<or>
     list_ex (\<lambda>(_, h). hs_hostname h = target) (in_hosts iv)"

definition inventory_hosts :: "inventory_state \<Rightarrow> host_spec list" where
  "inventory_hosts iv = sort_key hs_name (map snd (in_hosts iv))"

definition ssh_config_aliases :: "inventory_state \<Rightarrow> pystr list" where
  "ssh_config_aliases iv = sort (dkeys (in_config_hosts iv))"

end
