(* ===== verification/SshConnect.thy ===== *)
theory SshConnect
  imports Inventory Config
begin

text \<open>
  The pure half of \<open>src/relay_shell/sshpool.py\<close>: the checks on caller-supplied connection
  tokens, the identity of a cached connection, the host key policy, the options of one
  \<open>asyncssh.connect\<close>, the known\_hosts file and the forward specifications. The host key lookup
  of \<open>asyncssh\<close> is a parameter: whether a parsed file matches a host, or none if it raises.
\<close>

datatype ssh_error = RelayError pystr | PyError py_error | ForwardError pystr

subsection \<open>Caller-supplied tokens\<close>

definition alnum :: "nat \<Rightarrow> bool" where
  "alnum c \<longleftrightarrow> (48 \<le> c \<and> c \<le> 57) \<or> (65 \<le> c \<and> c \<le> 90) \<or> (97 \<le> c \<and> c \<le> 122)"

definition host_token_ok :: "pystr \<Rightarrow> bool" where
  "host_token_ok s \<longleftrightarrow> s \<noteq> [] \<and> (alnum (hd s) \<or> hd s = 95 \<or> hd s = 91) \<and>
     list_all (\<lambda>c. alnum c \<or> c \<in> {46, 95, 45, 58, 37, 91, 93}) (tl s) \<and> length (tl s) \<le> 254"

definition user_token_ok :: "pystr \<Rightarrow> bool" where
  "user_token_ok s \<longleftrightarrow> s \<noteq> [] \<and> (alnum (hd s) \<or> hd s = 95) \<and>
     list_all (\<lambda>c. alnum c \<or> c \<in> {46, 95, 45}) (tl s) \<and> length (tl s) \<le> 127"

definition check_ssh_tokens :: "pystr option \<Rightarrow> pystr option \<Rightarrow> ssh_error option" where
  "check_ssh_tokens host user =
     (if (case host of None \<Rightarrow> False | Some h \<Rightarrow> \<not> host_token_ok h)
      then Some (RelayError (asc ''invalid ssh host: expected a hostname or address (no spaces or quotes)''))
      else if (case user of None \<Rightarrow> False | Some u \<Rightarrow> \<not> user_token_ok u)
      then Some (RelayError (asc ''invalid ssh user: expected a plain account name''))
      else None)"

definition hop_error :: "pystr \<Rightarrow> ssh_error option" where
  "hop_error hop =
     (case rpartition_on 64 hop of
        (user, sep, host) \<Rightarrow> check_ssh_tokens (Some host) (if sep then Some user else None))"

definition check_jump :: "pystr \<Rightarrow> ssh_error option" where
  "check_jump jump =
     (if list_all (\<lambda>hop. hop_error hop = None) (split_on 44 jump) then None
      else Some (RelayError (asc ''invalid ssh jump: expected [user@]host[:port][,...]'')))"

subsection \<open>What one connection is\<close>

definition conn_key ::
  "pystr \<Rightarrow> pystr \<Rightarrow> int \<Rightarrow> pystr \<Rightarrow> pystr \<Rightarrow> pystr \<Rightarrow> pystr" where
  "conn_key host user port mode key_path jump =
     user @ asc ''@'' @ host @ asc '':'' @ show_int (if port = 0 then 22 else port) @ asc ''|'' @
     mode @ asc ''|'' @ key_path @ asc ''|'' @ jump"

definition KNOWN_HOSTS_MODES :: "pystr list" where
  "KNOWN_HOSTS_MODES = map asc [''strict'', ''accept-new'', ''ignore'']"

definition known_hosts_weakness :: "pystr \<Rightarrow> nat" where
  "known_hosts_weakness mode =
     (case map_of [(asc ''strict'', 0), (asc ''accept-new'', 1), (asc ''ignore'', 2)] mode of
        None \<Rightarrow> 0 | Some n \<Rightarrow> n)"

text \<open>The arguments of \<open>connect\<close>.\<close>

record connect_kwargs =
  ck_user :: pystr
  ck_port :: int
  ck_key_path :: pystr
  ck_known_hosts :: pystr
  ck_jump :: pystr
  ck_connect_timeout :: int

text \<open>What \<open>connect\<close> decides before it looks at the cache.\<close>

record connect_plan =
  cp_hostname :: pystr
  cp_user :: json
  cp_port :: int
  cp_identity :: json
  cp_jump :: json
  cp_mode :: pystr
  cp_key :: pystr

definition text_or_empty :: "(json \<Rightarrow> pystr) \<Rightarrow> json \<Rightarrow> pystr" where
  "text_or_empty repr v = (if truthy v then py_str repr v else [])"

definition weakens :: "settings \<Rightarrow> pystr \<Rightarrow> bool" where
  "weakens s known_hosts \<longleftrightarrow>
     known_hosts \<noteq> [] \<and> \<not> ssh_allow_weaker_known_hosts s \<and>
     known_hosts_weakness (lower known_hosts) > known_hosts_weakness (ssh_known_hosts s)"

definition weaker_message :: "settings \<Rightarrow> pystr \<Rightarrow> pystr" where
  "weaker_message s known_hosts =
     asc ''known_hosts='' @ lower known_hosts @ asc '' would weaken the server default '' @
     [39] @ ssh_known_hosts s @ [39] @
     asc ''; refused (RELAY_SHELL_SSH_ALLOW_WEAKER_KNOWN_HOSTS=false)''"

definition target_error :: "inventory_state \<Rightarrow> pystr \<Rightarrow> ssh_error option" where
  "target_error iv target =
     (if knows iv target then None
      else check_ssh_tokens (Some (hs_hostname (resolve iv target)))
             (if 64 \<in> set target then Some (fst (partition_on 64 target)) else None))"

definition plan_connect ::
  "(json \<Rightarrow> pystr) \<Rightarrow> settings \<Rightarrow> inventory_state \<Rightarrow> pystr \<Rightarrow> connect_kwargs \<Rightarrow>
   ssh_error + connect_plan" where
  "plan_connect repr s iv target ck =
     (let spec = resolve iv target in
      case target_error iv target of Some e \<Rightarrow> Inl e | None \<Rightarrow>
      case (if ck_user ck = [] then None else check_ssh_tokens None (Some (ck_user ck))) of
        Some e \<Rightarrow> Inl e | None \<Rightarrow>
      case (if ck_jump ck = [] then None else check_jump (ck_jump ck)) of Some e \<Rightarrow> Inl e | None \<Rightarrow>
      let user = py_or (JStr (ck_user ck)) (py_or (hs_user spec) (JStr []));
          port = (if ck_port ck \<noteq> 0 then ck_port ck
                  else case hs_port spec of None \<Rightarrow> 0 | Some p \<Rightarrow> int p);
          ident = py_or (JStr (ck_key_path ck)) (py_or (hs_identity_file spec) (JStr []));
          jump = py_or (JStr (ck_jump ck)) (py_or (hs_jump spec) (JStr []))
      in case py_or (JStr (ck_known_hosts ck))
                (py_or (hs_known_hosts spec) (JStr (ssh_known_hosts s))) of
           JStr m \<Rightarrow>
             (if weakens s (ck_known_hosts ck)
              then Inl (RelayError (weaker_message s (ck_known_hosts ck)))
              else Inr \<lparr>cp_hostname = hs_hostname spec, cp_user = user, cp_port = port,
                        cp_identity = ident, cp_jump = jump, cp_mode = lower m,
                        cp_key = conn_key (hs_hostname spec) (text_or_empty repr user) port
                                   (lower m) (py_str repr ident) (py_str repr jump)\<rparr>)
         | _ \<Rightarrow> Inl (PyError AttributeError))"

subsection \<open>Known hosts\<close>

definition known_host_pattern :: "pystr \<Rightarrow> int \<Rightarrow> pystr" where
  "known_host_pattern hostname port =
     (if port = 0 \<or> port = 22 then hostname else [91] @ hostname @ asc '']:'' @ show_int port)"

type_synonym host_key_match = "bytes \<Rightarrow> pystr \<Rightarrow> int \<Rightarrow> bool option"

definition names_host :: "pystr \<Rightarrow> pystr \<Rightarrow> bool" where
  "names_host pattern line =
     (case split_ws line of
        [] \<Rightarrow> False
      | f # _ \<Rightarrow> \<not> starts_with [35] f \<and> pattern \<in> set (split_on 44 f))"

definition host_is_known :: "host_key_match \<Rightarrow> file_state \<Rightarrow> pystr \<Rightarrow> int \<Rightarrow> bool" where
  "host_is_known am file hostname port =
     (case file of
        NoFile \<Rightarrow> False
      | NoAccess \<Rightarrow> True
      | FileBytes b \<Rightarrow>
          (case am b hostname (if port = 0 then 22 else port) of
             None \<Rightarrow> True
           | Some True \<Rightarrow> True
           | Some False \<Rightarrow>
               utf8_encode (utf8_decode b) \<noteq> b \<or>
               list_ex (names_host (known_host_pattern hostname port))
                 (splitlines [] (utf8_decode b))))"

text \<open>The file after \<open>_append_known_host\<close>; none if reading it raises (the caller ignores it).
  Reading in text mode turns a final carriage return into a newline.\<close>

definition append_known_host ::
  "pystr \<Rightarrow> pystr \<Rightarrow> pystr \<Rightarrow> int \<Rightarrow> file_state \<Rightarrow> file_state option" where
  "append_known_host hostname algo b64 port file =
     (let grow = (\<lambda>existing.
        let sep = (if existing \<noteq> [] \<and> last existing \<notin> {10, 13} then [10] else []);
            line = sep @ known_host_pattern hostname port @ [32] @ algo @ [32] @ b64 @ [10]
        in FileBytes (utf8_encode existing @ utf8_encode line))
      in case file of
           NoFile \<Rightarrow> Some (grow [])
         | NoAccess \<Rightarrow> None
         | FileBytes b \<Rightarrow>
             (if utf8_encode (utf8_decode b) \<noteq> b then None
              else if has_sub b64 (utf8_decode b) then Some file
              else Some (grow (utf8_decode b))))"

text \<open>\<open>_persist_host_key\<close> on the exported public key: algorithm, key and the rest.\<close>

definition persist_host_key :: "pystr \<Rightarrow> pystr \<Rightarrow> int \<Rightarrow> file_state \<Rightarrow> file_state" where
  "persist_host_key exported hostname port file =
     (case split_ws exported of
        algo # b64 # _ \<Rightarrow>
          (case append_known_host hostname algo b64 port file of None \<Rightarrow> file | Some f \<Rightarrow> f)
      | _ \<Rightarrow> file)"

definition known_hosts_arg :: "pystr \<Rightarrow> pystr \<Rightarrow> bool \<Rightarrow> ssh_error + pystr option" where
  "known_hosts_arg path mode known =
     (if mode \<notin> set KNOWN_HOSTS_MODES then Inl (PyError ValueError)
      else if mode = asc ''strict'' \<or> (mode = asc ''accept-new'' \<and> known) then Inr (Some path)
      else Inr None)"

text \<open>The options of one \<open>asyncssh.connect\<close>; \<open>known_hosts = None\<close> accepts any key, an absent
  value leaves the choice to the configuration file.\<close>

record connect_opts =
  co_known_hosts :: "pystr option"
  co_connect_timeout :: int
  co_keepalive :: "int option"
  co_username :: "json option"
  co_port :: "int option"
  co_client_key :: "json option"
  co_tunnel :: "json option"
  co_config :: "pystr option"

definition when_true :: "json \<Rightarrow> json option" where
  "when_true v = (if truthy v then Some v else None)"

definition connect_opts_of ::
  "settings \<Rightarrow> pystr \<Rightarrow> pystr option \<Rightarrow> bool \<Rightarrow> int \<Rightarrow> connect_plan \<Rightarrow> ssh_error + connect_opts" where
  "connect_opts_of s path config_file known connect_timeout cp =
     (case known_hosts_arg path (cp_mode cp) known of
        Inl e \<Rightarrow> Inl e
      | Inr kh \<Rightarrow>
          Inr \<lparr>co_known_hosts = kh,
               co_connect_timeout =
                 (if connect_timeout \<noteq> 0 then connect_timeout else ssh_connect_timeout s),
               co_keepalive = (if ssh_keepalive s \<noteq> 0 then Some (ssh_keepalive s) else None),
               co_username = when_true (cp_user cp),
               co_port = (if cp_port cp \<noteq> 0 then Some (cp_port cp) else None),
               co_client_key = when_true (cp_identity cp), co_tunnel = when_true (cp_jump cp),
               co_config = config_file\<rparr>)"

text \<open>One connection of \<open>connect\<close> that is not in the cache: the lookup, the options, and the
  file afterwards when the connection came up under the exported host key \<open>exported\<close>.\<close>

definition dial ::
  "settings \<Rightarrow> host_key_match \<Rightarrow> pystr \<Rightarrow> pystr option \<Rightarrow> int \<Rightarrow> connect_plan \<Rightarrow> file_state \<Rightarrow>
   ssh_error + connect_opts" where
  "dial s am path config_file connect_timeout cp file =
     connect_opts_of s path config_file
       (cp_mode cp = asc ''accept-new'' \<and> host_is_known am file (cp_hostname cp) (cp_port cp))
       connect_timeout cp"

definition file_after_dial ::
  "host_key_match \<Rightarrow> pystr \<Rightarrow> connect_plan \<Rightarrow> file_state \<Rightarrow> file_state" where
  "file_after_dial am exported cp file =
     (if cp_mode cp = asc ''accept-new'' \<and> \<not> host_is_known am file (cp_hostname cp) (cp_port cp)
      then persist_host_key exported (cp_hostname cp) (cp_port cp) file else file)"

subsection \<open>Forward specifications\<close>

definition parse_forward_spec :: "pystr \<Rightarrow> ssh_error + (pystr \<times> int \<times> pystr \<times> int)" where
  "parse_forward_spec spec =
     (case partition_on 58 spec of
        (kind, _, rest) \<Rightarrow>
          let kind = strip (upper kind) in
          if kind \<in> {asc ''L'', asc ''R''} then
            (case split_on 58 rest of
               [lport, dhost, dport] \<Rightarrow>
                 (case (py_int 10 lport, py_int 10 dport) of
                    (Some l, Some d) \<Rightarrow> Inr (kind, l, dhost, d)
                  | _ \<Rightarrow> Inl (PyError ValueError))
             | _ \<Rightarrow> Inl (PyError ValueError))
          else if kind = asc ''D'' then
            (case py_int 10 rest of Some l \<Rightarrow> Inr (asc ''D'', l, [], 0) | None \<Rightarrow> Inl (PyError ValueError))
          else Inl (PyError ValueError))"

end
