(* ===== verification/SshPool.thy ===== *)
theory SshPool
  imports SshConnect Machines
begin

text \<open>
  The connection pool of \<open>src/relay_shell/sshpool.py\<close>: the cache with its pins, single-flight
  connects, port forwards and shutdown, as the steps that run between two awaits. Cache entries
  and futures are objects of a store (\<open>pl_entries\<close>, \<open>pl_futures\<close>), named by their index, since a
  holder keeps its entry and an owner its future when they have left the dictionaries.
  Connections and listeners are numbers; \<open>pl_dead\<close> are the connections the peer closed.
  Taking the pool's lock is part of the step it protects.
\<close>

record pool_entry =
  pe_conn :: nat
  pe_last_used :: real
  pe_pins :: nat

datatype future = Waiting | Connected nat | OwnerCancelled | ConnectFailed | FutureCancelled

record forward_handle =
  fh_id :: pystr
  fh_kind :: pystr
  fh_spec :: pystr
  fh_listen_port :: int
  fh_target :: pystr
  fh_listener :: nat
  fh_entry :: "nat option"

record pool =
  pl_entries :: "pool_entry list"
  pl_futures :: "future list"
  pl_conns :: "(pystr, nat) dict"
  pl_pending :: "(pystr, nat) dict"
  pl_forwards :: "(pystr, forward_handle) dict"
  pl_dead :: "nat list"
  pl_closed :: "nat list"
  pl_closed_listeners :: "nat list"

definition new_pool :: pool where
  "new_pool = \<lparr>pl_entries = [], pl_futures = [], pl_conns = [], pl_pending = [], pl_forwards = [],
     pl_dead = [], pl_closed = [], pl_closed_listeners = []\<rparr>"

definition entry_conn :: "pool \<Rightarrow> nat \<Rightarrow> nat" where
  "entry_conn p e = pe_conn (pl_entries p ! e)"

text \<open>\<open>conn.is_closed()\<close>.\<close>

definition conn_is_closed :: "pool \<Rightarrow> nat \<Rightarrow> bool" where
  "conn_is_closed p c \<longleftrightarrow> c \<in> set (pl_dead p) \<or> c \<in> set (pl_closed p)"

definition close_conns :: "nat list \<Rightarrow> pool \<Rightarrow> pool" where
  "close_conns cs p = p\<lparr>pl_closed := pl_closed p @ cs\<rparr>"

definition update_entry :: "nat \<Rightarrow> (pool_entry \<Rightarrow> pool_entry) \<Rightarrow> pool \<Rightarrow> pool" where
  "update_entry e f p = p\<lparr>pl_entries := (pl_entries p)[e := f (pl_entries p ! e)]\<rparr>"

subsection \<open>Sweeping and eviction\<close>

definition sweepable :: "real \<Rightarrow> real \<Rightarrow> pool \<Rightarrow> nat \<Rightarrow> bool" where
  "sweepable timeout now p e \<longleftrightarrow>
     conn_is_closed p (entry_conn p e) \<or>
     timeout > 0 \<and> pe_pins (pl_entries p ! e) = 0 \<and> now - pe_last_used (pl_entries p ! e) > timeout"

definition sweep_conns :: "real \<Rightarrow> real \<Rightarrow> pool \<Rightarrow> pool" where
  "sweep_conns timeout now p =
     close_conns (map (\<lambda>(k, e). entry_conn p e) (filter (\<lambda>(k, e). sweepable timeout now p e) (pl_conns p)))
       (p\<lparr>pl_conns := filter (\<lambda>(k, e). \<not> sweepable timeout now p e) (pl_conns p)\<rparr>)"

definition select_conn_evictions :: "int \<Rightarrow> nat \<Rightarrow> pool \<Rightarrow> pystr list" where
  "select_conn_evictions cap extra p =
     (if cap \<le> 0 then []
      else
        let overflow = int (length (pl_conns p)) + int extra - cap in
        if overflow \<le> 0 then []
        else take (nat overflow)
          (map fst (sort_key (\<lambda>(k, e). pe_last_used (pl_entries p ! e))
            (filter (\<lambda>(k, e). pe_pins (pl_entries p ! e) = 0) (pl_conns p)))))"

subsection \<open>Pins\<close>

definition pin :: "nat \<Rightarrow> real \<Rightarrow> pool \<Rightarrow> nat option \<times> pool" where
  "pin conn now p =
     (case find (\<lambda>(k, e). entry_conn p e = conn) (pl_conns p) of
        None \<Rightarrow> (None, p)
      | Some (k, e) \<Rightarrow>
          (Some e, update_entry e
             (\<lambda>x. x\<lparr>pe_pins := pe_pins x + 1, pe_last_used := now\<rparr>) p))"

definition unpin :: "nat option \<Rightarrow> real \<Rightarrow> pool \<Rightarrow> pool" where
  "unpin entry now p =
     (case entry of
        None \<Rightarrow> p
      | Some e \<Rightarrow> update_entry e
          (\<lambda>x. x\<lparr>pe_pins := (if pe_pins x > 0 then pe_pins x - 1 else pe_pins x),
                 pe_last_used := now\<rparr>) p)"

subsection \<open>Single-flight connects\<close>

datatype claim = Hit nat | Join nat | Own nat

text \<open>The cache lookup and the claim of the key, under the lock.\<close>

definition claim_key :: "pystr \<Rightarrow> real \<Rightarrow> pool \<Rightarrow> claim \<times> pool" where
  "claim_key key now p =
     (case dget (pl_conns p) key of
        Some e \<Rightarrow>
          (if \<not> conn_is_closed p (entry_conn p e)
           then (Hit (entry_conn p e), update_entry e (\<lambda>x. x\<lparr>pe_last_used := now\<rparr>) p)
           else case dget (pl_pending p) key of
             Some f \<Rightarrow> (Join f, p)
           | None \<Rightarrow> (Own (length (pl_futures p)),
               p\<lparr>pl_futures := pl_futures p @ [Waiting],
                 pl_pending := dset key (length (pl_futures p)) (pl_pending p)\<rparr>))
      | None \<Rightarrow>
          (case dget (pl_pending p) key of
             Some f \<Rightarrow> (Join f, p)
           | None \<Rightarrow> (Own (length (pl_futures p)),
               p\<lparr>pl_futures := pl_futures p @ [Waiting],
                 pl_pending := dset key (length (pl_futures p)) (pl_pending p)\<rparr>)))"

definition connect_begin :: "real \<Rightarrow> pystr \<Rightarrow> real \<Rightarrow> pool \<Rightarrow> claim \<times> pool" where
  "connect_begin timeout key now p = claim_key key now (sweep_conns timeout now p)"

text \<open>\<open>if self._pending.get(key) is own_future: self._pending.pop(key)\<close>.\<close>

definition release_slot :: "pystr \<Rightarrow> nat \<Rightarrow> pool \<Rightarrow> pool" where
  "release_slot key f p =
     (if dget (pl_pending p) key = Some f then p\<lparr>pl_pending := ddel key (pl_pending p)\<rparr> else p)"

definition future_done :: "pool \<Rightarrow> nat \<Rightarrow> bool" where
  "future_done p f \<longleftrightarrow> pl_futures p ! f \<noteq> Waiting"

definition settle :: "nat \<Rightarrow> future \<Rightarrow> pool \<Rightarrow> pool" where
  "settle f r p = p\<lparr>pl_futures := (pl_futures p)[f := r]\<rparr>"

text \<open>The owner's connect raised (\<open>cancelled\<close>: because its caller was cancelled).\<close>

definition connect_failed :: "pystr \<Rightarrow> nat \<Rightarrow> bool \<Rightarrow> pool \<Rightarrow> pool" where
  "connect_failed key f cancelled p =
     (let p = release_slot key f p in
      if future_done p f then p
      else settle f (if cancelled then OwnerCancelled else ConnectFailed) p)"

text \<open>The owner's connect produced \<open>conn\<close>: cached, with room made for it, or discarded if the pool
  was closed meanwhile. The result is whether the caller gets the connection.\<close>

definition connect_done :: "int \<Rightarrow> pystr \<Rightarrow> nat \<Rightarrow> nat \<Rightarrow> real \<Rightarrow> pool \<Rightarrow> bool \<times> pool" where
  "connect_done cap key f conn now p =
     (if pl_futures p ! f = FutureCancelled
      then (False, release_slot key f (close_conns [conn] p))
      else
        let extra = (if dget (pl_conns p) key = None then 1 else 0);
            evict = select_conn_evictions cap extra p;
            doomed = map (\<lambda>k. entry_conn p (the (dget (pl_conns p) k))) evict;
            p1 = p\<lparr>pl_entries := pl_entries p @ [\<lparr>pe_conn = conn, pe_last_used = now, pe_pins = 0\<rparr>],
                   pl_conns := dset key (length (pl_entries p))
                     (filter (\<lambda>(k, e). k \<notin> set evict) (pl_conns p))\<rparr>
        in (True, close_conns doomed (settle f (Connected conn) (release_slot key f p1))))"

text \<open>What a waiter on another caller's future does when it is settled.\<close>

datatype waiter_next = Return nat | Retry | Raise | Suspend

fun waiter_result :: "future \<Rightarrow> waiter_next" where
  "waiter_result (Connected c) = Return c"
| "waiter_result OwnerCancelled = Retry"
| "waiter_result ConnectFailed = Raise"
| "waiter_result FutureCancelled = Raise"
| "waiter_result Waiting = Suspend"

subsection \<open>Forwards\<close>

definition forward_limit_error :: "int \<Rightarrow> ssh_error" where
  "forward_limit_error cap =
     ForwardError (asc ''forward limit reached ('' @ show_int cap @
       asc ''); close an existing forward first'')"

text \<open>Before dialling: the specification and the cap.\<close>

definition forward_begin ::
  "int \<Rightarrow> pystr \<Rightarrow> pool \<Rightarrow> ssh_error + (pystr \<times> int \<times> pystr \<times> int)" where
  "forward_begin cap spec p =
     (case parse_forward_spec spec of
        Inl e \<Rightarrow> Inl e
      | Inr r \<Rightarrow>
          if int (length (pl_forwards p)) \<ge> cap then Inl (forward_limit_error cap) else Inr r)"

definition LOOPBACK :: pystr where
  "LOOPBACK = asc ''127.0.0.1''"

text \<open>The request for the listener: listen address and port, and the destination.\<close>

datatype listen_request =
    ForwardLocal pystr int pystr int
  | ForwardRemote pystr int pystr int
  | ForwardSocks pystr int

definition listen_request_of :: "pystr \<times> int \<times> pystr \<times> int \<Rightarrow> listen_request" where
  "listen_request_of r =
     (case r of (kind, lport, dhost, dport) \<Rightarrow>
        if kind = asc ''L'' then ForwardLocal LOOPBACK lport dhost dport
        else if kind = asc ''R'' then ForwardRemote [] lport dhost dport
        else ForwardSocks LOOPBACK lport)"

definition forward_handle_of ::
  "pystr \<Rightarrow> pystr \<Rightarrow> pystr \<times> int \<times> pystr \<times> int \<Rightarrow> int \<Rightarrow> nat \<Rightarrow> nat option \<Rightarrow> forward_handle" where
  "forward_handle_of fid spec r bound listener entry =
     (case r of (kind, lport, dhost, dport) \<Rightarrow>
        \<lparr>fh_id = fid,
         fh_kind = (if kind = asc ''L'' then asc ''local''
                    else if kind = asc ''R'' then asc ''remote'' else asc ''dynamic''),
         fh_spec = spec, fh_listen_port = bound,
         fh_target = (if kind \<in> {asc ''L'', asc ''R''} then dhost @ asc '':'' @ show_int dport
                      else asc ''socks''),
         fh_listener = listener, fh_entry = entry\<rparr>)"

text \<open>Tracking the handle; the caller that lost the last slot closes its listener (twice: there
  and in the general handler) and unpins.\<close>

definition forward_track :: "int \<Rightarrow> forward_handle \<Rightarrow> real \<Rightarrow> pool \<Rightarrow> ssh_error option \<times> pool" where
  "forward_track cap h now p =
     (if int (length (pl_forwards p)) \<ge> cap
      then (Some (forward_limit_error cap),
            unpin (fh_entry h) now
              (p\<lparr>pl_closed_listeners := pl_closed_listeners p @ [fh_listener h, fh_listener h]\<rparr>))
      else (None, p\<lparr>pl_forwards := dset (fh_id h) h (pl_forwards p)\<rparr>))"

text \<open>Any failure after the pin and before the tracking.\<close>

definition forward_failed :: "nat option \<Rightarrow> nat option \<Rightarrow> real \<Rightarrow> pool \<Rightarrow> pool" where
  "forward_failed listener entry now p =
     unpin entry now
       (case listener of None \<Rightarrow> p
        | Some l \<Rightarrow> p\<lparr>pl_closed_listeners := pl_closed_listeners p @ [l]\<rparr>)"

definition forward_close :: "pystr \<Rightarrow> real \<Rightarrow> pool \<Rightarrow> pystr \<times> pool" where
  "forward_close fid now p =
     (case dget (pl_forwards p) fid of
        None \<Rightarrow> (asc ''[ERROR: unknown forward: '' @ fid @ asc '']'', p)
      | Some h \<Rightarrow>
          (asc ''closed forward '' @ fid,
           unpin (fh_entry h) now
             (p\<lparr>pl_forwards := ddel fid (pl_forwards p),
                pl_closed_listeners := pl_closed_listeners p @ [fh_listener h]\<rparr>)))"

definition forward_row :: "forward_handle \<Rightarrow> (pystr, json) dict" where
  "forward_row h =
     [(asc ''id'', JStr (fh_id h)), (asc ''kind'', JStr (fh_kind h)), (asc ''spec'', JStr (fh_spec h)),
      (asc ''listen_port'', JInt (fh_listen_port h)), (asc ''target'', JStr (fh_target h))]"

definition list_forwards :: "pool \<Rightarrow> (pystr, json) dict list" where
  "list_forwards p = map (\<lambda>(k, h). forward_row h) (pl_forwards p)"

definition forward_count :: "pool \<Rightarrow> nat" where
  "forward_count p = length (pl_forwards p)"

subsection \<open>Shutdown\<close>

definition cancel_waiting :: "nat list \<Rightarrow> future list \<Rightarrow> future list" where
  "cancel_waiting fs futures =
     map (\<lambda>(i, r). if i \<in> set fs \<and> r = Waiting then FutureCancelled else r)
       (enumerate 0 futures)"

definition close_all :: "pool \<Rightarrow> pool" where
  "close_all p =
     p\<lparr>pl_forwards := [], pl_conns := [], pl_pending := [],
       pl_futures := cancel_waiting (map snd (pl_pending p)) (pl_futures p),
       pl_closed_listeners := pl_closed_listeners p @ map (\<lambda>(k, h). fh_listener h) (pl_forwards p),
       pl_closed := pl_closed p @ map (\<lambda>(k, e). entry_conn p e) (pl_conns p)\<rparr>"

subsection \<open>The output of a remote command\<close>

text \<open>\<open>_drain\<close>: stdout and stderr chunks in the order they arrive share one budget. The state is
  the kept bytes of both streams and the bytes seen.\<close>

record drain =
  dr_out :: bytes
  dr_err :: bytes
  dr_seen :: nat

definition drain_chunk :: "nat option \<Rightarrow> bool \<times> bytes \<Rightarrow> drain \<Rightarrow> drain" where
  "drain_chunk cap c d =
     (case c of (is_err, chunk) \<Rightarrow>
        let kept = length (dr_out d) + length (dr_err d);
            piece = (case cap of None \<Rightarrow> chunk | Some n \<Rightarrow> take (n - kept) chunk);
            d = d\<lparr>dr_seen := dr_seen d + length chunk\<rparr>
        in if is_err then d\<lparr>dr_err := dr_err d @ piece\<rparr> else d\<lparr>dr_out := dr_out d @ piece\<rparr>)"

definition run_cap :: "int option \<Rightarrow> nat option" where
  "run_cap max_output_bytes =
     (case max_output_bytes of None \<Rightarrow> None | Some n \<Rightarrow> if n > 0 then Some (nat n) else None)"

definition run_output :: "int option \<Rightarrow> (bool \<times> bytes) list \<Rightarrow> pystr" where
  "run_output max_output_bytes chunks =
     (let cap = run_cap max_output_bytes;
          d = fold (drain_chunk cap) chunks \<lparr>dr_out = [], dr_err = [], dr_seen = 0\<rparr>;
          out = utf8_decode (dr_out d) @ utf8_decode (dr_err d)
      in case cap of
           None \<Rightarrow> out
         | Some n \<Rightarrow> if dr_seen d > n then truncate_str out (int n) else out)"

definition TIMEOUT_OUTCOME_UNKNOWN :: pystr where
  "TIMEOUT_OUTCOME_UNKNOWN =
     asc ''outcome unknown: the remote side may still be running, may have completed, or may '' @
     asc ''have applied part of the change; verify the remote state before retrying a mutation''"

definition run_timeout_text :: "int \<Rightarrow> pystr" where
  "run_timeout_text timeout =
     asc ''[TIMEOUT after '' @ show_int timeout @ asc ''s] '' @ TIMEOUT_OUTCOME_UNKNOWN"

text \<open>\<open>_sftp_transfer\<close>: \<open>timed_out\<close> is whether \<open>wait_for\<close> expired.\<close>

definition sftp_message :: "bool \<Rightarrow> pystr \<Rightarrow> int \<Rightarrow> bool \<Rightarrow> pystr" where
  "sftp_message upload route timeout timed_out =
     (if timeout > 0 \<and> timed_out
      then run_timeout_text timeout @ asc ''; partial '' @
        (if upload then asc ''upload '' else asc ''download '') @ route
      else (if upload then asc ''uploaded '' else asc ''downloaded '') @ route)"

definition sftp_put_route :: "pystr \<Rightarrow> pystr \<Rightarrow> pystr \<Rightarrow> pystr" where
  "sftp_put_route target local remote = local @ asc '' -> '' @ target @ asc '':'' @ remote"

definition sftp_get_route :: "pystr \<Rightarrow> pystr \<Rightarrow> pystr \<Rightarrow> pystr" where
  "sftp_get_route target remote local = target @ asc '':'' @ remote @ asc '' -> '' @ local"

subsection \<open>The session transport\<close>

definition SIG_NAMES :: "(int \<times> pystr) list" where
  "SIG_NAMES = [(2, asc ''INT''), (9, asc ''KILL''), (15, asc ''TERM''), (1, asc ''HUP''), (3, asc ''QUIT'')]"

text \<open>\<open>SshProcessTransport.signal\<close>: the signal sent, or \<open>terminate\<close> when sending raised.\<close>

datatype remote_signal = Sent pystr | Terminated

definition transport_signal :: "int \<Rightarrow> bool \<Rightarrow> remote_signal" where
  "transport_signal sig raised =
     (if raised then Terminated
      else Sent (case map_of SIG_NAMES sig of None \<Rightarrow> asc ''TERM'' | Some n \<Rightarrow> n))"

definition MAX_PENDING_WRITE :: nat where
  "MAX_PENDING_WRITE = 1048576"

text \<open>\<open>write\<close>: refused while more than a megabyte is pending; unknown sizes count as none.\<close>

definition transport_write :: "nat option \<Rightarrow> bytes \<Rightarrow> bytes \<Rightarrow> pystr + bytes" where
  "transport_write pending data written =
     (let n = (case pending of None \<Rightarrow> 0 | Some n \<Rightarrow> n) in
      if n > MAX_PENDING_WRITE
      then Inl (asc ''remote is not reading input ('' @ show_int (int n) @
        asc '' bytes pending); close the session or wait for it to drain'')
      else Inr (written @ data))"

definition transport_aclose :: "nat option \<Rightarrow> real \<Rightarrow> pool \<Rightarrow> pool" where
  "transport_aclose entry now p = unpin entry now p"

end
