(* ===== verification/PolicyTextProps.thy ===== *)
theory PolicyTextProps
  imports PolicyText
begin

text \<open>
  What the policy texts guarantee: everything the executor is given is in the text, a literal
  address is in it in dotted form however it was spelled, and where this fails.
\<close>

subsection \<open>Substrings\<close>

lemma has_sub_refl [simp, intro]: "has_sub p p"
  by (auto simp: has_sub_iff intro: exI [of _ "[]"])

lemma has_sub_Nil [simp, intro]: "has_sub [] s"
  by (auto simp: has_sub_iff)

lemma has_sub_trans: "has_sub a b \<Longrightarrow> has_sub b c \<Longrightarrow> has_sub a c"
  unfolding has_sub_iff by (metis append.assoc)

lemma has_sub_left [intro]: "has_sub p a \<Longrightarrow> has_sub p (a @ b)"
  unfolding has_sub_iff by (metis append.assoc)

lemma has_sub_right [intro]: "has_sub p b \<Longrightarrow> has_sub p (a @ b)"
  unfolding has_sub_iff by (metis append.assoc)

lemma has_sub_Cons_intro [intro]: "has_sub p s \<Longrightarrow> has_sub p (c # s)"
  using has_sub_right [of p s "[c]"] by simp

lemmas has_sub_intros = has_sub_left has_sub_right has_sub_Cons_intro

lemma has_sub_join: "x \<in> set xs \<Longrightarrow> has_sub x (join sep xs)"
proof (induction sep xs rule: join.induct)
  case (3 sep y z zs)
  then show ?case by auto
qed auto

lemma has_sub_strip: "has_sub (strip s) s"
proof -
  have 1: "has_sub (lstrip s) s"
    unfolding lstrip_def has_sub_iff
    by (metis append_Nil2 takeWhile_dropWhile_id)
  have 2: "has_sub (rstrip t) t" for t
  proof -
    have "t = rstrip t @ rev (takeWhile is_space (rev t))"
      unfolding rstrip_def by (metis rev_append rev_rev_ident takeWhile_dropWhile_id)
    then show ?thesis unfolding has_sub_iff by (metis append_Nil)
  qed
  show ?thesis using has_sub_trans [OF 2 1] by (simp add: strip_def)
qed

lemma has_sub_parts: "x \<in> set ps \<Longrightarrow> has_sub x (join_parts ps)"
  by (cases "x = []") (auto simp: join_parts_def intro: has_sub_join)

subsection \<open>Widening\<close>

lemma add_forms_spec:
  "set extra \<subseteq> set (add_forms probe tok ips extra) \<and>
   (\<forall>ip\<in>set ips. ip = tok \<or> has_sub ip probe \<or> ip \<in> set (add_forms probe tok ips extra))"
proof (induction ips arbitrary: extra)
  case Nil
  then show ?case by (simp add: add_forms_def)
next
  case (Cons ip ips)
  let ?e = "if ip \<noteq> tok \<and> ip \<notin> set extra \<and> \<not> has_sub ip probe then extra @ [ip] else extra"
  have "add_forms probe tok (ip # ips) extra = add_forms probe tok ips ?e" by (simp add: add_forms_def)
  moreover have "set extra \<subseteq> set ?e" "ip = tok \<or> has_sub ip probe \<or> ip \<in> set ?e" by auto
  ultimately show ?case using Cons.IH [of ?e] by auto
qed

lemma widen_spec:
  assumes "widen ip6 probe toks extra = Inr ex"
  shows "set extra \<subseteq> set ex \<and> (\<forall>tok\<in>set toks. \<exists>ips. canonical_ips ip6 tok = Inr ips \<and>
           (\<forall>ip\<in>set ips. ip = tok \<or> has_sub ip probe \<or> ip \<in> set ex))"
  using assms
proof (induction toks arbitrary: extra)
  case Nil
  then show ?case by simp
next
  case (Cons t toks)
  obtain ips where ips: "canonical_ips ip6 t = Inr ips"
    using Cons.prems by (cases "canonical_ips ip6 t") simp_all
  have w: "widen ip6 probe toks (add_forms probe t ips extra) = Inr ex"
    using Cons.prems ips by simp
  note IH = Cons.IH [OF w]
  note af = add_forms_spec [of extra probe t ips]
  have "set extra \<subseteq> set ex" using IH af by blast
  moreover have "ip = t \<or> has_sub ip probe \<or> ip \<in> set ex" if "ip \<in> set ips" for ip
    using that IH af by blast
  ultimately show ?case using IH ips by simp
qed

text \<open>The one fact the builders share: the text is kept in front, and every form of one of the
  first 128 tokens can be read in the result.\<close>

lemma with_canonical_ips_spec:
  assumes "with_canonical_ips ip6 probe toks = Inr p"
  shows "has_sub probe p" (is ?A)
    and "tok \<in> set (take MAX_CANON_TOKENS toks) \<Longrightarrow> has_sub tok probe \<Longrightarrow>
         \<exists>ips. canonical_ips ip6 tok = Inr ips \<and> (\<forall>ip\<in>set ips. has_sub ip p)" (is "_ \<Longrightarrow> _ \<Longrightarrow> ?B")
proof -
  from assms obtain ex where w: "widen ip6 probe (take MAX_CANON_TOKENS toks) [] = Inr ex"
    and p: "p = (if ex = [] then probe else probe @ [32] @ join [32] ex)"
    by (auto simp: with_canonical_ips_def split: sum.splits)
  show A: ?A using p by auto
  have E: "has_sub ip p" if "ip \<in> set ex" for ip
    using that p by (auto intro: has_sub_join)
  assume "tok \<in> set (take MAX_CANON_TOKENS toks)" "has_sub tok probe"
  note tok = this
  obtain ips where ips: "canonical_ips ip6 tok = Inr ips"
    "\<And>ip. ip \<in> set ips \<Longrightarrow> ip = tok \<or> has_sub ip probe \<or> ip \<in> set ex"
    using widen_spec [OF w] tok(1) by blast
  have "has_sub ip p" if "ip \<in> set ips" for ip
    using ips(2) [OF that] E has_sub_trans [OF tok(2) A] has_sub_trans [OF _ A] by blast
  with ips(1) show ?B by blast
qed

lemma with_canonical_ips_sub:
  "with_canonical_ips ip6 probe toks = Inr p \<Longrightarrow> has_sub x probe \<Longrightarrow> has_sub x p"
  using with_canonical_ips_spec(1) has_sub_trans by blast

lemma with_jump_sub: "with_jump probe jump = (t, hops) \<Longrightarrow> has_sub probe t \<and> has_sub jump t"
  by (auto simp: with_jump_def split: if_splits)

text \<open>The texts \<open>xs\<close> are shown by a builder: in its result, when it does not raise.\<close>

definition shown :: "pystr list \<Rightarrow> py_error + pystr \<Rightarrow> bool" where
  "shown xs r = (case r of Inl _ \<Rightarrow> True | Inr p \<Rightarrow> list_all (\<lambda>x. has_sub x p) xs)"

lemma shown_with_canonical:
  "list_all (\<lambda>x. has_sub x probe) xs \<Longrightarrow> shown xs (with_canonical_ips ip6 probe toks)"
  by (auto simp: shown_def list_all_iff split: sum.splits dest: with_canonical_ips_sub)

lemma shown_with_jump:
  assumes "list_all (\<lambda>x. has_sub x probe) xs" "\<And>t. has_sub t (f t)"
  shows "shown (jump # xs) (case with_jump probe jump of (t, hops) \<Rightarrow> with_canonical_ips ip6 (f t) (g hops))"
proof -
  obtain t hops where j: "with_jump probe jump = (t, hops)" by fastforce
  have "has_sub x (f t)" if "x \<in> set (jump # xs)" for x
    using that assms(1) with_jump_sub [OF j] has_sub_trans [OF _ assms(2)] has_sub_trans
    by (auto simp: list_all_iff)
  then have "list_all (\<lambda>x. has_sub x (f t)) (jump # xs)" by (simp add: list_all_iff)
  then show ?thesis using j by (simp only: prod.case shown_with_canonical)
qed

text \<open>Everything the executor is given is in the text the policy sees, for every tool with a
  policy surface: command lines, scripts, standard input, environment overlays, hosts, jump
  chains, both paths of a transfer, forward specifications, and, for a session, the line typed
  so far followed by the new data.\<close>

theorem policy_text_shows_everything:
  "shown [command, stdin, env_json] (Inr (policy_text_shell_exec command stdin env_json)) \<and>
   shown [script, env_json] (Inr (policy_text_shell_script script env_json)) \<and>
   shown [command, env_json] (Inr (policy_text_shell_spawn command env_json)) \<and>
   policy_text_session_send data pending = pending @ data \<and>
   shown [jump, command, host] (policy_text_ssh_exec ip6 host command jump) \<and>
   shown [jump, command, host] (policy_text_ssh_spawn ip6 host command jump) \<and>
   shown [command, hosts] (policy_text_ssh_fanout ip6 hosts command) \<and>
   shown [hosts] (policy_text_ssh_check ip6 hosts) \<and>
   shown [hosts] (policy_text_ssh_keyscan ip6 hosts) \<and>
   shown [jump, local_path, host, remote_path]
     (policy_text_ssh_upload ip6 host local_path remote_path jump) \<and>
   shown [jump, host, remote_path, local_path]
     (policy_text_ssh_download ip6 host remote_path local_path jump) \<and>
   shown [jump, spec] (policy_text_ssh_forward ip6 spec host jump) \<and>
   shown [host] (policy_text_ssh_forward ip6 spec host jump)"
proof (intro conjI)
  show "shown [command, stdin, env_json] (Inr (policy_text_shell_exec command stdin env_json))"
    by (simp add: shown_def policy_text_shell_exec_def has_sub_parts)
  show "shown [script, env_json] (Inr (policy_text_shell_script script env_json))"
    by (simp add: shown_def policy_text_shell_script_def has_sub_parts)
  show "shown [command, env_json] (Inr (policy_text_shell_spawn command env_json))"
    by (simp add: shown_def policy_text_shell_spawn_def has_sub_parts)
  show "policy_text_session_send data pending = pending @ data"
    by (rule policy_text_session_send_def)
  show "shown [jump, command, host] (policy_text_ssh_exec ip6 host command jump)"
    unfolding policy_text_ssh_exec_def by (rule shown_with_jump) (simp_all add: list_all_iff has_sub_intros)
  show "shown [jump, command, host] (policy_text_ssh_spawn ip6 host command jump)"
    unfolding policy_text_ssh_spawn_def by (rule shown_with_jump) (simp_all add: list_all_iff has_sub_intros)
  show "shown [command, hosts] (policy_text_ssh_fanout ip6 hosts command)"
    unfolding policy_text_ssh_fanout_def by (rule shown_with_canonical) auto
  show "shown [hosts] (policy_text_ssh_check ip6 hosts)"
    unfolding policy_text_ssh_check_def by (rule shown_with_canonical) auto
  show "shown [hosts] (policy_text_ssh_keyscan ip6 hosts)"
    unfolding policy_text_ssh_keyscan_def augment_probe_with_ips_def
    by (rule shown_with_canonical) auto
  show "shown [jump, local_path, host, remote_path]
     (policy_text_ssh_upload ip6 host local_path remote_path jump)"
    unfolding policy_text_ssh_upload_def by (rule shown_with_jump) (simp_all add: list_all_iff has_sub_intros)
  show "shown [jump, host, remote_path, local_path]
     (policy_text_ssh_download ip6 host remote_path local_path jump)"
    unfolding policy_text_ssh_download_def by (rule shown_with_jump) (simp_all add: list_all_iff has_sub_intros)
  show "shown [jump, spec] (policy_text_ssh_forward ip6 spec host jump)"
    unfolding policy_text_ssh_forward_def by (rule shown_with_jump) auto
  show "shown [host] (policy_text_ssh_forward ip6 spec host jump)"
    unfolding policy_text_ssh_forward_def
    by (cases "with_jump (asc ''forward '' @ spec) jump")
      (auto intro!: shown_with_canonical simp: has_sub_intros)
qed

subsection \<open>Spellings of an address\<close>

text \<open>A number in one of the three notations \<open>inet_aton\<close> reads, and an address as a list of
  numbers, the last one filling the remaining bytes.\<close>

datatype radix = Dec | Hex | Oct

fun radix_base :: "radix \<Rightarrow> nat" where
  "radix_base Dec = 10"
| "radix_base Hex = 16"
| "radix_base Oct = 8"

definition digit_char :: "nat \<Rightarrow> nat" where
  "digit_char v = (if v < 10 then 48 + v else 87 + v)"

function digits_in :: "nat \<Rightarrow> nat \<Rightarrow> pystr" where
  "digits_in b n =
     (if n < b \<or> b < 2 then [digit_char n] else digits_in b (n div b) @ [digit_char (n mod b)])"
  by pat_completeness auto
termination
  by (relation "measure snd") auto

declare digits_in.simps [simp del]

fun spell :: "radix \<times> nat \<Rightarrow> pystr" where
  "spell (Dec, n) = digits_in 10 n"
| "spell (Hex, n) = asc ''0x'' @ digits_in 16 n"
| "spell (Oct, n) = 48 # digits_in 8 n"

definition spell_address :: "(radix \<times> nat) list \<Rightarrow> pystr" where
  "spell_address parts = join [46] (map spell parts)"

text \<open>The parts fit: at most four, every one but the last is a byte, the last fills the rest.\<close>

definition parts_fit :: "(radix \<times> nat) list \<Rightarrow> bool" where
  "parts_fit parts \<longleftrightarrow> parts \<noteq> [] \<and> length parts \<le> 4 \<and>
     list_all (\<lambda>(r, v). v < 256) (butlast parts) \<and> snd (last parts) < 256 ^ (5 - length parts)"

definition address_bytes :: "(radix \<times> nat) list \<Rightarrow> nat list" where
  "address_bytes parts =
     map snd (butlast parts) @ be_bytes (5 - length parts) (snd (last parts))"

lemma digit_val_char [simp]: "v < 16 \<Longrightarrow> digit_val (digit_char v) = Some v"
  by (auto simp: digit_val_def digit_char_def)

lemma span_digits_in:
  "2 \<le> b \<Longrightarrow> b \<le> 16 \<Longrightarrow> span_digits b 0 (digits_in b n @ r) = span_digits b n r"
proof (induction b n arbitrary: r rule: digits_in.induct)
  case (1 b n)
  show ?case
  proof (cases "n < b")
    case True
    then have "n < 16" using 1(3) by simp
    with True show ?thesis using 1(2) by (simp add: digits_in.simps [of b n])
  next
    case False
    have m: "n mod b < b" using 1(2) by simp
    then have "n mod b < 16" using 1(3) by simp
    moreover have "span_digits b 0 (digits_in b (n div b) @ (digit_char (n mod b) # r))
        = span_digits b (n div b) (digit_char (n mod b) # r)"
      using 1 False by simp
    ultimately show ?thesis using False 1(2) m by (simp add: digits_in.simps [of b n])
  qed
qed

lemma digits_in_hd:
  "2 \<le> b \<Longrightarrow> \<exists>v s. digits_in b n = digit_char v # s \<and> v < b \<and> (0 < n \<longrightarrow> 0 < v)"
proof (induction b n rule: digits_in.induct)
  case (1 b n)
  show ?case
  proof (cases "n < b")
    case True
    then have "digits_in b n = digit_char n # []" by (simp add: digits_in.simps [of b n])
    with True show ?thesis by blast
  next
    case False
    then have "0 < n div b" using 1(2) by (simp add: div_greater_zero_iff)
    moreover obtain v s where vs: "digits_in b (n div b) = digit_char v # s" "v < b"
        "0 < n div b \<longrightarrow> 0 < v"
      using 1 False by (metis not_le)
    moreover have "digits_in b n = digit_char v # (s @ [digit_char (n mod b)])"
      using False 1(2) vs(1) by (simp add: digits_in.simps [of b n])
    ultimately show ?thesis by blast
  qed
qed

definition at_stop :: "pystr \<Rightarrow> bool" where
  "at_stop r \<longleftrightarrow> r = [] \<or> hd r = 46"

lemma span_stop: "at_stop r \<Longrightarrow> span_digits b n r = (n, r)"
  by (cases r) (auto simp: at_stop_def digit_val_def)

lemma asc_0x: "asc ''0x'' = [48, 120]"
  by (simp add: asc_def)

lemma aton_number_spell:
  assumes "at_stop r"
  shows "aton_number (spell (q, n) @ r) = (n, r) \<and> is_digit (hd (spell (q, n))) \<and> spell (q, n) \<noteq> []"
proof (cases q)
  case Dec
  obtain v s where vs: "digits_in 10 n = digit_char v # s" "v < 10" "0 < n \<longrightarrow> 0 < v"
    using digits_in_hd [of 10 n] by auto
  show ?thesis
  proof (cases "n = 0")
    case True
    have "r = [] \<or> (\<exists>r'. r = 46 # r')" using assms by (cases r) (auto simp: at_stop_def)
    then show ?thesis
      using Dec True span_stop [OF assms]
      by (auto simp: aton_number_def digits_in.simps [of 10 0] digit_char_def asc_0x lower_def
          lower_char_def at_stop_def is_digit_def digit_val_def)
  next
    case False
    then have "digit_char v \<noteq> 48" "is_digit (digit_char v)" "lower_char (digit_char v) \<noteq> 48"
      using vs by (auto simp: digit_char_def is_digit_def lower_char_def)
    then show ?thesis
      using Dec vs(1) span_digits_in [of 10 n r] span_stop [OF assms]
      by (simp add: aton_number_def asc_0x lower_def numeral_2_eq_2)
  qed
next
  case Hex
  obtain v s where vs: "digits_in 16 n = digit_char v # s" "v < 16" "0 < n \<longrightarrow> 0 < v"
    using digits_in_hd [of 16 n] by auto
  then show ?thesis
    using Hex span_digits_in [of 16 n r] span_stop [OF assms]
    by (simp add: aton_number_def asc_0x lower_def lower_char_def is_hex_def is_digit_def)
next
  case Oct
  obtain v s where vs: "digits_in 8 n = digit_char v # s" "v < 8" "0 < n \<longrightarrow> 0 < v"
    using digits_in_hd [of 8 n] by auto
  have "lower_char (digit_char v) \<noteq> 120" "digit_val 48 = Some 0"
    using vs(2) by (auto simp: digit_char_def lower_char_def digit_val_def)
  then show ?thesis
    using Oct vs(1) span_digits_in [of 8 n r] span_stop [OF assms]
    by (simp add: aton_number_def asc_0x lower_def is_digit_def numeral_2_eq_2)
qed

lemma aton_from_spell:
  "parts \<noteq> [] \<Longrightarrow> length parts \<le> Suc k \<Longrightarrow> list_all (\<lambda>(r, v). v < 256) (butlast parts) \<Longrightarrow>
   snd (last parts) \<le> 4294967295 \<Longrightarrow>
   aton_from k acc (spell_address parts) = Some (acc @ map snd (butlast parts), snd (last parts))"
proof (induction parts arbitrary: k acc)
  case Nil
  then show ?case by simp
next
  case (Cons p ps)
  obtain q n where p: "p = (q, n)" by fastforce
  show ?case
  proof (cases ps)
    case Nil
    have "at_stop []" by (simp add: at_stop_def)
    note sp = aton_number_spell [OF this, of q n]
    show ?thesis using sp Nil p Cons.prems(4)
      by (simp add: spell_address_def aton_from.simps [of k])
  next
    case (Cons p' ps')
    have stop: "at_stop (46 # spell_address ps)" by (simp add: at_stop_def)
    note sp = aton_number_spell [OF stop, of q n]
    have sa: "spell_address (p # ps) = spell (q, n) @ 46 # spell_address ps"
      by (simp add: spell_address_def Cons p)
    obtain k' where k: "k = Suc k'" using Cons.prems(2) Cons by (cases k) auto
    have n: "n < 256" using Cons.prems(3) p Cons by simp
    have "aton_from k' (acc @ [n]) (spell_address ps)
        = Some ((acc @ [n]) @ map snd (butlast ps), snd (last ps))"
      using Cons.IH [of k' "acc @ [n]"] Cons.prems k Cons by simp
    then have "aton_from (Suc k') acc (spell_address (p # ps))
        = Some ((acc @ [n]) @ map snd (butlast ps), snd (last ps))"
      unfolding sa aton_from.simps [of "Suc k'"] using sp n by simp
    with k show ?thesis using Cons p by simp
  qed
qed

lemma inet_aton_spell:
  assumes "parts_fit parts"
  shows "inet_aton (spell_address parts) = Some (address_bytes parts)"
proof -
  have ps: "parts \<noteq> []" "length parts \<le> Suc 3" "list_all (\<lambda>(r, v). v < 256) (butlast parts)"
    and l: "snd (last parts) < 256 ^ (5 - length parts)"
    using assms by (simp_all add: parts_fit_def)
  have "(256::nat) ^ (5 - length parts) \<le> 256 ^ 4"
    using ps(1) by (intro power_increasing) (cases parts, auto)
  then have "snd (last parts) \<le> 4294967295" using l by simp
  note af = aton_from_spell [OF ps this, of "[]"]
  have "4 - (length parts - 1) = 5 - length parts" using ps by (cases parts) auto
  then show ?thesis using af l by (simp add: inet_aton_def address_bytes_def)
qed

lemma digits_in_10: "digits_in 10 n = digits n"
proof (induction n rule: digits.induct)
  case (1 n)
  show ?case
  proof (cases "n < 10")
    case True
    then show ?thesis
      by (simp add: digits_in.simps [of 10 n] digits.simps [of n] digit_char_def)
  next
    case False
    have "digit_char (n mod 10) = 48 + n mod 10" by (simp add: digit_char_def)
    then show ?thesis using False 1 by (simp add: digits_in.simps [of 10 n] digits.simps [of n])
  qed
qed

lemma digits_in_length: "n < b ^ Suc k \<Longrightarrow> 2 \<le> b \<Longrightarrow> length (digits_in b n) \<le> Suc k"
proof (induction k arbitrary: n)
  case 0
  then show ?case by (simp add: digits_in.simps [of b n])
next
  case (Suc k)
  show ?case
  proof (cases "n < b")
    case True
    then show ?thesis by (simp add: digits_in.simps [of b n])
  next
    case False
    have "n div b < b ^ Suc k"
      using Suc.prems by (simp add: less_mult_imp_div_less mult.commute)
    then show ?thesis using False Suc by (simp add: digits_in.simps [of b n])
  qed
qed

lemma digits_in_chars:
  "2 \<le> b \<Longrightarrow> c \<in> set (digits_in b n) \<Longrightarrow> \<exists>v<b. c = digit_char v"
proof (induction b n rule: digits_in.induct)
  case (1 b n)
  have m: "n mod b < b" using 1(2) by simp
  show ?case
  proof (cases "n < b")
    case True
    then show ?thesis using 1(3) by (auto simp: digits_in.simps [of b n])
  next
    case False
    then have d: "digits_in b n = digits_in b (n div b) @ [digit_char (n mod b)]"
      using 1(2) by (simp add: digits_in.simps [of b n])
    have "c \<in> set (digits_in b (n div b) @ [digit_char (n mod b)])"
      using 1(3) by (simp only: d)
    then have "c = digit_char (n mod b) \<or> c \<in> set (digits_in b (n div b))" by simp
    then show ?thesis
    proof
      assume "c = digit_char (n mod b)"
      with m show ?thesis by (intro exI [of _ "n mod b"]) simp
    next
      assume "c \<in> set (digits_in b (n div b))"
      then show ?thesis using 1(1) 1(2) False by simp
    qed
  qed
qed

text \<open>Read as a decimal, an octal numeral is at least its value.\<close>

lemma undigits_octal: "n \<le> undigits (digits_in 8 n)"
proof (induction "8::nat" n rule: digits_in.induct)
  case (1 n)
  show ?case
  proof (cases "n < 8")
    case True
    then show ?thesis by (simp add: digits_in.simps [of 8 n] undigits_def digit_char_def)
  next
    case False
    have "n mod 8 < 10" using mod_less_divisor [of 8 n] by linarith
    then have "undigits (digits_in 8 n) = undigits (digits_in 8 (n div 8)) * 10 + n mod 8"
      using False by (simp add: digits_in.simps [of 8 n] undigits_def digit_char_def)
    moreover have "n div 8 \<le> undigits (digits_in 8 (n div 8))" using 1 False by simp
    moreover have "n = n div 8 * 8 + n mod 8" by simp
    ultimately show ?thesis by linarith
  qed
qed

lemma set_join: "c \<in> set (join sep xs) \<Longrightarrow> c \<in> set sep \<or> (\<exists>x\<in>set xs. c \<in> set x)"
  by (induction sep xs rule: join.induct) auto

lemma spell_chars:
  "c \<in> set (spell_address parts) \<Longrightarrow> c = 46 \<or> c = 120 \<or> (\<exists>v<16. c = digit_char v)"
proof -
  have sp: "c = 120 \<or> (\<exists>v<16. c = digit_char v)" if "c \<in> set (spell p)" for p
  proof -
    have z: "48 = digit_char 0" by (simp add: digit_char_def)
    have w: "\<exists>v<16. c = digit_char v" if "c \<in> set (digits_in b n)" "2 \<le> b" "b \<le> 16" for b n
      using digits_in_chars [OF that(2,1)] that(3) less_le_trans by blast
    show ?thesis
      using that z by (cases p rule: spell.cases) (auto simp: asc_0x dest!: w)
  qed
  assume "c \<in> set (spell_address parts)"
  then have "c \<in> set [46] \<or> (\<exists>x\<in>set (map spell parts). c \<in> set x)"
    unfolding spell_address_def by (rule set_join)
  with sp show ?thesis by auto
qed

lemma spell_char_class:
  assumes "c \<in> set (spell_address parts)"
  shows "\<not> is_space c \<and> c \<noteq> 91 \<and> c \<noteq> 93 \<and> c \<noteq> 0 \<and> \<not> is_surrogate c"
  using spell_chars [OF assms]
  by (auto simp: digit_char_def is_space_def is_surrogate_def split: if_splits)

lemma dropWhile_none: "(\<And>c. c \<in> set s \<Longrightarrow> \<not> P c) \<Longrightarrow> dropWhile P s = s"
  by (cases s) auto

lemma strip_clean: "(\<And>c. c \<in> set s \<Longrightarrow> \<not> is_space c) \<Longrightarrow> strip s = s"
  using dropWhile_none [of s is_space] dropWhile_none [of "rev s" is_space]
  by (simp add: strip_def lstrip_def rstrip_def)

lemma strip_brackets_clean: "91 \<notin> set s \<Longrightarrow> 93 \<notin> set s \<Longrightarrow> strip_brackets s = s"
  unfolding strip_brackets_def Let_def by (subst dropWhile_none, force)+ simp

text \<open>The spellings that \<open>looks_ipish\<close> lets through: a dot, a hexadecimal, or a large number.\<close>

fun ipish_parts :: "(radix \<times> nat) list \<Rightarrow> bool" where
  "ipish_parts [] = False"
| "ipish_parts [(r, n)] = (r = Hex \<or> 65535 < n)"
| "ipish_parts (p # q # ps) = True"

lemma looks_ipish_spell:
  assumes "parts_fit parts" "ipish_parts parts"
  shows "looks_ipish (spell_address parts) = Inr True"
proof (cases parts rule: ipish_parts.cases)
  case 1
  then show ?thesis using assms by simp
next
  case (3 p q ps)
  then show ?thesis by (simp add: looks_ipish_def spell_address_def)
next
  case (2 r n)
  have n: "n < 256 ^ 4" using assms(1) 2 by (simp add: parts_fit_def)
  have num: "looks_ipish s = Inr True"
    if "list_all is_digit s" "length s \<le> 4300" "n \<le> undigits s" "s \<noteq> []" "65535 < n" for s
    using that by (auto simp: looks_ipish_def str_isdigit_def int_of_digits_def list_all_iff)
  show ?thesis
  proof (cases r)
    case Hex
    have "starts_with (asc ''0x'') (lower (asc ''0x'' @ s))" for s
      by (simp add: asc_0x starts_with_def lower_def lower_char_def)
    with Hex show ?thesis
      using 2 by (simp add: looks_ipish_def spell_address_def)
  next
    case Dec
    have "n < 10 ^ Suc 31" using n by simp
    then have "length (digits n) \<le> 4300" using digits_in_length [of n 10 31] digits_in_10 by simp
    then have "looks_ipish (digits n) = Inr True"
      using num [of "digits n"] digits_are_digits assms(2) 2 Dec by (simp add: list_all_iff)
    then show ?thesis using 2 Dec by (simp add: spell_address_def digits_in_10)
  next
    case Oct
    have "n < 8 ^ Suc 31" using n by simp
    then have "length (digits_in 8 n) \<le> 32" using digits_in_length [of n 8 31] by simp
    moreover have "is_digit c" if "c \<in> set (digits_in 8 n)" for c
      using digits_in_chars [OF _ that] by (auto simp: is_digit_def digit_char_def)
    then have "list_all is_digit (48 # digits_in 8 n)"
      by (simp add: list_all_iff) (simp add: is_digit_def)
    moreover have "undigits (48 # s) = undigits s" for s by (simp add: undigits_def)
    ultimately have "looks_ipish (48 # digits_in 8 n) = Inr True"
      using num [of "48 # digits_in 8 n"] undigits_octal [of n] assms(2) 2 Oct by simp
    then show ?thesis using 2 Oct by (simp add: spell_address_def)
  qed
qed

lemma canonical_ips_spell:
  assumes "parts_fit parts" "ipish_parts parts"
  shows "\<exists>ips. canonical_ips ip6 (spell_address parts) = Inr ips \<and>
     inet_ntoa (address_bytes parts) \<in> set ips"
proof -
  let ?t = "spell_address parts"
  have "strip_brackets (strip ?t) = ?t"
    using spell_char_class by (metis strip_brackets_clean strip_clean)
  moreover have "?t \<noteq> []" using inet_aton_spell [OF assms(1)]
    by (auto simp: inet_aton_def aton_from.simps)
  moreover have "c_string_error ?t = None"
    using spell_char_class by (auto simp: c_string_error_def list_ex_iff)
  ultimately show ?thesis
    using looks_ipish_spell [OF assms] inet_aton_spell [OF assms(1)]
    by (simp add: canonical_ips_def Let_def fromkeys_def)
qed

text \<open>A literal address given as the host of an SSH tool is visible in dotted form.\<close>

lemma address_visible:
  assumes "with_canonical_ips ip6 probe toks = Inr p" "parts_fit parts" "ipish_parts parts"
    and "spell_address parts \<in> set (take MAX_CANON_TOKENS toks)"
    and "has_sub (spell_address parts) probe"
  shows "has_sub (inet_ntoa (address_bytes parts)) p"
proof -
  obtain ips where "canonical_ips ip6 (spell_address parts) = Inr ips" "\<And>ip. ip \<in> set ips \<Longrightarrow> has_sub ip p"
    using with_canonical_ips_spec(2) [OF assms(1,4,5)] by blast
  then show ?thesis using canonical_ips_spell [OF assms(2,3), of ip6] by auto
qed

lemma in_take_MAX [simp]: "x \<in> set (take MAX_CANON_TOKENS (x # xs))"
  by (simp add: MAX_CANON_TOKENS_def)

lemma host_visible:
  assumes "parts_fit parts" "ipish_parts parts"
    and "(case with_jump t jump of (u, hops) \<Rightarrow> with_canonical_ips ip6 u (spell_address parts # hops)) = Inr p"
    and "has_sub (spell_address parts) t"
  shows "has_sub (inet_ntoa (address_bytes parts)) p"
proof -
  obtain u hops where j: "with_jump t jump = (u, hops)" by fastforce
  have "has_sub (spell_address parts) u"
    using assms(4) with_jump_sub [OF j] has_sub_trans by blast
  moreover have "with_canonical_ips ip6 u (spell_address parts # hops) = Inr p"
    using assms(3) j by simp
  ultimately show ?thesis using address_visible [OF _ assms(1,2) in_take_MAX] by blast
qed

lemma split_ws_aux_sub: "t \<in> set (split_ws_aux cur s) \<Longrightarrow> has_sub t (cur @ s)"
proof (induction cur s rule: split_ws_aux.induct)
  case (1 cur)
  then show ?case by (simp split: if_splits)
next
  case (2 cur c s)
  show ?case
  proof (cases "is_space c")
    case False
    then show ?thesis using 2 by simp
  next
    case True
    then have "t = cur \<or> t \<in> set (split_ws_aux [] s)" using "2.prems" by (auto split: if_splits)
    then show ?thesis
      using "2.IH"(1,2) True by (cases "cur = []") (auto simp: has_sub_intros)
  qed
qed

lemma host_token_sub:
  assumes "tok \<in> set (host_tokens hosts)"
  shows "has_sub tok hosts"
proof -
  let ?f = "\<lambda>x. if x = 44 then 32 else (x::nat)"
  have r: "replace_char 44 [32] hosts = map ?f hosts"
    by (induction hosts) (auto simp: replace_char_def)
  have "has_sub tok (map ?f hosts)"
    using assms split_ws_aux_sub [of tok "[]"] by (simp add: host_tokens_def split_ws_def r)
  then obtain a t b where h: "hosts = a @ t @ b" "tok = map ?f t"
    unfolding has_sub_iff map_eq_append_conv append_eq_map_conv by blast
  have "32 \<notin> set tok"
    using assms split_ws_tokens [of tok] by (auto simp: host_tokens_def is_space_def)
  with h(2) have "44 \<notin> set t" by (auto split: if_splits)
  then have "map ?f t = t" by (induction t) auto
  with h show ?thesis unfolding has_sub_iff by metis
qed

lemma hosts_visible:
  assumes "parts_fit parts" "ipish_parts parts" "with_canonical_ips ip6 probe (host_tokens hosts) = Inr p"
    and "spell_address parts \<in> set (take MAX_CANON_TOKENS (host_tokens hosts))" "has_sub hosts probe"
  shows "has_sub (inet_ntoa (address_bytes parts)) p"
proof -
  have "has_sub (spell_address parts) hosts"
    using assms(4) host_token_sub in_set_takeD by metis
  then have "has_sub (spell_address parts) probe" using assms(5) has_sub_trans by metis
  then show ?thesis using address_visible [OF assms(3,1,2,4)] by metis
qed

text \<open>However an IPv4 address is spelled - one to four numbers, each in decimal, octal or
  hexadecimal, the short forms included - every SSH tool shows it to the policy in dotted form
  when it is the bare host, and the tools that take a list of hosts do when it is one of the
  first 128 of them (they refuse longer lists).\<close>

theorem address_always_shown:
  assumes "parts_fit parts" "ipish_parts parts"
  shows "shown [inet_ntoa (address_bytes parts)]
      (policy_text_ssh_exec ip6 (spell_address parts) command jump) \<and>
    shown [inet_ntoa (address_bytes parts)]
      (policy_text_ssh_spawn ip6 (spell_address parts) command jump) \<and>
    shown [inet_ntoa (address_bytes parts)]
      (policy_text_ssh_upload ip6 (spell_address parts) local_path remote_path jump) \<and>
    shown [inet_ntoa (address_bytes parts)]
      (policy_text_ssh_download ip6 (spell_address parts) remote_path local_path jump) \<and>
    shown [inet_ntoa (address_bytes parts)]
      (policy_text_ssh_forward ip6 spec (spell_address parts) jump) \<and>
    (spell_address parts \<in> set (take MAX_CANON_TOKENS (host_tokens hosts)) \<longrightarrow>
      shown [inet_ntoa (address_bytes parts)] (policy_text_ssh_fanout ip6 hosts command) \<and>
      shown [inet_ntoa (address_bytes parts)] (policy_text_ssh_check ip6 hosts) \<and>
      shown [inet_ntoa (address_bytes parts)] (policy_text_ssh_keyscan ip6 hosts))"
proof -
  let ?h = "spell_address parts" and ?ip = "inet_ntoa (address_bytes parts)"
  have one: "shown [?ip] r" if "\<And>p. r = Inr p \<Longrightarrow> has_sub ?ip p" for r
    using that by (auto simp: shown_def split: sum.splits)
  have host: "shown [?ip] (case with_jump t jump of (u, hops) \<Rightarrow> with_canonical_ips ip6 u (?h # hops))"
    if "has_sub ?h t" for t
    by (rule one, rule host_visible [OF assms _ that])
  have hosts: "shown [?ip] (with_canonical_ips ip6 t (host_tokens hosts))"
    if "?h \<in> set (take MAX_CANON_TOKENS (host_tokens hosts))" "has_sub hosts t" for t
    by (rule one, rule hosts_visible [OF assms _ that])
  have forward: "shown [?ip] (policy_text_ssh_forward ip6 spec ?h jump)"
  proof (rule one)
    fix p
    obtain u hops where j: "with_jump (asc ''forward '' @ spec) jump = (u, hops)" by fastforce
    have ne: "?h \<noteq> []"
      using inet_aton_spell [OF assms(1)] by (auto simp: inet_aton_def aton_from.simps)
    assume "policy_text_ssh_forward ip6 spec ?h jump = Inr p"
    then have w: "with_canonical_ips ip6 (u @ [10] @ ?h) (forward_dhost spec # ?h # hops) = Inr p"
      using j ne by (simp add: policy_text_ssh_forward_def)
    show "has_sub ?ip p"
      by (rule address_visible [OF w assms]) (simp_all add: MAX_CANON_TOKENS_def has_sub_intros)
  qed
  have inside: "has_sub ?h (x @ [10] @ ?h)" "has_sub ?h (x @ ?h @ y)" for x y
    by (simp_all add: has_sub_intros)
  have check: "shown [?ip] (policy_text_ssh_check ip6 hosts) \<and>
      shown [?ip] (policy_text_ssh_keyscan ip6 hosts) \<and>
      shown [?ip] (policy_text_ssh_fanout ip6 hosts command)"
    if "?h \<in> set (take MAX_CANON_TOKENS (host_tokens hosts))"
    unfolding policy_text_ssh_check_def policy_text_ssh_keyscan_def augment_probe_with_ips_def
      policy_text_ssh_fanout_def
    using hosts [OF that] by (simp add: has_sub_intros)
  show ?thesis
    using check forward
    unfolding policy_text_ssh_exec_def policy_text_ssh_spawn_def policy_text_ssh_upload_def
      policy_text_ssh_download_def
    by (simp add: host has_sub_intros)
qed

lemma be_bytes_small:
  "be_bytes 2 v = [v div 256 mod 256, v mod 256]"
  "be_bytes 4 v = [v div 256 div 256 div 256 mod 256, v div 256 div 256 mod 256, v div 256 mod 256, v mod 256]"
proof -
  have "(2::nat) = Suc (Suc 0)" "(4::nat) = Suc (Suc (Suc (Suc 0)))" by simp_all
  then show "be_bytes 2 v = [v div 256 mod 256, v mod 256]"
    "be_bytes 4 v = [v div 256 div 256 div 256 mod 256, v div 256 div 256 mod 256, v div 256 mod 256, v mod 256]"
    by (simp_all only: be_bytes.simps append.simps)
qed

lemma address_always_shown_witness:
  "shown [asc ''169.254.169.254'']
     (policy_text_ssh_exec (\<lambda>_. None) (spell_address [(Dec, 2852039166)]) (asc ''id'') []) \<and>
   shown [asc ''169.254.169.254'']
     (policy_text_ssh_fanout (\<lambda>_. None) (asc ''web1, 0xa9.0376.43518'') (asc ''id''))"
proof -
  let ?d = "[(Dec, 2852039166)]" and ?s = "[(Hex, 169), (Oct, 254), (Dec, 43518)]"
  have fit: "parts_fit ?d" "ipish_parts ?d" "parts_fit ?s" "ipish_parts ?s"
    by (simp_all add: parts_fit_def)
  have b: "address_bytes ?d = [169, 254, 169, 254]" "address_bytes ?s = [169, 254, 169, 254]"
    by (simp_all add: address_bytes_def be_bytes_small)
  have n: "inet_ntoa [169, 254, 169, 254] = asc ''169.254.169.254''" by code_simp
  have t: "spell_address ?s \<in> set (take MAX_CANON_TOKENS (host_tokens (asc ''web1, 0xa9.0376.43518'')))"
  proof -
    have "spell_address ?s = asc ''0xa9.0376.43518''"
      by (simp add: spell_address_def digits_in.simps digit_char_def asc_def)
    moreover have "asc ''0xa9.0376.43518'' \<in> set (host_tokens (asc ''web1, 0xa9.0376.43518''))"
      "length (host_tokens (asc ''web1, 0xa9.0376.43518'')) \<le> 128" by code_simp+
    ultimately show ?thesis by (simp add: MAX_CANON_TOKENS_def)
  qed
  show ?thesis
    using address_always_shown [OF fit(1,2), of "\<lambda>_. None" "asc ''id''" "[]"]
      address_always_shown [OF fit(3,4), of "\<lambda>_. None" "asc ''id''"] t
    unfolding b n by simp
qed

end
