(* ===== verification/SshConnectProps.thy ===== *)
theory SshConnectProps
  imports SshConnect PolicyTextProps
begin

text \<open>
  What a connection guarantees: its cache key identifies the peer and the terms, a caller
  cannot weaken host key verification, first contact is recorded and then verified, tokens that
  reach a command line are plain, and the policy text names what a forward dials. The
  counterexamples found on the way are stated last.
\<close>

subsection \<open>The cache key\<close>

lemma host_token_chars:
  "host_token_ok s \<Longrightarrow> c \<in> set s \<Longrightarrow> alnum c \<or> c \<in> {46, 95, 45, 58, 37, 91, 93}"
  by (cases s) (auto simp: host_token_ok_def list_all_iff)

lemma user_token_chars: "user_token_ok s \<Longrightarrow> c \<in> set s \<Longrightarrow> alnum c \<or> c \<in> {46, 95, 45}"
  by (cases s) (auto simp: user_token_ok_def list_all_iff)

lemma not_alnum [simp]: "\<not> alnum 124" "\<not> alnum 64" "\<not> alnum 44" "\<not> alnum 58" "\<not> alnum 35"
  "\<not> alnum 45" "\<not> alnum 32"
  by (simp_all add: alnum_def)

lemma check_tokens_None:
  "check_ssh_tokens (Some h) u = None \<longleftrightarrow> host_token_ok h \<and> (\<forall>x. u = Some x \<longrightarrow> user_token_ok x)"
  "check_ssh_tokens None (Some x) = None \<longleftrightarrow> user_token_ok x"
  by (auto simp: check_ssh_tokens_def split: option.splits)

lemma jump_chars:
  assumes "check_jump j = None"
  shows "124 \<notin> set j"
proof
  assume "124 \<in> set j"
  then have "124 \<in> set (join [44] (split_on 44 j))" by (simp only: join_split_on)
  then obtain hop where hop: "hop \<in> set (split_on 44 j)" "124 \<in> set hop"
    using set_join [of 124 "[44]"] by auto
  obtain u f h where r: "rpartition_on 64 hop = (u, f, h)" using prod_cases3 by blast
  have "hop_error hop = None"
    using assms hop(1) by (auto simp: check_jump_def list_all_iff split: if_splits)
  then have "host_token_ok h" "f \<longrightarrow> user_token_ok u"
    using r by (auto simp: hop_error_def check_tokens_None split: if_splits)
  then show False
    using rpartition_on_shape [OF r] hop(2) host_token_chars [of h 124] user_token_chars [of u 124]
    by (auto split: if_splits)
qed

lemma show_int_chars: "c \<in> set (show_int i) \<Longrightarrow> is_digit c \<or> c = 45"
  by (auto simp: show_int_def split: if_splits dest: digits_are_digits)

text \<open>The key of the connection cache determines the peer and the terms: for tokens the checks
  accept, equal keys mean the same user, host, port, verification mode, identity key and jump
  chain, an unset port counting as 22.\<close>

theorem conn_key_identifies:
  assumes "host_token_ok h" "host_token_ok h'" "u = [] \<or> user_token_ok u" "u' = [] \<or> user_token_ok u'"
    and "m \<in> set KNOWN_HOSTS_MODES" "m' \<in> set KNOWN_HOSTS_MODES"
    and "check_jump j = None \<or> j = []" "check_jump j' = None \<or> j' = []"
  shows "conn_key h u p m k j = conn_key h' u' p' m' k' j' \<longleftrightarrow>
     h = h' \<and> u = u' \<and> (if p = 0 then 22 else p) = (if p' = 0 then 22 else p') \<and> m = m' \<and>
     k = k' \<and> j = j'"
proof -
  have ju: "124 \<notin> set j" "124 \<notin> set j'" using assms(7,8) jump_chars by auto
  have us: "64 \<notin> set u" "64 \<notin> set u'" using assms(3,4) user_token_chars by fastforce+
  have ho: "124 \<notin> set h" "124 \<notin> set h'" using assms(1,2) host_token_chars by fastforce+
  have md: "124 \<notin> set m" "124 \<notin> set m'"
    using assms(5,6) by (auto simp: KNOWN_HOSTS_MODES_def asc_def)
  let ?p = "show_int (if p = 0 then 22 else p)" and ?p' = "show_int (if p' = 0 then 22 else p')"
  have po: "58 \<notin> set ?p" "58 \<notin> set ?p'" "124 \<notin> set ?p" "124 \<notin> set ?p'"
    using show_int_chars by (fastforce simp: is_digit_def)+
  show ?thesis (is "?l \<longleftrightarrow> ?r")
  proof
    assume ?l
    then have 0: "u @ 64 # (h @ 58 # ?p @ 124 # m @ 124 # k @ 124 # j) =
        u' @ 64 # (h' @ 58 # ?p' @ 124 # m' @ 124 # k' @ 124 # j')"
      by (simp add: conn_key_def asc_def)
    have 1: "u = u'" "h @ 58 # ?p @ 124 # m @ 124 # k @ 124 # j =
        h' @ 58 # ?p' @ 124 # m' @ 124 # k' @ 124 # j'"
      using sep_split_first [OF 0 us] by simp_all
    from 1(2) have 15: "(h @ 58 # ?p) @ 124 # (m @ 124 # k @ 124 # j) =
        (h' @ 58 # ?p') @ 124 # (m' @ 124 # k' @ 124 # j')" by simp
    have "124 \<notin> set (h @ 58 # ?p)" "124 \<notin> set (h' @ 58 # ?p')" using ho po by simp_all
    then have 2: "h @ 58 # ?p = h' @ 58 # ?p'" "m @ 124 # k @ 124 # j = m' @ 124 # k' @ 124 # j'"
      using sep_split_first [OF 15] by simp_all
    have 3: "h = h'" "?p = ?p'" using sep_split_last [OF 2(1) po(1,2)] by simp_all
    have 4: "m = m'" "k @ 124 # j = k' @ 124 # j'" using sep_split_first [OF 2(2) md] by simp_all
    have 5: "k = k'" "j = j'" using sep_split_last [OF 4(2) ju] by simp_all
    show ?r using 1(1) 3 4(1) 5 by simp
  next
    assume ?r
    then show ?l by (simp add: conn_key_def)
  qed
qed

lemma conn_key_identifies_witness:
  "conn_key (asc ''db1'') (asc ''root'') 0 (asc ''strict'') (asc ''/k'') [] =
     conn_key (asc ''db1'') (asc ''root'') 22 (asc ''strict'') (asc ''/k'') [] \<and>
   conn_key (asc ''db1'') (asc ''root'') 0 (asc ''strict'') (asc ''/k'') [] \<noteq>
     conn_key (asc ''db1'') (asc ''root'') 0 (asc ''ignore'') (asc ''/k'') []"
proof -
  have h: "host_token_ok (asc ''db1'')" "user_token_ok (asc ''root'')" by code_simp+
  have m: "asc ''strict'' \<in> set KNOWN_HOSTS_MODES" "asc ''ignore'' \<in> set KNOWN_HOSTS_MODES"
    by (simp_all add: KNOWN_HOSTS_MODES_def)
  show ?thesis
    using h m
      conn_key_identifies [of "asc ''db1''" "asc ''db1''" "asc ''root''" "asc ''root''"
        "asc ''strict''" "asc ''strict''" "[]" "[]" 0 "asc ''/k''" 22 "asc ''/k''"]
      conn_key_identifies [of "asc ''db1''" "asc ''db1''" "asc ''root''" "asc ''root''"
        "asc ''strict''" "asc ''ignore''" "[]" "[]" 0 "asc ''/k''" 0 "asc ''/k''"]
    by simp
qed

subsection \<open>What a plan is\<close>

lemma plan_connect_Inr:
  assumes "plan_connect repr s iv target ck = Inr cp"
  shows "target_error iv target = None \<and> (ck_user ck = [] \<or> user_token_ok (ck_user ck)) \<and>
    (ck_jump ck = [] \<or> check_jump (ck_jump ck) = None) \<and> \<not> weakens s (ck_known_hosts ck) \<and>
    cp_hostname cp = hs_hostname (resolve iv target) \<and>
    cp_user cp = py_or (JStr (ck_user ck)) (py_or (hs_user (resolve iv target)) (JStr [])) \<and>
    cp_jump cp = py_or (JStr (ck_jump ck)) (py_or (hs_jump (resolve iv target)) (JStr [])) \<and>
    (\<exists>m. py_or (JStr (ck_known_hosts ck))
           (py_or (hs_known_hosts (resolve iv target)) (JStr (ssh_known_hosts s))) = JStr m \<and>
         cp_mode cp = lower m)"
  using assms unfolding plan_connect_def Let_def
  by (auto simp: check_tokens_None split: option.splits if_splits json.splits)

text \<open>C26: A caller cannot weaken host key verification where the server forbids it: a connection
  that accepts any host key is one whose server default already accepts it (mode \<open>ignore\<close>), or a
  first contact under a default that is not \<open>strict\<close>. The one exception is the mode an
  operator wrote in the inventory entry of the host, when the caller gives none.\<close>

theorem host_keys_not_weakened:
  assumes "plan_connect repr s iv target ck = Inr cp" "dial s am path cfg tmo cp file = Inr opts"
    and "\<not> ssh_allow_weaker_known_hosts s" "ssh_known_hosts s \<in> set KNOWN_HOSTS_MODES"
    and "ck_known_hosts ck \<noteq> [] \<or> \<not> truthy (hs_known_hosts (resolve iv target))"
  shows "cp_mode cp \<in> set KNOWN_HOSTS_MODES \<and>
    known_hosts_weakness (cp_mode cp) \<le> known_hosts_weakness (ssh_known_hosts s) \<and>
    (co_known_hosts opts = None \<longleftrightarrow> cp_mode cp = asc ''ignore'' \<or>
       cp_mode cp = asc ''accept-new'' \<and> \<not> host_is_known am file (cp_hostname cp) (cp_port cp)) \<and>
    (ssh_known_hosts s = asc ''strict'' \<longrightarrow> co_known_hosts opts = Some path)"
proof -
  obtain m where m: "py_or (JStr (ck_known_hosts ck))
        (py_or (hs_known_hosts (resolve iv target)) (JStr (ssh_known_hosts s))) = JStr m"
      "cp_mode cp = lower m" and nw: "\<not> weakens s (ck_known_hosts ck)"
    using plan_connect_Inr [OF assms(1)] by metis
  have low: "lower (ssh_known_hosts s) = ssh_known_hosts s"
    using assms(4) by (auto simp: KNOWN_HOSTS_MODES_def asc_def lower_def lower_char_def)
  have le: "known_hosts_weakness (cp_mode cp) \<le> known_hosts_weakness (ssh_known_hosts s)"
  proof (cases "ck_known_hosts ck = []")
    case True
    then show ?thesis using m low assms(5) by (simp add: py_or_def truthy_def)
  next
    case False
    then have "m = ck_known_hosts ck" using m(1) by (simp add: py_or_def truthy_def)
    then show ?thesis using nw False assms(3) m(2) by (simp add: weakens_def)
  qed
  obtain kh where kh: "known_hosts_arg path (cp_mode cp)
      (cp_mode cp = asc ''accept-new'' \<and> host_is_known am file (cp_hostname cp) (cp_port cp)) = Inr kh"
      "co_known_hosts opts = kh"
    using assms(2) by (auto simp: dial_def connect_opts_of_def split: sum.splits)
  have mode: "cp_mode cp \<in> set KNOWN_HOSTS_MODES"
    using kh(1) by (auto simp: known_hosts_arg_def split: if_splits)
  have strict: "known_hosts_weakness (cp_mode cp) = 0 \<Longrightarrow> cp_mode cp = asc ''strict''"
    using mode by (auto simp: KNOWN_HOSTS_MODES_def known_hosts_weakness_def)
  have iff: "co_known_hosts opts = None \<longleftrightarrow> cp_mode cp = asc ''ignore'' \<or>
       cp_mode cp = asc ''accept-new'' \<and> \<not> host_is_known am file (cp_hostname cp) (cp_port cp)"
    using kh mode by (auto simp: known_hosts_arg_def KNOWN_HOSTS_MODES_def split: if_splits)
  have "co_known_hosts opts = Some path" if "ssh_known_hosts s = asc ''strict''"
  proof -
    have "known_hosts_weakness (asc ''strict'') = 0" by (simp add: known_hosts_weakness_def)
    then have "cp_mode cp = asc ''strict''" using le strict by (simp add: that)
    with kh show ?thesis by (simp add: known_hosts_arg_def KNOWN_HOSTS_MODES_def)
  qed
  with mode le iff show ?thesis by blast
qed

subsection \<open>Caller tokens\<close>

text \<open>A token that stays one argument of a command line and is not an option.\<close>

definition argv_safe :: "pystr \<Rightarrow> bool" where
  "argv_safe s \<longleftrightarrow> s \<noteq> [] \<and> hd s \<noteq> 45 \<and>
     list_all (\<lambda>c. \<not> is_space c \<and> c \<notin> set (asc ''$`{};&|<>()*?!#~'') \<and> c \<notin> {34, 39, 92}) s"

lemma alnum_safe:
  "alnum c \<Longrightarrow> \<not> is_space c \<and> c \<notin> set (asc ''$`{};&|<>()*?!#~'') \<and> c \<notin> {34, 39, 92}"
  by (auto simp: alnum_def is_space_def asc_def)

lemma host_token_safe: "host_token_ok s \<Longrightarrow> argv_safe s"
proof -
  assume ok: "host_token_ok s"
  have "\<not> is_space c \<and> c \<notin> set (asc ''$`{};&|<>()*?!#~'') \<and> c \<notin> {34, 39, 92}"
    if "c \<in> set s" for c
    using host_token_chars [OF ok that] alnum_safe [of c] by (auto simp: is_space_def asc_def)
  then show ?thesis using ok by (auto simp: argv_safe_def list_all_iff host_token_ok_def)
qed

lemma user_token_host: "user_token_ok s \<Longrightarrow> host_token_ok s"
  by (auto simp: user_token_ok_def host_token_ok_def list_all_iff)

text \<open>Whatever a caller passes as host, user or jump chain reaches the connection only as
  plain tokens - no blank, quote, backslash or shell metacharacter, no leading dash - unless
  the host is one the operator configured.\<close>

theorem caller_tokens_plain:
  assumes "plan_connect repr s iv target ck = Inr cp"
  shows "(knows iv target \<or> argv_safe (cp_hostname cp)) \<and>
    (ck_user ck \<noteq> [] \<longrightarrow> cp_user cp = JStr (ck_user ck) \<and> argv_safe (ck_user ck)) \<and>
    (ck_jump ck \<noteq> [] \<longrightarrow> cp_jump cp = JStr (ck_jump ck) \<and>
       list_all (\<lambda>hop. argv_safe (after_at hop)) (split_on 44 (ck_jump ck)))"
proof -
  note pl = plan_connect_Inr [OF assms]
  have h: "knows iv target \<or> argv_safe (cp_hostname cp)"
    using pl by (auto simp: target_error_def check_tokens_None host_token_safe split: if_splits)
  have u: "ck_user ck \<noteq> [] \<longrightarrow> cp_user cp = JStr (ck_user ck) \<and> argv_safe (ck_user ck)"
    using pl by (auto simp: py_or_def truthy_def user_token_host host_token_safe)
  have hop: "argv_safe (after_at x)" if "hop_error x = None" for x
    using that by (auto simp: hop_error_def after_at_def check_tokens_None host_token_safe
        split: prod.splits if_splits)
  have "ck_jump ck \<noteq> [] \<longrightarrow> cp_jump cp = JStr (ck_jump ck) \<and>
       list_all (\<lambda>hop. argv_safe (after_at hop)) (split_on 44 (ck_jump ck))"
  proof
    assume j: "ck_jump ck \<noteq> []"
    then have "check_jump (ck_jump ck) = None" "cp_jump cp = JStr (ck_jump ck)"
      using pl by (simp_all add: py_or_def truthy_def)
    then show "cp_jump cp = JStr (ck_jump ck) \<and>
       list_all (\<lambda>hop. argv_safe (after_at hop)) (split_on 44 (ck_jump ck))"
      using hop by (auto simp: check_jump_def list_all_iff split: if_splits)
  qed
  with h u show ?thesis by blast
qed

subsection \<open>First contact\<close>

lemma splitlines_break:
  "s \<noteq> [] \<Longrightarrow> last s \<in> {10, 13} \<Longrightarrow> take 1 y \<noteq> [10] \<Longrightarrow>
   splitlines cur (s @ y) = splitlines cur s @ splitlines [] y"
proof (induction cur s rule: splitlines.induct)
  case (1 cur)
  then show ?case by simp
next
  case (2 cur c s)
  show ?case
  proof (cases "s = []")
    case True
    then show ?thesis using 2 by (auto simp: line_end_def)
  next
    case False
    then have "take 1 (s @ y) = take 1 s" by (cases s) auto
    then show ?thesis using 2 False by auto
  qed
qed

lemma splitlines_one:
  "list_all (\<lambda>c. \<not> line_end c) s \<Longrightarrow> cur @ s \<noteq> [] \<Longrightarrow> splitlines cur (s @ [10]) = [cur @ s]"
proof (induction s arbitrary: cur)
  case Nil
  then show ?case by (simp add: line_end_def)
next
  case (Cons c s)
  then have "c \<noteq> 13" by (auto simp: line_end_def)
  with Cons show ?case by simp
qed

lemma split_ws_aux_first:
  "list_all (\<lambda>c. \<not> is_space c) p \<Longrightarrow> cur @ p \<noteq> [] \<Longrightarrow>
   split_ws_aux cur (p @ 32 # r) = (cur @ p) # split_ws_aux [] r"
proof (induction p arbitrary: cur)
  case Nil
  then show ?case by (simp add: is_space_def)
next
  case (Cons c p)
  then show ?case by simp
qed

text \<open>The host pattern is one word without commas.\<close>

lemma pattern_word:
  assumes "host_token_ok h"
  shows "known_host_pattern h p \<noteq> [] \<and> hd (known_host_pattern h p) \<notin> {10, 35} \<and>
    (\<forall>c\<in>set (known_host_pattern h p). \<not> is_space c \<and> c \<noteq> 44 \<and> c < 128 \<and> \<not> line_end c)"
proof -
  have h: "\<not> is_space c \<and> c \<noteq> 44 \<and> c < 128 \<and> \<not> line_end c" if "c \<in> set h" for c
    using host_token_chars [OF assms that] by (auto simp: alnum_def is_space_def line_end_def)
  have n: "\<not> is_space c \<and> c \<noteq> 44 \<and> c < 128 \<and> \<not> line_end c" if "c \<in> set (show_int p)" for c
    using show_int_chars [OF that] by (auto simp: is_digit_def is_space_def line_end_def)
  have b: "\<not> is_space c \<and> c \<noteq> 44 \<and> c < 128 \<and> \<not> line_end c" if "c \<in> set (asc ''[]:'')" for c
    using that by (auto simp: asc_def is_space_def line_end_def)
  have hd: "h \<noteq> []" "hd h \<notin> {10, 35}" using assms by (auto simp: host_token_ok_def alnum_def)
  show ?thesis
    using h n b hd by (auto simp: known_host_pattern_def asc_def)
qed

definition ascii_text :: "pystr \<Rightarrow> bool" where
  "ascii_text s \<longleftrightarrow> list_all (\<lambda>c. c < 128) s"

lemma ascii_scalar: "ascii_text s \<Longrightarrow> \<forall>c\<in>set s. scalar c"
  by (auto simp: ascii_text_def list_all_iff scalar_def is_surrogate_def)

text \<open>The line appended for a new host names it when the file is read again.\<close>

lemma names_appended:
  assumes "host_token_ok h" "split_ws exported = algo # b64 # rest" "ascii_text exported"
    and "existing = [] \<or> last existing \<in> {10, 13}"
  shows "list_ex (names_host (known_host_pattern h p))
     (splitlines [] (existing @ known_host_pattern h p @ [32] @ algo @ [32] @ b64 @ [10]))"
    and "ascii_text (known_host_pattern h p @ [32] @ algo @ [32] @ b64 @ [10])"
proof -
  let ?pat = "known_host_pattern h p"
  let ?body = "?pat @ [32] @ algo @ [32] @ b64"
  note pat = pattern_word [OF assms(1), of p]
  have word: "\<forall>c\<in>set w. \<not> is_space c \<and> c < 128 \<and> \<not> line_end c" if "w \<in> set (split_ws exported)" for w
  proof
    fix c assume c: "c \<in> set w"
    have "has_sub w exported"
      using split_ws_aux_sub [of w "[]" exported] that by (simp add: split_ws_def)
    then have "c \<in> set exported" using c by (auto simp: has_sub_iff)
    then have "c < 128" using assms(3) by (simp add: ascii_text_def list_all_iff)
    moreover have "\<not> is_space c" using split_ws_tokens [OF that] c by blast
    ultimately show "\<not> is_space c \<and> c < 128 \<and> \<not> line_end c"
      by (auto simp: is_space_def line_end_def)
  qed
  have aw: "\<forall>c\<in>set algo. \<not> is_space c \<and> c < 128 \<and> \<not> line_end c"
    "\<forall>c\<in>set b64. \<not> is_space c \<and> c < 128 \<and> \<not> line_end c"
    using word [of algo] word [of b64] by (simp_all add: assms(2))
  have "list_all (\<lambda>c. \<not> line_end c) ?body"
    using pat aw by (auto simp: list_all_iff line_end_def)
  then have one: "splitlines [] (?body @ [10]) = [?body]"
    using splitlines_one [of ?body "[]"] by simp
  have "list_all (\<lambda>c. \<not> is_space c) ?pat" "44 \<notin> set ?pat" using pat by (auto simp: list_all_iff)
  then have "split_ws ?body = ?pat # split_ws_aux [] (algo @ [32] @ b64)" "split_on 44 ?pat = [?pat]"
    using split_ws_aux_first [of ?pat "[]" "algo @ [32] @ b64"] pat
    by (simp_all add: split_ws_def split_on_whole)
  moreover have "\<not> starts_with [35] ?pat" using pat by (cases ?pat) (auto simp: starts_with_def)
  ultimately have named: "names_host ?pat ?body" by (simp add: names_host_def)
  have t: "take 1 (?body @ [10]) \<noteq> [10]" using pat by (cases ?pat) auto
  show "list_ex (names_host ?pat)
     (splitlines [] (existing @ ?pat @ [32] @ algo @ [32] @ b64 @ [10]))"
  proof (cases "existing = []")
    case True
    then show ?thesis using one named by simp
  next
    case False
    then have "splitlines [] (existing @ ?body @ [10]) = splitlines [] existing @ [?body]"
      using splitlines_break [OF False _ t, of "[]"] assms(4) one by simp
    then show ?thesis using named by simp
  qed
  show "ascii_text (?pat @ [32] @ algo @ [32] @ b64 @ [10])"
    using pat aw by (auto simp: ascii_text_def list_all_iff)
qed

lemma known_after_append:
  assumes "host_token_ok h" "split_ws exported = algo # b64 # rest" "ascii_text exported"
    and "\<forall>c\<in>set existing. scalar c" "\<not> has_sub b64 existing"
    and "file = FileBytes (utf8_encode existing) \<or> file = NoFile \<and> existing = []"
  shows "host_is_known am (persist_host_key exported h p file) h p"
proof -
  define sep where "sep = (if existing \<noteq> [] \<and> last existing \<notin> {10, 13} then [10] else ([]::pystr))"
  let ?line = "known_host_pattern h p @ [32] @ algo @ [32] @ b64 @ [10]"
  have ex: "existing @ sep = [] \<or> last (existing @ sep) \<in> {10, 13}" by (auto simp: sep_def)
  note na = names_appended [OF assms(1-3) ex, of p]
  have sc: "\<forall>c\<in>set ((existing @ sep) @ ?line). scalar c"
    using assms(4) ascii_scalar [OF na(2)] by (auto simp: sep_def scalar_def is_surrogate_def)
  have enc: "utf8_encode a @ utf8_encode b = utf8_encode (a @ b)" for a b
    by (simp add: utf8_encode_def)
  have "persist_host_key exported h p file = FileBytes (utf8_encode ((existing @ sep) @ ?line))"
    using assms(2,4,5,6) decode_encode [OF assms(4)]
    by (auto simp: persist_host_key_def append_known_host_def Let_def enc sep_def)
  then show ?thesis
    using na(1) decode_encode [OF sc]
    by (auto simp: host_is_known_def split: option.splits bool.splits)
qed


text \<open>When the file already holds the same key under another name, the first contact is not
  recorded: every connection to the host, however often repeated, accepts any key.\<close>

theorem shared_key_never_recorded:
  assumes "cp_mode cp = asc ''accept-new''" "split_ws exported = algo # b64 # rest"
    and "\<forall>c\<in>set existing. scalar c" "has_sub b64 existing"
    and "\<not> host_is_known am (FileBytes (utf8_encode existing)) (cp_hostname cp) (cp_port cp)"
  shows "\<exists>opts. dial s am path cfg tmo cp
       ((file_after_dial am exported cp ^^ n) (FileBytes (utf8_encode existing))) = Inr opts \<and>
     co_known_hosts opts = None"
proof -
  let ?f = "FileBytes (utf8_encode existing)"
  have "persist_host_key exported (cp_hostname cp) (cp_port cp) ?f = ?f"
    using assms(2,4) decode_encode [OF assms(3)]
    by (simp add: persist_host_key_def append_known_host_def Let_def)
  then have same: "file_after_dial am exported cp ?f = ?f" by (simp add: file_after_dial_def)
  have "(file_after_dial am exported cp ^^ n) ?f = ?f" by (induction n) (simp_all add: same)
  then show ?thesis
    using assms(1,5) by (simp add: dial_def connect_opts_of_def known_hosts_arg_def KNOWN_HOSTS_MODES_def)
qed

subsection \<open>Forwards\<close>

lemma upper_strip: "strip (upper s) = upper (strip s)"
proof -
  have sp: "is_space (upper_char c) = is_space c" for c
    by (auto simp: is_space_def upper_char_def)
  have "dropWhile is_space (map upper_char t) = map upper_char (dropWhile is_space t)" for t
    by (induction t) (simp_all add: sp)
  then show ?thesis by (simp add: strip_def lstrip_def rstrip_def upper_def rev_map)
qed

lemma split_on_partition:
  "partition_on sep s = (a, f, b) \<Longrightarrow> split_on sep s = (if f then a # split_on sep b else [a])"
  using partition_on_shape [of sep s a f b]
  by (auto simp: split_on_append_sep split_on_whole)

text \<open>The host a forward will dial, as the pool parses it, is the host the policy text is
  widened with; so an address a forward dials is shown in dotted form however it was spelled.\<close>

theorem forward_destination_agrees:
  assumes "parse_forward_spec spec = Inr (kind, lport, dhost, dport)"
  shows "forward_dhost spec = dhost \<and>
    (dhost = spell_address parts \<longrightarrow> parts_fit parts \<longrightarrow> ipish_parts parts \<longrightarrow>
       shown [inet_ntoa (address_bytes parts)] (policy_text_ssh_forward ip6 spec host jump))"
proof -
  obtain k f rest where p: "partition_on 58 spec = (k, f, rest)" using prod_cases3 by blast
  let ?k = "strip (upper k)"
  have agree: "forward_dhost spec = dhost"
  proof (cases "?k \<in> {asc ''L'', asc ''R''}")
    case True
    then obtain lp dp where r: "split_on 58 rest = [lp, dhost, dp]"
      using assms p
      by (auto simp: parse_forward_spec_def Let_def split: list.splits option.splits)
    then have f by (metis partition_on_shape [OF p] list.distinct(1) split_on.simps(1) list.inject)
    then have "split_on 58 spec = [k, lp, dhost, dp]" using split_on_partition [OF p] r by simp
    then show ?thesis using True by (simp add: forward_dhost_def upper_strip)
  next
    case False
    then have "?k = asc ''D''" "dhost = []"
      using assms p by (auto simp: parse_forward_spec_def Let_def split: option.splits if_splits)
    moreover have "hd (split_on 58 spec) = k" using split_on_partition [OF p] by simp
    ultimately show ?thesis by (auto simp: forward_dhost_def Let_def upper_strip hd_conv_nth)
  qed
  have "shown [inet_ntoa (address_bytes parts)] (policy_text_ssh_forward ip6 spec host jump)"
    if a: "dhost = spell_address parts" "parts_fit parts" "ipish_parts parts"
  proof -
    obtain u hops where j: "with_jump (asc ''forward '' @ spec) jump = (u, hops)" by fastforce
    let ?t = "if host \<noteq> [] then u @ [10] @ host else u"
    have sub: "has_sub dhost spec"
    proof -
      have "has_sub (forward_dhost spec) (join [58] (split_on 58 spec))"
        unfolding forward_dhost_def Let_def by (auto intro!: has_sub_join)
      then show ?thesis by (simp add: agree join_split_on)
    qed
    have "has_sub dhost u"
      using with_jump_sub [OF j] has_sub_trans [OF has_sub_right [OF sub]] by blast
    then have "has_sub dhost ?t" by (auto simp: has_sub_intros)
    then have "has_sub (inet_ntoa (address_bytes parts)) q"
      if "with_canonical_ips ip6 ?t (forward_dhost spec # (if host \<noteq> [] then [host] else []) @ hops) = Inr q" for q
      using address_visible [OF that a(2,3)] agree a(1) by simp
    then show ?thesis
      using j by (auto simp: shown_def policy_text_ssh_forward_def split: sum.splits)
  qed
  with agree show ?thesis by blast
qed

subsection \<open>Where the text falls short\<close>

text \<open>An address written after a user name is not recognised: the policy sees only the spelling
  the caller chose, while the pool strips the user name and dials the address itself.\<close>

theorem userinfo_hides_address:
  assumes "user_token_ok user" "46 \<notin> set user" "\<not> starts_with (asc ''0x'') (lower user)"
    and "65535 < n" "n < 4294967296" "\<And>t. 64 \<in> set t \<Longrightarrow> ip6 t = None"
    and "\<not> knows iv (user @ [64] @ digits n)"
  shows "policy_text_ssh_exec ip6 (user @ [64] @ digits n) command [] =
       Inr (command @ [10] @ user @ [64] @ digits n) \<and>
     target_error iv (user @ [64] @ digits n) = None \<and>
     hs_hostname (resolve iv (user @ [64] @ digits n)) = digits n \<and>
     inet_aton (digits n) = Some (be_bytes 4 n)"
proof -
  let ?t = "user @ [64] @ digits n"
  have uc: "alnum c \<or> c \<in> {46, 95, 45}" if "c \<in> set user" for c
    using user_token_chars [OF assms(1) that] .
  have dc: "is_digit c" if "c \<in> set (digits n)" for c using digits_are_digits [OF that] .
  have tc: "\<not> is_space c \<and> c \<noteq> 91 \<and> c \<noteq> 93" if "c \<in> set ?t" for c
    using that uc dc by (fastforce simp: alnum_def is_space_def is_digit_def)
  have at1: "64 \<notin> set user" using uc by fastforce
  have "46 \<notin> set ?t" using assms(2) dc by (fastforce simp: is_digit_def)
  moreover have "\<not> starts_with (asc ''0x'') (lower ?t)"
  proof -
    obtain a r where u: "user = a # r" using assms(1) by (cases user) (auto simp: user_token_ok_def)
    show ?thesis using assms(3) unfolding u
      by (cases r) (auto simp: starts_with_def asc_0x lower_def lower_char_def)
  qed
  moreover have "\<not> str_isdigit ?t" by (simp add: str_isdigit_def is_digit_def)
  ultimately have ip: "looks_ipish ?t = Inr False" by (simp add: looks_ipish_def)
  have st: "strip_brackets (strip ?t) = ?t"
  proof -
    have "strip ?t = ?t" by (rule strip_clean) (use tc in blast)
    moreover have "strip_brackets ?t = ?t" by (rule strip_brackets_clean) (use tc in blast)+
    ultimately show ?thesis by simp
  qed
  have "split_on 46 ?t = [?t]" using \<open>46 \<notin> set ?t\<close> by (rule split_on_whole)
  then have "ip_address ip6 ?t = None" using assms(6) by (simp add: ip_address_def)
  then have can: "canonical_ips ip6 ?t = Inr []"
    using st ip by (simp add: canonical_ips_def Let_def fromkeys_def)
  have "policy_text_ssh_exec ip6 ?t command [] = Inr (command @ [10] @ ?t)"
    using can by (simp add: policy_text_ssh_exec_def with_jump_def with_canonical_ips_def
        MAX_CANON_TOKENS_def add_forms_def)
  moreover have res: "resolve iv ?t = (explicit_spec ?t (digits n))\<lparr>hs_user := JStr user\<rparr>"
  proof -
    have "dget (in_hosts iv) ?t = None" using assms(7) by (simp add: knows_def)
    then show ?thesis
      using at1 assms(1) partition_on_found [of 64 user "digits n"]
      by (simp add: resolve_def user_token_ok_def)
  qed
  moreover have "target_error iv ?t = None"
  proof -
    have "n < 10 ^ Suc 9" using assms(5) by simp
    then have "length (digits n) \<le> 10" using digits_in_length [of n 10 9] digits_in_10 by simp
    moreover have "alnum c" if "c \<in> set (digits n)" for c
      using dc [OF that] by (simp add: alnum_def is_digit_def)
    ultimately have "host_token_ok (digits n)"
      by (cases "digits n") (auto simp: host_token_ok_def list_all_iff)
    then show ?thesis
      using res at1 assms(1) partition_on_found [of 64 user "digits n"]
      by (simp add: target_error_def check_tokens_None explicit_spec_def)
  qed
  moreover have "inet_aton (digits n) = Some (be_bytes 4 n)"
    using inet_aton_spell [of "[(Dec, n)]"] assms(5)
    by (simp add: parts_fit_def spell_address_def digits_in_10 address_bytes_def)
  ultimately show ?thesis by (simp add: explicit_spec_def)
qed

text \<open>A superscript digit is a digit to \<open>isdigit\<close> but not to \<open>int\<close>: the probe text of a call with
  such a host is never built, and an inventory with such a port does not load.\<close>

lemma superscript_host_raises:
  assumes "ip6 [178] = None"
  shows "policy_text_ssh_exec ip6 [178] command [] = Inl ValueError"
proof -
  have "canonical_ips ip6 [178] = Inl ValueError"
    using assms by (simp add: canonical_ips_def strip_brackets_def strip_def lstrip_def rstrip_def
        is_space_def ip_address_def looks_ipish_def starts_with_def lower_def lower_char_def asc_def
        str_isdigit_def int_of_digits_def is_digit_def)
  then show ?thesis
    by (simp add: policy_text_ssh_exec_def with_jump_def with_canonical_ips_def MAX_CANON_TOKENS_def)
qed

lemma superscript_port_raises: "inventory_port (JStr [178]) = Inl ValueError"
  by (simp add: inventory_port_def str_isdigit_def int_of_digits_def is_digit_def)

text \<open>The cache key of an unset port is that of port 22, though only the set port overrides the
  configuration file.\<close>

lemma unset_port_shares_key:
  assumes "connect_opts_of s path cfg kn tmo (cp\<lparr>cp_port := 0\<rparr>) = Inr a"
    and "connect_opts_of s path cfg kn tmo (cp\<lparr>cp_port := 22\<rparr>) = Inr b"
  shows "conn_key h u 0 m k j = conn_key h u 22 m k j \<and> co_port a = None \<and> co_port b = Some 22"
  using assms by (auto simp: conn_key_def connect_opts_of_def split: sum.splits)

subsection \<open>Witnesses\<close>

definition no_inventory :: inventory_state where
  "no_inventory = \<lparr>in_hosts = [], in_config_hosts = []\<rparr>"

definition sample_kwargs :: "pystr \<Rightarrow> connect_kwargs" where
  "sample_kwargs known_hosts =
     \<lparr>ck_user = asc ''root'', ck_port = 0, ck_key_path = [], ck_known_hosts = known_hosts,
      ck_jump = asc ''ops@bastion:2222'', ck_connect_timeout = 0\<rparr>"

definition sample_plan :: connect_plan where
  "sample_plan =
     \<lparr>cp_hostname = asc ''db1'', cp_user = JStr (asc ''root''), cp_port = 0, cp_identity = JStr [],
      cp_jump = JStr (asc ''ops@bastion:2222''), cp_mode = asc ''accept-new'',
      cp_key = conn_key (asc ''db1'') (asc ''root'') 0 (asc ''accept-new'') [] (asc ''ops@bastion:2222'')\<rparr>"

definition lenient_settings :: settings where
  "lenient_settings = default_settings\<lparr>ssh_known_hosts := asc ''accept-new'',
     ssh_allow_weaker_known_hosts := False\<rparr>"

lemma sample_planned:
  "plan_connect (\<lambda>_. []) lenient_settings no_inventory (asc ''db1'') (sample_kwargs (asc ''Accept-New''))
     = Inr sample_plan"
  by code_simp

lemma host_keys_not_weakened_witness:
  "(\<exists>opts. dial lenient_settings (\<lambda>_ _ _. Some False) (asc ''/kh'') None 0 sample_plan NoFile = Inr opts \<and>
     co_known_hosts opts = None) \<and>
   known_hosts_weakness (cp_mode sample_plan) \<le> known_hosts_weakness (ssh_known_hosts lenient_settings)"
proof -
  have d: "\<exists>opts. dial lenient_settings (\<lambda>_ _ _. Some False) (asc ''/kh'') None 0 sample_plan NoFile = Inr opts"
    by (simp add: dial_def connect_opts_of_def known_hosts_arg_def KNOWN_HOSTS_MODES_def sample_plan_def)
  then obtain opts where o: "dial lenient_settings (\<lambda>_ _ _. Some False) (asc ''/kh'') None 0 sample_plan NoFile
      = Inr opts" by blast
  have s: "\<not> ssh_allow_weaker_known_hosts lenient_settings"
    "ssh_known_hosts lenient_settings \<in> set KNOWN_HOSTS_MODES"
    "ck_known_hosts (sample_kwargs (asc ''Accept-New'')) \<noteq> []"
    by (simp_all add: lenient_settings_def KNOWN_HOSTS_MODES_def sample_kwargs_def)
  have "co_known_hosts opts = None \<and>
      known_hosts_weakness (cp_mode sample_plan) \<le> known_hosts_weakness (ssh_known_hosts lenient_settings)"
    using host_keys_not_weakened [OF sample_planned o s(1,2)] s(3)
    by (simp add: sample_plan_def host_is_known_def)
  with o show ?thesis by blast
qed

lemma caller_tokens_plain_witness:
  "argv_safe (cp_hostname sample_plan) \<and> cp_jump sample_plan = JStr (asc ''ops@bastion:2222'')"
proof -
  have "\<not> knows no_inventory (asc ''db1'')" by (simp add: knows_def no_inventory_def)
  then show ?thesis
    using caller_tokens_plain [OF sample_planned] by (simp add: sample_kwargs_def)
qed

definition sample_key :: pystr where
  "sample_key = asc ''ssh-ed25519 AAAAC3Nz relay''"


lemma shared_key_never_recorded_witness:
  "\<exists>opts. dial lenient_settings (\<lambda>_ _ _. Some False) (asc ''/kh'') None 0 sample_plan
      ((file_after_dial (\<lambda>_ _ _. Some False) sample_key sample_plan ^^ 7)
        (FileBytes (utf8_encode (asc ''web1 ssh-ed25519 AAAAC3Nz'')))) = Inr opts \<and>
     co_known_hosts opts = None"
proof -
  let ?old = "asc ''web1 ssh-ed25519 AAAAC3Nz''"
  have w: "split_ws sample_key = asc ''ssh-ed25519'' # asc ''AAAAC3Nz'' # [asc ''relay'']" by code_simp
  have c: "cp_mode sample_plan = asc ''accept-new''" "has_sub (asc ''AAAAC3Nz'') ?old"
    "\<not> names_host (known_host_pattern (cp_hostname sample_plan) (cp_port sample_plan)) ?old"
    by code_simp+
  have lines: "splitlines [] ?old = [?old]" by (simp add: asc_def line_end_def)
  have dec: "utf8_decode (utf8_encode ?old) = ?old" by (rule decode_encode) simp
  have "\<not> host_is_known (\<lambda>_ _ _. Some False) (FileBytes (utf8_encode ?old)) (cp_hostname sample_plan)
      (cp_port sample_plan)"
    using c(3) by (simp add: host_is_known_def dec lines)
  note c = c(1,2) this
  show ?thesis by (rule shared_key_never_recorded [OF c(1) w _ c(2,3)]) simp
qed

lemma forward_destination_agrees_witness:
  "forward_dhost (asc ''L:8080:0xa9.0376.43518:80'') = asc ''0xa9.0376.43518'' \<and>
   shown [asc ''169.254.169.254'']
     (policy_text_ssh_forward (\<lambda>_. None) (asc ''L:8080:0xa9.0376.43518:80'') (asc ''db1'') [])"
proof -
  let ?s = "[(Hex, 169), (Oct, 254), (Dec, 43518)]"
  have p: "parse_forward_spec (asc ''L:8080:0xa9.0376.43518:80'') =
      Inr (asc ''L'', 8080, asc ''0xa9.0376.43518'', 80)"
    by code_simp
  have a: "asc ''0xa9.0376.43518'' = spell_address ?s" "parts_fit ?s" "ipish_parts ?s"
      "address_bytes ?s = [169, 254, 169, 254]"
    by (simp_all add: spell_address_def digits_in.simps digit_char_def asc_def parts_fit_def
        address_bytes_def be_bytes_small)
  have n: "inet_ntoa [169, 254, 169, 254] = asc ''169.254.169.254''" by code_simp
  show ?thesis
    using forward_destination_agrees [OF p, of ?s "\<lambda>_. None" "asc ''db1''" "[]"] a(1-3)
    unfolding a(4) n by blast
qed

lemma userinfo_hides_address_witness:
  "policy_text_ssh_exec (\<lambda>_. None) (asc ''root@'' @ digits 2852039166) (asc ''id'') [] =
     Inr (asc ''id'' @ [10] @ asc ''root@'' @ digits 2852039166) \<and>
   \<not> has_sub (asc ''169.254.169.254'') (asc ''id'' @ [10] @ asc ''root@2852039166'') \<and>
   inet_aton (digits 2852039166) = Some [169, 254, 169, 254]"
proof -
  have u: "user_token_ok (asc ''root'')" "46 \<notin> set (asc ''root'')"
    "\<not> starts_with (asc ''0x'') (lower (asc ''root''))"
    "\<not> has_sub (asc ''169.254.169.254'') (asc ''id'' @ [10] @ asc ''root@2852039166'')"
    by code_simp+
  have k: "\<not> knows no_inventory t" for t by (simp add: knows_def no_inventory_def)
  have e: "asc ''root@'' = asc ''root'' @ [64]" by (simp add: asc_def)
  have b: "be_bytes 4 2852039166 = [169, 254, 169, 254]" by (simp add: be_bytes_small)
  show ?thesis
    using userinfo_hides_address [OF u(1-3), of 2852039166 "\<lambda>_. None" no_inventory "asc ''id''"]
      k u(4) by (simp add: e b)
qed

end
