(* ===== verification/SshPoolProps.thy ===== *)
theory SshPoolProps
  imports SshPool SshConnectProps
begin

text \<open>
  The pool as a machine: an event is one step of some caller, of the peer or of the operator. The
  machine keeps, beside the pool, what the callers hold: the connects in flight (\<open>pr_owners\<close>), the
  pins of running operations (\<open>pr_held\<close>) and every connection ever opened. An event that no caller
  could perform in the state does nothing.
\<close>

record pool_caps =
  pc_conns :: int
  pc_forwards :: int
  pc_idle :: real

record pool_run =
  pr_pool :: pool
  pr_owners :: "(nat \<times> pystr) list"
  pr_held :: "nat list"
  pr_dialled :: "nat list"
  pr_shut :: bool

datatype pool_event =
    Begin pystr real
  | Fail nat bool
  | Connect nat nat real
  | PeerClosed nat
  | Pin nat real
  | Unpin nat real
  | Forward forward_handle real
  | ForwardClose pystr real
  | CloseAll

definition start_run :: pool_run where
  "start_run = \<lparr>pr_pool = new_pool, pr_owners = [], pr_held = [], pr_dialled = [], pr_shut = False\<rparr>"

definition drop_owner :: "nat \<Rightarrow> (nat \<times> pystr) list \<Rightarrow> (nat \<times> pystr) list" where
  "drop_owner f os = filter (\<lambda>x. fst x \<noteq> f) os"

definition on_pool :: "(pool \<Rightarrow> pool) \<Rightarrow> pool_run \<Rightarrow> pool_run" where
  "on_pool g r = r\<lparr>pr_pool := g (pr_pool r)\<rparr>"

fun pool_step :: "pool_caps \<Rightarrow> pool_run \<Rightarrow> pool_event \<Rightarrow> pool_run" where
  "pool_step C r (Begin key now) =
     (case connect_begin (pc_idle C) key now (pr_pool r) of
        (Own f, p) \<Rightarrow> r\<lparr>pr_pool := p, pr_owners := (f, key) # pr_owners r\<rparr>
      | (_, p) \<Rightarrow> r\<lparr>pr_pool := p\<rparr>)"
| "pool_step C r (Fail f cancelled) =
     (case map_of (pr_owners r) f of
        None \<Rightarrow> r
      | Some key \<Rightarrow> r\<lparr>pr_pool := connect_failed key f cancelled (pr_pool r),
                     pr_owners := drop_owner f (pr_owners r)\<rparr>)"
| "pool_step C r (Connect f conn now) =
     (case map_of (pr_owners r) f of
        None \<Rightarrow> r
      | Some key \<Rightarrow>
          if conn \<in> set (pr_dialled r) then r
          else r\<lparr>pr_pool := snd (connect_done (pc_conns C) key f conn now (pr_pool r)),
                 pr_owners := drop_owner f (pr_owners r), pr_dialled := conn # pr_dialled r\<rparr>)"
| "pool_step C r (PeerClosed c) = on_pool (\<lambda>p. p\<lparr>pl_dead := c # pl_dead p\<rparr>) r"
| "pool_step C r (Pin conn now) =
     (case pin conn now (pr_pool r) of
        (None, p) \<Rightarrow> r\<lparr>pr_pool := p\<rparr>
      | (Some e, p) \<Rightarrow> r\<lparr>pr_pool := p, pr_held := e # pr_held r\<rparr>)"
| "pool_step C r (Unpin e now) =
     (if e \<in> set (pr_held r)
      then r\<lparr>pr_pool := unpin (Some e) now (pr_pool r), pr_held := remove1 e (pr_held r)\<rparr> else r)"
| "pool_step C r (Forward h now) =
     (if (case fh_entry h of None \<Rightarrow> True | Some e \<Rightarrow> e \<in> set (pr_held r)) \<and>
         dget (pl_forwards (pr_pool r)) (fh_id h) = None
      then r\<lparr>pr_pool := snd (forward_track (pc_forwards C) h now (pr_pool r)),
             pr_held := (case fh_entry h of None \<Rightarrow> pr_held r | Some e \<Rightarrow> remove1 e (pr_held r))\<rparr>
      else r)"
| "pool_step C r (ForwardClose fid now) = on_pool (\<lambda>p. snd (forward_close fid now p)) r"
| "pool_step C r CloseAll = (on_pool close_all r)\<lparr>pr_shut := True\<rparr>"

definition pool_runs :: "pool_caps \<Rightarrow> pool_event list \<Rightarrow> pool_run" where
  "pool_runs C es = run (pool_step C) start_run es"

subsection \<open>The invariant\<close>

abbreviation conn_ids :: "pool \<Rightarrow> nat set" where
  "conn_ids p \<equiv> entry_conn p ` snd ` set (pl_conns p)"

definition wf_pool :: "pool_run \<Rightarrow> bool" where
  "wf_pool r = (let p = pr_pool r in
     dwf (pl_conns p) \<and> dwf (pl_pending p) \<and> dwf (pl_forwards p) \<and>
     distinct (map snd (pl_conns p)) \<and>
     (\<forall>e\<in>snd ` set (pl_conns p). e < length (pl_entries p)) \<and>
     distinct (map pe_conn (pl_entries p)) \<and>
     pe_conn ` set (pl_entries p) \<subseteq> set (pr_dialled r) \<and> set (pl_closed p) \<subseteq> set (pr_dialled r) \<and>
     conn_ids p \<inter> set (pl_closed p) = {})"

text \<open>Single flight: a slot belongs to exactly one connect in flight, and its key has no live cached
  connection; a future that is waiting has its owner.\<close>

definition flights_ok :: "pool_run \<Rightarrow> bool" where
  "flights_ok r = (let p = pr_pool r in
     distinct (map fst (pr_owners r)) \<and>
     (\<forall>(f, k)\<in>set (pr_owners r). f < length (pl_futures p) \<and>
        (pl_futures p ! f = Waiting \<and> dget (pl_pending p) k = Some f \<or>
         pl_futures p ! f = FutureCancelled)) \<and>
     (\<forall>k f. dget (pl_pending p) k = Some f \<longrightarrow>
        (f, k) \<in> set (pr_owners r) \<and> pl_futures p ! f = Waiting) \<and>
     (\<forall>f<length (pl_futures p). pl_futures p ! f = Waiting \<longrightarrow> f \<in> fst ` set (pr_owners r)) \<and>
     (\<forall>k f e. dget (pl_pending p) k = Some f \<longrightarrow> dget (pl_conns p) k = Some e \<longrightarrow>
        conn_is_closed p (entry_conn p e)))"

definition no_leak :: "pool_run \<Rightarrow> bool" where
  "no_leak r = (\<forall>c\<in>set (pr_dialled r).
     conn_is_closed (pr_pool r) c \<or> c \<in> conn_ids (pr_pool r))"

definition forward_pins :: "pool \<Rightarrow> nat \<Rightarrow> nat" where
  "forward_pins p e = length (filter (\<lambda>(k, h). fh_entry h = Some e) (pl_forwards p))"

text \<open>The pins a running operation or a tracked forward has on an entry.\<close>

definition holders :: "pool_run \<Rightarrow> nat \<Rightarrow> nat" where
  "holders r e = count_list (pr_held r) e + forward_pins (pr_pool r) e"

definition pins_ok :: "pool_run \<Rightarrow> bool" where
  "pins_ok r = (let p = pr_pool r in
     (\<forall>e. 0 < holders r e \<longrightarrow> e < length (pl_entries p) \<and> holders r e \<le> pe_pins (pl_entries p ! e) \<and>
        (pr_shut r \<or> entry_conn p e \<in> set (pl_dead p) \<or>
         e \<in> snd ` set (pl_conns p) \<and> entry_conn p e \<notin> set (pl_closed p))))"

definition pool_inv :: "pool_run \<Rightarrow> bool" where
  "pool_inv r \<longleftrightarrow> wf_pool r \<and> flights_ok r \<and> no_leak r \<and> pins_ok r"

lemma pool_inv_start: "pool_inv start_run"
  by (simp add: pool_inv_def wf_pool_def flights_ok_def no_leak_def pins_ok_def start_run_def
      new_pool_def holders_def forward_pins_def Let_def)

lemma entry_conn_simps [simp]:
  "entry_conn (p\<lparr>pl_conns := a\<rparr>) e = entry_conn p e"
  "entry_conn (p\<lparr>pl_closed := cs\<rparr>) e = entry_conn p e"
  "entry_conn (p\<lparr>pl_pending := pd\<rparr>) e = entry_conn p e"
  "entry_conn (p\<lparr>pl_futures := fs\<rparr>) e = entry_conn p e"
  "entry_conn (p\<lparr>pl_forwards := fw\<rparr>) e = entry_conn p e"
  "entry_conn (p\<lparr>pl_closed_listeners := ls\<rparr>) e = entry_conn p e"
  "entry_conn (p\<lparr>pl_dead := ds\<rparr>) e = entry_conn p e"
  by (simp_all add: entry_conn_def)

lemma wf_poolD:
  assumes "wf_pool r"
  shows "e \<in> snd ` set (pl_conns (pr_pool r)) \<Longrightarrow> e < length (pl_entries (pr_pool r))"
    and "e < length (pl_entries (pr_pool r)) \<Longrightarrow> entry_conn (pr_pool r) e \<in> set (pr_dialled r)"
    and "e < length (pl_entries (pr_pool r)) \<Longrightarrow> e' < length (pl_entries (pr_pool r)) \<Longrightarrow>
      entry_conn (pr_pool r) e = entry_conn (pr_pool r) e' \<longleftrightarrow> e = e'"
proof -
  have w: "\<forall>e\<in>snd ` set (pl_conns (pr_pool r)). e < length (pl_entries (pr_pool r))"
    "distinct (map pe_conn (pl_entries (pr_pool r)))"
    "pe_conn ` set (pl_entries (pr_pool r)) \<subseteq> set (pr_dialled r)"
    using assms unfolding wf_pool_def Let_def by blast+
  show "e \<in> snd ` set (pl_conns (pr_pool r)) \<Longrightarrow> e < length (pl_entries (pr_pool r))"
    using w(1) by blast
  show "e < length (pl_entries (pr_pool r)) \<Longrightarrow> entry_conn (pr_pool r) e \<in> set (pr_dialled r)"
    using w(3) unfolding entry_conn_def by auto
  show "e < length (pl_entries (pr_pool r)) \<Longrightarrow> e' < length (pl_entries (pr_pool r)) \<Longrightarrow>
      entry_conn (pr_pool r) e = entry_conn (pr_pool r) e' \<longleftrightarrow> e = e'"
    using nth_eq_iff_index_eq [OF w(2)] unfolding entry_conn_def by simp
qed

lemma wf_intro:
  assumes "pr_pool r = p" "pr_dialled r = ds"
    and "dwf (pl_conns p)" "dwf (pl_pending p)" "dwf (pl_forwards p)" "distinct (map snd (pl_conns p))"
    and "\<forall>e\<in>snd ` set (pl_conns p). e < length (pl_entries p)"
    and "distinct (map pe_conn (pl_entries p))" "pe_conn ` set (pl_entries p) \<subseteq> set ds"
    and "set (pl_closed p) \<subseteq> set ds" "conn_ids p \<inter> set (pl_closed p) = {}"
  shows "wf_pool r"
  unfolding wf_pool_def Let_def assms(1,2) using assms(3-) by (intro conjI)

lemma wf_dicts:
  assumes "wf_pool r"
  shows "dwf (pl_conns (pr_pool r))" "dwf (pl_pending (pr_pool r))" "dwf (pl_forwards (pr_pool r))"
    "distinct (map snd (pl_conns (pr_pool r)))" "distinct (map pe_conn (pl_entries (pr_pool r)))"
    "pe_conn ` set (pl_entries (pr_pool r)) \<subseteq> set (pr_dialled r)"
    "set (pl_closed (pr_pool r)) \<subseteq> set (pr_dialled r)"
    "conn_ids (pr_pool r) \<inter> set (pl_closed (pr_pool r)) = {}"
  using assms unfolding wf_pool_def Let_def by blast+

subsection \<open>Dropping entries from the cache\<close>

text \<open>Sweeping and eviction drop the entries \<open>P\<close> selects and close their connections.\<close>

definition drop_entries :: "(pystr \<times> nat \<Rightarrow> bool) \<Rightarrow> nat list \<Rightarrow> pool \<Rightarrow> pool" where
  "drop_entries P cs p =
     p\<lparr>pl_conns := filter (\<lambda>x. \<not> P x) (pl_conns p), pl_closed := pl_closed p @ cs\<rparr>"

lemma inv_drop_entries:
  assumes inv: "pool_inv r" and p: "p = pr_pool r"
    and cs: "set cs = entry_conn p ` snd ` {x \<in> set (pl_conns p). P x}"
    and free: "\<And>k e. (k, e) \<in> set (pl_conns p) \<Longrightarrow> P (k, e) \<Longrightarrow>
      conn_is_closed p (entry_conn p e) \<or> pe_pins (pl_entries p ! e) = 0"
  shows "pool_inv (r\<lparr>pr_pool := drop_entries P cs p\<rparr>)"
proof -
  let ?p = "drop_entries P cs p" and ?r = "r\<lparr>pr_pool := drop_entries P cs p\<rparr>"
  have wf: "wf_pool r" and fl: "flights_ok r" and nl: "no_leak r" and pk: "pins_ok r"
    using inv by (simp_all add: pool_inv_def)
  note wfd = wf_poolD [OF wf, folded p]
  have ec: "entry_conn ?p e = entry_conn p e" for e by (simp add: drop_entries_def)
  have sub: "set (pl_conns ?p) \<subseteq> set (pl_conns p)" by (auto simp: drop_entries_def)
  have same: "pl_entries ?p = pl_entries p" "pl_pending ?p = pl_pending p"
    "pl_futures ?p = pl_futures p" "pl_forwards ?p = pl_forwards p" "pl_dead ?p = pl_dead p"
    by (simp_all add: drop_entries_def)
  have dw: "dwf (pl_conns p)" "dwf (pl_conns ?p)"
    using wf p by (simp_all add: wf_pool_def Let_def drop_entries_def)
  have get: "dget (pl_conns ?p) k = Some e \<Longrightarrow> dget (pl_conns p) k = Some e" for k e
    using sub dw by (meson in_set_dget subsetD)
  have mono: "conn_is_closed p c \<Longrightarrow> conn_is_closed ?p c" for c
    by (auto simp: conn_is_closed_def drop_entries_def)
  have inc: "set cs \<subseteq> set (pr_dialled r)" using wfd(1,2) by (auto simp: cs)
  have "wf_pool ?r"
  proof -
    have "distinct (map snd (pl_conns ?p))"
      using wf p by (simp add: wf_pool_def Let_def drop_entries_def distinct_map_filter)
    moreover have "conn_ids ?p \<inter> set (pl_closed ?p) = {}"
    proof (rule ccontr)
      assume "conn_ids ?p \<inter> set (pl_closed ?p) \<noteq> {}"
      then obtain x where x: "x \<in> set (pl_conns ?p)" "entry_conn p (snd x) \<in> set (pl_closed ?p)"
        using ec by auto
      then have "x \<in> set (pl_conns p) \<and> \<not> P x \<and>
          (entry_conn p (snd x) \<in> set (pl_closed p) \<or> entry_conn p (snd x) \<in> set cs)"
        by (auto simp: drop_entries_def)
      moreover obtain k e where "x = (k, e)" by fastforce
      ultimately have ke: "(k, e) \<in> set (pl_conns p)" "\<not> P (k, e)"
        "entry_conn p e \<in> set (pl_closed p) \<or> entry_conn p e \<in> set cs" by simp_all
      have "entry_conn p e \<notin> set (pl_closed p)"
        using wf ke(1) by (force simp: wf_pool_def Let_def p [symmetric])
      then obtain k' e' where k': "(k', e') \<in> set (pl_conns p)" "P (k', e')"
        "entry_conn p e = entry_conn p e'" using ke(3) by (auto simp: cs)
      then have "e = e'" using wfd(1,3) ke(1) by (metis image_eqI snd_conv)
      moreover have "distinct (map snd (pl_conns p))"
        using wf by (simp add: wf_pool_def Let_def p [symmetric])
      ultimately have "(k, e) = (k', e')"
        using ke(1) k'(1) by (metis distinct_map inj_onD snd_conv)
      with ke(2) k'(2) show False by simp
    qed
    ultimately show ?thesis
      using wf p dw sub same inc
      by (auto simp: wf_pool_def Let_def drop_entries_def)
  qed
  moreover have "flights_ok ?r"
  proof -
    have D: "\<forall>k f e. dget (pl_pending p) k = Some f \<longrightarrow> dget (pl_conns p) k = Some e \<longrightarrow>
        conn_is_closed p (entry_conn p e)"
      using fl by (simp add: flights_ok_def Let_def p)
    have "\<forall>k. (\<exists>f. dget (pl_pending p) k = Some f) \<longrightarrow>
        (\<forall>e. dget (pl_conns ?p) k = Some e \<longrightarrow> conn_is_closed ?p (entry_conn p e))"
    proof (intro allI impI, elim exE)
      fix k e f assume "dget (pl_conns ?p) k = Some e" "dget (pl_pending p) k = Some f"
      then have "conn_is_closed p (entry_conn p e)" using D get [of k e] by blast
      then show "conn_is_closed ?p (entry_conn p e)" by (rule mono)
    qed
    then show ?thesis
      using fl by (simp add: flights_ok_def Let_def same ec p [symmetric])
  qed
  moreover have "no_leak ?r"
    unfolding no_leak_def
  proof
    fix c assume "c \<in> set (pr_dialled ?r)"
    then have "conn_is_closed p c \<or> c \<in> conn_ids p" using nl p by (simp add: no_leak_def)
    then show "conn_is_closed (pr_pool ?r) c \<or> c \<in> conn_ids (pr_pool ?r)"
    proof
      assume "conn_is_closed p c"
      then show ?thesis using mono by simp
    next
      assume "c \<in> conn_ids p"
      then obtain x where x: "x \<in> set (pl_conns p)" "c = entry_conn p (snd x)" by auto
      show ?thesis
      proof (cases "P x")
        case True
        then have "c \<in> set cs" using x by (auto simp: cs)
        then show ?thesis by (simp add: conn_is_closed_def drop_entries_def)
      next
        case False
        then have "snd x \<in> snd ` set (pl_conns ?p)" using x by (auto simp: drop_entries_def)
        then show ?thesis using x(2) ec by auto
      qed
    qed
  qed
  moreover have "pins_ok ?r"
    unfolding pins_ok_def Let_def
  proof (intro allI impI)
    fix e assume h: "0 < holders ?r e"
    have he: "holders ?r e = holders r e" by (simp add: holders_def forward_pins_def same p [symmetric])
    have o: "e < length (pl_entries p)" "holders r e \<le> pe_pins (pl_entries p ! e)"
      "pr_shut r \<or> entry_conn p e \<in> set (pl_dead p) \<or>
         e \<in> snd ` set (pl_conns p) \<and> entry_conn p e \<notin> set (pl_closed p)"
      using pk h he p by (simp_all add: pins_ok_def Let_def)
    have "e \<in> snd ` set (pl_conns ?p) \<and> entry_conn p e \<notin> set (pl_closed ?p)"
      if c: "entry_conn p e \<notin> set (pl_dead p)" "e \<in> snd ` set (pl_conns p)"
        "entry_conn p e \<notin> set (pl_closed p)"
    proof -
      have "0 < pe_pins (pl_entries p ! e)" using o(2) h he by simp
      then have np: "\<not> P (k, e)" if "(k, e) \<in> set (pl_conns p)" for k
        using free [OF that] c by (auto simp: conn_is_closed_def)
      have "entry_conn p e \<notin> set cs"
      proof
        assume "entry_conn p e \<in> set cs"
        then obtain k e' where x: "(k, e') \<in> set (pl_conns p)" "P (k, e')"
          "entry_conn p e = entry_conn p e'" by (auto simp: cs)
        then have "e = e'" using wfd(1,3) o(1) by (metis image_eqI snd_conv)
        with x np show False by blast
      qed
      moreover have "e \<in> snd ` set (pl_conns ?p)"
        using c(2) np by (force simp: drop_entries_def)
      ultimately show ?thesis using c(3) by (simp add: drop_entries_def)
    qed
    with o show "e < length (pl_entries (pr_pool ?r)) \<and>
        holders ?r e \<le> pe_pins (pl_entries (pr_pool ?r) ! e) \<and>
        (pr_shut ?r \<or> entry_conn (pr_pool ?r) e \<in> set (pl_dead (pr_pool ?r)) \<or>
         e \<in> snd ` set (pl_conns (pr_pool ?r)) \<and> entry_conn (pr_pool ?r) e \<notin> set (pl_closed (pr_pool ?r)))"
      by (simp add: he same ec) blast
  qed
  ultimately show ?thesis by (simp add: pool_inv_def)
qed

subsection \<open>The end of a connect\<close>

definition end_flight :: "pystr \<Rightarrow> nat \<Rightarrow> future \<Rightarrow> pool \<Rightarrow> pool" where
  "end_flight key f v p =
     (if pl_futures p ! f = Waiting then settle f v (release_slot key f p) else p)"

lemma flightsD:
  assumes "flights_ok r" "(f, k) \<in> set (pr_owners r)"
  shows "f < length (pl_futures (pr_pool r))"
    and "pl_futures (pr_pool r) ! f = Waiting \<and> dget (pl_pending (pr_pool r)) k = Some f \<or>
      pl_futures (pr_pool r) ! f = FutureCancelled"
    and "(f, k') \<in> set (pr_owners r) \<Longrightarrow> k' = k"
proof -
  have o: "\<forall>(f, k)\<in>set (pr_owners r). f < length (pl_futures (pr_pool r)) \<and>
        (pl_futures (pr_pool r) ! f = Waiting \<and> dget (pl_pending (pr_pool r)) k = Some f \<or>
         pl_futures (pr_pool r) ! f = FutureCancelled)"
    "distinct (map fst (pr_owners r))"
    using assms(1) unfolding flights_ok_def Let_def by blast+
  show "f < length (pl_futures (pr_pool r))"
    "pl_futures (pr_pool r) ! f = Waiting \<and> dget (pl_pending (pr_pool r)) k = Some f \<or>
      pl_futures (pr_pool r) ! f = FutureCancelled"
    using o(1) assms(2) by auto
  show "(f, k') \<in> set (pr_owners r) \<Longrightarrow> k' = k"
    using o(2) assms(2) by (metis map_of_is_SomeI option.inject)
qed

lemma flights_pending:
  assumes "flights_ok r" "dget (pl_pending (pr_pool r)) k = Some f"
  shows "(f, k) \<in> set (pr_owners r) \<and> pl_futures (pr_pool r) ! f = Waiting \<and>
    (\<forall>e. dget (pl_conns (pr_pool r)) k = Some e \<longrightarrow>
       conn_is_closed (pr_pool r) (entry_conn (pr_pool r) e))"
  using assms unfolding flights_ok_def Let_def by metis

lemma flights_waiting:
  "flights_ok r \<Longrightarrow> f < length (pl_futures (pr_pool r)) \<Longrightarrow> pl_futures (pr_pool r) ! f = Waiting \<Longrightarrow>
     f \<in> fst ` set (pr_owners r)"
  unfolding flights_ok_def Let_def by blast

lemma flights_distinct: "flights_ok r \<Longrightarrow> distinct (map fst (pr_owners r))"
  unfolding flights_ok_def Let_def by blast

lemma flights_intro:
  assumes "distinct (map fst (pr_owners r))"
    and "\<And>f k. (f, k) \<in> set (pr_owners r) \<Longrightarrow> f < length (pl_futures (pr_pool r)) \<and>
        (pl_futures (pr_pool r) ! f = Waiting \<and> dget (pl_pending (pr_pool r)) k = Some f \<or>
         pl_futures (pr_pool r) ! f = FutureCancelled)"
    and "\<And>k f. dget (pl_pending (pr_pool r)) k = Some f \<Longrightarrow>
        (f, k) \<in> set (pr_owners r) \<and> pl_futures (pr_pool r) ! f = Waiting"
    and "\<And>f. f < length (pl_futures (pr_pool r)) \<Longrightarrow> pl_futures (pr_pool r) ! f = Waiting \<Longrightarrow>
        f \<in> fst ` set (pr_owners r)"
    and "\<And>k f e. dget (pl_pending (pr_pool r)) k = Some f \<Longrightarrow> dget (pl_conns (pr_pool r)) k = Some e \<Longrightarrow>
        conn_is_closed (pr_pool r) (entry_conn (pr_pool r) e)"
  shows "flights_ok r"
  unfolding flights_ok_def Let_def using assms by (auto simp del: split_paired_All)

lemma inv_end_flight:
  assumes inv: "pool_inv r" and p: "p = pr_pool r" and o: "(f, key) \<in> set (pr_owners r)"
    and v: "v \<noteq> Waiting"
  shows "pool_inv (r\<lparr>pr_pool := end_flight key f v p, pr_owners := drop_owner f (pr_owners r)\<rparr>)"
proof -
  let ?p = "end_flight key f v p"
  let ?r = "r\<lparr>pr_pool := ?p, pr_owners := drop_owner f (pr_owners r)\<rparr>"
  have wf: "wf_pool r" and fl: "flights_ok r" and nl: "no_leak r" and pk: "pins_ok r"
    using inv by (simp_all add: pool_inv_def)
  have same: "pl_entries ?p = pl_entries p" "pl_conns ?p = pl_conns p" "pl_forwards ?p = pl_forwards p"
    "pl_closed ?p = pl_closed p" "pl_dead ?p = pl_dead p" "length (pl_futures ?p) = length (pl_futures p)"
    by (simp_all add: end_flight_def settle_def release_slot_def)
  have ec: "entry_conn ?p e = entry_conn p e" "conn_is_closed ?p c = conn_is_closed p c" for e c
    by (simp_all add: entry_conn_def conn_is_closed_def same)
  note od = flightsD [OF fl o, folded p]
  have pend: "pl_pending ?p = (if pl_futures p ! f = Waiting then ddel key (pl_pending p) else pl_pending p)"
    using od(2) by (auto simp: end_flight_def settle_def release_slot_def)
  have fut: "pl_futures ?p = (if pl_futures p ! f = Waiting then (pl_futures p)[f := v] else pl_futures p)"
    by (simp add: end_flight_def settle_def release_slot_def)
  have dw: "dwf (pl_pending p)" using wf p by (simp add: wf_pool_def Let_def)
  have g: "dget (pl_pending ?p) k = Some g \<longleftrightarrow> dget (pl_pending p) k = Some g \<and> g \<noteq> f" for k g
  proof (cases "pl_futures p ! f = Waiting")
    case True
    then have kf: "dget (pl_pending p) key = Some f" using od(2) by auto
    have "k = key" if "dget (pl_pending p) k = Some f"
      using flights_pending [OF fl that [unfolded p]] od(3) by simp
    then show ?thesis using kf by (cases "k = key") (auto simp: pend True)
  next
    case False
    then have "dget (pl_pending p) k \<noteq> Some f"
      using flights_pending [OF fl, of k f, folded p] by auto
    then show ?thesis using False by (auto simp: pend)
  qed
  have "flights_ok ?r"
  proof (rule flights_intro)
    show "distinct (map fst (pr_owners ?r))"
      using flights_distinct [OF fl] by (simp add: drop_owner_def distinct_map_filter)
  next
    fix h k assume a: "(h, k) \<in> set (pr_owners ?r)"
    then have hk: "(h, k) \<in> set (pr_owners r)" "h \<noteq> f" by (auto simp: drop_owner_def)
    then show "h < length (pl_futures (pr_pool ?r)) \<and>
        (pl_futures (pr_pool ?r) ! h = Waiting \<and> dget (pl_pending (pr_pool ?r)) k = Some h \<or>
         pl_futures (pr_pool ?r) ! h = FutureCancelled)"
      using flightsD(1,2) [OF fl hk(1), folded p] g [of k h] hk(2) by (simp add: same fut)
  next
    fix k h assume a: "dget (pl_pending (pr_pool ?r)) k = Some h"
    then have "dget (pl_pending p) k = Some h" "h \<noteq> f" using g by auto
    then show "(h, k) \<in> set (pr_owners ?r) \<and> pl_futures (pr_pool ?r) ! h = Waiting"
      using flights_pending [OF fl, of k h, folded p] by (simp add: drop_owner_def fut)
  next
    fix h assume "h < length (pl_futures (pr_pool ?r))" "pl_futures (pr_pool ?r) ! h = Waiting"
    then have "h < length (pl_futures p)" "pl_futures p ! h = Waiting" "h \<noteq> f"
      using v od(1) by (auto simp: fut same nth_list_update split: if_splits)
    then show "h \<in> fst ` set (pr_owners ?r)"
      using flights_waiting [OF fl, of h, folded p] by (force simp: drop_owner_def)
  next
    fix k h e assume "dget (pl_pending (pr_pool ?r)) k = Some h" "dget (pl_conns (pr_pool ?r)) k = Some e"
    then have "dget (pl_pending p) k = Some h" "dget (pl_conns p) k = Some e" using g same by auto
    then show "conn_is_closed (pr_pool ?r) (entry_conn (pr_pool ?r) e)"
      using flights_pending [OF fl, of k h, folded p] by (simp add: ec)
  qed
  moreover have "wf_pool ?r"
    using wf dw by (simp add: wf_pool_def Let_def same pend ec p [symmetric])
  moreover have "no_leak ?r" using nl by (simp add: no_leak_def same ec p [symmetric])
  moreover have "pins_ok ?r"
    using pk by (simp add: pins_ok_def Let_def same ec holders_def forward_pins_def p [symmetric])
  ultimately show ?thesis by (simp add: pool_inv_def)
qed

lemma invD:
  assumes "pool_inv r"
  shows "wf_pool r" "flights_ok r" "no_leak r" "pins_ok r"
  using assms by (simp_all add: pool_inv_def)

lemma holdersD:
  assumes "pins_ok r" "0 < holders r e"
  shows "e < length (pl_entries (pr_pool r))" "holders r e \<le> pe_pins (pl_entries (pr_pool r) ! e)"
    and "pr_shut r \<or> entry_conn (pr_pool r) e \<in> set (pl_dead (pr_pool r)) \<or>
         e \<in> snd ` set (pl_conns (pr_pool r)) \<and> entry_conn (pr_pool r) e \<notin> set (pl_closed (pr_pool r))"
  using assms unfolding pins_ok_def Let_def by blast+

lemma pins_intro:
  assumes "\<And>e. 0 < holders r e \<Longrightarrow> e < length (pl_entries (pr_pool r)) \<and>
        holders r e \<le> pe_pins (pl_entries (pr_pool r) ! e) \<and>
        (pr_shut r \<or> entry_conn (pr_pool r) e \<in> set (pl_dead (pr_pool r)) \<or>
         e \<in> snd ` set (pl_conns (pr_pool r)) \<and> entry_conn (pr_pool r) e \<notin> set (pl_closed (pr_pool r)))"
  shows "pins_ok r"
  unfolding pins_ok_def Let_def using assms by blast

lemma inv_discard:
  assumes inv: "pool_inv r" and p: "p = pr_pool r" and c: "conn \<notin> set (pr_dialled r)"
  shows "pool_inv (r\<lparr>pr_pool := close_conns [conn] p, pr_dialled := conn # pr_dialled r\<rparr>)"
proof -
  let ?p = "close_conns [conn] p" and ?r = "r\<lparr>pr_pool := close_conns [conn] p, pr_dialled := conn # pr_dialled r\<rparr>"
  note I = invD [OF inv]
  have same: "pl_entries ?p = pl_entries p" "pl_conns ?p = pl_conns p" "pl_forwards ?p = pl_forwards p"
    "pl_pending ?p = pl_pending p" "pl_dead ?p = pl_dead p" "pl_futures ?p = pl_futures p"
    "pl_closed ?p = pl_closed p @ [conn]"
    by (simp_all add: close_conns_def)
  have ec: "entry_conn ?p e = entry_conn p e" for e by (simp add: entry_conn_def same)
  have mono: "conn_is_closed p c \<Longrightarrow> conn_is_closed ?p c" for c by (auto simp: conn_is_closed_def same)
  have "wf_pool ?r"
  proof -
    have "conn \<notin> conn_ids p" using wf_poolD(1,2) [OF I(1), folded p] c by auto
    then show ?thesis using I(1) by (auto simp: wf_pool_def Let_def same ec p [symmetric])
  qed
  moreover have "flights_ok ?r"
  proof (rule flights_intro)
    fix k h e assume "dget (pl_pending (pr_pool ?r)) k = Some h" "dget (pl_conns (pr_pool ?r)) k = Some e"
    then have "conn_is_closed p (entry_conn p e)"
      using flights_pending [OF I(2), of k h, folded p] by (simp add: same)
    from mono [OF this] show "conn_is_closed (pr_pool ?r) (entry_conn (pr_pool ?r) e)" by (simp add: ec)
  qed (use flightsD(1,2) [OF I(2), folded p] flights_pending [OF I(2), folded p]
      flights_waiting [OF I(2), folded p] flights_distinct [OF I(2)] in \<open>auto simp: same\<close>)
  moreover have "no_leak ?r"
    using I(3) mono by (auto simp: no_leak_def same ec p [symmetric] conn_is_closed_def)
  moreover have "pins_ok ?r"
  proof (rule pins_intro)
    fix e assume h: "0 < holders ?r e"
    have hh: "holders ?r e = holders r e" by (simp add: holders_def forward_pins_def same p [symmetric])
    note hd = holdersD [OF I(4) h [unfolded hh], folded p]
    have "entry_conn p e \<noteq> conn" using wf_poolD(2) [OF I(1), folded p, OF hd(1)] c by auto
    with hd show "e < length (pl_entries (pr_pool ?r)) \<and>
        holders ?r e \<le> pe_pins (pl_entries (pr_pool ?r) ! e) \<and>
        (pr_shut ?r \<or> entry_conn (pr_pool ?r) e \<in> set (pl_dead (pr_pool ?r)) \<or>
         e \<in> snd ` set (pl_conns (pr_pool ?r)) \<and> entry_conn (pr_pool ?r) e \<notin> set (pl_closed (pr_pool ?r)))"
      by (simp add: hh same ec)
  qed
  ultimately show ?thesis by (simp add: pool_inv_def)
qed

definition insert_entry :: "pystr \<Rightarrow> nat \<Rightarrow> real \<Rightarrow> pool \<Rightarrow> pool" where
  "insert_entry key conn now p =
     p\<lparr>pl_entries := pl_entries p @ [\<lparr>pe_conn = conn, pe_last_used = now, pe_pins = 0\<rparr>],
       pl_conns := dset key (length (pl_entries p)) (pl_conns p)\<rparr>"

lemma snd_dset: "snd ` set (dset k v d) \<subseteq> insert v (snd ` set d)"
  by (induction d) auto

lemma distinct_snd_dset:
  "distinct (map snd d) \<Longrightarrow> v \<notin> snd ` set d \<Longrightarrow> distinct (map snd (dset k v d))"
proof (induction d)
  case Nil
  then show ?case by simp
next
  case (Cons x d)
  then show ?case using snd_dset [of k v d] by (cases x) auto
qed

lemma inv_insert_entry:
  assumes inv: "pool_inv r" and p: "p = pr_pool r" and c: "conn \<notin> set (pr_dialled r)"
    and slot: "dget (pl_pending p) key = None"
    and stale: "\<And>e. dget (pl_conns p) key = Some e \<Longrightarrow> conn_is_closed p (entry_conn p e)"
  shows "pool_inv (r\<lparr>pr_pool := insert_entry key conn now p, pr_dialled := conn # pr_dialled r\<rparr>)"
proof -
  let ?p = "insert_entry key conn now p" and ?n = "length (pl_entries p)"
  let ?r = "r\<lparr>pr_pool := ?p, pr_dialled := conn # pr_dialled r\<rparr>"
  note I = invD [OF inv]
  note W = wf_poolD [OF I(1), folded p]
  have same: "pl_forwards ?p = pl_forwards p" "pl_pending ?p = pl_pending p" "pl_dead ?p = pl_dead p"
    "pl_futures ?p = pl_futures p" "pl_closed ?p = pl_closed p"
    "pl_entries ?p = pl_entries p @ [\<lparr>pe_conn = conn, pe_last_used = now, pe_pins = 0\<rparr>]"
    "pl_conns ?p = dset key ?n (pl_conns p)"
    by (simp_all add: insert_entry_def)
  have dw: "dwf (pl_conns p)" using I(1) by (simp add: wf_pool_def Let_def p)
  have ec: "entry_conn ?p e = (if e = ?n then conn else entry_conn p e)" if "e \<le> ?n" for e
    using that by (auto simp: entry_conn_def same nth_append)
  have cl: "conn_is_closed ?p = conn_is_closed p" by (simp add: fun_eq_iff conn_is_closed_def same)
  have new: "?n \<notin> snd ` set (pl_conns p)" using W(1) by blast
  have keep: "e \<in> snd ` set (pl_conns ?p)" if e: "(k, e) \<in> set (pl_conns p)" "k \<noteq> key" for k e
  proof -
    have "(k, e) \<in> set (pl_conns ?p)" using e dw by (simp add: same in_set_dget)
    then show ?thesis by force
  qed
  have ids: "conn_ids ?p \<subseteq> insert conn (conn_ids p)"
  proof
    fix x assume "x \<in> conn_ids ?p"
    then obtain e where e: "e \<in> snd ` set (pl_conns ?p)" "x = entry_conn ?p e" by blast
    then have "e = ?n \<or> e \<in> snd ` set (pl_conns p)"
      using snd_dset [of key ?n "pl_conns p"] same(7) by auto
    then show "x \<in> insert conn (conn_ids p)"
    proof
      assume "e = ?n"
      then show ?thesis using e(2) ec [of ?n] by simp
    next
      assume o: "e \<in> snd ` set (pl_conns p)"
      then show ?thesis using e(2) ec [of e] W(1) [OF o] by auto
    qed
  qed
  note D = wf_dicts [OF I(1), folded p]
  have wf: "wf_pool ?r"
  proof (rule wf_intro)
    show "pr_pool ?r = ?p" "pr_dialled ?r = conn # pr_dialled r" by simp_all
    show "dwf (pl_conns ?p)" using dw by (simp add: same(7))
    show "dwf (pl_pending ?p)" "dwf (pl_forwards ?p)" by (simp_all add: same(1,2) D)
    show "distinct (map snd (pl_conns ?p))" using D(4) new by (simp add: same(7) distinct_snd_dset)
    show "\<forall>e\<in>snd ` set (pl_conns ?p). e < length (pl_entries ?p)"
      using snd_dset [of key ?n "pl_conns p"] W(1) by (fastforce simp: same)
    show "distinct (map pe_conn (pl_entries ?p))" using D(5,6) c by (auto simp: same(6))
    show "pe_conn ` set (pl_entries ?p) \<subseteq> set (conn # pr_dialled r)" using D(6) by (auto simp: same(6))
    show "set (pl_closed ?p) \<subseteq> set (conn # pr_dialled r)" using D(7) by (auto simp: same(5))
    have x: "conn \<notin> set (pl_closed p)" using D(7) c by blast
    have "A \<subseteq> insert conn B \<Longrightarrow> conn \<notin> C \<Longrightarrow> B \<inter> C = {} \<Longrightarrow> A \<inter> C = {}" for A B C :: "nat set"
      by blast
    from this [OF ids x D(8)] show "conn_ids ?p \<inter> set (pl_closed ?p) = {}" by (simp only: same(5))
  qed
  have "flights_ok ?r"
  proof (rule flights_intro)
    fix k h e assume "dget (pl_pending (pr_pool ?r)) k = Some h" "dget (pl_conns (pr_pool ?r)) k = Some e"
    then have a: "dget (pl_pending p) k = Some h" "dget (pl_conns p) k = Some e"
      using slot by (auto simp: same split: if_splits)
    then have "conn_is_closed p (entry_conn p e)" using flights_pending [OF I(2), of k h, folded p] by simp
    moreover have "e < ?n" using W(1) [of e] map_of_SomeD [OF a(2)] by force
    ultimately show "conn_is_closed (pr_pool ?r) (entry_conn (pr_pool ?r) e)" by (simp add: ec cl)
  qed (use flightsD(1,2) [OF I(2), folded p] flights_pending [OF I(2), folded p]
      flights_waiting [OF I(2), folded p] flights_distinct [OF I(2)] in \<open>auto simp: same\<close>)
  moreover have "no_leak ?r"
    unfolding no_leak_def
  proof
    fix x assume "x \<in> set (pr_dialled ?r)"
    then consider "x = conn" | "conn_is_closed p x"
      | "\<not> conn_is_closed p x" "x \<in> conn_ids p"
      using I(3) by (auto simp: no_leak_def p [symmetric])
    then show "conn_is_closed (pr_pool ?r) x \<or> x \<in> conn_ids (pr_pool ?r)"
    proof cases
      case 1
      have "(key, ?n) \<in> set (pl_conns ?p)" using dw by (simp add: same in_set_dget)
      moreover have "entry_conn ?p ?n = x" using ec [of ?n] 1 by simp
      ultimately show ?thesis by force
    next
      case 2
      then show ?thesis by (simp add: cl)
    next
      case 3
      then obtain k e where ke: "(k, e) \<in> set (pl_conns p)" "x = entry_conn p e" by auto
      then have "k \<noteq> key" using stale [of e] dw 3(1) by (auto simp: in_set_dget)
      moreover have "e < ?n" using ke(1) W(1) by force
      ultimately have "e \<in> snd ` set (pl_conns ?p)" "entry_conn ?p e = x"
        using keep ke by (simp_all add: ec)
      then show ?thesis by force
    qed
  qed
  moreover have "pins_ok ?r"
  proof (rule pins_intro)
    fix e assume h: "0 < holders ?r e"
    have hh: "holders ?r e = holders r e" by (simp add: holders_def forward_pins_def same p [symmetric])
    note hd = holdersD [OF I(4) h [unfolded hh], folded p]
    have "e \<in> snd ` set (pl_conns ?p) \<and> entry_conn p e \<notin> set (pl_closed p)"
      if a: "e \<in> snd ` set (pl_conns p)" "entry_conn p e \<notin> set (pl_closed p)" "entry_conn p e \<notin> set (pl_dead p)"
    proof -
      obtain k where k: "(k, e) \<in> set (pl_conns p)" using a(1) by auto
      then have "k \<noteq> key" using stale [of e] a dw by (auto simp: conn_is_closed_def in_set_dget)
      with keep k a(2) show ?thesis by simp
    qed
    moreover have "entry_conn ?p e = entry_conn p e" "pl_entries ?p ! e = pl_entries p ! e"
      using hd(1) by (simp_all add: ec same nth_append)
    ultimately show "e < length (pl_entries (pr_pool ?r)) \<and>
        holders ?r e \<le> pe_pins (pl_entries (pr_pool ?r) ! e) \<and>
        (pr_shut ?r \<or> entry_conn (pr_pool ?r) e \<in> set (pl_dead (pr_pool ?r)) \<or>
         e \<in> snd ` set (pl_conns (pr_pool ?r)) \<and> entry_conn (pr_pool ?r) e \<notin> set (pl_closed (pr_pool ?r)))"
      using hd by (auto simp: hh same(3,5,6))
  qed
  ultimately show ?thesis using wf by (simp add: pool_inv_def)
qed

subsection \<open>Pins, forwards and the start of a connect\<close>

text \<open>A change of pins, times and forwards only.\<close>

lemma inv_pins_change:
  assumes inv: "pool_inv r" and p: "p = pr_pool r"
    and same: "map pe_conn (pl_entries p') = map pe_conn (pl_entries p)"
      "pl_conns p' = pl_conns p" "pl_pending p' = pl_pending p" "pl_futures p' = pl_futures p"
      "pl_dead p' = pl_dead p" "pl_closed p' = pl_closed p"
    and fw: "dwf (pl_forwards p')"
    and r': "r' = r\<lparr>pr_pool := p', pr_held := held'\<rparr>"
    and pins: "\<And>e. 0 < holders r' e \<Longrightarrow> (0 < holders r e \<or> e \<in> snd ` set (pl_conns p)) \<and>
        holders r' e \<le> pe_pins (pl_entries p' ! e)"
  shows "pool_inv r'"
proof -
  note I = invD [OF inv]
  note D = wf_dicts [OF I(1), folded p]
  have len: "length (pl_entries p') = length (pl_entries p)"
    using same(1) by (metis length_map)
  have ec: "entry_conn p' e = entry_conn p e" if "e < length (pl_entries p)" for e
    using same(1) that len by (metis entry_conn_def nth_map)
  have cl: "conn_is_closed p' = conn_is_closed p" by (simp add: fun_eq_iff conn_is_closed_def same)
  have lt: "e < length (pl_entries p)" if "e \<in> snd ` set (pl_conns p)" for e
    using wf_poolD(1) [OF I(1), folded p] that by blast
  have ids: "conn_ids p' = conn_ids p" unfolding same(2) using ec lt by (intro image_cong) auto
  have "wf_pool r'"
  proof (rule wf_intro)
    show "pr_pool r' = p'" "pr_dialled r' = pr_dialled r" by (simp_all add: r')
    show "distinct (map pe_conn (pl_entries p'))" unfolding same by (rule D(5))
    have "set (map pe_conn (pl_entries p')) \<subseteq> set (pr_dialled r)" unfolding same using D(6) by simp
    then show "pe_conn ` set (pl_entries p') \<subseteq> set (pr_dialled r)" by simp
    show "\<forall>e\<in>snd ` set (pl_conns p'). e < length (pl_entries p')" using lt same len by simp
    show "conn_ids p' \<inter> set (pl_closed p') = {}" unfolding ids same(6) by (rule D(8))
  qed (use D fw in \<open>simp_all add: same\<close>)
  moreover have "flights_ok r'"
  proof (rule flights_intro)
    fix k h e assume "dget (pl_pending (pr_pool r')) k = Some h" "dget (pl_conns (pr_pool r')) k = Some e"
    then have a: "dget (pl_pending p) k = Some h" "dget (pl_conns p) k = Some e" by (simp_all add: r' same)
    then have "conn_is_closed p (entry_conn p e)" using flights_pending [OF I(2), of k h, folded p] by simp
    moreover have "e < length (pl_entries p)" using lt [of e] map_of_SomeD [OF a(2)] by force
    ultimately show "conn_is_closed (pr_pool r') (entry_conn (pr_pool r') e)" by (simp add: r' ec cl)
  qed (use flightsD(1,2) [OF I(2), folded p] flights_pending [OF I(2), folded p]
      flights_waiting [OF I(2), folded p] flights_distinct [OF I(2)] in \<open>auto simp: r' same\<close>)
  moreover have "no_leak r'"
    using I(3) by (simp only: no_leak_def r' pool_run.simps ids cl p [symmetric]) (simp add: ids cl)
  moreover have "pins_ok r'"
  proof (rule pins_intro)
    fix e assume "0 < holders r' e"
    note pe = pins [OF this]
    have "e < length (pl_entries p) \<and> (pr_shut r \<or> entry_conn p e \<in> set (pl_dead p) \<or>
         e \<in> snd ` set (pl_conns p) \<and> entry_conn p e \<notin> set (pl_closed p))"
    proof (cases "0 < holders r e")
      case True
      then show ?thesis using holdersD [OF I(4), folded p] by blast
    next
      case False
      with pe have e: "e \<in> snd ` set (pl_conns p)" by simp
      then have "entry_conn p e \<in> conn_ids p" by (rule imageI)
      then have "entry_conn p e \<notin> set (pl_closed p)" using D(8) by (meson disjoint_iff)
      with e lt show ?thesis by simp
    qed
    with pe show "e < length (pl_entries (pr_pool r')) \<and>
        holders r' e \<le> pe_pins (pl_entries (pr_pool r') ! e) \<and>
        (pr_shut r' \<or> entry_conn (pr_pool r') e \<in> set (pl_dead (pr_pool r')) \<or>
         e \<in> snd ` set (pl_conns (pr_pool r')) \<and> entry_conn (pr_pool r') e \<notin> set (pl_closed (pr_pool r')))"
      by (simp add: r' len ec same)
  qed
  ultimately show ?thesis by (simp add: pool_inv_def)
qed

lemma update_entry_conns [simp]:
  assumes "\<And>x. pe_conn (g x) = pe_conn x"
  shows "map pe_conn (pl_entries (update_entry e g p)) = map pe_conn (pl_entries p)"
proof (rule nth_equalityI)
  fix i assume "i < length (map pe_conn (pl_entries (update_entry e g p)))"
  then show "map pe_conn (pl_entries (update_entry e g p)) ! i = map pe_conn (pl_entries p) ! i"
    using assms by (cases "i = e") (simp_all add: update_entry_def)
qed (simp add: update_entry_def)

lemma update_entry_nth:
  "e < length (pl_entries p) \<Longrightarrow> pl_entries (update_entry e' g p) ! e =
     (if e = e' then g (pl_entries p ! e) else pl_entries p ! e)"
  by (auto simp: update_entry_def)

lemma update_entry_fields [simp]:
  "pl_conns (update_entry e g p) = pl_conns p" "pl_pending (update_entry e g p) = pl_pending p"
  "pl_futures (update_entry e g p) = pl_futures p" "pl_dead (update_entry e g p) = pl_dead p"
  "pl_closed (update_entry e g p) = pl_closed p" "pl_forwards (update_entry e g p) = pl_forwards p"
  by (simp_all add: update_entry_def)

lemma inv_sweep:
  assumes "pool_inv r"
  shows "pool_inv (r\<lparr>pr_pool := sweep_conns t now (pr_pool r)\<rparr>)"
proof -
  let ?p = "pr_pool r" and ?P = "\<lambda>(k, e). sweepable t now (pr_pool r) e"
  let ?cs = "map (\<lambda>(k, e). entry_conn ?p e) (filter ?P (pl_conns ?p))"
  have "sweep_conns t now ?p = drop_entries ?P ?cs ?p"
    by (simp add: sweep_conns_def drop_entries_def close_conns_def case_prod_unfold)
  moreover have "pool_inv (r\<lparr>pr_pool := drop_entries ?P ?cs ?p\<rparr>)"
  proof (rule inv_drop_entries [OF assms refl])
    show "set ?cs = entry_conn ?p ` snd ` {x \<in> set (pl_conns ?p). ?P x}" by force
  qed (auto simp: sweepable_def)
  ultimately show ?thesis by simp
qed

lemma inv_open_slot:
  assumes inv: "pool_inv r" and p: "p = pr_pool r" and slot: "dget (pl_pending p) key = None"
    and stale: "\<And>e. dget (pl_conns p) key = Some e \<Longrightarrow> conn_is_closed p (entry_conn p e)"
    and f: "f = length (pl_futures p)"
  shows "pool_inv (r\<lparr>pr_pool := p\<lparr>pl_futures := pl_futures p @ [Waiting],
      pl_pending := dset key f (pl_pending p)\<rparr>, pr_owners := (f, key) # pr_owners r\<rparr>)"
proof -
  let ?p = "p\<lparr>pl_futures := pl_futures p @ [Waiting], pl_pending := dset key f (pl_pending p)\<rparr>"
  let ?r = "r\<lparr>pr_pool := ?p, pr_owners := (f, key) # pr_owners r\<rparr>"
  note I = invD [OF inv]
  note D = wf_dicts [OF I(1), folded p]
  have ec: "entry_conn ?p = entry_conn p" "conn_is_closed ?p = conn_is_closed p"
    by (simp_all add: fun_eq_iff entry_conn_def conn_is_closed_def)
  have old: "g < f" if "(g, k) \<in> set (pr_owners r)" for g k
    using flightsD(1) [OF I(2) that, folded p] f by simp
  have "wf_pool ?r"
  proof (rule wf_intro)
    show "pr_pool ?r = ?p" "pr_dialled ?r = pr_dialled r" by simp_all
    show "\<forall>e\<in>snd ` set (pl_conns ?p). e < length (pl_entries ?p)"
      using wf_poolD(1) [OF I(1), folded p] by simp
    show "conn_ids ?p \<inter> set (pl_closed ?p) = {}" unfolding ec using D(8) by simp
  qed (use D in simp_all)
  moreover have "flights_ok ?r"
  proof (rule flights_intro)
    show "distinct (map fst (pr_owners ?r))" using flights_distinct [OF I(2)] old [of f] by auto
  next
    fix g k assume "(g, k) \<in> set (pr_owners ?r)"
    then consider "g = f" "k = key" | "(g, k) \<in> set (pr_owners r)" by auto
    then show "g < length (pl_futures (pr_pool ?r)) \<and>
        (pl_futures (pr_pool ?r) ! g = Waiting \<and> dget (pl_pending (pr_pool ?r)) k = Some g \<or>
         pl_futures (pr_pool ?r) ! g = FutureCancelled)"
    proof cases
      case 1
      then show ?thesis using f by simp
    next
      case 2
      then show ?thesis
        using flightsD(1,2) [OF I(2) 2, folded p] slot f by (auto simp: nth_append)
    qed
  next
    fix k g assume a: "dget (pl_pending (pr_pool ?r)) k = Some g"
    show "(g, k) \<in> set (pr_owners ?r) \<and> pl_futures (pr_pool ?r) ! g = Waiting"
    proof (cases "k = key")
      case True
      then have "g = length (pl_futures p)" using a f by simp
      then show ?thesis using True f by simp
    next
      case False
      then have "dget (pl_pending p) k = Some g" using a by simp
      note fp = flights_pending [OF I(2), of k g, folded p, OF this]
      then show ?thesis using old [of g k] f by (simp add: nth_append)
    qed
  next
    fix g assume "g < length (pl_futures (pr_pool ?r))" "pl_futures (pr_pool ?r) ! g = Waiting"
    then show "g \<in> fst ` set (pr_owners ?r)"
      using flights_waiting [OF I(2), of g, folded p] f by (cases "g = f") (auto simp: nth_append)
  next
    fix k g e assume a: "dget (pl_pending (pr_pool ?r)) k = Some g" "dget (pl_conns (pr_pool ?r)) k = Some e"
    show "conn_is_closed (pr_pool ?r) (entry_conn (pr_pool ?r) e)"
    proof (cases "k = key")
      case True
      then show ?thesis using a(2) stale by (simp add: ec)
    next
      case False
      then have "dget (pl_pending p) k = Some g" using a(1) by simp
      note fp = flights_pending [OF I(2), of k g, folded p, OF this]
      then show ?thesis using a(2) by (simp add: ec)
    qed
  qed
  moreover have "no_leak ?r" using I(3) by (simp add: no_leak_def ec p [symmetric])
  moreover have "pins_ok ?r"
    using I(4) by (simp add: pins_ok_def Let_def ec holders_def forward_pins_def p [symmetric])
  ultimately show ?thesis by (simp add: pool_inv_def)
qed

lemma inv_touch:
  assumes "pool_inv r"
  shows "pool_inv (r\<lparr>pr_pool := update_entry e (\<lambda>x. x\<lparr>pe_last_used := now\<rparr>) (pr_pool r)\<rparr>)"
proof (rule inv_pins_change [OF assms refl])
  let ?p = "update_entry e (\<lambda>x. x\<lparr>pe_last_used := now\<rparr>) (pr_pool r)"
  show "r\<lparr>pr_pool := ?p\<rparr> = r\<lparr>pr_pool := ?p, pr_held := pr_held r\<rparr>" by simp
  show "dwf (pl_forwards ?p)" using wf_dicts(3) [OF invD(1) [OF assms]] by simp
  fix x assume h: "0 < holders (r\<lparr>pr_pool := ?p\<rparr>) x"
  have hh: "holders (r\<lparr>pr_pool := ?p\<rparr>) x = holders r x" by (simp add: holders_def forward_pins_def)
  note hd = holdersD [OF invD(4) [OF assms] h [unfolded hh]]
  show "(0 < holders r x \<or> x \<in> snd ` set (pl_conns (pr_pool r))) \<and>
      holders (r\<lparr>pr_pool := ?p\<rparr>) x \<le> pe_pins (pl_entries ?p ! x)"
    using h hd by (auto simp: hh update_entry_nth)
qed simp_all

lemma inv_begin:
  assumes "pool_inv r"
  shows "pool_inv (pool_step C r (Begin key now))"
proof -
  define p where "p = sweep_conns (pc_idle C) now (pr_pool r)"
  let ?r = "r\<lparr>pr_pool := p\<rparr>"
  have I: "pool_inv ?r" using inv_sweep [OF assms] by (simp add: p_def)
  obtain c p' where cp: "claim_key key now p = (c, p')" by fastforce
  have step: "pool_step C r (Begin key now) =
      (case c of Own f \<Rightarrow> ?r\<lparr>pr_pool := p', pr_owners := (f, key) # pr_owners ?r\<rparr>
       | _ \<Rightarrow> ?r\<lparr>pr_pool := p'\<rparr>)"
    by (simp add: connect_begin_def p_def [symmetric] cp split: claim.split)
  show ?thesis
  proof (cases c)
    case (Hit x)
    then have "\<exists>e. p' = update_entry e (\<lambda>x. x\<lparr>pe_last_used := now\<rparr>) p"
      using cp by (auto simp: claim_key_def split: option.splits if_splits)
    then show ?thesis using inv_touch [OF I] Hit step by auto
  next
    case (Join f)
    then have "p' = p" using cp by (auto simp: claim_key_def split: option.splits if_splits)
    then show ?thesis using I Join step by simp
  next
    case (Own f)
    then have o: "f = length (pl_futures p)" "dget (pl_pending p) key = None"
      "p' = p\<lparr>pl_futures := pl_futures p @ [Waiting], pl_pending := dset key f (pl_pending p)\<rparr>"
      "\<And>e. dget (pl_conns p) key = Some e \<Longrightarrow> conn_is_closed p (entry_conn p e)"
      using cp by (auto simp: claim_key_def split: option.splits if_splits)
    have "pool_inv (?r\<lparr>pr_pool := p', pr_owners := (f, key) # pr_owners ?r\<rparr>)"
      using inv_open_slot [OF I, of p key f] o by simp
    then show ?thesis using Own step by simp
  qed
qed

text \<open>Counting in dictionaries.\<close>

lemma length_filter_dset_new:
  "dget d k = None \<Longrightarrow> length (filter P (dset k v d)) = length (filter P d) + (if P (k, v) then 1 else 0)"
  by (induction d) auto

lemma filter_ddel:
  "dwf d \<Longrightarrow> dget d k = Some v \<Longrightarrow>
     length (filter P (ddel k d)) + (if P (k, v) then 1 else 0) = length (filter P d)"
proof (induction d)
  case Nil
  then show ?case by simp
next
  case (Cons x d)
  obtain k' v' where x: "x = (k', v')" by fastforce
  show ?case
  proof (cases "k' = k")
    case True
    then have "ddel k d = d" using Cons.prems(1) x by (simp add: dwf_Cons delete_idem)
    with True Cons.prems(2) x show ?thesis by simp
  next
    case False
    then show ?thesis using Cons x by (auto simp: dwf_Cons)
  qed
qed

lemma count_remove1: "x \<in> set xs \<Longrightarrow> count_list (remove1 x xs) y + (if x = y then 1 else 0) = count_list xs y"
  by (induction xs) auto

lemma inv_pin:
  assumes "pool_inv r"
  shows "pool_inv (pool_step C r (Pin conn now))"
proof (cases "find (\<lambda>(k, e). entry_conn (pr_pool r) e = conn) (pl_conns (pr_pool r))")
  case None
  then show ?thesis using assms by (simp add: pin_def)
next
  case (Some x)
  obtain k e where x: "x = (k, e)" by fastforce
  have e: "e \<in> snd ` set (pl_conns (pr_pool r))" using find_Some_in [OF Some] x by force
  have lt: "e < length (pl_entries (pr_pool r))" using wf_poolD(1) [OF invD(1) [OF assms] e] .
  let ?g = "\<lambda>x. x\<lparr>pe_pins := pe_pins x + 1, pe_last_used := now\<rparr>"
  let ?p = "update_entry e ?g (pr_pool r)"
  let ?r = "r\<lparr>pr_pool := ?p, pr_held := e # pr_held r\<rparr>"
  have "pool_inv ?r"
  proof (rule inv_pins_change [OF assms refl _ _ _ _ _ _ _ refl])
    show "dwf (pl_forwards ?p)" using wf_dicts(3) [OF invD(1) [OF assms]] by simp
    fix y assume h: "0 < holders ?r y"
    have hh: "holders ?r y = holders r y + (if y = e then 1 else 0)"
      by (simp add: holders_def forward_pins_def)
    show "(0 < holders r y \<or> y \<in> snd ` set (pl_conns (pr_pool r))) \<and>
        holders ?r y \<le> pe_pins (pl_entries ?p ! y)"
    proof (cases "0 < holders r y")
      case True
      note hd = holdersD [OF invD(4) [OF assms] True]
      then show ?thesis using True unfolding hh by (auto simp: update_entry_nth)
    next
      case False
      then have "y = e" "holders r y = 0" using h unfolding hh by (auto split: if_splits)
      then show ?thesis using e lt unfolding hh by (simp add: update_entry_nth)
    qed
  qed simp_all
  then show ?thesis using Some x by (simp add: pin_def)
qed

text \<open>Releasing one pin of a holder, however its handle was kept.\<close>

lemma inv_release:
  assumes inv: "pool_inv r" and p: "p = pr_pool r"
    and same: "pl_entries q = pl_entries p" "pl_conns q = pl_conns p" "pl_pending q = pl_pending p"
      "pl_futures q = pl_futures p" "pl_dead q = pl_dead p" "pl_closed q = pl_closed p"
    and fw: "dwf (pl_forwards q)"
    and h: "\<And>e. holders (r\<lparr>pr_pool := q, pr_held := held\<rparr>) e + (if entry = Some e then 1 else 0) = holders r e"
  shows "pool_inv (r\<lparr>pr_pool := unpin entry now q, pr_held := held\<rparr>)"
proof (cases entry)
  case None
  have "pool_inv (r\<lparr>pr_pool := q, pr_held := held\<rparr>)"
  proof (rule inv_pins_change [OF inv p _ _ _ _ _ _ fw refl])
    fix e assume "0 < holders (r\<lparr>pr_pool := q, pr_held := held\<rparr>) e"
    then have "0 < holders r e" using h [of e] by simp
    note hd = holdersD [OF invD(4) [OF inv] this, folded p]
    then show "(0 < holders r e \<or> e \<in> snd ` set (pl_conns p)) \<and>
        holders (r\<lparr>pr_pool := q, pr_held := held\<rparr>) e \<le> pe_pins (pl_entries q ! e)"
      using h [of e] None \<open>0 < holders r e\<close> by (simp add: same)
  qed (simp_all add: same)
  then show ?thesis using None by (simp add: unpin_def)
next
  case (Some x)
  let ?g = "\<lambda>x. x\<lparr>pe_pins := (if pe_pins x > 0 then pe_pins x - 1 else pe_pins x), pe_last_used := now\<rparr>"
  let ?q = "update_entry x ?g q"
  have "pool_inv (r\<lparr>pr_pool := ?q, pr_held := held\<rparr>)"
  proof (rule inv_pins_change [OF inv p _ _ _ _ _ _ _ refl])
    show "dwf (pl_forwards ?q)" using fw by simp
    show "map pe_conn (pl_entries ?q) = map pe_conn (pl_entries p)"
      using update_entry_conns [of ?g x q] by (simp add: same)
    fix e assume a: "0 < holders (r\<lparr>pr_pool := ?q, pr_held := held\<rparr>) e"
    have hh: "holders (r\<lparr>pr_pool := ?q, pr_held := held\<rparr>) e = holders (r\<lparr>pr_pool := q, pr_held := held\<rparr>) e"
      by (simp add: holders_def forward_pins_def)
    have r: "0 < holders r e" using a h [of e] by (simp add: hh)
    note hd = holdersD [OF invD(4) [OF inv] r, folded p]
    show "(0 < holders r e \<or> e \<in> snd ` set (pl_conns p)) \<and>
        holders (r\<lparr>pr_pool := ?q, pr_held := held\<rparr>) e \<le> pe_pins (pl_entries ?q ! e)"
      using r hd h [of e] Some unfolding hh by (auto simp: update_entry_nth same)
  qed (simp_all add: same)
  then show ?thesis using Some by (simp add: unpin_def)
qed

lemma inv_unpin:
  assumes "pool_inv r"
  shows "pool_inv (pool_step C r (Unpin e now))"
proof (cases "e \<in> set (pr_held r)")
  case False
  then show ?thesis using assms by simp
next
  case True
  have "pool_inv (r\<lparr>pr_pool := unpin (Some e) now (pr_pool r), pr_held := remove1 e (pr_held r)\<rparr>)"
  proof (rule inv_release [OF assms refl])
    show "dwf (pl_forwards (pr_pool r))" using wf_dicts(3) [OF invD(1) [OF assms]] .
    show "holders (r\<lparr>pr_pool := pr_pool r, pr_held := remove1 e (pr_held r)\<rparr>) x +
        (if Some e = Some x then 1 else 0) = holders r x" for x
      using count_remove1 [OF True, of x] by (auto simp: holders_def)
  qed simp_all
  with True show ?thesis by simp
qed

lemma held_after:
  assumes "case entry of None \<Rightarrow> True | Some e \<Rightarrow> e \<in> set held"
  shows "count_list (case entry of None \<Rightarrow> held | Some e \<Rightarrow> remove1 e held) x +
     (if entry = Some x then 1 else 0) = count_list held x"
proof (cases entry)
  case None
  then show ?thesis by simp
next
  case (Some e)
  with assms have "e \<in> set held" by simp
  from count_remove1 [OF this, of x] show ?thesis
    unfolding Some by (simp only: option.case option.inject)
qed

lemma inv_forward:
  assumes inv: "pool_inv r"
  shows "pool_inv (pool_step C r (Forward h now))"
proof (cases "(case fh_entry h of None \<Rightarrow> True | Some e \<Rightarrow> e \<in> set (pr_held r)) \<and>
         dget (pl_forwards (pr_pool r)) (fh_id h) = None")
  case False
  then have "pool_step C r (Forward h now) = r" unfolding pool_step.simps by (rule if_not_P)
  then show ?thesis using inv by simp
next
  case True
  let ?held = "case fh_entry h of None \<Rightarrow> pr_held r | Some e \<Rightarrow> remove1 e (pr_held r)"
  have step: "pool_step C r (Forward h now) =
      r\<lparr>pr_pool := snd (forward_track (pc_forwards C) h now (pr_pool r)), pr_held := ?held\<rparr>"
    unfolding pool_step.simps using True by (rule if_P)
  have cnt: "count_list ?held x + (if fh_entry h = Some x then 1 else 0) = count_list (pr_held r) x" for x
    using True held_after [of "pr_held r" "fh_entry h" x] by blast
  note fw = wf_dicts(3) [OF invD(1) [OF inv]]
  show ?thesis
  proof (cases "int (length (pl_forwards (pr_pool r))) \<ge> pc_forwards C")
    case full: True
    let ?q = "pr_pool r\<lparr>pl_closed_listeners := pl_closed_listeners (pr_pool r) @ [fh_listener h, fh_listener h]\<rparr>"
    have "pool_inv (r\<lparr>pr_pool := unpin (fh_entry h) now ?q, pr_held := ?held\<rparr>)"
    proof (rule inv_release [OF inv refl])
      show "holders (r\<lparr>pr_pool := ?q, pr_held := ?held\<rparr>) x + (if fh_entry h = Some x then 1 else 0)
          = holders r x" for x
        using cnt [of x] by (simp add: holders_def forward_pins_def)
    qed (simp_all add: fw)
    then show ?thesis using full unfolding step by (simp add: forward_track_def)
  next
    case room: False
    let ?q = "pr_pool r\<lparr>pl_forwards := dset (fh_id h) h (pl_forwards (pr_pool r))\<rparr>"
    have "pool_inv (r\<lparr>pr_pool := ?q, pr_held := ?held\<rparr>)"
    proof (rule inv_pins_change [OF inv refl _ _ _ _ _ _ _ refl])
      show "dwf (pl_forwards ?q)" using fw by simp
      fix x assume a: "0 < holders (r\<lparr>pr_pool := ?q, pr_held := ?held\<rparr>) x"
      have "holders (r\<lparr>pr_pool := ?q, pr_held := ?held\<rparr>) x = holders r x"
        using cnt [of x] True
        by (auto simp: holders_def forward_pins_def length_filter_dset_new split: if_splits)
      with a holdersD [OF invD(4) [OF inv], of x]
      show "(0 < holders r x \<or> x \<in> snd ` set (pl_conns (pr_pool r))) \<and>
          holders (r\<lparr>pr_pool := ?q, pr_held := ?held\<rparr>) x \<le> pe_pins (pl_entries ?q ! x)"
        by simp
    qed simp_all
    then show ?thesis using room unfolding step by (simp add: forward_track_def)
  qed
qed

lemma inv_forward_close:
  assumes inv: "pool_inv r"
  shows "pool_inv (pool_step C r (ForwardClose fid now))"
proof (cases "dget (pl_forwards (pr_pool r)) fid")
  case None
  then show ?thesis using inv by (simp add: forward_close_def on_pool_def)
next
  case (Some h)
  let ?q = "pr_pool r\<lparr>pl_forwards := ddel fid (pl_forwards (pr_pool r)),
      pl_closed_listeners := pl_closed_listeners (pr_pool r) @ [fh_listener h]\<rparr>"
  note fw = wf_dicts(3) [OF invD(1) [OF inv]]
  have "pool_inv (r\<lparr>pr_pool := unpin (fh_entry h) now ?q, pr_held := pr_held r\<rparr>)"
  proof (rule inv_release [OF inv refl])
    show "holders (r\<lparr>pr_pool := ?q, pr_held := pr_held r\<rparr>) x + (if fh_entry h = Some x then 1 else 0)
        = holders r x" for x
      using filter_ddel [OF fw Some, of "\<lambda>(k, h). fh_entry h = Some x"]
      by (simp add: holders_def forward_pins_def)
  qed (simp_all add: fw)
  then show ?thesis using Some by (simp add: forward_close_def on_pool_def)
qed

lemma cancel_waiting_nth:
  "f < length fs \<Longrightarrow> cancel_waiting is fs ! f =
     (if f \<in> set is \<and> fs ! f = Waiting then FutureCancelled else fs ! f)"
  by (simp add: cancel_waiting_def nth_enumerate_eq)

lemma length_cancel_waiting [simp]: "length (cancel_waiting is fs) = length fs"
  by (simp add: cancel_waiting_def)

lemma inv_close_all:
  assumes inv: "pool_inv r"
  shows "pool_inv (pool_step C r CloseAll)"
proof -
  define p where "p = pr_pool r"
  let ?r = "pool_step C r CloseAll"
  have r': "pr_pool ?r = close_all p" "pr_owners ?r = pr_owners r" "pr_held ?r = pr_held r"
    "pr_dialled ?r = pr_dialled r" "pr_shut ?r"
    by (simp_all add: on_pool_def p_def)
  note I = invD [OF inv]
  note D = wf_dicts [OF I(1), folded p_def]
  have same: "pl_entries (close_all p) = pl_entries p" "pl_conns (close_all p) = []"
    "pl_pending (close_all p) = []" "pl_forwards (close_all p) = []" "pl_dead (close_all p) = pl_dead p"
    "set (pl_closed (close_all p)) = set (pl_closed p) \<union> conn_ids p"
    "pl_futures (close_all p) = cancel_waiting (map snd (pl_pending p)) (pl_futures p)"
    by (simp_all add: close_all_def case_prod_unfold image_image)
  have ids: "conn_ids p \<subseteq> set (pr_dialled r)"
    using wf_poolD(1,2) [OF I(1), folded p_def] by blast
  have pend: "f \<in> snd ` set (pl_pending p)" if "dget (pl_pending p) k = Some f" for k f
    using map_of_SomeD [OF that] by force
  have "wf_pool ?r"
  proof (rule wf_intro [OF r'(1,4)])
    have "A \<union> B \<subseteq> E" if "A \<subseteq> E" "B \<subseteq> E" for A B E :: "nat set" using that by blast
    then show "set (pl_closed (close_all p)) \<subseteq> set (pr_dialled r)"
      unfolding same(6) using D(7) ids by blast
  qed (use D in \<open>simp_all add: same(1-5)\<close>)
  moreover have "flights_ok ?r"
  proof (rule flights_intro, unfold r' same)
    show "distinct (map fst (pr_owners r))" using flights_distinct [OF I(2)] .
    fix f k assume "(f, k) \<in> set (pr_owners r)"
    note fd = flightsD(1,2) [OF I(2) this, folded p_def]
    then show "f < length (cancel_waiting (map snd (pl_pending p)) (pl_futures p)) \<and>
        (cancel_waiting (map snd (pl_pending p)) (pl_futures p) ! f = Waiting \<and> dget [] k = Some f \<or>
         cancel_waiting (map snd (pl_pending p)) (pl_futures p) ! f = FutureCancelled)"
      using pend [of k f] by (auto simp: cancel_waiting_nth)
  next
    fix f assume a: "f < length (cancel_waiting (map snd (pl_pending p)) (pl_futures p))"
      "cancel_waiting (map snd (pl_pending p)) (pl_futures p) ! f = Waiting"
    then have "pl_futures p ! f = Waiting" by (auto simp: cancel_waiting_nth split: if_splits)
    then show "f \<in> fst ` set (pr_owners r)"
      using flights_waiting [OF I(2), of f, folded p_def] a(1) by simp
  qed simp_all
  moreover have "no_leak ?r"
    unfolding no_leak_def r'
  proof
    fix c assume "c \<in> set (pr_dialled r)"
    then have "conn_is_closed p c \<or> c \<in> conn_ids p" using I(3) by (simp add: no_leak_def p_def)
    then consider "c \<in> set (pl_dead p)" | "c \<in> set (pl_closed p) \<union> conn_ids p"
      unfolding conn_is_closed_def by blast
    then have "conn_is_closed (close_all p) c"
      by cases (simp_all only: conn_is_closed_def same simp_thms)
    then show "conn_is_closed (close_all p) c \<or> c \<in> conn_ids (close_all p)" ..
  qed
  moreover have "pins_ok ?r"
  proof (rule pins_intro)
    fix e assume h: "0 < holders ?r e"
    have le: "holders ?r e \<le> holders r e"
      unfolding holders_def forward_pins_def r'(1,3) same(4) by simp
    with h have "0 < holders r e" by simp
    note hd = holdersD(1,2) [OF I(4) this, folded p_def]
    with le show "e < length (pl_entries (pr_pool ?r)) \<and>
        holders ?r e \<le> pe_pins (pl_entries (pr_pool ?r) ! e) \<and>
        (pr_shut ?r \<or> entry_conn (pr_pool ?r) e \<in> set (pl_dead (pr_pool ?r)) \<or>
         e \<in> snd ` set (pl_conns (pr_pool ?r)) \<and> entry_conn (pr_pool ?r) e \<notin> set (pl_closed (pr_pool ?r)))"
      unfolding r'(1) same(1) using r'(5) by simp
  qed
  ultimately show ?thesis by (simp add: pool_inv_def)
qed

subsection \<open>Every step keeps the invariant\<close>

lemma owner_of: "map_of os f = Some k \<Longrightarrow> (f, k) \<in> set os"
  by (rule map_of_SomeD)

lemma inv_fail:
  assumes inv: "pool_inv r"
  shows "pool_inv (pool_step C r (Fail f cancelled))"
proof (cases "map_of (pr_owners r) f")
  case None
  then show ?thesis using inv by simp
next
  case (Some key)
  let ?v = "if cancelled then OwnerCancelled else ConnectFailed"
  note o = owner_of [OF Some]
  note fd = flightsD [OF invD(2) [OF inv] o]
  have "connect_failed key f cancelled (pr_pool r) = end_flight key f ?v (pr_pool r)"
  proof (cases "pl_futures (pr_pool r) ! f = Waiting")
    case True
    then show ?thesis
      by (auto simp: connect_failed_def end_flight_def future_done_def release_slot_def settle_def Let_def)
  next
    case False
    then have "dget (pl_pending (pr_pool r)) key \<noteq> Some f"
      using flights_pending [OF invD(2) [OF inv], of key f] by auto
    then show ?thesis using False
      by (simp add: connect_failed_def end_flight_def future_done_def release_slot_def Let_def)
  qed
  then show ?thesis using inv_end_flight [OF inv refl o, of ?v] Some by simp
qed

text \<open>Room for a new connection: only unpinned entries are evicted.\<close>

lemma evictions_unpinned:
  "k \<in> set (select_conn_evictions cap extra p) \<Longrightarrow>
     \<exists>e. (k, e) \<in> set (pl_conns p) \<and> pe_pins (pl_entries p ! e) = 0"
  by (auto simp: select_conn_evictions_def Let_def split: if_splits dest!: in_set_takeD) blast

lemma inv_connect:
  assumes inv: "pool_inv r"
  shows "pool_inv (pool_step C r (Connect f conn now))"
proof (cases "map_of (pr_owners r) f")
  case None
  then show ?thesis using inv by simp
next
  case (Some key)
  define p where "p = pr_pool r"
  note o = owner_of [OF Some]
  note fd = flightsD [OF invD(2) [OF inv] o, folded p_def]
  note D = wf_dicts [OF invD(1) [OF inv], folded p_def]
  show ?thesis
  proof (cases "conn \<in> set (pr_dialled r)")
    case True
    then show ?thesis using inv Some by simp
  next
    case new: False
    show ?thesis
    proof (cases "pl_futures p ! f = FutureCancelled")
      case True
      then have np: "dget (pl_pending p) key \<noteq> Some f"
        using flights_pending [OF invD(2) [OF inv], of key f, folded p_def] by auto
      have "end_flight key f ConnectFailed p = p" using True by (simp add: end_flight_def)
      then have "pool_inv (r\<lparr>pr_pool := p, pr_owners := drop_owner f (pr_owners r)\<rparr>)"
        using inv_end_flight [OF inv p_def o, of ConnectFailed] by simp
      from inv_discard [OF this refl, of conn]
      moreover have "r\<lparr>pr_pool := p, pr_owners := drop_owner f (pr_owners r)\<rparr>
          \<lparr>pr_pool := close_conns [conn] p, pr_dialled := conn # pr_dialled r\<rparr>
        = r\<lparr>pr_pool := close_conns [conn] p, pr_owners := drop_owner f (pr_owners r),
          pr_dialled := conn # pr_dialled r\<rparr>" by (cases r) simp
      ultimately have "pool_inv (r\<lparr>pr_pool := close_conns [conn] p,
          pr_owners := drop_owner f (pr_owners r), pr_dialled := conn # pr_dialled r\<rparr>)"
        using new by (cases r) simp
      moreover have "snd (connect_done (pc_conns C) key f conn now p) = close_conns [conn] p"
        using True np by (simp add: connect_done_def release_slot_def close_conns_def)
      ultimately show ?thesis using Some new by (simp add: p_def)
    next
      case False
      then have w: "pl_futures p ! f = Waiting" "dget (pl_pending p) key = Some f" using fd(2) by auto
      define ev where "ev = select_conn_evictions (pc_conns C)
          (if dget (pl_conns p) key = None then 1 else 0) p"
      define P where "P = (\<lambda>x :: pystr \<times> nat. fst x \<in> set ev)"
      define cs where "cs = map (\<lambda>k. entry_conn p (the (dget (pl_conns p) k))) ev"
      have ev: "\<exists>e. (k, e) \<in> set (pl_conns p) \<and> pe_pins (pl_entries p ! e) = 0" if "k \<in> set ev" for k
        using evictions_unpinned that by (simp add: ev_def)
      have 1: "pool_inv (r\<lparr>pr_pool := drop_entries P cs p\<rparr>)"
      proof (rule inv_drop_entries [OF inv p_def])
        have "dget (pl_conns p) k = Some e" if "(k, e) \<in> set (pl_conns p)" for k e
          using that D(1) by (simp add: in_set_dget)
        then show "set cs = entry_conn p ` snd ` {x \<in> set (pl_conns p). P x}"
          using ev by (force simp: cs_def P_def image_iff)
        fix k e assume ke: "(k, e) \<in> set (pl_conns p)" "P (k, e)"
        then obtain e' where "(k, e') \<in> set (pl_conns p)" "pe_pins (pl_entries p ! e') = 0"
          using ev by (auto simp: P_def)
        then show "conn_is_closed p (entry_conn p e) \<or> pe_pins (pl_entries p ! e) = 0"
          using ke(1) D(1) by (simp add: in_set_dget)
      qed
      let ?p1 = "drop_entries P cs p"
      have o1: "(f, key) \<in> set (pr_owners (r\<lparr>pr_pool := ?p1\<rparr>))" using o by simp
      let ?p2 = "end_flight key f (Connected conn) ?p1"
      have 2: "pool_inv (r\<lparr>pr_pool := ?p2, pr_owners := drop_owner f (pr_owners r)\<rparr>)"
        using inv_end_flight [OF 1 _ o1, of ?p1 "Connected conn"] by simp
      have e2: "pl_pending ?p2 = ddel key (pl_pending p)" "pl_conns ?p2 = pl_conns ?p1"
        using w by (simp_all add: end_flight_def settle_def release_slot_def drop_entries_def)
      have "pool_inv (r\<lparr>pr_pool := insert_entry key conn now ?p2, pr_owners := drop_owner f (pr_owners r),
          pr_dialled := conn # pr_dialled r\<rparr>)"
      proof -
        have "conn_is_closed ?p2 (entry_conn ?p2 e)" if "dget (pl_conns ?p2) key = Some e" for e
        proof -
          have "dget (pl_pending ?p1) key = Some f" "dget (pl_conns ?p1) key = Some e"
            using w that e2 by (simp_all add: drop_entries_def)
          then have "conn_is_closed ?p1 (entry_conn ?p1 e)"
            using flights_pending [OF invD(2) [OF 1], of key f] by simp
          then show ?thesis
            by (simp add: end_flight_def settle_def release_slot_def conn_is_closed_def entry_conn_def)
        qed
        then show ?thesis
          using inv_insert_entry [OF 2, of ?p2 conn key now] new by (cases r) (simp add: e2)
      qed
      moreover have "snd (connect_done (pc_conns C) key f conn now p) = insert_entry key conn now ?p2"
        using w by (simp add: connect_done_def Let_def ev_def [symmetric] insert_entry_def end_flight_def
            settle_def release_slot_def drop_entries_def close_conns_def P_def cs_def case_prod_unfold)
      ultimately show ?thesis using Some new by (simp add: p_def)
    qed
  qed
qed

lemma inv_peer_closed:
  assumes inv: "pool_inv r"
  shows "pool_inv (pool_step C r (PeerClosed c))"
proof -
  define p where "p = pr_pool r"
  let ?p = "p\<lparr>pl_dead := c # pl_dead p\<rparr>" and ?r = "r\<lparr>pr_pool := p\<lparr>pl_dead := c # pl_dead p\<rparr>\<rparr>"
  note I = invD [OF inv]
  note D = wf_dicts [OF I(1), folded p_def]
  have ec: "entry_conn ?p = entry_conn p" by (simp add: fun_eq_iff)
  have mono: "conn_is_closed p x \<Longrightarrow> conn_is_closed ?p x" for x by (simp add: conn_is_closed_def)
  have "wf_pool ?r"
  proof (rule wf_intro)
    show "pr_pool ?r = ?p" "pr_dialled ?r = pr_dialled r" by simp_all
    show "\<forall>e\<in>snd ` set (pl_conns ?p). e < length (pl_entries ?p)"
      using wf_poolD(1) [OF I(1), folded p_def] by simp
    show "conn_ids ?p \<inter> set (pl_closed ?p) = {}" unfolding ec using D(8) by simp
  qed (use D in simp_all)
  moreover have "flights_ok ?r"
  proof (rule flights_intro)
    fix k g e assume "dget (pl_pending (pr_pool ?r)) k = Some g" "dget (pl_conns (pr_pool ?r)) k = Some e"
    then have "conn_is_closed p (entry_conn p e)"
      using flights_pending [OF I(2), of k g, folded p_def] by simp
    from mono [OF this] show "conn_is_closed (pr_pool ?r) (entry_conn (pr_pool ?r) e)" by simp
  qed (use flightsD(1,2) [OF I(2), folded p_def] flights_pending [OF I(2), folded p_def]
      flights_waiting [OF I(2), folded p_def] flights_distinct [OF I(2)] in auto)
  moreover have "no_leak ?r"
    using I(3) mono by (auto simp: no_leak_def ec p_def [symmetric])
  moreover have "pins_ok ?r"
    using I(4) by (auto simp: pins_ok_def Let_def holders_def forward_pins_def p_def [symmetric])
  ultimately show ?thesis by (simp add: pool_inv_def on_pool_def p_def)
qed

interpretation pool: machine_inv "pool_step C" pool_inv for C
proof
  fix r e assume "pool_inv r"
  then show "pool_inv (pool_step C r e)"
    by (cases e)
      (simp_all only: inv_begin inv_fail inv_connect inv_peer_closed inv_pin inv_unpin inv_forward
        inv_forward_close inv_close_all)
qed

lemma pool_runs_inv: "pool_inv (pool_runs C es)"
  unfolding pool_runs_def by (rule pool.inv_run [OF pool_inv_start])

subsection \<open>What a run guarantees\<close>


text \<open>C23: While anything holds a connection - a running command or transfer, a session, a forward -
  neither idle sweeping nor eviction closes it: it stays cached until the peer closes it or the
  pool is shut down.\<close>

theorem pinned_not_closed:
  assumes "\<not> pr_shut (pool_runs C es)" "0 < holders (pool_runs C es) e"
  shows "entry_conn (pr_pool (pool_runs C es)) e \<in> set (pl_dead (pr_pool (pool_runs C es))) \<or>
     e \<in> snd ` set (pl_conns (pr_pool (pool_runs C es))) \<and>
     entry_conn (pr_pool (pool_runs C es)) e \<notin> set (pl_closed (pr_pool (pool_runs C es))) \<and>
     0 < pe_pins (pl_entries (pr_pool (pool_runs C es)) ! e)"
  using holdersD [OF invD(4) [OF pool_runs_inv] assms(2)] assms by auto

text \<open>No caller waits for ever on another's connect: a future still waiting has its owner in
  flight, and however that connect ends - connected, failed, cancelled, or the pool closed - the
  waiter gets the connection, retries or raises.\<close>

theorem waiters_settled:
  assumes "f < length (pl_futures (pr_pool (pool_runs C es)))"
    and "pl_futures (pr_pool (pool_runs C es)) ! f = Waiting"
  shows "\<exists>key. map_of (pr_owners (pool_runs C es)) f = Some key \<and>
     waiter_result (pl_futures (pr_pool (pool_step C (pool_runs C es) (Fail f False))) ! f) = Raise \<and>
     waiter_result (pl_futures (pr_pool (pool_step C (pool_runs C es) (Fail f True))) ! f) = Retry \<and>
     waiter_result (pl_futures (pr_pool (pool_step C (pool_runs C es) CloseAll)) ! f) = Raise \<and>
     (conn \<notin> set (pr_dialled (pool_runs C es)) \<longrightarrow>
        waiter_result (pl_futures (pr_pool (pool_step C (pool_runs C es) (Connect f conn now))) ! f)
          = Return conn)"
proof -
  let ?r = "pool_runs C es"
  note I = invD [OF pool_runs_inv, of C es]
  have "f \<in> fst ` set (pr_owners ?r)" using flights_waiting [OF I(2) assms] .
  then obtain key where key: "map_of (pr_owners ?r) f = Some key"
    by (metis map_of_eq_None_iff not_None_eq)
  note fd = flightsD [OF I(2) owner_of [OF key]]
  have slot: "dget (pl_pending (pr_pool ?r)) key = Some f" using fd(2) assms(2) by simp
  have "f \<in> set (map snd (pl_pending (pr_pool ?r)))" using map_of_SomeD [OF slot] by force
  then have "waiter_result (pl_futures (pr_pool (pool_step C ?r CloseAll)) ! f) = Raise"
    using assms by (simp add: on_pool_def close_all_def cancel_waiting_nth)
  then show ?thesis
    using key assms slot
    by (auto simp: connect_failed_def future_done_def release_slot_def settle_def Let_def
        connect_done_def close_conns_def)
qed

subsection \<open>Caps\<close>

lemma forwards_step:
  assumes "int (length (pl_forwards (pr_pool r))) \<le> max 0 (pc_forwards C)"
  shows "int (length (pl_forwards (pr_pool (pool_step C r e)))) \<le> max 0 (pc_forwards C)"
proof (cases e)
  case (Begin key now)
  have "pl_forwards (snd (connect_begin (pc_idle C) key now (pr_pool r))) = pl_forwards (pr_pool r)"
    by (simp add: connect_begin_def claim_key_def sweep_conns_def close_conns_def split: option.split)
  then show ?thesis using assms Begin by (auto split: claim.split prod.split)
next
  case (Forward h now)
  have "length (dset k v d) \<le> Suc (length d)" for k v and d :: "(pystr, forward_handle) dict"
    by (simp add: length_dset)
  then show ?thesis
    using assms Forward
    by (auto simp: forward_track_def unpin_def split: option.split)
      (smt (verit) of_nat_Suc of_nat_mono)+
next
  case (ForwardClose fid now)
  have "length (ddel fid (pl_forwards (pr_pool r))) \<le> length (pl_forwards (pr_pool r))"
    by (rule length_ddel_le)
  then show ?thesis
    using assms ForwardClose
    by (auto simp: forward_close_def on_pool_def unpin_def split: option.split)
qed (use assms in \<open>auto simp: on_pool_def connect_failed_def Let_def release_slot_def settle_def
      connect_done_def close_conns_def pin_def unpin_def close_all_def split: option.split prod.split\<close>)

interpretation forward_cap: machine_inv "pool_step C"
  "\<lambda>r. int (length (pl_forwards (pr_pool r))) \<le> max 0 (pc_forwards C)" for C
  by unfold_locales (rule forwards_step)

text \<open>A key that is being connected is not in the cache at all: the sweep before the claim drops a
  dead entry.\<close>

definition slots_fresh :: "pool_run \<Rightarrow> bool" where
  "slots_fresh r \<longleftrightarrow> pool_inv r \<and>
     (\<forall>k f. dget (pl_pending (pr_pool r)) k = Some f \<longrightarrow> dget (pl_conns (pr_pool r)) k = None)"

lemma swept_alive:
  assumes "pool_inv r" "dget (pl_conns (sweep_conns t now (pr_pool r))) k = Some e"
  shows "\<not> conn_is_closed (sweep_conns t now (pr_pool r)) (entry_conn (sweep_conns t now (pr_pool r)) e)"
    and "dget (pl_conns (pr_pool r)) k = Some e"
proof -
  let ?p = "pr_pool r" and ?q = "sweep_conns t now (pr_pool r)"
  note D = wf_dicts [OF invD(1) [OF assms(1)]]
  note D' = wf_dicts [OF invD(1) [OF inv_sweep [OF assms(1)]], simplified, of t now]
  have ke: "(k, e) \<in> set (pl_conns ?q)" using map_of_SomeD [OF assms(2)] .
  then have k: "(k, e) \<in> set (pl_conns ?p)" "\<not> sweepable t now ?p e"
    by (auto simp: sweep_conns_def close_conns_def)
  show "dget (pl_conns ?p) k = Some e" using k(1) D(1) by (simp add: in_set_dget)
  have "entry_conn ?q e \<in> conn_ids ?q" using ke by force
  then have "entry_conn ?q e \<notin> set (pl_closed ?q)" using D'(8) by (meson disjoint_iff)
  moreover have "entry_conn ?p e \<notin> set (pl_dead ?p)"
    using k(2) by (simp add: sweepable_def conn_is_closed_def)
  moreover have "entry_conn ?q e = entry_conn ?p e" "pl_dead ?q = pl_dead ?p"
    by (simp_all add: sweep_conns_def close_conns_def entry_conn_def)
  ultimately show "\<not> conn_is_closed ?q (entry_conn ?q e)" by (simp add: conn_is_closed_def)
qed

lemma fresh_begin:
  assumes "slots_fresh r" "dget (pl_pending (pr_pool (pool_step C r (Begin key now)))) k = Some f"
  shows "dget (pl_conns (pr_pool (pool_step C r (Begin key now)))) k = None"
proof -
  let ?q = "sweep_conns (pc_idle C) now (pr_pool r)"
  have I: "pool_inv r" and fresh: "\<And>k f. dget (pl_pending (pr_pool r)) k = Some f \<Longrightarrow>
      dget (pl_conns (pr_pool r)) k = None" using assms(1) by (auto simp: slots_fresh_def)
  note alive = swept_alive [OF I]
  have pq: "pl_pending ?q = pl_pending (pr_pool r)" by (simp add: sweep_conns_def close_conns_def)
  have sub: "dget (pl_conns ?q) k = None" if "dget (pl_pending (pr_pool r)) k = Some f" for k f
    using fresh [OF that] alive(2) [of "pc_idle C" now k] by (cases "dget (pl_conns ?q) k") auto
  obtain c p' where cp: "claim_key key now ?q = (c, p')" by fastforce
  have step: "pr_pool (pool_step C r (Begin key now)) = p'"
    by (simp add: connect_begin_def cp split: claim.split)
  have conns: "pl_conns p' = pl_conns ?q"
    using cp by (auto simp: claim_key_def split: option.splits if_splits)
  have "pl_pending p' = pl_pending ?q \<or>
      dget (pl_conns ?q) key = None \<and> (\<exists>g. pl_pending p' = dset key g (pl_pending ?q))"
    using cp alive(1) [of "pc_idle C" now key]
    by (auto simp: claim_key_def split: option.splits if_splits)
  then show ?thesis
    using assms(2) sub unfolding step conns by (auto simp: pq split: if_splits)
qed

lemma fresh_step:
  assumes "slots_fresh r"
  shows "slots_fresh (pool_step C r e)"
proof -
  have I: "pool_inv r" and fresh: "\<And>k f. dget (pl_pending (pr_pool r)) k = Some f \<Longrightarrow>
      dget (pl_conns (pr_pool r)) k = None" using assms by (auto simp: slots_fresh_def)
  have "dget (pl_conns (pr_pool (pool_step C r e))) k = None"
    if "dget (pl_pending (pr_pool (pool_step C r e))) k = Some f" for k f
  proof (cases e)
    case (Begin key now)
    then show ?thesis using fresh_begin [OF assms, of C key now k f] that by simp
  next
    case (Fail g b)
    then show ?thesis using that fresh
      by (auto simp: connect_failed_def Let_def release_slot_def settle_def
          split: option.splits if_splits)
  next
    case (Connect g conn now)
    show ?thesis
    proof (cases "map_of (pr_owners r) g")
      case None
      then show ?thesis using that fresh Connect by simp
    next
      case (Some key)
      note fd = flightsD(2) [OF invD(2) [OF I] owner_of [OF Some]]
      have dn: "dget (filter Q d) k = None" if "dget d k = None" for Q and d :: "(pystr, nat) dict"
        using that by (auto simp: map_of_eq_None_iff)
      show ?thesis
        using that fresh Connect Some fd dn
        by (auto simp: connect_done_def Let_def release_slot_def settle_def close_conns_def
            split: if_splits)
    qed
  next
    case (ForwardClose fid now)
    then show ?thesis using that fresh
      by (auto simp: on_pool_def forward_close_def unpin_def split: option.splits)
  qed (use that fresh in \<open>auto simp: on_pool_def pin_def unpin_def forward_track_def close_all_def
         split: option.splits if_splits prod.splits\<close>)
  then show ?thesis using pool.inv_step [OF I] by (auto simp: slots_fresh_def)
qed

interpretation fresh: machine_inv "pool_step C" slots_fresh for C
  by unfold_locales (rule fresh_step)

lemma pool_runs_fresh: "slots_fresh (pool_runs C es)"
  unfolding pool_runs_def
  by (rule fresh.inv_run) (simp add: slots_fresh_def pool_inv_start, simp add: start_run_def new_pool_def)

lemma evictions_length:
  assumes "dwf (pl_conns p)" "0 < cap" "ev = select_conn_evictions cap 1 p"
  defines "rest \<equiv> filter (\<lambda>(k, e). k \<notin> set ev) (pl_conns p)"
  shows "int (length rest) + 1 \<le> cap \<or> list_all (\<lambda>(k, e). 0 < pe_pins (pl_entries p ! e)) rest"
proof -
  let ?free = "filter (\<lambda>(k, e). pe_pins (pl_entries p ! e) = 0) (pl_conns p)"
  let ?keys = "map fst (sort_key (\<lambda>(k, e). pe_last_used (pl_entries p ! e)) ?free)"
  let ?over = "int (length (pl_conns p)) + 1 - cap"
  show ?thesis
  proof (cases "?over \<le> 0")
    case True
    have "length rest \<le> length (pl_conns p)" by (simp add: rest_def)
    then show ?thesis using True by linarith
  next
    case False
    then have ev: "ev = take (nat ?over) ?keys"
      using assms(2,3) by (simp add: select_conn_evictions_def Let_def)
    have keys: "set ?keys = fst ` set ?free" by simp
    have dk: "distinct (map fst (pl_conns p))" using assms(1) by (simp add: dwf_def)
    then have "distinct (map fst ?free)" by (rule distinct_map_filter)
    then have dist: "distinct ?keys" by (simp add: distinct_map)
    show ?thesis
    proof (cases "nat ?over \<le> length ?keys")
      case True
      then have len: "length ev = nat ?over" by (simp add: ev)
      have dev: "distinct ev" using dist by (simp add: ev)
      have sub: "set ev \<subseteq> fst ` set (pl_conns p)" using keys by (auto simp: ev dest!: in_set_takeD)
      have "set (map fst (filter (\<lambda>x. fst x \<in> set ev) (pl_conns p))) = set ev" using sub by auto
      moreover have "distinct (map fst (filter (\<lambda>x. fst x \<in> set ev) (pl_conns p)))"
        using dk by (rule distinct_map_filter)
      ultimately have "length (filter (\<lambda>x. fst x \<in> set ev) (pl_conns p)) = length ev"
        using dev by (metis distinct_card length_map)
      moreover have "rest = filter (\<lambda>x. \<not> fst x \<in> set ev) (pl_conns p)"
        by (simp add: rest_def case_prod_unfold)
      ultimately have "length rest + length ev = length (pl_conns p)"
        using sum_length_filter_compl [of "\<lambda>x. fst x \<in> set ev" "pl_conns p"] by simp
      then show ?thesis using len False by linarith
    next
      case F: False
      then have "set ev = fst ` set ?free" using keys by (simp add: ev)
      then show ?thesis by (force simp: rest_def list_all_iff)
    qed
  qed
qed


subsection \<open>The output budget\<close>

text \<open>The bytes of one stream in the order they arrived.\<close>

definition stream :: "bool \<Rightarrow> (bool \<times> bytes) list \<Rightarrow> bytes" where
  "stream err chunks = concat (map snd (filter (\<lambda>c. fst c = err) chunks))"

definition drained :: "nat option \<Rightarrow> (bool \<times> bytes) list \<Rightarrow> drain" where
  "drained cap chunks = fold (drain_chunk cap) chunks \<lparr>dr_out = [], dr_err = [], dr_seen = 0\<rparr>"

lemma drained_snoc: "drained cap (cs @ [c]) = drain_chunk cap c (drained cap cs)"
  by (simp add: drained_def)

lemma prefixes_whole:
  assumes "x = take i s" "y = take j t" "length s + length t \<le> length x + length y"
  shows "x = s \<and> y = t"
proof -
  have "length x \<le> length s" "length y \<le> length t" using assms(1,2) by simp_all
  then have "length s \<le> i" "length t \<le> j" using assms by auto
  then show ?thesis using assms(1,2) by simp
qed

lemma drained_state:
  "length (dr_out (drained (Some n) cs)) + length (dr_err (drained (Some n) cs))
     = min n (dr_seen (drained (Some n) cs)) \<and>
   dr_seen (drained (Some n) cs) = length (stream False cs) + length (stream True cs) \<and>
   (\<exists>j. dr_out (drained (Some n) cs) = take j (stream False cs)) \<and>
   (\<exists>j. dr_err (drained (Some n) cs) = take j (stream True cs))"
proof (induction cs rule: rev_induct)
  case Nil
  then show ?case by (simp add: drained_def stream_def)
next
  case (snoc c cs)
  let ?d = "drained (Some n) cs"
  obtain b w where c: "c = (b, w)" by fastforce
  let ?k = "length (dr_out ?d) + length (dr_err ?d)"
  have st: "stream b' (cs @ [c]) = stream b' cs @ (if b = b' then w else [])" for b'
    by (simp add: stream_def c)
  have grow: "\<exists>j. x @ take (n - ?k) w = take j (s @ w)" if "x = take i s" "?k < n \<longrightarrow> x = s" for x i s
  proof (cases "?k < n")
    case True
    then have "x @ take (n - ?k) w = take (length s + (n - ?k)) (s @ w)" using that by simp
    then show ?thesis ..
  next
    case False
    then have "x @ take (n - ?k) w = take (min i (length s)) (s @ w)"
      using that(1) by (cases "i \<le> length s") (simp_all add: min_def)
    then show ?thesis ..
  qed
  obtain i j where ij: "dr_out ?d = take i (stream False cs)" "dr_err ?d = take j (stream True cs)"
    using snoc.IH by blast
  have whole: "?k < n \<longrightarrow> dr_out ?d = stream False cs \<and> dr_err ?d = stream True cs"
  proof
    assume "?k < n"
    then have "?k = length (stream False cs) + length (stream True cs)" using snoc.IH by linarith
    then show "dr_out ?d = stream False cs \<and> dr_err ?d = stream True cs"
      by (intro prefixes_whole [OF ij]) simp
  qed
  have out: "\<exists>m. dr_out ?d @ take (n - ?k) w = take m (stream False cs @ w)"
    by (rule grow [OF ij(1)]) (use whole in blast)
  have err: "\<exists>m. dr_err ?d @ take (n - ?k) w = take m (stream True cs @ w)"
    by (rule grow [OF ij(2)]) (use whole in blast)
  show ?case
  proof (cases b)
    case True
    have "drained (Some n) (cs @ [c]) =
        ?d\<lparr>dr_seen := dr_seen ?d + length w, dr_err := dr_err ?d @ take (n - ?k) w\<rparr>"
      by (simp add: drained_snoc drain_chunk_def c True Let_def)
    then show ?thesis using snoc.IH ij(1) err st [of False] st [of True] True by (auto simp: min_def)
  next
    case False
    have "drained (Some n) (cs @ [c]) =
        ?d\<lparr>dr_seen := dr_seen ?d + length w, dr_out := dr_out ?d @ take (n - ?k) w\<rparr>"
      by (simp add: drained_snoc drain_chunk_def c False Let_def)
    then show ?thesis using snoc.IH ij(2) out st [of False] st [of True] False by (auto simp: min_def)
  qed
qed

text \<open>A remote command's two output streams share one budget, however their chunks interleave:
  the kept bytes are a beginning of each stream, together they are exactly what arrived up to the
  budget, and output within the budget is returned whole.\<close>

theorem output_budget_shared:
  "length (dr_out (drained (Some n) cs)) + length (dr_err (drained (Some n) cs))
     = min n (length (stream False cs) + length (stream True cs)) \<and>
   (\<exists>j. dr_out (drained (Some n) cs) = take j (stream False cs)) \<and>
   (\<exists>j. dr_err (drained (Some n) cs) = take j (stream True cs)) \<and>
   (if 0 < n \<and> length (stream False cs) + length (stream True cs) \<le> n
    then run_output (Some (int n)) cs = utf8_decode (stream False cs) @ utf8_decode (stream True cs)
    else True)"
proof -
  note st = drained_state [of n cs]
  have "run_output (Some (int n)) cs = utf8_decode (stream False cs) @ utf8_decode (stream True cs)"
    if a: "0 < n" "length (stream False cs) + length (stream True cs) \<le> n"
  proof -
    let ?d = "drained (Some n) cs"
    obtain i j where ij: "dr_out ?d = take i (stream False cs)" "dr_err ?d = take j (stream True cs)"
      using st by blast
    have total: "length (dr_out ?d) + length (dr_err ?d) = length (stream False cs) + length (stream True cs)"
      "dr_seen ?d = length (stream False cs) + length (stream True cs)"
      using st a(2) by simp_all
    have "dr_out ?d = stream False cs \<and> dr_err ?d = stream True cs"
      by (rule prefixes_whole [OF ij]) (simp only: total(1))
    then show ?thesis
      using total(2) a by (simp add: run_output_def run_cap_def drained_def [symmetric] Let_def)
  qed
  then show ?thesis using st by simp
qed

subsection \<open>Witnesses\<close>

definition sample_caps :: pool_caps where
  "sample_caps = \<lparr>pc_conns = 1, pc_forwards = 2, pc_idle = 10\<rparr>"

text \<open>Two callers open connections to different hosts; the first runs a long command meanwhile.\<close>

definition sample_events :: "pool_event list" where
  "sample_events = [Begin (asc ''a'') 0, Connect 0 7 1, Pin 7 2, Begin (asc ''b'') 50]"

lemma pinned_not_closed_witness:
  "0 \<in> snd ` set (pl_conns (pr_pool (pool_runs sample_caps sample_events))) \<and>
   0 < pe_pins (pl_entries (pr_pool (pool_runs sample_caps sample_events)) ! 0)"
proof -
  have w: "\<not> pr_shut (pool_runs sample_caps sample_events)"
    "0 < holders (pool_runs sample_caps sample_events) 0"
    "entry_conn (pr_pool (pool_runs sample_caps sample_events)) 0
       \<notin> set (pl_dead (pr_pool (pool_runs sample_caps sample_events)))"
    by code_simp+
  from pinned_not_closed [OF w(1,2)] w(3) show ?thesis by blast
qed

lemma waiters_settled_witness:
  "waiter_result (pl_futures (pr_pool (pool_step sample_caps
     (pool_runs sample_caps sample_events) (Connect 1 8 51))) ! 1) = Return 8"
proof -
  have w: "1 < length (pl_futures (pr_pool (pool_runs sample_caps sample_events)))"
    "pl_futures (pr_pool (pool_runs sample_caps sample_events)) ! 1 = Waiting"
    "8 \<notin> set (pr_dialled (pool_runs sample_caps sample_events))"
    by code_simp+
  from waiters_settled [OF w(1,2), of 8 51] w(3) show ?thesis by blast
qed


end
