(* ===== verification/PtyTransport.thy ===== *)
theory PtyTransport
  imports Prelude Complex_Main
begin

text \<open>
  The local pseudo-terminal (\<open>LocalPtyTransport\<close> in \<open>src/relay_shell/sessions.py\<close>): starting the
  child, writing, reading, the window size, and closing it with everything it has started. What
  the operating system does is an argument: the result of each call, and at each wait how it
  ended and what is left of the process group.
\<close>

definition TERM_GRACE :: real where
  "TERM_GRACE = 5"

definition HANGUP_AFTER :: real where
  "HANGUP_AFTER = 1 / 2"

subsection \<open>The window size\<close>

text \<open>\<open>struct.pack("HHHH", rows, cols, 0, 0)\<close>; it raises out of range.\<close>

definition pack_size :: "int \<Rightarrow> int \<Rightarrow> bytes option" where
  "pack_size r c =
     (if 0 \<le> r \<and> r \<le> 65535 \<and> 0 \<le> c \<and> c \<le> 65535
      then Some [nat r mod 256, nat r div 256, nat c mod 256, nat c div 256, 0, 0, 0, 0]
      else None)"

definition set_winsize :: "int \<Rightarrow> int \<Rightarrow> bytes option" where
  "set_winsize cols rows = pack_size (min (max 1 rows) 65535) (min (max 1 cols) 65535)"

lemma set_winsize_packs: "set_winsize cols rows \<noteq> None"
  by (auto simp: set_winsize_def pack_size_def min_def max_def)

subsection \<open>Writing and reading\<close>

datatype write_answer = Wrote nat | Would_block | Write_error

datatype write_end = Sent | Gave_up | Still_writing

text \<open>The bytes the terminal took, and how the loop ended; \<open>Would_block\<close> is the wait for the
  descriptor to become writable.\<close>

fun pty_write :: "bytes \<Rightarrow> write_answer list \<Rightarrow> bytes \<times> write_end" where
  "pty_write [] as = ([], Sent)"
| "pty_write (b # bs) [] = ([], Still_writing)"
| "pty_write (b # bs) (Wrote n # as) =
     (case pty_write (drop n (b # bs)) as of (out, e) \<Rightarrow> (take n (b # bs) @ out, e))"
| "pty_write (b # bs) (Would_block # as) = pty_write (b # bs) as"
| "pty_write (b # bs) (Write_error # as) = ([], Gave_up)"

datatype read_answer = Chunk bytes | Drained | Read_error

text \<open>The chunks given to the sink, and whether the loop has ended.\<close>

fun pty_read :: "read_answer list \<Rightarrow> bytes list \<times> bool" where
  "pty_read [] = ([], False)"
| "pty_read (Drained # as) = pty_read as"
| "pty_read (Read_error # as) = ([], True)"
| "pty_read (Chunk c # as) =
     (if c = [] then ([], True)
      else (case pty_read as of (cs, e) \<Rightarrow> (c # cs, e)))"

lemma pty_write_prefix:
  "\<exists>rest. data = fst (pty_write data as) @ rest \<and> (snd (pty_write data as) = Sent \<longrightarrow> rest = [])"
proof (induction data as rule: pty_write.induct)
  case (3 b bs n as)
  then obtain rest where r: "drop n (b # bs) = fst (pty_write (drop n (b # bs)) as) @ rest"
    "snd (pty_write (drop n (b # bs)) as) = Sent \<longrightarrow> rest = []"
    by blast
  have "b # bs = take n (b # bs) @ fst (pty_write (drop n (b # bs)) as) @ rest"
    using r(1) append_take_drop_id [of n "b # bs"] by simp
  then show ?case using r(2) by (auto simp: case_prod_beta)
qed auto

subsection \<open>Starting the child\<close>

text \<open>What \<open>spawn\<close> asks for, in order.\<close>

datatype pty_call =
    Open_pty
  | Set_size bytes
  | Nonblocking
  | Arm_monitor
  | Start_child "pystr list" "pystr option" bool
  | Kill_child
  | Await_child
  | Stop_monitor
  | Close_master
  | Close_slave

text \<open>\<open>wait_exec\<close>: the launcher's report is nothing (the target runs) or an error number, or reading it
  fails; whether it returns, and what it asks for.\<close>

datatype exec_report = Running | Errno nat | Report_failed

fun wait_exec :: "exec_report \<Rightarrow> bool \<times> pty_call list" where
  "wait_exec Running = (True, [])"
| "wait_exec (Errno n) = (False, [Await_child])"
| "wait_exec Report_failed = (False, [Kill_child, Await_child])"

text \<open>The active monitor and whether it armed, whether starting the child succeeded, and the report.\<close>

record spawn_plan =
  sp_monitor :: bool
  sp_armed :: bool
  sp_started :: bool
  sp_exec :: exec_report

definition pty_spawn ::
  "(pystr list \<Rightarrow> pystr list) \<Rightarrow> spawn_plan \<Rightarrow> pystr list \<Rightarrow> pystr option \<Rightarrow> int \<Rightarrow> int \<Rightarrow>
     bool \<times> pty_call list" where
  "pty_spawn wrap P argv cwd cols rows =
     (let watched = sp_monitor P \<and> sp_armed P;
          before = [Open_pty] @ (case set_winsize cols rows of Some b \<Rightarrow> [Set_size b] | None \<Rightarrow> []) @
                   [Nonblocking] @ (if sp_monitor P then [Arm_monitor] else []);
          start = Start_child (if watched then wrap argv else argv)
                    (if cwd = Some [] then None else cwd) True;
          (ok, waited) = (if \<not> sp_started P then (False, [])
                          else if watched then wait_exec (sp_exec P) else (True, []))
      in (ok, before @ [start] @ waited @
              (if ok then [] else (if sp_monitor P then [Stop_monitor] else []) @ [Close_master]) @
              [Close_slave]))"

text \<open>A failed start leaves nothing behind: the monitor is stopped, both ends of the terminal are
  closed, and a child that was started has been waited for; a start that succeeds closes the
  child's end only.\<close>

lemma spawn_leaves_nothing:
  "let (ok, cs) = pty_spawn wrap P argv cwd cols rows in
     last cs = Close_slave \<and>
     (Close_master \<in> set cs \<longleftrightarrow> \<not> ok) \<and>
     (Stop_monitor \<in> set cs \<longleftrightarrow> \<not> ok \<and> sp_monitor P) \<and>
     (\<not> ok \<and> sp_started P \<longrightarrow> Await_child \<in> set cs)"
  by (cases "sp_exec P") (auto simp: pty_spawn_def Let_def set_winsize_packs split: option.split)

subsection \<open>Closing\<close>

text \<open>The transport: whether the leader's process identifier still names it, how many processes its
  group has, and what the transport holds.\<close>

record pty_state =
  ps_leader :: bool
  ps_group :: nat
  ps_fd_open :: bool
  ps_monitored :: bool
  ps_closed :: bool

datatype signal_no = SigTerm | SigHup | SigKill

text \<open>\<open>signal\<close> looks the group up by the leader: with the leader gone it does nothing. SIGKILL ends
  every process it reaches; what the others do is seen at the next wait.\<close>

definition pty_signal :: "signal_no \<Rightarrow> pty_state \<Rightarrow> pty_state" where
  "pty_signal sig S = (if ps_leader S \<and> sig = SigKill then S\<lparr>ps_group := 0\<rparr> else S)"

definition kill_group :: "pty_state \<Rightarrow> pty_state" where
  "kill_group S = S\<lparr>ps_group := 0\<rparr>"

text \<open>How a wait for the leader ended, and the group then. A wait that returned has reaped the
  leader; after a timeout or a cancellation it may have exited all the same.\<close>

datatype wait_end = Exited | Timed_out | Cancelled | Wait_raised

record wait_answer =
  wa_end :: wait_end
  wa_leader :: bool
  wa_group :: nat

text \<open>A process that was killed does not come back: an empty group stays empty.\<close>

definition after_wait :: "wait_answer \<Rightarrow> pty_state \<Rightarrow> pty_state" where
  "after_wait a S =
     S\<lparr>ps_leader := ps_leader S \<and> wa_leader a \<and> wa_end a \<noteq> Exited,
       ps_group := (if ps_group S = 0 then 0 else wa_group a)\<rparr>"

text \<open>\<open>_reap_group\<close>: a reading of the clock, the group found, and whether the sleep is cancelled.\<close>

record poll_answer =
  po_time :: real
  po_group :: nat
  po_cancelled :: bool

fun reap_group :: "real \<Rightarrow> poll_answer list \<Rightarrow> pty_state \<Rightarrow> bool \<times> pty_state" where
  "reap_group deadline [] S = (True, kill_group S)"
| "reap_group deadline (p # ps) S =
     (if po_group p \<noteq> 0 \<and> po_time p < deadline
      then if po_cancelled p then (False, kill_group S)
           else reap_group deadline ps (S\<lparr>ps_group := po_group p\<rparr>)
      else (True, kill_group S))"

record close_plan =
  cp_start :: real
  cp_term :: wait_answer
  cp_hup :: wait_answer
  cp_polls :: "poll_answer list"
  cp_last :: wait_answer

definition close_handles :: "pty_state \<Rightarrow> pty_state" where
  "close_handles S = S\<lparr>ps_fd_open := False, ps_monitored := False\<rparr>"

text \<open>The rest after the waits: the result is whether \<open>aclose\<close> returned (it may be cancelled).\<close>

definition close_killed :: "bool \<Rightarrow> close_plan \<Rightarrow> pty_state \<Rightarrow> bool \<times> pty_state" where
  "close_killed cancelled P S =
     (let S = pty_signal SigKill S in
      if cancelled then (False, close_handles S)
      else (wa_end (cp_last P) \<noteq> Cancelled, close_handles (after_wait (cp_last P) S)))"

definition close_reap :: "close_plan \<Rightarrow> pty_state \<Rightarrow> bool \<times> pty_state" where
  "close_reap P S =
     (case reap_group (cp_start P + TERM_GRACE) (cp_polls P) S of
        (True, S) \<Rightarrow> (True, close_handles S)
      | (False, S) \<Rightarrow> close_killed True P S)"

definition pty_aclose :: "close_plan \<Rightarrow> pty_state \<Rightarrow> bool \<times> pty_state" where
  "pty_aclose P S =
     (if ps_closed S then (True, S)
      else
        let S1 = after_wait (cp_term P) (pty_signal SigTerm (S\<lparr>ps_closed := True\<rparr>)) in
        (case wa_end (cp_term P) of
           Exited \<Rightarrow> close_reap P S1
         | Cancelled \<Rightarrow> close_killed True P S1
         | Wait_raised \<Rightarrow> close_killed False P S1
         | Timed_out \<Rightarrow>
             let S2 = after_wait (cp_hup P) (pty_signal SigHup S1) in
             (case wa_end (cp_hup P) of
                Exited \<Rightarrow> close_reap P S2
              | Cancelled \<Rightarrow> close_killed True P S2
              | _ \<Rightarrow> close_killed False P S2)))"

text \<open>A wait that does not return finds the leader not yet reaped.\<close>

definition leader_stays :: "wait_answer \<Rightarrow> bool" where
  "leader_stays a \<longleftrightarrow> wa_end a = Exited \<or> wa_leader a"

definition close_waits :: "close_plan \<Rightarrow> wait_answer list" where
  "close_waits P = cp_term P # (if wa_end (cp_term P) = Timed_out then [cp_hup P] else [])"

lemma reap_group_empty: "ps_group (snd (reap_group d ps S)) = 0"
  by (induction d ps S rule: reap_group.induct) (simp_all add: kill_group_def)

lemma reap_group_holds:
  "ps_closed (snd (reap_group d ps S)) = ps_closed S"
  by (induction d ps S rule: reap_group.induct) (simp_all add: kill_group_def)

lemma close_handles_simps [simp]:
  "ps_group (close_handles S) = ps_group S" "\<not> ps_fd_open (close_handles S)"
  "\<not> ps_monitored (close_handles S)" "ps_closed (close_handles S) = ps_closed S"
  by (simp_all add: close_handles_def)

lemma after_wait_simps [simp]:
  "ps_closed (after_wait a S) = ps_closed S" "ps_group S = 0 \<Longrightarrow> ps_group (after_wait a S) = 0"
  by (simp_all add: after_wait_def)

lemma pty_signal_simps [simp]:
  "ps_closed (pty_signal s S) = ps_closed S" "ps_leader (pty_signal s S) = ps_leader S"
  "ps_group S = 0 \<Longrightarrow> ps_group (pty_signal s S) = 0"
  by (simp_all add: pty_signal_def)

lemma close_killed_parts:
  "let S' = snd (close_killed c P S) in
     \<not> ps_fd_open S' \<and> \<not> ps_monitored S' \<and> ps_closed S' = ps_closed S \<and>
     (ps_leader S \<or> ps_group S = 0 \<longrightarrow> ps_group S' = 0)"
  by (auto simp: close_killed_def Let_def pty_signal_def after_wait_def)

lemma close_reap_parts:
  "let S' = snd (close_reap P S) in
     \<not> ps_fd_open S' \<and> \<not> ps_monitored S' \<and> ps_closed S' = ps_closed S \<and> ps_group S' = 0"
proof -
  obtain b T where r: "reap_group (cp_start P + TERM_GRACE) (cp_polls P) S = (b, T)"
    by fastforce
  have g: "ps_group T = 0" "ps_closed T = ps_closed S"
    using reap_group_empty [of "cp_start P + TERM_GRACE" "cp_polls P" S]
      reap_group_holds [of "cp_start P + TERM_GRACE" "cp_polls P" S] r by simp_all
  show ?thesis
    using close_killed_parts [of True P T] r g by (cases b) (simp_all add: close_reap_def Let_def)
qed


definition wild_pty :: pty_state where
  "wild_pty = \<lparr>ps_leader = True, ps_group = 3, ps_fd_open = True, ps_monitored = True,
                ps_closed = False\<rparr>"

text \<open>The shell ignores SIGTERM, exits on SIGHUP, and leaves a descendant that ignores both.\<close>

definition stubborn_close :: close_plan where
  "stubborn_close =
     \<lparr>cp_start = 0, cp_term = \<lparr>wa_end = Timed_out, wa_leader = True, wa_group = 3\<rparr>,
      cp_hup = \<lparr>wa_end = Exited, wa_leader = False, wa_group = 1\<rparr>,
      cp_polls = [\<lparr>po_time = 1, po_group = 1, po_cancelled = False\<rparr>,
                  \<lparr>po_time = 6, po_group = 1, po_cancelled = False\<rparr>],
      cp_last = \<lparr>wa_end = Exited, wa_leader = False, wa_group = 0\<rparr>\<rparr>"


text \<open>The group is found through the leader, and \<open>_kill_group\<close> is not used on this path: a close that
  is cancelled in the moment between the reaping of the leader and the end of the wait spares
  what the leader has left.\<close>

lemma cancelled_close_spares_group:
  "let P = stubborn_close\<lparr>cp_term := \<lparr>wa_end = Cancelled, wa_leader = False, wa_group = 2\<rparr>\<rparr> in
     ps_group (snd (pty_aclose P wild_pty)) = 2 \<and> \<not> ps_fd_open (snd (pty_aclose P wild_pty))"
  by (simp add: Let_def pty_aclose_def close_killed_def pty_signal_def after_wait_def
      close_handles_def wild_pty_def stubborn_close_def)

end
