(* ===== verification/Verifier.thy ===== *)
theory Verifier
  imports AuditLog
begin

text \<open>
  Drift detection (\<open>src/relay_shell/verifier.py\<close>): each shipped template against the file the
  installer lays down. The file system is an argument: what \<open>is_file\<close> and \<open>is_dir\<close> say of a path
  and what reading it gives. A text is read as \<open>read_text(encoding="utf-8")\<close> reads it, so every
  line end becomes a line feed.
\<close>

datatype status = OkStatus | Missing_file | Drift | Absent_template

fun status_text :: "status \<Rightarrow> pystr" where
  "status_text OkStatus = asc ''OK''"
| "status_text Missing_file = asc ''MISSING''"
| "status_text Drift = asc ''DRIFT''"
| "status_text Absent_template = asc ''ABSENT_TEMPLATE''"

record finding =
  fi_name :: pystr
  fi_template :: pystr
  fi_path :: pystr
  fi_status :: status
  fi_detail :: pystr

record managed_pair =
  pr_name :: pystr
  pr_template :: pystr
  pr_path :: pystr
  pr_leader :: "pystr option"

definition DEFAULT_PAIRS :: "managed_pair list" where
  "DEFAULT_PAIRS =
     [\<lparr>pr_name = asc ''systemd-unit'', pr_template = asc ''systemd/relay-shell.service'',
       pr_path = asc ''/etc/systemd/system/relay-shell.service'', pr_leader = None\<rparr>,
      \<lparr>pr_name = asc ''systemd-hardening'',
       pr_template = asc ''systemd/relay-shell.service.d/hardening.conf'',
       pr_path = asc ''/etc/systemd/system/relay-shell.service.d/hardening.conf'',
       pr_leader = None\<rparr>,
      \<lparr>pr_name = asc ''logrotate'', pr_template = asc ''logrotate/relay-shell'',
       pr_path = asc ''/etc/logrotate.d/relay-shell'', pr_leader = None\<rparr>,
      \<lparr>pr_name = asc ''caddyfile'', pr_template = asc ''Caddyfile'',
       pr_path = asc ''/etc/caddy/Caddyfile'',
       pr_leader = Some (asc ''# relay-shell:install-edge:managed'')\<rparr>]"

text \<open>\<open>ds_is_file\<close> and \<open>ds_is_dir\<close> raise (\<open>Inl\<close>) where the operating system denies the search of a directory;
  \<open>ds_read\<close> is the bytes of the file or the text of the \<open>OSError\<close>; \<open>ds_reason\<close> the reason of
  a decoding error; \<open>ds_package\<close> where the package keeps its templates, if it can tell;
  \<open>ds_parents\<close> the directories above the module.\<close>

record deploy_files =
  ds_is_file :: "pystr \<Rightarrow> pystr + bool"
  ds_is_dir :: "pystr \<Rightarrow> pystr + bool"
  ds_read :: "pystr \<Rightarrow> pystr + bytes"
  ds_reason :: "bytes \<Rightarrow> pystr"
  ds_package :: "pystr option"
  ds_parents :: "pystr list"

subsection \<open>Paths\<close>

text \<open>\<open>Path(a) / b\<close>\<close>

definition path_join :: "pystr \<Rightarrow> pystr \<Rightarrow> pystr" where
  "path_join a b =
     (if starts_with (asc ''/'') b \<or> a = [] \<or> a = asc ''.'' then b
      else if ends_with (asc ''/'') a then a @ b
      else a @ asc ''/'' @ b)"

definition has_templates :: "deploy_files \<Rightarrow> pystr \<Rightarrow> pystr + bool" where
  "has_templates D d =
     (case ds_is_dir D d of
        Inr True \<Rightarrow> ds_is_file D (path_join d (asc ''Caddyfile''))
      | r \<Rightarrow> r)"

primrec first_templates :: "deploy_files \<Rightarrow> pystr list \<Rightarrow> pystr + pystr option" where
  "first_templates D [] = Inr None"
| "first_templates D (d # ds) =
     (case has_templates D d of
        Inl e \<Rightarrow> Inl e
      | Inr ok \<Rightarrow> if ok then Inr (Some d) else first_templates D ds)"

text \<open>\<open>None\<close>: \<open>FileNotFoundError\<close>\<close>

definition resolve_templates_dir :: "deploy_files \<Rightarrow> pystr option \<Rightarrow> pystr + pystr option" where
  "resolve_templates_dir D override =
     (case override of
        Some d \<Rightarrow> Inr (Some d)
      | None \<Rightarrow>
          first_templates D
            ((case ds_package D of Some p \<Rightarrow> [p] | None \<Rightarrow> []) @
             map (\<lambda>q. path_join q (asc ''deploy'')) (ds_parents D)))"

definition NOT_FOUND_TEXT :: pystr where
  "NOT_FOUND_TEXT =
     asc ''deploy templates not found - pass --templates-dir or install the wheel''"

definition resolve_install_path :: "pystr \<Rightarrow> pystr option \<Rightarrow> pystr" where
  "resolve_install_path p prefix =
     (case prefix of
        None \<Rightarrow> p
      | Some d \<Rightarrow> path_join d (dropWhile (\<lambda>c. c = 47) p))"

subsection \<open>One pair\<close>

text \<open>Strict decoding: a byte string is UTF-8 when decoding and encoding give it back.\<close>

definition read_utf8 :: "bytes \<Rightarrow> pystr option" where
  "read_utf8 b =
     (let s = utf8_decode b in
      if utf8_encode s = b then Some (universal_newlines s) else None)"

datatype text_read = Read_text pystr | Os_error pystr | Not_utf8 pystr

definition read_text :: "deploy_files \<Rightarrow> pystr \<Rightarrow> text_read" where
  "read_text D p =
     (case ds_read D p of
        Inl e \<Rightarrow> Os_error e
      | Inr b \<Rightarrow> (case read_utf8 b of Some t \<Rightarrow> Read_text t | None \<Rightarrow> Not_utf8 (ds_reason D b)))"

definition strip_leader :: "pystr option \<Rightarrow> pystr \<Rightarrow> pystr" where
  "strip_leader leader t =
     (case leader of
        Some l \<Rightarrow> if l \<noteq> [] \<and> starts_with l t
                  then dropWhile (\<lambda>c. c = 10) (drop (length l) t) else t
      | None \<Rightarrow> t)"

definition unread :: "text_read \<Rightarrow> status \<times> pystr" where
  "unread r =
     (case r of
        Os_error e \<Rightarrow> (Missing_file, asc ''could not read: '' @ e)
      | Not_utf8 e \<Rightarrow> (Drift, asc ''not valid UTF-8: '' @ e)
      | Read_text t \<Rightarrow> (OkStatus, []))"

definition compare_texts :: "managed_pair \<Rightarrow> text_read \<Rightarrow> text_read \<Rightarrow> status \<times> pystr" where
  "compare_texts pr template installed =
     (case template of
        Read_text t \<Rightarrow>
          (case installed of
             Read_text i \<Rightarrow>
               if strip_leader (pr_leader pr) i = t then (OkStatus, [])
               else (Drift, asc ''deployed content does not match template'')
           | _ \<Rightarrow> unread installed)
      | _ \<Rightarrow> unread template)"

definition verify_pair ::
  "deploy_files \<Rightarrow> managed_pair \<Rightarrow> pystr \<Rightarrow> pystr option \<Rightarrow> pystr + finding" where
  "verify_pair D pr base prefix =
     (let tpl = path_join base (pr_template pr);
          ins = resolve_install_path (pr_path pr) prefix;
          row = (\<lambda>(st, why). \<lparr>fi_name = pr_name pr, fi_template = tpl, fi_path = ins,
                                fi_status = st, fi_detail = why\<rparr>)
      in case ds_is_file D tpl of
           Inl e \<Rightarrow> Inl e
         | Inr False \<Rightarrow>
             Inr (row (Absent_template, asc ''template file '' @ tpl @ asc '' not found''))
         | Inr True \<Rightarrow>
             (case ds_is_file D ins of
                Inl e \<Rightarrow> Inl e
              | Inr False \<Rightarrow> Inr (row (Missing_file, ins @ asc '' does not exist''))
              | Inr True \<Rightarrow> Inr (row (compare_texts pr (read_text D tpl) (read_text D ins)))))"

subsection \<open>The report\<close>

primrec collect :: "('a \<Rightarrow> 'e + 'b) \<Rightarrow> 'a list \<Rightarrow> 'e + 'b list" where
  "collect f [] = Inr []"
| "collect f (x # xs) =
     (case f x of
        Inl e \<Rightarrow> Inl e
      | Inr y \<Rightarrow> (case collect f xs of Inl e \<Rightarrow> Inl e | Inr ys \<Rightarrow> Inr (y # ys)))"

definition unresolved_row :: "managed_pair \<Rightarrow> finding" where
  "unresolved_row pr =
     \<lparr>fi_name = pr_name pr, fi_template = pr_template pr, fi_path = pr_path pr,
      fi_status = Absent_template, fi_detail = NOT_FOUND_TEXT\<rparr>"

definition verify_deploy ::
  "deploy_files \<Rightarrow> pystr option \<Rightarrow> pystr option \<Rightarrow> managed_pair list \<Rightarrow> pystr + finding list"
  where
  "verify_deploy D templates prefix pairs =
     (case resolve_templates_dir D templates of
        Inl e \<Rightarrow> Inl e
      | Inr None \<Rightarrow> Inr (map unresolved_row pairs)
      | Inr (Some base) \<Rightarrow> collect (\<lambda>pr. verify_pair D pr base prefix) pairs)"

definition report_ok :: "finding list \<Rightarrow> bool" where
  "report_ok fs \<longleftrightarrow> list_all (\<lambda>f. fi_status f = OkStatus) fs"

definition by_status :: "status \<Rightarrow> finding list \<Rightarrow> finding list" where
  "by_status st fs = filter (\<lambda>f. fi_status f = st) fs"

subsection \<open>What a clean report says\<close>

lemma collect_ok:
  "(case collect f xs of Inl e \<Rightarrow> False | Inr ys \<Rightarrow> list_all P ys) \<longleftrightarrow>
     list_all (\<lambda>x. case f x of Inl e \<Rightarrow> False | Inr y \<Rightarrow> P y) xs"
  by (induction xs) (auto split: sum.splits)

lemma dropWhile_lf:
  "dropWhile (\<lambda>c. c = 10) s = t \<longleftrightarrow>
     (\<exists>k. s = replicate k (10::nat) @ t) \<and> (t = [] \<or> hd t \<noteq> 10)"
proof (induction s)
  case Nil
  then show ?case by auto
next
  case (Cons c s)
  show ?case
  proof (cases "c = 10")
    case True
    have "(\<exists>k. c # s = replicate k 10 @ t) \<longleftrightarrow> (\<exists>k. s = replicate k 10 @ t) \<or> t = c # s"
    proof
      assume "\<exists>k. c # s = replicate k 10 @ t"
      then obtain k where "c # s = replicate k 10 @ t" by blast
      then show "(\<exists>k. s = replicate k 10 @ t) \<or> t = c # s" by (cases k) auto
    next
      assume "(\<exists>k. s = replicate k 10 @ t) \<or> t = c # s"
      then show "\<exists>k. c # s = replicate k 10 @ t"
      proof
        assume "\<exists>k. s = replicate k 10 @ t"
        then obtain k where "s = replicate k 10 @ t" by blast
        then have "c # s = replicate (Suc k) 10 @ t" using True by simp
        then show ?thesis by blast
      next
        assume "t = c # s"
        then have "c # s = replicate 0 10 @ t" by simp
        then show ?thesis by blast
      qed
    qed
    then show ?thesis using True Cons.IH by auto
  next
    case False
    have "(\<exists>k. c # s = replicate k 10 @ t) \<longleftrightarrow> t = c # s"
    proof
      assume "\<exists>k. c # s = replicate k 10 @ t"
      then obtain k where "c # s = replicate k 10 @ t" by blast
      then show "t = c # s" using False by (cases k) auto
    next
      assume "t = c # s"
      then have "c # s = replicate 0 10 @ t" by simp
      then show "\<exists>k. c # s = replicate k 10 @ t" by blast
    qed
    then show ?thesis using False by auto
  qed
qed

text \<open>What the comparison accepts, in terms of the texts: the installed text is the template, or,
  for a pair with a leader, the leader, line feeds and the template.\<close>

definition shipped_text :: "pystr option \<Rightarrow> pystr \<Rightarrow> pystr \<Rightarrow> bool" where
  "shipped_text leader t i \<longleftrightarrow>
     (case leader of
        None \<Rightarrow> i = t
      | Some l \<Rightarrow>
          if l \<noteq> [] \<and> starts_with l i
          then (\<exists>k. i = l @ replicate k 10 @ t) \<and> (t = [] \<or> hd t \<noteq> 10)
          else i = t)"

lemma strip_leader_iff: "strip_leader leader i = t \<longleftrightarrow> shipped_text leader t i"
  by (auto simp: strip_leader_def shipped_text_def dropWhile_lf starts_with_iff
      split: option.splits)

definition holds_text :: "deploy_files \<Rightarrow> pystr \<Rightarrow> pystr \<Rightarrow> bool" where
  "holds_text D p t \<longleftrightarrow>
     ds_is_file D p = Inr True \<and>
     (\<exists>s. ds_read D p = Inr (utf8_encode s) \<and> list_all scalar s \<and> t = universal_newlines s)"

lemma scalar_two: "\<not> b < 0xC2 \<Longrightarrow> b < 0xE0 \<Longrightarrow> is_cont c \<Longrightarrow> scalar ((b - 0xC0) * 64 + (c - 0x80))"
  by (auto simp: scalar_def is_surrogate_def is_cont_def)

lemma scalar_three:
  assumes "\<not> b < 0xE0" "b < 0xF0" "second_ok b c" "is_cont d"
  shows "scalar ((b - 0xE0) * 4096 + (c - 0x80) * 64 + (d - 0x80))"
proof -
  have c: "128 \<le> c" "c < 192" "b = 0xED \<Longrightarrow> c < 160" and d: "128 \<le> d" "d < 192"
    using assms by (auto simp: second_ok_def is_cont_def)
  consider "b < 0xED" | "b = 0xED" | "0xEE \<le> b" by linarith
  then show ?thesis
    using assms(1,2) c d by cases (auto simp: scalar_def is_surrogate_def)
qed

lemma scalar_four:
  assumes "\<not> b < 0xF0" "b < 0xF5" "second_ok b c" "is_cont d" "is_cont e"
  shows "scalar ((b - 0xF0) * 262144 + (c - 0x80) * 4096 + (d - 0x80) * 64 + (e - 0x80))"
proof -
  have c: "128 \<le> c" "c < 192" "b = 0xF0 \<Longrightarrow> 144 \<le> c" "b = 0xF4 \<Longrightarrow> c < 144"
    and d: "128 \<le> d" "d < 192" "128 \<le> e" "e < 192"
    using assms by (auto simp: second_ok_def is_cont_def)
  consider "b = 0xF0" | "0xF1 \<le> b" "b < 0xF4" | "b = 0xF4" using assms(1,2) by linarith
  then show ?thesis
    using c d by cases (auto simp: scalar_def is_surrogate_def)
qed

lemma scalar_replacement [simp]: "scalar 0xFFFD"
  by (simp add: scalar_def is_surrogate_def)

lemma decode_scalar: "list_all scalar (utf8_decode b)"
proof (induction b rule: length_induct)
  case (1 b)
  then have IH: "list_all scalar (utf8_decode ys)" if "length ys < length b" for ys
    using that by blast
  have step: "list_all scalar (utf8_decode (x # xs))" if "length xs < length b" for x xs
    unfolding utf8_decode.simps(2)
    using that
    by (simp only: list.split [of "list_all scalar"] if_split [of "list_all scalar"],
        intro conjI impI allI)
      (auto simp: list.pred_inject intro: IH scalar_low scalar_two scalar_three scalar_four)
  show ?case
    using step by (cases b) simp_all
qed

lemma read_utf8_encode: "list_all scalar s \<Longrightarrow> read_utf8 (utf8_encode s) = Some (universal_newlines s)"
  by (simp add: read_utf8_def list_all_iff decode_encode)

lemma read_utf8_iff:
  "read_utf8 b = Some t \<longleftrightarrow>
     (\<exists>s. b = utf8_encode s \<and> list_all scalar s \<and> t = universal_newlines s)"
proof
  assume "read_utf8 b = Some t"
  then have "utf8_encode (utf8_decode b) = b" "t = universal_newlines (utf8_decode b)"
    by (auto simp: read_utf8_def Let_def split: if_splits)
  then show "\<exists>s. b = utf8_encode s \<and> list_all scalar s \<and> t = universal_newlines s"
    using decode_scalar [of b] by metis
qed (auto simp: read_utf8_encode)

lemma read_text_iff:
  "ds_is_file D p = Inr True \<and> read_text D p = Read_text t \<longleftrightarrow> holds_text D p t"
  unfolding holds_text_def read_text_def read_utf8_iff [symmetric]
  by (cases "ds_read D p") (auto simp: read_utf8_iff [symmetric] read_utf8_encode split: option.splits)

text \<open>A pair is clean exactly when both files are there, readable and UTF-8, and the installed text
  is the shipped one.\<close>

definition deployed_as_shipped ::
  "deploy_files \<Rightarrow> pystr \<Rightarrow> pystr option \<Rightarrow> managed_pair \<Rightarrow> bool" where
  "deployed_as_shipped D base prefix pr \<longleftrightarrow>
     (\<exists>t i. holds_text D (path_join base (pr_template pr)) t \<and>
       holds_text D (resolve_install_path (pr_path pr) prefix) i \<and>
       shipped_text (pr_leader pr) t i)"

lemma compare_texts_ok:
  "fst (compare_texts pr r q) = OkStatus \<longleftrightarrow>
     (\<exists>t i. r = Read_text t \<and> q = Read_text i \<and> shipped_text (pr_leader pr) t i)"
  by (auto simp: compare_texts_def unread_def strip_leader_iff split: text_read.splits)

lemma verify_pair_ok:
  "(case verify_pair D pr base prefix of Inl e \<Rightarrow> False | Inr f \<Rightarrow> fi_status f = OkStatus) \<longleftrightarrow>
     deployed_as_shipped D base prefix pr"
  unfolding deployed_as_shipped_def verify_pair_def Let_def read_text_iff [symmetric]
  by (auto simp: compare_texts_ok case_prod_beta split: sum.splits bool.splits)

lemma verify_deploy_clean:
  "(case verify_deploy D templates prefix pairs of Inl e \<Rightarrow> False | Inr fs \<Rightarrow> report_ok fs) \<longleftrightarrow>
     (case resolve_templates_dir D templates of
        Inr (Some base) \<Rightarrow> list_all (deployed_as_shipped D base prefix) pairs
      | Inr None \<Rightarrow> pairs = []
      | Inl e \<Rightarrow> False)"
proof -
  have none: "report_ok (map unresolved_row pairs) \<longleftrightarrow> pairs = []"
    by (cases pairs) (simp_all add: report_ok_def unresolved_row_def)
  have some: "(case collect (\<lambda>pr. verify_pair D pr base prefix) pairs of
      Inl e \<Rightarrow> False | Inr fs \<Rightarrow> report_ok fs) \<longleftrightarrow>
      list_all (deployed_as_shipped D base prefix) pairs" for base
    unfolding report_ok_def collect_ok verify_pair_ok ..
  show ?thesis
    by (cases "resolve_templates_dir D templates")
      (simp_all add: verify_deploy_def none some split: option.split)
qed

subsection \<open>Two divergences\<close>

definition two_files :: "bytes \<Rightarrow> bytes \<Rightarrow> deploy_files" where
  "two_files template installed =
     \<lparr>ds_is_file = (\<lambda>p. Inr True), ds_is_dir = (\<lambda>p. Inr True),
      ds_read = (\<lambda>p. if starts_with (asc ''/templates/'') p then Inr template else Inr installed),
      ds_reason = (\<lambda>b. []), ds_package = None, ds_parents = []\<rparr>"

text \<open>The comparison is said to be byte for byte, but a copy with other line ends is clean, and so is
  one whose marker is glued to the first line.\<close>

lemma crlf_copy_is_clean:
  "map_sum id (\<lambda>f. fi_status f)
     (verify_pair (two_files [97, 10, 98, 10] [97, 13, 10, 98, 13, 10]) (DEFAULT_PAIRS ! 0)
        (asc ''/templates'') None) = Inr OkStatus"
  "map_sum id (\<lambda>f. fi_status f)
     (verify_pair (two_files [97, 10] (asc ''# relay-shell:install-edge:manageda'' @ [10]))
        (DEFAULT_PAIRS ! 3) (asc ''/templates'') None) = Inr OkStatus"
  by code_simp+

text \<open>\<open>verify_deploy\<close> is said never to raise, but a directory it may not search ends it.\<close>

lemma denied_directory_raises:
  "verify_deploy ((two_files [] [])\<lparr>ds_is_file := (\<lambda>p.
       if starts_with (asc ''/templates/'') p then Inr True else Inl (asc ''Permission denied''))\<rparr>)
     (Some (asc ''/templates'')) None DEFAULT_PAIRS = Inl (asc ''Permission denied'')"
  by code_simp

end
