(* ===== verification/Shelltools.thy ===== *)
theory Shelltools
  imports Relay Inventory
begin

text \<open>
  \<open>src/relay_shell/shelltools.py\<close>: the environment of a local child, the words of a command
  that runs without a shell, the bounded collection of its output, and the one-shot runs
  \<open>run_command\<close> and \<open>run_script\<close>. What the operating system does with a spawn request is a
  parameter (\<open>child\<close>); the requests made of it are returned in order. \<open>shlex.split\<close> and
  \<open>shlex.quote\<close> are the reader and the quoting of the standard library.
\<close>

subsection \<open>\<open>shlex\<close>\<close>

definition shlex_space :: "nat \<Rightarrow> bool" where
  "shlex_space c \<longleftrightarrow> c = 32 \<or> c = 9 \<or> c = 13 \<or> c = 10"

datatype lex_state = Between | Word | Quoted nat | Escaped "nat option"

text \<open>The state machine of \<open>shlex.read_token\<close> with \<open>posix\<close> and \<open>whitespace_split\<close> set and no
  comment characters: the state, whether the token had a quoted part, the token so far and the
  rest. \<open>Escaped q\<close> is the state after a backslash, inside the quotes \<open>q\<close> or outside any.\<close>

fun shlex_read :: "lex_state \<Rightarrow> bool \<Rightarrow> pystr \<Rightarrow> pystr \<Rightarrow> exn + pystr list" where
  "shlex_read Between quoted cur [] = Inr []"
| "shlex_read Between quoted cur (c # s) =
     (if shlex_space c then shlex_read Between quoted cur s
      else if c = 92 then shlex_read (Escaped None) quoted [] s
      else if c = 39 \<or> c = 34 then shlex_read (Quoted c) quoted [] s
      else shlex_read Word quoted [c] s)"
| "shlex_read Word quoted cur [] = Inr (if quoted \<or> cur \<noteq> [] then [cur] else [])"
| "shlex_read Word quoted cur (c # s) =
     (if shlex_space c
      then (if quoted \<or> cur \<noteq> [] then map_sum (\<lambda>e. e) ((#) cur) (shlex_read Between False [] s)
            else shlex_read Between quoted [] s)
      else if c = 39 \<or> c = 34 then shlex_read (Quoted c) quoted cur s
      else if c = 92 then shlex_read (Escaped None) quoted cur s
      else shlex_read Word quoted (cur @ [c]) s)"
| "shlex_read (Quoted q) quoted cur [] =
     Inl \<lparr>exn_class = asc ''ValueError'', exn_text = asc ''No closing quotation''\<rparr>"
| "shlex_read (Quoted q) quoted cur (c # s) =
     (if c = q then shlex_read Word True cur s
      else if c = 92 \<and> q = 34 then shlex_read (Escaped (Some q)) True cur s
      else shlex_read (Quoted q) True (cur @ [c]) s)"
| "shlex_read (Escaped q) quoted cur [] =
     Inl \<lparr>exn_class = asc ''ValueError'', exn_text = asc ''No escaped character''\<rparr>"
| "shlex_read (Escaped q) quoted cur (c # s) =
     (case q of
        None \<Rightarrow> shlex_read Word quoted (cur @ [c]) s
      | Some d \<Rightarrow>
          shlex_read (Quoted d) quoted (if c \<noteq> 92 \<and> c \<noteq> d then cur @ [92, c] else cur @ [c]) s)"

definition shlex_split :: "pystr \<Rightarrow> exn + pystr list" where
  "shlex_split s = shlex_read Between False [] s"

text \<open>The characters \<open>shlex.quote\<close> leaves alone: \<open>[A-Za-z0-9_@%+=:,./-]\<close>.\<close>

definition quote_safe :: "nat \<Rightarrow> bool" where
  "quote_safe c \<longleftrightarrow> (48 \<le> c \<and> c \<le> 57) \<or> (65 \<le> c \<and> c \<le> 90) \<or> (97 \<le> c \<and> c \<le> 122) \<or>
     c \<in> {95, 64, 37, 43, 61, 58, 44, 46, 47, 45}"

definition shlex_quote :: "pystr \<Rightarrow> pystr" where
  "shlex_quote s =
     (if s = [] then [39, 39]
      else if list_all quote_safe s then s
      else [39] @ replace_char 39 [39, 34, 39, 34, 39] s @ [39])"

subsection \<open>The environment and the command\<close>

definition set_default :: "pystr \<Rightarrow> pystr \<Rightarrow> (pystr, pystr) dict \<Rightarrow> (pystr, pystr) dict" where
  "set_default k v d = (case dget d k of None \<Rightarrow> dset k v d | Some _ \<Rightarrow> d)"

fun overlay_env ::
  "(json \<Rightarrow> pystr) \<Rightarrow> (pystr, json) dict \<Rightarrow> (pystr, pystr) dict \<Rightarrow> (pystr, pystr) dict" where
  "overlay_env repr [] d = d"
| "overlay_env repr ((name, v) # rest) d =
     overlay_env repr rest (case v of JNull \<Rightarrow> ddel name d | _ \<Rightarrow> dset name (py_str repr v) d)"

definition build_env ::
  "(json \<Rightarrow> pystr) \<Rightarrow> (pystr, pystr) dict \<Rightarrow> pystr \<Rightarrow> (pystr, pystr) dict" where
  "build_env repr environ overlay_json =
     (let d = set_default (asc ''PATH'')
                (asc ''/usr/local/sbin:/usr/local/bin:/usr/sbin:/usr/bin:/sbin:/bin'') environ;
          d = set_default (asc ''LANG'') (asc ''C.UTF-8'') d;
          d = dset (asc ''DEBIAN_FRONTEND'') (asc ''noninteractive'') d;
          d = dset (asc ''GIT_TERMINAL_PROMPT'') (asc ''0'') d
      in if strip overlay_json = [] then d
         else case loads overlay_json of
                Some (JObj extra) \<Rightarrow> overlay_env repr extra d
              | _ \<Rightarrow> d)"

definition spawn_argv :: "pystr \<Rightarrow> exn + pystr list" where
  "spawn_argv command =
     (if strip command = [] then Inr [asc ''/bin/bash''] else shlex_split command)"

text \<open>\<open>str.encode("utf-8")\<close>: the exception names the first run of lone surrogates.\<close>

definition surrogate_error :: "pystr \<Rightarrow> exn" where
  "surrogate_error s =
     (let n = length (takeWhile (\<lambda>c. \<not> is_surrogate c) s);
          bad = takeWhile is_surrogate (drop n s)
      in \<lparr>exn_class = asc ''UnicodeEncodeError'',
          exn_text = [39] @ asc ''utf-8'' @ [39] @
            (if length bad = 1
             then asc '' codec can't encode character '' @ [39, 92, 117] @ hex4 (hd bad) @ [39] @
               asc '' in position '' @ show_int (int n)
             else asc '' codec can't encode characters in position '' @ show_int (int n) @ [45] @
               show_int (int (n + length bad) - 1)) @
            asc '': surrogates not allowed''\<rparr>)"

definition encode_strict :: "pystr \<Rightarrow> exn + bytes" where
  "encode_strict s =
     (if list_all (\<lambda>c. \<not> is_surrogate c) s then Inr (utf8_encode s) else Inl (surrogate_error s))"

subsection \<open>Collecting the output\<close>

record local_output =
  lo_out :: bytes
  lo_err :: bytes
  lo_kept :: nat

text \<open>One chunk of one stream (\<open>True\<close>: stderr) in \<open>_drain_capped\<close>.\<close>

definition drain_capped :: "nat option \<Rightarrow> bool \<times> bytes \<Rightarrow> local_output \<Rightarrow> local_output" where
  "drain_capped cap c d =
     (case c of (is_err, chunk) \<Rightarrow>
        let add = (\<lambda>piece d. if is_err then d\<lparr>lo_err := lo_err d @ piece\<rparr>
                             else d\<lparr>lo_out := lo_out d @ piece\<rparr>)
        in case cap of
             None \<Rightarrow> add chunk d
           | Some n \<Rightarrow>
               let budget = int n - int (lo_kept d) in
               if budget > 0
               then let piece = take (nat budget) chunk
                    in add piece (d\<lparr>lo_kept := lo_kept d + length piece\<rparr>)
               else d)"

text \<open>How the child's run ended: it never started, it exited (what it wrote, in order, tagged
  by stream), the timeout fired, or the caller was cancelled.\<close>

datatype child_outcome =
    SpawnFailed exn
  | Exited "(bool \<times> bytes) list" int
  | TimedOut
  | CallerCancelled

datatype program = Shell pystr | Exec "pystr list"

record spawn_request =
  sr_program :: program
  sr_cwd :: "pystr option"
  sr_env :: "(pystr, pystr) dict"
  sr_stdin_pipe :: bool
  sr_merge :: bool

datatype os_call = Spawn spawn_request | Feed bytes | KillGroup | StopMonitor

definition drive_cap :: "int option \<Rightarrow> nat option" where
  "drive_cap output_cap =
     (case output_cap of None \<Rightarrow> None | Some n \<Rightarrow> if n > 0 then Some (nat n) else None)"

definition collect :: "int option \<Rightarrow> bool \<Rightarrow> (bool \<times> bytes) list \<Rightarrow> pystr" where
  "collect output_cap merge_stderr chunks =
     (let d = fold (drain_capped (drive_cap output_cap))
                (map (\<lambda>(is_err, b). (is_err \<and> \<not> merge_stderr, b)) chunks)
                \<lparr>lo_out = [], lo_err = [], lo_kept = 0\<rparr>
      in utf8_decode (lo_out d) @
         (if \<not> merge_stderr \<and> lo_err d \<noteq> [] then utf8_decode (lo_err d) else []))"

text \<open>\<open>_drive\<close>, on a child that started.\<close>

definition drive ::
  "bytes option \<Rightarrow> int \<Rightarrow> bool \<Rightarrow> int option \<Rightarrow> child_outcome \<Rightarrow> work_outcome \<times> os_call list" where
  "drive stdin_data timeout merge_stderr output_cap oc =
     (let fed = (case stdin_data of None \<Rightarrow> [] | Some b \<Rightarrow> [Feed b]) in
      case oc of
        Exited chunks code \<Rightarrow> (Done (collect output_cap merge_stderr chunks) (Some code), fed)
      | TimedOut \<Rightarrow>
          (Done (asc ''[TIMEOUT after '' @ show_int timeout @ asc ''s]'') None, fed @ [KillGroup])
      | CallerCancelled \<Rightarrow> (Cancelled, fed @ [KillGroup])
      | SpawnFailed e \<Rightarrow> (Done (fmt_exc e) None, []))"

subsection \<open>One-shot runs\<close>

text \<open>The per-call seccomp monitor: absent, present but not armed (\<open>arm\<close> returned no options),
  or armed, with its \<open>wrap_argv\<close>.\<close>

datatype monitor_use = NoMonitor | Unarmed | Armed "pystr list \<Rightarrow> pystr list"

definition wrap_argv ::
  "pystr \<Rightarrow> pystr \<Rightarrow> nat option \<Rightarrow> nat \<Rightarrow> pystr \<Rightarrow> pystr list \<Rightarrow> pystr list" where
  "wrap_argv executable launcher csock exec_w arch argv =
     (case csock of
        None \<Rightarrow> argv
      | Some fd \<Rightarrow>
          [executable, asc ''-I'', asc ''-S'', launcher, show_int (int fd), show_int (int exec_w),
           arch, asc ''--''] @ argv)"

definition stop_monitor :: "monitor_use \<Rightarrow> os_call list" where
  "stop_monitor m = (case m of NoMonitor \<Rightarrow> [] | _ \<Rightarrow> [StopMonitor])"

record command_args =
  ca_command :: pystr
  ca_timeout :: int
  ca_cwd :: pystr
  ca_stdin :: pystr
  ca_merge_stderr :: bool
  ca_use_shell :: bool
  ca_env_json :: pystr
  ca_output_cap :: "int option"

definition opt_text :: "pystr \<Rightarrow> pystr option" where
  "opt_text s = (if s = [] then None else Some s)"

text \<open>Spawning, driving and stopping the monitor.\<close>

definition spawn_and_drive ::
  "monitor_use \<Rightarrow> (spawn_request \<Rightarrow> child_outcome) \<Rightarrow> spawn_request \<Rightarrow> bytes option \<Rightarrow> int \<Rightarrow>
   int option \<Rightarrow> work_outcome \<times> os_call list" where
  "spawn_and_drive m child rq stdin_data timeout output_cap =
     (case drive stdin_data timeout (sr_merge rq) output_cap (child rq) of
        (oc, calls) \<Rightarrow> (oc, Spawn rq # calls @ stop_monitor m))"

definition run_command ::
  "(json \<Rightarrow> pystr) \<Rightarrow> (pystr, pystr) dict \<Rightarrow> monitor_use \<Rightarrow> (spawn_request \<Rightarrow> child_outcome) \<Rightarrow>
   command_args \<Rightarrow> work_outcome \<times> os_call list" where
  "run_command repr environ m child a =
     (case (if ca_stdin a = [] then Inr None else map_sum (\<lambda>e. e) Some (encode_strict (ca_stdin a))) of
        Inl e \<Rightarrow> (Raised e, [])
      | Inr stdin_data \<Rightarrow>
          (case (if ca_use_shell a then Inr [] else shlex_split (ca_command a)) of
             Inl e \<Rightarrow> (Raised e, [])
           | Inr argv \<Rightarrow>
               if \<not> ca_use_shell a \<and> argv = [] then (Done (asc ''[ERROR: empty command]'') None, [])
               else
                 let target = (if ca_use_shell a then [asc ''/bin/sh'', asc ''-c'', ca_command a]
                               else argv);
                     rq = \<lparr>sr_program = (case m of
                             Armed wrap \<Rightarrow> Exec (wrap target)
                           | _ \<Rightarrow> if ca_use_shell a then Shell (ca_command a) else Exec argv),
                           sr_cwd = opt_text (ca_cwd a),
                           sr_env = build_env repr environ (ca_env_json a),
                           sr_stdin_pipe = (stdin_data \<noteq> None), sr_merge = ca_merge_stderr a\<rparr>
                 in spawn_and_drive m child rq stdin_data (ca_timeout a) (ca_output_cap a)))"

record script_args =
  sa_script :: pystr
  sa_interpreter :: pystr
  sa_strict :: bool
  sa_timeout :: int
  sa_cwd :: pystr
  sa_env_json :: pystr
  sa_output_cap :: "int option"

text \<open>The interpreter's argv and the text it is fed.\<close>

definition script_plan :: "pystr \<Rightarrow> script_args \<Rightarrow> (pystr list \<times> pystr) option" where
  "script_plan executable a =
     (let interp = lower (strip (sa_interpreter a)) in
      if interp = asc ''bash'' \<or> interp = asc ''sh'' then
        Some ([if interp = asc ''bash'' then asc ''/bin/bash'' else asc ''/bin/sh'', asc ''-s''],
              (if sa_strict a
               then (if interp = asc ''bash'' then asc ''set -euo pipefail'' else asc ''set -eu'') @
                 [10] @ sa_script a
               else sa_script a))
      else if interp = asc ''python'' \<or> interp = asc ''python3'' \<or> interp = asc ''py'' then
        Some ([if executable = [] then asc ''python3'' else executable, asc ''-''], sa_script a)
      else None)"

text \<open>The text is encoded only once the child runs: \<open>encode\<close> raises past a started child.\<close>

definition run_script ::
  "(json \<Rightarrow> pystr) \<Rightarrow> (pystr, pystr) dict \<Rightarrow> pystr \<Rightarrow> monitor_use \<Rightarrow>
   (spawn_request \<Rightarrow> child_outcome) \<Rightarrow> script_args \<Rightarrow> work_outcome \<times> os_call list" where
  "run_script repr environ executable m child a =
     (case script_plan executable a of
        None \<Rightarrow>
          (Done (asc ''[ERROR: unsupported interpreter: '' @ sa_interpreter a @ asc '']'') None, [])
      | Some (argv, body) \<Rightarrow>
          let rq = \<lparr>sr_program = Exec (case m of Armed wrap \<Rightarrow> wrap argv | _ \<Rightarrow> argv),
                    sr_cwd = opt_text (sa_cwd a), sr_env = build_env repr environ (sa_env_json a),
                    sr_stdin_pipe = True, sr_merge = True\<rparr>
          in case (child rq, encode_strict body) of
               (SpawnFailed e, _) \<Rightarrow> (Done (fmt_exc e) None, Spawn rq # stop_monitor m)
             | (_, Inl e) \<Rightarrow> (Raised e, Spawn rq # stop_monitor m)
             | (_, Inr data) \<Rightarrow>
                 spawn_and_drive m child rq (Some data) (sa_timeout a) (sa_output_cap a))"

end
