(* ===== verification/World.thy ===== *)
theory World
  imports Shelltools SshPool Sessions
begin

text \<open>
  The state the tools of \<open>src/relay_shell/server.py\<close> work on (\<open>world\<close>: the session registry, the
  SSH pool, the inventory, the known\_hosts file, and what was asked of the operating system and
  of \<open>asyncssh\<close>), the answers of everything outside the program (\<open>outside\<close>), and the operations
  of \<open>SshPool\<close> as whole calls. A call is run here without another call in between; the
  interleavings of the single steps are the machine of \<open>SshPoolProps\<close>.
\<close>

subsection \<open>The world\<close>

record world =
  wo_sessions :: registry
  wo_pool :: pool
  wo_inventory :: inventory_state
  wo_known_hosts :: file_state
  wo_transports :: "(pystr, nat option) dict"
  wo_os :: "os_call list"
  wo_dialled :: "(pystr \<times> connect_opts) list"
  wo_commands :: "(nat \<times> pystr) list"

text \<open>What an awaited operation of a library gives back.\<close>

datatype 'a answer = Got 'a | Fails exn | Aborted

text \<open>How a remote command ended: its output and exit status, or the timeout.\<close>

datatype remote_run = Finished "(bool \<times> bytes) list" "int option" | Expired

record outside =
  ot_now :: real
  ot_id :: pystr
  ot_rc :: "pystr \<Rightarrow> int option"
  ot_echo_off :: "pystr \<Rightarrow> bool"
  ot_secret_prompt :: "pystr \<Rightarrow> bool"
  ot_write :: "pystr \<Rightarrow> bytes \<Rightarrow> exn option"
  ot_child :: "spawn_request \<Rightarrow> child_outcome"
  ot_pty :: "pystr list \<Rightarrow> pystr option \<Rightarrow> (pystr, pystr) dict \<Rightarrow> exn option"
  ot_environ :: "(pystr, pystr) dict"
  ot_executable :: pystr
  ot_monitor :: monitor_use
  ot_repr :: "json \<Rightarrow> pystr"
  ot_py_text :: "py_error \<Rightarrow> pystr"
  ot_round :: "real \<Rightarrow> pystr"
  ot_float :: "real \<Rightarrow> pystr"
  ot_waits :: "(real \<times> session_event list) list"
  ot_ip6 :: ip6_reader
  ot_host_match :: host_key_match
  ot_known_path :: pystr
  ot_config_file :: "pystr option"
  ot_join :: "nat \<Rightarrow> nat answer"
  ot_dial :: "pystr \<Rightarrow> connect_opts \<Rightarrow> (nat \<times> pystr) answer"
  ot_run :: "nat \<Rightarrow> pystr \<Rightarrow> remote_run answer"
  ot_process :: "nat \<Rightarrow> unit answer"
  ot_transfer :: "nat \<Rightarrow> bool answer"
  ot_listen :: "nat \<Rightarrow> listen_request \<Rightarrow> (nat \<times> int) answer"

definition py_class :: "py_error \<Rightarrow> pystr" where
  "py_class e =
     (case e of ValueError \<Rightarrow> asc ''ValueError'' | UnicodeEncodeError \<Rightarrow> asc ''UnicodeEncodeError''
      | AttributeError \<Rightarrow> asc ''AttributeError'')"

definition ssh_exn :: "(py_error \<Rightarrow> pystr) \<Rightarrow> ssh_error \<Rightarrow> exn" where
  "ssh_exn msg e =
     (case e of
        RelayError m \<Rightarrow> \<lparr>exn_class = asc ''RelayError'', exn_text = m\<rparr>
      | ForwardError m \<Rightarrow> \<lparr>exn_class = asc ''ForwardError'', exn_text = m\<rparr>
      | PyError p \<Rightarrow> \<lparr>exn_class = py_class p, exn_text = msg p\<rparr>)"

definition session_exn :: "session_error \<Rightarrow> exn" where
  "session_exn e =
     \<lparr>exn_class = asc ''SessionError'',
      exn_text = (case e of
          SessionLimit n \<Rightarrow> asc ''session limit reached ('' @ show_int (int n) @
            asc ''); close idle sessions first''
        | UnknownSession sid \<Rightarrow> asc ''unknown session: '' @ sid)\<rparr>"

subsection \<open>Registry operations in the world\<close>

text \<open>The transports of SSH sessions hold a pin; closing the transport gives it back.\<close>

definition release_transport :: "real \<Rightarrow> transport_call \<Rightarrow> world \<Rightarrow> world" where
  "release_transport now c w =
     (case c of
        TClose sid \<Rightarrow>
          (case dget (wo_transports w) sid of
             Some entry \<Rightarrow> w\<lparr>wo_pool := transport_aclose entry now (wo_pool w),
                             wo_transports := ddel sid (wo_transports w)\<rparr>
           | None \<Rightarrow> w)
      | _ \<Rightarrow> w)"

definition on_registry ::
  "outside \<Rightarrow> (registry \<Rightarrow> 'a \<times> registry) \<Rightarrow> world \<Rightarrow> 'a \<times> world" where
  "on_registry X f w =
     (case f (wo_sessions w) of
        (a, r) \<Rightarrow>
          (a, fold (release_transport (ot_now X)) (drop (length (rg_calls (wo_sessions w))) (rg_calls r))
                (w\<lparr>wo_sessions := r\<rparr>)))"

subsection \<open>The pool's operations as whole calls\<close>

definition with_pool :: "(pool \<Rightarrow> pool) \<Rightarrow> world \<Rightarrow> world" where
  "with_pool f w = w\<lparr>wo_pool := f (wo_pool w)\<rparr>"

text \<open>The owner's part of \<open>connect\<close>: dial, record the host key, cache the connection.\<close>

definition ssh_dial ::
  "outside \<Rightarrow> settings \<Rightarrow> connect_plan \<Rightarrow> int \<Rightarrow> nat \<Rightarrow> world \<Rightarrow> nat answer \<times> world" where
  "ssh_dial X s cp connect_timeout f w =
     (case dial s (ot_host_match X) (ot_known_path X) (ot_config_file X) connect_timeout cp
             (wo_known_hosts w) of
        Inl e \<Rightarrow> (Fails (ssh_exn (ot_py_text X) e), with_pool (connect_failed (cp_key cp) f False) w)
      | Inr opts \<Rightarrow>
          let w = w\<lparr>wo_dialled := wo_dialled w @ [(cp_hostname cp, opts)]\<rparr>
          in case ot_dial X (cp_hostname cp) opts of
               Fails e \<Rightarrow> (Fails e, with_pool (connect_failed (cp_key cp) f False) w)
             | Aborted \<Rightarrow> (Aborted, with_pool (connect_failed (cp_key cp) f True) w)
             | Got (conn, exported) \<Rightarrow>
                 let w = w\<lparr>wo_known_hosts :=
                        file_after_dial (ot_host_match X) exported cp (wo_known_hosts w)\<rparr>
                 in case connect_done (max_conns s) (cp_key cp) f conn (ot_now X) (wo_pool w) of
                      (kept, p) \<Rightarrow> (if kept then Got conn else Aborted, w\<lparr>wo_pool := p\<rparr>))"

definition ssh_connect ::
  "outside \<Rightarrow> settings \<Rightarrow> pystr \<Rightarrow> connect_kwargs \<Rightarrow> world \<Rightarrow> nat answer \<times> world" where
  "ssh_connect X s target ck w =
     (case plan_connect (ot_repr X) s (wo_inventory w) target ck of
        Inl e \<Rightarrow> (Fails (ssh_exn (ot_py_text X) e), w)
      | Inr cp \<Rightarrow>
          (case connect_begin (of_int (ssh_idle_timeout s)) (cp_key cp) (ot_now X) (wo_pool w) of
             (Hit c, p) \<Rightarrow> (Got c, w\<lparr>wo_pool := p\<rparr>)
           | (Join f, p) \<Rightarrow> (ot_join X f, w\<lparr>wo_pool := p\<rparr>)
           | (Own f, p) \<Rightarrow> ssh_dial X s cp (ck_connect_timeout ck) f (w\<lparr>wo_pool := p\<rparr>)))"

text \<open>\<open>_pinned\<close>: the body runs while the connection's cache entry is pinned.\<close>

definition pinned :: "outside \<Rightarrow> nat \<Rightarrow> world \<Rightarrow> world" where
  "pinned X conn w =
     (case pin conn (ot_now X) (wo_pool w) of
        (entry, p) \<Rightarrow> w\<lparr>wo_pool := unpin entry (ot_now X) p\<rparr>)"

definition ssh_run ::
  "outside \<Rightarrow> settings \<Rightarrow> pystr \<Rightarrow> pystr \<Rightarrow> int \<Rightarrow> connect_kwargs \<Rightarrow> int option \<Rightarrow> world \<Rightarrow>
   work_outcome \<times> world" where
  "ssh_run X s target command timeout ck max_output_bytes w =
     (case ssh_connect X s target ck w of
        (Fails e, w) \<Rightarrow> (Raised e, w)
      | (Aborted, w) \<Rightarrow> (Cancelled, w)
      | (Got conn, w) \<Rightarrow>
          (case ot_run X conn command of
             Got (Finished chunks code) \<Rightarrow> Done (run_output max_output_bytes chunks) code
           | Got Expired \<Rightarrow> Done (run_timeout_text timeout) None
           | Fails e \<Rightarrow> Raised e
           | Aborted \<Rightarrow> Cancelled,
           pinned X conn (w\<lparr>wo_commands := wo_commands w @ [(conn, command)]\<rparr>)))"

text \<open>The pin of an interactive process belongs to its transport.\<close>

definition ssh_open_process ::
  "outside \<Rightarrow> settings \<Rightarrow> pystr \<Rightarrow> pystr \<Rightarrow> connect_kwargs \<Rightarrow> world \<Rightarrow> nat option answer \<times> world" where
  "ssh_open_process X s target command ck w =
     (case ssh_connect X s target ck w of
        (Fails e, w) \<Rightarrow> (Fails e, w)
      | (Aborted, w) \<Rightarrow> (Aborted, w)
      | (Got conn, w) \<Rightarrow>
          let w = w\<lparr>wo_commands := wo_commands w @ [(conn, command)]\<rparr> in
          (case ot_process X conn of
             Fails e \<Rightarrow> (Fails e, w)
           | Aborted \<Rightarrow> (Aborted, w)
           | Got _ \<Rightarrow>
               (case pin conn (ot_now X) (wo_pool w) of (entry, p) \<Rightarrow> (Got entry, w\<lparr>wo_pool := p\<rparr>))))"

text \<open>\<open>ot_transfer\<close>: whether \<open>wait_for\<close> expired.\<close>

definition ssh_transfer ::
  "outside \<Rightarrow> settings \<Rightarrow> bool \<Rightarrow> pystr \<Rightarrow> pystr \<Rightarrow> int \<Rightarrow> connect_kwargs \<Rightarrow> world \<Rightarrow>
   work_outcome \<times> world" where
  "ssh_transfer X s upload target route timeout ck w =
     (case ssh_connect X s target ck w of
        (Fails e, w) \<Rightarrow> (Raised e, w)
      | (Aborted, w) \<Rightarrow> (Cancelled, w)
      | (Got conn, w) \<Rightarrow>
          (case ot_transfer X conn of
             Got timed_out \<Rightarrow> Done (sftp_message upload route timeout timed_out) None
           | Fails e \<Rightarrow> Raised e
           | Aborted \<Rightarrow> Cancelled,
           pinned X conn w))"

definition ssh_add_forward ::
  "outside \<Rightarrow> settings \<Rightarrow> pystr \<Rightarrow> pystr \<Rightarrow> connect_kwargs \<Rightarrow> world \<Rightarrow>
   forward_handle answer \<times> world" where
  "ssh_add_forward X s target spec ck w =
     (case forward_begin (max_forwards s) spec (wo_pool w) of
        Inl e \<Rightarrow> (Fails (ssh_exn (ot_py_text X) e), w)
      | Inr r \<Rightarrow>
          (case ssh_connect X s target ck w of
             (Fails e, w) \<Rightarrow> (Fails e, w)
           | (Aborted, w) \<Rightarrow> (Aborted, w)
           | (Got conn, w) \<Rightarrow>
               (case pin conn (ot_now X) (wo_pool w) of
                  (entry, p) \<Rightarrow>
                    (case ot_listen X conn (listen_request_of r) of
                       Fails e \<Rightarrow> (Fails e, w\<lparr>wo_pool := forward_failed None entry (ot_now X) p\<rparr>)
                     | Aborted \<Rightarrow> (Aborted, w\<lparr>wo_pool := forward_failed None entry (ot_now X) p\<rparr>)
                     | Got (listener, port) \<Rightarrow>
                         let h = forward_handle_of (gen_id (asc ''fwd'') (ot_id X)) spec r port
                                   listener entry
                         in (case forward_track (max_forwards s) h (ot_now X) p of
                               (Some e, p) \<Rightarrow> (Fails (ssh_exn (ot_py_text X) e), w\<lparr>wo_pool := p\<rparr>)
                             | (None, p) \<Rightarrow> (Got h, w\<lparr>wo_pool := p\<rparr>))))))"

end
