(* ===== verification/LocalTools.thy ===== *)
theory LocalTools
  imports World
begin

text \<open>
  The tools of \<open>build_server\<close> in \<open>src/relay_shell/server.py\<close> for the local shell and the
  interactive sessions: what each submits to \<open>Relay.run\<close> (the call: audit arguments, policy text,
  output budget) and the work it runs. A tool's prelude, before \<open>Relay.run\<close>, may itself raise;
  the exception then leaves the tool without a record (\<open>Escaped\<close>).
\<close>

subsection \<open>Calls\<close>

text \<open>The request id and the verified client of the context.\<close>

record caller =
  cl_request_id :: pystr
  cl_client_id :: pystr

definition plain_call ::
  "caller \<Rightarrow> string \<Rightarrow> (pystr, json) dict \<Rightarrow> pystr \<Rightarrow> int \<Rightarrow> call" where
  "plain_call cl tool args policy_text out_limit =
     \<lparr>c_tool = asc tool, c_request_id = cl_request_id cl, c_client_id = cl_client_id cl,
      c_args = args, c_policy_text = policy_text, c_max_output = out_limit,
      c_min_tier = READ_ONLY, c_extra_notices = [], c_json_notices = False\<rparr>"

datatype tool_reply = Replied reply | Escaped py_error

text \<open>The work of a tool acts on the world.\<close>

type_synonym tool_work = "world \<Rightarrow> work_outcome \<times> world"

definition on_world :: "tool_work \<Rightarrow> world work" where
  "on_world f s = (case f (rl_world s) of (oc, w) \<Rightarrow> (oc, s\<lparr>rl_world := w\<rparr>))"

definition submit ::
  "env \<Rightarrow> py_error + call \<Rightarrow> tool_work \<Rightarrow> world relay \<Rightarrow> tool_reply \<times> world relay" where
  "submit E c f s =
     (case c of
        Inl e \<Rightarrow> (Escaped e, s)
      | Inr c \<Rightarrow> (case relay_run E c (on_world f) s of (r, s') \<Rightarrow> (Replied r, s')))"

definition size_text :: "int \<Rightarrow> int \<Rightarrow> pystr" where
  "size_text cols rows = show_int cols @ asc ''x'' @ show_int rows"

text \<open>The requests a local run made of the operating system.\<close>

definition local_run :: "work_outcome \<times> os_call list \<Rightarrow> tool_work" where
  "local_run r w = (fst r, w\<lparr>wo_os := wo_os w @ snd r\<rparr>)"

subsection \<open>\<open>json.dumps(rows, indent=2)\<close>\<close>

definition indent_by :: "nat \<Rightarrow> pystr" where
  "indent_by n = 10 # replicate (2 * n) 32"

fun pretty :: "nat \<Rightarrow> json \<Rightarrow> pystr" where
  "pretty n (JList []) = asc ''[]''"
| "pretty n (JList (v # vs)) =
     [91] @ indent_by (Suc n) @
     join ([44] @ indent_by (Suc n)) (map (pretty (Suc n)) (v # vs)) @ indent_by n @ [93]"
| "pretty n (JObj []) = asc ''{}''"
| "pretty n (JObj (kv # kvs)) =
     [123] @ indent_by (Suc n) @
     join ([44] @ indent_by (Suc n))
       (map (\<lambda>(k, v). dumps fmt_default (JStr k) @ asc '': '' @ pretty (Suc n) v) (kv # kvs)) @
     indent_by n @ [125]"
| "pretty n v = dumps fmt_default v"

definition rows_text :: "json list \<Rightarrow> pystr" where
  "rows_text rows = (if rows = [] then asc ''[]'' else pretty 0 (JList rows))"

subsection \<open>The local shell\<close>

definition shell_exec_call ::
  "caller \<Rightarrow> settings \<Rightarrow> command_args \<Rightarrow> int \<Rightarrow> int \<Rightarrow> call" where
  "shell_exec_call cl s a timeout out_limit =
     plain_call cl ''shell_exec''
       [(asc ''command'', JStr (ca_command a)), (asc ''timeout'', JInt (exec_timeout s timeout)),
        (asc ''cwd'', JStr (ca_cwd a)), (asc ''use_shell'', JBool (ca_use_shell a)),
        (asc ''stdin'', JStr (ca_stdin a)), (asc ''env_json'', JStr (ca_env_json a))]
       (policy_text_shell_exec (ca_command a) (ca_stdin a) (ca_env_json a)) out_limit"

text \<open>The timeout and the cap of the arguments are the tool's, not the caller's.\<close>

definition shell_exec ::
  "outside \<Rightarrow> env \<Rightarrow> caller \<Rightarrow> command_args \<Rightarrow> int \<Rightarrow> int \<Rightarrow> world relay \<Rightarrow>
   tool_reply \<times> world relay" where
  "shell_exec X E cl a timeout out_limit s =
     (let st = rl_settings s in
      submit E (Inr (shell_exec_call cl st a timeout out_limit))
        (local_run (run_command (ot_repr X) (ot_environ X) (ot_monitor X) (ot_child X)
           (a\<lparr>ca_timeout := exec_timeout st timeout, ca_output_cap := Some (max_output_hard st)\<rparr>))) s)"

definition shell_script_call :: "caller \<Rightarrow> settings \<Rightarrow> script_args \<Rightarrow> int \<Rightarrow> call" where
  "shell_script_call cl s a timeout =
     plain_call cl ''shell_script''
       [(asc ''interpreter'', JStr (sa_interpreter a)), (asc ''strict'', JBool (sa_strict a)),
        (asc ''script'', JStr (sa_script a)), (asc ''timeout'', JInt (clamp_timeout s timeout)),
        (asc ''cwd'', JStr (sa_cwd a)), (asc ''env_json'', JStr (sa_env_json a))]
       (policy_text_shell_script (sa_script a) (sa_env_json a)) 65536"

definition shell_script ::
  "outside \<Rightarrow> env \<Rightarrow> caller \<Rightarrow> script_args \<Rightarrow> int \<Rightarrow> world relay \<Rightarrow> tool_reply \<times> world relay" where
  "shell_script X E cl a timeout s =
     (let st = rl_settings s in
      submit E (Inr (shell_script_call cl st a timeout))
        (local_run (run_script (ot_repr X) (ot_environ X) (ot_executable X) (ot_monitor X) (ot_child X)
           (a\<lparr>sa_timeout := clamp_timeout st timeout, sa_output_cap := Some (max_output_hard st)\<rparr>))) s)"

text \<open>Admission of a spawned transport; \<open>entry\<close> is the pin an SSH transport holds.\<close>

definition admit_session ::
  "outside \<Rightarrow> pystr \<Rightarrow> pystr \<Rightarrow> int \<Rightarrow> int \<Rightarrow> nat option \<Rightarrow> (pystr \<Rightarrow> pystr) \<Rightarrow> tool_work" where
  "admit_session X kind title cols rows entry started w =
     (let sid = gen_id (if kind = asc ''ssh'' then asc ''ssh'' else asc ''sh'') (ot_id X) in
      case on_registry X (register_session (ot_rc X) (ot_now X) sid kind title cols rows)
             (w\<lparr>wo_transports := dset sid entry (wo_transports w)\<rparr>) of
        (Inl e, w) \<Rightarrow> (Raised (session_exn e), w)
      | (Inr sess, w) \<Rightarrow> (Done (started (ss_id sess)) None, w))"

definition shell_spawn_work ::
  "outside \<Rightarrow> pystr \<Rightarrow> int \<Rightarrow> int \<Rightarrow> pystr \<Rightarrow> pystr \<Rightarrow> tool_work" where
  "shell_spawn_work X command cols rows cwd env_json w =
     (case spawn_argv command of
        Inl e \<Rightarrow> (Raised e, w)
      | Inr argv \<Rightarrow>
          (case ot_pty X argv (opt_text cwd) (build_env (ot_repr X) (ot_environ X) env_json) of
             Some e \<Rightarrow> (Raised e, w)
           | None \<Rightarrow>
               admit_session X (asc ''local'') (join [32] argv) cols rows None
                 (\<lambda>sid. asc ''session '' @ sid @ asc '' started ('' @ join [32] argv @
                    asc ''); use session_recv/session_send with this id'') w))"

definition shell_spawn_call ::
  "caller \<Rightarrow> pystr \<Rightarrow> int \<Rightarrow> int \<Rightarrow> pystr \<Rightarrow> pystr \<Rightarrow> call" where
  "shell_spawn_call cl command cols rows cwd env_json =
     plain_call cl ''shell_spawn''
       [(asc ''command'', JStr (if command = [] then asc ''/bin/bash'' else command)),
        (asc ''size'', JStr (size_text cols rows)), (asc ''cwd'', JStr cwd),
        (asc ''env_json'', JStr env_json)]
       (policy_text_shell_spawn command env_json) 4096"

definition shell_spawn ::
  "outside \<Rightarrow> env \<Rightarrow> caller \<Rightarrow> pystr \<Rightarrow> int \<Rightarrow> int \<Rightarrow> pystr \<Rightarrow> pystr \<Rightarrow> world relay \<Rightarrow>
   tool_reply \<times> world relay" where
  "shell_spawn X E cl command cols rows cwd env_json s =
     submit E (Inr (shell_spawn_call cl command cols rows cwd env_json))
       (shell_spawn_work X command cols rows cwd env_json) s"

subsection \<open>Sessions\<close>

text \<open>What of the input reaches the record: decided before the send clears the prompt.\<close>

definition session_send_args ::
  "(bytes \<Rightarrow> pystr) \<Rightarrow> settings \<Rightarrow> bool \<Rightarrow> pystr \<Rightarrow> pystr \<Rightarrow> bool \<Rightarrow> (pystr, json) dict" where
  "session_send_args sha s secret session_id data enter =
     [(asc ''session_id'', JStr session_id), (asc ''enter'', JBool enter)] @
     (if secret
      then [(asc ''data'', JStr (asc ''[REDACTED: secret prompt]'')),
            (asc ''data_len'', JInt (int (length data)))]
      else if audit_session_input s = asc ''hash''
      then [(asc ''data_len'', JInt (int (length data))),
            (asc ''data_sha256'', JStr (sha256_hex sha data))]
      else [(asc ''data'', JStr data)])"

definition session_send_call ::
  "outside \<Rightarrow> env \<Rightarrow> caller \<Rightarrow> pystr \<Rightarrow> pystr \<Rightarrow> bool \<Rightarrow> world relay \<Rightarrow> call" where
  "session_send_call X E cl session_id data enter s =
     (let r = wo_sessions (rl_world s) in
      plain_call cl ''session_send''
        (session_send_args (ev_sha E) (rl_settings s)
           (awaiting_secret (ot_secret_prompt X) (ot_echo_off X) session_id r) session_id data enter)
        (policy_text_session_send data (pending_input session_id r)) 2048)"

definition session_send_work :: "outside \<Rightarrow> pystr \<Rightarrow> pystr \<Rightarrow> bool \<Rightarrow> tool_work" where
  "session_send_work X session_id data enter w =
     (let payload = data @ (if enter then [10] else []) in
      case encode_strict payload of
        Inl e \<Rightarrow> (Raised e, w)
      | Inr b \<Rightarrow>
          (case on_registry X (session_send (ot_now X) session_id b) w of
             (Inl e, w) \<Rightarrow> (Raised (session_exn e), w)
           | (Inr _, w) \<Rightarrow>
               (case ot_write X session_id b of
                  Some e \<Rightarrow> (Raised e, w)
                | None \<Rightarrow>
                    (Done (asc ''sent '' @ show_int (int (length payload)) @ asc '' bytes to '' @
                       session_id) None, w))))"

definition session_send_tool ::
  "outside \<Rightarrow> env \<Rightarrow> caller \<Rightarrow> pystr \<Rightarrow> pystr \<Rightarrow> bool \<Rightarrow> world relay \<Rightarrow>
   tool_reply \<times> world relay" where
  "session_send_tool X E cl session_id data enter s =
     submit E (Inr (session_send_call X E cl session_id data enter s))
       (session_send_work X session_id data enter) s"

text \<open>\<open>SessionRegistry.recv\<close>: one pass under the buffer lock, and the loop. \<open>waits\<close> is what
  happens after each pass that found nothing: the clock reading that decides whether time is
  left, and the steps of others until the wait ends. None when the loop has not ended yet.\<close>

definition recv_pass :: "pystr \<Rightarrow> nat \<Rightarrow> registry \<Rightarrow> pystr option \<times> registry" where
  "recv_pass sid n r =
     (case dget (rg_objs r) sid of
        None \<Rightarrow> (None, r)
      | Some s \<Rightarrow> (poll_text sid (fst (recv_poll n s)), on_session sid (\<lambda>s. snd (recv_poll n s)) r))"

fun recv_loop ::
  "(pystr \<Rightarrow> int option) \<Rightarrow> pystr \<Rightarrow> nat \<Rightarrow> real \<Rightarrow> (real \<times> session_event list) list \<Rightarrow> registry \<Rightarrow>
   pystr option \<times> registry" where
  "recv_loop rc sid n deadline [] r = recv_pass sid n r"
| "recv_loop rc sid n deadline ((t, evs) # waits) r =
     (case recv_pass sid n r of
        (Some txt, r) \<Rightarrow> (Some txt, r)
      | (None, r) \<Rightarrow>
          if deadline - t \<le> 0 then (Some [], r)
          else recv_loop rc sid n deadline waits (foldl (registry_step rc) r evs))"

definition session_recv ::
  "(pystr \<Rightarrow> int option) \<Rightarrow> (real \<times> session_event list) list \<Rightarrow> real \<Rightarrow> pystr \<Rightarrow> real \<Rightarrow> nat \<Rightarrow>
   registry \<Rightarrow> (session_error + pystr option) \<times> registry" where
  "session_recv rc waits now sid timeout n r =
     (case recv_begin now sid r of
        (Inl e, r) \<Rightarrow> (Inl e, r)
      | (Inr _, r) \<Rightarrow>
          (case recv_loop rc sid n (now + max 0 timeout) waits r of
             (txt, r) \<Rightarrow> (Inr txt, on_session sid (recv_leave now) r)))"

text \<open>A call that is still waiting when the readings end was cancelled.\<close>

definition session_recv_tool ::
  "outside \<Rightarrow> env \<Rightarrow> caller \<Rightarrow> pystr \<Rightarrow> real \<Rightarrow> int \<Rightarrow> world relay \<Rightarrow> tool_reply \<times> world relay" where
  "session_recv_tool X E cl session_id timeout max_bytes s =
     (let tmo = max 0 (min timeout 60);
          mb = clamp max_bytes 256 (max_output_hard (rl_settings s))
      in submit E
           (Inr (plain_call cl ''session_recv''
              [(asc ''session_id'', JStr session_id), (asc ''timeout'', JFloat (ot_float X tmo))]
              [] max_bytes))
           (\<lambda>w. case on_registry X (session_recv (ot_rc X) (ot_waits X) (ot_now X) session_id tmo (nat mb)) w of
              (Inl e, w) \<Rightarrow> (Raised (session_exn e), w)
            | (Inr (Some txt), w) \<Rightarrow> (Done txt None, w)
            | (Inr None, w) \<Rightarrow> (Cancelled, w)) s)"

definition session_resize_tool ::
  "outside \<Rightarrow> env \<Rightarrow> caller \<Rightarrow> pystr \<Rightarrow> int \<Rightarrow> int \<Rightarrow> world relay \<Rightarrow> tool_reply \<times> world relay" where
  "session_resize_tool X E cl session_id cols rows s =
     submit E
       (Inr (plain_call cl ''session_resize''
          [(asc ''session_id'', JStr session_id), (asc ''cols'', JInt cols), (asc ''rows'', JInt rows)]
          [] 512))
       (\<lambda>w. let c = clamp cols 1 65535; r = clamp rows 1 65535 in
          case on_registry X (session_resize (ot_now X) session_id c r) w of
            (Inl e, w) \<Rightarrow> (Raised (session_exn e), w)
          | (Inr _, w) \<Rightarrow>
              (Done (asc ''resized '' @ session_id @ asc '' to '' @ size_text c r) None, w)) s"

text \<open>The names of \<open>signal.Signals\<close> are a parameter: the number of a name, if it is one.\<close>

definition session_kill_work ::
  "outside \<Rightarrow> (pystr \<Rightarrow> int option) \<Rightarrow> pystr \<Rightarrow> pystr \<Rightarrow> bool \<Rightarrow> tool_work" where
  "session_kill_work X signals session_id signal_name do_close w =
     (let name = upper (strip signal_name);
          name = (if starts_with (asc ''SIG'') name then drop 3 name else name)
      in case signals (asc ''SIG'' @ name) of
           None \<Rightarrow>
             (Raised \<lparr>exn_class = asc ''RelayError'',
                exn_text = asc ''unknown signal: '' @ ot_repr X (JStr (take 32 signal_name))\<rparr>, w)
         | Some sig \<Rightarrow>
             (case on_registry X (session_kill (ot_now X) session_id sig) w of
                (Inl e, w) \<Rightarrow> (Raised (session_exn e), w)
              | (Inr _, w) \<Rightarrow>
                  if do_close
                  then (case on_registry X (session_close (ot_rc X) session_id) w of
                          (Inl e, w) \<Rightarrow> (Raised (session_exn e), w)
                        | (Inr _, w) \<Rightarrow> (Done (asc ''killed and closed '' @ session_id) None, w))
                  else (Done (asc ''sent SIG'' @ name @ asc '' to '' @ session_id) None, w)))"

definition session_kill_tool ::
  "outside \<Rightarrow> (pystr \<Rightarrow> int option) \<Rightarrow> env \<Rightarrow> caller \<Rightarrow> pystr \<Rightarrow> pystr \<Rightarrow> bool \<Rightarrow> world relay \<Rightarrow>
   tool_reply \<times> world relay" where
  "session_kill_tool X signals E cl session_id signal_name do_close s =
     submit E
       (Inr (plain_call cl ''session_kill''
          [(asc ''session_id'', JStr session_id), (asc ''signal'', JStr signal_name),
           (asc ''close'', JBool do_close)] [] 512))
       (session_kill_work X signals session_id signal_name do_close) s"

definition session_row :: "(real \<Rightarrow> pystr) \<Rightarrow> real \<Rightarrow> pystr \<times> session \<Rightarrow> json" where
  "session_row rnd now r =
     (case r of (sid, s) \<Rightarrow>
        JObj [(asc ''id'', JStr sid), (asc ''kind'', JStr (ss_kind s)),
          (asc ''title'', JStr (ss_title s)),
          (asc ''size'', JStr (size_text (ss_cols s) (ss_rows s))),
          (asc ''age_s'', JFloat (rnd (now - ss_created s))),
          (asc ''idle_s'', JFloat (rnd (now - ss_last_used s))),
          (asc ''buffered'', JInt (int (length (ss_buffer s)))),
          (asc ''produced'', JInt (int (ss_produced s))),
          (asc ''dropped'', JInt (int (ss_dropped s))), (asc ''closed'', JBool (ss_closed s)),
          (asc ''exit_code'', case ss_exit s of None \<Rightarrow> JNull | Some x \<Rightarrow> JInt x)])"

definition session_rows ::
  "(real \<Rightarrow> pystr) \<Rightarrow> (pystr \<Rightarrow> int option) \<Rightarrow> real \<Rightarrow> registry \<Rightarrow> json list \<times> registry" where
  "session_rows rnd rc now r0 =
     (let r = sweep rc now r0 in
      (map (session_row rnd now)
         (List.map_filter (\<lambda>sid. map_option (Pair sid) (dget (rg_objs r) sid)) (rg_live r)), r))"

definition session_list :: "outside \<Rightarrow> env \<Rightarrow> caller \<Rightarrow> world relay \<Rightarrow> tool_reply \<times> world relay" where
  "session_list X E cl s =
     submit E (Inr (plain_call cl ''session_list'' [] [] 65536))
       (\<lambda>w. case on_registry X (session_rows (ot_round X) (ot_rc X) (ot_now X)) w of
          (rows, w) \<Rightarrow> (Done (rows_text rows) None, w)) s"

end
