(* ===== verification/Startup.thy ===== *)
theory Startup
  imports Verifier OAuth LocalTools Notices AuditChain SessionProps
begin

text \<open>
  The command line (\<open>src/relay_shell/__main__.py\<close>): the subcommands and what each prints and
  returns, the order in which \<open>main\<close> tries them, and the way the server is started and taken
  down. The reading of \<open>argv\<close> by \<open>argparse\<close> is an argument (\<open>cli_args\<close>), as are the answers of the
  host; a traceback that leaves \<open>main\<close> is \<open>Traceback\<close>.
\<close>

subsection \<open>Arguments and effects\<close>

record cli_args =
  ca_check_config :: bool
  ca_verify_deploy :: bool
  ca_templates_dir :: "pystr option"
  ca_install_prefix :: "pystr option"
  ca_verify_audit :: bool
  ca_audit_path :: "pystr option"
  ca_segment :: bool
  ca_auth_list :: bool
  ca_auth_approve :: "pystr option"
  ca_auth_reject :: "pystr option"
  ca_json :: bool

definition no_options :: cli_args where
  "no_options =
     \<lparr>ca_check_config = False, ca_verify_deploy = False, ca_templates_dir = None,
      ca_install_prefix = None, ca_verify_audit = False, ca_audit_path = None,
      ca_segment = False, ca_auth_list = False, ca_auth_approve = None, ca_auth_reject = None,
      ca_json = False\<rparr>"

text \<open>What is printed, in order; \<open>Err\<close> is standard error, \<open>Logged\<close> a line of the logger.\<close>

datatype line = Out pystr | Err pystr | Logged pystr

datatype ending = Exit int | Traceback pystr

definition invalid_configuration :: "pystr \<Rightarrow> line" where
  "invalid_configuration e = Err (asc ''relay_shell: invalid configuration: '' @ e)"

definition build_failed :: "pystr \<Rightarrow> line" where
  "build_failed e = Err (asc ''relay_shell: build_server failed: '' @ e)"

subsection \<open>\<open>--check-config\<close>\<close>

text \<open>\<open>built\<close> is what \<open>build_server\<close> gives: the text of its exception, or the audit logger of the
  relay it made.\<close>

definition check_config :: "int \<Rightarrow> pystr + settings \<Rightarrow> pystr + audit \<Rightarrow> ending \<times> line list" where
  "check_config uid loaded built =
     (case loaded of
        Inl e \<Rightarrow> (Exit 2, [invalid_configuration e])
      | Inr s \<Rightarrow>
          (case built of
             Inl e \<Rightarrow> (Exit 2, [build_failed e])
           | Inr au \<Rightarrow>
               if au_degraded au
               then (Exit 2, [Err (asc ''relay_shell: audit sink degraded ('' @ au_reason au @
                       asc ''); refuse this configuration for production deployment.'')])
               else (Exit 0,
                 map (\<lambda>w. Err (asc ''relay_shell: note: '' @ w)) (config_warnings s uid) @
                 [Err (asc ''relay_shell: config OK (transport='' @ transport s @
                       asc '', policy='' @ policy_mode s @
                       asc '', audit='' @ audit_path s @ asc '')'')])))"

subsection \<open>\<open>--verify-deploy\<close>\<close>

definition finding_json :: "finding \<Rightarrow> json" where
  "finding_json f =
     JObj [(asc ''name'', JStr (fi_name f)), (asc ''template'', JStr (fi_template f)),
           (asc ''install_path'', JStr (fi_path f)),
           (asc ''status'', JStr (status_text (fi_status f))), (asc ''detail'', JStr (fi_detail f))]"

definition ljust :: "nat \<Rightarrow> pystr \<Rightarrow> pystr" where
  "ljust w s = s @ replicate (w - length s) 32"

definition widest :: "pystr list \<Rightarrow> nat" where
  "widest ss = fold max (map length ss) 0"

definition finding_line :: "nat \<Rightarrow> nat \<Rightarrow> finding \<Rightarrow> pystr" where
  "finding_line name_w status_w f =
     ljust name_w (fi_name f) @ asc ''  '' @ ljust status_w (status_text (fi_status f)) @
     asc ''  '' @ fi_path f @
     (if fi_detail f \<noteq> [] \<and> fi_status f \<noteq> OkStatus
      then asc ''  ('' @ fi_detail f @ asc '')'' else [])"

definition deploy_summary :: "finding list \<Rightarrow> line" where
  "deploy_summary fs =
     Err (if report_ok fs then asc ''relay-shell: verify-deploy OK''
          else asc ''relay-shell: verify-deploy FAILED (drift='' @
               digits (length (by_status Drift fs)) @ asc '', missing='' @
               digits (length (by_status Missing_file fs)) @ asc '', absent_template='' @
               digits (length (by_status Absent_template fs)) @ asc '')'')"

definition report_lines :: "bool \<Rightarrow> finding list \<Rightarrow> line list" where
  "report_lines json_out fs =
     (if json_out
      then [Out (pretty 0 (JObj [(asc ''ok'', JBool (report_ok fs)),
                                 (asc ''findings'', JList (map finding_json fs))]))]
      else map (\<lambda>f. Out (finding_line (widest (map fi_name fs))
                          (widest (map (\<lambda>f. status_text (fi_status f)) fs)) f)) fs @
           [deploy_summary fs])"

definition verify_deploy_cli ::
  "deploy_files \<Rightarrow> pystr option \<Rightarrow> pystr option \<Rightarrow> bool \<Rightarrow> ending \<times> line list" where
  "verify_deploy_cli D templates prefix json_out =
     (case verify_deploy D templates prefix DEFAULT_PAIRS of
        Inl e \<Rightarrow> (Traceback e, [])
      | Inr fs \<Rightarrow> (Exit (if report_ok fs then 0 else 2), report_lines json_out fs))"

subsection \<open>\<open>--verify-audit\<close>\<close>

text \<open>The em dash of two messages is code point 8212.\<close>

definition judge_chain :: "pystr \<Rightarrow> bool \<Rightarrow> chain_result \<Rightarrow> pystr \<times> bool" where
  "judge_chain path segment r =
     (if \<not> cr_present r then (asc ''audit file not found or unreadable: '' @ path, False)
      else if cr_records r = 0
      then (asc ''no chained records found '' @ 8212 # asc '' is RELAY_SHELL_AUDIT_CHAIN enabled, '' @
            asc ''and has the server logged anything?'', False)
      else if \<not> cr_ok r then (cr_reason r, False)
      else if \<not> cr_anchored r \<and> \<not> segment
      then (cr_reason r @ asc '' '' @ 8212 #
            asc '' refusing a non-genesis start without --segment '' @
            asc ''(possible head-truncation; pass --segment for a rotation segment)'', False)
      else (cr_reason r, True))"

definition audit_report :: "pystr \<Rightarrow> bool \<Rightarrow> chain_result \<Rightarrow> json" where
  "audit_report path segment r =
     JObj [(asc ''ok'', JBool (snd (judge_chain path segment r))), (asc ''chain_ok'', JBool (cr_ok r)),
           (asc ''present'', JBool (cr_present r)), (asc ''anchored'', JBool (cr_anchored r)),
           (asc ''segment_mode'', JBool segment), (asc ''path'', JStr path),
           (asc ''records'', JInt (int (cr_records r))),
           (asc ''start_seq'', case cr_start_seq r of None \<Rightarrow> JNull | Some n \<Rightarrow> JInt n),
           (asc ''broken_at'', case cr_broken_at r of None \<Rightarrow> JNull | Some n \<Rightarrow> JInt (int n)),
           (asc ''reason'', JStr (fst (judge_chain path segment r)))]"

definition audit_summary :: "bool \<Rightarrow> chain_result \<Rightarrow> line" where
  "audit_summary passed r =
     Err (if passed then asc ''relay-shell: verify-audit OK''
          else asc ''relay-shell: verify-audit FAILED'' @
               (case cr_broken_at r of
                  Some n \<Rightarrow> if n \<noteq> 0 then asc '' (line '' @ digits n @ asc '')'' else []
                | None \<Rightarrow> []))"

text \<open>\<open>files\<close> is what opening and reading a path gives.\<close>

definition verify_audit_cli ::
  "(bytes \<Rightarrow> pystr) \<Rightarrow> (pystr \<Rightarrow> audit_file) \<Rightarrow> pystr + settings \<Rightarrow> pystr option \<Rightarrow> bool \<Rightarrow> bool \<Rightarrow>
   ending \<times> line list" where
  "verify_audit_cli sha files loaded override json_out segment =
     (case (case override of Some p \<Rightarrow> Inr p | None \<Rightarrow> map_sum id audit_path loaded) of
        Inl e \<Rightarrow> (Exit 2, [invalid_configuration e])
      | Inr path \<Rightarrow>
          let r = verify_chain sha path (files path);
              (reason, passed) = judge_chain path segment r
          in (Exit (if passed then 0 else 2),
              if json_out then [Out (pretty 0 (audit_report path segment r))]
              else [Out reason, audit_summary passed r]))"

subsection \<open>\<open>--auth-list\<close>, \<open>--auth-approve\<close>, \<open>--auth-reject\<close>\<close>

text \<open>\<open>found\<close>: the state directory exists. \<open>trouble\<close> is the text of the exception of an unreadable
  store or a missing directory.\<close>

record auth_host =
  ah_found :: "pystr \<Rightarrow> bool"
  ah_trouble :: pystr
  ah_str :: "json \<Rightarrow> pystr"

definition client_status :: "client_row \<Rightarrow> pystr" where
  "client_status r = (if cr_approved r then asc ''approved'' else asc ''pending'')"

definition client_json :: "client_row \<Rightarrow> json" where
  "client_json r =
     JObj [(asc ''client_id'', JStr (cr_client r)), (asc ''status'', JStr (client_status r)),
           (asc ''redirect_uris'', JList (map JStr (cr_uris r))), (asc ''legacy'', JBool (cr_legacy r))]"

definition client_line :: "client_row \<Rightarrow> pystr" where
  "client_line r =
     cr_client r @ asc ''  '' @ client_status r @
     (if cr_legacy r then asc '' (carried over)'' else []) @ asc ''  '' @ join (asc '' '') (cr_uris r)"

definition client_lines :: "bool \<Rightarrow> client_row list \<Rightarrow> line list" where
  "client_lines json_out rows =
     (if json_out then [Out (rows_text (map client_json rows))]
      else map (\<lambda>r. Out (client_line r)) rows @
           (if rows = [] then [Out (asc ''no clients registered'')] else []))"

definition admin_answer ::
  "pystr \<Rightarrow> pystr \<Rightarrow> pystr \<Rightarrow> bool option \<times> oauth \<Rightarrow> (ending \<times> line list) \<times> oauth" where
  "admin_answer trouble verb cid answer =
     (case answer of
        (None, p) \<Rightarrow> ((Exit 2, [Err (asc ''relay_shell: '' @ trouble)]), p)
      | (Some False, p) \<Rightarrow> ((Exit 2, [Err (asc ''relay_shell: no such client: '' @ cid)]), p)
      | (Some True, p) \<Rightarrow> ((Exit 0, [Out (verb @ asc '' '' @ cid)]), p))"

definition auth_admin ::
  "auth_host \<Rightarrow> pystr + settings \<Rightarrow> cli_args \<Rightarrow> oauth \<Rightarrow> (ending \<times> line list) \<times> oauth" where
  "auth_admin H loaded ca p =
     (case loaded of
        Inl e \<Rightarrow> ((Exit 2, [invalid_configuration e]), p)
      | Inr s \<Rightarrow>
          if \<not> ah_found H (auth_state_dir s)
          then ((Exit 2, [Err (asc ''relay_shell: '' @ ah_trouble H)]), p)
          else (case ca_auth_approve ca of
             Some cid \<Rightarrow> admin_answer (ah_trouble H) (asc ''approved'') cid (approve_client cid p)
           | None \<Rightarrow>
               (case ca_auth_reject ca of
                  Some cid \<Rightarrow> admin_answer (ah_trouble H) (asc ''rejected'') cid (reject_client cid p)
                | None \<Rightarrow>
                    (case list_clients (ah_str H) p of
                       None \<Rightarrow> ((Exit 2, [Err (asc ''relay_shell: '' @ ah_trouble H)]), p)
                     | Some rows \<Rightarrow> ((Exit 0, client_lines (ca_json ca) rows), p)))))"

subsection \<open>\<open>main\<close>\<close>

datatype transport_run = Run_http "(pystr, json) dict" | Run_stdio

definition http_transport_kwargs :: "settings \<Rightarrow> (pystr, json) dict" where
  "http_transport_kwargs s =
     [(asc ''host'', JStr (http_host s)), (asc ''port'', JInt (http_port s)),
      (asc ''stateless_http'', JBool True), (asc ''json_response'', JBool True)]"

text \<open>How \<open>server.run\<close> comes back; the handler of SIGTERM makes it an interrupt.\<close>

datatype run_end = Returned | Interrupted | Run_failed pystr

record startup_host =
  sh_sha :: "bytes \<Rightarrow> pystr"
  sh_uid :: int
  sh_env_file :: "pystr option"
  sh_loaded :: "pystr + settings"
  sh_built :: "settings \<Rightarrow> pystr + world relay"
  sh_run :: "transport_run \<Rightarrow> world relay \<Rightarrow> oauth \<Rightarrow> run_end \<times> world relay \<times> oauth"
  sh_deploy :: deploy_files
  sh_audit_files :: "pystr \<Rightarrow> audit_file"
  sh_auth :: auth_host
  sh_outside :: outside

record main_result =
  mr_end :: ending
  mr_lines :: "line list"
  mr_oauth :: oauth
  mr_server :: "world relay option"

definition note_env_file :: "pystr option \<Rightarrow> line list" where
  "note_env_file env =
     (case env of
        None \<Rightarrow> []
      | Some p \<Rightarrow> [Logged (asc ''reading settings from '' @ p @
          asc '' in the working directory; run from a directory '' @
          asc ''only the service account can write (systemd: WorkingDirectory=)'')])"

text \<open>\<open>_shutdown\<close>: the registry first, then the pool.\<close>

definition shutdown_world :: "outside \<Rightarrow> world \<Rightarrow> world" where
  "shutdown_world X w =
     with_pool close_all (snd (on_registry X (\<lambda>r. ((), shutdown (ot_rc X) r)) w))"

definition serve :: "startup_host \<Rightarrow> settings \<Rightarrow> world relay \<Rightarrow> oauth \<Rightarrow> main_result" where
  "serve H s rl p =
     (let run = (if transport s = asc ''http'' then Run_http (http_transport_kwargs s) else Run_stdio);
          (how, rl, p) = sh_run H run rl p;
          (code, said) = (case how of
             Returned \<Rightarrow> (0, [])
           | Interrupted \<Rightarrow> (0, [Logged (asc ''relay_shell stopped (interrupt)'')])
           | Run_failed e \<Rightarrow> (1, [Logged (asc ''relay_shell exited with error: '' @ e)]))
      in \<lparr>mr_end = Exit code,
          mr_lines =
            map (\<lambda>w. Logged (asc ''unsafe setting: '' @ w)) (config_warnings s (sh_uid H)) @
            [Logged (asc ''relay_shell starting (transport='' @ transport s @ asc '', policy='' @
               policy_mode s @ asc '', audit='' @ audit_path s @ asc '')'')] @ said,
          mr_oauth = p,
          mr_server = Some (rl\<lparr>rl_world := shutdown_world (sh_outside H) (rl_world rl)\<rparr>)\<rparr>)"

definition wants_auth :: "cli_args \<Rightarrow> bool" where
  "wants_auth ca \<longleftrightarrow> ca_auth_list ca \<or> ca_auth_approve ca \<noteq> None \<or> ca_auth_reject ca \<noteq> None"

definition main :: "startup_host \<Rightarrow> cli_args \<Rightarrow> oauth \<Rightarrow> main_result" where
  "main H ca p =
     (let answer = (\<lambda>(e, ls) p. \<lparr>mr_end = e, mr_lines = ls, mr_oauth = p, mr_server = None\<rparr>) in
      if ca_verify_deploy ca
      then answer (verify_deploy_cli (sh_deploy H) (ca_templates_dir ca) (ca_install_prefix ca)
             (ca_json ca)) p
      else if ca_verify_audit ca
      then answer (verify_audit_cli (sh_sha H) (sh_audit_files H) (sh_loaded H) (ca_audit_path ca)
             (ca_json ca) (ca_segment ca)) p
      else if wants_auth ca
      then (case auth_admin (sh_auth H) (sh_loaded H) ca p of (a, p') \<Rightarrow> answer a p')
      else if ca_check_config ca
      then answer (check_config (sh_uid H) (sh_loaded H)
             (case sh_loaded H of Inl e \<Rightarrow> Inl e | Inr s \<Rightarrow> map_sum id rl_audit (sh_built H s))) p
      else
        let noted = note_env_file (sh_env_file H) in
        (case sh_loaded H of
           Inl e \<Rightarrow> answer (Exit 2, noted @ [invalid_configuration e]) p
         | Inr s \<Rightarrow>
             (case sh_built H s of
                Inl e \<Rightarrow> answer (Exit 2, noted @ [build_failed e]) p
              | Inr rl \<Rightarrow> let m = serve H s rl p in m\<lparr>mr_lines := noted @ mr_lines m\<rparr>)))"

subsection \<open>What exit status 0 promises\<close>

definition genesis_start :: "json option list \<Rightarrow> bool" where
  "genesis_start ps \<longleftrightarrow>
     (case chain_region ps of
        [] \<Rightarrow> False
      | q # _ \<Rightarrow> the (seq_of (the (as_record q))) = 0 \<and> the (prev_of (the (as_record q))) = CHAIN_GENESIS)"

text \<open>The file can be read to its end and holds an intact chain of at least one record, from genesis
  unless a segment is asked for.\<close>

definition trail_sound :: "(bytes \<Rightarrow> pystr) \<Rightarrow> audit_file \<Rightarrow> bool \<Rightarrow> bool" where
  "trail_sound sha f segment \<longleftrightarrow>
     (case f of
        Contents b None \<Rightarrow>
          (let ps = parsed (text_lines (utf8_decode b)) in
           chain_intact sha ps \<and> chain_region ps \<noteq> [] \<and> (segment \<or> genesis_start ps))
      | _ \<Rightarrow> False)"

lemma judge_passes:
  "snd (judge_chain path segment r) \<longleftrightarrow>
     cr_present r \<and> cr_records r \<noteq> 0 \<and> cr_ok r \<and> (cr_anchored r \<or> segment)"
  by (simp add: judge_chain_def)

lemma finish_fields:
  "cr_present (verify_finish (final_state sha ps))"
  "cr_records (verify_finish (final_state sha ps)) = length (recs_of (chain_region ps))"
  "cr_ok (verify_finish (final_state sha ps))"
  "cr_anchored (verify_finish (final_state sha ps)) \<longleftrightarrow> genesis_start ps"
  by (cases "chain_region ps";
      auto simp: verify_finish_def final_state_def verify_init_def plain_result_def genesis_start_def
        Let_def)+

lemma verifier_judgement:
  "snd (judge_chain path segment (verify_chain sha path f)) \<longleftrightarrow> trail_sound sha f segment"
proof (cases f)
  case (Contents b err)
  let ?ps = "parsed (text_lines (utf8_decode b))"
  have v: "case verify_lines sha verify_init 1 (text_lines (utf8_decode b)) of
      Inr st' \<Rightarrow> chain_intact sha ?ps \<and> st' = final_state sha ?ps
    | Inl r \<Rightarrow> \<not> chain_intact sha ?ps \<and> \<not> cr_ok r \<and> \<not> cr_anchored r"
    using verify_lines_chase
      [where sha = sha and st = verify_init and n = 1 and raws = "text_lines (utf8_decode b)"]
    by (auto simp: chase_init split: sum.splits if_splits)
  then show ?thesis
    by (cases err; cases "verify_lines sha verify_init 1 (text_lines (utf8_decode b))")
      (auto simp: Contents verify_chain_def judge_passes trail_sound_def finish_fields Let_def)
qed (simp_all add: verify_chain_def judge_passes trail_sound_def plain_result_def)

definition deploy_clean :: "deploy_files \<Rightarrow> pystr option \<Rightarrow> pystr option \<Rightarrow> bool" where
  "deploy_clean D templates prefix \<longleftrightarrow>
     (case resolve_templates_dir D templates of
        Inr (Some base) \<Rightarrow> list_all (deployed_as_shipped D base prefix) DEFAULT_PAIRS
      | _ \<Rightarrow> False)"

text \<open>The stores the operator's command reads are there and readable, and the client it names is
  registered.\<close>

definition admin_possible :: "auth_host \<Rightarrow> settings \<Rightarrow> cli_args \<Rightarrow> oauth \<Rightarrow> bool" where
  "admin_possible A s ca p \<longleftrightarrow>
     ah_found A (auth_state_dir s) \<and> load_strict (o_approvals p) \<noteq> None \<and>
     (case load_strict (o_clients p) of
        None \<Rightarrow> False
      | Some cl \<Rightarrow>
          (case ca_auth_approve ca of
             Some cid \<Rightarrow> dget cl cid \<noteq> None
           | None \<Rightarrow> (case ca_auth_reject ca of Some cid \<Rightarrow> dget cl cid \<noteq> None | None \<Rightarrow> True)))"

definition transport_of :: "settings \<Rightarrow> transport_run" where
  "transport_of s =
     (if transport s = asc ''http'' then Run_http (http_transport_kwargs s) else Run_stdio)"

definition run_failed :: "run_end \<Rightarrow> bool" where
  "run_failed e = (case e of Run_failed _ \<Rightarrow> True | _ \<Rightarrow> False)"

lemma deploy_exit:
  "fst (verify_deploy_cli D templates prefix json) = Exit 0 \<longleftrightarrow> deploy_clean D templates prefix"
  using verify_deploy_clean [of D templates prefix DEFAULT_PAIRS]
  by (auto simp: verify_deploy_cli_def deploy_clean_def DEFAULT_PAIRS_def
      split: sum.splits option.splits if_splits)

lemma audit_exit:
  "fst (verify_audit_cli sha files loaded override json segment) = Exit 0 \<longleftrightarrow>
     (case (case override of Some q \<Rightarrow> Inr q | None \<Rightarrow> map_sum id audit_path loaded) of
        Inl e \<Rightarrow> False
      | Inr path \<Rightarrow> trail_sound sha (files path) segment)"
  by (simp add: verify_audit_cli_def Let_def case_prod_beta verifier_judgement split: sum.split)

lemma config_exit:
  "fst (check_config uid (Inr s) built) = Exit 0 \<longleftrightarrow>
     (case built of Inl e \<Rightarrow> False | Inr au \<Rightarrow> \<not> au_degraded au)"
  "fst (check_config uid (Inl e) built) \<noteq> Exit 0"
  by (simp_all add: check_config_def split: sum.split)

lemma answer_exit:
  "fst (fst (admin_answer trouble verb cid a)) = Exit 0 \<longleftrightarrow> fst a = Some True"
  by (cases a) (auto simp: admin_answer_def split: option.splits bool.splits)

lemma auth_exit:
  "fst (fst (auth_admin A (Inr s) ca p)) = Exit 0 \<longleftrightarrow> admin_possible A s ca p"
  "fst (fst (auth_admin A (Inl e) ca p)) \<noteq> Exit 0"
  by (auto simp: auth_admin_def admin_possible_def answer_exit approve_client_def reject_client_def
      list_clients_def Let_def split: option.splits)

lemma serve_exit:
  "mr_end (serve H s rl p) = Exit 0 \<longleftrightarrow> \<not> run_failed (fst (sh_run H (transport_of s) rl p))"
  by (auto simp: serve_def Let_def transport_of_def run_failed_def split: prod.splits run_end.splits)


subsection \<open>What a stopped server leaves\<close>

lemma pool_after_release:
  "pl_conns (wo_pool (fold (release_transport now) cs w)) = pl_conns (wo_pool w)"
  "pl_forwards (wo_pool (fold (release_transport now) cs w)) = pl_forwards (wo_pool w)"
  "pl_pending (wo_pool (fold (release_transport now) cs w)) = pl_pending (wo_pool w)"
  "wo_sessions (fold (release_transport now) cs w) = wo_sessions w"
  by (induction cs arbitrary: w)
    (simp_all add: release_transport_def transport_aclose_def unpin_def update_entry_def
      split: transport_call.split option.split)

lemma entry_conn_update:
  "pe_conn (f (pl_entries p ! e)) = pe_conn (pl_entries p ! e) \<Longrightarrow>
     entry_conn (update_entry e f p) e' = entry_conn p e'"
  by (cases "e' = e"; cases "e < length (pl_entries p)") (simp_all add: entry_conn_def update_entry_def list_update_beyond)

lemma entry_conn_release [simp]:
  "entry_conn (wo_pool (fold (release_transport now) cs w)) e = entry_conn (wo_pool w) e"
proof (induction cs arbitrary: w)
  case (Cons c cs)
  have "entry_conn (wo_pool (release_transport now c w)) e = entry_conn (wo_pool w) e"
    by (simp add: release_transport_def transport_aclose_def unpin_def entry_conn_update
        split: transport_call.split option.split)
  then show ?case by (simp add: Cons.IH)
qed simp

text \<open>Everything the first world held is given back in the second.\<close>

definition torn_down :: "world \<Rightarrow> world \<Rightarrow> bool" where
  "torn_down w w' \<longleftrightarrow>
     rg_live (wo_sessions w') = [] \<and>
     rg_calls (wo_sessions w') = rg_calls (wo_sessions w) @ map TClose (rg_live (wo_sessions w)) \<and>
     pl_conns (wo_pool w') = [] \<and> pl_forwards (wo_pool w') = [] \<and> pl_pending (wo_pool w') = [] \<and>
     list_all (\<lambda>(k, e). conn_is_closed (wo_pool w') (entry_conn (wo_pool w) e)) (pl_conns (wo_pool w)) \<and>
     list_all (\<lambda>(k, h). fh_listener h \<in> set (pl_closed_listeners (wo_pool w'))) (pl_forwards (wo_pool w))"

lemma shutdown_torn_down: "torn_down w (shutdown_world X w)"
  by (auto simp: torn_down_def shutdown_world_def on_registry_def shutdown_def with_pool_def
      close_all_def conn_is_closed_def pool_after_release list_all_iff image_iff)

lemma serve_server:
  "mr_server (serve H s rl p) =
     Some ((fst (snd (sh_run H (transport_of s) rl p)))
       \<lparr>rl_world := shutdown_world (sh_outside H) (rl_world (fst (snd (sh_run H (transport_of s) rl p))))\<rparr>)"
  by (simp add: serve_def Let_def transport_of_def case_prod_beta)


end
