(* ===== verification/InstallTx.thy ===== *)
theory InstallTx
  imports Verifier Machines
begin

text \<open>
  The installer's transaction (\<open>src/scripts/installer_transaction.py\<close>): before an installation the
  managed targets are copied and the copies sealed by a manifest and a pending record
  (\<open>begin\<close>); an interrupted installation is undone from the copies (\<open>restore\<close>) and the record
  cleared (\<open>complete\<close>). A target is a tree of the file system. What \<open>sync\<close>, \<open>cp -a\<close> and the
  removal of a tree leave is an argument; between two commands anything may have happened.
\<close>

subsection \<open>The file system\<close>

type_synonym meta = "int \<times> int \<times> int"

datatype tree =
    Regular meta bytes
  | Symlink meta pystr
  | Directory meta "(pystr \<times> tree) list"
  | Special meta

text \<open>A metadata file: regular or not, its owner, its bytes. A transaction directory: whether it is a
  directory, its owner and mode, the target list, the copies and the manifest. The lists of
  copies and of targets are in the order of \<open>TARGETS\<close>.\<close>

record meta_file =
  mf_regular :: bool
  mf_uid :: int
  mf_bytes :: bytes

record tx_dir =
  td_directory :: bool
  td_uid :: int
  td_mode :: int
  td_targets :: "bytes option"
  td_copies :: "tree option list"
  td_manifest :: "meta_file option"

record tx_state =
  tx_dirs :: "(pystr, tx_dir) dict"
  tx_pending :: "meta_file option"
  tx_targets :: "tree option list"

text \<open>\<open>ih_same\<close>: a float literal equals an integer; \<open>ih_remove\<close> is what removing a target leaves;
  \<open>ih_copy\<close> whether \<open>cp -a\<close> succeeded, and what is there then.\<close>

record install_host =
  ih_sha :: "bytes \<Rightarrow> pystr"
  ih_same :: "pystr \<Rightarrow> int \<Rightarrow> bool"
  ih_sync :: bool
  ih_remove :: "nat \<Rightarrow> tree \<Rightarrow> tree option"
  ih_copy :: "nat \<Rightarrow> tree \<Rightarrow> bool \<times> tree option"

definition ROOT :: pystr where
  "ROOT = asc ''/var/backups/relay-shell-installer''"

definition MANIFEST_BOUND :: nat where
  "MANIFEST_BOUND = 33554432"

definition PENDING_BOUND :: nat where
  "PENDING_BOUND = 1024"

definition TARGETS :: "pystr list" where
  "TARGETS =
     [asc ''/var/lib/relay-shell/venv'', asc ''/etc/relay-shell'',
      asc ''/etc/systemd/system/relay-shell.service'',
      asc ''/etc/systemd/system/relay-shell.service.d'', asc ''/etc/logrotate.d/relay-shell'']"

subsection \<open>The inventory of a tree\<close>

definition ENTRY_BOUND :: nat where
  "ENTRY_BOUND = 100000"

definition entry_of :: "meta \<Rightarrow> json list \<Rightarrow> json" where
  "entry_of m rest = (case m of (mode, uid, gid) \<Rightarrow> JList ([JInt mode, JInt uid, JInt gid] @ rest))"

definition child_path :: "pystr \<Rightarrow> pystr \<Rightarrow> pystr" where
  "child_path rel n = (if rel = asc ''.'' then n else rel @ asc ''/'' @ n)"

lemma size_list_insort [simp]: "size_list f (insort_key k x xs) = Suc (f x + size_list f xs)"
  by (induction xs) auto

lemma size_list_sort_key [simp]: "size_list f (sort_key k xs) = size_list f xs"
  by (induction xs) auto

function visit ::
  "(bytes \<Rightarrow> pystr) \<Rightarrow> tree \<Rightarrow> pystr \<Rightarrow> (pystr, json) dict \<Rightarrow> pystr + (pystr, json) dict"
and visit_all ::
  "(bytes \<Rightarrow> pystr) \<Rightarrow> (pystr \<times> tree) list \<Rightarrow> pystr \<Rightarrow> (pystr, json) dict \<Rightarrow>
     pystr + (pystr, json) dict" where
  "visit sha t rel acc =
     (if ENTRY_BOUND \<le> length acc then Inl (asc ''snapshot entry bound exceeded'')
      else (case t of
              Symlink m l \<Rightarrow> Inr (dset rel (entry_of m [JStr (asc ''link''), JStr l]) acc)
            | Regular m b \<Rightarrow> Inr (dset rel (entry_of m [JStr (asc ''file''), JStr (sha b)]) acc)
            | Directory m ch \<Rightarrow>
                visit_all sha (sort_key fst ch) rel
                  (dset rel (entry_of m [JStr (asc ''directory'')]) acc)
            | Special m \<Rightarrow> Inl (asc ''unsupported snapshot entry type'')))"
| "visit_all sha [] rel acc = Inr acc"
| "visit_all sha ((n, t) # ch) rel acc =
     (case visit sha t (child_path rel n) acc of
        Inl e \<Rightarrow> Inl e
      | Inr acc' \<Rightarrow> visit_all sha ch rel acc')"
  by pat_completeness auto

termination
  by (relation "measure (\<lambda>s. case s of
        Inl (sha, t, rel, acc) \<Rightarrow> size t
      | Inr (sha, ch, rel, acc) \<Rightarrow> size_list (size_prod (\<lambda>_. 0) size) ch)")
    auto

definition take_inventory :: "(bytes \<Rightarrow> pystr) \<Rightarrow> tree option \<Rightarrow> pystr + json" where
  "take_inventory sha t =
     (case t of
        None \<Rightarrow> Inr JNull
      | Some t \<Rightarrow> map_sum id JObj (visit sha t (asc ''.'') []))"

subsection \<open>Equality of an inventory and a decoded value\<close>

definition same_number :: "(pystr \<Rightarrow> int \<Rightarrow> bool) \<Rightarrow> int \<Rightarrow> json \<Rightarrow> bool" where
  "same_number fl i w =
     (case w of JInt j \<Rightarrow> i = j | JBool b \<Rightarrow> i = (if b then 1 else 0) | JFloat t \<Rightarrow> fl t i | _ \<Rightarrow> False)"

definition same_item :: "(pystr \<Rightarrow> int \<Rightarrow> bool) \<Rightarrow> json \<Rightarrow> json \<Rightarrow> bool" where
  "same_item fl v w = (case v of JInt i \<Rightarrow> same_number fl i w | _ \<Rightarrow> v = w)"

definition same_entry :: "(pystr \<Rightarrow> int \<Rightarrow> bool) \<Rightarrow> json \<Rightarrow> json \<Rightarrow> bool" where
  "same_entry fl v w =
     (case (v, w) of (JList xs, JList ys) \<Rightarrow> list_all2 (same_item fl) xs ys | _ \<Rightarrow> False)"

definition same_inventory :: "(pystr \<Rightarrow> int \<Rightarrow> bool) \<Rightarrow> json \<Rightarrow> json \<Rightarrow> bool" where
  "same_inventory fl v w =
     (case (v, w) of
        (JNull, JNull) \<Rightarrow> True
      | (JObj a, JObj b) \<Rightarrow>
          length a = length b \<and>
          list_all (\<lambda>(k, x). case dget b k of None \<Rightarrow> False | Some y \<Rightarrow> same_entry fl x y) a
      | _ \<Rightarrow> False)"

text \<open>\<open>inventory(target) != saved\<close> along two lists raises \<open>why\<close> at the first difference.\<close>

fun check_inventories ::
  "install_host \<Rightarrow> pystr \<Rightarrow> (tree option \<times> json) list \<Rightarrow> pystr + unit" where
  "check_inventories H why [] = Inr ()"
| "check_inventories H why ((t, saved) # rest) =
     (case take_inventory (ih_sha H) t of
        Inl e \<Rightarrow> Inl e
      | Inr v \<Rightarrow> if same_inventory (ih_same H) v saved then check_inventories H why rest
                 else Inl why)"

subsection \<open>Files of the transaction\<close>

definition is_alnum :: "nat \<Rightarrow> bool" where
  "is_alnum c \<longleftrightarrow> 48 \<le> c \<and> c \<le> 57 \<or> 65 \<le> c \<and> c \<le> 90 \<or> 97 \<le> c \<and> c \<le> 122"

text \<open>\<open>re.fullmatch(r"install-[A-Za-z0-9]\{8\}", name)\<close>\<close>

definition tx_name :: "pystr \<Rightarrow> bool" where
  "tx_name n \<longleftrightarrow>
     take 8 n = asc ''install-'' \<and> length n = 16 \<and> list_all is_alnum (drop 8 n)"

definition private_directory :: "tx_dir \<Rightarrow> bool" where
  "private_directory d \<longleftrightarrow> td_directory d \<and> td_uid d = 0 \<and> td_mode d = 448"

definition transaction_path :: "pystr \<Rightarrow> tx_state \<Rightarrow> pystr + tx_dir" where
  "transaction_path name S =
     (if \<not> tx_name name then Inl (asc ''invalid transaction identity'')
      else (case dget (tx_dirs S) name of
              None \<Rightarrow> Inl (asc ''No such file or directory'')
            | Some d \<Rightarrow> if private_directory d then Inr d
                        else Inl (asc ''transaction directory must be root-owned and private'')))"

definition read_json :: "meta_file option \<Rightarrow> nat \<Rightarrow> pystr + json" where
  "read_json f bound =
     (case f of
        None \<Rightarrow> Inl (asc ''No such file or directory'')
      | Some f \<Rightarrow>
          if \<not> mf_regular f \<or> mf_uid f \<noteq> 0 \<or> length (mf_bytes f) > bound
          then Inl (asc ''invalid transaction metadata file'')
          else (case read_utf8 (mf_bytes f) of
                  None \<Rightarrow> Inl (asc ''not UTF-8'')
                | Some t \<Rightarrow> (case loads t of None \<Rightarrow> Inl (asc ''not JSON'') | Some v \<Rightarrow> Inr v)))"

definition json_payload :: "json \<Rightarrow> bytes" where
  "json_payload v = utf8_encode (dumps fmt_default (sort_json v) @ [10])"

text \<open>The file is written beside its place and renamed over it: it is there whole or not at all.\<close>

definition atomic_json :: "json \<Rightarrow> nat \<Rightarrow> pystr + meta_file" where
  "atomic_json v bound =
     (if length (json_payload v) > bound
      then Inl (asc ''generated transaction metadata exceeds reader bound'')
      else Inr \<lparr>mf_regular = True, mf_uid = 0, mf_bytes = json_payload v\<rparr>)"

subsection \<open>\<open>begin\<close>\<close>

definition target_mapping :: bytes where
  "target_mapping = concat (map (\<lambda>t. t @ [10]) TARGETS)"

definition manifest_json :: "json list \<Rightarrow> json" where
  "manifest_json snapshots =
     JObj [(asc ''schema'', JInt 1), (asc ''targets'', JList (map JStr TARGETS)),
           (asc ''snapshots'', JList snapshots)]"

definition pending_json :: "pystr \<Rightarrow> pystr \<Rightarrow> json" where
  "pending_json name dg =
     JObj [(asc ''transaction'', JStr name), (asc ''manifest_sha256'', JStr dg)]"

text \<open>Each copy is compared with its target; the inventories of the copies are the snapshots.\<close>

fun snapshots_of :: "install_host \<Rightarrow> (tree option \<times> tree option) list \<Rightarrow> pystr + json list" where
  "snapshots_of H [] = Inr []"
| "snapshots_of H ((copy, target) # rest) =
     (case take_inventory (ih_sha H) copy of
        Inl e \<Rightarrow> Inl e
      | Inr saved \<Rightarrow>
          (case take_inventory (ih_sha H) target of
             Inl e \<Rightarrow> Inl e
           | Inr v \<Rightarrow>
               if \<not> same_inventory (ih_same H) saved v
               then Inl (asc ''snapshot differs from original target'')
               else (case snapshots_of H rest of
                       Inl e \<Rightarrow> Inl e
                     | Inr vs \<Rightarrow> Inr (saved # vs))))"

definition put_dir :: "pystr \<Rightarrow> tx_dir \<Rightarrow> tx_state \<Rightarrow> tx_state" where
  "put_dir name d S = S\<lparr>tx_dirs := dset name d (tx_dirs S)\<rparr>"

text \<open>The argument is the path of the snapshot directory, split at its last slash.\<close>

definition tx_begin :: "install_host \<Rightarrow> pystr \<Rightarrow> pystr \<Rightarrow> tx_state \<Rightarrow> (pystr + unit) \<times> tx_state" where
  "tx_begin H parent name S =
     (if parent \<noteq> ROOT then (Inl (asc ''transaction escaped recovery root''), S)
      else (case transaction_path name S of
        Inl e \<Rightarrow> (Inl e, S)
      | Inr d \<Rightarrow>
          if tx_pending S \<noteq> None then (Inl (asc ''an unfinished installation already exists''), S)
          else if td_targets d = None then (Inl (asc ''No such file or directory''), S)
          else if read_utf8 (the (td_targets d)) \<noteq> Some target_mapping
          then (Inl (asc ''snapshot target mapping differs from installer contract''), S)
          else (case snapshots_of H (zip (td_copies d) (tx_targets S)) of
            Inl e \<Rightarrow> (Inl e, S)
          | Inr snaps \<Rightarrow>
              (case atomic_json (manifest_json snaps) MANIFEST_BOUND of
                 Inl e \<Rightarrow> (Inl e, S)
               | Inr m \<Rightarrow>
                   let S1 = put_dir name (d\<lparr>td_manifest := Some m\<rparr>) S in
                   if \<not> ih_sync H then (Inl (asc ''sync failed''), S1)
                   else (case atomic_json (pending_json name (ih_sha H (mf_bytes m))) PENDING_BOUND of
                           Inl e \<Rightarrow> (Inl e, S1)
                         | Inr r \<Rightarrow> (Inr (), S1\<lparr>tx_pending := Some r\<rparr>))))))"

subsection \<open>\<open>pending\<close>\<close>

definition validate_manifest :: "json \<Rightarrow> pystr + json list" where
  "validate_manifest v =
     (case v of
        JObj kvs \<Rightarrow>
          if set (dkeys kvs) = {asc ''schema'', asc ''targets'', asc ''snapshots''} \<and>
             dget kvs (asc ''schema'') = Some (JInt 1) \<and>
             dget kvs (asc ''targets'') = Some (JList (map JStr TARGETS))
          then (case dget kvs (asc ''snapshots'') of
                  Some (JList vs) \<Rightarrow>
                    if length vs = length TARGETS then Inr vs
                    else Inl (asc ''incomplete transaction manifest'')
                | _ \<Rightarrow> Inl (asc ''incomplete transaction manifest''))
          else Inl (asc ''unsupported transaction schema or target mapping'')
      | _ \<Rightarrow> Inl (asc ''unsupported transaction schema or target mapping''))"

definition pending_record :: "json \<Rightarrow> pystr + pystr \<times> json" where
  "pending_record v =
     (case v of
        JObj kvs \<Rightarrow>
          if set (dkeys kvs) = {asc ''transaction'', asc ''manifest_sha256''}
          then (case dget kvs (asc ''transaction'') of
                  Some (JStr name) \<Rightarrow>
                    Inr (name, (case dget kvs (asc ''manifest_sha256'') of Some x \<Rightarrow> x | None \<Rightarrow> JNull))
                | _ \<Rightarrow> Inl (asc ''malformed pending identity''))
          else Inl (asc ''malformed pending record'')
      | _ \<Rightarrow> Inl (asc ''malformed pending record''))"

definition tx_pending_read :: "install_host \<Rightarrow> tx_state \<Rightarrow> pystr + tx_dir \<times> json list" where
  "tx_pending_read H S =
     (case read_json (tx_pending S) PENDING_BOUND of
        Inl e \<Rightarrow> Inl e
      | Inr v \<Rightarrow> (case pending_record v of
        Inl e \<Rightarrow> Inl e
      | Inr (name, dg) \<Rightarrow> (case transaction_path name S of
        Inl e \<Rightarrow> Inl e
      | Inr d \<Rightarrow> (case read_json (td_manifest d) MANIFEST_BOUND of
        Inl e \<Rightarrow> Inl e
      | Inr m \<Rightarrow>
          if JStr (ih_sha H (mf_bytes (the (td_manifest d)))) \<noteq> dg
          then Inl (asc ''snapshot manifest integrity changed'')
          else (case validate_manifest m of
                  Inl e \<Rightarrow> Inl e
                | Inr snaps \<Rightarrow>
                    (case check_inventories H (asc ''sealed snapshot integrity changed'')
                            (zip (td_copies d) snaps) of
                       Inl e \<Rightarrow> Inl e
                     | Inr _ \<Rightarrow> Inr (d, snaps)))))))"

subsection \<open>\<open>restore\<close> and \<open>complete\<close>\<close>

definition restore_one ::
  "install_host \<Rightarrow> nat \<Rightarrow> json \<Rightarrow> tree option \<Rightarrow> tree option \<Rightarrow> (pystr + unit) \<times> tree option" where
  "restore_one H i saved copy target =
     (case (case target of None \<Rightarrow> None | Some t \<Rightarrow> ih_remove H i t) of
        Some rest \<Rightarrow> (Inl (asc ''could not remove the target''), Some rest)
      | None \<Rightarrow>
          if saved = JNull then (Inr (), None)
          else (case copy of
                  None \<Rightarrow> (Inl (asc ''cp: cannot stat''), None)
                | Some c \<Rightarrow>
                    (case ih_copy H i c of
                       (ok, t) \<Rightarrow> (if ok then Inr () else Inl (asc ''cp failed''), t))))"

fun restore_loop ::
  "install_host \<Rightarrow> nat \<Rightarrow> (json \<times> tree option \<times> tree option) list \<Rightarrow>
     (pystr + unit) \<times> tree option list" where
  "restore_loop H i [] = (Inr (), [])"
| "restore_loop H i ((saved, copy, target) # rest) =
     (case restore_one H i saved copy target of
        (Inl e, t) \<Rightarrow> (Inl e, t # map (\<lambda>(_, _, t'). t') rest)
      | (Inr _, t) \<Rightarrow> (case restore_loop H (Suc i) rest of (r, ts) \<Rightarrow> (r, t # ts)))"

definition verify_restored :: "install_host \<Rightarrow> tree option list \<Rightarrow> json list \<Rightarrow> pystr + unit" where
  "verify_restored H targets snaps =
     check_inventories H (asc ''restored target inventory differs from sealed snapshot'')
       (zip targets snaps)"

definition tx_restore :: "install_host \<Rightarrow> tx_state \<Rightarrow> (pystr + unit) \<times> tx_state" where
  "tx_restore H S =
     (case tx_pending_read H S of
        Inl e \<Rightarrow> (Inl e, S)
      | Inr (d, snaps) \<Rightarrow>
          (case restore_loop H 0 (zip snaps (zip (td_copies d) (tx_targets S))) of
             (Inl e, ts) \<Rightarrow> (Inl e, S\<lparr>tx_targets := ts\<rparr>)
           | (Inr _, ts) \<Rightarrow> (verify_restored H ts snaps, S\<lparr>tx_targets := ts\<rparr>)))"

definition tx_complete :: "install_host \<Rightarrow> bool \<Rightarrow> tx_state \<Rightarrow> (pystr + unit) \<times> tx_state" where
  "tx_complete H restored S =
     (case tx_pending_read H S of
        Inl e \<Rightarrow> (Inl e, S)
      | Inr (d, snaps) \<Rightarrow>
          (case (if restored then verify_restored H (tx_targets S) snaps else Inr ()) of
             Inl e \<Rightarrow> (Inl e, S)
           | Inr _ \<Rightarrow>
               if \<not> ih_sync H then (Inl (asc ''sync failed''), S)
               else (Inr (), S\<lparr>tx_pending := None\<rparr>)))"

text \<open>The command line. The snapshot is named by \<open>begin\<close> only; every refusal is a text.\<close>

datatype tx_command = Cmd_begin | Cmd_restore | Cmd_complete | Cmd_complete_restoration

definition tx_main ::
  "install_host \<Rightarrow> int \<Rightarrow> tx_dir \<Rightarrow> tx_command \<Rightarrow> (pystr \<times> pystr) option \<Rightarrow> tx_state \<Rightarrow>
     (pystr + unit) \<times> tx_state" where
  "tx_main H euid rootdir cmd snapshot S =
     (if euid \<noteq> 0 then (Inl (asc ''root is required''), S)
      else if \<not> private_directory rootdir
      then (Inl (asc ''transaction directory must be root-owned and private''), S)
      else (case (cmd, snapshot) of
              (Cmd_begin, None) \<Rightarrow> (Inl (asc ''snapshot path required''), S)
            | (Cmd_begin, Some (parent, name)) \<Rightarrow> tx_begin H parent name S
            | (_, Some _) \<Rightarrow> (Inl (asc ''unexpected snapshot path''), S)
            | (Cmd_restore, None) \<Rightarrow> tx_restore H S
            | (Cmd_complete, None) \<Rightarrow> tx_complete H False S
            | (Cmd_complete_restoration, None) \<Rightarrow> tx_complete H True S))"

end
