(* ===== verification/InstallTxProps.thy ===== *)
theory InstallTxProps
  imports InstallTx AuditChain
begin

text \<open>
  Properties of the installer's transaction. An inventory determines a tree up to the order of
  directory entries and collisions of file contents; the metadata files read back what was
  written; the pending record seals the original inventories; a restore that reports success
  has brought the original trees back whatever happened in between, and one that is not
  disturbed succeeds and can be completed.
\<close>

subsection \<open>Paths\<close>

definition good_name :: "pystr \<Rightarrow> bool" where
  "good_name n \<longleftrightarrow> n \<noteq> [] \<and> 47 \<notin> set n \<and> n \<noteq> asc ''.''"

definition path_str :: "pystr list \<Rightarrow> pystr" where
  "path_str p = (if p = [] then asc ''.'' else join [47] p)"

lemma split_path_str: "list_all good_name p \<Longrightarrow> p \<noteq> [] \<Longrightarrow> split_on 47 (path_str p) = p"
  by (simp add: path_str_def split_on_join list_all_iff good_name_def)

lemma path_str_inj:
  assumes "list_all good_name p" "list_all good_name q" "path_str p = path_str q"
  shows "p = q"
proof -
  have dot: "split_on 47 (asc ''.'') = [asc ''.'']" by (rule split_on_whole) (simp add: asc_def)
  have empty: "x = []" if "list_all good_name x" "path_str x = asc ''.''" for x
  proof (rule ccontr)
    assume "x \<noteq> []"
    then have "x = [asc ''.'']" using split_path_str [OF that(1)] that(2) dot by simp
    then show False using that(1) by (simp add: good_name_def)
  qed
  show ?thesis
  proof (cases "p = [] \<or> q = []")
    case True
    then have "path_str p = asc ''.''" using assms(3) by (auto simp: path_str_def)
    then show ?thesis using empty [OF assms(1)] empty [OF assms(2)] assms(3) by simp
  next
    case False
    then have ne: "p \<noteq> []" "q \<noteq> []" by simp_all
    have "p = split_on 47 (path_str p)" by (rule split_path_str [OF assms(1) ne(1), symmetric])
    also have "\<dots> = q" unfolding assms(3) by (rule split_path_str [OF assms(2) ne(2)])
    finally show ?thesis .
  qed
qed

lemma join_snoc: "xs \<noteq> [] \<Longrightarrow> join sep (xs @ [y]) = join sep xs @ sep @ y"
proof (induction xs)
  case (Cons x xs)
  then show ?case by (cases xs) simp_all
qed simp

lemma child_path_str:
  assumes "list_all good_name q" "good_name n"
  shows "child_path (path_str q) n = path_str (q @ [n])"
proof (cases "q = []")
  case True
  then show ?thesis by (simp add: child_path_def path_str_def)
next
  case False
  have "path_str [] = asc ''.''" by (simp add: path_str_def)
  then have "path_str q \<noteq> asc ''.''"
    using False path_str_inj [OF assms(1), of "[]"] by force
  then show ?thesis using False by (simp add: child_path_def path_str_def join_snoc asc_def)
qed

subsection \<open>What an inventory says of a tree\<close>

text \<open>The paths of a tree, component by component, with their entries.\<close>

fun paths :: "(bytes \<Rightarrow> pystr) \<Rightarrow> tree \<Rightarrow> (pystr list \<times> json) set" where
  "paths sha (Symlink m l) = {([], entry_of m [JStr (asc ''link''), JStr l])}"
| "paths sha (Regular m b) = {([], entry_of m [JStr (asc ''file''), JStr (sha b)])}"
| "paths sha (Special m) = {}"
| "paths sha (Directory m ch) =
     {([], entry_of m [JStr (asc ''directory'')])} \<union>
     (\<Union>x\<in>set ch. (\<lambda>(p, e). (fst x # p, e)) ` paths sha (snd x))"

text \<open>The names of a directory are distinct names.\<close>

fun wf_tree :: "tree \<Rightarrow> bool" where
  "wf_tree (Directory m ch) \<longleftrightarrow>
     distinct (map fst ch) \<and> list_all (\<lambda>x. good_name (fst x) \<and> wf_tree (snd x)) ch"
| "wf_tree t \<longleftrightarrow> True"

definition at_path :: "pystr list \<Rightarrow> (pystr list \<times> json) set \<Rightarrow> (pystr \<times> json) set" where
  "at_path q P = (\<lambda>(p, e). (path_str (q @ p), e)) ` P"

lemma paths_good: "wf_tree t \<Longrightarrow> (p, e) \<in> paths sha t \<Longrightarrow> list_all good_name p"
proof (induction sha t arbitrary: p e rule: paths.induct)
  case (4 sha m ch)
  from "4.prems"(2) consider "p = []"
    | x p' where "x \<in> set ch" "p = fst x # p'" "(p', e) \<in> paths sha (snd x)"
    by auto
  then show ?case
  proof cases
    case 2
    then have "good_name (fst x)" "wf_tree (snd x)" using "4.prems"(1) by (auto simp: list_all_iff)
    then show ?thesis using 2 "4.IH" [OF 2(1)] by simp
  qed simp
qed simp_all

text \<open>Nothing below \<open>q\<close> has been entered yet.\<close>

definition fresh_below :: "pystr list \<Rightarrow> (pystr, json) dict \<Rightarrow> bool" where
  "fresh_below q acc \<longleftrightarrow> (\<forall>p. list_all good_name p \<longrightarrow> path_str (q @ p) \<notin> fst ` set acc)"

lemma at_path_children:
  "at_path q (\<Union>x\<in>X. (\<lambda>(p, e). (fst x # p, e)) ` P x) = (\<Union>x\<in>X. at_path (q @ [fst x]) (P x))"
  by (auto simp: at_path_def image_UN image_image case_prod_beta)

lemma visit_paths:
  shows "visit sha t rel acc = Inr d \<Longrightarrow> wf_tree t \<Longrightarrow> list_all good_name q \<Longrightarrow>
      rel = path_str q \<Longrightarrow> fresh_below q acc \<Longrightarrow> set d = set acc \<union> at_path q (paths sha t)"
    and "visit_all sha ch rel acc = Inr d \<Longrightarrow> list_all (\<lambda>x. good_name (fst x) \<and> wf_tree (snd x)) ch \<Longrightarrow>
      distinct (map fst ch) \<Longrightarrow> list_all good_name q \<Longrightarrow> rel = path_str q \<Longrightarrow>
      list_all (\<lambda>x. fresh_below (q @ [fst x]) acc) ch \<Longrightarrow>
      set d = set acc \<union> (\<Union>x\<in>set ch. at_path (q @ [fst x]) (paths sha (snd x)))"
proof (induction sha t rel acc and sha ch rel acc arbitrary: d q and d q rule: visit_visit_all.induct)
  case (1 sha t rel acc)
  have new: "path_str q \<notin> fst ` set acc"
    using spec [OF "1.prems"(5) [unfolded fresh_below_def], of "[]"] by simp
  show ?case
  proof (cases t)
    case (Directory m ch)
    let ?acc = "acc @ [(path_str q, entry_of m [JStr (asc ''directory'')])]"
    have small: "\<not> ENTRY_BOUND \<le> length acc" using "1.prems"(1) by (auto split: if_splits)
    have run: "visit_all sha (sort_key fst ch) rel ?acc = Inr d"
      using "1.prems"(1,4) small new by (simp add: Directory dset_new)
    have ch: "list_all (\<lambda>x. good_name (fst x) \<and> wf_tree (snd x)) (sort_key fst ch)"
      "distinct (map fst (sort_key fst ch))"
      using "1.prems"(2) by (auto simp: Directory list_all_iff distinct_map)
    have "fresh_below (q @ [fst x]) ?acc" if "x \<in> set ch" for x
    proof -
      have "good_name (fst x)" using that "1.prems"(2) by (auto simp: Directory list_all_iff)
      then show ?thesis
        using "1.prems"(3,5) path_str_inj [of "q @ fst x # _" q]
        by (auto simp: fresh_below_def dest: spec [of _ "fst x # _"])
    qed
    then have "set d = set ?acc \<union>
        (\<Union>x\<in>set (sort_key fst ch). at_path (q @ [fst x]) (paths sha (snd x)))"
      using "1.IH" [OF small Directory _ ch "1.prems"(3,4)] run "1.prems"(4) new
      by (simp add: dset_new list_all_iff)
    moreover have "at_path q (paths sha t) =
        insert (path_str q, entry_of m [JStr (asc ''directory'')])
          (\<Union>x\<in>set ch. at_path (q @ [fst x]) (paths sha (snd x)))"
      unfolding at_path_children [symmetric] by (simp add: Directory at_path_def)
    ultimately show ?thesis by auto
  qed (use "1.prems" new in \<open>auto simp: dset_new at_path_def split: if_splits\<close>)
next
  case (2 sha rel acc)
  then show ?case by simp
next
  case (3 sha n t ch rel acc)
  note good = "3.prems"(2)
  obtain acc' where v: "visit sha t (child_path rel n) acc = Inr acc'"
    using "3.prems"(1) by (auto split: sum.splits)
  then have rest: "visit_all sha ch rel acc' = Inr d" using "3.prems"(1) by simp
  have n: "good_name n" "wf_tree t" "list_all good_name (q @ [n])"
    "child_path rel n = path_str (q @ [n])"
    using good "3.prems"(4,5) child_path_str by simp_all
  have first: "set acc' = set acc \<union> at_path (q @ [n]) (paths sha t)"
    using "3.IH"(1) [OF v n(2,3,4)] "3.prems"(6) by simp
  have "fresh_below (q @ [fst x]) acc'" if x: "x \<in> set ch" for x
  proof -
    have gx: "good_name (fst x)" "fst x \<noteq> n" using x good "3.prems"(3) by (auto simp: list_all_iff)
    have "path_str ((q @ [fst x]) @ p) \<noteq> path_str ((q @ [n]) @ p')"
      if "list_all good_name p" "(p', e) \<in> paths sha t" for p p' e
      using path_str_inj [of "q @ fst x # p" "q @ n # p'"] gx n(1) "3.prems"(4) that(1)
        paths_good [OF n(2) that(2)] by auto
    moreover have "path_str ((q @ [fst x]) @ p) \<notin> fst ` set acc" if "list_all good_name p" for p
      using x "3.prems"(6) that by (simp add: list_all_iff fresh_below_def)
    ultimately show ?thesis
      unfolding fresh_below_def first at_path_def
      by (simp add: image_Un image_image case_prod_beta) force
  qed
  then have "set d = set acc' \<union> (\<Union>x\<in>set ch. at_path (q @ [fst x]) (paths sha (snd x)))"
    using "3.IH"(2) [OF v rest _ _ "3.prems"(4,5)] good "3.prems"(3) by (simp add: list_all_iff)
  then show ?case by (auto simp: first)
qed

lemma at_path_inj:
  assumes "at_path [] P = at_path [] Q"
    "\<And>p e. (p, e) \<in> P \<Longrightarrow> list_all good_name p" "\<And>p e. (p, e) \<in> Q \<Longrightarrow> list_all good_name p"
  shows "P = Q"
proof -
  have sub: "X \<subseteq> Y" if "at_path [] X = at_path [] Y"
    "\<And>p e. (p, e) \<in> X \<Longrightarrow> list_all good_name p" "\<And>p e. (p, e) \<in> Y \<Longrightarrow> list_all good_name p"
    for X Y :: "(pystr list \<times> json) set"
  proof (rule subrelI)
    fix p e assume pe: "(p, e) \<in> X"
    then have "(path_str p, e) \<in> at_path [] Y"
      unfolding that(1) [symmetric] by (force simp: at_path_def)
    then obtain p' where "(p', e) \<in> Y" "path_str p' = path_str p" by (auto simp: at_path_def)
    then show "(p, e) \<in> Y" using path_str_inj that(2) [OF pe] that(3) by metis
  qed
  show ?thesis
  proof (rule subset_antisym)
    show "P \<subseteq> Q" by (rule sub [OF assms(1)]) (fact assms(2), fact assms(3))
    show "Q \<subseteq> P" by (rule sub [OF assms(1) [symmetric]]) (fact assms(3), fact assms(2))
  qed
qed

subsection \<open>Inventories as values\<close>

definition flat_item :: "json \<Rightarrow> bool" where
  "flat_item v = (case v of JInt _ \<Rightarrow> True | JStr _ \<Rightarrow> True | _ \<Rightarrow> False)"

definition flat_entry :: "json \<Rightarrow> bool" where
  "flat_entry v = (case v of JList xs \<Rightarrow> list_all flat_item xs | _ \<Rightarrow> False)"

definition flat_inventory :: "json \<Rightarrow> bool" where
  "flat_inventory v =
     (case v of JNull \<Rightarrow> True | JObj d \<Rightarrow> dwf d \<and> list_all (\<lambda>(k, e). flat_entry e) d | _ \<Rightarrow> False)"

definition equal_inventory :: "json \<Rightarrow> json \<Rightarrow> bool" where
  "equal_inventory v w =
     (case (v, w) of (JNull, JNull) \<Rightarrow> True | (JObj d, JObj e) \<Rightarrow> set d = set e | _ \<Rightarrow> False)"

lemma same_item_flat: "flat_item v \<Longrightarrow> flat_item w \<Longrightarrow> same_item fl v w \<longleftrightarrow> v = w"
  by (auto simp: flat_item_def same_item_def same_number_def split: json.splits)

lemma same_entry_flat: "flat_entry v \<Longrightarrow> flat_entry w \<Longrightarrow> same_entry fl v w \<longleftrightarrow> v = w"
proof -
  have "list_all flat_item xs \<Longrightarrow> list_all flat_item ys \<Longrightarrow>
      list_all2 (same_item fl) xs ys \<longleftrightarrow> xs = ys" for xs ys
    by (induction xs arbitrary: ys) (auto simp: list_all2_Cons1 same_item_flat)
  then show "flat_entry v \<Longrightarrow> flat_entry w \<Longrightarrow> ?thesis"
    by (auto simp: flat_entry_def same_entry_def split: json.splits)
qed

lemma same_dict:
  assumes "dwf a" "dwf b"
    "list_all (\<lambda>(k, e). flat_entry e) a" "list_all (\<lambda>(k, e). flat_entry e) b"
  shows "same_inventory fl (JObj a) (JObj b) \<longleftrightarrow> set a = set b"
proof -
  have look: "(case dget b k of None \<Rightarrow> False | Some y \<Rightarrow> same_entry fl x y) \<longleftrightarrow> (k, x) \<in> set b"
    if "(k, x) \<in> set a" for k x
  proof (cases "dget b k")
    case (Some y)
    then have "(k, y) \<in> set b" using assms(2) by (simp add: in_set_dget)
    then have "flat_entry x" "flat_entry y" using that assms(3,4) by (auto simp: list_all_iff)
    then show ?thesis
      using Some in_set_dget [OF assms(2), of k x] by (auto simp: same_entry_flat)
  qed (use in_set_dget [OF assms(2)] in auto)
  have sizes: "card (set a) = length a" "card (set b) = length b"
    using assms(1,2) by (simp_all add: dwf_def distinct_map distinct_card)
  have "same_inventory fl (JObj a) (JObj b) \<longleftrightarrow> length a = length b \<and> set a \<subseteq> set b"
    using look by (auto simp: same_inventory_def list_all_iff)
  also have "\<dots> \<longleftrightarrow> set a = set b"
    using sizes card_subset_eq [of "set b" "set a"] by auto
  finally show ?thesis .
qed

lemma same_inventory_iff:
  assumes "flat_inventory v" "flat_inventory w"
  shows "same_inventory fl v w \<longleftrightarrow> equal_inventory v w"
proof (cases v)
  case (JObj a)
  show ?thesis
  proof (cases "\<exists>b. w = JObj b")
    case True
    then show ?thesis
      using assms JObj by (auto simp: flat_inventory_def equal_inventory_def same_dict)
  qed (use JObj in \<open>auto simp: equal_inventory_def same_inventory_def split: json.splits\<close>)
qed (use assms in \<open>auto simp: flat_inventory_def equal_inventory_def same_inventory_def
    split: json.splits\<close>)

lemma visit_dwf:
  shows "visit sha t rel acc = Inr d \<Longrightarrow> dwf acc \<Longrightarrow> dwf d"
    and "visit_all sha ch rel acc = Inr d \<Longrightarrow> dwf acc \<Longrightarrow> dwf d"
proof (induction sha t rel acc and sha ch rel acc arbitrary: d and d rule: visit_visit_all.induct)
  case (1 sha t rel acc)
  then show ?case by (cases t) (auto split: if_splits)
next
  case (3 sha n t ch rel acc)
  then show ?case by (auto split: sum.splits)
qed simp

lemma paths_flat: "(p, e) \<in> paths sha t \<Longrightarrow> flat_entry e"
  by (induction sha t arbitrary: p e rule: paths.induct)
    (auto simp: entry_of_def flat_entry_def flat_item_def)

lemma inventory_of_tree:
  assumes "wf_tree t" "take_inventory sha (Some t) = Inr v"
  obtains d where "v = JObj d" "dwf d" "set d = at_path [] (paths sha t)" "flat_inventory v"
proof -
  obtain d where d: "visit sha t (asc ''.'') [] = Inr d" "v = JObj d"
    using assms(2) by (cases "visit sha t (asc ''.'') []") (auto simp: take_inventory_def)
  have set: "set d = at_path [] (paths sha t)"
    using visit_paths(1) [OF d(1) assms(1), of "[]"] by (simp add: path_str_def fresh_below_def)
  moreover have "dwf d" using visit_dwf(1) [OF d(1)] by simp
  moreover have "flat_entry e" if "(k, e) \<in> set d" for k e
    using that paths_flat unfolding set at_path_def by auto
  ultimately show thesis
    using d(2) that by (auto simp: flat_inventory_def list_all_iff)
qed

definition wf_target :: "tree option \<Rightarrow> bool" where
  "wf_target t = (case t of None \<Rightarrow> True | Some t \<Rightarrow> wf_tree t)"

text \<open>The same paths, each with the same mode, owner, kind, link text and content digest.\<close>

definition same_target :: "(bytes \<Rightarrow> pystr) \<Rightarrow> tree option \<Rightarrow> tree option \<Rightarrow> bool" where
  "same_target sha a b =
     (case (a, b) of
        (None, None) \<Rightarrow> True
      | (Some s, Some t) \<Rightarrow> paths sha s = paths sha t
      | _ \<Rightarrow> False)"

lemma inventory_flat: "wf_target t \<Longrightarrow> take_inventory sha t = Inr v \<Longrightarrow> flat_inventory v"
proof (cases t)
  case (Some x)
  assume "wf_target t" "take_inventory sha t = Inr v"
  then have "wf_tree x" "take_inventory sha (Some x) = Inr v" using Some by (simp_all add: wf_target_def)
  then show ?thesis by (rule inventory_of_tree)
qed (auto simp: take_inventory_def flat_inventory_def)

lemma equal_inventory_target:
  assumes "wf_target a" "wf_target b" "take_inventory sha a = Inr v" "take_inventory sha b = Inr w"
  shows "equal_inventory v w \<longleftrightarrow> same_target sha a b"
proof (cases a)
  case (Some s)
  obtain d where d: "v = JObj d" "set d = at_path [] (paths sha s)"
    using assms(1,3) Some by (auto simp: wf_target_def elim: inventory_of_tree)
  show ?thesis
  proof (cases b)
    case (Some t)
    obtain e where e: "w = JObj e" "set e = at_path [] (paths sha t)"
      using assms(2,4) Some by (auto simp: wf_target_def elim: inventory_of_tree)
    have wf: "wf_tree s" "wf_tree t" using assms(1,2) Some \<open>a = Some s\<close> by (simp_all add: wf_target_def)
    have "paths sha s = paths sha t" if "at_path [] (paths sha s) = at_path [] (paths sha t)"
      by (rule at_path_inj [OF that]) (erule paths_good [OF wf(1)], erule paths_good [OF wf(2)])
    then show ?thesis
      using d e Some \<open>a = Some s\<close> by (auto simp: equal_inventory_def same_target_def)
  qed (use d Some assms(4) in \<open>auto simp: take_inventory_def equal_inventory_def same_target_def\<close>)
next
  case None
  then have "v = JNull" using assms(3) by (simp add: take_inventory_def)
  moreover have "w = JNull \<longleftrightarrow> b = None"
    using assms(4) by (cases b) (auto simp: take_inventory_def map_sum_def split: sum.splits)
  ultimately show ?thesis
    using None by (auto simp: equal_inventory_def same_target_def split: json.splits option.splits)
qed

subsection \<open>The metadata files read back\<close>

lemma ascii_digits: "x \<in> set (show_int i) \<Longrightarrow> x < 128"
  by (auto dest!: show_int_numchars simp: is_numchar_def is_digit_def)

lemma ascii_escaped: "x \<in> set (dump_str True s) \<Longrightarrow> x < 128"
proof -
  have "hex_digit m < 128" if "m < 16" for m using that by (simp add: hex_digit_def)
  then have hd: "hex_digit (n mod 16) < 128" for n by simp
  have u: "y < 128" if "y \<in> set (u_escape n)" for y n
    using that hd by (auto simp: u_escape_def hex4_def)
  have "y < 128" if "y \<in> set (esc_char True c)" for y c
    using that u by (auto simp: esc_char_def split: if_splits)
  then show "x \<in> set (dump_str True s) \<Longrightarrow> x < 128" by (auto simp: dump_str_def)
qed

lemma dumps_ascii:
  shows "f = fmt_default \<Longrightarrow> wf_json True v \<Longrightarrow> x \<in> set (dumps f v) \<Longrightarrow> x < 128"
    and "f = fmt_default \<Longrightarrow> wf_items True vs \<Longrightarrow> x \<in> set (dumps_items f vs) \<Longrightarrow> x < 128"
    and "f = fmt_default \<Longrightarrow> wf_members True kvs \<Longrightarrow> x \<in> set (dumps_members f kvs) \<Longrightarrow> x < 128"
proof (induction f v and f vs and f kvs rule: dumps_dumps_items_dumps_members.induct)
  case (3 f i)
  then show ?case using ascii_digits by simp
next
  case (4 f t)
  then show ?case by (auto simp: wf_float_def asc_def is_numchar_def is_digit_def)
next
  case (5 f s)
  then show ?case using ascii_escaped by (simp add: fmt_default_def)
next
  case (9 f v vs)
  then show ?case by (auto simp: fmt_default_def asc_def split: if_splits)
next
  case (11 f k v kvs)
  then show ?case using ascii_escaped by (auto simp: fmt_default_def asc_def split: if_splits)
qed (auto simp: asc_def split: if_splits)

lemma loads_dumps_line:
  assumes "wf_json True v"
  shows "loads (dumps fmt_default v @ [10]) = Some v"
proof -
  have wf: "wf_json (fmt_ascii fmt_default) v" using assms by (simp add: fmt_default_def)
  have "parse_value (Suc (length (dumps fmt_default v @ [10]))) (dumps fmt_default v @ [10])
      = Some (v, [10])"
    using need_le_length(1) [OF wf_fmts(3) wf]
    by (intro parse_dumps(1) [OF wf_fmts(3) wf]) (simp_all add: delimited_def is_numchar_def is_digit_def)
  moreover have "skip_ws [10] = []" by (simp add: skip_ws_def is_ws_def)
  ultimately show ?thesis
    using skip_ws_dumps [OF assms, of fmt_default "[10]"] by (simp add: loads_def)
qed

text \<open>What \<open>atomic_json\<close> writes, \<open>read_json\<close> reads, with its keys sorted.\<close>

lemma metadata_roundtrip:
  assumes "atomic_json v bound = Inr f" "wf_json True v"
  shows "read_json (Some f) bound = Inr (sort_json v)"
proof -
  let ?t = "dumps fmt_default (sort_json v) @ [10]"
  have wf: "wf_json True (sort_json v)" by (rule wf_sort(1) [OF assms(2)])
  have f: "f = \<lparr>mf_regular = True, mf_uid = 0, mf_bytes = json_payload v\<rparr>"
    "length (json_payload v) \<le> bound"
    using assms(1) by (auto simp: atomic_json_def split: if_splits)
  have "list_all scalar ?t"
    using dumps_ascii(1) [OF refl wf] by (auto simp: list_all_iff intro: scalar_low)
  moreover have "universal_newlines ?t = ?t"
    using dumps_printable(1) [OF printable_fmts(3) wf, of 13] by (intro universal_newlines_id) auto
  ultimately have "read_utf8 (json_payload v) = Some ?t"
    using read_utf8_encode [of ?t] by (simp add: json_payload_def)
  then show ?thesis using f by (simp add: read_json_def loads_dumps_line [OF wf])
qed

subsection \<open>Inventories as JSON\<close>

text \<open>Names and link texts that decode.\<close>

fun plain_tree :: "tree \<Rightarrow> bool" where
  "plain_tree (Symlink m l) \<longleftrightarrow> list_all scalar l"
| "plain_tree (Directory m ch) \<longleftrightarrow> list_all (\<lambda>x. list_all scalar (fst x) \<and> plain_tree (snd x)) ch"
| "plain_tree t \<longleftrightarrow> True"

definition plain_target :: "tree option \<Rightarrow> bool" where
  "plain_target t = (case t of None \<Rightarrow> True | Some t \<Rightarrow> plain_tree t)"

lemma paths_plain:
  "plain_tree t \<Longrightarrow> hex_sha sha \<Longrightarrow> (p, e) \<in> paths sha t \<Longrightarrow>
     list_all (list_all scalar) p \<and> wf_json True e"
proof (induction sha t arbitrary: p e rule: paths.induct)
  case (4 sha m ch)
  from "4.prems"(3) consider "p = []" "e = entry_of m [JStr (asc ''directory'')]"
    | x p' where "x \<in> set ch" "p = fst x # p'" "(p', e) \<in> paths sha (snd x)"
    by auto
  then show ?case
  proof cases
    case 1
    then show ?thesis by (simp add: entry_of_def split: prod.split)
  next
    case 2
    then have "list_all scalar (fst x)" "plain_tree (snd x)" using "4.prems"(1) by (auto simp: list_all_iff)
    then show ?thesis using 2 "4.IH" [OF 2(1)] "4.prems"(2) by simp
  qed
qed (auto simp: entry_of_def hex_sha_def list_all_iff split: prod.split)

lemma path_str_scalar: "list_all (list_all scalar) p \<Longrightarrow> c \<in> set (path_str p) \<Longrightarrow> scalar c"
proof -
  have "c \<in> set (join [47] p) \<Longrightarrow> list_all (list_all scalar) p \<Longrightarrow> scalar c"
    by (induction "[47::nat]" p rule: join.induct) (auto simp: list_all_iff scalar_low)
  then show "list_all (list_all scalar) p \<Longrightarrow> c \<in> set (path_str p) \<Longrightarrow> scalar c"
    by (auto simp: path_str_def split: if_splits)
qed

lemma wf_members_iff:
  "wf_members True d \<longleftrightarrow> (\<forall>(k, v)\<in>set d. (\<forall>c\<in>set k. scalar c) \<and> wf_json True v)"
  by (induction d) auto

lemma inventory_wf_json:
  assumes "take_inventory sha a = Inr v" "wf_target a" "wf_target b" "same_target sha a b"
    "plain_target b" "hex_sha sha"
  shows "wf_json True v"
proof (cases a)
  case None
  then show ?thesis using assms(1) by (simp add: take_inventory_def)
next
  case (Some s)
  then obtain t where b: "b = Some t" "paths sha s = paths sha t"
    using assms(4) by (auto simp: same_target_def split: option.splits)
  obtain d where d: "v = JObj d" "dwf d" "set d = at_path [] (paths sha t)"
    using assms(1,2) Some b(2) by (auto simp: wf_target_def elim: inventory_of_tree)
  have "(\<forall>c\<in>set k. scalar c) \<and> wf_json True e" if "(k, e) \<in> set d" for k e
  proof -
    have "(k, e) \<in> at_path [] (paths sha t)" using that d(3) by simp
    then obtain p where "(p, e) \<in> paths sha t" "k = path_str p"
      unfolding at_path_def by (elim imageE) (simp split: prod.splits)
    then show ?thesis
      using paths_plain [of t sha p e] path_str_scalar assms(5,6) b(1) by (auto simp: plain_target_def)
  qed
  then show ?thesis using d(1,2) by (auto simp: wf_members_iff dwf_def)
qed

lemma sort_items_map: "sort_items vs = map sort_json vs"
  by (induction vs) auto

lemma sort_members_map: "sort_members d = map (\<lambda>(k, v). (k, sort_json v)) d"
  by (induction d) auto

lemma sort_entry: "flat_entry e \<Longrightarrow> sort_json e = e"
proof -
  have "list_all flat_item xs \<Longrightarrow> map sort_json xs = xs" for xs
    by (induction xs) (auto simp: flat_item_def split: json.splits)
  then show "flat_entry e \<Longrightarrow> sort_json e = e"
    by (cases e) (auto simp: flat_entry_def sort_items_map)
qed

lemma sort_inventory:
  assumes "flat_inventory v"
  shows "flat_inventory (sort_json v)" "equal_inventory v w \<longleftrightarrow> equal_inventory (sort_json v) w"
proof -
  have "flat_inventory (sort_json v) \<and> (equal_inventory v w \<longleftrightarrow> equal_inventory (sort_json v) w)"
  proof (cases v)
    case (JObj d)
    then have d: "dwf d" "list_all (\<lambda>(k, e). flat_entry e) d"
      using assms by (simp_all add: flat_inventory_def)
    have same: "sort_members d = d"
      using d(2) by (induction d) (auto simp: sort_entry)
    have "distinct (map fst (sort_key fst d))"
      using d(1) by (metis distinct_map distinct_sort set_sort dwf_def)
    then show ?thesis
      using d JObj by (auto simp: same flat_inventory_def dwf_def list_all_iff equal_inventory_def
          split: json.splits)
  qed (use assms in \<open>auto simp: flat_inventory_def\<close>)
  then show "flat_inventory (sort_json v)" "equal_inventory v w \<longleftrightarrow> equal_inventory (sort_json v) w"
    by simp_all
qed

lemma sort_obj_get:
  assumes "distinct (map fst kvs)"
  obtains d where "sort_json (JObj kvs) = JObj d" "set (dkeys d) = set (dkeys kvs)"
    "\<And>k. dget d k = map_option sort_json (dget kvs k)"
proof
  show "sort_json (JObj kvs) = JObj (sort_key fst (sort_members kvs))" by simp
  show "set (dkeys (sort_key fst (sort_members kvs))) = set (dkeys kvs)"
    using fst_sort_members [of kvs] by (metis dkeys_def set_map set_sort)
  show "dget (sort_key fst (sort_members kvs)) k = map_option sort_json (dget kvs k)" for k
    using assms by (simp add: dget_sort_key fst_sort_members dget_sort_members)
qed

lemma pending_record_reads:
  "pending_record (sort_json (pending_json name dg)) = Inr (name, JStr dg)"
proof -
  let ?kvs = "[(asc ''transaction'', JStr name), (asc ''manifest_sha256'', JStr dg)]"
  obtain d where "sort_json (JObj ?kvs) = JObj d" "set (dkeys d) = set (dkeys ?kvs)"
    "\<And>k. dget d k = map_option sort_json (dget ?kvs k)"
    by (rule sort_obj_get [of ?kvs]) simp_all
  then show ?thesis by (simp add: pending_json_def pending_record_def dkeys_def)
qed

lemma manifest_reads:
  assumes "length snaps = length TARGETS"
  shows "validate_manifest (sort_json (manifest_json snaps)) = Inr (map sort_json snaps)"
proof -
  let ?kvs = "[(asc ''schema'', JInt 1), (asc ''targets'', JList (map JStr TARGETS)),
           (asc ''snapshots'', JList snaps)]"
  have "map (sort_json \<circ> JStr) TARGETS = map JStr TARGETS" by simp
  moreover obtain d where "sort_json (JObj ?kvs) = JObj d" "set (dkeys d) = set (dkeys ?kvs)"
    "\<And>k. dget d k = map_option sort_json (dget ?kvs k)"
    by (rule sort_obj_get [of ?kvs]) simp_all
  ultimately show ?thesis
    using assms
    by (simp add: manifest_json_def validate_manifest_def dkeys_def sort_items_map insert_commute)
qed

end
