(* ===== verification/InstallRecovery.thy ===== *)
theory InstallRecovery
  imports InstallTxProps
begin

text \<open>
  Recovery of an interrupted installation. Once \<open>begin\<close> has succeeded, the pending record stands for
  the original targets: a restore that reports success has brought them back whatever happened
  in between, and a restore that nothing disturbs succeeds from every state an installation or
  earlier restores can leave.
\<close>

definition tx_wf :: "tx_state \<Rightarrow> bool" where
  "tx_wf S \<longleftrightarrow>
     length (tx_targets S) = length TARGETS \<and> list_all wf_target (tx_targets S) \<and>
     list_all (\<lambda>(n, d). length (td_copies d) = length TARGETS \<and> list_all wf_target (td_copies d))
       (tx_dirs S)"

lemma tx_wf_dir:
  "tx_wf S \<Longrightarrow> dget (tx_dirs S) n = Some d \<Longrightarrow>
     length (td_copies d) = length TARGETS \<and> list_all wf_target (td_copies d)"
  unfolding tx_wf_def by (drule map_of_SomeD) (auto simp: list_all_iff)

lemma snapshots_of_Inr:
  "length copies = length targets \<Longrightarrow> snapshots_of H (zip copies targets) = Inr snaps \<Longrightarrow>
     length snaps = length copies \<and>
     (\<forall>i<length copies. take_inventory (ih_sha H) (copies ! i) = Inr (snaps ! i) \<and>
        (\<exists>v. take_inventory (ih_sha H) (targets ! i) = Inr v \<and>
             same_inventory (ih_same H) (snaps ! i) v))"
proof (induction copies targets arbitrary: snaps rule: list_induct2)
  case (Cons c cs t ts)
  then obtain s v ss where s: "take_inventory (ih_sha H) c = Inr s" "take_inventory (ih_sha H) t = Inr v"
    "same_inventory (ih_same H) s v" "snapshots_of H (zip cs ts) = Inr ss" "snaps = s # ss"
    by (auto split: sum.splits if_splits)
  then show ?case using Cons.IH [OF s(4)] by (auto simp: All_less_Suc2)
qed simp

lemma check_inventories_iff:
  "length ts = length snaps \<Longrightarrow>
     check_inventories H why (zip ts snaps) = Inr () \<longleftrightarrow>
     (\<forall>i<length ts. \<exists>v. take_inventory (ih_sha H) (ts ! i) = Inr v \<and>
        same_inventory (ih_same H) v (snaps ! i))"
proof (induction ts snaps rule: list_induct2)
  case (Cons t ts s ss)
  then show ?case
    by (cases "take_inventory (ih_sha H) t") (auto simp: All_less_Suc2)
qed simp

lemma read_json_bytes:
  "read_json (Some f) b = Inr v \<Longrightarrow> read_json (Some g) b' = Inr w \<Longrightarrow> mf_bytes f = mf_bytes g \<Longrightarrow>
     v = w"
  by (auto simp: read_json_def split: if_splits option.splits)

text \<open>What a successful \<open>begin\<close> leaves.\<close>

record seal =
  se_dir :: tx_dir
  se_snaps :: "json list"
  se_manifest :: meta_file
  se_record :: meta_file

definition sealed ::
  "install_host \<Rightarrow> pystr \<Rightarrow> seal \<Rightarrow> tree option list \<Rightarrow> bool" where
  "sealed H name z targets \<longleftrightarrow>
     tx_name name \<and> private_directory (se_dir z) \<and>
     length (se_snaps z) = length TARGETS \<and>
     (\<forall>i<length TARGETS.
        take_inventory (ih_sha H) (td_copies (se_dir z) ! i) = Inr (se_snaps z ! i) \<and>
        flat_inventory (se_snaps z ! i) \<and>
        same_target (ih_sha H) (td_copies (se_dir z) ! i) (targets ! i)) \<and>
     read_json (Some (se_manifest z)) MANIFEST_BOUND = Inr (sort_json (manifest_json (se_snaps z))) \<and>
     read_json (Some (se_record z)) PENDING_BOUND
       = Inr (sort_json (pending_json name (ih_sha H (mf_bytes (se_manifest z)))))"

lemma scalar_alnum: "is_alnum c \<Longrightarrow> scalar c"
  by (auto simp: is_alnum_def intro: scalar_low)

lemma scalar_tx_name: "tx_name n \<Longrightarrow> \<forall>c\<in>set n. scalar c"
proof
  fix c assume "tx_name n" "c \<in> set n"
  then have "c \<in> set (asc ''install-'') \<or> is_alnum c"
    by (metis Un_iff append_take_drop_id list_all_iff set_append tx_name_def)
  then show "scalar c" using scalar_asc scalar_alnum by blast
qed

lemma wf_json_manifest: "list_all (wf_json True) snaps \<Longrightarrow> wf_json True (manifest_json snaps)"
proof -
  have "list_all (wf_json True) vs \<Longrightarrow> wf_items True vs" for vs by (induction vs) auto
  moreover have "wf_items True (map JStr TARGETS)"
    by (simp add: TARGETS_def)
  ultimately show "list_all (wf_json True) snaps \<Longrightarrow> ?thesis" by (simp add: manifest_json_def)
qed

lemma begin_seals:
  assumes "tx_begin H parent name S0 = (Inr (), S1)" "tx_wf S0"
    "list_all plain_target (tx_targets S0)" "hex_sha (ih_sha H)"
  obtains z where "sealed H name z (tx_targets S0)"
    "dget (tx_dirs S0) name = Some (se_dir z)"
    "S1 = (put_dir name ((se_dir z)\<lparr>td_manifest := Some (se_manifest z)\<rparr>) S0)
            \<lparr>tx_pending := Some (se_record z)\<rparr>"
proof -
  obtain d snaps m r where d: "transaction_path name S0 = Inr d"
    and snaps: "snapshots_of H (zip (td_copies d) (tx_targets S0)) = Inr snaps"
    and m: "atomic_json (manifest_json snaps) MANIFEST_BOUND = Inr m"
    and r: "atomic_json (pending_json name (ih_sha H (mf_bytes m))) PENDING_BOUND = Inr r"
    and S1: "S1 = (put_dir name (d\<lparr>td_manifest := Some m\<rparr>) S0)\<lparr>tx_pending := Some r\<rparr>"
    using assms(1) by (auto simp: tx_begin_def Let_def split: sum.splits if_splits)
  have dir: "tx_name name" "dget (tx_dirs S0) name = Some d" "private_directory d"
    using d by (auto simp: transaction_path_def split: if_splits option.splits)
  have wf: "length (td_copies d) = length TARGETS" "list_all wf_target (td_copies d)"
    "length (tx_targets S0) = length TARGETS" "list_all wf_target (tx_targets S0)"
    using tx_wf_dir [OF assms(2) dir(2)] assms(2) by (simp_all add: tx_wf_def)
  have len: "length snaps = length TARGETS"
    using snapshots_of_Inr [OF _ snaps] wf by simp
  have each: "take_inventory (ih_sha H) (td_copies d ! i) = Inr (snaps ! i) \<and>
      flat_inventory (snaps ! i) \<and> wf_json True (snaps ! i) \<and>
      same_target (ih_sha H) (td_copies d ! i) (tx_targets S0 ! i)" if i: "i < length TARGETS" for i
  proof -
    obtain v where v: "take_inventory (ih_sha H) (td_copies d ! i) = Inr (snaps ! i)"
      "take_inventory (ih_sha H) (tx_targets S0 ! i) = Inr v"
      "same_inventory (ih_same H) (snaps ! i) v"
      using snapshots_of_Inr [OF _ snaps] wf i by auto
    have w: "wf_target (td_copies d ! i)" "wf_target (tx_targets S0 ! i)"
      "plain_target (tx_targets S0 ! i)"
      using wf i assms(3) by (auto simp: list_all_length)
    have f: "flat_inventory (snaps ! i)" "flat_inventory v"
      using inventory_flat w v by blast+
    then have "same_target (ih_sha H) (td_copies d ! i) (tx_targets S0 ! i)"
      using v(3) same_inventory_iff equal_inventory_target [OF w(1,2) v(1,2)] by blast
    then show ?thesis
      using v(1) f inventory_wf_json [OF v(1) w(1,2) _ w(3) assms(4)] by blast
  qed
  have "wf_json True (manifest_json snaps)"
    using each len by (intro wf_json_manifest) (simp add: list_all_length)
  then have "read_json (Some m) MANIFEST_BOUND = Inr (sort_json (manifest_json snaps))"
    by (rule metadata_roundtrip [OF m])
  moreover have "read_json (Some r) PENDING_BOUND = Inr (sort_json (pending_json name (ih_sha H (mf_bytes m))))"
    using scalar_tx_name [OF dir(1)] assms(4)
    by (intro metadata_roundtrip [OF r]) (simp add: pending_json_def hex_sha_def)
  ultimately have "sealed H name \<lparr>se_dir = d, se_snaps = snaps, se_manifest = m, se_record = r\<rparr>
      (tx_targets S0)"
    using dir len each by (simp add: sealed_def)
  then show thesis by (rule that) (simp_all add: dir S1)
qed

text \<open>The pending record identifies the manifest, and with it the snapshots.\<close>

lemma pending_gives_snapshots:
  assumes "sealed H name z targets" "tx_pending S = Some (se_record z)" "ih_sha H' = ih_sha H"
    "\<And>b. ih_sha H b = ih_sha H (mf_bytes (se_manifest z)) \<Longrightarrow> b = mf_bytes (se_manifest z)"
    "tx_pending_read H' S = Inr (d, snaps)"
  shows "snaps = map sort_json (se_snaps z)" "dget (tx_dirs S) name = Some d"
proof -
  have rec: "read_json (tx_pending S) PENDING_BOUND
      = Inr (sort_json (pending_json name (ih_sha H (mf_bytes (se_manifest z)))))"
    using assms(1,2) by (simp add: sealed_def)
  obtain m where d: "transaction_path name S = Inr d"
    and m: "read_json (td_manifest d) MANIFEST_BOUND = Inr m"
    and dg: "ih_sha H (mf_bytes (the (td_manifest d))) = ih_sha H (mf_bytes (se_manifest z))"
    and s: "validate_manifest m = Inr snaps"
    using assms(3,5) by (auto simp: tx_pending_read_def rec pending_record_reads split: sum.splits if_splits)
  obtain f where f: "td_manifest d = Some f"
    using m by (auto simp: read_json_def split: option.splits)
  have "m = sort_json (manifest_json (se_snaps z))"
    using m assms(1) dg assms(4) read_json_bytes [of f _ m "se_manifest z"] f
    by (auto simp: sealed_def)
  then show "snaps = map sort_json (se_snaps z)"
    using s manifest_reads [of "se_snaps z"] assms(1) by (simp add: sealed_def)
  show "dget (tx_dirs S) name = Some d"
    using d by (auto simp: transaction_path_def split: if_splits option.splits)
qed

subsection \<open>A restore that succeeds\<close>

lemma same_target_sym: "same_target sha a b \<longleftrightarrow> same_target sha b a"
  by (auto simp: same_target_def split: option.splits)

lemma same_target_trans: "same_target sha a b \<Longrightarrow> same_target sha b c \<Longrightarrow> same_target sha a c"
  by (auto simp: same_target_def split: option.splits)

lemma restored_from_snapshots:
  assumes z: "sealed H name z targets" and same_sha: "ih_sha H' = ih_sha H"
    and dir: "list_all wf_target (td_copies (se_dir z))" "length (td_copies (se_dir z)) = length TARGETS"
    and ts: "list_all wf_target ts" "length ts = length TARGETS" "length targets = length TARGETS"
    and ok: "verify_restored H' ts (map sort_json (se_snaps z)) = Inr ()"
  shows "list_all2 (same_target (ih_sha H)) targets ts"
proof (rule list_all2_all_nthI)
  show "length targets = length ts" using ts by simp
  fix i assume "i < length targets"
  then have i: "i < length TARGETS" using ts by simp
  let ?s = "se_snaps z ! i"
  have s: "take_inventory (ih_sha H) (td_copies (se_dir z) ! i) = Inr ?s" "flat_inventory ?s"
    "same_target (ih_sha H) (td_copies (se_dir z) ! i) (targets ! i)"
    using z i by (simp_all add: sealed_def)
  have len: "length (se_snaps z) = length TARGETS" using z by (simp add: sealed_def)
  obtain v where v: "take_inventory (ih_sha H) (ts ! i) = Inr v"
    "same_inventory (ih_same H') v (sort_json ?s)"
    using ok check_inventories_iff [of ts "map sort_json (se_snaps z)" H'] ts i len same_sha
    by (auto simp: verify_restored_def)
  have w: "wf_target (ts ! i)" "wf_target (td_copies (se_dir z) ! i)"
    using ts dir i by (simp_all add: list_all_length)
  have "equal_inventory v (sort_json ?s)"
    using v(2) same_inventory_iff [OF inventory_flat [OF w(1) v(1)] sort_inventory(1) [OF s(2)]] by simp
  then have "equal_inventory ?s v"
    using sort_inventory(2) [OF s(2), of v] by (auto simp: equal_inventory_def split: json.splits)
  then have "same_target (ih_sha H) (td_copies (se_dir z) ! i) (ts ! i)"
    using equal_inventory_target [OF w(2,1) s(1) v(1)] by simp
  then show "same_target (ih_sha H) (targets ! i) (ts ! i)"
    using same_target_trans same_target_sym s(3) by blast
qed

definition manifest_bytes :: "pystr \<Rightarrow> tx_state \<Rightarrow> bytes" where
  "manifest_bytes name S =
     (case dget (tx_dirs S) name of
        None \<Rightarrow> []
      | Some d \<Rightarrow> (case td_manifest d of None \<Rightarrow> [] | Some f \<Rightarrow> mf_bytes f))"

lemma restore_parts:
  assumes "tx_restore H S = (Inr (), S2)"
  obtains d snaps where "tx_pending_read H S = Inr (d, snaps)"
    "verify_restored H (tx_targets S2) snaps = Inr ()"
  using assms by (auto simp: tx_restore_def split: sum.splits prod.splits)

text \<open>C12: After \<open>begin\<close> has succeeded, a restore that reports success has brought every managed
  target back: the same paths with the same modes, owners, kinds, link texts and content
  digests. Nothing is assumed of what happened in between, of the copies or of \<open>cp\<close>, except
  that the pending record is the one \<open>begin\<close> wrote and no other text has the digest of its
  manifest.\<close>

theorem restore_returns_original:
  assumes "tx_begin H parent name S0 = (Inr (), S1)" "tx_wf S0"
    and "list_all plain_target (tx_targets S0)" "hex_sha (ih_sha H)"
    and "\<And>b. ih_sha H b = ih_sha H (manifest_bytes name S1) \<Longrightarrow> b = manifest_bytes name S1"
    and "tx_pending S = tx_pending S1" "ih_sha H' = ih_sha H"
    and "tx_restore H' S = (Inr (), S2)" "tx_wf S2"
  shows "list_all2 (same_target (ih_sha H)) (tx_targets S0) (tx_targets S2)"
proof -
  obtain z where z: "sealed H name z (tx_targets S0)" "dget (tx_dirs S0) name = Some (se_dir z)"
    "S1 = (put_dir name ((se_dir z)\<lparr>td_manifest := Some (se_manifest z)\<rparr>) S0)
            \<lparr>tx_pending := Some (se_record z)\<rparr>"
    by (rule begin_seals [OF assms(1-4)])
  have bytes: "manifest_bytes name S1 = mf_bytes (se_manifest z)"
    by (simp add: z(3) manifest_bytes_def put_dir_def)
  obtain d snaps where p: "tx_pending_read H' S = Inr (d, snaps)"
    and ok: "verify_restored H' (tx_targets S2) snaps = Inr ()"
    by (rule restore_parts [OF assms(8)])
  have "snaps = map sort_json (se_snaps z)"
    using assms(5,6) bytes z(3)
    by (intro pending_gives_snapshots(1) [OF z(1) _ assms(7) _ p]) simp_all
  then show ?thesis
    using ok tx_wf_dir [OF assms(2) z(2)] assms(2,9)
    by (intro restored_from_snapshots [OF z(1) assms(7)]) (simp_all add: tx_wf_def)
qed

subsection \<open>A restore that nothing disturbs\<close>

text \<open>What happens between \<open>begin\<close> and the last restore: the installer, or a restore that was cut
  off, leaves the targets in any state; a restore is tried, with any outcome.\<close>

datatype tx_event = Left_behind "nat \<Rightarrow> tree option" | Restore_try install_host

fun tx_step :: "(bytes \<Rightarrow> pystr) \<Rightarrow> tx_state \<Rightarrow> tx_event \<Rightarrow> tx_state" where
  "tx_step sha S (Left_behind f) = S\<lparr>tx_targets := map f [0..<length TARGETS]\<rparr>"
| "tx_step sha S (Restore_try H) = snd (tx_restore (H\<lparr>ih_sha := sha\<rparr>) S)"

definition untouched :: "(pystr, tx_dir) dict \<Rightarrow> meta_file option \<Rightarrow> tx_state \<Rightarrow> bool" where
  "untouched dirs p S \<longleftrightarrow>
     tx_dirs S = dirs \<and> tx_pending S = p \<and> length (tx_targets S) = length TARGETS \<and>
     list_all (\<lambda>(n, d). length (td_copies d) = length TARGETS) dirs"

lemma length_restore_loop: "length (snd (restore_loop H i xs)) = length xs"
  by (induction H i xs rule: restore_loop.induct) (auto split: prod.splits sum.splits)

lemma pending_lengths:
  assumes "tx_pending_read H S = Inr (d, snaps)"
  shows "length snaps = length TARGETS" "\<exists>n. dget (tx_dirs S) n = Some d"
  using assms
  by (auto simp: tx_pending_read_def validate_manifest_def transaction_path_def
      split: sum.splits if_splits option.splits json.splits)

lemma untouched_restore:
  assumes "untouched dirs p S"
  shows "untouched dirs p (snd (tx_restore H S))"
proof (cases "tx_pending_read H S")
  case (Inr a)
  then obtain d snaps where a: "tx_pending_read H S = Inr (d, snaps)" by (cases a) auto
  obtain n where n: "dget dirs n = Some d"
    using pending_lengths(2) [OF a] assms by (auto simp: untouched_def)
  then have "length (td_copies d) = length TARGETS"
    using assms map_of_SomeD [OF n] by (auto simp: untouched_def list_all_iff)
  then have "length (snd (restore_loop H 0 (zip snaps (zip (td_copies d) (tx_targets S))))) = length TARGETS"
    using pending_lengths(1) [OF a] assms by (simp add: length_restore_loop untouched_def)
  then show ?thesis
    using assms a by (auto simp: tx_restore_def untouched_def split: prod.splits sum.splits)
qed (use assms in \<open>simp add: tx_restore_def\<close>)

interpretation attempts: machine_inv "tx_step sha" "untouched dirs p" for sha dirs p
proof
  fix S e assume u: "untouched dirs p S"
  show "untouched dirs p (tx_step sha S e)"
    using u untouched_restore [OF u] by (cases e) (auto simp: untouched_def)
qed

text \<open>The commands do what they are documented to do.\<close>

definition commands_work :: "install_host \<Rightarrow> bool" where
  "commands_work H \<longleftrightarrow>
     ih_sync H \<and> ih_remove H = (\<lambda>i t. None) \<and> ih_copy H = (\<lambda>i t. (True, Some t))"

lemma restore_loop_works:
  "commands_work H \<Longrightarrow> list_all (\<lambda>(s, c, t). s = JNull \<longleftrightarrow> c = None) xs \<Longrightarrow>
     restore_loop H i xs = (Inr (), map (fst \<circ> snd) xs)"
  by (induction H i xs rule: restore_loop.induct)
    (auto simp: commands_work_def restore_one_def split: option.splits prod.splits)

lemma sort_json_null: "sort_json v = JNull \<longleftrightarrow> v = JNull"
  by (cases v) simp_all

lemma take_inventory_null: "take_inventory sha t = Inr v \<Longrightarrow> v = JNull \<longleftrightarrow> t = None"
  by (auto simp: take_inventory_def map_sum_def split: option.splits sum.splits)

lemma sealed_copies_check:
  assumes "sealed H name z targets" "ih_sha H' = ih_sha H" "length (td_copies (se_dir z)) = length TARGETS"
  shows "check_inventories H' why (zip (td_copies (se_dir z)) (map sort_json (se_snaps z))) = Inr ()"
proof -
  have len: "length (se_snaps z) = length TARGETS" using assms(1) by (simp add: sealed_def)
  have "same_inventory (ih_same H') (se_snaps z ! i) (sort_json (se_snaps z ! i))"
    if "i < length TARGETS" for i
  proof -
    have f: "flat_inventory (se_snaps z ! i)" using assms(1) that by (simp add: sealed_def)
    have "equal_inventory (sort_json (se_snaps z ! i)) (sort_json (se_snaps z ! i))"
      using sort_inventory(1) [OF f] by (auto simp: equal_inventory_def flat_inventory_def split: json.splits)
    then show ?thesis
      using same_inventory_iff [OF f sort_inventory(1) [OF f]] sort_inventory(2) [OF f] by simp
  qed
  then show ?thesis
    using assms len
    by (subst check_inventories_iff) (auto simp: sealed_def)
qed

lemma sealed_pending_reads:
  assumes "sealed H name z targets" "ih_sha H' = ih_sha H" "length (td_copies (se_dir z)) = length TARGETS"
    and "tx_pending S = Some (se_record z)"
    and "dget (tx_dirs S) name = Some ((se_dir z)\<lparr>td_manifest := Some (se_manifest z)\<rparr>)"
  shows "tx_pending_read H' S =
    Inr ((se_dir z)\<lparr>td_manifest := Some (se_manifest z)\<rparr>, map sort_json (se_snaps z))"
proof -
  have "transaction_path name S = Inr ((se_dir z)\<lparr>td_manifest := Some (se_manifest z)\<rparr>)"
    using assms(1,5) by (simp add: transaction_path_def sealed_def private_directory_def)
  then show ?thesis
    using assms sealed_copies_check [OF assms(1-3)]
    by (simp add: tx_pending_read_def sealed_def pending_record_reads manifest_reads)
qed

lemma in_dset: "x \<in> set (dset k v d) \<Longrightarrow> x = (k, v) \<or> x \<in> set d"
  by (induction d) (auto split: if_splits)

lemma begin_untouched:
  assumes "tx_begin H parent name S0 = (Inr (), S1)" "tx_wf S0"
    "list_all plain_target (tx_targets S0)" "hex_sha (ih_sha H)"
  shows "untouched (tx_dirs S1) (tx_pending S1) S1"
proof -
  obtain z where z: "sealed H name z (tx_targets S0)" "dget (tx_dirs S0) name = Some (se_dir z)"
    "S1 = (put_dir name ((se_dir z)\<lparr>td_manifest := Some (se_manifest z)\<rparr>) S0)
            \<lparr>tx_pending := Some (se_record z)\<rparr>"
    by (rule begin_seals [OF assms])
  then show ?thesis
    using assms(2) tx_wf_dir [OF assms(2) z(2)]
    by (auto simp: untouched_def put_dir_def tx_wf_def list_all_iff dest!: in_dset)
qed

lemma begin_wf:
  assumes "tx_begin H parent name S0 = (Inr (), S1)" "tx_wf S0"
    "list_all plain_target (tx_targets S0)" "hex_sha (ih_sha H)"
  shows "tx_wf S1"
proof -
  obtain z where z: "sealed H name z (tx_targets S0)" "dget (tx_dirs S0) name = Some (se_dir z)"
    "S1 = (put_dir name ((se_dir z)\<lparr>td_manifest := Some (se_manifest z)\<rparr>) S0)
            \<lparr>tx_pending := Some (se_record z)\<rparr>"
    by (rule begin_seals [OF assms])
  then show ?thesis
    using assms(2) tx_wf_dir [OF assms(2) z(2)]
    by (auto simp: put_dir_def tx_wf_def list_all_iff dest!: in_dset)
qed

lemma restore_works:
  assumes "tx_begin H parent name S0 = (Inr (), S1)" "tx_wf S0"
    "list_all plain_target (tx_targets S0)" "hex_sha (ih_sha H)"
    "commands_work H'" "ih_sha H' = ih_sha H" "untouched (tx_dirs S1) (tx_pending S1) S"
  obtains d where "dget (tx_dirs S0) name = Some d"
    "tx_restore H' S = (Inr (), S\<lparr>tx_targets := td_copies d\<rparr>)"
    "tx_complete H' True (S\<lparr>tx_targets := td_copies d\<rparr>)
       = (Inr (), S\<lparr>tx_targets := td_copies d, tx_pending := None\<rparr>)"
    "list_all2 (same_target (ih_sha H)) (tx_targets S0) (td_copies d)"
proof -
  obtain z where z: "sealed H name z (tx_targets S0)" "dget (tx_dirs S0) name = Some (se_dir z)"
    "S1 = (put_dir name ((se_dir z)\<lparr>td_manifest := Some (se_manifest z)\<rparr>) S0)
            \<lparr>tx_pending := Some (se_record z)\<rparr>"
    by (rule begin_seals [OF assms(1-4)])
  let ?d = "(se_dir z)\<lparr>td_manifest := Some (se_manifest z)\<rparr>"
  let ?snaps = "map sort_json (se_snaps z)"
  have copies: "length (td_copies (se_dir z)) = length TARGETS"
    using tx_wf_dir [OF assms(2) z(2)] by simp
  have S: "tx_dirs S = tx_dirs S1" "tx_pending S = Some (se_record z)"
    "length (tx_targets S) = length TARGETS"
    using assms(7) by (simp_all add: untouched_def z(3))
  have reads: "tx_pending_read H' T = Inr (?d, ?snaps)"
    if "tx_dirs T = tx_dirs S1" "tx_pending T = Some (se_record z)" for T
    by (rule sealed_pending_reads [OF z(1) assms(6) copies that(2)])
      (simp add: that(1) z(3) put_dir_def)
  have len: "length (se_snaps z) = length TARGETS" using z(1) by (simp add: sealed_def)
  have "list_all (\<lambda>(s, c, t). s = JNull \<longleftrightarrow> c = None) (zip ?snaps (zip (td_copies (se_dir z)) (tx_targets S)))"
    using z(1) len copies S(3)
    by (auto simp: list_all_length sealed_def sort_json_null take_inventory_null)
  from restore_loop_works [OF assms(5) this, of 0]
  have loop: "restore_loop H' 0 (zip ?snaps (zip (td_copies (se_dir z)) (tx_targets S))) = (Inr (), td_copies (se_dir z))"
    using len copies S(3) by (simp add: list_eq_iff_nth_eq)
  have check: "verify_restored H' (td_copies (se_dir z)) ?snaps = Inr ()"
    using sealed_copies_check [OF z(1) assms(6) copies] by (simp add: verify_restored_def)
  have restore: "tx_restore H' S = (Inr (), S\<lparr>tx_targets := td_copies (se_dir z)\<rparr>)"
    using reads [OF S(1,2)] loop check by (simp add: tx_restore_def)
  have complete: "tx_complete H' True (S\<lparr>tx_targets := td_copies (se_dir z)\<rparr>)
      = (Inr (), S\<lparr>tx_targets := td_copies (se_dir z), tx_pending := None\<rparr>)"
    using reads [of "S\<lparr>tx_targets := td_copies (se_dir z)\<rparr>"] S check assms(5)
    by (simp add: tx_complete_def commands_work_def)
  have "list_all2 (same_target (ih_sha H)) (tx_targets S0) (td_copies (se_dir z))"
    using z(1) copies assms(2)
    by (auto simp: list_all2_conv_all_nth sealed_def tx_wf_def same_target_sym)
  then show thesis by (rule that [OF z(2) restore complete])
qed

text \<open>C11: After \<open>begin\<close> has succeeded, whatever state the installer, cut off restores and failed
  restores have left the targets in, a restore whose commands work succeeds and brings the
  original targets back, and the transaction can then be completed, which clears its record.\<close>

theorem interrupted_install_recoverable:
  assumes "tx_begin H parent name S0 = (Inr (), S1)" "tx_wf S0"
    and "list_all plain_target (tx_targets S0)" "hex_sha (ih_sha H)"
    and "commands_work H'" "ih_sha H' = ih_sha H"
  shows "let S = run (tx_step (ih_sha H)) S1 es;
             (restored, S') = tx_restore H' S;
             (completed, S'') = tx_complete H' True S'
         in restored = Inr () \<and> completed = Inr () \<and> tx_pending S'' = None \<and>
            list_all2 (same_target (ih_sha H)) (tx_targets S0) (tx_targets S')"
proof -
  have "untouched (tx_dirs S1) (tx_pending S1) (run (tx_step (ih_sha H)) S1 es)"
    by (rule attempts.inv_run [OF begin_untouched [OF assms(1-4)]])
  then show ?thesis by (rule restore_works [OF assms]) simp
qed

subsection \<open>The properties at work\<close>

text \<open>Two files and a directory tree are sealed; the digest of the manifest is \<open>m\<close>, of every other
  text \<open>c\<close>.\<close>

definition sample_targets :: "tree option list" where
  "sample_targets =
     [Some (Directory (493, 0, 0)
        [(asc ''bin'', Directory (493, 0, 0) [(asc ''sh'', Symlink (511, 0, 0) (asc ''/bin/sh''))]),
         (asc ''a'', Regular (420, 0, 0) [1, 2])]),
      None, Some (Regular (420, 0, 0) [3]), None, None]"

definition sample_manifest :: bytes where
  "sample_manifest =
     json_payload (manifest_json (map (\<lambda>t. case take_inventory (\<lambda>b. asc ''c'') t of
        Inl e \<Rightarrow> JNull | Inr v \<Rightarrow> v) sample_targets))"

definition sample_digest :: "bytes \<Rightarrow> pystr" where
  "sample_digest b = (if b = sample_manifest then asc ''m'' else asc ''c'')"

definition sample_host :: install_host where
  "sample_host =
     \<lparr>ih_sha = sample_digest, ih_same = (\<lambda>t i. False), ih_sync = True,
      ih_remove = (\<lambda>i t. None), ih_copy = (\<lambda>i t. (True, Some t))\<rparr>"

definition sample_tx :: tx_state where
  "sample_tx =
     \<lparr>tx_dirs = [(asc ''install-AAAAAAAA'', \<lparr>td_directory = True, td_uid = 0, td_mode = 448,
         td_targets = Some target_mapping, td_copies = sample_targets, td_manifest = None\<rparr>)],
      tx_pending = None, tx_targets = sample_targets\<rparr>"

lemma sample_mapping: "read_utf8 target_mapping = Some target_mapping"
proof -
  have ascii: "\<forall>c\<in>set target_mapping. c < 128 \<and> c \<noteq> 13"
    by (simp add: target_mapping_def TARGETS_def asc_def)
  then have "utf8_encode target_mapping = target_mapping" by (simp add: asc_ascii_encode)
  then show ?thesis
    using read_utf8_encode [of target_mapping] ascii
    by (auto simp: list_all_iff scalar_low universal_newlines_id)
qed

lemma sample_digest_other: "x \<noteq> 123 \<Longrightarrow> sample_digest (x # xs) = asc ''c''"
proof -
  have "\<exists>t. sample_manifest = 123 # t"
    by (simp add: sample_manifest_def json_payload_def manifest_json_def utf8_encode_def encode_char_def)
  then obtain t where t: "sample_manifest = 123 # t" ..
  then have "x # xs \<noteq> sample_manifest" if "x \<noteq> 123" using that unfolding t by simp
  then show "x \<noteq> 123 \<Longrightarrow> sample_digest (x # xs) = asc ''c''" by (simp add: sample_digest_def)
qed

definition sample_snapshots :: "json list" where
  "sample_snapshots =
     map (\<lambda>t. case take_inventory (\<lambda>b. asc ''c'') t of Inl e \<Rightarrow> JNull | Inr v \<Rightarrow> v) sample_targets"

lemma sample_snapshots_of:
  "snapshots_of sample_host (zip sample_targets sample_targets) = Inr sample_snapshots"
  by (simp add: sample_snapshots_def sample_targets_def sample_host_def take_inventory_def ENTRY_BOUND_def
      child_path_def sample_digest_other entry_of_def same_inventory_def same_entry_def
      same_item_def same_number_def asc_append [symmetric])

lemma sample_manifest_bytes: "sample_manifest = json_payload (manifest_json sample_snapshots)"
  by (simp add: sample_manifest_def sample_snapshots_def)

definition plain_char :: "nat \<Rightarrow> bool" where
  "plain_char c \<longleftrightarrow> 32 \<le> c \<and> c < 127 \<and> c \<noteq> 34 \<and> c \<noteq> 92"

lemma dump_str_plain: "list_all plain_char s \<Longrightarrow> dump_str True s = [34] @ s @ [34]"
proof -
  have "plain_char c \<Longrightarrow> esc_char True c = [c]" for c by (auto simp: plain_char_def esc_char_def)
  then have "list_all plain_char s \<Longrightarrow> concat (map (esc_char True) s) = s" by (induction s) auto
  then show "list_all plain_char s \<Longrightarrow> ?thesis" by (simp add: dump_str_def)
qed

lemma plain_asc_chars: "list_all plain_char (asc s) \<longleftrightarrow> list_all (\<lambda>c. plain_char (of_char c)) s"
  by (simp add: asc_def list_all_iff)

lemma length_json_payload: "wf_json True v \<Longrightarrow> length (json_payload v) = Suc (length (dumps fmt_default (sort_json v)))"
  using dumps_ascii(1) [OF refl wf_sort(1), of v]
  by (simp add: json_payload_def asc_ascii_encode)

lemma sample_order:
  "asc ''.'' \<le> asc ''a''" "asc ''.'' \<le> asc ''bin''" "asc ''.'' \<le> asc ''bin/sh''"
  "asc ''a'' \<le> asc ''bin''" "asc ''a'' \<le> asc ''bin/sh''" "asc ''bin'' \<le> asc ''bin/sh''"
  "\<not> asc ''bin'' \<le> asc ''a''"
  "asc ''schema'' \<le> asc ''targets''" "\<not> asc ''targets'' \<le> asc ''snapshots''"
  "asc ''schema'' \<le> asc ''snapshots''" "\<not> asc ''transaction'' \<le> asc ''manifest_sha256''"
  by (simp_all add: asc_def)

lemma sample_snapshots_eq:
  "sample_snapshots =
     [JObj [(asc ''.'', entry_of (493, 0, 0) [JStr (asc ''directory'')]),
            (asc ''a'', entry_of (420, 0, 0) [JStr (asc ''file''), JStr (asc ''c'')]),
            (asc ''bin'', entry_of (493, 0, 0) [JStr (asc ''directory'')]),
            (asc ''bin/sh'', entry_of (511, 0, 0) [JStr (asc ''link''), JStr (asc ''/bin/sh'')])],
      JNull, JObj [(asc ''.'', entry_of (420, 0, 0) [JStr (asc ''file''), JStr (asc ''c'')])],
      JNull, JNull]"
  by (simp add: sample_snapshots_def sample_targets_def take_inventory_def ENTRY_BOUND_def
      child_path_def asc_append [symmetric] sample_order)

lemma sample_wf:
  "wf_json True (manifest_json sample_snapshots)"
  "wf_json True (pending_json (asc ''install-AAAAAAAA'') (asc ''m''))"
  by (simp_all add: sample_snapshots_eq entry_of_def manifest_json_def pending_json_def TARGETS_def)

lemma sample_bounds:
  "length (json_payload (manifest_json sample_snapshots)) \<le> MANIFEST_BOUND"
  "length (json_payload (pending_json (asc ''install-AAAAAAAA'') (asc ''m''))) \<le> PENDING_BOUND"
  unfolding length_json_payload [OF sample_wf(1)] length_json_payload [OF sample_wf(2)]
  by (simp_all add: sample_snapshots_eq entry_of_def manifest_json_def pending_json_def TARGETS_def
      sample_order MANIFEST_BOUND_def PENDING_BOUND_def fmt_default_def dump_str_plain plain_asc_chars
      plain_char_def show_int_def digits.simps)

lemma sample_host_simps:
  "ih_sha sample_host = sample_digest" "ih_sync sample_host" "commands_work sample_host"
  by (simp_all add: sample_host_def commands_work_def)

lemma sample_begins:
  obtains S1 where
    "tx_begin sample_host ROOT (asc ''install-AAAAAAAA'') sample_tx = (Inr (), S1)"
    "manifest_bytes (asc ''install-AAAAAAAA'') S1 = sample_manifest"
proof -
  let ?b = "tx_begin sample_host ROOT (asc ''install-AAAAAAAA'') sample_tx"
  have name: "tx_name (asc ''install-AAAAAAAA'')"
    by (simp add: tx_name_def asc_def is_alnum_def)
  have m: "atomic_json (manifest_json sample_snapshots) MANIFEST_BOUND
      = Inr \<lparr>mf_regular = True, mf_uid = 0, mf_bytes = sample_manifest\<rparr>"
    using sample_bounds(1) by (simp add: atomic_json_def sample_manifest_bytes)
  have r: "atomic_json (pending_json (asc ''install-AAAAAAAA'') (sample_digest sample_manifest)) PENDING_BOUND
      = Inr \<lparr>mf_regular = True, mf_uid = 0,
              mf_bytes = json_payload (pending_json (asc ''install-AAAAAAAA'') (asc ''m''))\<rparr>"
    using sample_bounds(2) by (simp add: atomic_json_def sample_digest_def)
  have "fst ?b = Inr () \<and> manifest_bytes (asc ''install-AAAAAAAA'') (snd ?b) = sample_manifest"
    using name m r
    by (simp add: tx_begin_def transaction_path_def sample_tx_def private_directory_def sample_mapping
        sample_snapshots_of sample_host_simps manifest_bytes_def put_dir_def)
  then show thesis by (intro that [of "snd ?b"]) (simp_all add: prod_eq_iff)
qed

lemma sample_digest_hex: "hex_sha sample_digest"
  by (simp add: hex_sha_def sample_digest_def asc_def scalar_low)

lemma sample_tx_wf: "tx_wf sample_tx" "list_all plain_target (tx_targets sample_tx)"
  by (simp_all add: tx_wf_def sample_tx_def sample_targets_def TARGETS_def wf_target_def good_name_def
      asc_def plain_target_def scalar_low)

lemma restore_returns_original_witness:
  "\<exists>S1 S2. tx_begin sample_host ROOT (asc ''install-AAAAAAAA'') sample_tx = (Inr (), S1) \<and>
     tx_restore sample_host (S1\<lparr>tx_targets := replicate 5 None\<rparr>) = (Inr (), S2) \<and>
     list_all2 (same_target sample_digest) (tx_targets sample_tx) (tx_targets S2)"
proof -
  obtain S1 where S1: "tx_begin sample_host ROOT (asc ''install-AAAAAAAA'') sample_tx = (Inr (), S1)"
    "manifest_bytes (asc ''install-AAAAAAAA'') S1 = sample_manifest"
    by (rule sample_begins)
  note begun = S1(1) sample_tx_wf(1,2) sample_digest_hex [folded sample_host_simps(1)]
  let ?S = "S1\<lparr>tx_targets := replicate 5 None\<rparr>"
  have "untouched (tx_dirs S1) (tx_pending S1) ?S"
    using begin_untouched [OF begun] by (simp add: untouched_def TARGETS_def)
  then obtain d where d: "dget (tx_dirs sample_tx) (asc ''install-AAAAAAAA'') = Some d"
    "tx_restore sample_host ?S = (Inr (), ?S\<lparr>tx_targets := td_copies d\<rparr>)"
    by (rule restore_works [OF begun sample_host_simps(3) refl])
  have wf: "tx_wf (?S\<lparr>tx_targets := td_copies d\<rparr>)"
    using begin_wf [OF begun] tx_wf_dir [OF sample_tx_wf(1) d(1)] by (simp add: tx_wf_def)
  have "list_all2 (same_target (ih_sha sample_host)) (tx_targets sample_tx)
      (tx_targets (?S\<lparr>tx_targets := td_copies d\<rparr>))"
    by (rule restore_returns_original [OF begun _ _ refl d(2) wf])
      (simp_all add: S1(2) sample_host_simps sample_digest_def split: if_splits)
  then show ?thesis using S1(1) d(2) by (auto simp: sample_host_simps)
qed

lemma interrupted_install_recoverable_witness:
  "\<exists>S1. tx_begin sample_host ROOT (asc ''install-AAAAAAAA'') sample_tx = (Inr (), S1) \<and>
     (let S = run (tx_step sample_digest) S1
                [Left_behind (\<lambda>i. None), Restore_try (sample_host\<lparr>ih_copy := (\<lambda>i t. (False, None))\<rparr>)];
          (restored, S') = tx_restore sample_host S;
          (completed, S'') = tx_complete sample_host True S'
      in restored = Inr () \<and> completed = Inr () \<and> tx_pending S'' = None \<and>
         list_all2 (same_target sample_digest) (tx_targets sample_tx) (tx_targets S'))"
proof -
  obtain S1 where S1: "tx_begin sample_host ROOT (asc ''install-AAAAAAAA'') sample_tx = (Inr (), S1)"
    "manifest_bytes (asc ''install-AAAAAAAA'') S1 = sample_manifest"
    by (rule sample_begins)
  note begun = S1(1) sample_tx_wf(1,2) sample_digest_hex [folded sample_host_simps(1)]
  show ?thesis
    by (intro exI conjI, rule S1(1), rule interrupted_install_recoverable
        [OF begun sample_host_simps(3) refl, unfolded sample_host_simps(1)])
qed

end
