(* ===== verification/TokenResource.thy ===== *)
theory TokenResource
  imports Json
begin

text \<open>
  The token endpoint's resource check (\<open>src/relay_shell/auth/resource.py\<close>): the body of a
  \<open>POST /token\<close> is read up to a bound, its form is asked for the resource, and the request is
  handed on with the body replayed. The URL reader of \<open>pydantic\<close> and the form reader of
  \<open>starlette\<close> are arguments.
\<close>

subsection \<open>Resources\<close>

text \<open>\<open>AnyHttpUrl(value)\<close>: its text, and whether it has a fragment, a user name and a password.\<close>

record url_parts =
  up_text :: pystr
  up_fragment :: bool
  up_username :: bool
  up_password :: bool

type_synonym url_reader = "pystr \<Rightarrow> url_parts option"

definition removesuffix :: "pystr \<Rightarrow> pystr \<Rightarrow> pystr" where
  "removesuffix suf s = (if suf \<noteq> [] \<and> ends_with suf s then take (length s - length suf) s else s)"

text \<open>\<open>None\<close>: \<open>ValueError\<close>\<close>

definition normalize_resource :: "url_reader \<Rightarrow> pystr \<Rightarrow> pystr option" where
  "normalize_resource rd value =
     (case rd value of
        None \<Rightarrow> None
      | Some u \<Rightarrow>
          if up_fragment u \<or> up_username u \<or> up_password u then None
          else Some (removesuffix (asc ''/'') (up_text u)))"

subsection \<open>Messages\<close>

text \<open>What \<open>receive\<close> gives: the client is gone, or a piece of the body and whether more follows.\<close>

datatype message = Disconnect | Piece bytes bool

record scope =
  sc_type :: pystr
  sc_path :: "pystr option"
  sc_method :: "pystr option"

definition MAX_BODY :: nat where
  "MAX_BODY = 65536"

text \<open>The loop over \<open>receive\<close>: the client went away, the body is too large, the whole body with the
  messages not yet received, or still waiting.\<close>

datatype body_read = Gone | Too_large | Whole bytes "message list" | Waiting

fun read_body :: "bytes \<Rightarrow> message list \<Rightarrow> body_read" where
  "read_body got [] = Waiting"
| "read_body got (Disconnect # ms) = Gone"
| "read_body got (Piece b again # ms) =
     (if length got + length b > MAX_BODY then Too_large
      else if again then read_body (got @ b) ms
      else Whole (got @ b) ms)"

subsection \<open>The middleware\<close>

text \<open>A form value is a text or an upload. \<open>None\<close>: the reader raised one of the caught exceptions.\<close>

datatype form_value = Text pystr | Upload

type_synonym form_reader = "bytes \<Rightarrow> (pystr \<times> form_value) list option"

datatype handled =
    Passed "message list"
  | Rejected pystr int
  | Dropped
  | Pending

definition getlist :: "pystr \<Rightarrow> (pystr \<times> form_value) list \<Rightarrow> form_value list" where
  "getlist k entries = map snd (filter (\<lambda>(k', v). k' = k) entries)"

text \<open>\<open>replay\<close>: the body as one message, then what the client sends.\<close>

definition replayed :: "bytes \<Rightarrow> message list \<Rightarrow> message list" where
  "replayed body rest = Piece body False # rest"

definition check_form ::
  "url_reader \<Rightarrow> pystr \<Rightarrow> (pystr \<times> form_value) list \<Rightarrow> bytes \<Rightarrow> message list \<Rightarrow> handled" where
  "check_form rd resource entries body rest =
     (case getlist (asc ''resource'') entries of
        [] \<Rightarrow> Passed (replayed body rest)
      | [Upload] \<Rightarrow> Rejected (asc ''invalid_target'') 400
      | [Text v] \<Rightarrow>
          (case normalize_resource rd v of
             None \<Rightarrow> Rejected (asc ''invalid_request'') 400
           | Some r \<Rightarrow> if r \<noteq> resource then Rejected (asc ''invalid_target'') 400
                       else Passed (replayed body rest))
      | _ \<Rightarrow> Rejected (asc ''invalid_target'') 400)"

definition is_token_request :: "scope \<Rightarrow> bool" where
  "is_token_request sc \<longleftrightarrow>
     sc_type sc = asc ''http'' \<and> sc_path sc = Some (asc ''/token'') \<and>
     sc_method sc = Some (asc ''POST'')"

definition token_middleware ::
  "url_reader \<Rightarrow> form_reader \<Rightarrow> pystr \<Rightarrow> scope \<Rightarrow> message list \<Rightarrow> handled" where
  "token_middleware rd form resource sc ms =
     (if \<not> is_token_request sc then Passed ms
      else (case read_body [] ms of
              Gone \<Rightarrow> Dropped
            | Waiting \<Rightarrow> Pending
            | Too_large \<Rightarrow> Rejected (asc ''invalid_request'') 413
            | Whole body rest \<Rightarrow>
                (case form body of
                   None \<Rightarrow> Rejected (asc ''invalid_request'') 400
                 | Some entries \<Rightarrow> check_form rd resource entries body rest)))"

text \<open>The answer to a refused request.\<close>

definition reject_headers :: "(pystr, pystr) dict" where
  "reject_headers =
     [(asc ''Cache-Control'', asc ''no-store''), (asc ''Pragma'', asc ''no-cache''),
      (asc ''Access-Control-Allow-Origin'', asc ''*'')]"

definition reject_body :: "pystr \<Rightarrow> pystr" where
  "reject_body err = dumps fmt_compact (JObj [(asc ''error'', JStr err)])"

subsection \<open>What reaches the token handler\<close>

text \<open>The bytes of a body that ends within the messages.\<close>

fun sent_body :: "message list \<Rightarrow> (bytes \<times> message list) option" where
  "sent_body [] = None"
| "sent_body (Disconnect # ms) = None"
| "sent_body (Piece b again # ms) =
     (if again then map_option (\<lambda>(c, rest). (b @ c, rest)) (sent_body ms) else Some (b, ms))"

lemma read_body_whole:
  "read_body got ms = Whole body rest \<longleftrightarrow>
     (\<exists>c. sent_body ms = Some (c, rest) \<and> body = got @ c \<and> length body \<le> MAX_BODY)"
proof (induction got ms rule: read_body.induct)
  case (3 got b again ms)
  then show ?case by (auto split: if_splits)
qed simp_all

definition one_resource :: "url_reader \<Rightarrow> pystr \<Rightarrow> (pystr \<times> form_value) list \<Rightarrow> bool" where
  "one_resource rd resource entries \<longleftrightarrow>
     (case getlist (asc ''resource'') entries of
        [] \<Rightarrow> True
      | [Text v] \<Rightarrow> normalize_resource rd v = Some resource
      | _ \<Rightarrow> False)"

lemma check_form_passed:
  "check_form rd resource entries body rest = Passed out \<longleftrightarrow>
     one_resource rd resource entries \<and> out = replayed body rest"
  by (auto simp: check_form_def one_resource_def split: list.split form_value.split option.split)

text \<open>C37: What reaches the token handler. A request for another endpoint is passed on as it came. A
  \<open>POST /token\<close> is passed on exactly when its body is complete and at most 65536 bytes long, its
  form can be read, and the form names no resource or exactly one, a URL that normalizes to the
  server's own; the handler then receives the very bytes that were sent, followed by what the
  client sends next.\<close>

theorem token_requests_bound:
  "token_middleware rd form resource sc ms = Passed out \<longleftrightarrow>
     (if is_token_request sc
      then (case sent_body ms of
              None \<Rightarrow> False
            | Some (body, rest) \<Rightarrow>
                length body \<le> 65536 \<and> out = Piece body False # rest \<and>
                (case form body of
                   None \<Rightarrow> False
                 | Some entries \<Rightarrow>
                     (case getlist (asc ''resource'') entries of
                        [] \<Rightarrow> True
                      | [Text v] \<Rightarrow> normalize_resource rd v = Some resource
                      | _ \<Rightarrow> False)))
      else out = ms)"
proof (cases "is_token_request sc")
  case True
  have whole: "read_body [] ms = Whole body rest \<longleftrightarrow> sent_body ms = Some (body, rest) \<and> length body \<le> 65536"
    for body rest
    using read_body_whole [of "[]" ms body rest] by (auto simp: MAX_BODY_def)
  have "token_middleware rd form resource sc ms = Passed out \<longleftrightarrow>
      (\<exists>body rest entries. read_body [] ms = Whole body rest \<and> form body = Some entries \<and>
         one_resource rd resource entries \<and> out = replayed body rest)"
    using True
    by (cases "read_body [] ms")
      (auto simp: token_middleware_def check_form_passed split: option.splits)
  then show ?thesis
    using True
    by (cases "sent_body ms")
      (auto simp: whole one_resource_def replayed_def split: option.splits)
qed (simp add: token_middleware_def eq_commute)

end
