(* ===== verification/CiGate.thy ===== *)
theory CiGate
  imports Json
begin

text \<open>
  The gate of the delivery: the evaluation of a snapshot of GitHub checks
  (\<open>src/scripts/check_ci_checks.py\<close>), given as decoded JSON.
\<close>

subsection \<open>The check snapshot\<close>

text \<open>Comparison and text of JSON values the code leaves to Python: \<open>==\<close> of a value that is not an
  integer with an integer, \<open>>\<close> of identifiers that are not both integers (\<open>None\<close>: it raises), \<open>str\<close>.\<close>

record py_values =
  pv_equals :: "json \<Rightarrow> int \<Rightarrow> bool"
  pv_greater :: "json \<Rightarrow> json \<Rightarrow> bool option"
  pv_str :: "json \<Rightarrow> pystr"

definition at_key :: "string \<Rightarrow> json \<Rightarrow> json option" where
  "at_key k v = (case v of JObj kvs \<Rightarrow> dget kvs (asc k) | _ \<Rightarrow> None)"

definition equals_int :: "py_values \<Rightarrow> json \<Rightarrow> int \<Rightarrow> bool" where
  "equals_int V v i = (case v of JInt j \<Rightarrow> i = j | _ \<Rightarrow> pv_equals V v i)"

definition greater_id :: "py_values \<Rightarrow> json \<Rightarrow> json \<Rightarrow> bool option" where
  "greater_id V v w =
     (case (v, w) of (JInt i, JInt j) \<Rightarrow> Some (i > j) | _ \<Rightarrow> pv_greater V v w)"

fun hashable :: "json \<Rightarrow> bool" where
  "hashable (JList _) \<longleftrightarrow> False"
| "hashable (JObj _) \<longleftrightarrow> False"
| "hashable _ \<longleftrightarrow> True"

definition GITHUB_ACTIONS :: int where
  "GITHUB_ACTIONS = 15368"

text \<open>One check of a page: \<open>None\<close> when a key is missing or a value has the wrong type (the caller
  catches \<open>KeyError\<close>, \<open>TypeError\<close> and \<open>ValueError\<close> alike).\<close>

definition note_check ::
  "py_values \<Rightarrow> pystr \<Rightarrow> json \<Rightarrow> (json, json) dict \<Rightarrow> (json, json) dict option" where
  "note_check V sha check latest =
     (case at_key ''head_sha'' check of
        None \<Rightarrow> None
      | Some h \<Rightarrow>
          if h \<noteq> JStr sha then Some latest
          else (case at_key ''app'' check of
            None \<Rightarrow> None
          | Some app \<Rightarrow> (case at_key ''id'' app of
            None \<Rightarrow> None
          | Some i \<Rightarrow>
              if \<not> equals_int V i GITHUB_ACTIONS then Some latest
              else (case at_key ''name'' check of
                None \<Rightarrow> None
              | Some n \<Rightarrow>
                  if \<not> hashable n then None
                  else (case dget latest n of
                    None \<Rightarrow> Some (dset n check latest)
                  | Some old \<Rightarrow>
                      (case (at_key ''id'' check, at_key ''id'' old) of
                         (Some a, Some b) \<Rightarrow>
                           (case greater_id V a b of
                              None \<Rightarrow> None
                            | Some True \<Rightarrow> Some (dset n check latest)
                            | Some False \<Rightarrow> Some latest)
                       | _ \<Rightarrow> None))))))"

fun note_checks ::
  "py_values \<Rightarrow> pystr \<Rightarrow> json list \<Rightarrow> (json, json) dict \<Rightarrow> (json, json) dict option" where
  "note_checks V sha [] latest = Some latest"
| "note_checks V sha (c # cs) latest =
     (case note_check V sha c latest of None \<Rightarrow> None | Some l \<Rightarrow> note_checks V sha cs l)"

text \<open>\<open>for check in page["check_runs"]\<close>\<close>

definition iterate :: "json \<Rightarrow> json list option" where
  "iterate v =
     (case v of
        JList cs \<Rightarrow> Some cs
      | JObj kvs \<Rightarrow> Some (map (\<lambda>(k, x). JStr k) kvs)
      | JStr s \<Rightarrow> Some (map (\<lambda>c. JStr [c]) s)
      | _ \<Rightarrow> None)"

definition check_list :: "json \<Rightarrow> json list option" where
  "check_list page = Option.bind (at_key ''check_runs'' page) iterate"

fun note_pages ::
  "py_values \<Rightarrow> pystr \<Rightarrow> json list \<Rightarrow> (json, json) dict \<Rightarrow> (json, json) dict option" where
  "note_pages V sha [] latest = Some latest"
| "note_pages V sha (page # pages) latest =
     (case check_list page of
        None \<Rightarrow> None
      | Some cs \<Rightarrow>
          (case note_checks V sha cs latest of
             None \<Rightarrow> None
           | Some l \<Rightarrow> note_pages V sha pages l))"

datatype standing = Passing | Waiting_for pystr | Refused pystr

definition judge_check ::
  "py_values \<Rightarrow> pystr list \<Rightarrow> (json, json) dict \<Rightarrow> pystr \<Rightarrow> standing option" where
  "judge_check V allowed latest name =
     (case dget latest (JStr name) of
        None \<Rightarrow> Some (Waiting_for (name @ asc '' (missing)''))
      | Some check \<Rightarrow>
          (case at_key ''status'' check of
             None \<Rightarrow> None
           | Some st \<Rightarrow>
               if st \<noteq> JStr (asc ''completed'')
               then Some (Waiting_for (name @ asc '' ('' @ pv_str V st @ asc '')''))
               else (case at_key ''conclusion'' check of
                       None \<Rightarrow> None
                     | Some c \<Rightarrow>
                         if c \<noteq> JStr (asc ''success'') \<and>
                            \<not> (c = JStr (asc ''skipped'') \<and> name \<in> set allowed)
                         then Some (Refused (name @ asc '' ('' @ pv_str V c @ asc '')''))
                         else Some Passing)))"

fun judge_all ::
  "py_values \<Rightarrow> pystr list \<Rightarrow> (json, json) dict \<Rightarrow> pystr list \<Rightarrow> (pystr list \<times> pystr list) option" where
  "judge_all V allowed latest [] = Some ([], [])"
| "judge_all V allowed latest (name # names) =
     (case judge_check V allowed latest name of
        None \<Rightarrow> None
      | Some s \<Rightarrow>
          (case judge_all V allowed latest names of
             None \<Rightarrow> None
           | Some (waiting, failed) \<Rightarrow>
               Some (case s of
                       Passing \<Rightarrow> (waiting, failed)
                     | Waiting_for t \<Rightarrow> (t # waiting, failed)
                     | Refused t \<Rightarrow> (waiting, t # failed))))"

text \<open>\<open>None\<close> is any of the caught exceptions.\<close>

definition evaluate ::
  "py_values \<Rightarrow> json \<Rightarrow> pystr \<Rightarrow> pystr list \<Rightarrow> pystr list \<Rightarrow> (int \<times> pystr list) option" where
  "evaluate V pages sha required allowed =
     (if sha = [] \<or> required = [] \<or> [] \<in> set required then None
      else (case pages of
              JList (p # ps) \<Rightarrow>
                (case note_pages V sha (p # ps) [] of
                   None \<Rightarrow> None
                 | Some latest \<Rightarrow>
                     (case judge_all V allowed latest required of
                        None \<Rightarrow> None
                      | Some (waiting, failed) \<Rightarrow>
                          Some (if failed \<noteq> [] then (1, failed)
                                else if waiting \<noteq> [] then (2, waiting)
                                else (0, [asc ''All protected dependencies passed.'']))))
            | _ \<Rightarrow> None))"

text \<open>\<open>None\<close> for a required variable that is not set or a snapshot that is not JSON.\<close>

definition ci_main ::
  "py_values \<Rightarrow> json option \<Rightarrow> pystr option \<Rightarrow> pystr list option \<Rightarrow> pystr list \<Rightarrow> int \<times> pystr" where
  "ci_main V snapshot sha required allowed =
     (case (case (snapshot, sha, required) of
              (Some pages, Some h, Some names) \<Rightarrow> evaluate V pages h names allowed
            | _ \<Rightarrow> None) of
        None \<Rightarrow> (1, asc ''Invalid or incomplete check snapshot/policy'')
      | Some (code, messages) \<Rightarrow> (code, join (asc ''; '') messages))"

subsection \<open>What a passing gate says\<close>

definition checks_of :: "json \<Rightarrow> json list" where
  "checks_of pages =
     (case pages of
        JList ps \<Rightarrow> concat (map (\<lambda>p. case check_list p of Some cs \<Rightarrow> cs | None \<Rightarrow> []) ps)
      | _ \<Rightarrow> [])"

text \<open>A check of the revision, by GitHub Actions, with the name.\<close>

definition evidence_for :: "py_values \<Rightarrow> pystr \<Rightarrow> pystr \<Rightarrow> json \<Rightarrow> bool" where
  "evidence_for V sha name check \<longleftrightarrow>
     at_key ''head_sha'' check = Some (JStr sha) \<and>
     (case at_key ''app'' check of
        None \<Rightarrow> False
      | Some app \<Rightarrow> (case at_key ''id'' app of None \<Rightarrow> False | Some i \<Rightarrow> equals_int V i GITHUB_ACTIONS)) \<and>
     at_key ''name'' check = Some (JStr name)"

definition concluded :: "pystr list \<Rightarrow> pystr \<Rightarrow> json \<Rightarrow> bool" where
  "concluded allowed name check \<longleftrightarrow>
     at_key ''status'' check = Some (JStr (asc ''completed'')) \<and>
     (at_key ''conclusion'' check = Some (JStr (asc ''success'')) \<or>
      at_key ''conclusion'' check = Some (JStr (asc ''skipped'')) \<and> name \<in> set allowed)"

definition int_id :: "json \<Rightarrow> int option" where
  "int_id check = (case at_key ''id'' check of Some (JInt i) \<Rightarrow> Some i | _ \<Rightarrow> None)"

text \<open>The check kept for a name is evidence, and none seen has a greater identifier.\<close>

definition kept_latest :: "py_values \<Rightarrow> pystr \<Rightarrow> json list \<Rightarrow> (json, json) dict \<Rightarrow> bool" where
  "kept_latest V sha seen latest \<longleftrightarrow>
     (\<forall>name. case dget latest (JStr name) of
        None \<Rightarrow> \<not> (\<exists>c\<in>set seen. evidence_for V sha name c)
      | Some c \<Rightarrow> c \<in> set seen \<and> evidence_for V sha name c \<and>
          (\<forall>c'\<in>set seen. evidence_for V sha name c' \<longrightarrow> the (int_id c') \<le> the (int_id c)))"

lemma note_check_kept:
  assumes "note_check V sha c latest = Some latest'" "kept_latest V sha seen latest"
    and ids: "\<forall>x\<in>set (seen @ [c]). int_id x \<noteq> None"
  shows "kept_latest V sha (seen @ [c]) latest'"
proof -
  have id: "\<exists>i. at_key ''id'' x = Some (JInt i) \<and> int_id x = Some i" if "x \<in> set (seen @ [c])" for x
  proof -
    have "int_id x \<noteq> None" using ids that by blast
    then show ?thesis by (auto simp: int_id_def split: option.splits json.splits)
  qed
  show ?thesis
  proof (cases "\<exists>name. evidence_for V sha name c")
    case False
    then have "\<exists>n. (\<forall>name. n \<noteq> JStr name) \<and> (latest' = latest \<or> latest' = dset n c latest)"
      using assms(1)
      by (auto simp: note_check_def evidence_for_def split: option.splits if_splits bool.splits)
    then show ?thesis
      using assms(2) False unfolding kept_latest_def by (fastforce split: option.splits)
  next
    case True
    then obtain name where name: "evidence_for V sha name c" ..
    then have only: "evidence_for V sha n c \<longleftrightarrow> n = name" for n by (auto simp: evidence_for_def)
    obtain i where i: "at_key ''id'' c = Some (JInt i)" "int_id c = Some i" using id [of c] by auto
    show ?thesis
    proof (cases "dget latest (JStr name)")
      case None
      then have "latest' = dset (JStr name) c latest"
        using assms(1) name by (auto simp: note_check_def evidence_for_def split: option.splits if_splits)
      then show ?thesis
        using assms(2) None only unfolding kept_latest_def by (fastforce split: option.splits)
    next
      case (Some old)
      then have old: "old \<in> set seen" "evidence_for V sha name old"
        using assms(2) unfolding kept_latest_def by (auto dest: spec [of _ name])
      obtain j where j: "at_key ''id'' old = Some (JInt j)" "int_id old = Some j"
        using id [of old] old(1) by auto
      have "latest' = (if i > j then dset (JStr name) c latest else latest)"
        using assms(1) name Some i j
        by (auto simp: note_check_def evidence_for_def greater_id_def split: option.splits if_splits)
      then show ?thesis
        using assms(2) Some only i j old unfolding kept_latest_def
        by (fastforce split: option.splits if_splits)
    qed
  qed
qed

lemma note_checks_kept:
  "note_checks V sha cs latest = Some latest' \<Longrightarrow> kept_latest V sha seen latest \<Longrightarrow>
     \<forall>x\<in>set (seen @ cs). int_id x \<noteq> None \<Longrightarrow> kept_latest V sha (seen @ cs) latest'"
proof (induction cs arbitrary: seen latest)
  case (Cons c cs)
  obtain l where l: "note_check V sha c latest = Some l" "note_checks V sha cs l = Some latest'"
    using Cons.prems(1) by (auto split: option.splits)
  have "kept_latest V sha (seen @ [c]) l"
    using Cons.prems(3) by (intro note_check_kept [OF l(1) Cons.prems(2)]) auto
  from Cons.IH [OF l(2) this] Cons.prems(3) show ?case by simp
qed simp

lemma note_pages_kept:
  "note_pages V sha ps latest = Some latest' \<Longrightarrow> kept_latest V sha seen latest \<Longrightarrow>
     \<forall>x\<in>set (seen @ checks_of (JList ps)). int_id x \<noteq> None \<Longrightarrow>
     kept_latest V sha (seen @ checks_of (JList ps)) latest'"
proof (induction ps arbitrary: seen latest)
  case (Cons p ps)
  obtain cs l where cs: "check_list p = Some cs" and l: "note_checks V sha cs latest = Some l"
    "note_pages V sha ps l = Some latest'"
    using Cons.prems(1) by (auto split: option.splits)
  have "kept_latest V sha (seen @ cs) l"
    using Cons.prems(3) cs by (intro note_checks_kept [OF l(1) Cons.prems(2)]) (auto simp: checks_of_def)
  from Cons.IH [OF l(2) this] Cons.prems(3) cs show ?case by (simp add: checks_of_def)
qed (simp add: checks_of_def)

lemma judge_check_passing:
  "judge_check V allowed latest name = Some Passing \<longleftrightarrow>
     (\<exists>c. dget latest (JStr name) = Some c \<and> concluded allowed name c)"
  by (auto simp: judge_check_def concluded_def split: option.splits if_splits)

lemma judge_all_passing:
  "judge_all V allowed latest names = Some ([], []) \<longleftrightarrow>
     list_all (\<lambda>n. judge_check V allowed latest n = Some Passing) names"
  by (induction names) (auto split: option.splits standing.splits)

text \<open>C38: The CI gate passes only on evidence. With exit status 0, every required name (there is at
  least one) has a check of that very revision, by GitHub Actions, that is completed and
  successful, or skipped where skipping is allowed, and no later check of the same name,
  revision and app.\<close>

theorem ci_gate_passes:
  assumes "fst (ci_main V (Some pages) (Some sha) (Some required) allowed) = 0"
    and "list_all (\<lambda>c. int_id c \<noteq> None) (checks_of pages)"
  shows "required \<noteq> [] \<and> sha \<noteq> [] \<and>
    list_all (\<lambda>name. \<exists>c\<in>set (checks_of pages).
        evidence_for V sha name c \<and> concluded allowed name c \<and>
        list_all (\<lambda>c'. evidence_for V sha name c' \<longrightarrow> the (int_id c') \<le> the (int_id c))
          (checks_of pages)) required"
proof -
  obtain ps latest where e: "sha \<noteq> []" "required \<noteq> []" "pages = JList ps"
    "note_pages V sha ps [] = Some latest" "judge_all V allowed latest required = Some ([], [])"
    using assms(1) by (auto simp: ci_main_def evaluate_def split: option.splits if_splits json.splits
        list.splits)
  have "kept_latest V sha [] []" by (simp add: kept_latest_def)
  from note_pages_kept [OF e(4) this] assms(2) e(3)
  have kept: "kept_latest V sha (checks_of pages) latest" by (simp add: list_all_iff)
  have "\<exists>c\<in>set (checks_of pages). evidence_for V sha name c \<and> concluded allowed name c \<and>
      list_all (\<lambda>c'. evidence_for V sha name c' \<longrightarrow> the (int_id c') \<le> the (int_id c)) (checks_of pages)"
    if name: "name \<in> set required" for name
  proof -
    obtain c where c: "dget latest (JStr name) = Some c" "concluded allowed name c"
      using e(5) name judge_check_passing by (force simp: judge_all_passing list_all_iff)
    then show ?thesis
      using spec [OF kept [unfolded kept_latest_def], of name] by (auto simp: list_all_iff)
  qed
  then show ?thesis using e by (simp add: list_all_iff)
qed

definition sample_check :: "int \<Rightarrow> string \<Rightarrow> json" where
  "sample_check i c =
     JObj [(asc ''id'', JInt i), (asc ''head_sha'', JStr (asc ''abc'')),
           (asc ''app'', JObj [(asc ''id'', JInt 15368)]), (asc ''name'', JStr (asc ''tests'')),
           (asc ''status'', JStr (asc ''completed'')), (asc ''conclusion'', JStr (asc c))]"

definition sample_pages :: json where
  "sample_pages =
     JList [JObj [(asc ''check_runs'', JList [sample_check 7 ''success'', sample_check 3 ''failure''])]]"

definition sample_values :: py_values where
  "sample_values = \<lparr>pv_equals = (\<lambda>v i. False), pv_greater = (\<lambda>v w. None), pv_str = (\<lambda>v. [])\<rparr>"

lemma ci_gate_passes_witness:
  "fst (ci_main sample_values (Some sample_pages) (Some (asc ''abc'')) (Some [asc ''tests'']) []) = 0 \<and>
   list_all (\<lambda>name. \<exists>c\<in>set (checks_of sample_pages).
        evidence_for sample_values (asc ''abc'') name c \<and> concluded [] name c \<and>
        list_all (\<lambda>c'. evidence_for sample_values (asc ''abc'') name c' \<longrightarrow>
            the (int_id c') \<le> the (int_id c)) (checks_of sample_pages)) [asc ''tests'']"
proof -
  note defs = sample_values_def sample_pages_def sample_check_def at_key_def check_list_def iterate_def
    checks_of_def int_id_def
  have "fst (ci_main sample_values (Some sample_pages) (Some (asc ''abc'')) (Some [asc ''tests'']) []) = 0"
    by (simp add: defs ci_main_def evaluate_def note_check_def judge_check_def equals_int_def
        GITHUB_ACTIONS_def greater_id_def)
  moreover have "list_all (\<lambda>c. int_id c \<noteq> None) (checks_of sample_pages)" by (simp add: defs)
  ultimately show ?thesis using ci_gate_passes by blast
qed

end
