(* ===== verification/ReconcileRuntime.thy ===== *)
theory ReconcileRuntime
  imports Prelude
begin

text \<open>
  Reconciliation of the service's virtual environment with its lock
  (\<open>src/scripts/reconcile_runtime.py\<close>). The text of the lock is read here; the project's name and
  version, the installed distributions and what \<open>pip uninstall\<close> leaves are arguments.
\<close>

subsection \<open>Names\<close>

definition is_sep :: "nat \<Rightarrow> bool" where
  "is_sep c \<longleftrightarrow> c = 45 \<or> c = 95 \<or> c = 46"

text \<open>\<open>re.sub(r"[-_.]+", "-", name).lower()\<close>\<close>

fun collapse :: "bool \<Rightarrow> pystr \<Rightarrow> pystr" where
  "collapse in_run [] = []"
| "collapse in_run (c # s) =
     (if is_sep c then (if in_run then collapse True s else 45 # collapse True s)
      else c # collapse False s)"

definition normalize :: "pystr \<Rightarrow> pystr" where
  "normalize name = lower (collapse False name)"

subsection \<open>The lock\<close>

definition is_name_char :: "nat \<Rightarrow> bool" where
  "is_name_char c \<longleftrightarrow>
     65 \<le> c \<and> c \<le> 90 \<or> 97 \<le> c \<and> c \<le> 122 \<or> 48 \<le> c \<and> c \<le> 57 \<or> c = 95 \<or> c = 46 \<or> c = 45"

text \<open>\<open>^([A-Za-z0-9_.-]+)==([^\s]+)\<close> on one line: neither part can hold the other's first character
  or a line feed.\<close>

definition lock_line :: "pystr \<Rightarrow> (pystr \<times> pystr) option" where
  "lock_line l =
     (let n = takeWhile is_name_char l; r = drop (length n) l;
          v = takeWhile (\<lambda>c. \<not> is_space c) (drop 2 r)
      in if n \<noteq> [] \<and> take 2 r = asc ''=='' \<and> v \<noteq> [] then Some (n, v) else None)"

definition lock_pins :: "pystr \<Rightarrow> (pystr \<times> pystr) list" where
  "lock_pins lock = List.map_filter lock_line (split_on 10 lock)"

definition build_dict :: "(pystr \<times> pystr) list \<Rightarrow> (pystr, pystr) dict" where
  "build_dict pins = foldl (\<lambda>d (n, v). dset (normalize n) v d) [] pins"

text \<open>\<open>None\<close>: an empty lock.\<close>

definition expected_inventory :: "pystr \<Rightarrow> pystr \<times> pystr \<Rightarrow> (pystr, pystr) dict option" where
  "expected_inventory lock project =
     (let e = build_dict (lock_pins lock) in
      if e = [] then None else Some (dset (normalize (fst project)) (snd project) e))"

subsection \<open>What is installed\<close>

text \<open>\<open>re.fullmatch(r"[a-z0-9][a-z0-9.-]*", name)\<close>\<close>

definition is_low :: "nat \<Rightarrow> bool" where
  "is_low c \<longleftrightarrow> 97 \<le> c \<and> c \<le> 122 \<or> 48 \<le> c \<and> c \<le> 57"

definition valid_name :: "pystr \<Rightarrow> bool" where
  "valid_name n \<longleftrightarrow>
     n \<noteq> [] \<and> is_low (hd n) \<and> list_all (\<lambda>c. is_low c \<or> c = 46 \<or> c = 45) (tl n)"

fun installed_inventory ::
  "(pystr \<times> pystr) list \<Rightarrow> (pystr, pystr) dict \<Rightarrow> (pystr, pystr) dict option" where
  "installed_inventory [] d = Some d"
| "installed_inventory ((raw, version) # rest) d =
     (let n = normalize raw in
      if \<not> valid_name n \<or> dget d n \<noteq> None then None
      else installed_inventory rest (dset n version d))"

definition PIP :: pystr where
  "PIP = asc ''pip''"

definition same_dict :: "(pystr, pystr) dict \<Rightarrow> (pystr, pystr) dict \<Rightarrow> bool" where
  "same_dict a b \<longleftrightarrow>
     list_all (\<lambda>k. dget a k = dget b k) (dkeys a @ dkeys b)"

definition validate_inventory :: "(pystr, pystr) dict \<Rightarrow> (pystr, pystr) dict \<Rightarrow> bool" where
  "validate_inventory expected installed \<longleftrightarrow> same_dict (filter (\<lambda>(n, v). n \<noteq> PIP) installed) expected"

definition extras_of :: "(pystr, pystr) dict \<Rightarrow> (pystr, pystr) dict \<Rightarrow> pystr list" where
  "extras_of expected installed =
     filter (\<lambda>n. dget expected n = None \<and> n \<noteq> PIP) (dkeys installed)"

subsection \<open>Reconciling\<close>

text \<open>The environment: whether it is a virtual environment of its own, the installed distributions,
  and what a run of \<open>pip uninstall\<close> of some names leaves and whether it succeeded.\<close>

record runtime =
  rt_dedicated :: bool
  rt_installed :: "(pystr \<times> pystr) list"
  rt_uninstall :: "pystr list \<Rightarrow> bool \<times> (pystr \<times> pystr) list"

text \<open>The run without \<open>--prune\<close>; \<open>False\<close>: it raised.\<close>

definition validate_run :: "pystr \<Rightarrow> pystr \<times> pystr \<Rightarrow> runtime \<Rightarrow> bool" where
  "validate_run lock project R \<longleftrightarrow>
     rt_dedicated R \<and>
     (case expected_inventory lock project of
        None \<Rightarrow> False
      | Some e \<Rightarrow>
          (case installed_inventory (rt_installed R) [] of
             None \<Rightarrow> False
           | Some i \<Rightarrow> validate_inventory e i))"

text \<open>The extras are uninstalled, in order of their names, and the script is run again.\<close>

definition reconcile :: "pystr \<Rightarrow> pystr \<times> pystr \<Rightarrow> bool \<Rightarrow> runtime \<Rightarrow> bool \<times> runtime" where
  "reconcile lock project prune R =
     (if \<not> rt_dedicated R then (False, R)
      else (case expected_inventory lock project of
              None \<Rightarrow> (False, R)
            | Some e \<Rightarrow>
                (case installed_inventory (rt_installed R) [] of
                   None \<Rightarrow> (False, R)
                 | Some i \<Rightarrow>
                     let extras = sort (extras_of e i) in
                     if extras \<noteq> [] \<and> prune
                     then (case rt_uninstall R extras of
                             (ok, left) \<Rightarrow>
                               let R' = R\<lparr>rt_installed := left\<rparr> in
                               (ok \<and> validate_run lock project R', R'))
                     else (validate_inventory e i, R))))"

subsection \<open>What success means\<close>

lemma dget_filter_pip:
  "dget (filter (\<lambda>(n, v). n \<noteq> PIP) d) n = (if n = PIP then None else dget d n)"
  by (induction d) auto

lemma same_dict_iff: "same_dict a b \<longleftrightarrow> (\<forall>k. dget a k = dget b k)"
proof
  assume same: "same_dict a b"
  show "\<forall>k. dget a k = dget b k"
  proof
    fix k
    show "dget a k = dget b k"
    proof (cases "k \<in> set (dkeys a @ dkeys b)")
      case True
      then show ?thesis using same by (simp add: same_dict_def list_all_iff)
    next
      case False
      then have "dget a k = None" "dget b k = None" by (simp_all add: dkeys_def map_of_eq_None_iff)
      then show ?thesis by simp
    qed
  qed
qed (simp add: same_dict_def list_all_iff)

text \<open>C39: A reconciliation that succeeds leaves exactly the lock: the distributions the environment
  then holds are valid and distinct, and for every name but \<open>pip\<close> the installed version is the one
  the lock and the project pin - nothing missing, nothing extra, no other version - whatever
  \<open>pip uninstall\<close> did.\<close>

theorem reconciled_runtime_is_the_lock:
  assumes "reconcile lock project prune R = (True, R')"
  shows "\<exists>e i. expected_inventory lock project = Some e \<and>
     installed_inventory (rt_installed R') [] = Some i \<and> dget e PIP = None \<and>
     (\<forall>n. n \<noteq> PIP \<longrightarrow> dget i n = dget e n)"
proof -
  have "validate_run lock project R'"
    using assms
    by (auto simp: reconcile_def validate_run_def Let_def split: option.splits if_splits prod.splits)
  then show ?thesis
    by (auto simp: validate_run_def validate_inventory_def same_dict_iff dget_filter_pip
        split: option.splits) (metis option.distinct(1))+
qed

definition sample_runtime :: runtime where
  "sample_runtime =
     \<lparr>rt_dedicated = True,
      rt_installed = [(asc ''Left_Pad'', asc ''1''), (asc ''mcp'', asc ''2''), (asc ''pip'', asc ''9''),
                      (asc ''relay-shell'', asc ''3'')],
      rt_uninstall = (\<lambda>names. (names = [asc ''left-pad''],
         [(asc ''mcp'', asc ''2''), (asc ''pip'', asc ''9''), (asc ''relay-shell'', asc ''3'')]))\<rparr>"

lemma reconciled_runtime_is_the_lock_witness:
  "\<exists>R' e i. reconcile (asc ''mcp==2'') (asc ''relay_shell'', asc ''3'') True sample_runtime = (True, R') \<and>
     expected_inventory (asc ''mcp==2'') (asc ''relay_shell'', asc ''3'') = Some e \<and>
     installed_inventory (rt_installed R') [] = Some i \<and> dget e PIP = None \<and>
     (\<forall>n. n \<noteq> PIP \<longrightarrow> dget i n = dget e n)"
proof -
  have "fst (reconcile (asc ''mcp==2'') (asc ''relay_shell'', asc ''3'') True sample_runtime)"
    by code_simp
  then obtain R' where
    "reconcile (asc ''mcp==2'') (asc ''relay_shell'', asc ''3'') True sample_runtime = (True, R')"
    by (cases "reconcile (asc ''mcp==2'') (asc ''relay_shell'', asc ''3'') True sample_runtime") auto
  with reconciled_runtime_is_the_lock [OF this] show ?thesis by blast
qed

end
