(* ===== verification/HealthMetrics.thy ===== *)
theory HealthMetrics
  imports Json Complex_Main
begin

text \<open>
  The health collector (\<open>src/deploy/monitoring/relay-health-metrics.py\<close>): its probes, the gauges
  they set, and the page it renders. What \<open>systemctl\<close>, the HTTP and TLS peers, the clock and the
  file system answer is an argument, as are the decoding of an HTTP body, \<open>fromisoformat\<close>, \<open>float\<close>
  and the format of a number.
\<close>

subsection \<open>Answers\<close>

text \<open>An answer, an exception the probe catches, or one it does not.\<close>

datatype 'a probe = Gave 'a | Caught pystr | Lethal pystr

type_synonym http_answer = "int \<times> (pystr \<Rightarrow> pystr option) \<times> bytes"

record health_lib =
  hl_service :: "pystr \<Rightarrow> bool probe"
  hl_request :: "pystr \<Rightarrow> http_answer probe"
  hl_decode :: "bytes \<Rightarrow> json probe"
  hl_tls :: "real probe"
  hl_anchor :: "json probe"
  hl_timestamp :: "json \<Rightarrow> real probe"
  hl_float :: "json \<Rightarrow> real probe"
  hl_key_error :: "pystr \<Rightarrow> pystr"
  hl_now :: real
  hl_fixed :: "real \<Rightarrow> pystr"

definition flag :: "bool \<Rightarrow> real" where
  "flag b = (if b then 1 else 0)"

definition domain_ok :: "pystr \<Rightarrow> bool" where
  "domain_ok d \<longleftrightarrow>
     d \<noteq> [] \<and>
     list_all (\<lambda>c. 97 \<le> c \<and> c \<le> 122 \<or> 65 \<le> c \<and> c \<le> 90 \<or> 48 \<le> c \<and> c \<le> 57 \<or> c = 46 \<or> c = 45) d"

definition url :: "string \<Rightarrow> pystr \<Rightarrow> string \<Rightarrow> pystr" where
  "url scheme domain path = asc scheme @ asc ''://'' @ domain @ asc path"

definition header :: "(pystr \<Rightarrow> pystr option) \<Rightarrow> string \<Rightarrow> pystr" where
  "header hs k = (case hs (asc k) of None \<Rightarrow> [] | Some v \<Rightarrow> v)"

subsection \<open>The probes\<close>

text \<open>A probe gives the values of its gauges and the errors it noted, or ends the collection
  (\<open>None\<close>).\<close>

definition noted :: "string \<Rightarrow> pystr \<Rightarrow> pystr" where
  "noted what e = asc what @ asc '': '' @ e"

definition guarded :: "string \<Rightarrow> 'b \<Rightarrow> 'a probe \<Rightarrow> ('a \<Rightarrow> 'b) \<Rightarrow> ('b \<times> pystr list) option" where
  "guarded what d p f =
     (case p of
        Gave a \<Rightarrow> Some (f a, [])
      | Caught e \<Rightarrow> Some (d, [noted what e])
      | Lethal e \<Rightarrow> None)"

definition redirect_probe :: "health_lib \<Rightarrow> pystr \<Rightarrow> (bool \<times> pystr list) option" where
  "redirect_probe L domain =
     guarded ''HTTP redirect'' False (hl_request L (url ''http'' domain ''/''))
       (\<lambda>(code, hs, _). (code = 301 \<or> code = 308) \<and>
          header hs ''Location'' = url ''https'' domain ''/'')"

definition hsts_present :: "(pystr \<Rightarrow> pystr option) \<Rightarrow> bool" where
  "hsts_present hs \<longleftrightarrow>
     (let v = lower (header hs ''Strict-Transport-Security'') in
      has_sub (asc ''max-age='') v \<and> has_sub (asc ''includesubdomains'') v)"

definition security_headers :: "(pystr \<Rightarrow> pystr option) \<Rightarrow> bool" where
  "security_headers hs \<longleftrightarrow>
     (let csp = lower (header hs ''Content-Security-Policy'');
          quoted = (\<lambda>a b. asc a @ [39] @ asc b @ [39])
      in has_sub (quoted ''default-src '' ''self'') csp \<and>
         has_sub (quoted ''frame-ancestors '' ''none'') csp \<and>
         has_sub (quoted ''base-uri '' ''none'') csp \<and>
         lower (header hs ''X-Content-Type-Options'') = asc ''nosniff'' \<and>
         upper (header hs ''X-Frame-Options'') = asc ''DENY'' \<and>
         lower (header hs ''Referrer-Policy'') = asc ''no-referrer'')"

text \<open>\<open>document.get\<close> is only reached for status 200; a document that is not an object has no
  \<open>get\<close>.\<close>

definition canonical_metadata :: "pystr \<Rightarrow> int \<Rightarrow> json \<Rightarrow> bool option" where
  "canonical_metadata domain code doc =
     (if code \<noteq> 200 then Some False
      else (case doc of
              JObj d \<Rightarrow>
                Some (dget d (asc ''issuer'') = Some (JStr (url ''https'' domain ''/'')) \<and>
                      dget d (asc ''authorization_endpoint'')
                        = Some (JStr (url ''https'' domain ''/authorize'')) \<and>
                      dget d (asc ''token_endpoint'') = Some (JStr (url ''https'' domain ''/token'')))
            | _ \<Rightarrow> None))"

definition metadata_probe ::
  "health_lib \<Rightarrow> pystr \<Rightarrow> ((bool \<times> bool \<times> bool) \<times> pystr list) option" where
  "metadata_probe L domain =
     (let failed = (\<lambda>e. Some ((False, False, False), [noted ''OAuth metadata'' e])) in
      case hl_request L (url ''https'' domain ''/.well-known/oauth-authorization-server'') of
        Lethal e \<Rightarrow> None
      | Caught e \<Rightarrow> failed e
      | Gave (code, hs, body) \<Rightarrow>
          (case hl_decode L body of
             Lethal e \<Rightarrow> None
           | Caught e \<Rightarrow> failed e
           | Gave doc \<Rightarrow>
               (case canonical_metadata domain code doc of
                  None \<Rightarrow> None
                | Some ok \<Rightarrow> Some ((ok, hsts_present hs, security_headers hs), []))))"

definition authorize_probe :: "health_lib \<Rightarrow> pystr \<Rightarrow> (bool \<times> pystr list) option" where
  "authorize_probe L domain =
     guarded ''OAuth authorization validation probe'' False
       (hl_request L (url ''https'' domain ''/authorize'')) (\<lambda>(code, _). code = 400)"

definition mcp_probe :: "health_lib \<Rightarrow> pystr \<Rightarrow> ((bool \<times> int) \<times> pystr list) option" where
  "mcp_probe L domain =
     guarded ''MCP unauthorized probe'' (False, 0) (hl_request L (url ''https'' domain ''/mcp''))
       (\<lambda>(code, _). (code = 401 \<or> code = 403, code))"

definition tls_probe :: "health_lib \<Rightarrow> ((bool \<times> real) \<times> pystr list) option" where
  "tls_probe L = guarded ''TLS certificate'' (False, 0) (hl_tls L) (\<lambda>t. (True, t))"

definition UNITS :: "pystr list" where
  "UNITS = [asc ''relay-shell.service'', asc ''caddy.service'', asc ''relay-audit-evidence.timer'']"

fun service_probes :: "health_lib \<Rightarrow> pystr list \<Rightarrow> ((pystr \<times> bool) list \<times> pystr list) option" where
  "service_probes L [] = Some ([], [])"
| "service_probes L (u # us) =
     (case hl_service L u of
        Lethal e \<Rightarrow> None
      | r \<Rightarrow>
          (case service_probes L us of
             None \<Rightarrow> None
           | Some (vs, es) \<Rightarrow>
               (case r of
                  Caught e \<Rightarrow> Some ((u, False) # vs, (asc ''service '' @ u @ asc '': '' @ e) # es)
                | Gave up \<Rightarrow> Some ((u, up) # vs, es))))"

text \<open>The anchor: the fields are read in turn, and those read before an exception keep their values.\<close>

definition ANCHOR_FIELDS :: "(pystr \<times> bool \<times> real) list" where
  "ANCHOR_FIELDS =
     [(asc ''generated_at'', True, 0), (asc ''latest_record_ts'', True, 0),
      (asc ''records'', False, 0), (asc ''latest_seq'', False, -1)]"

definition read_field :: "health_lib \<Rightarrow> (pystr \<times> json) list \<Rightarrow> pystr \<Rightarrow> bool \<Rightarrow> real probe" where
  "read_field L d k is_time =
     (case dget d k of
        None \<Rightarrow> Caught (hl_key_error L k)
      | Some v \<Rightarrow> if is_time then hl_timestamp L v else hl_float L v)"

fun read_fields ::
  "health_lib \<Rightarrow> (pystr \<times> json) list \<Rightarrow> (pystr \<times> bool \<times> real) list \<Rightarrow>
     (real list \<times> pystr list) option" where
  "read_fields L d [] = Some ([], [])"
| "read_fields L d ((k, is_time, dv) # fs) =
     (case read_field L d k is_time of
        Lethal e \<Rightarrow> None
      | Caught e \<Rightarrow> Some (dv # map (\<lambda>(_, _, x). x) fs, [noted ''audit anchor'' e])
      | Gave r \<Rightarrow> map_option (\<lambda>(rs, es). (r # rs, es)) (read_fields L d fs))"

definition anchor_probe :: "health_lib \<Rightarrow> ((bool \<times> real list) \<times> pystr list) option" where
  "anchor_probe L =
     (let defaults = map (\<lambda>(_, _, x). x) ANCHOR_FIELDS in
      case hl_anchor L of
        Lethal e \<Rightarrow> None
      | Caught e \<Rightarrow> Some ((False, defaults), [noted ''audit anchor'' e])
      | Gave (JObj d) \<Rightarrow>
          if dget d (asc ''evidence_type'') \<noteq> Some (JStr (asc ''relay_shell_audit_anchor''))
          then Some ((False, defaults), [noted ''audit anchor'' (asc ''unexpected evidence_type'')])
          else map_option
                 (\<lambda>(rs, es). ((dget d (asc ''valid'') = Some (JBool True), rs), es))
                 (read_fields L d ANCHOR_FIELDS)
      | Gave _ \<Rightarrow> None)"

subsection \<open>The page\<close>

record gauge =
  ga_name :: pystr
  ga_help :: pystr
  ga_value :: real
  ga_labels :: pystr

definition gauge_of :: "string \<Rightarrow> string \<Rightarrow> real \<Rightarrow> gauge" where
  "gauge_of n h v = \<lparr>ga_name = asc n, ga_help = asc h, ga_value = v, ga_labels = []\<rparr>"

definition service_gauge :: "pystr \<times> bool \<Rightarrow> gauge" where
  "service_gauge uv =
     (gauge_of ''relay_service_up'' ''Whether a required Relay systemd unit is active.'' (flag (snd uv)))
       \<lparr>ga_labels := asc ''{service='' @ [34] @ fst uv @ [34] @ asc ''}''\<rparr>"

definition edge_gauges ::
  "bool \<Rightarrow> bool \<times> bool \<times> bool \<Rightarrow> bool \<Rightarrow> bool \<times> int \<Rightarrow> bool \<times> real \<Rightarrow> gauge list" where
  "edge_gauges redirect meta authz mcp tls =
     [gauge_of ''relay_http_redirect_ok''
        ''Whether plain HTTP redirects to the canonical Relay HTTPS URL.'' (flag redirect),
      gauge_of ''relay_oauth_metadata_ok''
        ''Whether Relay OAuth metadata is reachable and canonical.'' (flag (fst meta)),
      gauge_of ''relay_authorize_validation_ok''
        ''Whether an incomplete OAuth authorization request is rejected with HTTP 400.'' (flag authz),
      gauge_of ''relay_mcp_unauthenticated_rejected''
        (''Whether an unauthenticated MCP request is rejected (HTTP 401 by the app or 403 by the '' @
         ''edge CIDR gate).'') (flag (fst mcp)),
      gauge_of ''relay_mcp_probe_http_status''
        ''HTTP status of the unauthenticated MCP probe (401 app, 403 edge gate, 0 on error).''
        (of_int (snd mcp)),
      gauge_of ''relay_hsts_ok''
        ''Whether the Relay HTTPS response advertises HSTS with includeSubDomains.''
        (flag (fst (snd meta))),
      gauge_of ''relay_security_headers_ok''
        ''Whether CSP, framing, MIME sniffing, and referrer protections are present.''
        (flag (snd (snd meta))),
      gauge_of ''relay_tls_handshake_ok''
        ''Whether a verified TLS connection to the Relay edge succeeds.'' (flag (fst tls)),
      gauge_of ''relay_tls_certificate_not_after_seconds''
        ''Unix timestamp at which the active Relay TLS certificate expires.'' (snd tls)]"

definition audit_gauges :: "bool \<Rightarrow> real list \<Rightarrow> gauge list" where
  "audit_gauges ok rs =
     [gauge_of ''relay_audit_chain_valid''
        ''Whether the latest full retained Relay audit-chain verification succeeded.'' (flag ok),
      gauge_of ''relay_audit_evidence_generated_timestamp_seconds''
        ''Unix timestamp when Relay audit evidence was last generated.'' (rs ! 0),
      gauge_of ''relay_audit_latest_record_timestamp_seconds''
        ''Unix timestamp of the newest record covered by Relay audit evidence.'' (rs ! 1),
      gauge_of ''relay_audit_records''
        ''Number of chained Relay audit records covered by the latest evidence.'' (rs ! 2),
      gauge_of ''relay_audit_latest_sequence''
        ''Latest Relay audit sequence number covered by the evidence.'' (rs ! 3)]"

definition monitor_gauges :: "pystr list \<Rightarrow> real \<Rightarrow> gauge list" where
  "monitor_gauges es now =
     [gauge_of ''relay_monitor_collection_errors''
        ''Number of exceptions encountered during the latest Relay health collection.''
        (of_nat (length es)),
      gauge_of ''relay_monitor_collection_success''
        ''Whether the latest Relay health collection completed without exceptions.''
        (flag (es = [])),
      gauge_of ''relay_monitor_generated_timestamp_seconds''
        ''Unix timestamp when Relay host health metrics were generated.'' now]"

definition help_line :: "gauge \<Rightarrow> pystr" where
  "help_line g = asc ''# HELP '' @ ga_name g @ asc '' '' @ ga_help g"

definition type_line :: "pystr \<Rightarrow> pystr" where
  "type_line n = asc ''# TYPE '' @ n @ asc '' gauge''"

definition sample_line :: "health_lib \<Rightarrow> gauge \<Rightarrow> pystr" where
  "sample_line L g = ga_name g @ ga_labels g @ asc '' '' @ hl_fixed L (ga_value g)"

fun page_lines :: "health_lib \<Rightarrow> pystr set \<Rightarrow> gauge list \<Rightarrow> pystr list" where
  "page_lines L seen [] = []"
| "page_lines L seen (g # gs) =
     (if ga_name g \<in> seen then [] else [help_line g, type_line (ga_name g)]) @
     sample_line L g # page_lines L (insert (ga_name g) seen) gs"

definition render :: "health_lib \<Rightarrow> gauge list \<Rightarrow> pystr" where
  "render L gs = join [10] (page_lines L {} gs) @ [10]"

text \<open>The collector refuses its configuration, dies of an exception and writes nothing, or replaces
  the page and prints the errors.\<close>

datatype collected = Bad_domain | Died | Page "gauge list" "pystr list"

definition collect_health :: "health_lib \<Rightarrow> pystr \<Rightarrow> collected" where
  "collect_health L env =
     (let domain = strip env in
      if \<not> domain_ok domain then Bad_domain
      else (case service_probes L UNITS of None \<Rightarrow> Died | Some (services, e1) \<Rightarrow>
           (case redirect_probe L domain of None \<Rightarrow> Died | Some (redirect, e2) \<Rightarrow>
           (case metadata_probe L domain of None \<Rightarrow> Died | Some (meta, e3) \<Rightarrow>
           (case authorize_probe L domain of None \<Rightarrow> Died | Some (authz, e4) \<Rightarrow>
           (case mcp_probe L domain of None \<Rightarrow> Died | Some (mcp, e5) \<Rightarrow>
           (case tls_probe L of None \<Rightarrow> Died | Some (tls, e6) \<Rightarrow>
           (case anchor_probe L of None \<Rightarrow> Died | Some ((ok, rs), e7) \<Rightarrow>
              let es = e1 @ e2 @ e3 @ e4 @ e5 @ e6 @ e7 in
              Page (map service_gauge services @ edge_gauges redirect meta authz mcp tls @
                    audit_gauges ok rs @ monitor_gauges es (hl_now L)) es))))))))"

definition health_main :: "health_lib \<Rightarrow> pystr \<Rightarrow> pystr option \<Rightarrow> int option \<times> pystr option" where
  "health_main L env old_page =
     (case collect_health L env of
        Bad_domain \<Rightarrow> (Some 2, old_page)
      | Died \<Rightarrow> (None, old_page)
      | Page gs es \<Rightarrow> (Some 0, Some (render L gs)))"

subsection \<open>What a page says\<close>

definition gauge_value :: "string \<Rightarrow> gauge list \<Rightarrow> real option" where
  "gauge_value n gs = map_option ga_value (find (\<lambda>g. ga_name g = asc n) gs)"

lemma page_parts:
  assumes "collect_health L env = Page gs es"
  obtains services e1 redirect e2 meta e3 authz e4 mcp e5 tls e6 ok rs e7 where
    "service_probes L UNITS = Some (services, e1)" "redirect_probe L (strip env) = Some (redirect, e2)"
    "metadata_probe L (strip env) = Some (meta, e3)" "authorize_probe L (strip env) = Some (authz, e4)"
    "mcp_probe L (strip env) = Some (mcp, e5)" "tls_probe L = Some (tls, e6)"
    "anchor_probe L = Some ((ok, rs), e7)" "es = e1 @ e2 @ e3 @ e4 @ e5 @ e6 @ e7"
    "gs = map service_gauge services @ edge_gauges redirect meta authz mcp tls @
            audit_gauges ok rs @ monitor_gauges es (hl_now L)"
  using assms by (auto simp: collect_health_def Let_def split: if_splits option.splits prod.splits)

lemma find_service:
  "n \<noteq> ''relay_service_up'' \<Longrightarrow> find (\<lambda>g. ga_name g = asc n) (map service_gauge vs @ gs) =
     find (\<lambda>g. ga_name g = asc n) gs"
  by (induction vs) (auto simp: service_gauge_def gauge_of_def)

lemma flag_one: "flag b = 1 \<longleftrightarrow> b" by (simp add: flag_def)

definition anchor_says_valid :: "health_lib \<Rightarrow> bool" where
  "anchor_says_valid L \<longleftrightarrow>
     (case hl_anchor L of
        Gave (JObj d) \<Rightarrow>
          dget d (asc ''evidence_type'') = Some (JStr (asc ''relay_shell_audit_anchor'')) \<and>
          dget d (asc ''valid'') = Some (JBool True)
      | _ \<Rightarrow> False)"

lemma anchor_probe_valid: "anchor_probe L = Some ((ok, rs), e) \<Longrightarrow> ok \<longleftrightarrow> anchor_says_valid L"
  by (auto simp: anchor_probe_def anchor_says_valid_def Let_def split: probe.splits json.splits if_splits)

text \<open>The gauges an alert is written on: success is reported exactly when no probe noted an error, and
  a valid chain exactly when the anchor on disk is an anchor that says so.\<close>

theorem page_reports:
  assumes "collect_health L env = Page gs es"
  shows "gauge_value ''relay_monitor_collection_success'' gs = Some 1 \<longleftrightarrow> es = []"
    and "gauge_value ''relay_audit_chain_valid'' gs = Some 1 \<longleftrightarrow> anchor_says_valid L"
proof -
  obtain services redirect meta authz mcp tls ok rs e7 where
    p: "anchor_probe L = Some ((ok, rs), e7)"
    "gs = map service_gauge services @ edge_gauges redirect meta authz mcp tls @
            audit_gauges ok rs @ monitor_gauges es (hl_now L)"
    by (rule page_parts [OF assms])
  have "gauge_value ''relay_monitor_collection_success'' gs = Some (flag (es = []))"
    "gauge_value ''relay_audit_chain_valid'' gs = Some (flag ok)"
    unfolding p(2) gauge_value_def
    by (simp_all add: find_service edge_gauges_def audit_gauges_def monitor_gauges_def gauge_of_def)
  then show "gauge_value ''relay_monitor_collection_success'' gs = Some 1 \<longleftrightarrow> es = []"
    "gauge_value ''relay_audit_chain_valid'' gs = Some 1 \<longleftrightarrow> anchor_says_valid L"
    using anchor_probe_valid [OF p(1)] by (simp_all add: flag_one)
qed

text \<open>A metadata endpoint, or an anchor file, whose JSON is not an object ends the collection by an
  exception nothing catches: the page of the last run stays, with its success gauge.\<close>

lemma foreign_json_keeps_old_page:
  assumes "\<And>u. hl_request L u = Gave (200, hs, b)" "hl_decode L b = Gave (JList vs)"
  shows "snd (health_main L env old_page) = old_page"
proof -
  have "metadata_probe L d = None" for d
    by (simp add: metadata_probe_def assms canonical_metadata_def)
  then have "collect_health L env \<in> {Bad_domain, Died}"
    by (auto simp: collect_health_def Let_def split: option.splits)
  then show ?thesis by (auto simp: health_main_def)
qed

end
