(* ===== verification/SshTools.thy ===== *)
theory SshTools
  imports LocalTools
begin

text \<open>
  The SSH tools of \<open>build_server\<close> in \<open>src/relay_shell/server.py\<close>: the calls they submit to
  \<open>Relay.run\<close> and their work on the pool, with the helpers of \<open>Relay\<close> they share. The probes of
  \<open>ssh_check\<close> and \<open>ssh_fanout\<close> run one after another here, one of the schedules of
  \<open>asyncio.gather\<close> under its semaphore. \<open>ot_repr\<close> is Python's \<open>repr\<close>.
\<close>

subsection \<open>Helpers of \<open>Relay\<close>\<close>

record ssh_target =
  st_host :: pystr
  st_user :: pystr
  st_port :: int
  st_key_path :: pystr
  st_known_hosts :: pystr
  st_jump :: pystr

definition connect_kwargs_of ::
  "pystr \<Rightarrow> int \<Rightarrow> pystr \<Rightarrow> pystr \<Rightarrow> pystr \<Rightarrow> int \<Rightarrow> connect_kwargs" where
  "connect_kwargs_of user port key_path known_hosts jump tmo =
     \<lparr>ck_user = user, ck_port = port, ck_key_path = key_path, ck_known_hosts = known_hosts,
      ck_jump = jump, ck_connect_timeout = (if tmo > 0 then tmo else 0)\<rparr>"

definition target_kwargs :: "ssh_target \<Rightarrow> connect_kwargs" where
  "target_kwargs t =
     connect_kwargs_of (st_user t) (st_port t) (st_key_path t) (st_known_hosts t) (st_jump t) 0"

definition effective_known_hosts ::
  "(json \<Rightarrow> pystr) \<Rightarrow> settings \<Rightarrow> inventory_state \<Rightarrow> pystr \<Rightarrow> pystr \<Rightarrow> pystr" where
  "effective_known_hosts repr s iv host known_hosts =
     lower (py_str repr
       (py_or (JStr known_hosts)
          (py_or (hs_known_hosts (resolve iv host)) (JStr (ssh_known_hosts s)))))"

definition ssh_target_audit ::
  "(json \<Rightarrow> pystr) \<Rightarrow> settings \<Rightarrow> inventory_state \<Rightarrow> ssh_target \<Rightarrow> (pystr, json) dict" where
  "ssh_target_audit repr s iv t =
     [(asc ''user'', JStr (st_user t)), (asc ''port'', JInt (st_port t)),
      (asc ''key_path'', JStr (st_key_path t)), (asc ''jump'', JStr (st_jump t)),
      (asc ''known_hosts'',
        JStr (effective_known_hosts repr s iv (st_host t) (st_known_hosts t)))]"

definition target_names :: "inventory_state \<Rightarrow> pystr \<Rightarrow> pystr list" where
  "target_names iv hosts =
     (if strip hosts \<noteq> [] then host_tokens hosts else map hs_name (inventory_hosts iv))"

definition host_key_notices ::
  "(json \<Rightarrow> pystr) \<Rightarrow> settings \<Rightarrow> inventory_state \<Rightarrow> pystr list \<Rightarrow> pystr list" where
  "host_key_notices repr s iv names =
     (if \<not> unsafe_notices s then []
      else unverified_host_notice
        (filter (\<lambda>n. effective_known_hosts repr s iv n [] = asc ''ignore'') (take 200 names)))"

definition tool_inventory :: "world relay \<Rightarrow> inventory_state" where
  "tool_inventory s = wo_inventory (rl_world s)"

subsection \<open>Commands and terminals\<close>

definition ssh_exec_call ::
  "outside \<Rightarrow> caller \<Rightarrow> settings \<Rightarrow> inventory_state \<Rightarrow> ssh_target \<Rightarrow> pystr \<Rightarrow> int \<Rightarrow>
   py_error + call" where
  "ssh_exec_call X cl s iv t command timeout =
     map_sum (\<lambda>e. e) (\<lambda>p. plain_call cl ''ssh_exec''
         ([(asc ''host'', JStr (st_host t)), (asc ''command'', JStr command),
           (asc ''timeout'', JInt (exec_timeout s timeout))] @
          ssh_target_audit (ot_repr X) s iv t) p 65536)
       (policy_text_ssh_exec (ot_ip6 X) (st_host t) command (st_jump t))"

definition ssh_exec ::
  "outside \<Rightarrow> env \<Rightarrow> caller \<Rightarrow> ssh_target \<Rightarrow> pystr \<Rightarrow> int \<Rightarrow> world relay \<Rightarrow>
   tool_reply \<times> world relay" where
  "ssh_exec X E cl t command timeout s =
     (let st = rl_settings s in
      submit E (ssh_exec_call X cl st (tool_inventory s) t command timeout)
        (ssh_run X st (st_host t) command (exec_timeout st timeout) (target_kwargs t)
           (Some (max_output_hard st))) s)"

definition ssh_spawn_call ::
  "outside \<Rightarrow> caller \<Rightarrow> settings \<Rightarrow> inventory_state \<Rightarrow> ssh_target \<Rightarrow> pystr \<Rightarrow> int \<Rightarrow> int \<Rightarrow>
   py_error + call" where
  "ssh_spawn_call X cl s iv t command cols rows =
     map_sum (\<lambda>e. e) (\<lambda>p. plain_call cl ''ssh_spawn''
         ([(asc ''host'', JStr (st_host t)),
           (asc ''command'', JStr (if command = [] then asc ''shell'' else command)),
           (asc ''size'', JStr (size_text cols rows))] @
          ssh_target_audit (ot_repr X) s iv t) p 4096)
       (policy_text_ssh_spawn (ot_ip6 X) (st_host t) command (st_jump t))"

definition ssh_spawn_work ::
  "outside \<Rightarrow> settings \<Rightarrow> ssh_target \<Rightarrow> pystr \<Rightarrow> int \<Rightarrow> int \<Rightarrow> tool_work" where
  "ssh_spawn_work X s t command cols rows w =
     (case ssh_open_process X s (st_host t) command (target_kwargs t) w of
        (Fails e, w) \<Rightarrow> (Raised e, w)
      | (Aborted, w) \<Rightarrow> (Cancelled, w)
      | (Got entry, w) \<Rightarrow>
          admit_session X (asc ''ssh'')
            (asc ''ssh '' @ st_host t @ asc '': '' @ (if command = [] then asc ''shell'' else command))
            cols rows entry
            (\<lambda>sid. asc ''session '' @ sid @ asc '' started (ssh '' @ st_host t @
               asc ''); use session_recv/session_send'') w)"

definition ssh_spawn ::
  "outside \<Rightarrow> env \<Rightarrow> caller \<Rightarrow> ssh_target \<Rightarrow> pystr \<Rightarrow> int \<Rightarrow> int \<Rightarrow> world relay \<Rightarrow>
   tool_reply \<times> world relay" where
  "ssh_spawn X E cl t command cols rows s =
     submit E (ssh_spawn_call X cl (rl_settings s) (tool_inventory s) t command cols rows)
       (ssh_spawn_work X (rl_settings s) t command cols rows) s"

subsection \<open>Transfers and forwards\<close>

definition transfer_timeout :: "settings \<Rightarrow> int \<Rightarrow> int" where
  "transfer_timeout s timeout = (if timeout > 0 then clamp_timeout s timeout else 0)"

definition ssh_upload_call ::
  "outside \<Rightarrow> caller \<Rightarrow> settings \<Rightarrow> inventory_state \<Rightarrow> ssh_target \<Rightarrow> pystr \<Rightarrow> pystr \<Rightarrow> bool \<Rightarrow> int \<Rightarrow>
   py_error + call" where
  "ssh_upload_call X cl s iv t local_path remote_path recursive timeout =
     map_sum (\<lambda>e. e) (\<lambda>p. plain_call cl ''ssh_upload''
         ([(asc ''host'', JStr (st_host t)), (asc ''local'', JStr local_path),
           (asc ''remote'', JStr remote_path), (asc ''recursive'', JBool recursive),
           (asc ''timeout'', JInt (transfer_timeout s timeout))] @
          ssh_target_audit (ot_repr X) s iv t) p 2048)
       (policy_text_ssh_upload (ot_ip6 X) (st_host t) local_path remote_path (st_jump t))"

definition ssh_upload ::
  "outside \<Rightarrow> env \<Rightarrow> caller \<Rightarrow> ssh_target \<Rightarrow> pystr \<Rightarrow> pystr \<Rightarrow> bool \<Rightarrow> int \<Rightarrow> world relay \<Rightarrow>
   tool_reply \<times> world relay" where
  "ssh_upload X E cl t local_path remote_path recursive timeout s =
     (let st = rl_settings s in
      submit E (ssh_upload_call X cl st (tool_inventory s) t local_path remote_path recursive timeout)
        (ssh_transfer X st True (st_host t) (sftp_put_route (st_host t) local_path remote_path)
           (transfer_timeout st timeout) (target_kwargs t)) s)"

definition ssh_download_call ::
  "outside \<Rightarrow> caller \<Rightarrow> settings \<Rightarrow> inventory_state \<Rightarrow> ssh_target \<Rightarrow> pystr \<Rightarrow> pystr \<Rightarrow> bool \<Rightarrow> int \<Rightarrow>
   py_error + call" where
  "ssh_download_call X cl s iv t remote_path local_path recursive timeout =
     map_sum (\<lambda>e. e) (\<lambda>p. plain_call cl ''ssh_download''
         ([(asc ''host'', JStr (st_host t)), (asc ''remote'', JStr remote_path),
           (asc ''local'', JStr local_path), (asc ''recursive'', JBool recursive),
           (asc ''timeout'', JInt (transfer_timeout s timeout))] @
          ssh_target_audit (ot_repr X) s iv t) p 2048)
       (policy_text_ssh_download (ot_ip6 X) (st_host t) remote_path local_path (st_jump t))"

definition ssh_download ::
  "outside \<Rightarrow> env \<Rightarrow> caller \<Rightarrow> ssh_target \<Rightarrow> pystr \<Rightarrow> pystr \<Rightarrow> bool \<Rightarrow> int \<Rightarrow> world relay \<Rightarrow>
   tool_reply \<times> world relay" where
  "ssh_download X E cl t remote_path local_path recursive timeout s =
     (let st = rl_settings s in
      submit E (ssh_download_call X cl st (tool_inventory s) t remote_path local_path recursive timeout)
        (ssh_transfer X st False (st_host t) (sftp_get_route (st_host t) remote_path local_path)
           (transfer_timeout st timeout) (target_kwargs t)) s)"

definition ssh_forward_call ::
  "outside \<Rightarrow> caller \<Rightarrow> settings \<Rightarrow> inventory_state \<Rightarrow> ssh_target \<Rightarrow> pystr \<Rightarrow> py_error + call" where
  "ssh_forward_call X cl s iv t spec =
     map_sum (\<lambda>e. e) (\<lambda>p. plain_call cl ''ssh_forward''
         ([(asc ''host'', JStr (st_host t)), (asc ''spec'', JStr spec)] @
          ssh_target_audit (ot_repr X) s iv t) p 1024)
       (policy_text_ssh_forward (ot_ip6 X) spec (st_host t) (st_jump t))"

definition ssh_forward_work ::
  "outside \<Rightarrow> settings \<Rightarrow> ssh_target \<Rightarrow> pystr \<Rightarrow> tool_work" where
  "ssh_forward_work X s t spec w =
     (case ssh_add_forward X s (st_host t) spec (target_kwargs t) w of
        (Fails e, w) \<Rightarrow> (Raised e, w)
      | (Aborted, w) \<Rightarrow> (Cancelled, w)
      | (Got h, w) \<Rightarrow>
          (Done (asc ''forward '' @ fh_id h @ asc '' active: '' @ fh_kind h @ [32] @ spec @
             asc '' listening on port '' @ show_int (fh_listen_port h)) None, w))"

definition ssh_forward ::
  "outside \<Rightarrow> env \<Rightarrow> caller \<Rightarrow> ssh_target \<Rightarrow> pystr \<Rightarrow> world relay \<Rightarrow> tool_reply \<times> world relay" where
  "ssh_forward X E cl t spec s =
     submit E (ssh_forward_call X cl (rl_settings s) (tool_inventory s) t spec)
       (ssh_forward_work X (rl_settings s) t spec) s"

definition ssh_forward_list ::
  "env \<Rightarrow> caller \<Rightarrow> world relay \<Rightarrow> tool_reply \<times> world relay" where
  "ssh_forward_list E cl s =
     submit E (Inr (plain_call cl ''ssh_forward_list'' [] [] 8192))
       (\<lambda>w. (Done (rows_text (map JObj (list_forwards (wo_pool w)))) None, w)) s"

definition ssh_forward_close ::
  "outside \<Rightarrow> env \<Rightarrow> caller \<Rightarrow> pystr \<Rightarrow> world relay \<Rightarrow> tool_reply \<times> world relay" where
  "ssh_forward_close X E cl forward_id s =
     submit E (Inr (plain_call cl ''ssh_forward_close'' [(asc ''forward_id'', JStr forward_id)] [] 512))
       (\<lambda>w. case forward_close forward_id (ot_now X) (wo_pool w) of
          (txt, p) \<Rightarrow> (Done txt None, w\<lparr>wo_pool := p\<rparr>)) s"

subsection \<open>Many hosts\<close>

text \<open>The results in the order of the names; none if a call was cancelled.\<close>

fun on_hosts ::
  "(pystr \<Rightarrow> tool_work) \<Rightarrow> pystr list \<Rightarrow> world \<Rightarrow> work_outcome list option \<times> world" where
  "on_hosts f [] w = (Some [], w)"
| "on_hosts f (n # ns) w =
     (case f n w of
        (Cancelled, w) \<Rightarrow> (None, w)
      | (oc, w) \<Rightarrow> (case on_hosts f ns w of (rs, w) \<Rightarrow> (map_option ((#) oc) rs, w)))"

definition SSH_CHECK_MAX_HOSTS :: nat where
  "SSH_CHECK_MAX_HOSTS = 100"

definition SSH_CHECK_PER_HOST_OUTPUT_CAP :: int where
  "SSH_CHECK_PER_HOST_OUTPUT_CAP = 4096"

definition SSH_FANOUT_MAX_HOSTS :: nat where
  "SSH_FANOUT_MAX_HOSTS = 100"

definition no_hosts_text :: pystr where
  "no_hosts_text = asc ''[no hosts configured; pass hosts= or add an inventory]''"

definition too_many_hosts_text :: "nat \<Rightarrow> nat \<Rightarrow> pystr" where
  "too_many_hosts_text n cap =
     asc ''[ERROR: '' @ show_int (int n) @ asc '' hosts exceeds the per-call cap of '' @
     show_int (int cap) @ asc ''; split into smaller batches]''"

definition check_line :: "pystr \<Rightarrow> work_outcome \<Rightarrow> pystr" where
  "check_line name oc =
     (case oc of
        Done out code \<Rightarrow>
          name @ asc '': '' @
          (if code = Some 0 \<and> has_sub (asc ''ok'') out then asc ''ok'' else asc ''UNREACHABLE'')
      | Raised e \<Rightarrow> name @ asc '': UNREACHABLE ('' @ exn_class e @ asc '')''
      | Cancelled \<Rightarrow> [])"

definition probe_kwargs :: "int \<Rightarrow> connect_kwargs" where
  "probe_kwargs tmo = connect_kwargs_of [] 0 [] [] [] tmo"

definition ssh_check_work :: "outside \<Rightarrow> settings \<Rightarrow> pystr \<Rightarrow> int \<Rightarrow> tool_work" where
  "ssh_check_work X s hosts timeout w =
     (let names = target_names (wo_inventory w) hosts; tmo = clamp timeout 1 60 in
      if names = [] then (Done no_hosts_text None, w)
      else if length names > SSH_CHECK_MAX_HOSTS
      then (Done (too_many_hosts_text (length names) SSH_CHECK_MAX_HOSTS) None, w)
      else case on_hosts (\<lambda>n. ssh_run X s n (asc ''echo ok'') tmo (probe_kwargs tmo)
                 (Some SSH_CHECK_PER_HOST_OUTPUT_CAP)) names w of
             (None, w) \<Rightarrow> (Cancelled, w)
           | (Some rs, w) \<Rightarrow> (Done (join [10] (map2 check_line names rs)) None, w))"

definition outside_inventory :: "inventory_state \<Rightarrow> pystr \<Rightarrow> bool" where
  "outside_inventory iv hosts \<longleftrightarrow> list_ex (\<lambda>h. \<not> knows iv h) (host_tokens hosts)"

definition ssh_check_call ::
  "outside \<Rightarrow> caller \<Rightarrow> settings \<Rightarrow> inventory_state \<Rightarrow> pystr \<Rightarrow> py_error + call" where
  "ssh_check_call X cl s iv hosts =
     map_sum (\<lambda>e. e) (\<lambda>p.
         (plain_call cl ''ssh_check''
            [(asc ''hosts'', JStr (if hosts = [] then asc ''inventory'' else hosts))] p 8192)
         \<lparr>c_min_tier := (if outside_inventory iv hosts then REVERSIBLE else READ_ONLY),
          c_extra_notices := host_key_notices (ot_repr X) s iv (target_names iv hosts)\<rparr>)
       (policy_text_ssh_check (ot_ip6 X) hosts)"

definition ssh_check ::
  "outside \<Rightarrow> env \<Rightarrow> caller \<Rightarrow> pystr \<Rightarrow> int \<Rightarrow> world relay \<Rightarrow> tool_reply \<times> world relay" where
  "ssh_check X E cl hosts timeout s =
     submit E (ssh_check_call X cl (rl_settings s) (tool_inventory s) hosts)
       (ssh_check_work X (rl_settings s) hosts timeout) s"

text \<open>The budget of one host's output in a fan-out of \<open>n\<close> hosts.\<close>

definition command_echo :: "int \<Rightarrow> pystr \<Rightarrow> pystr" where
  "command_echo budget command = truncate_str command (min 2048 (budget div 4))"

definition per_host_budget :: "int \<Rightarrow> pystr \<Rightarrow> nat \<Rightarrow> int" where
  "per_host_budget budget command n =
     (let envelope = 1024 + int (length (command_echo budget command)) + int n * 200;
          remaining = max (budget - envelope) 0
      in max 128 (remaining div int (max n 1)))"

definition fanout_row :: "int \<Rightarrow> pystr \<Rightarrow> work_outcome \<Rightarrow> json" where
  "fanout_row budget name oc =
     (let row = (\<lambda>code out. JObj [(asc ''host'', JStr name), (asc ''exit_code'', code),
                  (asc ''output'', JStr (truncate_str out budget))])
      in case oc of
           Done out code \<Rightarrow> row (case code of None \<Rightarrow> JNull | Some c \<Rightarrow> JInt c) out
         | Raised e \<Rightarrow> row JNull (asc ''[UNREACHABLE: '' @ exn_class e @ asc '': '' @ exn_text e @ [93])
         | Cancelled \<Rightarrow> JNull)"

definition fanout_payload :: "pystr \<Rightarrow> int \<Rightarrow> int \<Rightarrow> json list \<Rightarrow> json" where
  "fanout_payload echo conc tmo results =
     JObj [(asc ''command'', JStr echo), (asc ''concurrency'', JInt conc), (asc ''timeout'', JInt tmo),
       (asc ''host_count'', JInt (int (length results))), (asc ''results'', JList results)]"

definition ssh_fanout_work ::
  "outside \<Rightarrow> settings \<Rightarrow> pystr \<Rightarrow> pystr \<Rightarrow> int \<Rightarrow> int \<Rightarrow> tool_work" where
  "ssh_fanout_work X s command hosts timeout concurrency w =
     (let names = target_names (wo_inventory w) hosts in
      if names = [] then (Done no_hosts_text None, w)
      else if length names > SSH_FANOUT_MAX_HOSTS
      then (Done (too_many_hosts_text (length names) SSH_FANOUT_MAX_HOSTS) None, w)
      else
        let tmo = clamp_timeout s timeout; conc = clamp concurrency 1 32;
            budget = clamp_output s (max_output s);
            host_budget = per_host_budget budget command (length names)
        in case on_hosts (\<lambda>n. ssh_run X s n command tmo (probe_kwargs tmo) (Some host_budget)) names w of
             (None, w) \<Rightarrow> (Cancelled, w)
           | (Some rs, w) \<Rightarrow>
               (Done (dumps fmt_default (fanout_payload (command_echo budget command) conc tmo
                        (map2 (fanout_row host_budget) names rs))) None, w))"

definition ssh_fanout_call ::
  "outside \<Rightarrow> caller \<Rightarrow> settings \<Rightarrow> inventory_state \<Rightarrow> pystr \<Rightarrow> pystr \<Rightarrow> int \<Rightarrow> int \<Rightarrow>
   py_error + call" where
  "ssh_fanout_call X cl s iv command hosts timeout concurrency =
     map_sum (\<lambda>e. e) (\<lambda>p.
         (plain_call cl ''ssh_fanout''
            [(asc ''command'', JStr command), (asc ''hosts'', JStr hosts),
             (asc ''timeout'', JInt timeout), (asc ''concurrency'', JInt concurrency)] p
            (clamp_output s (max_output s)))
         \<lparr>c_extra_notices := host_key_notices (ot_repr X) s iv (target_names iv hosts),
          c_json_notices := True\<rparr>)
       (policy_text_ssh_fanout (ot_ip6 X) hosts command)"

definition ssh_fanout ::
  "outside \<Rightarrow> env \<Rightarrow> caller \<Rightarrow> pystr \<Rightarrow> pystr \<Rightarrow> int \<Rightarrow> int \<Rightarrow> world relay \<Rightarrow>
   tool_reply \<times> world relay" where
  "ssh_fanout X E cl command hosts timeout concurrency s =
     submit E (ssh_fanout_call X cl (rl_settings s) (tool_inventory s) command hosts timeout concurrency)
       (ssh_fanout_work X (rl_settings s) command hosts timeout concurrency) s"

subsection \<open>\<open>ssh_keyscan\<close>\<close>

text \<open>\<open>_HOSTNAME_RE.match\<close> on a token without whitespace (the \<open>$\<close> of the expression would
  also match before a final newline).\<close>

definition hostname_ok :: "pystr \<Rightarrow> bool" where
  "hostname_ok h \<longleftrightarrow> h \<noteq> [] \<and> list_all (\<lambda>c. alnum c \<or> c \<in> {46, 95, 45, 91, 93, 58}) h"

definition HOSTNAME_PATTERN :: pystr where
  "HOSTNAME_PATTERN =
     asc ''^[A-Za-z0-9._'' @ [92] @ asc ''-'' @ [92] @ asc ''['' @ [92] @ asc '']:]+$''"

definition ALLOWED_KEY_TYPES :: "pystr list" where
  "ALLOWED_KEY_TYPES = map asc [''rsa'', ''ecdsa'', ''ed25519'', ''dsa'']"

definition SSH_KEYSCAN_MAX_HOSTS :: nat where
  "SSH_KEYSCAN_MAX_HOSTS = 32"

definition key_type_list :: "pystr \<Rightarrow> pystr list" where
  "key_type_list key_types = filter (\<lambda>t. t \<noteq> []) (map strip (split_on 44 key_types))"

text \<open>The reply to invalid arguments.\<close>

definition keyscan_error ::
  "(json \<Rightarrow> pystr) \<Rightarrow> pystr list \<Rightarrow> int \<Rightarrow> pystr list \<Rightarrow> pystr option" where
  "keyscan_error repr hosts port types =
     (if hosts = [] then Some (asc ''[no hosts; pass hosts=<host>[,<host>...]]'')
      else if length hosts > SSH_KEYSCAN_MAX_HOSTS
      then Some (too_many_hosts_text (length hosts) SSH_KEYSCAN_MAX_HOSTS)
      else case find (\<lambda>h. \<not> hostname_ok h) hosts of
        Some h \<Rightarrow> Some (asc ''[ERROR: rejected host '' @ repr (JStr h) @ asc '': must match '' @
                   HOSTNAME_PATTERN @ [93])
      | None \<Rightarrow>
          if \<not> (1 \<le> port \<and> port \<le> 65535)
          then Some (asc ''[ERROR: port '' @ show_int port @ asc '' out of range 1..65535]'')
          else case find (\<lambda>t. t \<notin> set ALLOWED_KEY_TYPES) types of
            Some t \<Rightarrow> Some (asc ''[ERROR: rejected key type '' @ repr (JStr t) @
                       asc '': choose from '' @ repr (JList (map JStr (sort ALLOWED_KEY_TYPES))) @ [93])
          | None \<Rightarrow> if types = [] then Some (asc ''[ERROR: empty key_types]'') else None)"

definition keyscan_command :: "int \<Rightarrow> pystr list \<Rightarrow> int \<Rightarrow> pystr list \<Rightarrow> pystr" where
  "keyscan_command tmo types port hosts =
     join [32] ([asc ''ssh-keyscan'', asc ''-T'', show_int tmo, asc ''-t'',
                 shlex_quote (join [44] types), asc ''-p'', show_int port, asc ''--''] @
                map shlex_quote hosts)"

definition ssh_keyscan_work ::
  "outside \<Rightarrow> settings \<Rightarrow> pystr \<Rightarrow> int \<Rightarrow> pystr \<Rightarrow> int \<Rightarrow> tool_work" where
  "ssh_keyscan_work X s hosts port key_types timeout w =
     (let hs = host_tokens hosts; types = key_type_list key_types; tmo = clamp timeout 1 60 in
      case keyscan_error (ot_repr X) hs port types of
        Some txt \<Rightarrow> (Done txt None, w)
      | None \<Rightarrow>
          local_run (run_command (ot_repr X) (ot_environ X) (ot_monitor X) (ot_child X)
            \<lparr>ca_command = keyscan_command tmo types port hs, ca_timeout = tmo, ca_cwd = [],
             ca_stdin = [], ca_merge_stderr = True, ca_use_shell = True, ca_env_json = [],
             ca_output_cap = Some (max_output_hard s)\<rparr>) w)"

definition ssh_keyscan_call ::
  "outside \<Rightarrow> caller \<Rightarrow> settings \<Rightarrow> pystr \<Rightarrow> int \<Rightarrow> pystr \<Rightarrow> py_error + call" where
  "ssh_keyscan_call X cl s hosts port key_types =
     map_sum (\<lambda>e. e) (\<lambda>p. plain_call cl ''ssh_keyscan''
         [(asc ''hosts'', JStr hosts), (asc ''port'', JInt port), (asc ''key_types'', JStr key_types)]
         p (clamp_output s (max_output s)))
       (policy_text_ssh_keyscan (ot_ip6 X) hosts)"

definition ssh_keyscan ::
  "outside \<Rightarrow> env \<Rightarrow> caller \<Rightarrow> pystr \<Rightarrow> int \<Rightarrow> pystr \<Rightarrow> int \<Rightarrow> world relay \<Rightarrow>
   tool_reply \<times> world relay" where
  "ssh_keyscan X E cl hosts port key_types timeout s =
     submit E (ssh_keyscan_call X cl (rl_settings s) hosts port key_types)
       (ssh_keyscan_work X (rl_settings s) hosts port key_types timeout) s"

definition ssh_hosts :: "env \<Rightarrow> caller \<Rightarrow> world relay \<Rightarrow> tool_reply \<times> world relay" where
  "ssh_hosts E cl s =
     submit E (Inr (plain_call cl ''ssh_hosts'' [] [] 32768))
       (\<lambda>w. (Done (rows_text (map (\<lambda>h. JObj (as_dict h)) (inventory_hosts (wo_inventory w)))) None, w)) s"

end
