(* ===== verification/Diagnostics.thy ===== *)
theory Diagnostics
  imports SshTools SeccompMonitor
begin

text \<open>
  The read-only part of \<open>build_server\<close> in \<open>src/relay_shell/server.py\<close>: \<open>server_info\<close>, the
  \<open>audit_tail\<close> tool, and the resources and the prompt, which do not pass through \<open>Relay.run\<close> but
  leave a record of their own. What the process reads of its host is \<open>host_facts\<close>.
\<close>

subsection \<open>\<open>server_info\<close>\<close>

record host_facts =
  hf_uid :: int
  hf_euid :: int
  hf_user :: pystr
  hf_sudo :: pystr
  hf_version :: pystr
  hf_seccomp :: platform_support
  hf_now :: real

definition SECCOMP_FILTER_VERSION :: int where
  "SECCOMP_FILTER_VERSION = 3"

text \<open>\<open>_find_sudo_binary\<close>: \<open>runs\<close> is whether a path is an executable file.\<close>

definition SUDO_SEARCH_PATHS :: "pystr list" where
  "SUDO_SEARCH_PATHS = map asc [''/usr/bin/sudo'', ''/bin/sudo'', ''/usr/local/bin/sudo'']"

definition find_sudo_binary :: "(pystr \<Rightarrow> bool) \<Rightarrow> pystr" where
  "find_sudo_binary runs = (case find runs SUDO_SEARCH_PATHS of None \<Rightarrow> [] | Some p \<Rightarrow> p)"

definition obj :: "(string \<times> json) list \<Rightarrow> json" where
  "obj kvs = JObj (map (\<lambda>(k, v). (asc k, v)) kvs)"

definition server_info_json ::
  "outside \<Rightarrow> host_facts \<Rightarrow> nat \<Rightarrow> world relay \<Rightarrow> json" where
  "server_info_json X hf n_pending s =
     (let c = rl_settings s; au = rl_audit s; iv = tool_inventory s in
      obj
        [(''name'', JStr (asc ''relay-shell'')), (''version'', JStr (hf_version hf)),
         (''transport'', JStr (transport c)), (''policy_mode'', JStr (policy_mode c)),
         (''warnings'', JList (map JStr (config_warnings c (hf_euid hf)))),
         (''runtime'', obj
           [(''uid'', JInt (hf_uid hf)), (''euid'', JInt (hf_euid hf)), (''user'', JStr (hf_user hf)),
            (''is_root'', JBool (hf_euid hf = 0)), (''sudo_binary'', JStr (hf_sudo hf))]),
         (''limits'', obj
           [(''default_timeout'', JInt (default_timeout c)), (''max_timeout'', JInt (max_timeout c)),
            (''max_output'', JInt (max_output c)), (''max_output_hard'', JInt (max_output_hard c)),
            (''max_sessions'', JInt (max_sessions c)), (''max_forwards'', JInt (max_forwards c)),
            (''max_conns'', JInt (max_conns c)), (''max_input'', JInt (max_input c))]),
         (''audit'', obj
           [(''path'', JStr (audit_path c)), (''session_input'', JStr (audit_session_input c)),
            (''degraded'', JBool (au_degraded au)), (''format'', JStr (au_format au)),
            (''chain'', JBool (au_chain au)), (''intent'', JBool (audit_intent c))]),
         (''confirm'', obj
           [(''tier3'', JBool (confirm_tier3 c)), (''ttl'', JInt (confirm_ttl c)),
            (''pending'', JInt (int n_pending))]),
         (''seccomp'', obj
           [(''notify'', JBool (seccomp_notify c)), (''supported'', JBool (ps_ok (hf_seccomp hf))),
            (''reason'', JStr (ps_reason (hf_seccomp hf))), (''cap'', JInt (seccomp_notify_cap c)),
            (''filter_version'', JInt SECCOMP_FILTER_VERSION)]),
         (''ssh'', obj
           [(''known_hosts_default'', JStr (ssh_known_hosts c)),
            (''allow_weaker_known_hosts'', JBool (ssh_allow_weaker_known_hosts c)),
            (''inventory_hosts'', JInt (int (length (inventory_hosts iv)))),
            (''ssh_config'', opt_str (ot_config_file X)),
            (''connect_timeout'', JInt (ssh_connect_timeout c)),
            (''keepalive'', JInt (ssh_keepalive c)), (''idle_timeout'', JInt (ssh_idle_timeout c))])])"

text \<open>\<open>pending\<close> sweeps the broker.\<close>

definition server_info_work :: "outside \<Rightarrow> host_facts \<Rightarrow> world work" where
  "server_info_work X hf s =
     (case (case rl_broker s of
              None \<Rightarrow> (0, None)
            | Some b \<Rightarrow> (case pending (hf_now hf) b of (n, b) \<Rightarrow> (n, Some b))) of
        (n, b) \<Rightarrow> (Done (pretty 0 (server_info_json X hf n s)) None, s\<lparr>rl_broker := b\<rparr>))"

definition server_info ::
  "outside \<Rightarrow> host_facts \<Rightarrow> env \<Rightarrow> caller \<Rightarrow> world relay \<Rightarrow> reply \<times> world relay" where
  "server_info X hf E cl s =
     relay_run E (plain_call cl ''server_info'' [] [] 8192) (server_info_work X hf) s"

subsection \<open>\<open>audit_tail\<close>\<close>

definition audit_tail_call ::
  "caller \<Rightarrow> settings \<Rightarrow> int \<Rightarrow> pystr \<Rightarrow> int \<Rightarrow> bool option \<Rightarrow> call" where
  "audit_tail_call cl s lines tool tier_is denied_is =
     plain_call cl ''audit_tail''
       ([(asc ''lines'', JInt (clamp lines 1 1000))] @
        (if tool = [] then [] else [(asc ''tool_filter'', JStr tool)]) @
        (if tier_is \<ge> 0 then [(asc ''tier_filter'', JInt tier_is)] else []) @
        (case denied_is of None \<Rightarrow> [] | Some b \<Rightarrow> [(asc ''denied_filter'', JBool b)]))
       [] (clamp_output s (max_output s))"

definition audit_tail_tool ::
  "env \<Rightarrow> caller \<Rightarrow> int \<Rightarrow> pystr \<Rightarrow> int \<Rightarrow> bool option \<Rightarrow> world relay \<Rightarrow> reply \<times> world relay" where
  "audit_tail_tool E cl lines tool tier_is denied_is s =
     relay_run E (audit_tail_call cl (rl_settings s) lines tool tier_is denied_is)
       (audit_tail_work lines tool tier_is denied_is) s"

subsection \<open>Resources and prompts\<close>

text \<open>The record and the count of a read that is not a call; \<open>record\<close> is given no request id.\<close>

definition audit_read ::
  "env \<Rightarrow> pystr \<Rightarrow> pystr \<Rightarrow> (pystr, json) dict \<Rightarrow> 'w relay \<Rightarrow> 'w relay" where
  "audit_read E tool_label body args s =
     (let s = write_record E 1
            \<lparr>ac_tool = tool_label, ac_args = redact_args (ev_tables E) args 500, ac_output = body,
             ac_exit = None, ac_tier = 0, ac_request_id = [], ac_client_id = [], ac_denied = False,
             ac_action = []\<rparr> s
      in s\<lparr>rl_metrics := inc_tool_call tool_label 0 (policy_mode (rl_settings s)) (asc ''ok'')
                           (rl_metrics s)\<rparr>)"

definition audit_resource_read ::
  "env \<Rightarrow> string \<Rightarrow> pystr \<Rightarrow> (pystr, json) dict \<Rightarrow> 'w relay \<Rightarrow> 'w relay" where
  "audit_resource_read E name body args s = audit_read E (asc ''resource:'' @ asc name) body args s"

definition audit_prompt_read :: "env \<Rightarrow> string \<Rightarrow> pystr \<Rightarrow> 'w relay \<Rightarrow> 'w relay" where
  "audit_prompt_read E name body s = audit_read E (asc ''prompt:'' @ asc name) body [] s"

definition resource_cap :: "'w relay \<Rightarrow> int" where
  "resource_cap s = clamp_output (rl_settings s) (max_output (rl_settings s))"

definition resource_inventory :: "env \<Rightarrow> world relay \<Rightarrow> pystr \<times> world relay" where
  "resource_inventory E s =
     (let body = truncate_str (dumps fmt_default
            (JList (map (\<lambda>h. JObj (as_dict h)) (inventory_hosts (tool_inventory s))))) (resource_cap s)
      in (body, audit_resource_read E ''inventory'' body [] s))"

definition resource_inventory_host :: "env \<Rightarrow> pystr \<Rightarrow> world relay \<Rightarrow> pystr \<times> world relay" where
  "resource_inventory_host E host s =
     (let body = truncate_str (dumps fmt_default (JObj (as_dict (resolve (tool_inventory s) host))))
            (resource_cap s)
      in (body, audit_resource_read E ''inventory_host'' body [(asc ''host'', JStr host)] s))"

definition resource_ssh_config :: "outside \<Rightarrow> env \<Rightarrow> world relay \<Rightarrow> pystr \<times> world relay" where
  "resource_ssh_config X E s =
     (let body = truncate_str (dumps fmt_default
            (JObj [(asc ''path'', opt_str (ot_config_file X)),
                   (asc ''aliases'', JList (map JStr (ssh_config_aliases (tool_inventory s))))]))
            (resource_cap s)
      in (body, audit_resource_read E ''ssh-config'' body [] s))"

text \<open>The guide's text is an argument.\<close>

definition prompt_operating_guide :: "pystr \<Rightarrow> env \<Rightarrow> world relay \<Rightarrow> pystr \<times> world relay" where
  "prompt_operating_guide guide E s =
     (let body = truncate_str guide (resource_cap s)
      in (body, audit_prompt_read E ''operating_guide'' body s))"

end
