(* ===== verification/ShelltoolsProps.thy ===== *)
theory ShelltoolsProps
  imports Shelltools SshPool
begin

text \<open>
  What the local runs guarantee: a quoted argument is one word and nothing more to a shell, the
  output of a child is bounded as that of a remote command is, the environment is the overlay
  on the defaults, and no child outlives its call unsupervised.
\<close>

subsection \<open>Quoting\<close>

text \<open>A reader of the part of the shell language in which no character is active: words of
  safe characters, single-quoted and plain double-quoted parts, separated by blanks. None when
  a character occurs that a shell would interpret.\<close>

fun inert_read :: "nat option \<Rightarrow> bool \<Rightarrow> pystr \<Rightarrow> pystr \<Rightarrow> pystr list option" where
  "inert_read None started cur [] = Some (if started then [cur] else [])"
| "inert_read (Some q) started cur [] = None"
| "inert_read None started cur (c # s) =
     (if c = 32 then (if started then map_option ((#) cur) (inert_read None False [] s)
                      else inert_read None False [] s)
      else if c = 39 \<or> c = 34 then inert_read (Some c) True cur s
      else if quote_safe c then inert_read None True (cur @ [c]) s
      else None)"
| "inert_read (Some q) started cur (c # s) =
     (if c = q then inert_read None True cur s
      else if q = 34 \<and> (c = 36 \<or> c = 96 \<or> c = 92) then None
      else inert_read (Some q) True (cur @ [c]) s)"

definition inert_words :: "pystr \<Rightarrow> pystr list option" where
  "inert_words s = inert_read None False [] s"

lemma quote_safe_plain:
  "quote_safe c \<Longrightarrow> c \<noteq> 32 \<and> c \<noteq> 39 \<and> c \<noteq> 34 \<and> c \<noteq> 92 \<and> \<not> shlex_space c"
  by (auto simp: quote_safe_def shlex_space_def)

text \<open>Where nothing is active, \<open>shlex.split\<close> reads the words the shell reads.\<close>

lemma inert_read_shlex:
  "inert_read None True cur s = Some ws \<Longrightarrow>
     (\<And>q. q \<or> cur \<noteq> [] \<Longrightarrow> shlex_read Word q cur s = Inr ws)"
  "inert_read None False [] s = Some ws \<Longrightarrow> shlex_read Between False [] s = Inr ws"
  "inert_read (Some d) True cur s = Some ws \<Longrightarrow> d = 39 \<or> d = 34 \<Longrightarrow>
     (\<And>q. shlex_read (Quoted d) q cur s = Inr ws)"
proof (induction s arbitrary: cur ws d)
  case Nil
  { case 1 then show ?case by auto }
  { case 2 then show ?case by simp }
  { case 3 then show ?case by simp }
next
  case (Cons c s)
  { case 1
    show ?case
    proof (cases "c = 32")
      case True
      then obtain us where us: "inert_read None False [] s = Some us" "ws = cur # us"
        using 1(1) by auto
      then show ?thesis using Cons.IH(2) [OF us(1)] True 1(2) by (simp add: shlex_space_def)
    next
      case False
      show ?thesis
      proof (cases "c = 39 \<or> c = 34")
        case True
        then have "inert_read (Some c) True cur s = Some ws" using 1(1) False by auto
        from Cons.IH(3) [OF this True] True show ?thesis by (auto simp: shlex_space_def)
      next
        case nq: False
        then have s: "quote_safe c" "inert_read None True (cur @ [c]) s = Some ws"
          using 1(1) False by (auto split: if_splits)
        have "shlex_read Word q (cur @ [c]) s = Inr ws"
          using Cons.IH(1) [OF s(2)] by blast
        then show ?thesis using quote_safe_plain [OF s(1)] nq by simp
      qed
    qed }
  { case 2
    show ?case
    proof (cases "c = 32")
      case True
      then show ?thesis using Cons.IH(2) 2 by (simp add: shlex_space_def)
    next
      case False
      show ?thesis
      proof (cases "c = 39 \<or> c = 34")
        case True
        then have "inert_read (Some c) True [] s = Some ws" using 2 False by auto
        from Cons.IH(3) [OF this True] True show ?thesis by (auto simp: shlex_space_def)
      next
        case nq: False
        then have s: "quote_safe c" "inert_read None True [c] s = Some ws"
          using 2 False by (auto split: if_splits)
        have "shlex_read Word False [c] s = Inr ws"
          using Cons.IH(1) [OF s(2)] by blast
        then show ?thesis using quote_safe_plain [OF s(1)] nq by simp
      qed
    qed }
  { case 3
    show ?case
    proof (cases "c = d")
      case True
      then have "inert_read None True cur s = Some ws" using 3(1) by simp
      from Cons.IH(1) [OF this] True show ?thesis by auto
    next
      case False
      then have "inert_read (Some d) True (cur @ [c]) s = Some ws" "\<not> (c = 92 \<and> d = 34)"
        using 3(1) by (auto split: if_splits)
      from Cons.IH(3) [OF this(1) 3(2)] this(2) False show ?thesis by auto
    qed }
qed

lemma inert_words_shlex: "inert_words s = Some ws \<Longrightarrow> shlex_split s = Inr ws"
  unfolding inert_words_def shlex_split_def by (rule inert_read_shlex(2))

lemma inert_read_safe:
  "list_all quote_safe s \<Longrightarrow> s \<noteq> [] \<or> started \<Longrightarrow>
     inert_read None started cur (s @ t) = inert_read None True (cur @ s) t"
proof (induction s arbitrary: cur started)
  case Nil
  then show ?case by simp
next
  case (Cons c s)
  then show ?case using quote_safe_plain [of c] by simp
qed

lemma inert_read_escaped:
  "inert_read (Some 39) True cur (replace_char 39 [39, 34, 39, 34, 39] s @ 39 # t) =
     inert_read None True (cur @ s) t"
  by (induction s arbitrary: cur) (simp_all add: replace_char_def)

text \<open>A quoted argument is read as itself.\<close>

lemma inert_read_quote:
  "inert_read None False [] (shlex_quote w @ t) = inert_read None True w t"
proof -
  consider "w = []" | "w \<noteq> []" "list_all quote_safe w" | "w \<noteq> []" "\<not> list_all quote_safe w" by blast
  then show ?thesis
  proof cases
    case 1
    then show ?thesis by (simp add: shlex_quote_def)
  next
    case 2
    then show ?thesis using inert_read_safe [of w False "[]" t] by (simp add: shlex_quote_def)
  next
    case 3
    then have q: "shlex_quote w = [39] @ replace_char 39 [39, 34, 39, 34, 39] w @ [39]"
      by (simp add: shlex_quote_def)
    show ?thesis unfolding q using inert_read_escaped [of "[]" w t] by simp
  qed
qed

lemma inert_words_quoted:
  "inert_words (join [32] (map shlex_quote ws)) = Some ws"
proof (induction ws rule: join.induct [where ?P = "\<lambda>_ ws. inert_words (join [32] (map shlex_quote ws)) = Some ws"])
  case (1 sep)
  then show ?case by (simp add: inert_words_def)
next
  case (2 sep w)
  then show ?case using inert_read_quote [of w "[]"] by (simp add: inert_words_def)
next
  case (3 sep w v ws)
  then show ?case
    using inert_read_quote [of w "32 # join [32] (map shlex_quote (v # ws))"]
    by (simp add: inert_words_def)
qed

subsection \<open>Output\<close>

text \<open>The local drain and the one of a remote command keep the same bytes.\<close>

definition same_bytes :: "nat option \<Rightarrow> local_output \<Rightarrow> drain \<Rightarrow> bool" where
  "same_bytes cap d e \<longleftrightarrow> lo_out d = dr_out e \<and> lo_err d = dr_err e \<and>
     (cap \<noteq> None \<longrightarrow> lo_kept d = length (dr_out e) + length (dr_err e))"

lemma drain_step_same:
  assumes "same_bytes cap d e"
  shows "same_bytes cap (drain_capped cap c d) (drain_chunk cap c e)"
proof (cases cap)
  case None
  then show ?thesis
    using assms by (cases c) (auto simp: same_bytes_def drain_capped_def drain_chunk_def Let_def)
next
  case (Some n)
  obtain is_err chunk where c: "c = (is_err, chunk)" by fastforce
  let ?k = "length (dr_out e) + length (dr_err e)"
  have d: "lo_out d = dr_out e" "lo_err d = dr_err e" "lo_kept d = ?k"
    using assms Some by (simp_all add: same_bytes_def)
  have b: "nat (int n - int ?k) = n - ?k" "int n - int ?k > 0 \<longleftrightarrow> ?k < n" by linarith+
  show ?thesis
  proof (cases "?k < n")
    case True
    then show ?thesis
      using d b by (simp add: c Some same_bytes_def drain_capped_def drain_chunk_def Let_def)
  next
    case False
    then show ?thesis
      using d b by (simp add: c Some same_bytes_def drain_capped_def drain_chunk_def Let_def)
  qed
qed

lemma drain_fold_same:
  "same_bytes cap d e \<Longrightarrow> same_bytes cap (fold (drain_capped cap) cs d) (fold (drain_chunk cap) cs e)"
  by (induction cs arbitrary: d e) (simp_all add: drain_step_same)

lemma drive_cap_run_cap: "drive_cap = run_cap"
  by (rule ext) (simp add: drive_cap_def run_cap_def split: option.splits)

theorem local_output_as_remote:
  "collect cap False cs =
     (let d = fold (drain_chunk (run_cap cap)) cs \<lparr>dr_out = [], dr_err = [], dr_seen = 0\<rparr>
      in utf8_decode (dr_out d) @ utf8_decode (dr_err d))"
proof -
  have m: "map (\<lambda>(is_err, b). (is_err \<and> \<not> False, b)) cs = cs" by (induction cs) auto
  have "same_bytes (run_cap cap) \<lparr>lo_out = [], lo_err = [], lo_kept = 0\<rparr> \<lparr>dr_out = [], dr_err = [], dr_seen = 0\<rparr>"
    by (simp add: same_bytes_def)
  from drain_fold_same [OF this, of cs] show ?thesis
    unfolding collect_def m drive_cap_run_cap by (simp add: same_bytes_def Let_def)
qed

subsection \<open>The environment\<close>

lemma overlay_env_get:
  "dwf extra \<Longrightarrow> dget (overlay_env repr extra d) k =
     (case dget extra k of None \<Rightarrow> dget d k | Some JNull \<Rightarrow> None | Some v \<Rightarrow> Some (py_str repr v))"
proof (induction extra arbitrary: d)
  case Nil
  then show ?case by simp
next
  case (Cons kv extra)
  obtain name v where kv: "kv = (name, v)" by fastforce
  have w: "dwf extra" "dget extra name = None" using Cons.prems by (simp_all add: kv dwf_Cons map_of_eq_None_iff)
  have step: "dget (case v of JNull \<Rightarrow> ddel name d | _ \<Rightarrow> dset name (py_str repr v) d) k =
      (if k = name then (case v of JNull \<Rightarrow> None | _ \<Rightarrow> Some (py_str repr v)) else dget d k)"
    by (cases v) simp_all
  have "overlay_env repr (kv # extra) d =
      overlay_env repr extra (case v of JNull \<Rightarrow> ddel name d | _ \<Rightarrow> dset name (py_str repr v) d)"
    by (simp add: kv)
  then show ?case
    using w(2) by (cases "dget extra k"; cases v) (auto simp: kv Cons.IH [OF w(1)] step)
qed

text \<open>A variable of the child is what the overlay says, and otherwise the inherited one with the
  defaults; anything but a JSON object overlays nothing.\<close>

theorem build_env_spec:
  assumes "loads overlay = Some (JObj extra)" "dwf extra" "strip overlay \<noteq> []"
  shows "dget (build_env repr environ overlay) k =
    (case dget extra k of None \<Rightarrow> dget (build_env repr environ []) k | Some JNull \<Rightarrow> None
     | Some v \<Rightarrow> Some (py_str repr v))"
proof -
  let ?d = "build_env repr environ []"
  have "build_env repr environ overlay = overlay_env repr extra ?d"
    using assms(1,3) by (simp add: build_env_def Let_def) (simp add: strip_def lstrip_def rstrip_def)
  then show ?thesis by (simp only: overlay_env_get [OF assms(2)])
qed

subsection \<open>Children\<close>

text \<open>Every child that was started has ended or is killed before the call returns, at most one
  is started, and the monitor of the call is stopped last.\<close>

definition supervised :: "(spawn_request \<Rightarrow> child_outcome) \<Rightarrow> monitor_use \<Rightarrow> os_call list \<Rightarrow> bool" where
  "supervised child m calls \<longleftrightarrow>
     (\<forall>rq. Spawn rq \<in> set calls \<longrightarrow>
        (case child rq of SpawnFailed _ \<Rightarrow> True | Exited _ _ \<Rightarrow> True | _ \<Rightarrow> KillGroup \<in> set calls) \<and>
        (m \<noteq> NoMonitor \<longrightarrow> last calls = StopMonitor)) \<and>
     length (filter (\<lambda>c. case c of Spawn _ \<Rightarrow> True | _ \<Rightarrow> False) calls) \<le> 1"

lemma drive_calls:
  assumes "drive inp tmo mrg cap oc = (res, calls)"
  shows "Spawn rq \<notin> set calls"
    "case oc of SpawnFailed _ \<Rightarrow> True | Exited _ _ \<Rightarrow> True | _ \<Rightarrow> KillGroup \<in> set calls"
    "filter (\<lambda>c. case c of Spawn _ \<Rightarrow> True | _ \<Rightarrow> False) calls = []"
  using assms
  by (auto simp: drive_def Let_def split: child_outcome.splits option.splits)

lemma spawn_supervised:
  "supervised child m (snd (spawn_and_drive m child rq inp tmo cap))"
proof -
  obtain res calls where d: "drive inp tmo (sr_merge rq) cap (child rq) = (res, calls)" by fastforce
  note k = drive_calls [OF d]
  have r: "snd (spawn_and_drive m child rq inp tmo cap) = Spawn rq # calls @ stop_monitor m"
    by (simp add: spawn_and_drive_def d)
  have kill: "case child rq of SpawnFailed _ \<Rightarrow> True | Exited _ _ \<Rightarrow> True
      | _ \<Rightarrow> KillGroup \<in> set (Spawn rq # calls @ stop_monitor m)"
    using k(2) by (simp split: child_outcome.splits)
  have only: "Spawn x \<in> set (Spawn rq # calls @ stop_monitor m) \<Longrightarrow> x = rq" for x
    using k(1) by (cases m) (auto simp: stop_monitor_def)
  have stop: "m \<noteq> NoMonitor \<Longrightarrow> last (Spawn rq # calls @ stop_monitor m) = StopMonitor"
    by (cases m) (simp_all add: stop_monitor_def)
  have one: "length (filter (\<lambda>c. case c of Spawn _ \<Rightarrow> True | _ \<Rightarrow> False)
      (Spawn rq # calls @ stop_monitor m)) \<le> 1"
    using k(3) by (cases m) (simp_all add: stop_monitor_def)
  show ?thesis unfolding r supervised_def using only kill stop one by blast
qed



text \<open>A script that cannot be encoded raises past a started interpreter, which nothing ends.\<close>

lemma unencodable_script_abandons:
  "\<not> supervised (\<lambda>_. TimedOut) NoMonitor (snd (run_script (\<lambda>_. []) [] [] NoMonitor (\<lambda>_. TimedOut)
     \<lparr>sa_script = [55296], sa_interpreter = asc ''bash'', sa_strict = False, sa_timeout = 1,
      sa_cwd = [], sa_env_json = [], sa_output_cap = None\<rparr>))"
proof -
  have i: "lower (strip (asc ''bash'')) = asc ''bash''" by code_simp
  show ?thesis
    by (simp add: supervised_def run_script_def script_plan_def i encode_strict_def is_surrogate_def
        stop_monitor_def Let_def split: option.splits)
qed

end
