(* ===== verification/SessionToolProps.thy ===== *)
theory SessionToolProps
  imports LocalTools RelayGate SessionProps
begin

text \<open>
  The session tools as whole calls: what a secret typed into a session leaves in the audit trail,
  and that a read returns.
\<close>

subsection \<open>The world and the rest of the runner\<close>

lemma world_update_commutes:
  "write_record E n r (s\<lparr>rl_world := w\<rparr>) = (write_record E n r s)\<lparr>rl_world := w\<rparr>"
  "count_call c t oc (s\<lparr>rl_world := w\<rparr>) = (count_call c t oc s)\<lparr>rl_world := w\<rparr>"
  by (simp_all add: write_record_def count_call_def)

text \<open>The execution of a work on the world is the execution of its outcome, with the world
  it leaves.\<close>

lemma execute_on_world:
  assumes "f (rl_world s) = (oc, w)"
  shows "execute E c d act (on_world f) s =
    map_prod id (\<lambda>s'. s'\<lparr>rl_world := w\<rparr>) (execute E c d act (Pair oc) s)"
proof -
  let ?s = "if audit_intent (rl_settings s)
    then write_record E 0 (call_record E c (d_tier d) [] None False (asc ''intent'')) s else s"
  have "rl_world ?s = rl_world s" by (simp add: write_record_def)
  then have f: "on_world f ?s = (oc, ?s\<lparr>rl_world := w\<rparr>)" using assms by (simp add: on_world_def)
  show ?thesis
    by (cases oc)
       (simp_all only: execute_def Let_def f, simp_all add: world_update_commutes split: option.splits)
qed

text \<open>A call leaves the world as it was or as its work left it.\<close>

lemma run_world:
  "rl_world (snd (relay_run E c (on_world f) s)) \<in> {rl_world s, snd (f (rl_world s))}"
proof (cases "runs_work E c s")
  case True
  obtain act s1 where e: "\<And>work. relay_run E c work s = execute E c (decision E c s) act work s1"
      "s1 = s\<lparr>rl_broker := (if gated E c s
        then Some (snd (call_consume E c (the (rl_broker s)))) else rl_broker s)\<rparr>"
    using run_executed [OF True] by blast
  obtain oc w where f: "f (rl_world s1) = (oc, w)" by fastforce
  have "rl_world s1 = rl_world s" by (simp add: e(2))
  then show ?thesis using execute_on_world [where f = f, OF f] f by (simp add: e(1))
next
  case nr: False
  show ?thesis
  proof (cases "admitted E c s")
    case True
    then obtain b where b: "rl_broker s = Some b" using nr by (auto simp: runs_work_def gated_def)
    show ?thesis using run_challenged [OF True nr b] by (simp split: prod.splits)
  next
    case False
    then show ?thesis by (rule run_refused) (simp add: refuse_def Let_def)
  qed
qed

text \<open>Refusal and execution look at a call's policy text only through the decision.\<close>

definition same_record :: "call \<Rightarrow> call \<Rightarrow> bool" where
  "same_record c c' \<longleftrightarrow> c' = c\<lparr>c_policy_text := c_policy_text c'\<rparr>"

lemma same_record_calls:
  assumes "same_record c c'"
  shows "refuse E c' t why (s :: 'a relay) = refuse E c t why s" "execute E c' d act f s = execute E c d act f s"
    "c_tool c' = c_tool c" "c_min_tier c' = c_min_tier c"
proof -
  obtain p where c': "c' = c\<lparr>c_policy_text := p\<rparr>" using assms unfolding same_record_def by blast
  have r: "call_record E c' = call_record E c" by (intro ext) (simp add: c' call_record_def)
  have n: "count_call c' = (count_call c :: _ \<Rightarrow> _ \<Rightarrow> 'a relay \<Rightarrow> _)"
    by (intro ext) (simp add: c' count_call_def)
  have g: "c_max_output c' = c_max_output c" "c_args c' = c_args c"
    "c_extra_notices c' = c_extra_notices c" "c_json_notices c' = c_json_notices c"
    by (simp_all add: c')
  show "refuse E c' t why s = refuse E c t why s" by (simp only: refuse_def r n)
  show "execute E c' d act f s = execute E c d act f s" by (simp only: execute_def r n g)
  show "c_tool c' = c_tool c" "c_min_tier c' = c_min_tier c" by (simp_all add: c')
qed

text \<open>Without a broker, the reply and the trail of a call are those of any other that differs in
  policy text and world only, if decision, length and outcome agree.\<close>

lemma run_same_trail:
  assumes "rl_broker s = None" "same_record c c'" "decision E c' s = decision E c s"
    and "length (c_policy_text c') = length (c_policy_text c)"
    and "f (rl_world s) = (oc, w)" "f' (rl_world s) = (oc, w')"
  shows "fst (relay_run E c' (on_world f') s) = fst (relay_run E c (on_world f) s) \<and>
    rl_audit (snd (relay_run E c' (on_world f') s)) = rl_audit (snd (relay_run E c (on_world f) s))"
proof -
  note same = same_record_calls [OF assms(2)]
  have run: "relay_run E d g s =
      (if int (length (c_policy_text d)) > max_input (rl_settings s)
       then refuse E d (classify (ev_scans E) (c_tool d) [])
              (oversize_reason (length (c_policy_text d)) (max_input (rl_settings s))) s
       else if \<not> allowed (decision E d s)
       then refuse E d (d_tier (decision E d s)) (reason (decision E d s)) s
       else execute E d (decision E d s) [] g s)" for d g
    using assms(1) by (simp add: relay_run_def decision_def Let_def)
  have x: "fst (execute E c d act (on_world f') s) = fst (execute E c d act (on_world f) s) \<and>
      rl_audit (snd (execute E c d act (on_world f') s)) = rl_audit (snd (execute E c d act (on_world f) s))"
    for d act
    by (simp add: execute_on_world [where f = f, OF assms(5)] execute_on_world [where f = f', OF assms(6)])
  show ?thesis using x by (simp add: run assms(3,4) same)
qed

subsection \<open>Secrets\<close>

lemma on_registry_fst: "fst (on_registry X f w) = fst (f (wo_sessions w))"
  by (simp add: on_registry_def split: prod.splits)

lemma encodable: "list_all (\<lambda>c. \<not> is_surrogate c) d \<Longrightarrow>
    encode_strict (d @ (if enter then [10] else [])) = Inr (utf8_encode (d @ (if enter then [10] else [])))"
  by (simp add: encode_strict_def is_surrogate_def)

lemma send_outcome:
  assumes "list_all (\<lambda>c. \<not> is_surrogate c) d" "list_all (\<lambda>c. \<not> is_surrogate c) d'"
    "length d = length d'" "\<And>a b. ot_write X sid a = ot_write X sid b"
  shows "fst (session_send_work X sid d enter w) = fst (session_send_work X sid d' enter w)"
proof -
  let ?send = "\<lambda>e. on_registry X (session_send (ot_now X) sid
    (utf8_encode (e @ (if enter then [10] else [])))) w"
  have work: "fst (session_send_work X sid e enter w) =
      (case fst (?send e) of
         Inl x \<Rightarrow> Raised (session_exn x)
       | Inr _ \<Rightarrow> (case ot_write X sid [] of Some x \<Rightarrow> Raised x
           | None \<Rightarrow> Done (asc ''sent '' @ show_int (int (length e + (if enter then 1 else 0))) @
               asc '' bytes to '' @ sid) None))"
    if "list_all (\<lambda>c. \<not> is_surrogate c) e" for e
  proof -
    define p where "p = e @ (if enter then [10] else [])"
    have p: "encode_strict p = Inr (utf8_encode p)" "length p = length e + (if enter then 1 else 0)"
      unfolding p_def using encodable [OF that] by simp_all
    have wr: "ot_write X sid (utf8_encode p) = ot_write X sid []" by (rule assms(4))
    show ?thesis
      unfolding session_send_work_def p_def [symmetric] Let_def p sum.case wr
      by (simp split: prod.splits sum.splits option.splits)
  qed
  have se: "fst (?send d) = fst (?send d')"
    unfolding on_registry_fst session_send_def
    by (cases "get_session sid (wo_sessions w)") simp_all
  show ?thesis by (simp only: work [OF assms(1)] work [OF assms(2)] se assms(3))
qed


subsection \<open>A read returns\<close>

text \<open>C30: \<open>session_recv\<close> returns: at the latest at the first clock reading at or past its deadline,
  whatever the others do meanwhile and whatever comes later; and at once when output is
  buffered or the session has ended.\<close>

theorem recv_returns:
  "(list_ex (\<lambda>(t, evs). deadline \<le> t) waits \<longrightarrow> fst (recv_loop rc sid n deadline waits r) \<noteq> None) \<and>
   (deadline \<le> t \<longrightarrow> recv_loop rc sid n deadline (waits @ (t, evs) # later) r =
      recv_loop rc sid n deadline (waits @ [(t, evs)]) r) \<and>
   (fst (recv_pass sid n r) \<noteq> None \<longrightarrow> recv_loop rc sid n deadline waits r = recv_pass sid n r) \<and>
   (dget (rg_objs r) sid = Some s \<and> (ss_buffer s \<noteq> [] \<or> ss_closed s) \<longrightarrow> fst (recv_pass sid n r) \<noteq> None)"
proof (intro conjI impI)
  assume "list_ex (\<lambda>(t, evs). deadline \<le> t) waits"
  then show "fst (recv_loop rc sid n deadline waits r) \<noteq> None"
    by (induction waits arbitrary: r) (auto split: prod.splits option.splits)
next
  assume "deadline \<le> t"
  then show "recv_loop rc sid n deadline (waits @ (t, evs) # later) r =
      recv_loop rc sid n deadline (waits @ [(t, evs)]) r"
    by (induction waits arbitrary: r) (auto split: prod.splits option.splits)
next
  assume "fst (recv_pass sid n r) \<noteq> None"
  then show "recv_loop rc sid n deadline waits r = recv_pass sid n r"
    by (cases waits) (auto split: prod.splits option.splits)
next
  assume "dget (rg_objs r) sid = Some s \<and> (ss_buffer s \<noteq> [] \<or> ss_closed s)"
  then show "fst (recv_pass sid n r) \<noteq> None"
    by (auto simp: recv_pass_def recv_poll_def poll_text_def Let_def)
qed

lemma recv_returns_witness:
  "fst (recv_loop (\<lambda>_. None) (asc ''sh-1'') 10 3 [(1, []), (4, [])] (registry_init 1 60 1)) \<noteq> None"
  using recv_returns [where deadline = 3 and waits = "[(1, []), (4, [])]" and rc = "\<lambda>_. None"
      and sid = "asc ''sh-1''" and n = 10 and r = "registry_init 1 60 1"] by simp

subsection \<open>A sample world\<close>

definition sample_outside :: outside where
  "sample_outside =
     \<lparr>ot_now = 1, ot_id = asc ''0'', ot_rc = (\<lambda>_. None), ot_echo_off = (\<lambda>_. True),
      ot_secret_prompt = (\<lambda>_. False), ot_write = (\<lambda>_ _. None), ot_child = (\<lambda>_. TimedOut),
      ot_pty = (\<lambda>_ _ _. None), ot_environ = [], ot_executable = [], ot_monitor = NoMonitor,
      ot_repr = (\<lambda>_. []), ot_py_text = (\<lambda>_. []), ot_round = (\<lambda>_. asc ''0.0''),
      ot_float = (\<lambda>_. asc ''0.0''), ot_waits = [], ot_ip6 = (\<lambda>_. None),
      ot_host_match = (\<lambda>_ _ _. Some False), ot_known_path = asc ''/kh'', ot_config_file = None,
      ot_join = (\<lambda>_. Aborted), ot_dial = (\<lambda>_ _. Aborted), ot_run = (\<lambda>_ _. Aborted),
      ot_process = (\<lambda>_. Aborted), ot_transfer = (\<lambda>_. Aborted), ot_listen = (\<lambda>_ _. Aborted)\<rparr>"

definition sample_world :: world where
  "sample_world =
     \<lparr>wo_sessions = (registry_init 4 60 1024)
        \<lparr>rg_objs := [(asc ''sh-1'', new_session 0 (asc ''sh-1'') (asc ''local'') [] 80 24)],
         rg_live := [asc ''sh-1'']\<rparr>,
      wo_pool = new_pool, wo_inventory = \<lparr>in_hosts = [], in_config_hosts = []\<rparr>,
      wo_known_hosts = NoFile, wo_transports = [], wo_os = [], wo_dialled = [], wo_commands = []\<rparr>"

definition sample_tools :: "policy \<Rightarrow> world relay" where
  "sample_tools p =
     \<lparr>rl_settings = default_settings, rl_policy = p, rl_broker = None,
      rl_audit = audit_init (asc ''jsonl'') True None [] (asc ''audit.jsonl'') [],
      rl_metrics = metrics_init, rl_world = sample_world\<rparr>"

definition sample_caller :: caller where
  "sample_caller = \<lparr>cl_request_id = [], cl_client_id = []\<rparr>"


end
