(* ===== verification/ToolsProps.thy ===== *)
theory ToolsProps
  imports Diagnostics ShelltoolsProps SessionToolProps PolicyTextProps SshConnectProps
begin

text \<open>
  What holds of whole tool calls: the components of a call (the policy text, the runner, the
  connection policy, the registry, the local run) composed the way \<open>build_server\<close> composes them.
\<close>

subsection \<open>Refused calls\<close>

text \<open>The call changed nothing but the audit trail and the counters, and says it was denied; or
  its prelude raised and it changed nothing at all.\<close>

definition refused :: "world relay \<Rightarrow> tool_reply \<times> world relay \<Rightarrow> bool" where
  "refused s r \<longleftrightarrow>
     rl_world (snd r) = rl_world s \<and> rl_broker (snd r) = rl_broker s \<and>
     (case fst r of
        Escaped _ \<Rightarrow> snd r = s
      | Replied (Reply txt) \<Rightarrow> starts_with (asc ''[DENIED tier '') txt
      | Replied Propagated \<Rightarrow> False)"

lemma submit_not_admitted:
  assumes "\<And>cc. c = Inr cc \<Longrightarrow> \<not> admitted E cc s"
  shows "refused s (submit E c f s)"
proof (cases c)
  case (Inl e)
  then show ?thesis by (simp add: submit_def refused_def)
next
  case (Inr cc)
  obtain t why where r: "\<And>work. relay_run E cc work s = refuse E cc t why s"
    using run_refused [OF assms [OF Inr]] by blast
  show ?thesis
    by (simp add: submit_def Inr r refuse_def Let_def refused_def denied_body_def)
qed

lemma denied_not_admitted:
  "hits (deny (rl_policy s)) (probe_text (c_tool c) (c_policy_text c)) \<Longrightarrow> \<not> admitted E c s"
  by (simp add: admitted_def decision_def check_allowed_iff)

subsection \<open>Addresses in the probe\<close>

lemma dropWhile_into:
  assumes "x \<noteq> []" "\<not> P (hd x)"
  shows "\<exists>u'. dropWhile P (u @ x @ v) = u' @ x @ v"
proof (cases "\<forall>c\<in>set u. P c")
  case True
  then have "dropWhile P (u @ x @ v) = dropWhile P (x @ v)" by (simp add: dropWhile_append)
  also have "\<dots> = x @ v" using assms by (cases x) auto
  finally show ?thesis by (metis append_Nil)
next
  case False
  then show ?thesis by (auto simp: dropWhile_append)
qed

lemma has_sub_strip_keeps:
  assumes "has_sub x s" "x \<noteq> []" "\<not> is_space (hd x)" "\<not> is_space (last x)"
  shows "has_sub x (strip s)"
proof -
  obtain u v where s: "s = u @ x @ v" using assms(1) unfolding has_sub_iff by blast
  obtain u' where l: "lstrip s = u' @ x @ v"
    using dropWhile_into [OF assms(2), of is_space u v] assms(3) by (auto simp: lstrip_def s)
  have h: "rev x \<noteq> []" "\<not> is_space (hd (rev x))" using assms(2,4) by (simp_all add: hd_rev)
  obtain v' where r: "dropWhile is_space (rev v @ rev x @ rev u') = v' @ rev x @ rev u'"
    using dropWhile_into [where P = is_space, OF h] by blast
  have "strip s = u' @ x @ rev v'"
    unfolding strip_def l rstrip_def by (simp add: r)
  then show ?thesis unfolding has_sub_iff by blast
qed

lemma ntoa_chars:
  assumes "bs \<noteq> []"
  shows "inet_ntoa bs \<noteq> []" "c \<in> set (inet_ntoa bs) \<Longrightarrow> \<not> is_space c"
proof -
  show "inet_ntoa bs \<noteq> []"
    using assms by (cases bs rule: remdups_adj.cases) (simp_all add: inet_ntoa_def digits_nonempty)
  assume "c \<in> set (inet_ntoa bs)"
  then have "c = 46 \<or> (\<exists>b\<in>set bs. c \<in> set (digits b))"
    using set_join [of c "[46]" "map digits bs"] by (auto simp: inet_ntoa_def)
  then show "\<not> is_space c"
  proof
    assume "c = 46"
    then show ?thesis by (simp add: is_space_def)
  next
    assume "\<exists>b\<in>set bs. c \<in> set (digits b)"
    then have "is_digit c" using digits_are_digits by blast
    then show ?thesis by (auto simp: is_space_def is_digit_def)
  qed
qed

lemma address_in_probe:
  assumes "parts_fit parts" "has_sub (inet_ntoa (address_bytes parts)) p"
  shows "has_sub (inet_ntoa (address_bytes parts)) (probe_text tool p)"
proof -
  let ?ip = "inet_ntoa (address_bytes parts)"
  have "address_bytes parts \<noteq> []"
    using assms(1) by (cases "5 - length parts") (auto simp: address_bytes_def parts_fit_def)
  note n = ntoa_chars [OF this]
  have "has_sub ?ip (tool @ asc '' '' @ p)" using assms(2) by (simp add: has_sub_intros)
  then show ?thesis
    unfolding probe_text_def using n by (intro has_sub_strip_keeps) simp_all
qed

lemma shown_probe:
  assumes "shown [inet_ntoa (address_bytes parts)] p" "parts_fit parts"
    and "\<forall>probe. has_sub (inet_ntoa (address_bytes parts)) probe \<longrightarrow> hits (deny (rl_policy s)) probe"
    and "\<And>x. c_policy_text (mk x) = x"
  shows "refused s (submit E (map_sum (\<lambda>e. e) mk p) f s)"
proof (rule submit_not_admitted)
  fix cc
  assume "map_sum (\<lambda>e. e) mk p = Inr cc"
  then obtain x where x: "p = Inr x" "cc = mk x" by (cases p) auto
  then have "has_sub (inet_ntoa (address_bytes parts)) x" using assms(1) by (simp add: shown_def)
  from address_in_probe [OF assms(2) this]
  show "\<not> admitted E cc s" using assms(3,4) x(2) by (intro denied_not_admitted) simp
qed

lemma plain_call_text [simp]: "c_policy_text (plain_call cl tool args p n) = p"
  by (simp add: plain_call_def)



subsection \<open>Host keys\<close>

text \<open>The host key mode a record states is the one the pool uses for the connection.\<close>

theorem recorded_mode_is_enforced:
  assumes "plan_connect repr s iv (st_host t) (target_kwargs t) = Inr cp"
  shows "dget (ssh_target_audit repr s iv t) (asc ''known_hosts'') = Some (JStr (cp_mode cp))"
proof -
  have k: "ck_known_hosts (target_kwargs t) = st_known_hosts t"
    by (simp add: target_kwargs_def connect_kwargs_of_def)
  obtain m where "py_or (JStr (st_known_hosts t))
      (py_or (hs_known_hosts (resolve iv (st_host t))) (JStr (ssh_known_hosts s))) = JStr m"
    "cp_mode cp = lower m"
    using plan_connect_Inr [OF assms] k by metis
  then show ?thesis
    by (simp add: ssh_target_audit_def effective_known_hosts_def py_str_def asc_eq_iff)
qed

lemma recorded_mode_is_enforced_witness:
  "\<exists>cp. plan_connect (\<lambda>_. []) default_settings \<lparr>in_hosts = [], in_config_hosts = []\<rparr> (asc ''db1'')
      (target_kwargs \<lparr>st_host = asc ''db1'', st_user = [], st_port = 0, st_key_path = [],
        st_known_hosts = asc ''Strict'', st_jump = []\<rparr>) = Inr cp \<and>
    dget (ssh_target_audit (\<lambda>_. []) default_settings \<lparr>in_hosts = [], in_config_hosts = []\<rparr>
      \<lparr>st_host = asc ''db1'', st_user = [], st_port = 0, st_key_path = [],
        st_known_hosts = asc ''Strict'', st_jump = []\<rparr>) (asc ''known_hosts'') = Some (JStr (cp_mode cp))"
proof -
  let ?t = "\<lparr>st_host = asc ''db1'', st_user = [], st_port = 0, st_key_path = [],
        st_known_hosts = asc ''Strict'', st_jump = []\<rparr>"
  let ?iv = "\<lparr>in_hosts = [], in_config_hosts = []\<rparr>"
  have "case plan_connect (\<lambda>_. []) default_settings ?iv (asc ''db1'') (target_kwargs ?t) of
      Inl _ \<Rightarrow> False | Inr _ \<Rightarrow> True"
    by code_simp
  then obtain cp where
    cp: "plan_connect (\<lambda>_. []) default_settings ?iv (st_host ?t) (target_kwargs ?t) = Inr cp"
    by (auto split: sum.splits)
  from recorded_mode_is_enforced [OF cp] cp show ?thesis by auto
qed

subsection \<open>Key scans\<close>

lemma quote_show_int [simp]: "shlex_quote (show_int n) = show_int n"
proof -
  have d: "list_all quote_safe (digits k)" for k
    using digits_are_digits by (auto simp: list_all_iff is_digit_def quote_safe_def)
  have "list_all quote_safe (show_int n)" "show_int n \<noteq> []"
    using d digits_nonempty by (auto simp: show_int_def quote_safe_def)
  then show ?thesis by (simp add: shlex_quote_def)
qed

lemma keyscan_command_quoted:
  "keyscan_command tmo types port hosts = join [32] (map shlex_quote
     ([asc ''ssh-keyscan'', asc ''-T'', show_int tmo, asc ''-t'', join [44] types, asc ''-p'',
       show_int port, asc ''--''] @ hosts))"
proof -
  have "shlex_quote (asc ''ssh-keyscan'') = asc ''ssh-keyscan''" "shlex_quote (asc ''-T'') = asc ''-T''"
    "shlex_quote (asc ''-t'') = asc ''-t''" "shlex_quote (asc ''-p'') = asc ''-p''"
    "shlex_quote (asc ''--'') = asc ''--''" by code_simp+
  then show ?thesis by (simp add: keyscan_command_def)
qed

text \<open>C14: \<open>ssh_keyscan\<close> starts at most the one scan it was asked for. Arguments that do not
  validate run nothing; otherwise one child is started on a command line in which a shell finds
  nothing to interpret, whose words are exactly \<open>ssh-keyscan\<close> with the timeout, the key types and
  the port, then \<open>--\<close> and the hosts.\<close>

theorem keyscan_runs_only_its_scan:
  "case keyscan_error (ot_repr X) (host_tokens hosts) port (key_type_list key_types) of
     Some txt \<Rightarrow> ssh_keyscan_work X s hosts port key_types timeout w = (Done txt None, w)
   | None \<Rightarrow> \<exists>oc rq calls cmd.
       ssh_keyscan_work X s hosts port key_types timeout w =
         (oc, w\<lparr>wo_os := wo_os w @ Spawn rq # calls\<rparr>) \<and>
       (\<forall>q. Spawn q \<notin> set calls) \<and>
       sr_program rq = (case ot_monitor X of
           Armed wrap \<Rightarrow> Exec (wrap [asc ''/bin/sh'', asc ''-c'', cmd]) | _ \<Rightarrow> Shell cmd) \<and>
       inert_words cmd = Some ([asc ''ssh-keyscan'', asc ''-T'', show_int (clamp timeout 1 60),
         asc ''-t'', join [44] (key_type_list key_types), asc ''-p'', show_int port, asc ''--''] @
         host_tokens hosts)"
proof (cases "keyscan_error (ot_repr X) (host_tokens hosts) port (key_type_list key_types)")
  case (Some msg)
  then show ?thesis by (simp add: ssh_keyscan_work_def Let_def)
next
  case None
  let ?cmd = "keyscan_command (clamp timeout 1 60) (key_type_list key_types) port (host_tokens hosts)"
  let ?a = "\<lparr>ca_command = ?cmd, ca_timeout = clamp timeout 1 60, ca_cwd = [], ca_stdin = [],
    ca_merge_stderr = True, ca_use_shell = True, ca_env_json = [], ca_output_cap = Some (max_output_hard s)\<rparr>"
  obtain rq where r: "run_command (ot_repr X) (ot_environ X) (ot_monitor X) (ot_child X) ?a =
      spawn_and_drive (ot_monitor X) (ot_child X) rq None (clamp timeout 1 60) (Some (max_output_hard s))"
    and p: "sr_program rq = (case ot_monitor X of
        Armed wrap \<Rightarrow> Exec (wrap [asc ''/bin/sh'', asc ''-c'', ?cmd]) | _ \<Rightarrow> Shell ?cmd)"
    by (simp add: run_command_def Let_def split: monitor_use.splits)
  obtain oc calls where d: "drive None (clamp timeout 1 60) (sr_merge rq) (Some (max_output_hard s))
      (ot_child X rq) = (oc, calls)" by fastforce
  have w: "ssh_keyscan_work X s hosts port key_types timeout w =
      (oc, w\<lparr>wo_os := wo_os w @ Spawn rq # (calls @ stop_monitor (ot_monitor X))\<rparr>)"
    using None r d by (simp add: ssh_keyscan_work_def Let_def local_run_def spawn_and_drive_def)
  have nq: "Spawn q \<notin> set (calls @ stop_monitor (ot_monitor X))" for q
    using drive_calls(1) [OF d] by (simp add: stop_monitor_def split: monitor_use.splits)
  have "inert_words ?cmd = Some ([asc ''ssh-keyscan'', asc ''-T'', show_int (clamp timeout 1 60),
         asc ''-t'', join [44] (key_type_list key_types), asc ''-p'', show_int port, asc ''--''] @
         host_tokens hosts)"
    unfolding keyscan_command_quoted by (rule inert_words_quoted)
  with w nq p show ?thesis unfolding None option.case by blast
qed

end
