(* ===== verification/FleetProps.thy ===== *)
theory FleetProps
  imports ToolsProps SshPoolProps
begin

text \<open>
  The tools that address many hosts: what a probe of the fleet may reach in the read-only mode.
\<close>

subsection \<open>What a probe dials\<close>

definition dials_only :: "(pystr \<Rightarrow> bool) \<Rightarrow> world \<Rightarrow> world \<Rightarrow> bool" where
  "dials_only P w w' \<longleftrightarrow> wo_inventory w' = wo_inventory w \<and>
     (\<exists>new. wo_dialled w' = wo_dialled w @ new \<and> list_all (\<lambda>(hn, opts). P hn) new)"

lemma dials_only_refl: "dials_only P w w"
  by (simp add: dials_only_def)

lemma dials_only_trans: "dials_only P w w' \<Longrightarrow> dials_only P w' w'' \<Longrightarrow> dials_only P w w''"
  by (auto simp: dials_only_def)

lemma dials_only_same:
  "wo_inventory w' = wo_inventory w \<Longrightarrow> wo_dialled w' = wo_dialled w \<Longrightarrow> dials_only P w w'"
  by (simp add: dials_only_def)

lemma dial_dials: "P (cp_hostname cp) \<Longrightarrow> dials_only P w (snd (ssh_dial X s cp tmo f w))"
  by (simp add: ssh_dial_def dials_only_def with_pool_def Let_def split: sum.splits answer.splits prod.splits)

lemma connect_dials:
  assumes "P (hs_hostname (resolve (wo_inventory w) target))"
  shows "dials_only P w (snd (ssh_connect X s target kw w))"
proof (cases "plan_connect (ot_repr X) s (wo_inventory w) target kw")
  case (Inl e)
  then show ?thesis by (simp add: ssh_connect_def dials_only_refl)
next
  case (Inr cp)
  have P: "P (cp_hostname cp)" using plan_connect_Inr [OF Inr] assms by metis
  obtain cl p where c: "connect_begin (of_int (ssh_idle_timeout s)) (cp_key cp) (ot_now X) (wo_pool w) = (cl, p)"
    by fastforce
  have same: "dials_only P w (w\<lparr>wo_pool := p\<rparr>)" by (rule dials_only_same) simp_all
  show ?thesis
  proof (cases cl)
    case (Own f)
    have "dials_only P w (snd (ssh_dial X s cp (ck_connect_timeout kw) f (w\<lparr>wo_pool := p\<rparr>)))"
      using dials_only_trans [OF same dial_dials [where P = P, OF P]] .
    then show ?thesis by (simp add: ssh_connect_def Inr c Own)
  qed (simp_all add: ssh_connect_def Inr c same)
qed

lemma run_dials:
  assumes "P (hs_hostname (resolve (wo_inventory w) target))"
  shows "dials_only P w (snd (ssh_run X s target command tmo kw cap w))"
proof -
  obtain a w1 where c: "ssh_connect X s target kw w = (a, w1)" by fastforce
  have d: "dials_only P w w1" using connect_dials [where P = P, OF assms, of X s kw] by (simp add: c)
  have "dials_only P w1 (snd (ssh_run X s target command tmo kw cap w))"
    by (cases a) (simp_all add: ssh_run_def c dials_only_def pinned_def split: prod.splits)
  with d show ?thesis by (rule dials_only_trans)
qed

lemma on_hosts_dials:
  assumes "\<And>n w. n \<in> set names \<Longrightarrow> wo_inventory w = iv \<Longrightarrow> dials_only P w (snd (f n w))" "wo_inventory w = iv"
  shows "dials_only P w (snd (on_hosts f names w))"
  using assms
proof (induction names arbitrary: w)
  case Nil
  then show ?case by (simp add: dials_only_refl)
next
  case (Cons n ns)
  obtain oc w1 where f: "f n w = (oc, w1)" by fastforce
  have d: "dials_only P w w1" using Cons.prems(1) [of n w] Cons.prems(2) f by simp
  then have iv: "wo_inventory w1 = iv" using Cons.prems(2) by (simp add: dials_only_def)
  have "dials_only P w1 (snd (on_hosts f ns w1))"
    using Cons.IH [OF _ iv] Cons.prems(1) by simp
  from dials_only_trans [OF d this] d show ?case
    by (cases oc) (simp_all add: f case_prod_beta)
qed

text \<open>A target the inventory knows resolves to a host of the inventory: the entry it names, or
  the entry whose host name it is, less a \<open>user@\<close> written there.\<close>

definition inventory_target :: "inventory_state \<Rightarrow> pystr \<Rightarrow> bool" where
  "inventory_target iv hn \<longleftrightarrow> list_ex (\<lambda>(k, h). hn = hs_hostname h \<or>
     (case partition_on 64 (hs_hostname h) of (u, sep, rest) \<Rightarrow> sep \<and> hn = rest)) (in_hosts iv)"

lemma known_resolves:
  assumes "knows iv target"
  shows "inventory_target iv (hs_hostname (resolve iv target))"
proof (cases "dget (in_hosts iv) target")
  case (Some h)
  then have "(target, h) \<in> set (in_hosts iv)" by (rule map_of_SomeD)
  then show ?thesis using Some by (auto simp: inventory_target_def resolve_def list_ex_iff)
next
  case None
  then obtain k h where h: "(k, h) \<in> set (in_hosts iv)" "hs_hostname h = target"
    using assms by (auto simp: knows_def list_ex_iff)
  obtain u sep rest where p: "partition_on 64 target = (u, sep, rest)" by (cases "partition_on 64 target") auto
  have "hs_hostname (resolve iv target) = (if sep then rest else target)"
    using None by (simp add: resolve_def p explicit_spec_def split: bool.splits)
  then show ?thesis
    unfolding inventory_target_def list_ex_iff
    by (intro bexI [OF _ h(1)]) (simp add: h(2) p split: if_splits)
qed

lemma own_names_known:
  assumes "\<forall>(k, h) \<in> set (in_hosts iv). hs_name h = k"
    and "n \<in> set (map hs_name (inventory_hosts iv))"
  shows "knows iv n"
proof -
  obtain k h where "(k, h) \<in> set (in_hosts iv)" "n = hs_name h"
    using assms(2) by (auto simp: inventory_hosts_def)
  then have "n \<in> fst ` set (in_hosts iv)" using assms(1) by force
  then show ?thesis by (simp add: knows_def map_of_eq_None_iff)
qed

text \<open>Loading names every entry after its key.\<close>

definition named :: "(pystr, host_spec) dict \<Rightarrow> bool" where
  "named d \<longleftrightarrow> (\<forall>(k, h) \<in> set d. hs_name h = k)"

lemma named_dset: "named d \<Longrightarrow> hs_name h = k \<Longrightarrow> named (dset k h d)"
  by (fastforce simp: named_def dest: in_set_dset)

lemma flush_named:
  "flush_aliases cur as hosts = Inr r \<Longrightarrow> named hosts \<Longrightarrow> named r"
  by (induction cur as hosts rule: flush_aliases.induct)
     (auto simp: config_entry_def named_dset split: if_splits sum.splits)

lemma config_lines_named:
  "config_lines ls cs = Inr cs' \<Longrightarrow> named (cs_hosts cs) \<Longrightarrow> named (cs_hosts cs')"
proof (induction ls arbitrary: cs)
  case (Cons l ls)
  then obtain c1 where c1: "config_line l cs = Inr c1" "config_lines ls c1 = Inr cs'"
    by (auto split: sum.splits)
  have "named (cs_hosts c1)"
    using c1(1) Cons.prems(2)
    by (auto simp: config_line_def flush_def Let_def dest: flush_named split: if_splits prod.splits sum.splits)
  then show ?case using Cons.IH c1(2) by blast
qed simp

lemma inventory_named:
  "inventory_entries repr d out = Inr r \<Longrightarrow> named out \<Longrightarrow> named r"
  by (induction repr d out rule: inventory_entries.induct)
     (auto simp: inventory_entry_def named_dset split: json.splits sum.splits)

lemma load_named:
  assumes "load_inventory repr config json_file = Inr iv"
  shows "named (in_hosts iv)"
proof -
  obtain cfg where cfg: "parse_ssh_config config = Inr cfg"
    using assms by (auto simp: load_inventory_def split: sum.splits)
  have n: "named cfg"
    using cfg by (auto simp: parse_ssh_config_def flush_def named_def [of "[]"] split: file_state.splits sum.splits
        dest!: flush_named config_lines_named)
  have merge: "named c \<Longrightarrow> named d \<Longrightarrow> named (foldl (\<lambda>m (k, h). dset k h m) c d)" for c d
  proof (induction d arbitrary: c)
    case (Cons x d)
    obtain k h where x: "x = (k, h)" by fastforce
    have "hs_name h = k" "named d" using Cons.prems(2) by (simp_all add: x named_def)
    then have "named (dset k h c)" "named d" using named_dset [OF Cons.prems(1)] by blast+
    then show ?case using Cons.IH by (simp add: x)
  qed simp
  show ?thesis
  proof (cases json_file)
    case None
    then show ?thesis using assms cfg n by (auto simp: load_inventory_def)
  next
    case (Some f)
    then obtain d where d: "load_inventory_file repr f = Inr d"
        "in_hosts iv = foldl (\<lambda>m (k, h). dset k h m) cfg d"
      using assms cfg by (auto simp: load_inventory_def split: sum.splits)
    have "named d"
      using d(1) by (auto simp: load_inventory_file_def named_def [of "[]"]
          split: file_state.splits if_splits option.splits json.splits dest!: inventory_named)
    then show ?thesis using merge [OF n] d(2) by simp
  qed
qed

text \<open>C17: In the read-only mode a probe reaches the operator's own hosts only: with a loaded
  inventory, every host name \<open>ssh_check\<close> dials is that of an inventory entry, whatever hosts the
  caller lists.\<close>

theorem readonly_check_stays_inside:
  assumes "mode (rl_policy s) = asc ''readonly''"
    and "load_inventory repr config json_file = Inr (tool_inventory s)"
  shows "dials_only (inventory_target (tool_inventory s)) (rl_world s)
    (rl_world (snd (ssh_check X E cl hosts timeout s)))"
proof -
  let ?iv = "tool_inventory s" and ?P = "inventory_target (tool_inventory s)"
  have named: "\<forall>(k, h) \<in> set (in_hosts ?iv). hs_name h = k"
    using load_named [OF assms(2)] by (simp add: named_def)
  show ?thesis
  proof (cases "outside_inventory ?iv hosts")
    case True
    have "refused s (ssh_check X E cl hosts timeout s)"
      unfolding ssh_check_def
    proof (rule submit_not_admitted)
      fix cc
      assume "ssh_check_call X cl (rl_settings s) ?iv hosts = Inr cc"
      then have "c_min_tier cc = REVERSIBLE"
        using True by (cases "policy_text_ssh_check (ot_ip6 X) hosts") (auto simp: ssh_check_call_def)
      then show "\<not> admitted E cc s"
        using assms(1) by (auto simp: admitted_def decision_def check_allowed_iff max_def less_eq_tier_def)
    qed
    then show ?thesis by (simp add: refused_def dials_only_refl)
  next
    case False
    have known: "knows ?iv n" if "n \<in> set (target_names ?iv hosts)" for n
      using that False own_names_known [OF named]
      by (auto simp: target_names_def outside_inventory_def list_ex_iff split: if_splits)
    have work: "dials_only ?P (rl_world s) (snd (ssh_check_work X (rl_settings s) hosts timeout (rl_world s)))"
    proof -
      have "dials_only ?P (rl_world s) (snd (on_hosts (\<lambda>n. ssh_run X (rl_settings s) n (asc ''echo ok'') tmo
          (probe_kwargs tmo) (Some SSH_CHECK_PER_HOST_OUTPUT_CAP)) (target_names ?iv hosts) (rl_world s)))" for tmo
      proof (rule on_hosts_dials [where iv = ?iv])
        fix n and w :: world
        assume n: "n \<in> set (target_names ?iv hosts)" and w: "wo_inventory w = ?iv"
        have "?P (hs_hostname (resolve (wo_inventory w) n))"
          unfolding w by (rule known_resolves [OF known [OF n]])
        then show "dials_only ?P w (snd (ssh_run X (rl_settings s) n (asc ''echo ok'') tmo
            (probe_kwargs tmo) (Some SSH_CHECK_PER_HOST_OUTPUT_CAP) w))"
          by (rule run_dials)
      qed (simp add: tool_inventory_def)
      from this [of "clamp timeout 1 60"] show ?thesis
        unfolding ssh_check_work_def Let_def tool_inventory_def
        by (simp add: dials_only_refl case_prod_beta split: option.splits)
    qed
    show ?thesis
    proof (cases "ssh_check_call X cl (rl_settings s) ?iv hosts")
      case (Inl e)
      then show ?thesis by (simp add: ssh_check_def submit_def dials_only_refl)
    next
      case (Inr cc)
      let ?f = "ssh_check_work X (rl_settings s) hosts timeout"
      obtain oc w where f: "?f (rl_world s) = (oc, w)" by fastforce
      have "rl_world (snd (relay_run E cc (on_world ?f) s)) \<in> {rl_world s, w}"
        using run_world [of E cc ?f s] f by simp
      then show ?thesis
        using work f by (auto simp: ssh_check_def submit_def Inr dials_only_refl split: prod.splits)
    qed
  qed
qed

lemma readonly_check_stays_inside_witness:
  "dials_only (inventory_target \<lparr>in_hosts = [], in_config_hosts = []\<rparr>) sample_world
    (rl_world (snd (ssh_check sample_outside sample_env sample_caller (asc ''evil'') 5
       (sample_tools \<lparr>mode = asc ''readonly'', deny = None, allow = None\<rparr>))))"
proof -
  let ?s = "sample_tools \<lparr>mode = asc ''readonly'', deny = None, allow = None\<rparr>"
  have m: "mode (rl_policy ?s) = asc ''readonly''" by (simp add: sample_tools_def)
  have l: "load_inventory (\<lambda>_. []) NoFile None = Inr (tool_inventory ?s)"
    by (simp add: load_inventory_def parse_ssh_config_def tool_inventory_def sample_tools_def sample_world_def)
  show ?thesis
    using readonly_check_stays_inside [OF m l, of sample_outside sample_env sample_caller "asc ''evil''" 5]
    by (simp add: tool_inventory_def sample_tools_def sample_world_def)
qed

end
