(* ===== verification/FanoutProps.thy ===== *)
theory FanoutProps
  imports SshTools SshPoolProps
begin

text \<open>
  The budget arithmetic of \<open>ssh_fanout\<close>: when the structured result fits, that characters which
  JSON escapes defeat it, and that a host's output over its share is cut without a mark.
\<close>

subsection \<open>Lengths of JSON texts\<close>

text \<open>Characters \<open>json.dumps\<close> writes as they are.\<close>

definition plain_char :: "nat \<Rightarrow> bool" where
  "plain_char c \<longleftrightarrow> 32 \<le> c \<and> c < 127 \<and> c \<noteq> 34 \<and> c \<noteq> 92"

definition plain :: "pystr \<Rightarrow> bool" where
  "plain s \<longleftrightarrow> list_all plain_char s"

lemma plain_dump: "plain s \<Longrightarrow> dump_str True s = [34] @ s @ [34]"
proof -
  assume "plain s"
  then have "concat (map (esc_char True) s) = s"
    by (induction s) (auto simp: plain_def plain_char_def esc_char_def)
  then show ?thesis by (simp add: dump_str_def)
qed

lemma plain_ascii: "plain s \<Longrightarrow> utf8_encode s = s"
  by (rule asc_ascii_encode) (auto simp: plain_def plain_char_def list_all_iff)

lemma plain_asc [simp]:
  "plain (asc ''host'')" "plain (asc ''exit_code'')" "plain (asc ''output'')" "plain (asc ''command'')"
  "plain (asc ''concurrency'')" "plain (asc ''timeout'')" "plain (asc ''host_count'')"
  "plain (asc ''results'')"
  by code_simp+

definition code_json :: "int option \<Rightarrow> json" where
  "code_json code = (case code of None \<Rightarrow> JNull | Some c \<Rightarrow> JInt c)"

lemma length_row:
  assumes "plain name"
  shows "length (dumps fmt_default (fanout_row h name (Done out code))) =
     length name + length (dumps fmt_default (code_json code)) +
     length (dump_str True (truncate_str out h)) + 39"
  using assms
  by (cases code) (simp_all add: fanout_row_def fmt_default_def plain_dump code_json_def)

lemma length_items:
  "length (dumps_items fmt_default vs) \<le> sum_list (map (\<lambda>v. length (dumps fmt_default v) + 2) vs)"
  "sum_list (map (\<lambda>v. length (dumps fmt_default v)) vs) \<le> length (dumps_items fmt_default vs)"
  by (induction vs) (auto simp: fmt_default_def asc_def)

lemma length_payload:
  assumes "plain echo"
  shows "length (dumps fmt_default (fanout_payload echo conc tmo rows)) =
    length echo + length (show_int conc) + length (show_int tmo) + length (show_int (int (length rows))) +
    length (dumps_items fmt_default rows) + 76"
  using assms by (simp add: fanout_payload_def fmt_default_def plain_dump)

subsection \<open>When the result fits\<close>

text \<open>An answer of plain text within the host's share.\<close>

definition modest :: "int \<Rightarrow> pystr \<times> work_outcome \<Rightarrow> bool" where
  "modest h r \<longleftrightarrow> (case r of (name, oc) \<Rightarrow> plain name \<and> length name \<le> 128 \<and>
     (case oc of Done out code \<Rightarrow> plain out \<and> int (length out) \<le> h \<and>
         length (dumps fmt_default (code_json code)) \<le> 11
      | _ \<Rightarrow> False))"

lemma modest_row:
  assumes "modest h (name, oc)"
  shows "int (length (dumps fmt_default (fanout_row h name oc))) \<le> h + 180"
proof -
  obtain out code where oc: "oc = Done out code" "plain out" "int (length out) \<le> h"
      "length (dumps fmt_default (code_json code)) \<le> 11"
    using assms by (auto simp: modest_def split: work_outcome.splits)
  have n: "plain name" "length name \<le> 128" using assms by (auto simp: modest_def)
  have "truncate_str out h = out" using oc by (intro truncate_short) (simp add: plain_ascii)
  then have "length (dumps fmt_default (fanout_row h name oc)) \<le> 128 + 11 + (length out + 2) + 39"
    using n oc by (simp add: length_row plain_dump)
  then show ?thesis using oc(3) by linarith
qed

lemma rows_bound:
  assumes "list_all (\<lambda>v. int (length (dumps fmt_default v)) \<le> k) rows"
  shows "int (sum_list (map (\<lambda>v. length (dumps fmt_default v) + 2) rows)) \<le> int (length rows) * (k + 2)"
  using assms by (induction rows) (auto simp: algebra_simps)

text \<open>The arithmetic of the fan-out budget is right for plain output: when every host answers
  with plain ASCII text within its share and the budget covers the reserves and the smallest
  share, the whole JSON text is within the budget, so nothing is cut off it.\<close>

theorem fanout_fits:
  assumes "plain (command_echo B command)" "length names = length rs" "names \<noteq> []"
    and "list_all (modest (per_host_budget B command (length names))) (zip names rs)"
    and "1024 + int (length (command_echo B command)) + 328 * int (length names) \<le> B"
    and "length (show_int conc) + length (show_int tmo) + length (show_int (int (length names))) \<le> 900"
  shows "int (length (dumps fmt_default (fanout_payload (command_echo B command) conc tmo
      (map2 (fanout_row (per_host_budget B command (length names))) names rs)))) \<le> B"
proof -
  let ?h = "per_host_budget B command (length names)" and ?e = "command_echo B command"
  let ?n = "int (length names)"
  let ?rows = "map2 (fanout_row ?h) names rs"
  have len: "length ?rows = length names" using assms(2) by simp
  have pos: "0 < ?n" using assms(3) by simp
  have h: "?n * ?h \<le> B - (1024 + int (length ?e) + ?n * 200)"
  proof -
    let ?r = "B - (1024 + int (length ?e) + ?n * 200)"
    have r: "?r \<ge> 128 * ?n" using assms(5) by linarith
    have "?h = max 128 (?r div ?n)"
    proof -
      have "max ?r 0 = ?r" "int (max (length names) 1) = ?n" using r pos by linarith+
      then show ?thesis by (simp only: per_host_budget_def Let_def)
    qed
    moreover have "?n * (?r div ?n) \<le> ?r"
    proof -
      have "?n * (?r div ?n) + ?r mod ?n = ?r" by (rule mult_div_mod_eq)
      moreover have "0 \<le> ?r mod ?n" using pos by (rule pos_mod_sign)
      ultimately show ?thesis by linarith
    qed
    moreover have "?n * 128 \<le> ?r" using r by linarith
    ultimately show ?thesis by (cases "128 \<le> ?r div ?n") (simp_all add: max_def)
  qed
  have "list_all (\<lambda>v. int (length (dumps fmt_default v)) \<le> ?h + 180) ?rows"
    using assms(4) modest_row by (auto simp: list_all_iff)
  from rows_bound [OF this] have rows:
    "int (sum_list (map (\<lambda>v. length (dumps fmt_default v) + 2) ?rows)) \<le> ?n * (?h + 180 + 2)"
    unfolding len .
  have "?n * (?h + 180 + 2) \<le> B - (1024 + int (length ?e) + 18 * ?n)"
    using h by (simp add: algebra_simps)
  with rows length_items(1) [of ?rows] length_payload [OF assms(1), of conc tmo ?rows, unfolded len]
    assms(6) pos
  show ?thesis by linarith
qed

lemma fanout_fits_witness:
  "int (length (dumps fmt_default (fanout_payload (command_echo 65536 (asc ''id'')) 8 30
      (map2 (fanout_row (per_host_budget 65536 (asc ''id'') 1)) [asc ''web1''] [Done (asc ''ok'') (Some 0)])))) \<le> 65536"
proof -
  have e: "command_echo 65536 (asc ''id'') = asc ''id''"
    by (simp add: command_echo_def truncate_str_def asc_def utf8_encode_def encode_char_def)
  have "int (length (dumps fmt_default (fanout_payload (command_echo 65536 (asc ''id'')) 8 30
      (map2 (fanout_row (per_host_budget 65536 (asc ''id'') (length [asc ''web1'']))) [asc ''web1'']
        [Done (asc ''ok'') (Some 0)])))) \<le> 65536"
  proof (rule fanout_fits)
    show "plain (command_echo 65536 (asc ''id''))" unfolding e by code_simp
    show "list_all (modest (per_host_budget 65536 (asc ''id'') (length [asc ''web1''])))
        (zip [asc ''web1''] [Done (asc ''ok'') (Some 0)])"
      by (simp add: modest_def per_host_budget_def e Let_def code_json_def)
         (simp add: asc_def plain_def plain_char_def show_int_def digits.simps)
  qed (simp_all add: e show_int_def digits.simps)
  then show ?thesis by simp
qed

subsection \<open>When it does not\<close>

text \<open>Every control character is six characters of JSON: hosts that each fill their share with
  them make a text over the budget, which \<open>run\<close> then cuts.\<close>

lemma length_control: "length (dump_str True (replicate k 1)) = 6 * k + 2"
  by (induction k) (simp_all add: dump_str_def esc_char_def u_escape_def hex4_def)

theorem fanout_escapes_overflow:
  assumes "plain (command_echo B command)" "list_all plain names"
    and "B < 6 * per_host_budget B command (length names) * int (length names)"
  shows "B < int (length (dumps fmt_default (fanout_payload (command_echo B command) conc tmo
      (map2 (fanout_row (per_host_budget B command (length names))) names
         (replicate (length names)
            (Done (replicate (nat (per_host_budget B command (length names))) 1) (Some 0)))))))"
proof -
  let ?h = "per_host_budget B command (length names)"
  let ?oc = "Done (replicate (nat ?h) 1) (Some 0)"
  let ?rows = "map2 (fanout_row ?h) names (replicate (length names) ?oc)"
  have h: "128 \<le> ?h" by (simp add: per_host_budget_def Let_def)
  have t: "truncate_str (replicate (nat ?h) 1) ?h = replicate (nat ?h) 1"
    using h by (intro truncate_short) (simp add: asc_ascii_encode)
  have row: "6 * ?h \<le> int (length (dumps fmt_default (fanout_row ?h n ?oc)))" if "plain n" for n
    using h unfolding length_row [OF that] t length_control by simp
  have "int (length ns) * (6 * ?h) \<le> int (sum_list (map (\<lambda>v. length (dumps fmt_default v))
      (map2 (fanout_row ?h) ns (replicate (length ns) ?oc))))" if "list_all plain ns" for ns
    using that
  proof (induction ns)
    case (Cons n ns)
    have "6 * ?h \<le> int (length (dumps fmt_default (fanout_row ?h n ?oc)))"
      "int (length ns) * (6 * ?h) \<le> int (sum_list (map (\<lambda>v. length (dumps fmt_default v))
        (map2 (fanout_row ?h) ns (replicate (length ns) ?oc))))"
      using Cons row [of n] by simp_all
    then show ?case by (simp add: algebra_simps)
  qed simp
  from this [OF assms(2)] length_items(2) [of ?rows]
  have "B < int (length (dumps_items fmt_default ?rows))" using assms(3) by (simp add: mult.commute)
  then show ?thesis using length_payload [OF assms(1), of conc tmo ?rows] by linarith
qed

subsection \<open>Output over the share\<close>

lemma decode_plain_ascii: "list_all (\<lambda>b. b < 128) bs \<Longrightarrow> utf8_decode bs = bs"
  by (induction bs) simp_all

text \<open>A remote command's output over its budget is cut without a mark. The bytes kept are
  never more than the budget, so the truncation that would append \<open>[TRUNCATED ...]\<close> finds
  nothing to cut, in \<open>run\<close> and again in the fan-out: for ASCII output on stdout the answer is
  exactly its beginning.\<close>

theorem remote_output_cut_silently:
  assumes "0 < n" "list_all (\<lambda>b. b < 128) (concat chunks)" "n < length (concat chunks)"
  shows "run_output (Some (int n)) (map (Pair False) chunks) = take n (concat chunks) \<and>
    truncate_str (run_output (Some (int n)) (map (Pair False) chunks)) (int n) = take n (concat chunks)"
proof -
  let ?cs = "map (Pair False) chunks" and ?d = "drained (Some n) (map (Pair False) chunks)"
  have s: "stream False ?cs = concat chunks" "stream True ?cs = []"
    by (induction chunks) (simp_all add: stream_def)
  note st = drained_state [of n ?cs, unfolded s]
  have err: "dr_err ?d = []" using st by auto
  obtain j where j: "dr_out ?d = take j (concat chunks)" using st by blast
  have len: "length (dr_out ?d) = n" "dr_seen ?d = length (concat chunks)"
    using st err assms(3) by (simp_all add: min_def)
  then have out: "dr_out ?d = take n (concat chunks)"
    using j assms(3) by (metis length_take min.cobounded2 min_def take_all_iff nat_le_linear)
  have a: "list_all (\<lambda>b. b < 128) (take n (concat chunks))"
    using assms(2) unfolding list_all_iff by (blast dest: in_set_takeD)
  have t: "truncate_str (take n (concat chunks)) (int n) = take n (concat chunks)"
    using a by (intro truncate_short) (simp add: asc_ascii_encode list_all_iff)
  have "run_output (Some (int n)) ?cs = take n (concat chunks)"
    using assms(1,3) len(2) t
    by (simp add: run_output_def run_cap_def drained_def [symmetric] Let_def out err decode_plain_ascii [OF a])
  then show ?thesis using t by simp
qed

lemma remote_output_cut_silently_witness:
  "run_output (Some (int 2)) (map (Pair False) [asc ''ab'', asc ''cd'']) = asc ''ab''"
  using remote_output_cut_silently [of 2 "[asc ''ab'', asc ''cd'']"] by (simp add: asc_def)

end
