(* ===== verification/Evidence.thy ===== *)
theory Evidence
  imports AuditLog Numerals
begin

text \<open>
  \<open>src/deploy/evidence/relay-audit-evidence.py\<close>: the job that verifies every retained segment of
  the audit log, joins them at their rotation seams, and publishes an anchor. Files are inputs
  and the three files the job writes are its state. What the job takes of the standard library
  beyond text and JSON is \<open>evidence_lib\<close>: SHA-256, the reader of ISO timestamps, and the wording of
  its exceptions.
\<close>

subsection \<open>Library and settings\<close>

text \<open>\<open>el_iso\<close> is \<open>fromisoformat\<close> followed by \<open>astimezone(UTC).isoformat()\<close>, or \<open>None\<close> when it raises or
  the time has no zone; \<open>el_repr\<close> is \<open>str\<close> of a list or object, \<open>el_quote\<close> \<open>repr\<close> of a text; \<open>el_one\<close> holds of a float literal
  equal to 1, \<open>el_eq\<close> is \<open>==\<close> on values that are neither texts nor \<open>None\<close>.\<close>

record evidence_lib =
  el_sha :: "bytes \<Rightarrow> pystr"
  el_iso :: "pystr \<Rightarrow> pystr option"
  el_repr :: "json \<Rightarrow> pystr"
  el_quote :: "pystr \<Rightarrow> pystr"
  el_one :: "pystr \<Rightarrow> bool"
  el_eq :: "json \<Rightarrow> json \<Rightarrow> bool"
  el_text :: "bytes \<Rightarrow> pystr + pystr"
  el_json_error :: "pystr \<Rightarrow> pystr"
  el_codec_error :: "pystr \<Rightarrow> pystr"
  el_no_anchor :: pystr

definition ACTIVE_LOG :: pystr where
  "ACTIVE_LOG = asc ''audit.jsonl''"

definition MAX_RETAIN_SEGMENTS :: int where
  "MAX_RETAIN_SEGMENTS = 3660"

definition retain_segments :: "evidence_lib \<Rightarrow> pystr \<Rightarrow> int \<times> pystr option" where
  "retain_segments L env =
     (let raw = strip env in
      case py_int 10 raw of
        None \<Rightarrow> (90, Some (asc ''RELAY_AUDIT_RETAIN_SEGMENTS must be an integer, got '' @
                el_quote L raw))
      | Some n \<Rightarrow>
          if \<not> (1 \<le> n \<and> n \<le> MAX_RETAIN_SEGMENTS)
          then (90, Some (asc ''RELAY_AUDIT_RETAIN_SEGMENTS must be 1..'' @
                  show_int MAX_RETAIN_SEGMENTS @ asc '', got '' @ show_int n))
          else (n, None))"

definition max_checkpoints :: "int \<Rightarrow> nat" where
  "max_checkpoints retain = nat (max 512 (2 * retain + 16))"

text \<open>\<open>str(v)\<close>, and the text of \<open>None\<close> for an absent key.\<close>

definition py_text :: "evidence_lib \<Rightarrow> json \<Rightarrow> pystr" where
  "py_text L v = (case v of JList _ \<Rightarrow> el_repr L v | JObj _ \<Rightarrow> el_repr L v | _ \<Rightarrow> stringify v)"

definition get_or :: "json \<Rightarrow> record_fields \<Rightarrow> string \<Rightarrow> json" where
  "get_or d kvs k = (case dget kvs (asc k) of None \<Rightarrow> d | Some v \<Rightarrow> v)"

definition normalized_timestamp :: "evidence_lib \<Rightarrow> json \<Rightarrow> pystr option" where
  "normalized_timestamp L v = el_iso L (replace_char 90 (asc ''+00:00'') (py_text L v))"

text \<open>The hash of a record as read back, \<open>None\<close> if the text does not encode. Unlike the logger, the
  job encodes strictly.\<close>

definition canonical_chain :: "(bytes \<Rightarrow> pystr) \<Rightarrow> pystr \<Rightarrow> record_fields \<Rightarrow> pystr option" where
  "canonical_chain sha prev row =
     (let t = prev @ canonical_json (JObj (chain_body row)) in
      if list_ex is_surrogate t then None else Some (sha (utf8_encode t)))"

definition chain_epoch :: "evidence_lib \<Rightarrow> record_fields \<Rightarrow> pystr option" where
  "chain_epoch L first =
     (let t = asc ''relay-shell-genesis'' @ [0] @ py_text L (get_or (JStr []) first ''ts'') @ [0] @
            py_text L (get_or (JStr []) first ''chain'')
      in if list_ex is_surrogate t then None else Some (el_sha L (utf8_encode t)))"

subsection \<open>One segment\<close>

text \<open>How the reading of a file ends: at its end, with an \<open>OSError\<close>, which \<open>verify_segment\<close> catches,
  or with the \<open>EOFError\<close> or \<open>zlib.error\<close> of a damaged compressed file, which it does not.\<close>

datatype read_end = Complete | Caught pystr | Escaping pystr

text \<open>A file of the log directory: its (decompressed) bytes, how the reading of them ends, and, when
  it does not end well, how many lines had been handed out by then.\<close>

record seg_file =
  sf_name :: pystr
  sf_bytes :: bytes
  sf_end :: read_end
  sf_seen :: nat

definition seg_lines :: "evidence_lib \<Rightarrow> seg_file \<Rightarrow> pystr list \<times> read_end" where
  "seg_lines L f =
     (let strict = (sf_name f \<noteq> ACTIVE_LOG); t = utf8_decode (sf_bytes f); ls = text_lines t in
      if strict \<and> utf8_encode t \<noteq> sf_bytes f
      then (take (sf_seen f) ls, Caught (el_codec_error L t))
      else if sf_end f = Complete then (ls, Complete)
      else (take (sf_seen f) ls, sf_end f))"

record seg_state =
  sg_first :: "record_fields option"
  sg_last :: "record_fields option"
  sg_count :: nat
  sg_deferred :: "pystr option"
  sg_errors :: "pystr list"

definition seg_init :: seg_state where
  "seg_init = \<lparr>sg_first = None, sg_last = None, sg_count = 0, sg_deferred = None, sg_errors = []\<rparr>"

definition add_errors :: "pystr list \<Rightarrow> seg_state \<Rightarrow> seg_state" where
  "add_errors es st = st\<lparr>sg_errors := sg_errors st @ es\<rparr>"

text \<open>A deferred parse error is real once another line follows it.\<close>

definition flush_deferred :: "seg_state \<Rightarrow> seg_state" where
  "flush_deferred st =
     (case sg_deferred st of None \<Rightarrow> st | Some m \<Rightarrow> (add_errors [m] st)\<lparr>sg_deferred := None\<rparr>)"

definition seq_text :: "record_fields \<Rightarrow> pystr" where
  "seq_text row = stringify (the (dget row (asc ''seq'')))"

definition link_errors :: "pystr \<Rightarrow> record_fields \<Rightarrow> record_fields \<Rightarrow> pystr list" where
  "link_errors loc lst row =
     (if seq_of row \<noteq> map_option (\<lambda>s. s + 1) (seq_of lst)
      then [loc @ asc ''sequence '' @ seq_text row @ asc '' follows '' @ seq_text lst] else []) @
     (if prev_of row \<noteq> chain_of lst then [loc @ asc ''previous hash mismatch''] else [])"

text \<open>One chained record; \<open>None\<close> when its hash cannot be computed, which ends the segment.\<close>

definition seg_record ::
  "(bytes \<Rightarrow> pystr) \<Rightarrow> pystr \<Rightarrow> record_fields \<Rightarrow> seg_state \<Rightarrow> seg_state option" where
  "seg_record sha loc row st =
     (case canonical_chain sha (the (prev_of row)) row of
        None \<Rightarrow> None
      | Some h \<Rightarrow>
          (let st = (if Some h \<noteq> chain_of row
                     then add_errors [loc @ asc ''chain hash mismatch''] st else st);
               st = (case sg_last st of None \<Rightarrow> st
                     | Some lst \<Rightarrow> add_errors (link_errors loc lst row) st)
           in Some (st\<lparr>sg_first := (case sg_first st of None \<Rightarrow> Some row | Some r \<Rightarrow> Some r),
                       sg_last := Some row, sg_count := sg_count st + 1\<rparr>)))"

definition line_where :: "pystr \<Rightarrow> nat \<Rightarrow> pystr" where
  "line_where name n = name @ asc '':'' @ show_int (int n) @ asc '': ''"

text \<open>The loop over the lines; the second component is the \<open>UnicodeEncodeError\<close> that ended it.\<close>

fun scan_lines ::
  "evidence_lib \<Rightarrow> pystr \<Rightarrow> nat \<Rightarrow> pystr list \<Rightarrow> seg_state \<Rightarrow> seg_state \<times> pystr option" where
  "scan_lines L name n [] st = (st, None)"
| "scan_lines L name n (raw # rest) st =
     (if strip raw = [] then scan_lines L name (n + 1) rest st
      else (let st = flush_deferred st in
        case loads raw of
          None \<Rightarrow>
            (let m = line_where name n @ asc ''invalid JSON: '' @ el_json_error L raw in
             scan_lines L name (n + 1) rest
               (if name = ACTIVE_LOG then st\<lparr>sg_deferred := Some m\<rparr> else add_errors [m] st))
        | Some v \<Rightarrow>
            if \<not> is_chained v then
              scan_lines L name (n + 1) rest
                (if sg_first st \<noteq> None
                 then add_errors [line_where name n @ asc ''unchained record in chained region''] st
                 else st)
            else (case seg_record (el_sha L) (line_where name n) (fields_of v) st of
                None \<Rightarrow> (st, Some (el_codec_error L raw))
              | Some st' \<Rightarrow> scan_lines L name (n + 1) rest st')))"

text \<open>\<open>Inl\<close> is an exception that leaves the function.\<close>

definition verify_segment :: "evidence_lib \<Rightarrow> seg_file \<Rightarrow> pystr + seg_state" where
  "verify_segment L f =
     (case seg_lines L f of (ls, fin) \<Rightarrow>
        (case scan_lines L (sf_name f) 1 ls seg_init of
           (st, Some e) \<Rightarrow> Inr (add_errors [sf_name f @ asc '': read error: '' @ e] st)
         | (st, None) \<Rightarrow>
             (case fin of
                Complete \<Rightarrow> Inr st
              | Caught e \<Rightarrow> Inr (add_errors [sf_name f @ asc '': read error: '' @ e] st)
              | Escaping e \<Rightarrow> Inl e)))"

definition torn_tail :: "seg_state \<Rightarrow> bool" where
  "torn_tail st \<longleftrightarrow> sg_deferred st \<noteq> None"

subsection \<open>The approval ledger\<close>

text \<open>The ledger is absent, cannot be read, or has an owner, a mode and contents.\<close>

datatype ledger_file = NoLedger | NoAccess pystr | Ledger int nat bytes

record approvals =
  ap_resets :: "(pystr, pystr \<times> pystr) dict"
  ap_heads :: "(int \<times> pystr, pystr \<times> pystr \<times> pystr) dict"
  ap_digest :: "pystr option"
  ap_error :: "pystr option"

definition json_of_bytes :: "evidence_lib \<Rightarrow> bytes \<Rightarrow> pystr + json" where
  "json_of_bytes L raw =
     (case el_text L raw of
        Inl e \<Rightarrow> Inl e
      | Inr t \<Rightarrow> (case loads t of None \<Rightarrow> Inl (el_json_error L t) | Some v \<Rightarrow> Inr v))"

text \<open>\<open>v == 1\<close>\<close>

fun is_one :: "evidence_lib \<Rightarrow> json \<Rightarrow> bool" where
  "is_one L (JInt i) \<longleftrightarrow> i = 1"
| "is_one L (JBool b) \<longleftrightarrow> b"
| "is_one L (JFloat t) \<longleftrightarrow> el_one L t"
| "is_one L _ \<longleftrightarrow> False"

definition hex64 :: "pystr \<Rightarrow> bool" where
  "hex64 s \<longleftrightarrow> length s = 64 \<and> list_all (\<lambda>c. c \<in> set (asc ''0123456789abcdef'')) s"

definition entry_at :: "string \<Rightarrow> nat \<Rightarrow> string \<Rightarrow> pystr" where
  "entry_at what i why = asc what @ [91] @ show_int (int i) @ [93] @ asc why"

definition reason_of :: "record_fields \<Rightarrow> pystr option" where
  "reason_of kvs =
     (case dget kvs (asc ''reason'') of
        Some (JStr s) \<Rightarrow> if strip s = [] then None else Some (strip s)
      | _ \<Rightarrow> None)"

fun read_resets ::
  "evidence_lib \<Rightarrow> nat \<Rightarrow> json list \<Rightarrow> (pystr, pystr \<times> pystr) dict \<Rightarrow>
   pystr + (pystr, pystr \<times> pystr) dict" where
  "read_resets L i [] acc = Inr acc"
| "read_resets L i (JObj kvs # rest) acc =
     (case (normalized_timestamp L (get_or JNull kvs ''first_ts''),
            normalized_timestamp L (get_or JNull kvs ''approved_at''), reason_of kvs) of
        (None, _, _) \<Rightarrow> Inl (entry_at ''approved_resets'' i ''.first_ts must be timezone-aware'')
      | (Some ft, None, _) \<Rightarrow>
          Inl (entry_at ''approved_resets'' i ''.approved_at must be timezone-aware'')
      | (Some ft, Some aa, None) \<Rightarrow>
          Inl (entry_at ''approved_resets'' i ''.reason must be non-empty'')
      | (Some ft, Some aa, Some r) \<Rightarrow>
          if dget acc ft \<noteq> None then Inl (asc ''duplicate approved reset timestamp: '' @ ft)
          else read_resets L (i + 1) rest (dset ft (aa, r) acc))"
| "read_resets L i (v # rest) acc = Inl (entry_at ''approved_resets'' i '' must be an object'')"

text \<open>The integer of a value that is one and not a boolean.\<close>

fun strict_int :: "json option \<Rightarrow> int option" where
  "strict_int (Some (JInt i)) = Some i"
| "strict_int _ = None"

definition head_epoch :: "record_fields \<Rightarrow> pystr option" where
  "head_epoch kvs =
     (case dget kvs (asc ''epoch'') of
        None \<Rightarrow> Some []
      | Some JNull \<Rightarrow> Some []
      | Some (JStr e) \<Rightarrow> if hex64 e then Some e else None
      | _ \<Rightarrow> None)"

fun read_heads ::
  "evidence_lib \<Rightarrow> nat \<Rightarrow> json list \<Rightarrow> (int \<times> pystr, pystr \<times> pystr \<times> pystr) dict \<Rightarrow>
   pystr + (int \<times> pystr, pystr \<times> pystr \<times> pystr) dict" where
  "read_heads L i [] acc = Inr acc"
| "read_heads L i (JObj kvs # rest) acc =
     (case strict_int (dget kvs (asc ''first_seq'')) of
        None \<Rightarrow> Inl (entry_at ''approved_heads'' i ''.first_seq must be an integer >= 1'')
      | Some s \<Rightarrow>
          if s < 1 then Inl (entry_at ''approved_heads'' i ''.first_seq must be an integer >= 1'')
          else (case prev_of kvs of
              None \<Rightarrow> Inl (entry_at ''approved_heads'' i ''.prev must be 64 lowercase hex chars'')
            | Some p \<Rightarrow>
                if \<not> hex64 p
                then Inl (entry_at ''approved_heads'' i ''.prev must be 64 lowercase hex chars'')
                else (case (normalized_timestamp L (get_or JNull kvs ''approved_at''), reason_of kvs) of
                    (None, _) \<Rightarrow>
                      Inl (entry_at ''approved_heads'' i ''.approved_at must be timezone-aware'')
                  | (Some aa, None) \<Rightarrow>
                      Inl (entry_at ''approved_heads'' i ''.reason must be non-empty'')
                  | (Some aa, Some r) \<Rightarrow>
                      if dget acc (s, p) \<noteq> None
                      then Inl (asc ''duplicate approved head: seq '' @ show_int s @ asc '' prev '' @ p)
                      else (case head_epoch kvs of
                          None \<Rightarrow>
                            Inl (entry_at ''approved_heads'' i ''.epoch must be 64 lowercase hex chars'')
                        | Some e \<Rightarrow> read_heads L (i + 1) rest (dset (s, p) (aa, r, e) acc)))))"
| "read_heads L i (v # rest) acc = Inl (entry_at ''approved_heads'' i '' must be an object'')"

definition parse_ledger ::
  "evidence_lib \<Rightarrow> json \<Rightarrow>
   pystr + (pystr, pystr \<times> pystr) dict \<times> (int \<times> pystr, pystr \<times> pystr \<times> pystr) dict" where
  "parse_ledger L doc =
     (case doc of
        JObj kvs \<Rightarrow>
          if \<not> is_one L (get_or JNull kvs ''version'')
          then Inl (asc ''approval ledger must be an object with version 1'')
          else (case dget kvs (asc ''approved_resets'') of
              Some (JList es) \<Rightarrow>
                (case read_resets L 0 es [] of
                   Inl e \<Rightarrow> Inl e
                 | Inr resets \<Rightarrow>
                     (case get_or (JList []) kvs ''approved_heads'' of
                        JList hs \<Rightarrow> map_sum (\<lambda>e. e) (Pair resets) (read_heads L 0 hs [])
                      | _ \<Rightarrow> Inl (asc ''approved_heads must be a list'')))
            | _ \<Rightarrow> Inl (asc ''approved_resets must be a list''))
      | _ \<Rightarrow> Inl (asc ''approval ledger must be an object with version 1''))"

text \<open>The mode bits \<open>S_IWGRP\<close> and \<open>S_IWOTH\<close>.\<close>

definition others_write :: "nat \<Rightarrow> bool" where
  "others_write mode \<longleftrightarrow> mode div 16 mod 2 = 1 \<or> mode div 2 mod 2 = 1"

definition load_approvals :: "evidence_lib \<Rightarrow> pystr \<Rightarrow> ledger_file \<Rightarrow> approvals" where
  "load_approvals L path f =
     (let invalid = (\<lambda>e. \<lparr>ap_resets = [], ap_heads = [], ap_digest = None,
            ap_error = Some (asc ''invalid approval ledger '' @ path @ asc '': '' @ e)\<rparr>) in
      case f of
        NoLedger \<Rightarrow> \<lparr>ap_resets = [], ap_heads = [], ap_digest = None, ap_error = None\<rparr>
      | NoAccess e \<Rightarrow> invalid e
      | Ledger uid mode raw \<Rightarrow>
          if uid \<noteq> 0 then invalid (asc ''approval ledger must be owned by root'')
          else if others_write mode
          then invalid (asc ''approval ledger must not be group- or world-writable'')
          else (case json_of_bytes L raw of
              Inl e \<Rightarrow> invalid e
            | Inr doc \<Rightarrow>
                (case parse_ledger L doc of
                   Inl e \<Rightarrow> invalid e
                 | Inr (resets, heads) \<Rightarrow>
                     \<lparr>ap_resets = resets, ap_heads = heads, ap_digest = Some (el_sha L raw),
                      ap_error = None\<rparr>)))"

subsection \<open>Checkpoints\<close>

text \<open>A file the job writes: absent, unreadable, or holding a JSON document.\<close>

datatype json_file = NoFile | BadFile | Doc json

type_synonym checkpoints = "(int \<times> pystr, pystr option) dict"

fun read_checkpoints :: "json list \<Rightarrow> checkpoints \<Rightarrow> checkpoints option" where
  "read_checkpoints [] acc = Some acc"
| "read_checkpoints (JObj kvs # rest) acc =
     (case (seq_of kvs, chain_of kvs) of
        (Some s, Some c) \<Rightarrow>
          read_checkpoints rest (dset (s, c) (as_str (dget kvs (asc ''epoch''))) acc)
      | _ \<Rightarrow> None)"
| "read_checkpoints (v # rest) acc = None"

text \<open>The second component: whether a warning is printed.\<close>

definition load_checkpoints :: "evidence_lib \<Rightarrow> json_file \<Rightarrow> checkpoints \<times> bool" where
  "load_checkpoints L f =
     (case f of
        NoFile \<Rightarrow> ([], False)
      | BadFile \<Rightarrow> ([], True)
      | Doc (JObj kvs) \<Rightarrow>
          (case dget kvs (asc ''checkpoints'') of
             Some (JList es) \<Rightarrow>
               if \<not> is_one L (get_or JNull kvs ''version'') then ([], True)
               else (case read_checkpoints es [] of None \<Rightarrow> ([], True) | Some cs \<Rightarrow> (cs, False))
           | _ \<Rightarrow> ([], True))
      | Doc _ \<Rightarrow> ([], True))"

definition json_opt :: "pystr option \<Rightarrow> json" where
  "json_opt t = (case t of None \<Rightarrow> JNull | Some s \<Rightarrow> JStr s)"

definition checkpoint_key :: "record_fields \<Rightarrow> int \<times> pystr" where
  "checkpoint_key e = (the (seq_of e), the (chain_of e))"

definition old_entry :: "(int \<times> pystr) \<times> pystr option \<Rightarrow> (int \<times> pystr) \<times> record_fields" where
  "old_entry = (\<lambda>((s, c), ep). ((s, c),
     [(asc ''seq'', JInt s), (asc ''chain'', JStr c), (asc ''epoch'', json_opt ep)]))"

definition merge_checkpoints ::
  "checkpoints \<Rightarrow> record_fields list \<Rightarrow> (int \<times> pystr, record_fields) dict" where
  "merge_checkpoints existing fresh =
     foldl (\<lambda>d e. dset (checkpoint_key e) e d) (map old_entry existing) fresh"

definition save_checkpoints :: "int \<Rightarrow> checkpoints \<Rightarrow> record_fields list \<Rightarrow> json_file" where
  "save_checkpoints retain existing fresh =
     Doc (JObj [(asc ''version'', JInt 1),
       (asc ''checkpoints'', JList (map JObj (last_n (max_checkpoints retain)
          (map snd (merge_checkpoints existing fresh)))))])"

subsection \<open>Joining the segments\<close>

record vseg =
  vs_name :: pystr
  vs_first :: record_fields
  vs_last :: record_fields
  vs_count :: nat

definition order_key :: "evidence_lib \<Rightarrow> vseg \<Rightarrow> pystr \<times> int \<times> pystr" where
  "order_key L v =
     ((case normalized_timestamp L (get_or JNull (vs_first v) ''ts'') of None \<Rightarrow> [] | Some t \<Rightarrow> t),
      the (seq_of (vs_first v)), vs_name v)"

definition is_genesis :: "record_fields \<Rightarrow> bool" where
  "is_genesis row \<longleftrightarrow> seq_of row = Some 0 \<and> prev_of row = Some CHAIN_GENESIS"

definition follows :: "record_fields \<Rightarrow> record_fields \<Rightarrow> bool" where
  "follows lst row \<longleftrightarrow>
     seq_of row = map_option (\<lambda>s. s + 1) (seq_of lst) \<and> prev_of row = chain_of lst"

record seam_state =
  se_prev :: "record_fields option"
  se_used :: "pystr list"
  se_epoch :: "pystr option"
  se_pruned :: "pystr option"
  se_errors :: "pystr list"
  se_segments :: "record_fields list"
  se_total :: nat
  se_fresh :: "record_fields list"

definition seam_init :: seam_state where
  "seam_init = \<lparr>se_prev = None, se_used = [], se_epoch = None, se_pruned = None, se_errors = [],
     se_segments = [], se_total = 0, se_fresh = []\<rparr>"

definition seam_error :: "pystr \<Rightarrow> seam_state \<Rightarrow> seam_state" where
  "seam_error e st = st\<lparr>se_errors := se_errors st @ [e]\<rparr>"

definition unanchored :: "vseg \<Rightarrow> nat \<Rightarrow> int \<Rightarrow> pystr" where
  "unanchored v rotated retain =
     vs_name v @ asc '': retained history is not genesis-anchored and does not continue a verified '' @
     asc ''checkpoint (first seq '' @ seq_text (vs_first v) @ asc '', prev '' @
     the (prev_of (vs_first v)) @ asc ''; '' @ show_int (int rotated) @
     asc '' rotated segments retained, '' @ show_int retain @ asc '' required). If this host '' @
     asc ''rotated before checkpoints existed, review the evidence and add an approved_heads '' @
     asc ''entry for exactly this seq and prev''"

definition unapproved :: "evidence_lib \<Rightarrow> vseg \<Rightarrow> pystr" where
  "unapproved L v = vs_name v @ asc '': unapproved genesis reset at '' @
     py_text L (get_or (JStr (asc ''unknown'')) (vs_first v) ''ts'')"

text \<open>The oldest retained record: genesis, an approved head, or the continuation of a checkpoint
  with the whole retention window present.\<close>

definition check_head ::
  "approvals \<Rightarrow> checkpoints \<Rightarrow> int \<Rightarrow> nat \<Rightarrow> vseg \<Rightarrow> seam_state \<Rightarrow> seam_state" where
  "check_head A cps retain rotated v st =
     (let first = vs_first v; s = the (seq_of first); p = the (prev_of first) in
      if is_genesis first then st
      else case dget (ap_heads A) (s, p) of
        Some (_, _, e) \<Rightarrow>
          st\<lparr>se_pruned := Some (asc ''approved''), se_epoch := (if e = [] then None else Some e)\<rparr>
      | None \<Rightarrow>
          (case dget cps (s - 1, p) of
             Some e \<Rightarrow>
               if int rotated \<ge> retain
               then st\<lparr>se_pruned := Some (asc ''checkpoint''), se_epoch := e\<rparr>
               else seam_error (unanchored v rotated retain) st
           | None \<Rightarrow> seam_error (unanchored v rotated retain) st))"

text \<open>A later segment: the continuation of the one before, or a reset the ledger approves, once.\<close>

definition check_seam ::
  "evidence_lib \<Rightarrow> approvals \<Rightarrow> record_fields \<Rightarrow> vseg \<Rightarrow> seam_state \<Rightarrow> seam_state" where
  "check_seam L A lst v st =
     (let first = vs_first v in
      if follows lst first then st
      else if is_genesis first
      then (case normalized_timestamp L (get_or JNull first ''ts'') of
              Some t \<Rightarrow>
                if dget (ap_resets A) t \<noteq> None \<and> t \<notin> set (se_used st)
                then st\<lparr>se_used := se_used st @ [t]\<rparr>
                else seam_error (unapproved L v) st
            | None \<Rightarrow> seam_error (unapproved L v) st)
      else seam_error (vs_name v @ asc '': broken rotation seam after seq '' @ seq_text lst) st)"

definition segment_row :: "pystr option \<Rightarrow> vseg \<Rightarrow> record_fields" where
  "segment_row epoch v =
     [(asc ''file'', JStr (vs_name v)), (asc ''records'', JInt (int (vs_count v))),
      (asc ''first_seq'', get_or JNull (vs_first v) ''seq''),
      (asc ''last_seq'', get_or JNull (vs_last v) ''seq''),
      (asc ''first_ts'', get_or JNull (vs_first v) ''ts''),
      (asc ''last_ts'', get_or JNull (vs_last v) ''ts''), (asc ''chain_epoch'', json_opt epoch)]"

definition fresh_row :: "pystr option \<Rightarrow> vseg \<Rightarrow> record_fields" where
  "fresh_row epoch v =
     [(asc ''seq'', get_or JNull (vs_last v) ''seq''), (asc ''chain'', get_or JNull (vs_last v) ''chain''),
      (asc ''epoch'', json_opt epoch), (asc ''ts'', get_or JNull (vs_last v) ''ts'')]"

text \<open>One turn of the loop of \<open>main\<close>; \<open>None\<close> when the epoch of a genesis record does not encode.\<close>

definition seam_step ::
  "evidence_lib \<Rightarrow> approvals \<Rightarrow> checkpoints \<Rightarrow> int \<Rightarrow> nat \<Rightarrow> vseg \<Rightarrow> seam_state \<Rightarrow>
   seam_state option" where
  "seam_step L A cps retain rotated v st =
     (let st = (case se_prev st of
            None \<Rightarrow> check_head A cps retain rotated v st
          | Some lst \<Rightarrow> check_seam L A lst v st)
      in case (if is_genesis (vs_first v) then map_option Some (chain_epoch L (vs_first v))
               else Some (se_epoch st)) of
           None \<Rightarrow> None
         | Some epoch \<Rightarrow>
             Some (st\<lparr>se_epoch := epoch, se_segments := se_segments st @ [segment_row epoch v],
                     se_total := se_total st + vs_count v, se_prev := Some (vs_last v),
                     se_fresh := se_fresh st @ [fresh_row epoch v]\<rparr>))"

fun join_segments ::
  "evidence_lib \<Rightarrow> approvals \<Rightarrow> checkpoints \<Rightarrow> int \<Rightarrow> nat \<Rightarrow> vseg list \<Rightarrow> seam_state \<Rightarrow>
   seam_state option" where
  "join_segments L A cps retain rotated [] st = Some st"
| "join_segments L A cps retain rotated (v # vs) st =
     (case seam_step L A cps retain rotated v st of
        None \<Rightarrow> None
      | Some st' \<Rightarrow> join_segments L A cps retain rotated vs st')"

subsection \<open>The job\<close>

text \<open>Phase 1: every segment by itself, in any order.\<close>

fun verify_all :: "evidence_lib \<Rightarrow> seg_file list \<Rightarrow> pystr + (pystr \<times> seg_state) list" where
  "verify_all L [] = Inr []"
| "verify_all L (f # fs) =
     (case verify_segment L f of
        Inl e \<Rightarrow> Inl e
      | Inr st \<Rightarrow> map_sum (\<lambda>e. e) (\<lambda>sts. (sf_name f, st) # sts) (verify_all L fs))"

definition vsegs :: "(pystr \<times> seg_state) list \<Rightarrow> vseg list" where
  "vsegs sts = concat (map (\<lambda>(name, st). case (sg_first st, sg_last st) of
       (Some a, Some b) \<Rightarrow> [\<lparr>vs_name = name, vs_first = a, vs_last = b, vs_count = sg_count st\<rparr>]
     | _ \<Rightarrow> []) sts)"

definition opt_list :: "'a option \<Rightarrow> 'a list" where
  "opt_list x = (case x of None \<Rightarrow> [] | Some a \<Rightarrow> [a])"

text \<open>\<open>ei_save_error\<close> is the failure to write the checkpoints, with the path, if any.\<close>

record evidence_in =
  ei_ledger_path :: pystr
  ei_ledger :: ledger_file
  ei_retain :: pystr
  ei_files :: "seg_file list"
  ei_save_error :: "pystr option"
  ei_now :: pystr

text \<open>The files the job keeps: the checkpoints, the verification log, the latest anchor.\<close>

record evidence_disk =
  ed_checkpoints :: json_file
  ed_evidence :: "json list"
  ed_anchor :: json_file

definition anchor_of :: "evidence_in \<Rightarrow> approvals \<Rightarrow> bool \<Rightarrow> seam_state \<Rightarrow> record_fields" where
  "anchor_of i A valid st =
     (let field = (\<lambda>k. case se_prev st of None \<Rightarrow> JNull | Some row \<Rightarrow> get_or JNull row k) in
      [(asc ''evidence_type'', JStr (asc ''relay_shell_audit_anchor'')),
       (asc ''generated_at'', JStr (ei_now i)), (asc ''valid'', JBool valid),
       (asc ''records'', JInt (int (se_total st))),
       (asc ''segments'', JInt (int (length (se_segments st)))),
       (asc ''approval_policy'', JStr (asc ''exact_timestamp'')),
       (asc ''approval_ledger_sha256'', json_opt (ap_digest A)),
       (asc ''approved_historic_resets'', JInt (int (length (se_used st)))),
       (asc ''retention_pruned_head'', json_opt (se_pruned st)),
       (asc ''first_retained_seq'',
          case se_segments st of [] \<Rightarrow> JNull | r # _ \<Rightarrow> get_or JNull r ''first_seq''),
       (asc ''latest_seq'', field ''seq''), (asc ''latest_epoch'', json_opt (se_epoch st)),
       (asc ''latest_chain'', field ''chain''), (asc ''latest_record_ts'', field ''ts'')])"

definition evidence_of :: "record_fields \<Rightarrow> pystr list \<Rightarrow> nat \<Rightarrow> seam_state \<Rightarrow> record_fields" where
  "evidence_of anchor errors torn st =
     dset (asc ''evidence_type'') (JStr (asc ''relay_shell_chain_verification'')) anchor @
     [(asc ''errors'', JList (map JStr (take 50 errors))), (asc ''torn_tails'', JInt (int torn)),
      (asc ''approved_reset_timestamps'', JList (map JStr (sort (se_used st)))),
      (asc ''segment_summary'', JList (map JObj (se_segments st)))]"

text \<open>What the two phases find: the errors so far, the torn tails, the joined state.\<close>

definition examine ::
  "evidence_lib \<Rightarrow> evidence_in \<Rightarrow> checkpoints \<Rightarrow> pystr + pystr list \<times> nat \<times> seam_state" where
  "examine L i cps =
     (let A = load_approvals L (ei_ledger_path i) (ei_ledger i) in
      case (retain_segments L (ei_retain i), verify_all L (ei_files i)) of
        (_, Inl e) \<Rightarrow> Inl e
      | ((retain, rerr), Inr sts) \<Rightarrow>
          (let errors = opt_list (ap_error A) @ opt_list rerr @ concat (map (sg_errors \<circ> snd) sts);
               vs = sort_key (order_key L) (vsegs sts);
               rotated = length (filter (\<lambda>v. vs_name v \<noteq> ACTIVE_LOG) vs)
           in case join_segments L A cps retain rotated vs seam_init of
                None \<Rightarrow> Inl (asc ''UnicodeEncodeError'')
              | Some st \<Rightarrow>
                  Inr (errors @ se_errors st @
                         (if se_segments st = [] then [asc ''no chained audit records found''] else []),
                       length (filter (torn_tail \<circ> snd) sts), st)))"

text \<open>\<open>Inl\<close> is an exception that ends the job before it writes anything; otherwise the exit code.\<close>

definition evidence_main ::
  "evidence_lib \<Rightarrow> evidence_in \<Rightarrow> evidence_disk \<Rightarrow> (pystr + int) \<times> evidence_disk" where
  "evidence_main L i d =
     (let cps = fst (load_checkpoints L (ed_checkpoints d));
          A = load_approvals L (ei_ledger_path i) (ei_ledger i) in
      case examine L i cps of
        Inl e \<Rightarrow> (Inl e, d)
      | Inr (errors, torn, st) \<Rightarrow>
          (let errors' = (if errors = [] then map (\<lambda>e. asc ''could not write '' @ e)
                            (opt_list (ei_save_error i)) else errors);
               valid = (errors' = []);
               anchor = anchor_of i A valid st
           in (Inr (if valid then 0 else 1),
               \<lparr>ed_checkpoints = (if valid
                  then save_checkpoints (fst (retain_segments L (ei_retain i))) cps (se_fresh st)
                  else ed_checkpoints d),
                ed_evidence = ed_evidence d @ [JObj (evidence_of anchor errors' torn st)],
                ed_anchor = Doc (JObj anchor)\<rparr>)))"

subsection \<open>Publishing\<close>

definition MAX_ANCHOR_BYTES :: nat where
  "MAX_ANCHOR_BYTES = 65536"

text \<open>\<open>==\<close> on decoded values\<close>

definition py_eq :: "evidence_lib \<Rightarrow> json \<Rightarrow> json \<Rightarrow> bool" where
  "py_eq L a b =
     (case (a, b) of
        (JStr s, JStr t) \<Rightarrow> s = t
      | (JNull, JNull) \<Rightarrow> True
      | (JNull, JStr _) \<Rightarrow> False
      | (JStr _, JNull) \<Rightarrow> False
      | _ \<Rightarrow> el_eq L a b)"

definition seq_at :: "string \<Rightarrow> record_fields \<Rightarrow> int option" where
  "seq_at k kvs = as_int (dget kvs (asc k))"

text \<open>The decision on two anchors that were read.\<close>

definition compare_anchors :: "evidence_lib \<Rightarrow> json \<Rightarrow> json \<Rightarrow> int \<times> pystr" where
  "compare_anchors L remote local =
     (case (remote, local) of
        (JObj r, JObj l) \<Rightarrow>
          if dget r (asc ''valid'') \<noteq> Some (JBool True)
          then (0, asc ''remote anchor is not marked valid; nothing to protect'')
          else (case (seq_at ''latest_seq'' r, seq_at ''latest_seq'' l) of
              (Some rs, Some ls) \<Rightarrow>
                if \<not> py_eq L (get_or JNull r ''latest_epoch'') (get_or JNull l ''latest_epoch'')
                then (0, asc ''chain epoch differs from the remote anchor; not comparable'')
                else if ls < rs
                then (4, asc ''local latest_seq '' @ show_int ls @ asc '' is behind the remote anchor's '' @
                        show_int rs @ asc '': refusing to publish'')
                else if ls = rs \<and>
                  \<not> py_eq L (get_or JNull r ''latest_chain'') (get_or JNull l ''latest_chain'')
                then (4, asc ''local and remote chains diverge at seq '' @ show_int ls @
                        asc '': refusing to publish'')
                else (0, asc ''local anchor (seq '' @ show_int ls @
                        asc '') is not behind the remote anchor (seq '' @ show_int rs @ asc '')'')
            | _ \<Rightarrow> (0, asc ''an anchor has no latest_seq; nothing to compare''))
      | _ \<Rightarrow> (2, asc ''cannot compare anchors: not JSON objects''))"

text \<open>The remote file as its bytes, or the \<open>OSError\<close> of reading it.\<close>

definition compare_remote_anchor ::
  "evidence_lib \<Rightarrow> pystr + bytes \<Rightarrow> json_file \<Rightarrow> int \<times> pystr" where
  "compare_remote_anchor L remote anchor_file =
     (case remote of
        Inl e \<Rightarrow> (2, asc ''cannot compare anchors: '' @ e)
      | Inr raw \<Rightarrow>
          if length (take (MAX_ANCHOR_BYTES + 1) raw) > MAX_ANCHOR_BYTES
          then (2, asc ''cannot compare anchors: remote anchor exceeds '' @
                  show_int (int MAX_ANCHOR_BYTES) @ asc '' bytes'')
          else (let t = utf8_decode raw in
            if utf8_encode t \<noteq> raw then (2, asc ''cannot compare anchors: '' @ el_codec_error L t)
            else (case loads t of
                None \<Rightarrow> (2, asc ''cannot compare anchors: '' @ el_json_error L t)
              | Some r \<Rightarrow>
                  (case anchor_file of
                     Doc l \<Rightarrow> compare_anchors L r l
                   | _ \<Rightarrow> (2, asc ''cannot compare anchors: '' @ el_no_anchor L)))))"

end
