(* ===== verification/EvidenceProps.thy ===== *)
theory EvidenceProps
  imports Evidence AuditChain "HOL-Library.Multiset"
begin

text \<open>
  What the evidence job accepts and what its anchors and checkpoints are worth: a segment is clean
  exactly when it is a chain, a valid run has joined every record into epochs that start where
  they may, a checkpoint is always the end of a chain from genesis or an approved head, and the
  log the server writes is accepted.
\<close>

subsection \<open>A clean segment\<close>

text \<open>The parsed non-blank lines.\<close>

definition seg_parsed :: "pystr list \<Rightarrow> json option list" where
  "seg_parsed ls = map loads (filter (\<lambda>l. strip l \<noteq> []) ls)"

lemma seg_parsed_simps [simp]:
  "seg_parsed [] = []"
  "seg_parsed (l # ls) = (if strip l = [] then seg_parsed ls else loads l # seg_parsed ls)"
  by (simp_all add: seg_parsed_def)

definition encodable :: "(bytes \<Rightarrow> pystr) \<Rightarrow> record_fields list \<Rightarrow> bool" where
  "encodable sha rs \<longleftrightarrow> list_all (\<lambda>r. canonical_chain sha (the (prev_of r)) r \<noteq> None) rs"

lemma encodable_simps [simp]:
  "encodable sha []"
  "encodable sha (r # rs) \<longleftrightarrow> canonical_chain sha (the (prev_of r)) r \<noteq> None \<and> encodable sha rs"
  by (simp_all add: encodable_def)

lemma canonical_chain_step: "canonical_chain sha p r = Some h \<Longrightarrow> h = chain_step sha p r"
  by (auto simp: canonical_chain_def chain_step_def chain_value_def sha256_hex_def Let_def
      split: if_splits)

text \<open>A chain by itself: it starts where its first record says.\<close>

definition own_chain :: "(bytes \<Rightarrow> pystr) \<Rightarrow> record_fields list \<Rightarrow> bool" where
  "own_chain sha rs \<longleftrightarrow>
     rs = [] \<or> linked sha (the (prev_of (hd rs))) (the (seq_of (hd rs))) rs"

definition chain_after :: "(bytes \<Rightarrow> pystr) \<Rightarrow> record_fields option \<Rightarrow> record_fields list \<Rightarrow> bool" where
  "chain_after sha lst rs \<longleftrightarrow>
     (case lst of None \<Rightarrow> own_chain sha rs
      | Some l \<Rightarrow> linked sha (the (chain_of l)) (the (seq_of l) + 1) rs)"

lemma chain_after_Nil [simp]: "chain_after sha lst []"
  by (simp add: chain_after_def own_chain_def split: option.splits)

lemma chain_after_Cons:
  assumes "is_chained (JObj r)" "\<forall>l. lst = Some l \<longrightarrow> is_chained (JObj l)"
  shows "chain_after sha lst (r # rs) \<longleftrightarrow>
    chain_of r = Some (chain_step sha (the (prev_of r)) r) \<and>
    (\<forall>l. lst = Some l \<longrightarrow> follows l r) \<and> chain_after sha (Some r) rs"
  using assms by (cases lst) (auto simp: chain_after_def own_chain_def follows_def)

definition unchained :: "json option \<Rightarrow> bool" where
  "unchained p \<longleftrightarrow> p \<noteq> None \<and> as_record p = None"

definition torn_ok :: "pystr \<Rightarrow> json option list \<Rightarrow> bool" where
  "torn_ok name tl_ps \<longleftrightarrow> tl_ps = [] \<or> name = ACTIVE_LOG \<and> tl_ps = [None]"

text \<open>The shape of a clean segment after the state \<open>st\<close>.\<close>

definition clean_shape ::
  "(bytes \<Rightarrow> pystr) \<Rightarrow> pystr \<Rightarrow> seg_state \<Rightarrow> json option list \<Rightarrow> json option list \<Rightarrow>
   record_fields list \<Rightarrow> json option list \<Rightarrow> bool" where
  "clean_shape sha name st ps lead rs tl_ps \<longleftrightarrow>
     ps = lead @ map (\<lambda>r. Some (JObj r)) rs @ tl_ps \<and> list_all unchained lead \<and>
     list_all (\<lambda>r. is_chained (JObj r)) rs \<and> torn_ok name tl_ps \<and>
     (sg_first st \<noteq> None \<longrightarrow> lead = []) \<and> chain_after sha (sg_last st) rs \<and> encodable sha rs"

text \<open>The state after the rows \<open>rs\<close>.\<close>

definition saw :: "seg_state \<Rightarrow> record_fields list \<Rightarrow> seg_state \<Rightarrow> bool" where
  "saw st rs st' \<longleftrightarrow>
     sg_first st' = (if sg_first st = None \<and> rs \<noteq> [] then Some (hd rs) else sg_first st) \<and>
     sg_last st' = (if rs = [] then sg_last st else Some (last rs)) \<and>
     sg_count st' = sg_count st + length rs"

definition st_ok :: "seg_state \<Rightarrow> bool" where
  "st_ok st \<longleftrightarrow> (sg_first st = None \<longleftrightarrow> sg_last st = None) \<and>
     (\<forall>l. sg_last st = Some l \<longrightarrow> is_chained (JObj l))"

lemma add_errors_fields [simp]:
  "sg_first (add_errors es st) = sg_first st" "sg_last (add_errors es st) = sg_last st"
  "sg_count (add_errors es st) = sg_count st" "sg_deferred (add_errors es st) = sg_deferred st"
  "sg_errors (add_errors es st) = sg_errors st @ es"
  by (simp_all add: add_errors_def)

lemma flush_fields [simp]:
  "sg_first (flush_deferred st) = sg_first st" "sg_last (flush_deferred st) = sg_last st"
  "sg_count (flush_deferred st) = sg_count st" "sg_deferred (flush_deferred st) = None"
  "sg_errors (flush_deferred st) = sg_errors st @ opt_list (sg_deferred st)"
  by (simp_all add: flush_deferred_def opt_list_def split: option.splits)

lemma link_errors_Nil: "link_errors loc l r = [] \<longleftrightarrow> follows l r"
  by (auto simp: link_errors_def follows_def)

lemma seg_record_state:
  assumes "seg_record sha loc r st = Some st'"
  shows "saw st [r] st'" "sg_deferred st' = sg_deferred st"
    "\<exists>es. sg_errors st' = sg_errors st @ es"
    "sg_errors st' = [] \<longleftrightarrow> sg_errors st = [] \<and>
       chain_of r = Some (chain_step sha (the (prev_of r)) r) \<and>
       (\<forall>l. sg_last st = Some l \<longrightarrow> follows l r)"
    "canonical_chain sha (the (prev_of r)) r \<noteq> None"
proof -
  obtain h where c: "canonical_chain sha (the (prev_of r)) r = Some h"
    using assms by (auto simp: seg_record_def split: option.splits)
  then have h: "h = chain_step sha (the (prev_of r)) r" by (rule canonical_chain_step)
  show "canonical_chain sha (the (prev_of r)) r \<noteq> None" using c by simp
  have e: "(Some h = chain_of r) = (chain_of r = Some h)" by auto
  note D = assms [unfolded seg_record_def c option.case Let_def]
  show "saw st [r] st'" "sg_deferred st' = sg_deferred st"
    "\<exists>es. sg_errors st' = sg_errors st @ es"
    "sg_errors st' = [] \<longleftrightarrow> sg_errors st = [] \<and>
       chain_of r = Some (chain_step sha (the (prev_of r)) r) \<and>
       (\<forall>l. sg_last st = Some l \<longrightarrow> follows l r)"
    using D unfolding h [symmetric] e
    by (auto simp: saw_def link_errors_Nil split: option.splits if_splits)
qed

lemma seg_record_None:
  "seg_record sha loc r st = None \<longleftrightarrow> canonical_chain sha (the (prev_of r)) r = None"
  by (auto simp: seg_record_def Let_def split: option.splits)

lemma scan_cases:
  assumes "strip raw \<noteq> []"
  shows "scan_lines L name n (raw # rest) st =
    (case (loads raw, as_record (loads raw)) of
       (None, _) \<Rightarrow>
         (let m = line_where name n @ asc ''invalid JSON: '' @ el_json_error L raw in
          scan_lines L name (n + 1) rest
            (if name = ACTIVE_LOG then (flush_deferred st)\<lparr>sg_deferred := Some m\<rparr>
             else add_errors [m] (flush_deferred st)))
     | (Some v, None) \<Rightarrow>
         scan_lines L name (n + 1) rest
           (if sg_first st \<noteq> None
            then add_errors [line_where name n @ asc ''unchained record in chained region'']
              (flush_deferred st)
            else flush_deferred st)
     | (Some v, Some r) \<Rightarrow>
         (case seg_record (el_sha L) (line_where name n) r (flush_deferred st) of
            None \<Rightarrow> (flush_deferred st, Some (el_codec_error L raw))
          | Some st' \<Rightarrow> scan_lines L name (n + 1) rest st'))"
  using assms
  by (cases "loads raw"; cases "the (loads raw)") (auto simp: as_record_def Let_def)

lemma scan_errors:
  "scan_lines L name n ls st = (st', e) \<Longrightarrow> \<exists>es. sg_errors st' = sg_errors st @ es"
proof (induction ls arbitrary: n st)
  case Nil
  then show ?case by simp
next
  case (Cons raw rest)
  show ?case
  proof (cases "strip raw = []")
    case True
    then show ?thesis using Cons by auto
  next
    case False
    note D = Cons.prems [unfolded scan_cases [OF False]]
    show ?thesis
    proof (cases "loads raw")
      case None
      then show ?thesis
        using D Cons.IH by (fastforce simp: Let_def split: if_splits)
    next
      case v: (Some v)
      show ?thesis
      proof (cases "as_record (Some v)")
        case None
        then show ?thesis using D Cons.IH unfolding v by (fastforce split: if_splits)
      next
        case (Some r)
        then show ?thesis
          using D Cons.IH unfolding v
          by (fastforce dest: seg_record_state(3) split: option.splits)
      qed
    qed
  qed
qed

lemma flush_id: "sg_deferred st = None \<Longrightarrow> flush_deferred st = st"
  by (simp add: flush_deferred_def)

lemma scan_not_deferred:
  assumes "strip raw \<noteq> []" "scan_lines L name n (raw # rest) st = (st', e)" "sg_errors st' = []"
  shows "sg_deferred st = None" "sg_errors st = []" "flush_deferred st = st"
proof -
  have "scan_lines L name n (raw # rest) (flush_deferred st) = (st', e)"
    using assms(2) by (simp only: scan_cases [OF assms(1)] flush_id flush_fields)
  then have "sg_errors (flush_deferred st) = []" using scan_errors assms(3) by fastforce
  then show "sg_errors st = []" "sg_deferred st = None"
    by (auto simp: opt_list_def split: option.splits)
  then show "flush_deferred st = st" by (simp add: flush_id)
qed

lemma saw_Nil [simp]: "saw st [] st' \<longleftrightarrow> sg_first st' = sg_first st \<and> sg_last st' = sg_last st \<and>
    sg_count st' = sg_count st"
  by (simp add: saw_def)

lemma saw_Cons: "saw st [r] st1 \<Longrightarrow> saw st1 rs st' \<Longrightarrow> saw st (r # rs) st'"
  by (auto simp: saw_def split: if_splits)

lemma saw_ok: "saw st [r] st1 \<Longrightarrow> is_chained (JObj r) \<Longrightarrow> st_ok st1 \<and> sg_first st1 \<noteq> None \<and> sg_last st1 = Some r"
  by (auto simp: saw_def st_ok_def)

lemma as_record_Some: "as_record p = Some r \<longleftrightarrow> p = Some (JObj r) \<and> is_chained (JObj r)"
  by (auto simp: as_record_def split: option.splits json.splits)

lemma scan_sound:
  assumes "scan_lines L name n ls st = (st', None)" "sg_errors st' = []" "st_ok st"
  shows "\<exists>lead rs tl_ps. clean_shape (el_sha L) name st (seg_parsed ls) lead rs tl_ps \<and> saw st rs st' \<and>
    (sg_deferred st \<noteq> None \<longrightarrow> seg_parsed ls = [])"
  using assms
proof (induction ls arbitrary: n st)
  case Nil
  then show ?case by (auto simp: clean_shape_def torn_ok_def)
next
  case (Cons raw rest)
  show ?case
  proof (cases "strip raw = []")
    case True
    then show ?thesis using Cons by simp
  next
    case False
    note fl = scan_not_deferred [OF False Cons.prems(1,2)]
    note D = Cons.prems(1) [unfolded scan_cases [OF False] fl(3)]
    show ?thesis
    proof (cases "loads raw")
      case None
      let ?st = "st\<lparr>sg_deferred := Some (line_where name n @ asc ''invalid JSON: '' @
          el_json_error L raw)\<rparr>"
      have act: "name = ACTIVE_LOG"
        using D None scan_errors Cons.prems(2) by (fastforce simp: Let_def split: if_splits)
      then have "scan_lines L name (n + 1) rest ?st = (st', None)"
        using D None by (simp add: Let_def)
      from Cons.IH [OF this Cons.prems(2)] Cons.prems(3)
      have "seg_parsed rest = []" "saw st [] st'"
        by (auto simp: st_ok_def clean_shape_def)
      then have "clean_shape (el_sha L) name st (seg_parsed (raw # rest)) [] [] [None] \<and> saw st [] st'"
        using False None act by (simp add: clean_shape_def torn_ok_def)
      then show ?thesis using fl(1) by blast
    next
      case v: (Some v)
      show ?thesis
      proof (cases "as_record (Some v)")
        case None
        have fst: "sg_first st = None"
          using D None v scan_errors Cons.prems(2) by (fastforce split: if_splits)
        then have "scan_lines L name (n + 1) rest st = (st', None)" using D None v by simp
        from Cons.IH [OF this Cons.prems(2,3)]
        obtain lead rs tl_ps where "clean_shape (el_sha L) name st (seg_parsed rest) lead rs tl_ps"
          "saw st rs st'" by blast
        then have "clean_shape (el_sha L) name st (seg_parsed (raw # rest)) (Some v # lead) rs tl_ps"
          using False v None fst by (simp add: clean_shape_def unchained_def)
        then show ?thesis using \<open>saw st rs st'\<close> fl(1) by blast
      next
        case (Some r)
        then have r: "v = JObj r" "is_chained (JObj r)" by (simp_all add: as_record_Some)
        obtain st1 where s1: "seg_record (el_sha L) (line_where name n) r st = Some st1"
            "scan_lines L name (n + 1) rest st1 = (st', None)"
          using D v Some by (auto split: option.splits)
        note rec = seg_record_state [OF s1(1)]
        have ok: "st_ok st1" "sg_first st1 \<noteq> None" "sg_last st1 = Some r"
          using saw_ok [OF rec(1) r(2)] by simp_all
        have e1: "sg_errors st1 = []" using scan_errors [OF s1(2)] Cons.prems(2) by auto
        from Cons.IH [OF s1(2) Cons.prems(2) ok(1)]
        obtain rs tl_ps where c: "clean_shape (el_sha L) name st1 (seg_parsed rest) [] rs tl_ps"
          "saw st1 rs st'" using ok(2) by (auto simp: clean_shape_def)
        have "chain_after (el_sha L) (sg_last st) (r # rs)"
          using c(1) ok(3) rec(4) e1 Cons.prems(3) r(2)
          by (subst chain_after_Cons) (auto simp: clean_shape_def st_ok_def)
        then have "clean_shape (el_sha L) name st (seg_parsed (raw # rest)) [] (r # rs) tl_ps"
          using c(1) False v r rec(5) by (simp add: clean_shape_def)
        then show ?thesis using saw_Cons [OF rec(1) c(2)] fl(1) by blast
      qed
    qed
  qed
qed

lemma scan_complete:
  assumes "clean_shape (el_sha L) name st (seg_parsed ls) lead rs tl_ps" "sg_errors st = []"
    "sg_deferred st = None \<or> seg_parsed ls = []" "st_ok st"
  shows "\<exists>st'. scan_lines L name n ls st = (st', None) \<and> sg_errors st' = [] \<and> saw st rs st'"
  using assms
proof (induction ls arbitrary: n st lead rs tl_ps)
  case Nil
  then show ?case by (auto simp: clean_shape_def)
next
  case (Cons raw rest)
  show ?case
  proof (cases "strip raw = []")
    case True
    then show ?thesis using Cons by simp
  next
    case False
    then have df: "sg_deferred st = None" using Cons.prems(3) by simp
    note fl = flush_id [OF df]
    note sh = Cons.prems(1) [unfolded clean_shape_def]
    consider (lead) v lead' where "lead = v # lead'" | (row) r rs' where "lead = []" "rs = r # rs'"
      | (torn) "lead = []" "rs = []" by (cases lead; cases rs) auto
    then show ?thesis
    proof cases
      case lead
      then have v: "v = loads raw" "as_record v = None" "v \<noteq> None"
          "seg_parsed rest = lead' @ map (\<lambda>r. Some (JObj r)) rs @ tl_ps"
        using sh False by (simp_all add: unchained_def)
      then obtain x where x: "loads raw = Some x" by auto
      have "clean_shape (el_sha L) name st (seg_parsed rest) lead' rs tl_ps"
        using sh lead v by (auto simp: clean_shape_def)
      from Cons.IH [OF this Cons.prems(2) disjI1 [OF df] Cons.prems(4)] sh lead v(1,2) x
      show ?thesis unfolding scan_cases [OF False] fl by simp
    next
      case row
      then have v: "loads raw = Some (JObj r)" "is_chained (JObj r)"
          "seg_parsed rest = map (\<lambda>r. Some (JObj r)) rs' @ tl_ps"
        using sh False by simp_all
      obtain st1 where s1: "seg_record (el_sha L) (line_where name n) r st = Some st1"
        using sh row seg_record_None by (metis encodable_simps(2) not_None_eq)
      note rec = seg_record_state [OF s1]
      have ca: "chain_of r = Some (chain_step (el_sha L) (the (prev_of r)) r)"
          "\<forall>l. sg_last st = Some l \<longrightarrow> follows l r" "chain_after (el_sha L) (Some r) rs'"
        using sh row v(2) Cons.prems(4)
          chain_after_Cons [OF v(2), where sha = "el_sha L" and rs = rs' and lst = "sg_last st"]
        by (auto simp: st_ok_def)
      have ok: "st_ok st1" "sg_last st1 = Some r" using saw_ok [OF rec(1) v(2)] by simp_all
      have "clean_shape (el_sha L) name st1 (seg_parsed rest) [] rs' tl_ps"
        using sh row v ok(2) ca(3) by (simp add: clean_shape_def)
      moreover have "sg_errors st1 = []" using rec(4) ca Cons.prems(2) by simp
      ultimately obtain st' where "scan_lines L name (n + 1) rest st1 = (st', None)"
          "sg_errors st' = []" "saw st1 rs' st'"
        using Cons.IH ok(1) rec(2) df by metis
      then show ?thesis
        unfolding scan_cases [OF False] fl v(1) using v(2) s1 saw_Cons [OF rec(1)] row
        by (simp add: as_record_def)
    next
      case torn
      then have t: "loads raw = None" "name = ACTIVE_LOG" "seg_parsed rest = []"
        using sh False by (auto simp: torn_ok_def)
      let ?st = "st\<lparr>sg_deferred := Some (line_where name n @ asc ''invalid JSON: '' @
          el_json_error L raw)\<rparr>"
      have "\<exists>st'. scan_lines L name (n + 1) rest ?st = (st', None) \<and> sg_errors st' = [] \<and> saw ?st [] st'"
        using t Cons.prems(2,4) torn
        by (intro Cons.IH [where lead = "[]" and tl_ps = "[]"]) (auto simp: clean_shape_def torn_ok_def st_ok_def)
      then show ?thesis
        unfolding scan_cases [OF False] fl using t torn by (simp add: Let_def)
    qed
  qed
qed

text \<open>The file holds the rows \<open>rs\<close>: it reads to its end, and its non-blank lines are records without
  chain fields, then the rows, a chain of their own, then at most the torn end of the live log.\<close>

definition seg_holds :: "evidence_lib \<Rightarrow> seg_file \<Rightarrow> record_fields list \<Rightarrow> bool" where
  "seg_holds L f rs \<longleftrightarrow>
     (\<exists>ls lead tl_ps. seg_lines L f = (ls, Complete) \<and>
        seg_parsed ls = lead @ map (\<lambda>r. Some (JObj r)) rs @ tl_ps \<and> list_all unchained lead \<and>
        list_all (\<lambda>r. is_chained (JObj r)) rs \<and> torn_ok (sf_name f) tl_ps \<and>
        own_chain (el_sha L) rs \<and> encodable (el_sha L) rs)"

lemma seg_holds_shape:
  "seg_holds L f rs \<longleftrightarrow> (\<exists>ls lead tl_ps. seg_lines L f = (ls, Complete) \<and>
     clean_shape (el_sha L) (sf_name f) seg_init (seg_parsed ls) lead rs tl_ps)"
  by (simp add: seg_holds_def clean_shape_def seg_init_def chain_after_def)

lemma init_ok [simp]: "st_ok seg_init" "sg_errors seg_init = []" "sg_deferred seg_init = None"
  by (simp_all add: st_ok_def seg_init_def)

lemma segment_sound:
  assumes "verify_segment L f = Inr st" "sg_errors st = []"
  shows "\<exists>rs. seg_holds L f rs \<and> saw seg_init rs st"
proof -
  obtain ls fin where l: "seg_lines L f = (ls, fin)" by fastforce
  have sc: "scan_lines L (sf_name f) 1 ls seg_init = (st, None)" "fin = Complete"
    using assms l
    by (auto simp: verify_segment_def split: prod.splits option.splits read_end.splits)
  from scan_sound [OF sc(1) assms(2) init_ok(1)] l sc(2)
  show ?thesis unfolding seg_holds_shape by blast
qed

lemma segment_complete:
  assumes "seg_holds L f rs"
  shows "\<exists>st. verify_segment L f = Inr st \<and> sg_errors st = [] \<and> saw seg_init rs st"
proof -
  obtain ls lead tl_ps where l: "seg_lines L f = (ls, Complete)"
      "clean_shape (el_sha L) (sf_name f) seg_init (seg_parsed ls) lead rs tl_ps"
    using assms unfolding seg_holds_shape by blast
  from scan_complete [OF l(2), of 1]
  obtain st where "scan_lines L (sf_name f) 1 ls seg_init = (st, None)" "sg_errors st = []"
      "saw seg_init rs st" by auto
  then show ?thesis using l(1) by (simp add: verify_segment_def)
qed

text \<open>What a clean segment is: the job finds no error in a file exactly when the file reads to its
  end, each row carries the next number, the chain value before it and its own, and nothing but
  rows follows the first one, except a torn line at the end of the live log.\<close>

theorem segment_clean_iff:
  "(\<exists>st. verify_segment L f = Inr st \<and> sg_errors st = []) \<longleftrightarrow>
   (\<exists>ls lead rs tl_ps. seg_lines L f = (ls, Complete) \<and>
      seg_parsed ls = lead @ map (\<lambda>r. Some (JObj r)) rs @ tl_ps \<and>
      list_all unchained lead \<and> list_all (\<lambda>r. is_chained (JObj r)) rs \<and>
      (tl_ps = [] \<or> sf_name f = ACTIVE_LOG \<and> tl_ps = [None]) \<and>
      (rs = [] \<or> linked (el_sha L) (the (prev_of (hd rs))) (the (seq_of (hd rs))) rs) \<and>
      list_all (\<lambda>r. canonical_chain (el_sha L) (the (prev_of r)) r \<noteq> None) rs)"
  (is "?l = ?r")
proof -
  have "?l \<longleftrightarrow> (\<exists>rs. seg_holds L f rs)" using segment_sound segment_complete by blast
  also have "\<dots> \<longleftrightarrow> ?r"
    unfolding seg_holds_def own_chain_def torn_ok_def encodable_def by blast
  finally show ?thesis .
qed

subsection \<open>Joined segments\<close>

lemma linked_append:
  "linked sha p s (xs @ ys) \<longleftrightarrow>
     linked sha p s xs \<and> linked sha (final_chain sha p xs) (s + int (length xs)) ys"
  by (induction xs arbitrary: p s) (auto simp: algebra_simps)

lemma linked_seq_last:
  "linked sha p s rs \<Longrightarrow> rs \<noteq> [] \<Longrightarrow> seq_of (last rs) = Some (s + int (length rs) - 1)"
  by (cases rs rule: rev_cases) (simp_all add: linked_snoc)

lemma linked_hd:
  "linked sha p s rs \<Longrightarrow> rs \<noteq> [] \<Longrightarrow> seq_of (hd rs) = Some s \<and> prev_of (hd rs) = Some p"
  by (cases rs) simp_all

lemma own_chain_append:
  assumes "own_chain sha xs" "own_chain sha ys" "xs \<noteq> []" "ys \<noteq> []" "follows (last xs) (hd ys)"
  shows "own_chain sha (xs @ ys)"
proof -
  let ?p = "the (prev_of (hd xs))" and ?s = "the (seq_of (hd xs))"
  have x: "linked sha ?p ?s xs" and y: "linked sha (the (prev_of (hd ys))) (the (seq_of (hd ys))) ys"
    using assms(1-4) by (simp_all add: own_chain_def)
  have "linked sha (final_chain sha ?p xs) (?s + int (length xs)) ys"
    using y assms(5) linked_seq_last [OF x assms(3)] linked_last [OF x assms(3)]
    by (simp add: follows_def)
  then show ?thesis using x assms(3) by (simp add: own_chain_def linked_append)
qed

definition seg_chain :: "(bytes \<Rightarrow> pystr) \<Rightarrow> vseg \<Rightarrow> record_fields list \<Rightarrow> bool" where
  "seg_chain sha v rs \<longleftrightarrow> rs \<noteq> [] \<and> own_chain sha rs \<and> vs_first v = hd rs \<and> vs_last v = last rs \<and>
     vs_count v = length rs"

definition reset_stamp :: "evidence_lib \<Rightarrow> record_fields \<Rightarrow> pystr option" where
  "reset_stamp L r = normalized_timestamp L (get_or JNull r ''ts'')"

text \<open>Where a retained history may begin.\<close>

definition head_trusted ::
  "approvals \<Rightarrow> checkpoints \<Rightarrow> int \<Rightarrow> nat \<Rightarrow> record_fields \<Rightarrow> bool" where
  "head_trusted A cps retain rotated r \<longleftrightarrow>
     is_genesis r \<or> dget (ap_heads A) (the (seq_of r), the (prev_of r)) \<noteq> None \<or>
     dget cps (the (seq_of r) - 1, the (prev_of r)) \<noteq> None \<and> retain \<le> int rotated"

text \<open>A history in epochs: each is a chain, the first begins where it may, every other at genesis with
  a time stamp of its own that the ledger approves.\<close>

definition history_ok ::
  "evidence_lib \<Rightarrow> approvals \<Rightarrow> checkpoints \<Rightarrow> int \<Rightarrow> nat \<Rightarrow> record_fields list list \<Rightarrow> bool" where
  "history_ok L A cps retain rotated es \<longleftrightarrow>
     list_all (\<lambda>e. e \<noteq> [] \<and> own_chain (el_sha L) e) es \<and>
     (es \<noteq> [] \<longrightarrow> head_trusted A cps retain rotated (hd (hd es))) \<and>
     list_all (\<lambda>e. is_genesis (hd e) \<and>
       (\<exists>t. reset_stamp L (hd e) = Some t \<and> dget (ap_resets A) t \<noteq> None)) (tl es) \<and>
     distinct (map (reset_stamp L \<circ> hd) (tl es))"

text \<open>The state of the loop after the epochs \<open>es\<close>; every fresh checkpoint ends a part of one.\<close>

definition joined ::
  "evidence_lib \<Rightarrow> approvals \<Rightarrow> checkpoints \<Rightarrow> int \<Rightarrow> nat \<Rightarrow> record_fields list list \<Rightarrow> seam_state \<Rightarrow> bool" where
  "joined L A cps retain rotated es st \<longleftrightarrow>
     history_ok L A cps retain rotated es \<and>
     se_prev st = (if es = [] then None else Some (last (last es))) \<and>
     map Some (se_used st) = map (reset_stamp L \<circ> hd) (tl es) \<and>
     se_total st = length (concat es) \<and> (se_segments st = [] \<longleftrightarrow> es = []) \<and>
     (\<forall>c\<in>set (se_fresh st). \<exists>e\<in>set es. \<exists>n. 0 < n \<and> n \<le> length e \<and>
        checkpoint_key c = (the (seq_of (last (take n e))), the (chain_of (last (take n e)))))"

lemma seam_error_fields [simp]:
  "se_errors (seam_error e st) = se_errors st @ [e]" "se_used (seam_error e st) = se_used st"
  "se_prev (seam_error e st) = se_prev st" "se_total (seam_error e st) = se_total st"
  "se_segments (seam_error e st) = se_segments st" "se_fresh (seam_error e st) = se_fresh st"
  by (simp_all add: seam_error_def)

lemma check_head_state:
  fixes A cps retain rotated v st
  defines "st1 \<equiv> check_head A cps retain rotated v st"
  shows "se_used st1 = se_used st" "se_total st1 = se_total st" "se_segments st1 = se_segments st"
    "se_fresh st1 = se_fresh st" "\<exists>es. se_errors st1 = se_errors st @ es"
    "se_errors st1 = [] \<longleftrightarrow> se_errors st = [] \<and> head_trusted A cps retain rotated (vs_first v)"
  unfolding st1_def check_head_def head_trusted_def Let_def
  by (auto split: option.splits if_splits)

lemma check_seam_state:
  fixes L A lst v st
  defines "st1 \<equiv> check_seam L A lst v st"
  shows "se_total st1 = se_total st" "se_segments st1 = se_segments st"
    "se_fresh st1 = se_fresh st" "\<exists>es. se_errors st1 = se_errors st @ es"
    "se_errors st1 = [] \<longleftrightarrow> se_errors st = [] \<and>
       (follows lst (vs_first v) \<or> is_genesis (vs_first v) \<and>
          (\<exists>t. reset_stamp L (vs_first v) = Some t \<and> dget (ap_resets A) t \<noteq> None \<and> t \<notin> set (se_used st)))"
    "se_errors st1 = [] \<Longrightarrow> se_used st1 =
       (if follows lst (vs_first v) then se_used st
        else se_used st @ [the (reset_stamp L (vs_first v))])"
  unfolding st1_def check_seam_def reset_stamp_def Let_def
  by (auto split: option.splits if_splits)

lemma seam_step_state:
  assumes "seam_step L A cps retain rotated v st = Some st'"
  obtains st1 epoch where
    "st1 = (case se_prev st of None \<Rightarrow> check_head A cps retain rotated v st
            | Some lst \<Rightarrow> check_seam L A lst v st)"
    "se_errors st' = se_errors st1" "se_used st' = se_used st1" "se_prev st' = Some (vs_last v)"
    "se_total st' = se_total st1 + vs_count v" "se_segments st' \<noteq> []"
    "se_fresh st' = se_fresh st1 @ [fresh_row epoch v]"
  using assms unfolding seam_step_def Let_def
  by (auto simp del: option.case_distrib split: option.splits if_splits)

lemma fresh_key:
  "is_chained (JObj (vs_last v)) \<Longrightarrow>
     checkpoint_key (fresh_row epoch v) = (the (seq_of (vs_last v)), the (chain_of (vs_last v)))"
  by (auto simp: checkpoint_key_def fresh_row_def get_or_def seq_of_def chain_of_def asc_eq_iff
      split: option.splits)

lemma seg_chain_last: "seg_chain sha v rs \<Longrightarrow> is_chained (JObj (vs_last v))"
  using linked_chained by (fastforce simp: seg_chain_def own_chain_def)

definition ends_part :: "record_fields \<Rightarrow> record_fields list \<Rightarrow> bool" where
  "ends_part c e \<longleftrightarrow> (\<exists>n. 0 < n \<and> n \<le> length e \<and>
     checkpoint_key c = (the (seq_of (last (take n e))), the (chain_of (last (take n e)))))"

lemma ends_part_append: "ends_part c e \<Longrightarrow> ends_part c (e @ rs)"
  unfolding ends_part_def by (elim exE, rule exI) auto

lemma ends_part_new:
  assumes "seg_chain sha v rs"
  shows "ends_part (fresh_row epoch v) (e @ rs)"
proof -
  have "rs \<noteq> []" "vs_last v = last rs" using assms by (simp_all add: seg_chain_def)
  then show ?thesis
    unfolding ends_part_def fresh_key [OF seg_chain_last [OF assms]]
    by (intro exI [of _ "length (e @ rs)"]) simp
qed

lemma joined_alt:
  "joined L A cps retain rotated es st \<longleftrightarrow>
     history_ok L A cps retain rotated es \<and>
     se_prev st = (if es = [] then None else Some (last (last es))) \<and>
     map Some (se_used st) = map (reset_stamp L \<circ> hd) (tl es) \<and>
     se_total st = length (concat es) \<and> (se_segments st = [] \<longleftrightarrow> es = []) \<and>
     (\<forall>c\<in>set (se_fresh st). \<exists>e\<in>set es. ends_part c e)"
  by (simp add: joined_def ends_part_def)

lemma joined_step:
  assumes "seam_step L A cps retain rotated v st = Some st'" "se_errors st' = []"
    "joined L A cps retain rotated es st" "seg_chain (el_sha L) v rs"
  shows "\<exists>es'. joined L A cps retain rotated es' st' \<and> concat es' = concat es @ rs"
proof -
  obtain st1 epoch where s: "st1 = (case se_prev st of None \<Rightarrow> check_head A cps retain rotated v st
            | Some lst \<Rightarrow> check_seam L A lst v st)"
    "se_errors st' = se_errors st1" "se_used st' = se_used st1" "se_prev st' = Some (vs_last v)"
    "se_total st' = se_total st1 + vs_count v" "se_segments st' \<noteq> []"
    "se_fresh st' = se_fresh st1 @ [fresh_row epoch v]"
    using seam_step_state [OF assms(1)] by blast
  note J = assms(3) [unfolded joined_alt history_ok_def]
  note v = assms(4) [unfolded seg_chain_def]
  have e1: "se_errors st1 = []" using s(2) assms(2) by simp
  note new = ends_part_new [OF assms(4), where epoch = epoch]
  show ?thesis
  proof (cases es rule: rev_cases)
    case Nil
    then have s1: "st1 = check_head A cps retain rotated v st" using s(1) J by simp
    note c = check_head_state [where A = A and cps = cps and retain = retain and rotated = rotated
        and v = v and st = st, folded s1]
    have "joined L A cps retain rotated [rs] st'"
      unfolding joined_alt history_ok_def
      using J Nil s c e1 v new [of "[]"] by simp
    then show ?thesis using Nil by (intro exI [of _ "[rs]"]) simp
  next
    case (snoc bs e)
    then have s1: "st1 = check_seam L A (last e) v st" using s(1) J by simp
    note c = check_seam_state [where L = L and A = A and lst = "last e" and v = v and st = st, folded s1]
    have e: "e \<noteq> []" "own_chain (el_sha L) e" using J snoc by simp_all
    show ?thesis
    proof (cases "follows (last e) (vs_first v)")
      case True
      have oc: "own_chain (el_sha L) (e @ rs)"
        using own_chain_append [OF e(2) _ e(1)] v True by simp
      have "joined L A cps retain rotated (bs @ [e @ rs]) st'"
        unfolding joined_alt history_ok_def
        using J snoc s c(1-3) c(6) [OF e1] True v e oc new [of e] ends_part_append
        by (cases bs) auto
      then show ?thesis using snoc by (intro exI [of _ "bs @ [e @ rs]"]) simp
    next
      case False
      obtain t where t: "is_genesis (vs_first v)" "reset_stamp L (vs_first v) = Some t"
          "dget (ap_resets A) t \<noteq> None" "t \<notin> set (se_used st)"
        using c(5) e1 False by blast
      have "Some t \<notin> set (map (reset_stamp L \<circ> hd) (tl es))"
        using t(4) J by (metis (no_types, lifting) imageE list.set_map option.inject)
      then have "joined L A cps retain rotated (es @ [rs]) st'"
        unfolding joined_alt history_ok_def
        using J snoc s c(1-3) c(6) [OF e1] False v t new [of "[]"] by (cases bs) auto
      then show ?thesis by (intro exI [of _ "es @ [rs]"]) simp
    qed
  qed
qed

lemma seam_errors_mono:
  "seam_step L A cps retain rotated v st = Some st' \<Longrightarrow> \<exists>es. se_errors st' = se_errors st @ es"
  using check_head_state(5) check_seam_state(4)
  by (elim seam_step_state) (simp split: option.splits)

lemma join_errors_mono:
  "join_segments L A cps retain rotated vs st = Some st' \<Longrightarrow> \<exists>es. se_errors st' = se_errors st @ es"
  by (induction vs arbitrary: st) (fastforce dest: seam_errors_mono split: option.splits)+

lemma joined_init: "joined L A cps retain rotated [] seam_init"
  by (simp add: joined_def history_ok_def seam_init_def)

lemma join_sound:
  assumes "join_segments L A cps retain rotated vs st = Some st'" "se_errors st' = []"
    "joined L A cps retain rotated es st" "list_all2 (seg_chain (el_sha L)) vs rss"
  shows "\<exists>es'. joined L A cps retain rotated es' st' \<and> concat es' = concat es @ concat rss"
  using assms
proof (induction vs arbitrary: st es rss)
  case Nil
  then show ?case by auto
next
  case (Cons v vs)
  obtain rs rss' where r: "rss = rs # rss'" "seg_chain (el_sha L) v rs"
      "list_all2 (seg_chain (el_sha L)) vs rss'"
    using Cons.prems(4) by (auto simp: list_all2_Cons1)
  obtain st1 where s: "seam_step L A cps retain rotated v st = Some st1"
      "join_segments L A cps retain rotated vs st1 = Some st'"
    using Cons.prems(1) by (auto split: option.splits)
  have "se_errors st1 = []" using join_errors_mono [OF s(2)] Cons.prems(2) by auto
  from joined_step [OF s(1) this Cons.prems(3) r(2)]
  obtain es1 where "joined L A cps retain rotated es1 st1" "concat es1 = concat es @ rs" by blast
  from Cons.IH [OF s(2) Cons.prems(2) this(1) r(3)] this(2) show ?case using r(1) by auto
qed

lemma vsegs_Cons:
  "vsegs ((name, st) # sts) = (case (sg_first st, sg_last st) of
       (Some a, Some b) \<Rightarrow> [\<lparr>vs_name = name, vs_first = a, vs_last = b, vs_count = sg_count st\<rparr>]
     | _ \<Rightarrow> []) @ vsegs sts"
  by (simp add: vsegs_def)

abbreviation is_rotated :: "pystr \<Rightarrow> bool" where
  "is_rotated name \<equiv> name \<noteq> ACTIVE_LOG"

lemma verify_all_sound:
  assumes "verify_all L fs = Inr sts" "concat (map (sg_errors \<circ> snd) sts) = []"
  shows "\<exists>rss. list_all2 (seg_holds L) fs rss \<and>
    list_all2 (seg_chain (el_sha L)) (vsegs sts) (filter (\<lambda>rs. rs \<noteq> []) rss) \<and>
    length (filter (\<lambda>v. is_rotated (vs_name v)) (vsegs sts)) \<le>
      length (filter (\<lambda>f. is_rotated (sf_name f)) fs)"
  using assms
proof (induction fs arbitrary: sts)
  case Nil
  then show ?case by (simp add: vsegs_def)
next
  case (Cons f fs)
  obtain st sts' where s: "verify_segment L f = Inr st" "verify_all L fs = Inr sts'"
      "sts = (sf_name f, st) # sts'"
    using Cons.prems(1) by (cases "verify_all L fs") (auto split: sum.splits)
  then have e: "sg_errors st = []" "concat (map (sg_errors \<circ> snd) sts') = []"
    using Cons.prems(2) by simp_all
  obtain rs where rs: "seg_holds L f rs" "saw seg_init rs st"
    using segment_sound [OF s(1) e(1)] by blast
  have oc: "own_chain (el_sha L) rs" using rs(1) by (auto simp: seg_holds_def)
  obtain rss where rss: "list_all2 (seg_holds L) fs rss"
      "list_all2 (seg_chain (el_sha L)) (vsegs sts') (filter (\<lambda>rs. rs \<noteq> []) rss)"
      "length (filter (\<lambda>v. is_rotated (vs_name v)) (vsegs sts')) \<le>
        length (filter (\<lambda>f. is_rotated (sf_name f)) fs)"
    using Cons.IH [OF s(2) e(2)] by blast
  have "list_all2 (seg_chain (el_sha L)) (vsegs sts) (filter (\<lambda>rs. rs \<noteq> []) (rs # rss)) \<and>
      length (filter (\<lambda>v. is_rotated (vs_name v)) (vsegs sts)) \<le>
        length (filter (\<lambda>f. is_rotated (sf_name f)) (f # fs))"
    using rs(2) oc rss(2,3) unfolding s(3) vsegs_Cons
    by (cases "rs = []") (auto simp: saw_def seg_init_def seg_chain_def)
  then show ?case using rs(1) rss(1) by (intro exI [of _ "rs # rss"]) simp
qed

lemma examine_sound:
  assumes "examine L i cps = Inr ([], torn, st)"
  shows "\<exists>rss es rotated. list_all2 (seg_holds L) (ei_files i) rss \<and> mset (concat es) = mset (concat rss) \<and>
    es \<noteq> [] \<and> rotated \<le> length (filter (\<lambda>f. is_rotated (sf_name f)) (ei_files i)) \<and>
    joined L (load_approvals L (ei_ledger_path i) (ei_ledger i)) cps
      (fst (retain_segments L (ei_retain i))) rotated es st"
proof -
  let ?A = "load_approvals L (ei_ledger_path i) (ei_ledger i)"
  let ?n = "fst (retain_segments L (ei_retain i))"
  obtain sts where v: "verify_all L (ei_files i) = Inr sts"
    using assms by (cases "verify_all L (ei_files i)") (auto simp: examine_def split: prod.splits)
  define vs where "vs = sort_key (order_key L) (vsegs sts)"
  define rot where "rot = length (filter (\<lambda>v. is_rotated (vs_name v)) vs)"
  have D: "concat (map (sg_errors \<circ> snd) sts) = []" "se_errors st = []" "se_segments st \<noteq> []"
      "join_segments L ?A cps ?n rot vs seam_init = Some st"
    using assms v by (auto simp: examine_def Let_def rot_def vs_def split: prod.splits option.splits if_splits)
  obtain rss where rss: "list_all2 (seg_holds L) (ei_files i) rss"
      "list_all2 (seg_chain (el_sha L)) (vsegs sts) (filter (\<lambda>rs. rs \<noteq> []) rss)"
      "length (filter (\<lambda>v. is_rotated (vs_name v)) (vsegs sts)) \<le>
        length (filter (\<lambda>f. is_rotated (sf_name f)) (ei_files i))"
    using verify_all_sound [OF v D(1)] by blast
  have m: "mset vs = mset (vsegs sts)" by (simp add: vs_def)
  obtain rss' where r: "list_all2 (seg_chain (el_sha L)) vs rss'"
      "mset rss' = mset (filter (\<lambda>rs. rs \<noteq> []) rss)"
    using list_all2_reorder_left_invariance [OF rss(2) m] by blast
  obtain es where es: "joined L ?A cps ?n rot es st" "concat es = concat rss'"
    using join_sound [OF D(4,2) joined_init r(1)] by auto
  have "mset (concat rss') = mset (concat (filter (\<lambda>rs. rs \<noteq> []) rss))"
    unfolding mset_concat by (simp flip: sum_mset_sum_list add: r(2))
  also have "\<dots> = mset (concat rss)" by (induction rss) simp_all
  finally have "mset (concat es) = mset (concat rss)" by (simp only: es(2))
  moreover have "es \<noteq> []" using es(1) D(3) by (simp add: joined_def)
  moreover have "rot \<le> length (filter (\<lambda>f. is_rotated (sf_name f)) (ei_files i))"
  proof -
    have "rot = size (filter_mset (\<lambda>v. is_rotated (vs_name v)) (mset vs))"
      by (simp add: rot_def flip: mset_filter)
    also have "\<dots> = length (filter (\<lambda>v. is_rotated (vs_name v)) (vsegs sts))"
      unfolding m by (simp flip: mset_filter)
    finally show ?thesis using rss(3) by simp
  qed
  ultimately show ?thesis using rss(1) es(1) by blast
qed

end
