(* ===== verification/EvidenceTrust.thy ===== *)
theory EvidenceTrust
  imports EvidenceProps
begin

text \<open>
  The evidence job over time: what a valid run says of the files it read, what its checkpoints are
  worth when the oldest segments are gone, and when an anchor may replace the published one.
\<close>

subsection \<open>One run\<close>


subsection \<open>Runs over time\<close>

text \<open>A chain value at a sequence number is grounded when records lead to it from genesis or from an
  approved head.\<close>

inductive grounded :: "(bytes \<Rightarrow> pystr) \<Rightarrow> (int \<times> pystr) set \<Rightarrow> pystr \<Rightarrow> int \<Rightarrow> bool"
  for sha H where
  genesis: "grounded sha H CHAIN_GENESIS 0"
| approved: "(s, p) \<in> H \<Longrightarrow> grounded sha H p s"
| link: "grounded sha H p s \<Longrightarrow> linked sha p s [r] \<Longrightarrow> grounded sha H (chain_step sha p r) (s + 1)"

lemma grounded_extend:
  assumes "grounded sha H p s" "linked sha p s rs"
  shows "grounded sha H (final_chain sha p rs) (s + int (length rs))"
  using assms
proof (induction rs rule: rev_induct)
  case Nil
  then show ?case by simp
next
  case (snoc r rs)
  then have "grounded sha H (chain_step sha (final_chain sha p rs) r) (s + int (length rs) + 1)"
    by (intro grounded.link) (simp_all add: linked_append)
  then show ?case by (simp add: algebra_simps)
qed

lemma grounded_iff:
  "grounded sha H c n \<longleftrightarrow> (\<exists>p s rs. (p = CHAIN_GENESIS \<and> s = 0 \<or> (s, p) \<in> H) \<and>
     linked sha p s rs \<and> c = final_chain sha p rs \<and> n = s + int (length rs))"
  (is "_ \<longleftrightarrow> ?r c n")
proof
  assume "grounded sha H c n"
  then show "?r c n"
  proof (induction rule: grounded.induct)
    case genesis
    show ?case by (intro exI [of _ CHAIN_GENESIS] exI [of _ 0] exI [of _ "[]"]) simp
  next
    case (approved s p)
    then show ?case by (intro exI [of _ p] exI [of _ s] exI [of _ "[]"]) simp
  next
    case (link p s r)
    then obtain p0 s0 rs where o: "p0 = CHAIN_GENESIS \<and> s0 = 0 \<or> (s0, p0) \<in> H" "linked sha p0 s0 rs"
        "p = final_chain sha p0 rs" "s = s0 + int (length rs)" by blast
    then show ?case
      using link.hyps(2)
      by (intro exI [of _ p0] exI [of _ s0] exI [of _ "rs @ [r]"]) (simp add: linked_append)
  qed
next
  assume "?r c n"
  then obtain p s rs where o: "p = CHAIN_GENESIS \<and> s = 0 \<or> (s, p) \<in> H" "linked sha p s rs"
      "c = final_chain sha p rs" "n = s + int (length rs)" by blast
  have "grounded sha H p s" using o(1) by (auto intro: grounded.intros)
  from grounded_extend [OF this o(2)] show "grounded sha H c n" using o(3,4) by simp
qed

lemma grounded_mono: "grounded sha H p s \<Longrightarrow> H \<subseteq> H' \<Longrightarrow> grounded sha H' p s"
  by (induction rule: grounded.induct) (auto intro: grounded.intros)

text \<open>The job as a machine; beside its files the state carries the heads ever approved.\<close>

type_synonym evidence_state = "(int \<times> pystr) list \<times> evidence_disk"

definition evidence_step :: "evidence_lib \<Rightarrow> evidence_state \<Rightarrow> evidence_in \<Rightarrow> evidence_state" where
  "evidence_step L s i =
     (fst s @ dkeys (ap_heads (load_approvals L (ei_ledger_path i) (ei_ledger i))),
      snd (evidence_main L i (snd s)))"

definition checkpoints_grounded :: "evidence_lib \<Rightarrow> evidence_state \<Rightarrow> bool" where
  "checkpoints_grounded L s \<longleftrightarrow>
     (\<forall>(n, c)\<in>set (dkeys (fst (load_checkpoints L (ed_checkpoints (snd s))))).
        grounded (el_sha L) (set (fst s)) c (n + 1))"

lemma dget_key: "dget d k \<noteq> None \<longleftrightarrow> k \<in> set (dkeys d)"
  by (simp add: dkeys_def map_of_eq_None_iff)

lemma head_grounded:
  assumes "head_trusted A cps retain rotated (hd e)"
    "\<forall>(n, c)\<in>set (dkeys cps). grounded sha H c (n + 1)" "set (dkeys (ap_heads A)) \<subseteq> H"
  shows "grounded sha H (the (prev_of (hd e))) (the (seq_of (hd e)))"
proof -
  let ?p = "the (prev_of (hd e))" and ?s = "the (seq_of (hd e))"
  consider "is_genesis (hd e)" | "(?s, ?p) \<in> set (dkeys (ap_heads A))"
    | "(?s - 1, ?p) \<in> set (dkeys cps)"
    using assms(1) unfolding head_trusted_def dget_key by blast
  then show ?thesis
  proof cases
    case 1
    then show ?thesis by (simp add: is_genesis_def grounded.genesis)
  next
    case 2
    then show ?thesis using assms(3) by (blast intro: grounded.approved)
  next
    case 3
    then show ?thesis using assms(2) by fastforce
  qed
qed

lemma part_grounded:
  assumes "grounded sha H (the (prev_of (hd e))) (the (seq_of (hd e)))" "own_chain sha e" "0 < n"
    "n \<le> length e"
  shows "grounded sha H (the (chain_of (last (take n e)))) (the (seq_of (last (take n e))) + 1)"
proof -
  let ?p = "the (prev_of (hd e))" and ?s = "the (seq_of (hd e))" and ?t = "take n e"
  have ne: "?t \<noteq> []" "e \<noteq> []" using assms(3,4) by auto
  have "linked sha ?p ?s (?t @ drop n e)" using assms(2) ne by (simp add: own_chain_def)
  then have l: "linked sha ?p ?s ?t" unfolding linked_append by blast
  then show ?thesis
    using grounded_extend [OF assms(1) l] linked_last [OF l ne(1)] linked_seq_last [OF l ne(1)] by simp
qed

lemma read_checkpoints_keys:
  "read_checkpoints (map JObj rows) acc = Some cs \<Longrightarrow>
     set (dkeys cs) \<subseteq> set (dkeys acc) \<union> checkpoint_key ` set rows"
proof (induction rows arbitrary: acc)
  case Nil
  then show ?case by simp
next
  case (Cons r rows)
  obtain s c where k: "seq_of r = Some s" "chain_of r = Some c"
      "read_checkpoints (map JObj rows) (dset (s, c) (as_str (dget r (asc ''epoch''))) acc) = Some cs"
    using Cons.prems by (auto split: option.splits)
  have "set (dkeys (dset (s, c) v acc)) \<subseteq> insert (checkpoint_key r) (set (dkeys acc))" for v
    using k(1,2) by (auto simp: dkeys_def checkpoint_key_def dom_update)
  with Cons.IH [OF k(3)] show ?case by fastforce
qed

lemma merged_rows:
  assumes "(k, row) \<in> set (merge_checkpoints cps fresh)"
  shows "checkpoint_key row = k \<and> k \<in> set (dkeys cps) \<union> checkpoint_key ` set fresh"
proof -
  have "\<forall>(k, row)\<in>set (foldl (\<lambda>d e. dset (checkpoint_key e) e d) d fresh).
      checkpoint_key row = k \<and> k \<in> K \<union> checkpoint_key ` set fresh"
    if "\<forall>(k, row)\<in>set d. checkpoint_key row = k \<and> k \<in> K" for d K
    using that
  proof (induction fresh arbitrary: d K)
    case Nil
    then show ?case by simp
  next
    case (Cons e fresh)
    have "\<forall>(k, row)\<in>set (dset (checkpoint_key e) e d).
        checkpoint_key row = k \<and> k \<in> insert (checkpoint_key e) K"
      using Cons.prems by (auto dest!: in_set_dset)
    from Cons.IH [OF this] show ?case by simp
  qed
  moreover have "\<forall>(k, row)\<in>set (map old_entry cps). checkpoint_key row = k \<and> k \<in> set (dkeys cps)"
    by (force simp: old_entry_def checkpoint_key_def seq_of_def chain_of_def dkeys_def asc_eq_iff)
  ultimately show ?thesis using assms unfolding merge_checkpoints_def by blast
qed

lemma saved_keys:
  "set (dkeys (fst (load_checkpoints L (save_checkpoints n cps fresh)))) \<subseteq>
     set (dkeys cps) \<union> checkpoint_key ` set fresh"
proof -
  let ?rows = "last_n (max_checkpoints n) (map snd (merge_checkpoints cps fresh))"
  have "checkpoint_key ` set ?rows \<subseteq> set (dkeys cps) \<union> checkpoint_key ` set fresh"
    using merged_rows by (fastforce simp: last_n_def dest!: in_set_dropD)
  moreover have "set (dkeys cs) \<subseteq> checkpoint_key ` set ?rows"
    if "read_checkpoints (map JObj ?rows) [] = Some cs" for cs
    using read_checkpoints_keys [OF that] by (simp add: dkeys_def)
  ultimately have "set (dkeys cs) \<subseteq> set (dkeys cps) \<union> checkpoint_key ` set fresh"
    if "read_checkpoints (map JObj ?rows) [] = Some cs" for cs using that by blast
  then show ?thesis
    by (simp add: load_checkpoints_def save_checkpoints_def asc_eq_iff get_or_def split: option.split)
       (simp add: dkeys_def)
qed

text \<open>What a valid run finds beside the checkpoints: the epochs, grounded, and the fresh checkpoints as
  ends of their parts.\<close>

lemma run_grounded:
  assumes "examine L i (fst (load_checkpoints L (ed_checkpoints d))) = Inr ([], torn, st)"
    "checkpoints_grounded L (hs, d)"
    and H: "H = set hs \<union> set (dkeys (ap_heads (load_approvals L (ei_ledger_path i) (ei_ledger i))))"
  shows "\<exists>rss es. list_all2 (seg_holds L) (ei_files i) rss \<and> mset (concat es) = mset (concat rss) \<and>
    list_all (\<lambda>e. e \<noteq> [] \<and> own_chain (el_sha L) e \<and>
       grounded (el_sha L) H (the (prev_of (hd e))) (the (seq_of (hd e)))) es \<and>
    (\<forall>c\<in>set (se_fresh st). \<exists>e\<in>set es. ends_part c e)"
proof -
  let ?A = "load_approvals L (ei_ledger_path i) (ei_ledger i)"
  let ?cps = "fst (load_checkpoints L (ed_checkpoints d))"
  obtain rss es rotated where e: "list_all2 (seg_holds L) (ei_files i) rss"
      "mset (concat es) = mset (concat rss)" "es \<noteq> []"
      "joined L ?A ?cps (fst (retain_segments L (ei_retain i))) rotated es st"
    using examine_sound [OF assms(1)] by blast
  note J = e(4) [unfolded joined_alt history_ok_def]
  have g: "\<forall>(n, c)\<in>set (dkeys ?cps). grounded (el_sha L) H c (n + 1)"
    using assms(2) H by (fastforce simp: checkpoints_grounded_def intro: grounded_mono)
  have "grounded (el_sha L) H (the (prev_of (hd e))) (the (seq_of (hd e)))" if "e \<in> set es" for e
  proof (cases "e = hd es")
    case True
    show ?thesis
      unfolding True
      by (rule head_grounded [OF _ g, where A = ?A]) (use J e(3) H in auto)
  next
    case False
    then have "e \<in> set (tl es)" using that e(3) by (cases es) auto
    then have "is_genesis (hd e)" using J by (simp add: list_all_iff)
    then show ?thesis by (simp add: is_genesis_def grounded.genesis)
  qed
  then have "list_all (\<lambda>e. e \<noteq> [] \<and> own_chain (el_sha L) e \<and>
       grounded (el_sha L) H (the (prev_of (hd e))) (the (seq_of (hd e)))) es"
    using J by (simp add: list_all_iff)
  then show ?thesis using e(1,2) J by blast
qed

interpretation evidence_runs: machine_inv "evidence_step L" "checkpoints_grounded L" for L
proof unfold_locales
  fix s :: evidence_state and i :: evidence_in
  assume inv: "checkpoints_grounded L s"
  obtain hs d where s: "s = (hs, d)" by fastforce
  define H where "H = set hs \<union> set (dkeys (ap_heads (load_approvals L (ei_ledger_path i) (ei_ledger i))))"
  let ?cps = "fst (load_checkpoints L (ed_checkpoints d))"
  have old: "\<forall>(n, c)\<in>set (dkeys ?cps). grounded (el_sha L) H c (n + 1)"
    using inv by (fastforce simp: s checkpoints_grounded_def H_def intro: grounded_mono)
  show "checkpoints_grounded L (evidence_step L s i)"
  proof (cases "ed_checkpoints (snd (evidence_main L i d)) = ed_checkpoints d")
    case True
    then show ?thesis using old by (simp add: checkpoints_grounded_def evidence_step_def s H_def)
  next
    case False
    then obtain torn st where x: "examine L i ?cps = Inr ([], torn, st)"
        "ed_checkpoints (snd (evidence_main L i d)) =
           save_checkpoints (fst (retain_segments L (ei_retain i))) ?cps (se_fresh st)"
      by (auto simp: evidence_main_def Let_def split: sum.splits prod.splits if_splits)
    obtain es where es: "list_all (\<lambda>e. e \<noteq> [] \<and> own_chain (el_sha L) e \<and>
         grounded (el_sha L) H (the (prev_of (hd e))) (the (seq_of (hd e)))) es"
        "\<forall>c\<in>set (se_fresh st). \<exists>e\<in>set es. ends_part c e"
      using run_grounded [OF x(1) inv [unfolded s] H_def] by blast
    have "grounded (el_sha L) H (snd k) (fst k + 1)" if k: "k \<in> checkpoint_key ` set (se_fresh st)" for k
    proof -
      obtain c e where c: "k = checkpoint_key c" "e \<in> set es" "ends_part c e" using k es(2) by blast
      then show ?thesis
        using es(1) part_grounded [of "el_sha L" H e] by (auto simp: ends_part_def list_all_iff)
    qed
    then have "\<forall>(n, c)\<in>set (dkeys (fst (load_checkpoints L (ed_checkpoints (snd (evidence_main L i d)))))).
        grounded (el_sha L) H c (n + 1)"
      using saved_keys [of L "fst (retain_segments L (ei_retain i))" ?cps "se_fresh st"] old
      unfolding x(2) by fastforce
    then show ?thesis by (simp add: checkpoints_grounded_def evidence_step_def s H_def)
  qed
qed

text \<open>C16: Pruning is safe. Start the job without a checkpoint file and let it run any number of times on any
  files and ledgers: whenever a run is valid, every epoch of the history it accepts, also one whose
  beginning logrotate has removed, continues records that lead to it from genesis or from a head the
  ledger has approved.\<close>

theorem retained_history_grounded:
  assumes "ed_checkpoints d0 = NoFile"
    and "(hs, d) = run (evidence_step L) ([], d0) ins"
    and "evidence_main L i d = (Inr 0, d')"
    and "H = set hs \<union> set (dkeys (ap_heads (load_approvals L (ei_ledger_path i) (ei_ledger i))))"
  shows "\<exists>rss es. list_all2 (seg_holds L) (ei_files i) rss \<and> mset (concat es) = mset (concat rss) \<and>
    (\<forall>e\<in>set es. \<exists>p s before. (p = CHAIN_GENESIS \<and> s = 0 \<or> (s, p) \<in> H) \<and>
       linked (el_sha L) p s (before @ e))"
proof -
  have "checkpoints_grounded L ([], d0)"
    using assms(1) by (simp add: checkpoints_grounded_def load_checkpoints_def dkeys_def)
  then have inv: "checkpoints_grounded L (hs, d)"
    unfolding assms(2) by (rule evidence_runs.inv_run)
  obtain torn st where x: "examine L i (fst (load_checkpoints L (ed_checkpoints d))) = Inr ([], torn, st)"
    using assms(3) by (auto simp: evidence_main_def Let_def split: sum.splits if_splits)
  obtain rss es where e: "list_all2 (seg_holds L) (ei_files i) rss" "mset (concat es) = mset (concat rss)"
      "list_all (\<lambda>e. e \<noteq> [] \<and> own_chain (el_sha L) e \<and>
         grounded (el_sha L) H (the (prev_of (hd e))) (the (seq_of (hd e)))) es"
    using run_grounded [OF x inv assms(4)] by blast
  have "\<exists>p s before. (p = CHAIN_GENESIS \<and> s = 0 \<or> (s, p) \<in> H) \<and> linked (el_sha L) p s (before @ e)"
    if "e \<in> set es" for e
  proof -
    have m: "e \<noteq> []" "own_chain (el_sha L) e"
        "grounded (el_sha L) H (the (prev_of (hd e))) (the (seq_of (hd e)))"
      using e(3) that by (simp_all add: list_all_iff)
    then show ?thesis unfolding grounded_iff own_chain_def linked_append by metis
  qed
  then show ?thesis using e(1,2) by blast
qed

end
