(* ===== verification/EvidenceLogs.thy ===== *)
theory EvidenceLogs
  imports EvidenceTrust
begin

text \<open>
  The evidence job on the log the server writes: however the log was cut into segments at line ends,
  and in whatever order the files are found, the run is valid and its anchor is the logger's own
  chain value. Then the gate before publishing, and what the job makes of damaged files.
\<close>

subsection \<open>Cutting a log at line ends\<close>

lemma line_end_split:
  "concat (map (\<lambda>e. e @ [10]) ls) = b1 @ b2 \<Longrightarrow> \<forall>e\<in>set ls. (10::nat) \<notin> set e \<Longrightarrow> b1 \<noteq> [] \<Longrightarrow>
     last b1 = 10 \<Longrightarrow>
     \<exists>k>0. k \<le> length ls \<and> b1 = concat (map (\<lambda>e. e @ [10]) (take k ls)) \<and>
       b2 = concat (map (\<lambda>e. e @ [10]) (drop k ls))"
proof (induction ls arbitrary: b1)
  case Nil
  then show ?case by simp
next
  case (Cons e ls)
  let ?R = "concat (map (\<lambda>e. e @ [10]) ls)"
  have "(e @ [10]) @ ?R = b1 @ b2" using Cons.prems(1) by simp
  then obtain us where us: "e @ [10] = b1 @ us \<and> us @ ?R = b2 \<or> (e @ [10]) @ us = b1 \<and> ?R = us @ b2"
    unfolding append_eq_append_conv2 by blast
  have whole: "b1 = e @ [10]" "b2 = ?R" if a: "e @ [10] = b1 @ us" "us @ ?R = b2"
  proof -
    have "us = []"
    proof (rule ccontr)
      assume "us \<noteq> []"
      then have "e = b1 @ butlast us" using a(1) by (metis butlast_append butlast_snoc)
      then show False using Cons.prems(2-4) last_in_set [of b1] by auto
    qed
    then show "b1 = e @ [10]" "b2 = ?R" using a by simp_all
  qed
  show ?case
  proof (cases "b1 = e @ [10] \<and> b2 = ?R")
    case True
    then show ?thesis by (intro exI [of _ 1]) simp
  next
    case False
    then have b: "b1 = (e @ [10]) @ us" "?R = us @ b2" using us whole by auto
    show ?thesis
    proof (cases "us = []")
      case True
      then show ?thesis using b False by simp
    next
      case ne: False
      then have "last us = 10" using Cons.prems(4) b(1) by simp
      then obtain k where "k > 0" "k \<le> length ls" "us = concat (map (\<lambda>e. e @ [10]) (take k ls))"
          "b2 = concat (map (\<lambda>e. e @ [10]) (drop k ls))"
        using Cons.IH [OF b(2) _ ne] Cons.prems(2) by auto
      then show ?thesis using b(1) by (intro exI [of _ "Suc k"]) simp
    qed
  qed
qed

lemma log_bytes:
  "utf8_encode (log_text rs) = concat (map (\<lambda>e. e @ [10]) (map (utf8_encode \<circ> format_jsonl) rs))"
  unfolding log_text_def utf8_encode_lines by (simp only: map_map)

definition cut_at_lines :: "bytes \<Rightarrow> bool" where
  "cut_at_lines b \<longleftrightarrow> b \<noteq> [] \<and> last b = 10"

lemma log_segments:
  assumes "utf8_encode (log_text rs) = concat bs" "list_all cut_at_lines bs"
    "\<forall>r\<in>set rs. wf_json True (JObj r)"
  shows "\<exists>rss. rs = concat rss \<and> list_all2 (\<lambda>b rs. b = utf8_encode (log_text rs) \<and> rs \<noteq> []) bs rss"
  using assms
proof (induction bs arbitrary: rs)
  case Nil
  have "rs = []" using Nil.prems(1) by (cases rs) (simp_all add: log_bytes)
  then show ?case by simp
next
  case (Cons b bs)
  have nl: "\<forall>e\<in>set (map (utf8_encode \<circ> format_jsonl) rs). 10 \<notin> set e"
    using Cons.prems(3) line_shape(1) utf8_no_lf by fastforce
  obtain k where k: "k > 0" "k \<le> length rs" "b = utf8_encode (log_text (take k rs))"
      "concat bs = utf8_encode (log_text (drop k rs))"
    using line_end_split [OF _ nl, of b "concat bs"] Cons.prems(1,2)
    by (auto simp: log_bytes cut_at_lines_def take_map drop_map)
  have "list_all cut_at_lines bs" "\<forall>r\<in>set (drop k rs). wf_json True (JObj r)"
    using Cons.prems(2,3) by (auto dest: in_set_dropD)
  from Cons.IH [OF k(4) [symmetric] this]
  obtain rss where "drop k rs = concat rss"
    "list_all2 (\<lambda>b rs. b = utf8_encode (log_text rs) \<and> rs \<noteq> []) bs rss" by blast
  then show ?case
    using k by (intro exI [of _ "take k rs # rss"]) (auto simp flip: \<open>drop k rs = concat rss\<close>)
qed

subsection \<open>The segments of a log are clean\<close>

lemma encodable_linked:
  "linked sha p s rs \<Longrightarrow> scalar_texts (messages sha p rs) \<Longrightarrow> encodable sha rs"
proof (induction rs arbitrary: p s)
  case Nil
  then show ?case by simp
next
  case (Cons r rs)
  have "list_all scalar (p @ canonical_json (JObj (chain_body r)))"
    using Cons.prems(2) by (simp add: scalar_texts_def)
  then have "\<not> list_ex is_surrogate (p @ canonical_json (JObj (chain_body r)))"
    by (auto simp: list_ex_iff list_all_iff scalar_def)
  then have "canonical_chain sha p r \<noteq> None" by (simp add: canonical_chain_def Let_def)
  moreover have "encodable sha rs"
    using Cons.IH [of "chain_step sha p r" "s + 1"] Cons.prems by (simp add: scalar_texts_def)
  ultimately show ?case using Cons.prems(1) by simp
qed

lemma seg_parsed_log:
  "\<forall>r\<in>set rs. wf_json True (JObj r) \<Longrightarrow>
     seg_parsed (map format_jsonl rs) = map (\<lambda>r. Some (JObj r)) rs"
  by (induction rs) (simp_all add: line_shape)

lemma log_segment_holds:
  assumes "sf_bytes f = utf8_encode (log_text rs)" "sf_end f = Complete"
    "\<forall>r\<in>set rs. wf_json True (JObj r)" "linked (el_sha L) p s rs"
    "encodable (el_sha L) rs"
  shows "seg_holds L f rs"
proof -
  have d: "utf8_decode (sf_bytes f) = log_text rs"
    unfolding assms(1) using log_text_scalar [OF assms(3)] by (intro decode_encode) blast
  have "seg_lines L f = (map format_jsonl rs, Complete)"
    using log_lines [OF assms(3)] assms(2) unfolding seg_lines_def Let_def d
    by (simp add: assms(1) d [unfolded assms(1)])
  moreover have "own_chain (el_sha L) rs"
    using assms(4) by (cases rs) (simp_all add: own_chain_def)
  ultimately show ?thesis
    using seg_parsed_log [OF assms(3)] linked_chained [OF assms(4)] assms(5)
    unfolding seg_holds_def
    by (intro exI [of _ "map format_jsonl rs"] exI [of _ "[]"]) (simp add: list_all_iff torn_ok_def)
qed

definition mk_vseg :: "seg_file \<Rightarrow> record_fields list \<Rightarrow> vseg" where
  "mk_vseg f rs = \<lparr>vs_name = sf_name f, vs_first = hd rs, vs_last = last rs, vs_count = length rs\<rparr>"

lemma verify_all_complete:
  assumes "list_all2 (seg_holds L) fs rss" "list_all (\<lambda>rs. rs \<noteq> []) rss"
  shows "\<exists>sts. verify_all L fs = Inr sts \<and> concat (map (sg_errors \<circ> snd) sts) = [] \<and>
    vsegs sts = map2 mk_vseg fs rss"
  using assms
proof (induction fs rss rule: list_all2_induct)
  case Nil
  then show ?case by (simp add: vsegs_def)
next
  case (Cons f fs rs rss)
  obtain st where st: "verify_segment L f = Inr st" "sg_errors st = []" "saw seg_init rs st"
    using segment_complete Cons.hyps(1) by blast
  obtain sts where "verify_all L fs = Inr sts" "concat (map (sg_errors \<circ> snd) sts) = []"
      "vsegs sts = map2 mk_vseg fs rss"
    using Cons.IH Cons.prems by auto
  then show ?case
    using st Cons.prems by (auto simp: vsegs_Cons saw_def seg_init_def mk_vseg_def)
qed

subsection \<open>Joining them\<close>

lemma join_follows:
  "list_all2 (seg_chain (el_sha L)) vs rss \<Longrightarrow> linked (el_sha L) p s (concat rss) \<Longrightarrow> 0 < s \<Longrightarrow>
     se_prev st = Some l \<Longrightarrow> seq_of l = Some (s - 1) \<Longrightarrow> chain_of l = Some p \<Longrightarrow> se_errors st = [] \<Longrightarrow>
     se_segments st \<noteq> [] \<Longrightarrow>
     \<exists>st'. join_segments L A cps retain rotated vs st = Some st' \<and> se_errors st' = [] \<and>
       se_segments st' \<noteq> [] \<and> se_prev st' = Some (last (l # concat rss)) \<and>
       se_total st' = se_total st + length (concat rss)"
proof (induction vs rss arbitrary: p s st l rule: list_all2_induct)
  case Nil
  then show ?case by simp
next
  case (Cons v vs rs rss)
  have v: "rs \<noteq> []" "vs_first v = hd rs" "vs_last v = last rs" "vs_count v = length rs"
    using Cons.hyps(1) by (simp_all add: seg_chain_def)
  have l: "linked (el_sha L) p s rs"
      "linked (el_sha L) (final_chain (el_sha L) p rs) (s + int (length rs)) (concat rss)"
    using Cons.prems(1) by (simp_all add: linked_append)
  have hd: "seq_of (hd rs) = Some s" "prev_of (hd rs) = Some p" using linked_hd [OF l(1) v(1)] by simp_all
  have f: "follows l (vs_first v)" "\<not> is_genesis (vs_first v)"
    using hd Cons.prems(2,4,5) v(2) by (simp_all add: follows_def is_genesis_def)
  obtain st1 where s1: "seam_step L A cps retain rotated v st = Some st1" "se_prev st1 = Some (last rs)"
      "se_errors st1 = []" "se_segments st1 \<noteq> []" "se_total st1 = se_total st + length rs"
    using f Cons.prems(3,6) v by (simp add: seam_step_def check_seam_def Let_def)
  have n: "0 < s + int (length rs)" using Cons.prems(2) by simp
  from Cons.IH [OF l(2) n s1(2) _ _ s1(3,4)]
  show ?case
    using linked_seq_last [OF l(1) v(1)] linked_last [OF l(1) v(1)] s1 v(1)
    by (auto simp: last_append)
qed

lemma linked_own_chain: "linked sha p s rs \<Longrightarrow> own_chain sha rs"
  by (cases rs) (simp_all add: own_chain_def)

lemma segs_of_chain:
  "list_all (\<lambda>rs. rs \<noteq> []) rss \<Longrightarrow> linked sha p s (concat rss) \<Longrightarrow> length fs = length rss \<Longrightarrow>
     list_all2 (seg_chain sha) (map2 mk_vseg fs rss) rss"
proof (induction rss arbitrary: fs p s)
  case Nil
  then show ?case by simp
next
  case (Cons rs rss)
  obtain f fs' where f: "fs = f # fs'" using Cons.prems(3) by (cases fs) auto
  show ?case
    using Cons.prems Cons.IH linked_own_chain
    by (force simp: f linked_append seg_chain_def mk_vseg_def)
qed

text \<open>A whole chain from genesis, in segments.\<close>

lemma join_chain:
  assumes "list_all (\<lambda>rs. rs \<noteq> []) rss" "linked (el_sha L) CHAIN_GENESIS 0 (concat rss)"
    "length fs = length rss" "rss \<noteq> []" "chain_epoch L (hd (hd rss)) \<noteq> None"
  shows "\<exists>st'. join_segments L A cps retain rotated (map2 mk_vseg fs rss) seam_init = Some st' \<and>
    se_errors st' = [] \<and> se_segments st' \<noteq> [] \<and> se_prev st' = Some (last (concat rss)) \<and>
    se_total st' = length (concat rss)"
proof -
  obtain rs rss' where r: "rss = rs # rss'" using assms(4) by (cases rss) auto
  obtain f fs' where f: "fs = f # fs'" using assms(3) r by (cases fs) auto
  have ne: "rs \<noteq> []" "list_all (\<lambda>rs. rs \<noteq> []) rss'" using assms(1) r by simp_all
  have l: "linked (el_sha L) CHAIN_GENESIS 0 rs"
      "linked (el_sha L) (final_chain (el_sha L) CHAIN_GENESIS rs) (int (length rs)) (concat rss')"
    using assms(2) by (simp_all add: r linked_append)
  have g: "is_genesis (hd rs)" using linked_hd [OF l(1) ne(1)] by (simp add: is_genesis_def)
  obtain st1 where s1: "seam_step L A cps retain rotated (mk_vseg f rs) seam_init = Some st1"
      "se_prev st1 = Some (last rs)" "se_errors st1 = []" "se_segments st1 \<noteq> []"
      "se_total st1 = length rs"
    using assms(5) g
    by (auto simp: seam_step_def seam_init_def check_head_def Let_def mk_vseg_def r split: option.splits)
  have "0 < int (length rs)" using ne(1) by simp
  from join_follows [OF segs_of_chain [OF ne(2) l(2)] l(2) this s1(2) _ _ s1(3,4), of fs']
  show ?thesis
    using linked_seq_last [OF l(1) ne(1)] linked_last [OF l(1) ne(1)] s1 assms(3) ne(1)
    by (auto simp: r f last_append)
qed

subsection \<open>The log is accepted\<close>

lemma wf_dget: "wf_json a (JObj r) \<Longrightarrow> dget r k = Some v \<Longrightarrow> wf_json a v"
  by (induction r) (auto split: if_splits)

definition first_stamp :: "evidence_lib \<Rightarrow> record_fields \<Rightarrow> pystr" where
  "first_stamp L r = (case reset_stamp L r of None \<Rightarrow> [] | Some t \<Rightarrow> t)"

lemma order_key_mk:
  "order_key L (mk_vseg f rs) = (first_stamp L (hd rs), the (seq_of (hd rs)), sf_name f)"
  by (simp add: order_key_def mk_vseg_def first_stamp_def reset_stamp_def)

lemma first_seqs:
  "linked sha p s (concat rss) \<Longrightarrow> list_all (\<lambda>rs. rs \<noteq> []) rss \<Longrightarrow>
     sorted_wrt (<) (map (\<lambda>rs. the (seq_of (hd rs))) rss) \<and>
     (\<forall>rs\<in>set rss. s \<le> the (seq_of (hd rs)))"
proof (induction rss arbitrary: p s)
  case Nil
  then show ?case by simp
next
  case (Cons rs rss)
  have l: "linked sha p s rs" "rs \<noteq> []"
      "linked sha (final_chain sha p rs) (s + int (length rs)) (concat rss)"
    using Cons.prems by (simp_all add: linked_append)
  have ih: "sorted_wrt (<) (map (\<lambda>rs. the (seq_of (hd rs))) rss)"
      "\<forall>r\<in>set rss. s + int (length rs) \<le> the (seq_of (hd r))"
    using Cons.IH [OF l(3)] Cons.prems(2) by simp_all
  have "s < the (seq_of (hd r))" if "r \<in> set rss" for r
  proof -
    have "0 < int (length rs)" using l(2) by simp
    then show ?thesis using bspec [OF ih(2) that] by linarith
  qed
  then show ?case using ih(1) linked_hd [OF l(1,2)] by (auto intro: less_imp_le)
qed

lemma sorted_keys:
  assumes "sorted (map (first_stamp L \<circ> hd) rss)"
    "sorted_wrt (<) (map (\<lambda>rs. the (seq_of (hd rs))) rss)" "length fs = length rss"
  shows "sorted_wrt (<) (map (order_key L) (map2 mk_vseg fs rss))"
  using assms
proof (induction rss arbitrary: fs)
  case Nil
  then show ?case by simp
next
  case (Cons rs rss)
  obtain f fs' where f: "fs = f # fs'" using Cons.prems(3) by (cases fs) auto
  have "order_key L (mk_vseg f rs) < order_key L (mk_vseg f' rs')" if "(f', rs') \<in> set (zip fs' rss)" for f' rs'
    using set_zip_rightD [OF that] Cons.prems(1,2) by (auto simp: order_key_mk less_prod_def' le_less)
  then show ?case using Cons.IH [of fs'] Cons.prems by (auto simp: f)
qed

lemma log_accepted:
  assumes "hex_sha (el_sha L)" "linked (el_sha L) CHAIN_GENESIS 0 (concat rss)"
    "list_all (\<lambda>rs. rs \<noteq> []) rss" "rss \<noteq> []" "\<forall>r\<in>set (concat rss). wf_json True (JObj r)"
    and fs: "list_all2 (\<lambda>f rs. sf_bytes f = utf8_encode (log_text rs) \<and> sf_end f = Complete) fs rss"
    and st: "sorted (map (first_stamp L \<circ> hd) rss)"
    and ts: "dget (hd (hd rss)) (asc ''ts'') = Some (JStr t)"
    and i: "mset (ei_files i) = mset fs"
      "ap_error (load_approvals L (ei_ledger_path i) (ei_ledger i)) = None"
      "snd (retain_segments L (ei_retain i)) = None" "ei_save_error i = None"
  shows "\<exists>d' a. evidence_main L i d = (Inr 0, d') \<and> ed_anchor d' = Doc (JObj a) \<and>
    dget a (asc ''latest_chain'') = Some (JStr (final_chain (el_sha L) CHAIN_GENESIS (concat rss))) \<and>
    dget a (asc ''records'') = Some (JInt (int (length (concat rss))))"
proof -
  let ?sha = "el_sha L" and ?rows = "concat rss"
  have len: "length fs = length rss" using fs by (rule list_all2_lengthD)
  have sc: "scalar_texts (messages ?sha CHAIN_GENESIS ?rows)"
    using assms(5) genesis_scalar by (intro messages_scalar [OF assms(1)]) auto
  have enc: "encodable ?sha ?rows" by (rule encodable_linked [OF assms(2) sc])
  have each: "seg_holds L f rs" if "(f, rs) \<in> set (zip fs rss)" for f rs
  proof -
    have rs: "rs \<in> set rss" using that by (rule set_zip_rightD)
    then obtain xs ys where "?rows = xs @ rs @ ys" by (metis concat.simps(2) concat_append split_list)
    then have "linked ?sha (final_chain ?sha CHAIN_GENESIS xs) (int (length xs)) rs"
      using assms(2) by (simp add: linked_append)
    moreover have "encodable ?sha rs" using enc rs by (auto simp: encodable_def list_all_iff)
    moreover have "sf_bytes f = utf8_encode (log_text rs)" "sf_end f = Complete"
      using fs that by (auto simp: list_all2_iff)
    ultimately show ?thesis using assms(5) rs by (intro log_segment_holds) auto
  qed
  define prs where "prs = zip fs rss"
  have prs: "map fst prs = fs" "map snd prs = rss" using len by (simp_all add: prs_def)
  have "list_all2 (\<lambda>f p. f = fst p) fs prs"
    unfolding prs(1) [symmetric] list_all2_map1 list_all2_same by simp
  then obtain prs' where p': "list_all2 (\<lambda>f p. f = fst p) (ei_files i) prs'" "mset prs' = mset prs"
    using list_all2_reorder_left_invariance i(1) by blast
  have files: "ei_files i = map fst prs'"
    using p'(1) by (induction rule: list_all2_induct) simp_all
  have sp: "set prs' = set prs" using p'(2) by (metis set_mset_mset)
  have holds: "list_all2 (seg_holds L) (ei_files i) (map snd prs')"
    unfolding files list_all2_map1 list_all2_map2 list_all2_same sp prs_def using each by auto
  have ne: "list_all (\<lambda>rs. rs \<noteq> []) (map snd prs')"
    using assms(3) sp prs(2) by (auto simp: list_all_iff) (metis image_eqI list.set_map snd_conv)
  obtain sts where v: "verify_all L (ei_files i) = Inr sts" "concat (map (sg_errors \<circ> snd) sts) = []"
      "vsegs sts = map2 mk_vseg (ei_files i) (map snd prs')"
    using verify_all_complete [OF holds ne] by blast
  let ?vs = "map2 mk_vseg fs rss"
  have vm: "vsegs sts = map (\<lambda>(f, rs). mk_vseg f rs) prs'"
    unfolding v(3) files by (simp add: zip_map_fst_snd)
  have strict: "sorted_wrt (<) (map (order_key L) ?vs)"
    using sorted_keys [OF st _ len] first_seqs [OF assms(2,3)] by blast
  have srt: "sort_key (order_key L) (vsegs sts) = ?vs"
  proof (rule sort_key_inj_key_eq)
    show m: "mset (vsegs sts) = mset ?vs" unfolding vm using p'(2) by (simp add: prs_def)
    have "inj_on (order_key L) (set ?vs)" using strict unfolding strict_sorted_iff distinct_map by blast
    then show "inj_on (order_key L) (set (vsegs sts))" using m by (metis set_mset_mset)
    show "sorted (map (order_key L) ?vs)" using strict by (rule strict_sorted_imp_sorted)
  qed
  have "chain_epoch L (hd (hd rss)) \<noteq> None"
  proof -
    obtain r rs rss' where r: "rss = (r # rs) # rss'"
      using assms(3,4) by (cases rss; cases "hd rss") auto
    have "\<forall>c\<in>set t. scalar c" using ts assms(5) wf_dget by (fastforce simp: r)
    moreover have "chain_of r = Some (chain_step ?sha CHAIN_GENESIS r)" using assms(2) by (simp add: r)
    then have "dget r (asc ''chain'') = Some (JStr (chain_step ?sha CHAIN_GENESIS r))"
      by (auto simp: chain_of_def elim!: as_str.elims)
    moreover have "\<forall>c\<in>set (chain_step ?sha CHAIN_GENESIS r). scalar c"
      by (rule chain_value_scalar [OF assms(1)])
    ultimately show ?thesis
      using ts scalar_asc [of "''relay-shell-genesis''"]
      by (auto simp: r chain_epoch_def get_or_def py_text_def list_ex_iff scalar_def is_surrogate_def)
  qed
  note j = join_chain [OF assms(3,2) len assms(4) this]
  obtain n where n: "retain_segments L (ei_retain i) = (n, None)"
    using i(3) by (cases "retain_segments L (ei_retain i)") simp
  obtain st where st: "join_segments L (load_approvals L (ei_ledger_path i) (ei_ledger i))
      (fst (load_checkpoints L (ed_checkpoints d))) n
      (length (filter (\<lambda>v. vs_name v \<noteq> ACTIVE_LOG) ?vs)) ?vs seam_init = Some st"
    "se_errors st = []" "se_segments st \<noteq> []" "se_prev st = Some (last ?rows)"
    "se_total st = length ?rows"
    using j by blast
  have "examine L i (fst (load_checkpoints L (ed_checkpoints d))) =
      Inr ([], length (filter (torn_tail \<circ> snd) sts), st)"
    using st(2,3) i(2) v(2)
    by (simp add: examine_def Let_def n v(1) srt st(1) opt_list_def del: length_filter_map)
  moreover have "get_or JNull (last ?rows) ''chain'' = JStr (final_chain ?sha CHAIN_GENESIS ?rows)"
    using linked_last [OF assms(2)] assms(3,4)
    by (cases rss) (auto simp: get_or_def chain_of_def elim!: as_str.elims)
  ultimately show ?thesis
    using i(4) st(4,5) by (simp add: evidence_main_def anchor_of_def Let_def opt_list_def asc_eq_iff)
qed

lemma chain_records_log:
  assumes "\<forall>r\<in>set rs. wf_json True (JObj r)" "linked sha p s rs"
  shows "chain_records (utf8_encode (log_text rs)) = rs"
proof -
  have a: "\<forall>r\<in>set rs. as_record (Some (JObj r)) = Some r"
    using linked_chained [OF assms(2)] by (simp add: as_record_def)
  then have "chain_region (map (\<lambda>r. Some (JObj r)) rs) = map (\<lambda>r. Some (JObj r)) rs"
    by (cases rs) (simp_all add: chain_region_def)
  moreover have "map (the \<circ> as_record \<circ> (\<lambda>r. Some (JObj r))) rs = rs"
    using a by (induction rs) simp_all
  ultimately show ?thesis unfolding chain_records_def log_parsed [OF assms(1)] by (simp add: comp_def)
qed

text \<open>The first record of a segment of a log, and how its time stamp sorts.\<close>

definition seg_head :: "seg_file \<Rightarrow> record_fields" where
  "seg_head f = hd (chain_records (sf_bytes f))"

definition seg_stamp :: "evidence_lib \<Rightarrow> seg_file \<Rightarrow> pystr" where
  "seg_stamp L f = first_stamp L (seg_head f)"

lemma logger_log_accepted:
  assumes "hex_sha (el_sha L)" "\<forall>ev\<in>set evs. good_event ev"
    and log: "au_disk (run (log_step (el_sha L)) fresh_log evs) = concat (map sf_bytes fs)"
    and fs: "fs \<noteq> []" "list_all (\<lambda>f. cut_at_lines (sf_bytes f) \<and> sf_end f = Complete) fs"
    and ts: "sorted (map (seg_stamp L) fs)" "dget (seg_head (hd fs)) (asc ''ts'') = Some (JStr t)"
    and i: "mset (ei_files i) = mset fs"
      "ap_error (load_approvals L (ei_ledger_path i) (ei_ledger i)) = None"
      "snd (retain_segments L (ei_retain i)) = None" "ei_save_error i = None"
  shows "\<exists>d' a. evidence_main L i d = (Inr 0, d') \<and> ed_anchor d' = Doc (JObj a) \<and>
    dget a (asc ''latest_chain'') = Some (JStr (au_prev (run (log_step (el_sha L)) fresh_log evs))) \<and>
    dget a (asc ''records'') = Some (JInt (int (length (filter is_record evs))))"
proof -
  let ?au = "run (log_step (el_sha L)) fresh_log evs"
  obtain rs where h: "holds_chain (el_sha L) CHAIN_GENESIS 0 rs ?au"
      "length rs = length (filter is_record evs)"
    using run_holds_chain [OF assms(1) init_holds_chain assms(2)] by (auto simp: fresh_log_def)
  have wf: "\<forall>r\<in>set rs. wf_json True (JObj r)" and l: "linked (el_sha L) CHAIN_GENESIS 0 rs"
      and disk: "au_disk ?au = utf8_encode (log_text rs)"
      and prev: "au_prev ?au = final_chain (el_sha L) CHAIN_GENESIS rs"
    using h(1) by (simp_all add: holds_chain_def)
  have "list_all cut_at_lines (map sf_bytes fs)" using fs(2) by (simp add: list_all_iff)
  from log_segments [OF trans [OF disk [symmetric] log] this wf] obtain rss where rss: "rs = concat rss"
      "list_all2 (\<lambda>b rs. b = utf8_encode (log_text rs) \<and> rs \<noteq> []) (map sf_bytes fs) rss"
    by blast
  have each: "chain_records (sf_bytes f) = q \<and> sf_bytes f = utf8_encode (log_text q) \<and> q \<noteq> []"
    if "(f, q) \<in> set (zip fs rss)" for f q
  proof -
    have q: "q \<in> set rss" using that by (rule set_zip_rightD)
    then obtain xs ys where "rs = xs @ q @ ys" unfolding rss(1) by (metis concat.simps(2) concat_append split_list)
    then have "linked (el_sha L) (final_chain (el_sha L) CHAIN_GENESIS xs) (int (length xs)) q"
        "\<forall>r\<in>set q. wf_json True (JObj r)"
      using l wf by (simp_all add: linked_append)
    moreover have "sf_bytes f = utf8_encode (log_text q)" "q \<noteq> []"
      using rss(2) [unfolded list_all2_map1, unfolded list_all2_iff] that by auto
    ultimately show ?thesis using chain_records_log by simp
  qed
  have len: "length fs = length rss" using rss(2) by (auto dest: list_all2_lengthD)
  have "seg_head (fs ! k) = hd (rss ! k)" if "k < length fs" for k
  proof -
    have "(fs ! k, rss ! k) \<in> set (zip fs rss)" using that len by (auto simp: in_set_zip)
    from each [OF this] show ?thesis unfolding seg_head_def by (elim conjE) (simp only:)
  qed
  then have heads: "map seg_head fs = map hd rss" using len by (auto simp: list_eq_iff_nth_eq)
  have ne: "rss \<noteq> []" "list_all (\<lambda>rs. rs \<noteq> []) rss"
    using fs(1) len each in_set_impl_in_set_zip2 [OF len] by (auto simp: list_all_iff) metis
  have h0: "seg_head (hd fs) = hd (hd rss)" using heads fs(1) ne(1) by (metis hd_map)
  have ok: "list_all2 (\<lambda>f rs. sf_bytes f = utf8_encode (log_text rs) \<and> sf_end f = Complete) fs rss"
    using each len fs(2) by (auto simp: list_all2_iff list_all_iff dest: set_zip_leftD)
  have st: "sorted (map (first_stamp L \<circ> hd) rss)"
    using ts(1) heads by (metis (no_types, lifting) list.map_comp map_eq_conv comp_apply seg_stamp_def)
  from log_accepted [OF assms(1) l [unfolded rss(1)] ne(2,1) wf [unfolded rss(1)] ok st
      ts(2) [unfolded h0] i, of d]
  show ?thesis using h(2) prev rss(1) by auto
qed


subsection \<open>A sample run\<close>

definition sample_lib :: evidence_lib where
  "sample_lib = \<lparr>el_sha = sample_sha, el_iso = (\<lambda>_. None), el_repr = (\<lambda>_. []), el_quote = id,
     el_one = (\<lambda>_. False), el_eq = (=), el_text = (\<lambda>_. Inl []), el_json_error = (\<lambda>_. []),
     el_codec_error = (\<lambda>_. []), el_no_anchor = []\<rparr>"

definition sample_log :: "log_event list" where
  "sample_log = [Record [(asc ''ts'', JStr (asc ''t''))]]"

definition sample_seg :: seg_file where
  "sample_seg = \<lparr>sf_name = ACTIVE_LOG, sf_bytes = au_disk (run (log_step sample_sha) fresh_log sample_log),
     sf_end = Complete, sf_seen = 0\<rparr>"

definition sample_in :: evidence_in where
  "sample_in = \<lparr>ei_ledger_path = [], ei_ledger = NoLedger, ei_retain = asc ''90'',
     ei_files = [sample_seg], ei_save_error = None, ei_now = []\<rparr>"

definition sample_disk :: evidence_disk where
  "sample_disk = \<lparr>ed_checkpoints = NoFile, ed_evidence = [], ed_anchor = NoFile\<rparr>"

lemma sample_good: "\<forall>ev\<in>set sample_log. good_event ev"
  using scalar_asc by (simp add: sample_log_def good_event_def good_entry_def asc_eq_iff)

lemma sample_bytes:
  defines "r \<equiv> stamp sample_sha 0 CHAIN_GENESIS [(asc ''ts'', JStr (asc ''t''))]"
  shows "sf_bytes sample_seg = utf8_encode (log_text [r])" "wf_json True (JObj r)"
    "linked sample_sha CHAIN_GENESIS 0 [r]"
proof -
  have h0: "holds_chain sample_sha CHAIN_GENESIS 0 [] fresh_log"
    unfolding fresh_log_def by (rule init_holds_chain)
  then have "au_seq fresh_log = 0" "au_prev fresh_log = CHAIN_GENESIS"
    by (simp_all add: holds_chain_def)
  moreover have "good_entry [(asc ''ts'', JStr (asc ''t''))]"
    using sample_good by (simp add: sample_log_def good_event_def)
  ultimately have "holds_chain sample_sha CHAIN_GENESIS 0 [r] (run (log_step sample_sha) fresh_log sample_log)"
    using emit_holds_chain [OF h0 _ sample_sha_hex] genesis_scalar by (simp add: sample_log_def r_def)
  then show "sf_bytes sample_seg = utf8_encode (log_text [r])" "wf_json True (JObj r)"
    "linked sample_sha CHAIN_GENESIS 0 [r]"
    by (simp_all add: holds_chain_def sample_seg_def)
qed

lemma sample_conditions:
  "hex_sha (el_sha sample_lib)"
  "au_disk (run (log_step (el_sha sample_lib)) fresh_log sample_log) = concat (map sf_bytes [sample_seg])"
  "list_all (\<lambda>f. cut_at_lines (sf_bytes f) \<and> sf_end f = Complete) [sample_seg]"
  "sorted (map (seg_stamp sample_lib) [sample_seg])"
  "dget (seg_head (hd [sample_seg])) (asc ''ts'') = Some (JStr (asc ''t''))"
  "mset (ei_files sample_in) = mset [sample_seg]"
  "ap_error (load_approvals sample_lib (ei_ledger_path sample_in) (ei_ledger sample_in)) = None"
  "snd (retain_segments sample_lib (ei_retain sample_in)) = None" "ei_save_error sample_in = None"
proof -
  show "snd (retain_segments sample_lib (ei_retain sample_in)) = None"
    by (simp add: sample_in_def) code_simp
  let ?r = "stamp sample_sha 0 CHAIN_GENESIS [(asc ''ts'', JStr (asc ''t''))]"
  have "chain_records (sf_bytes sample_seg) = [?r]"
    using chain_records_log [of "[?r]"] sample_bytes by simp
  then show "dget (seg_head (hd [sample_seg])) (asc ''ts'') = Some (JStr (asc ''t''))"
    by (simp add: seg_head_def stamp_def Let_def asc_eq_iff)
  show "list_all (\<lambda>f. cut_at_lines (sf_bytes f) \<and> sf_end f = Complete) [sample_seg]"
    by (simp add: cut_at_lines_def sample_bytes(1))
       (simp add: sample_seg_def log_text_def utf8_encode_append utf8_encode_Cons encode_char_ascii)
qed (simp_all add: sample_lib_def sample_seg_def sample_in_def load_approvals_def)

lemma sample_evidence_run: "\<exists>d'. evidence_main sample_lib sample_in sample_disk = (Inr 0, d')"
  using logger_log_accepted [OF sample_conditions(1) sample_good sample_conditions(2) _
      sample_conditions(3-9)] by blast



theorem retained_history_grounded_witness:
  "\<exists>rss es. list_all2 (seg_holds sample_lib) [sample_seg] rss \<and> mset (concat es) = mset (concat rss) \<and>
     (\<forall>e\<in>set es. \<exists>p s before. p = CHAIN_GENESIS \<and> s = 0 \<and> linked sample_sha p s (before @ e))"
proof -
  obtain d' where d: "evidence_main sample_lib sample_in sample_disk = (Inr 0, d')"
    using sample_evidence_run by blast
  have f: "ei_files sample_in = [sample_seg]" "el_sha sample_lib = sample_sha"
      "set [] \<union> set (dkeys (ap_heads (load_approvals sample_lib (ei_ledger_path sample_in)
         (ei_ledger sample_in)))) = {}"
    by (simp_all add: sample_in_def sample_lib_def load_approvals_def dkeys_def)
  have "ed_checkpoints sample_disk = NoFile" by (simp add: sample_disk_def)
  from retained_history_grounded [OF this _ d refl, of "[]" "[]"]
  show ?thesis unfolding f by simp
qed

subsection \<open>Publishing an anchor\<close>

text \<open>The gate before publishing. The local anchor may replace a remote one that is valid and of the same
  epoch exactly when it is ahead of it, or at the same record with the same chain value; otherwise
  the exit code is 4. A remote file that is too long, does not decode or is not an object is never
  overwritten.\<close>

theorem publish_never_regresses:
  "(\<forall>r l e rs ls. length raw \<le> MAX_ANCHOR_BYTES \<and> utf8_encode (utf8_decode raw) = raw \<and>
      loads (utf8_decode raw) = Some (JObj r) \<and> dget r (asc ''valid'') = Some (JBool True) \<and>
      dget r (asc ''latest_epoch'') = Some (JStr e) \<and> dget l (asc ''latest_epoch'') = Some (JStr e) \<and>
      seq_at ''latest_seq'' r = Some rs \<and> seq_at ''latest_seq'' l = Some ls \<longrightarrow>
      fst (compare_remote_anchor L (Inr raw) (Doc (JObj l))) =
        (if rs < ls \<or> rs = ls \<and>
           py_eq L (get_or JNull r ''latest_chain'') (get_or JNull l ''latest_chain'') then 0 else 4)) \<and>
   (\<forall>af. length raw > MAX_ANCHOR_BYTES \<or> utf8_encode (utf8_decode raw) \<noteq> raw \<or>
      (\<forall>r. loads (utf8_decode raw) \<noteq> Some (JObj r)) \<longrightarrow>
      fst (compare_remote_anchor L (Inr raw) af) = 2)"
proof (intro conjI allI impI)
  fix r l e rs ls
  assume "length raw \<le> MAX_ANCHOR_BYTES \<and> utf8_encode (utf8_decode raw) = raw \<and>
      loads (utf8_decode raw) = Some (JObj r) \<and> dget r (asc ''valid'') = Some (JBool True) \<and>
      dget r (asc ''latest_epoch'') = Some (JStr e) \<and> dget l (asc ''latest_epoch'') = Some (JStr e) \<and>
      seq_at ''latest_seq'' r = Some rs \<and> seq_at ''latest_seq'' l = Some ls"
  then show "fst (compare_remote_anchor L (Inr raw) (Doc (JObj l))) =
        (if rs < ls \<or> rs = ls \<and>
           py_eq L (get_or JNull r ''latest_chain'') (get_or JNull l ''latest_chain'') then 0 else 4)"
    by (auto simp: compare_remote_anchor_def compare_anchors_def Let_def get_or_def py_eq_def)
next
  fix af
  assume "length raw > MAX_ANCHOR_BYTES \<or> utf8_encode (utf8_decode raw) \<noteq> raw \<or>
      (\<forall>r. loads (utf8_decode raw) \<noteq> Some (JObj r))"
  then show "fst (compare_remote_anchor L (Inr raw) af) = 2"
    by (auto simp: compare_remote_anchor_def compare_anchors_def Let_def
        split: option.splits json_file.splits json.splits)
qed

definition sample_remote :: pystr where
  "sample_remote = asc ''{ \"valid\": true, \"latest_epoch\": \"e\", \"latest_seq\": 7}''"

theorem publish_never_regresses_witness:
  "fst (compare_remote_anchor sample_lib (Inr sample_remote)
     (Doc (JObj [(asc ''latest_epoch'', JStr (asc ''e'')), (asc ''latest_seq'', JInt 6)]))) = 4"
proof -
  have "loads sample_remote = Some (JObj [(asc ''valid'', JBool True),
      (asc ''latest_epoch'', JStr (asc ''e'')), (asc ''latest_seq'', JInt 7)])"
    by code_simp
  moreover have "\<forall>c\<in>set sample_remote. c < 128" by code_simp
  then have "utf8_encode sample_remote = sample_remote" "utf8_decode sample_remote = sample_remote"
    using asc_ascii_encode decode_encode by (metis scalar_low)+
  moreover have "length sample_remote \<le> MAX_ANCHOR_BYTES" by (simp add: sample_remote_def MAX_ANCHOR_BYTES_def asc_def)
  ultimately show ?thesis
    using publish_never_regresses [THEN conjunct1, rule_format, of sample_remote
        "[(asc ''valid'', JBool True), (asc ''latest_epoch'', JStr (asc ''e'')), (asc ''latest_seq'', JInt 7)]"
        "asc ''e''" "[(asc ''latest_epoch'', JStr (asc ''e'')), (asc ''latest_seq'', JInt 6)]" 7 6 sample_lib]
    by (simp add: asc_eq_iff seq_at_def)
qed

subsection \<open>What stops the job\<close>

text \<open>A record the server wrote and its verifier accepts may hold a lone surrogate; the job encodes
  strictly, cannot hash it, and reports the whole segment as unreadable.\<close>

lemma surrogate_row_refused:
  defines "r \<equiv> [(asc ''args'', JObj [(asc ''command'', JStr (asc ''rm '' @ [0xD800]))]),
     (asc ''seq'', JInt 0), (asc ''prev'', JStr CHAIN_GENESIS)]"
  shows "\<exists>st. verify_record sha verify_init (r @ [(asc ''chain'', JStr (chain_value sha CHAIN_GENESIS r))]) = Inr st"
    and "seg_record sha loc (r @ [(asc ''chain'', JStr (chain_value sha CHAIN_GENESIS r))]) seg_init = None"
proof -
  let ?w = "r @ [(asc ''chain'', JStr (chain_value sha CHAIN_GENESIS r))]"
  have f: "seq_of ?w = Some 0" "prev_of ?w = Some CHAIN_GENESIS"
      "chain_of ?w = Some (chain_value sha CHAIN_GENESIS r)" "chain_body ?w = r"
    by (simp_all add: r_def seq_of_def prev_of_def chain_of_def chain_body_def asc_eq_iff)
  show "\<exists>st. verify_record sha verify_init ?w = Inr st"
    by (simp add: verify_record_def verify_init_def f Let_def)
  have "0xD800 \<in> set (canonical_json (JObj r))"
    by (simp add: r_def canonical_json_def dump_str_def esc_char_def fmt_compact_def asc_def)
  then have "list_ex is_surrogate (CHAIN_GENESIS @ canonical_json (JObj r))"
    by (auto simp: list_ex_iff is_surrogate_def)
  then show "seg_record sha loc ?w seg_init = None"
    by (simp add: seg_record_None canonical_chain_def f)
qed

text \<open>A damaged compressed segment (the \<open>EOFError\<close> or \<open>zlib.error\<close> of reading it) is an exception the job
  does not catch: it writes nothing, so the anchor and the checkpoints stay what the last run left,
  also where that anchor says the history is valid.\<close>

theorem damaged_archive_leaves_anchor:
  assumes "f \<in> set (ei_files i)" "verify_segment L f = Inl e"
  shows "\<exists>e'. evidence_main L i d = (Inl e', d)"
proof -
  have "\<exists>e'. verify_all L fs = Inl e'" if "f \<in> set fs" for fs
    using that
  proof (induction fs)
    case (Cons g gs)
    then show ?case
      using assms(2) by (cases "g = f"; cases "verify_segment L g"; cases "verify_all L gs") auto
  qed simp
  then obtain e' where "verify_all L (ei_files i) = Inl e'" using assms(1) by blast
  then show ?thesis by (simp add: evidence_main_def examine_def Let_def split: prod.split)
qed

theorem damaged_archive_leaves_anchor_witness:
  "\<exists>e'. evidence_main sample_lib
     (sample_in\<lparr>ei_files := [\<lparr>sf_name = asc ''audit.jsonl.1.gz'', sf_bytes = [], sf_end = Escaping (asc ''EOFError''),
        sf_seen = 0\<rparr>]\<rparr>) sample_disk = (Inl e', sample_disk)"
  by (rule damaged_archive_leaves_anchor [where f = "\<lparr>sf_name = asc ''audit.jsonl.1.gz'', sf_bytes = [],
        sf_end = Escaping (asc ''EOFError''), sf_seen = 0\<rparr>" and e = "asc ''EOFError''"])
     (simp_all add: sample_in_def verify_segment_def seg_lines_def Let_def)

end
