(* ===== verification/Regex.thy ===== *)
theory Regex
  imports Prelude
begin

text \<open>
  The part of Python's \<open>re\<close> that \<open>src/relay_shell/patterns.py\<close> uses: the abstract syntax, the
  backtracking matcher, \<open>search\<close> and \<open>sub\<close>, and the reader of pattern texts. The matcher returns
  every way to match at a place, in the order in which backtracking tries them: \<open>search\<close> asks
  whether there is one, \<open>sub\<close> takes the first. Characters are code points; the classes of the
  code points above 127 are a parameter (\<open>unidb\<close>).
\<close>

subsection \<open>Syntax\<close>

datatype cls_item = One nat | Range nat nat | Word bool | Space bool | Digit bool

datatype greed = Greedy | Lazy | Possessive

datatype rx =
    Eps
  | Cls bool "cls_item list"            \<comment> \<open>one character; \<open>True\<close> for a negated class\<close>
  | Dot
  | Bol | Eol | WordB bool
  | Cat rx rx
  | Alt rx rx
  | Rep greed nat "nat option" rx
  | Grp nat rx
  | BackRef nat
  | Ahead bool rx | Behind bool rx      \<comment> \<open>\<open>False\<close> for the negated forms\<close>

abbreviation Lit :: "nat \<Rightarrow> rx" where
  "Lit c \<equiv> Cls False [One c]"

record flags =
  icase :: bool
  multiline :: bool
  ascii_only :: bool

record unidb =
  u_word :: "nat \<Rightarrow> bool"
  u_space :: "nat \<Rightarrow> bool"
  u_digit :: "nat \<Rightarrow> bool"

text \<open>A database in which no code point above 127 is of any class, for examples.\<close>

definition ascii_db :: unidb where
  "ascii_db = \<lparr>u_word = (\<lambda>_. False), u_space = (\<lambda>_. False), u_digit = (\<lambda>_. False)\<rparr>"

record regex =
  re_rx :: rx
  re_flags :: flags
  re_names :: "(pystr \<times> nat) list"

subsection \<open>Characters\<close>

definition word_char :: "unidb \<Rightarrow> flags \<Rightarrow> nat \<Rightarrow> bool" where
  "word_char U fl c \<longleftrightarrow>
     (if c < 128 then (48 \<le> c \<and> c \<le> 57) \<or> (65 \<le> c \<and> c \<le> 90) \<or> c = 95 \<or> (97 \<le> c \<and> c \<le> 122)
      else \<not> ascii_only fl \<and> u_word U c)"

text \<open>Without \<open>re.ASCII\<close> the four information separators are whitespace, with it they are not.\<close>

definition space_char :: "unidb \<Rightarrow> flags \<Rightarrow> nat \<Rightarrow> bool" where
  "space_char U fl c \<longleftrightarrow>
     (if c < 128 then c = 32 \<or> (9 \<le> c \<and> c \<le> 13) \<or> (\<not> ascii_only fl \<and> 28 \<le> c \<and> c \<le> 31)
      else \<not> ascii_only fl \<and> u_space U c)"

definition digit_char :: "unidb \<Rightarrow> flags \<Rightarrow> nat \<Rightarrow> bool" where
  "digit_char U fl c \<longleftrightarrow>
     (if c < 128 then 48 \<le> c \<and> c \<le> 57 else \<not> ascii_only fl \<and> u_digit U c)"

text \<open>Under \<open>IGNORECASE\<close> a character stands for its lower case; four characters above 127 have an
  ASCII letter as a case variant.\<close>

definition fold_char :: "flags \<Rightarrow> nat \<Rightarrow> nat" where
  "fold_char fl c =
     (if \<not> icase fl then c
      else if c < 128 \<or> ascii_only fl then lower_char c
      else if c = 304 \<or> c = 305 then 105
      else if c = 383 then 115
      else if c = 8490 then 107
      else c)"

definition range_has :: "flags \<Rightarrow> nat \<Rightarrow> nat \<Rightarrow> nat \<Rightarrow> bool" where
  "range_has fl a b c \<longleftrightarrow>
     (let y = fold_char fl c in
      (a \<le> y \<and> y \<le> b) \<or> (icase fl \<and> a \<le> upper_char y \<and> upper_char y \<le> b))"

fun item_has :: "unidb \<Rightarrow> flags \<Rightarrow> cls_item \<Rightarrow> nat \<Rightarrow> bool" where
  "item_has U fl (One a) c \<longleftrightarrow> range_has fl a a c"
| "item_has U fl (Range a b) c \<longleftrightarrow> range_has fl a b c"
| "item_has U fl (Word p) c \<longleftrightarrow> word_char U fl c = p"
| "item_has U fl (Space p) c \<longleftrightarrow> space_char U fl c = p"
| "item_has U fl (Digit p) c \<longleftrightarrow> digit_char U fl c = p"

definition cls_has :: "unidb \<Rightarrow> flags \<Rightarrow> bool \<Rightarrow> cls_item list \<Rightarrow> nat \<Rightarrow> bool" where
  "cls_has U fl neg is c \<longleftrightarrow> list_ex (\<lambda>i. item_has U fl i c) is \<noteq> neg"

subsection \<open>Matching\<close>

text \<open>A place in the text: what is to its left (nearest first), what is to its right, and the
  groups matched so far.\<close>

datatype place = At (left: pystr) (right: pystr) (caps: "(nat \<times> pystr) list")

definition take_char :: "(nat \<Rightarrow> bool) \<Rightarrow> place \<Rightarrow> place list" where
  "take_char P p = (case right p of
      [] \<Rightarrow> []
    | c # s \<Rightarrow> if P c then [At (c # left p) s (caps p)] else [])"

fun take_text :: "(nat \<Rightarrow> nat) \<Rightarrow> pystr \<Rightarrow> place \<Rightarrow> place list" where
  "take_text f [] p = [p]"
| "take_text f (x # w) (At l [] g) = []"
| "take_text f (x # w) (At l (c # s) g) = (if f c = f x then take_text f w (At (c # l) s g) else [])"

definition at_bol :: "flags \<Rightarrow> place \<Rightarrow> bool" where
  "at_bol fl p \<longleftrightarrow> left p = [] \<or> multiline fl \<and> hd (left p) = 10"

definition at_eol :: "flags \<Rightarrow> place \<Rightarrow> bool" where
  "at_eol fl p \<longleftrightarrow> right p = [] \<or> right p = [10] \<or> multiline fl \<and> hd (right p) = 10"

definition at_word_boundary :: "unidb \<Rightarrow> flags \<Rightarrow> place \<Rightarrow> bool" where
  "at_word_boundary U fl p \<longleftrightarrow>
     (left p \<noteq> [] \<and> word_char U fl (hd (left p))) \<noteq> (right p \<noteq> [] \<and> word_char U fl (hd (right p)))"

definition moved :: "place \<Rightarrow> place \<Rightarrow> bool" where
  "moved p q \<longleftrightarrow> length (right q) < length (right p)"

definition look_back :: "place \<Rightarrow> place list" where
  "look_back p = (case left p of [] \<Rightarrow> [] | c # l \<Rightarrow> [At l (c # right p) (caps p)])"

text \<open>The text between two places, the second further on.\<close>

definition between :: "place \<Rightarrow> place \<Rightarrow> pystr" where
  "between p q = take (length (right p) - length (right q)) (right p)"

text \<open>\<open>again f lazy n p\<close>: up to \<open>n\<close> more rounds, each of which must move.\<close>

primrec again :: "(place \<Rightarrow> place list) \<Rightarrow> bool \<Rightarrow> nat \<Rightarrow> place \<Rightarrow> place list" where
  "again f lzy 0 p = [p]"
| "again f lzy (Suc n) p =
     (let more = concat (map (again f lzy n) (filter (moved p) (f p)))
      in if lzy then p # more else more @ [p])"

primrec rounds :: "(place \<Rightarrow> place list) \<Rightarrow> nat \<Rightarrow> place \<Rightarrow> place list" where
  "rounds f 0 p = [p]"
| "rounds f (Suc n) p = concat (map (rounds f n) (f p))"

text \<open>An unbounded repetition makes at most as many further rounds as there are characters.\<close>

definition more_rounds :: "nat \<Rightarrow> nat option \<Rightarrow> place \<Rightarrow> nat" where
  "more_rounds lo hi p =
     (case hi of None \<Rightarrow> length (right p) | Some h \<Rightarrow> min (h - lo) (length (right p)))"

definition repeat ::
  "(place \<Rightarrow> place list) \<Rightarrow> greed \<Rightarrow> nat \<Rightarrow> nat option \<Rightarrow> place \<Rightarrow> place list" where
  "repeat f g lo hi p =
     (let qs = concat (map (\<lambda>q. again f (g = Lazy) (more_rounds lo hi q) q) (rounds f lo p))
      in if g = Possessive then take 1 qs else qs)"

fun outs :: "unidb \<Rightarrow> flags \<Rightarrow> rx \<Rightarrow> place \<Rightarrow> place list" where
  "outs U fl Eps p = [p]"
| "outs U fl (Cls neg is) p = take_char (cls_has U fl neg is) p"
| "outs U fl Dot p = take_char (\<lambda>c. c \<noteq> 10) p"
| "outs U fl Bol p = (if at_bol fl p then [p] else [])"
| "outs U fl Eol p = (if at_eol fl p then [p] else [])"
| "outs U fl (WordB b) p = (if at_word_boundary U fl p = b then [p] else [])"
| "outs U fl (Cat r s) p = concat (map (outs U fl s) (outs U fl r p))"
| "outs U fl (Alt r s) p = outs U fl r p @ outs U fl s p"
| "outs U fl (Rep g lo hi r) p = repeat (outs U fl r) g lo hi p"
| "outs U fl (Grp n r) p =
     map (\<lambda>q. At (left q) (right q) (dset n (between p q) (caps q))) (outs U fl r p)"
| "outs U fl (BackRef n) p =
     (case dget (caps p) n of None \<Rightarrow> [] | Some w \<Rightarrow> take_text (fold_char fl) w p)"
| "outs U fl (Ahead b r) p = (if (outs U fl r p \<noteq> []) = b then [p] else [])"
| "outs U fl (Behind b r) p =
     (if (list_ex (\<lambda>q. list_ex (\<lambda>q'. right q' = right p) (outs U fl r q)) (look_back p)) = b
      then [p] else [])"

text \<open>\<open>pattern.search(text)\<close>, as a test.\<close>

fun search_from :: "unidb \<Rightarrow> regex \<Rightarrow> pystr \<Rightarrow> pystr \<Rightarrow> bool" where
  "search_from U R l s \<longleftrightarrow>
     outs U (re_flags R) (re_rx R) (At l s []) \<noteq> [] \<or>
     (case s of [] \<Rightarrow> False | c # s' \<Rightarrow> search_from U R (c # l) s')"

declare search_from.simps [simp del]

definition search :: "unidb \<Rightarrow> regex \<Rightarrow> pystr \<Rightarrow> bool" where
  "search U R s \<longleftrightarrow> search_from U R [] s"

text \<open>A match is a stretch of the text: what was to the right is now to the left.\<close>

definition advance :: "place \<Rightarrow> place \<Rightarrow> pystr \<Rightarrow> bool" where
  "advance p q w \<longleftrightarrow> right p = w @ right q \<and> left q = rev w @ left p"

lemma advance_refl [simp]: "right q = right p \<Longrightarrow> left q = left p \<Longrightarrow> advance p q []"
  by (simp add: advance_def)

lemma advance_trans: "advance p q v \<Longrightarrow> advance q r w \<Longrightarrow> advance p r (v @ w)"
  by (simp add: advance_def)

lemma again_advance:
  assumes "\<And>p q. q \<in> set (f p) \<Longrightarrow> \<exists>w. advance p q w"
  shows "q \<in> set (again f lzy n p) \<Longrightarrow> \<exists>w. advance p q w"
proof (induction n arbitrary: p)
  case (Suc n)
  then show ?case
    using assms advance_trans by (fastforce simp: Let_def split: if_splits intro: advance_refl)
qed (auto intro: exI [of _ "[]"])

lemma rounds_advance:
  assumes "\<And>p q. q \<in> set (f p) \<Longrightarrow> \<exists>w. advance p q w"
  shows "q \<in> set (rounds f n p) \<Longrightarrow> \<exists>w. advance p q w"
proof (induction n arbitrary: p)
  case (Suc n)
  then show ?case using assms advance_trans by fastforce
qed (auto intro: exI [of _ "[]"])

lemma take_text_advance: "q \<in> set (take_text f w p) \<Longrightarrow> \<exists>v. advance p q v"
proof (induction f w p rule: take_text.induct)
  case (3 f x w l c s g)
  then obtain v where "advance (At (c # l) s g) q v" by (auto split: if_splits)
  then show ?case by (intro exI [of _ "c # v"]) (simp add: advance_def)
qed (auto intro: exI [of _ "[]"])

lemma outs_advance: "q \<in> set (outs U fl r p) \<Longrightarrow> \<exists>w. advance p q w"
proof (induction r arbitrary: p q)
  case (Cls neg items)
  then show ?case
    by (auto simp: take_char_def advance_def split: list.splits if_splits intro: exI [of _ "[_]"])
next
  case Dot
  then show ?case
    by (auto simp: take_char_def advance_def split: list.splits if_splits intro: exI [of _ "[_]"])
next
  case (Cat r s)
  then show ?case using advance_trans by fastforce
next
  case (Rep g lo hi r)
  then obtain m where m: "m \<in> set (rounds (outs U fl r) lo p)"
      "q \<in> set (again (outs U fl r) (g = Lazy) (more_rounds lo hi m) m)"
    by (auto simp: repeat_def Let_def split: if_splits dest!: in_set_takeD)
  then show ?case
    using rounds_advance again_advance advance_trans Rep.IH by metis
next
  case (Grp n r)
  then show ?case by (fastforce simp: advance_def)
next
  case (BackRef n)
  then show ?case using take_text_advance by (auto split: option.splits)
qed (auto split: if_splits intro: exI [of _ "[]"])

lemma outs_shorter: "q \<in> set (outs U fl r p) \<Longrightarrow> length (right q) \<le> length (right p)"
  using outs_advance by (fastforce simp: advance_def)

lemma found_out:
  "find P (outs U fl r p) = Some q \<Longrightarrow> P q \<and> length (right q) \<le> length (right p)"
  using outs_shorter by (metis find_Some_iff nth_mem)

text \<open>\<open>pattern.sub(repl, text)\<close>. The replacement sees the groups and the matched text. After an
  empty match the next one at the same place must move (\<open>must\<close>).\<close>

type_synonym replacement = "(nat \<times> pystr) list \<Rightarrow> pystr \<Rightarrow> pystr"

function sub_from ::
  "unidb \<Rightarrow> regex \<Rightarrow> replacement \<Rightarrow> bool \<Rightarrow> pystr \<Rightarrow> pystr \<Rightarrow> pystr" where
  "sub_from U R f must l s =
     (let p = At l s [] in
      case find (\<lambda>q. \<not> must \<or> moved p q) (outs U (re_flags R) (re_rx R) p) of
        Some q \<Rightarrow> f (caps q) (between p q) @ sub_from U R f (\<not> moved p q) (left q) (right q)
      | None \<Rightarrow> (case s of [] \<Rightarrow> [] | c # s' \<Rightarrow> c # sub_from U R f False (c # l) s'))"
  by pat_completeness auto
termination
  by (relation "measures [\<lambda>(U, R, f, must, l, s). length s,
        \<lambda>(U, R, f, must, l, s). if must then 0 else 1]")
     (auto simp: moved_def dest!: found_out)

declare sub_from.simps [simp del]

definition sub :: "unidb \<Rightarrow> regex \<Rightarrow> replacement \<Rightarrow> pystr \<Rightarrow> pystr" where
  "sub U R f s = sub_from U R f False [] s"

end
