(* ===== verification/RegexSyntax.thy ===== *)
theory RegexSyntax
  imports Regex
begin

text \<open>
  The concrete syntax of \<open>re\<close> as far as \<open>patterns.py\<close> uses it, read one character at a time by a
  machine: a state, and a step per character. A pattern text is written with \<open>~\<close> for the
  backslash, which a literal of the logic cannot hold (no pattern of the source contains a tilde).
\<close>

definition raw :: "string \<Rightarrow> pystr" where
  "raw s = map (\<lambda>c. if c = 126 then 92 else c) (asc s)"

subsection \<open>The state of the reader\<close>

text \<open>An open group remembers what it will become, and the alternatives and items outside it.\<close>

datatype opener = Plain | Capture nat | LookAhead bool | LookBehind bool

datatype open_group = Open opener "rx list" "rx list"

datatype rmode =
    Norm
  | Escaped
  | Paren | ParenQ | ParenP | ParenLt
  | GroupName pystr | RefName pystr
  | FlagLetters
  | ClsOpen | ClsIn bool "cls_item list" | ClsEsc bool "cls_item list"
  | ClsDash bool "cls_item list" nat | ClsDashEsc bool "cls_item list" nat
  | Brace nat "nat option" bool      \<comment> \<open>lower bound, upper bound so far, after the comma\<close>
  | Quantified nat "nat option"      \<comment> \<open>a suffix \<open>?\<close> or \<open>+\<close> may follow\<close>
  | Comment
  | Bad

text \<open>Mode, open groups, the alternatives and items of the innermost group (in reverse), the number
  of groups and their names, and the flags \<open>i\<close>, \<open>m\<close>, \<open>x\<close>.\<close>

datatype reader =
  Reader rmode "open_group list" "rx list" "rx list" nat "(pystr \<times> nat) list" bool bool bool

definition start_reader :: reader where
  "start_reader = Reader Norm [] [] [] 0 [] False False False"

fun cat_before :: "rx list \<Rightarrow> rx \<Rightarrow> rx" where
  "cat_before [] r = r"
| "cat_before (q # qs) r = cat_before qs (Cat q r)"

fun alt_before :: "rx list \<Rightarrow> rx \<Rightarrow> rx" where
  "alt_before [] r = r"
| "alt_before (q # qs) r = alt_before qs (Alt q r)"

fun seq_of :: "rx list \<Rightarrow> rx" where
  "seq_of [] = Eps"
| "seq_of (r # rs) = cat_before rs r"

definition group_body :: "rx list \<Rightarrow> rx list \<Rightarrow> rx" where
  "group_body as xs = alt_before as (seq_of xs)"

fun wrap :: "opener \<Rightarrow> rx \<Rightarrow> rx" where
  "wrap Plain r = r"
| "wrap (Capture n) r = Grp n r"
| "wrap (LookAhead b) r = Ahead b r"
| "wrap (LookBehind b) r = Behind b r"

subsection \<open>Characters of a pattern\<close>

text \<open>What a character asks for outside classes, escapes and quantifiers. In verbose mode blanks are
  skipped and \<open>#\<close> starts a comment.\<close>

datatype action = Skip | Go rmode | Close | Bar | Item rx

definition norm_action :: "bool \<Rightarrow> nat \<Rightarrow> action" where
  "norm_action verbose c =
     (if verbose \<and> (c = 32 \<or> (9 \<le> c \<and> c \<le> 13)) then Skip
      else if verbose \<and> c = 35 then Go Comment
      else if c = 92 then Go Escaped
      else if c = 40 then Go Paren
      else if c = 41 then Close
      else if c = 124 then Bar
      else if c = 91 then Go ClsOpen
      else if c = 42 then Go (Quantified 0 None)
      else if c = 43 then Go (Quantified 1 None)
      else if c = 63 then Go (Quantified 0 (Some 1))
      else if c = 123 then Go (Brace 0 None False)
      else if c = 46 then Item Dot
      else if c = 94 then Item Bol
      else if c = 36 then Item Eol
      else Item (Lit c))"

definition cls_escape :: "nat \<Rightarrow> cls_item" where
  "cls_escape c =
     (if c = 119 then Word True else if c = 87 then Word False
      else if c = 115 then Space True else if c = 83 then Space False
      else if c = 100 then Digit True else if c = 68 then Digit False
      else if c = 110 then One 10 else if c = 114 then One 13 else if c = 116 then One 9
      else One c)"

definition escape_item :: "nat \<Rightarrow> rx" where
  "escape_item c =
     (if c = 98 then WordB True else if c = 66 then WordB False else Cls False [cls_escape c])"

text \<open>After \<open>(?\<close>: an opener, a further mode, or a flag letter.\<close>

datatype paren_kind = Opens opener | Leads rmode | FlagLetter

definition paren_kind :: "nat \<Rightarrow> paren_kind" where
  "paren_kind c =
     (if c = 58 then Opens Plain
      else if c = 61 then Opens (LookAhead True)
      else if c = 33 then Opens (LookAhead False)
      else if c = 60 then Leads ParenLt
      else if c = 80 then Leads ParenP
      else FlagLetter)"

definition behind_kind :: "nat \<Rightarrow> paren_kind" where
  "behind_kind c =
     (if c = 33 then Opens (LookBehind False)
      else if c = 61 then Opens (LookBehind True)
      else Leads Bad)"

definition named_kind :: "nat \<Rightarrow> rmode" where
  "named_kind c = (if c = 60 then GroupName [] else if c = 61 then RefName [] else Bad)"

text \<open>The next mode inside a class, or the finished class.\<close>

definition cls_action :: "bool \<Rightarrow> cls_item list \<Rightarrow> nat \<Rightarrow> action" where
  "cls_action neg items c =
     (if c = 93 then Item (Cls neg (rev items))
      else if c = 92 then Go (ClsEsc neg items)
      else if c = 45 then
        (case items of One a # items' \<Rightarrow> Go (ClsDash neg items' a)
                     | _ \<Rightarrow> Go (ClsIn neg (One c # items)))
      else Go (ClsIn neg (One c # items)))"

definition dash_action :: "bool \<Rightarrow> cls_item list \<Rightarrow> nat \<Rightarrow> nat \<Rightarrow> action" where
  "dash_action neg items a c =
     (if c = 93 then Item (Cls neg (rev (One 45 # One a # items)))
      else if c = 92 then Go (ClsDashEsc neg items a)
      else Go (ClsIn neg (Range a c # items)))"

definition dash_esc_action :: "bool \<Rightarrow> cls_item list \<Rightarrow> nat \<Rightarrow> nat \<Rightarrow> action" where
  "dash_esc_action neg items a c =
     (case cls_escape c of One b \<Rightarrow> Go (ClsIn neg (Range a b # items)) | _ \<Rightarrow> Go Bad)"

definition brace_mode :: "nat \<Rightarrow> nat option \<Rightarrow> bool \<Rightarrow> nat \<Rightarrow> rmode" where
  "brace_mode lo hi comma c =
     (if 48 \<le> c \<and> c \<le> 57 then
        (if comma
         then Brace lo (Some (10 * (case hi of None \<Rightarrow> 0 | Some h \<Rightarrow> h) + (c - 48))) True
         else Brace (10 * lo + (c - 48)) None False)
      else if c = 44 \<and> \<not> comma then Brace lo None True
      else if c = 125 then Quantified lo (if comma then hi else Some lo)
      else Bad)"

datatype suffix = Suffix greed | NoSuffix action

definition quant_suffix :: "bool \<Rightarrow> nat \<Rightarrow> suffix" where
  "quant_suffix verbose c =
     (if c = 63 then Suffix Lazy else if c = 43 then Suffix Possessive
      else NoSuffix (norm_action verbose c))"

subsection \<open>Steps\<close>

fun do_action :: "action \<Rightarrow> reader \<Rightarrow> reader" where
  "do_action Skip st = st"
| "do_action (Go m) (Reader _ os as xs n ns i mu v) = Reader m os as xs n ns i mu v"
| "do_action Close (Reader _ [] as xs n ns i mu v) = Reader Bad [] as xs n ns i mu v"
| "do_action Close (Reader _ (Open k as' xs' # os) as xs n ns i mu v) =
     Reader Norm os as' (wrap k (group_body as xs) # xs') n ns i mu v"
| "do_action Bar (Reader _ os as xs n ns i mu v) = Reader Norm os (seq_of xs # as) [] n ns i mu v"
| "do_action (Item r) (Reader _ os as xs n ns i mu v) = Reader Norm os as (r # xs) n ns i mu v"

text \<open>A quantifier takes the last item.\<close>

fun quantify :: "greed \<Rightarrow> nat \<Rightarrow> nat option \<Rightarrow> reader \<Rightarrow> reader" where
  "quantify g lo hi (Reader _ os as [] n ns i mu v) = Reader Bad os as [] n ns i mu v"
| "quantify g lo hi (Reader _ os as (r # xs) n ns i mu v) =
     Reader Norm os as (Rep g lo hi r # xs) n ns i mu v"

fun do_suffix :: "suffix \<Rightarrow> nat \<Rightarrow> nat option \<Rightarrow> reader \<Rightarrow> reader" where
  "do_suffix (Suffix g) lo hi st = quantify g lo hi st"
| "do_suffix (NoSuffix a) lo hi (Reader _ os as [] n ns i mu v) = Reader Bad os as [] n ns i mu v"
| "do_suffix (NoSuffix a) lo hi (Reader _ os as (r # xs) n ns i mu v) =
     do_action a (Reader Norm os as (Rep Greedy lo hi r # xs) n ns i mu v)"

fun do_paren :: "paren_kind \<Rightarrow> nat \<Rightarrow> reader \<Rightarrow> reader" where
  "do_paren (Opens k) c (Reader _ os as xs n ns i mu v) =
     Reader Norm (Open k as xs # os) [] [] n ns i mu v"
| "do_paren (Leads m) c (Reader _ os as xs n ns i mu v) = Reader m os as xs n ns i mu v"
| "do_paren FlagLetter c (Reader _ os as xs n ns i mu v) =
     Reader (if c = 41 then Norm else if c = 105 \<or> c = 109 \<or> c = 120 then FlagLetters else Bad)
       os as xs n ns (i \<or> c = 105) (mu \<or> c = 109) (v \<or> c = 120)"

fun begin_capture :: "reader \<Rightarrow> reader" where
  "begin_capture (Reader _ os as xs n ns i mu v) =
     Reader Norm (Open (Capture (n + 1)) as xs # os) [] [] (n + 1) ns i mu v"

datatype name_end = NameGoesOn | NameEnds

definition name_end :: "nat \<Rightarrow> nat \<Rightarrow> name_end" where
  "name_end stop c = (if c = stop then NameEnds else NameGoesOn)"

fun do_group_name :: "name_end \<Rightarrow> pystr \<Rightarrow> nat \<Rightarrow> reader \<Rightarrow> reader" where
  "do_group_name NameGoesOn w c (Reader _ os as xs n ns i mu v) =
     Reader (GroupName (w @ [c])) os as xs n ns i mu v"
| "do_group_name NameEnds w c (Reader m os as xs n ns i mu v) =
     begin_capture (Reader m os as xs n ((w, n + 1) # ns) i mu v)"

definition ref_action :: "(pystr \<times> nat) list \<Rightarrow> pystr \<Rightarrow> nat \<Rightarrow> action" where
  "ref_action ns w c =
     (if c = 41 then (case dget ns w of None \<Rightarrow> Go Bad | Some k \<Rightarrow> Item (BackRef k))
      else Go (RefName (w @ [c])))"

datatype paren_next = Question | Other action

definition paren_next :: "bool \<Rightarrow> nat \<Rightarrow> paren_next" where
  "paren_next verbose c = (if c = 63 then Question else Other (norm_action verbose c))"

fun do_open :: "paren_next \<Rightarrow> reader \<Rightarrow> reader" where
  "do_open Question (Reader _ os as xs n ns i mu v) = Reader ParenQ os as xs n ns i mu v"
| "do_open (Other a) st = do_action a (begin_capture st)"

definition cls_open_action :: "nat \<Rightarrow> action" where
  "cls_open_action c = (if c = 94 then Go (ClsIn True []) else cls_action False [] c)"

definition comment_mode :: "nat \<Rightarrow> rmode" where
  "comment_mode c = (if c = 10 then Norm else Comment)"

fun read_step :: "reader \<Rightarrow> nat \<Rightarrow> reader" where
  "read_step (Reader Norm os as xs n ns i mu v) c =
     do_action (norm_action v c) (Reader Norm os as xs n ns i mu v)"
| "read_step (Reader Escaped os as xs n ns i mu v) c =
     do_action (Item (escape_item c)) (Reader Norm os as xs n ns i mu v)"
| "read_step (Reader Paren os as xs n ns i mu v) c =
     do_open (paren_next v c) (Reader Norm os as xs n ns i mu v)"
| "read_step (Reader ParenQ os as xs n ns i mu v) c =
     do_paren (paren_kind c) c (Reader Norm os as xs n ns i mu v)"
| "read_step (Reader ParenLt os as xs n ns i mu v) c =
     do_paren (behind_kind c) c (Reader Norm os as xs n ns i mu v)"
| "read_step (Reader ParenP os as xs n ns i mu v) c = Reader (named_kind c) os as xs n ns i mu v"
| "read_step (Reader (GroupName w) os as xs n ns i mu v) c =
     do_group_name (name_end 62 c) w c (Reader Norm os as xs n ns i mu v)"
| "read_step (Reader (RefName w) os as xs n ns i mu v) c =
     do_action (ref_action ns w c) (Reader Norm os as xs n ns i mu v)"
| "read_step (Reader FlagLetters os as xs n ns i mu v) c =
     do_paren FlagLetter c (Reader Norm os as xs n ns i mu v)"
| "read_step (Reader ClsOpen os as xs n ns i mu v) c =
     do_action (cls_open_action c) (Reader Norm os as xs n ns i mu v)"
| "read_step (Reader (ClsIn neg its) os as xs n ns i mu v) c =
     do_action (cls_action neg its c) (Reader Norm os as xs n ns i mu v)"
| "read_step (Reader (ClsEsc neg its) os as xs n ns i mu v) c =
     Reader (ClsIn neg (cls_escape c # its)) os as xs n ns i mu v"
| "read_step (Reader (ClsDash neg its a) os as xs n ns i mu v) c =
     do_action (dash_action neg its a c) (Reader Norm os as xs n ns i mu v)"
| "read_step (Reader (ClsDashEsc neg its a) os as xs n ns i mu v) c =
     do_action (dash_esc_action neg its a c) (Reader Norm os as xs n ns i mu v)"
| "read_step (Reader (Brace lo hi comma) os as xs n ns i mu v) c =
     Reader (brace_mode lo hi comma c) os as xs n ns i mu v"
| "read_step (Reader (Quantified lo hi) os as xs n ns i mu v) c =
     do_suffix (quant_suffix v c) lo hi (Reader Norm os as xs n ns i mu v)"
| "read_step (Reader Comment os as xs n ns i mu v) c =
     Reader (comment_mode c) os as xs n ns i mu v"
| "read_step (Reader Bad os as xs n ns i mu v) c = Reader Bad os as xs n ns i mu v"

fun read_all :: "reader \<Rightarrow> pystr \<Rightarrow> reader" where
  "read_all st [] = st"
| "read_all st (c # s) = read_all (read_step st c) s"

text \<open>\<open>re.compile(text)\<close>: the whole text, with nothing left open.\<close>

definition the_flags :: "bool \<Rightarrow> bool \<Rightarrow> flags" where
  "the_flags i mu = \<lparr>icase = i, multiline = mu, ascii_only = False\<rparr>"

fun finish :: "reader \<Rightarrow> regex option" where
  "finish (Reader Norm [] as xs n ns i mu v) =
     Some \<lparr>re_rx = group_body as xs, re_flags = the_flags i mu, re_names = ns\<rparr>"
| "finish (Reader Comment [] as xs n ns i mu v) =
     Some \<lparr>re_rx = group_body as xs, re_flags = the_flags i mu, re_names = ns\<rparr>"
| "finish (Reader (Quantified lo hi) [] as (r # xs) n ns i mu v) =
     Some \<lparr>re_rx = group_body as (Rep Greedy lo hi r # xs), re_flags = the_flags i mu, re_names = ns\<rparr>"
| "finish _ = None"

definition parse_re :: "pystr \<Rightarrow> regex option" where
  "parse_re s = finish (read_all start_reader s)"

text \<open>A text that does not compile raises in Python; here it is the expression that never matches.
  Every table is shown to compile.\<close>

definition never :: regex where
  "never = \<lparr>re_rx = Cls False [], re_flags = the_flags False False, re_names = []\<rparr>"

definition re_compile :: "string \<Rightarrow> regex" where
  "re_compile s = (case parse_re (raw s) of Some R \<Rightarrow> R | None \<Rightarrow> never)"

definition with_icase :: "regex \<Rightarrow> regex" where
  "with_icase R = R\<lparr>re_flags := (re_flags R)\<lparr>icase := True\<rparr>\<rparr>"

definition with_ascii :: "regex \<Rightarrow> regex" where
  "with_ascii R = R\<lparr>re_flags := (re_flags R)\<lparr>ascii_only := True\<rparr>\<rparr>"

subsection \<open>Evaluation\<close>

named_theorems read_simps "the reader of pattern texts, for evaluation"

lemma raw_Cons [read_simps]: "raw (c # s) = (if c = CHR ''~'' then 92 else of_char c) # raw s"
proof -
  have "of_char c = (126::nat) \<longleftrightarrow> c = CHR ''~''"
    using of_char_eq_iff [of c "CHR ''~''", where ?'a = nat] by simp
  then show ?thesis by (simp add: raw_def asc_def)
qed

lemma raw_simps [read_simps]: "raw [] = []" "raw (s @ t) = raw s @ raw t"
  by (simp_all add: raw_def asc_def)

lemmas reader_defs [read_simps] = parse_re_def start_reader_def norm_action_def cls_escape_def
  escape_item_def paren_kind_def behind_kind_def named_kind_def cls_action_def dash_action_def
  dash_esc_action_def brace_mode_def quant_suffix_def name_end_def ref_action_def paren_next_def
  cls_open_action_def comment_mode_def group_body_def re_compile_def

lemma read_all_append: "read_all st (s @ t) = read_all (read_all st s) t"
  by (induction s arbitrary: st) auto

end
