(* ===== verification/Patterns.thy ===== *)
theory Patterns
  imports RegexSyntax
begin

text \<open>
  \<open>src/relay_shell/patterns.py\<close>: the tables of regular expressions, by the names and in the order of
  the source. Rules that have no name there are named for what they redact. A text written over
  several literals in the source is the same literals here.
\<close>

definition PATTERNS_VERSION :: pystr where
  "PATTERNS_VERSION = asc ''17''"

definition REDACTION_PLACEHOLDER :: pystr where
  "REDACTION_PLACEHOLDER = asc ''[REDACTED]''"

subsection \<open>Redaction: rules that keep the prefix\<close>

text \<open>An unquoted secret value stops at a shell control operator, unless a quote closes it.\<close>

definition VALUE_RUN :: string where
  \<open>VALUE_RUN =
     ''(?:[^~s"'~r~n]{1,256}+(?=["'])|(?:~~[;&|]|[^~s"'~r~n;&|])+)''\<close>

definition AUTHORIZATION_RULE :: regex where
  \<open>AUTHORIZATION_RULE =
     re_compile (''(?i)~b(?P<prefix>(?:proxy-)?authorization[~"']?~s*[:=]~s*[~"']?)'' @ ''(?:''
     @ ''[^~"'~r~n]+(?=[~"'])'' @ ''|[^~r~n~"']+?(?=(?:;~s|~s;|~s(?:&&|~|~||~|)~s|[~r~n]|$))''
     @ '')'')\<close>

definition BEARER_RULE :: regex where
  \<open>BEARER_RULE =
     re_compile ''(?i)~b(?P<prefix>bearer~s+)[A-Za-z0-9._~-]+''\<close>

definition QUOTED_KEYWORD_RULE :: regex where
  \<open>QUOTED_KEYWORD_RULE =
     re_compile (''(?i)(?P<prefix>(?:api[_-]?key''
     @ ''|(?:secret|private|access|signing|encryption|master)[_-]?key(?:[_-]?base)?''
     @ ''|secret|token|password|passwd|pwd|credential)''
     @ ''[~"']?~s*(?::=|=>|[:=])~s*(?P<q>[~"']))'' @ ''(?:~~.|(?!(?P=q))[^~~~r~n])*'')\<close>

definition KEYWORD_RULE :: regex where
  \<open>KEYWORD_RULE =
     re_compile (''(?i)(?P<prefix>(?:api[_-]?key''
     @ ''|(?:secret|private|access|signing|encryption|master)[_-]?key(?:[_-]?base)?''
     @ ''|secret|token|password|passwd|pwd|credential)'' @ ''[~"']?~s*(?::=|=>|[:=])~s*[~"']?)''
     @ VALUE_RUN)\<close>

definition AWS_SECRET_RULE :: regex where
  \<open>AWS_SECRET_RULE =
     re_compile (''(?i)(?P<prefix>(?:aws[_-]?)?secret[_-]?access[_-]?key''
     @ ''[~"']?~s*(?::=|=>|[:=])~s*[~"']?)'' @ VALUE_RUN)\<close>

definition AZURE_KEY_RULE :: regex where
  \<open>AZURE_KEY_RULE =
     re_compile ''(?i)(?P<prefix>(?:account|sharedaccess)key~s*=~s*)[^;~s~"']+''\<close>

definition SAS_RULE :: regex where
  \<open>SAS_RULE =
     re_compile ''(?i)(?P<prefix>[?&]sig=)[A-Za-z0-9%/+]{20,}''\<close>

text \<open>The comments inside the two verbose patterns are left out.\<close>

definition CLI_FLAG_RULE :: regex where
  \<open>CLI_FLAG_RULE =
     re_compile (''(?ix)'' @ '' (?P<prefix>'' @ '' (?<![A-Za-z])''
     @ '' --?(?!(?:no|ask|prompt|skip|use|with|show|hide)[-_])'' @ '' (?:[A-Za-z0-9]+[-_]){0,6}''
     @ '' (?:password|passwd|pwd|passphrase|secret|token|api[_-]?key|credentials?''
     @ '' |secret[_-]?key|secret[_-]?access[_-]?key)'' @ '' [=~ ~t]+'' @ '' )'' @ '' (?:''
     @ '' "(?:[^"~~]|~~.)*"'' @ '' | '(?:[^'~~]|~~.)*' '' @ '' | "[^~r~n]*'' @ '' | '[^~r~n]*''
     @ '' | (?:-(?!-)|(?!--))(?:~~.|[^~s;&|])+'' @ '' )'')\<close>

definition SECURESTRING_RULE :: regex where
  \<open>SECURESTRING_RULE =
     re_compile (''(?ix)'' @ '' (?P<prefix>convertto-securestring~s+(?:-~w+~s+){0,8}?)'' @ '' (?:''
     @ '' "(?:[^"~~]|~~.)*"'' @ '' | '(?:[^'~~]|~~.)*' '' @ '' | (?![-$])[^~s;&|]+'' @ '' )'')\<close>

definition REDACTION_PREFIX_PATTERNS :: "regex list" where
  "REDACTION_PREFIX_PATTERNS =
     [AUTHORIZATION_RULE, BEARER_RULE, QUOTED_KEYWORD_RULE, KEYWORD_RULE, AWS_SECRET_RULE,
      AZURE_KEY_RULE, SAS_RULE, CLI_FLAG_RULE, SECURESTRING_RULE]"

subsection \<open>Redaction: flags of particular commands\<close>

definition SCOPED_VALUE :: string where
  \<open>SCOPED_VALUE =
     ''(?:'[^']*'|"[^"]*"|'[^~r~n]*|"[^~r~n]*|[^~s;&|]+)''\<close>

definition CURL_USER_RULE :: regex where
  \<open>CURL_USER_RULE =
     re_compile (''(?i)(?P<prefix>(?<![~w-])(?:curl|wget|xh|httpie)~b[^|;&~n]{0,512}?''
     @ ''(?<![A-Za-z0-9-])(?:-u|--user|--proxy-user)(?:=|~s+)[~"']?[^~s:~"']+:)'' @ ''[^~s~"';&|]+'')\<close>

definition SSHPASS_RULE :: regex where
  \<open>SSHPASS_RULE =
     re_compile (''(?i)(?P<prefix>~bsshpass~b[^|;&~n]{0,256}?(?<![A-Za-z0-9-])-p[=~s]*)'' @ SCOPED_VALUE)\<close>

definition CONTAINER_LOGIN_RULE :: regex where
  \<open>CONTAINER_LOGIN_RULE =
     re_compile (''(?i)(?P<prefix>~b(?:docker|podman|nerdctl|buildah|skopeo)~b[^|;&~n]{0,256}?''
     @ ''~blogin~b[^|;&~n]{0,256}?(?<![A-Za-z0-9-])-p[=~s]*)'' @ SCOPED_VALUE)\<close>

definition OPENSSL_PASS_RULE :: regex where
  \<open>OPENSSL_PASS_RULE =
     re_compile ''(?i)(?P<prefix>(?<![A-Za-z0-9])-pass(?:in|out)?~s+pass:)[^~s;&|]+''\<close>

definition AWS_CONFIGURE_RULE :: regex where
  \<open>AWS_CONFIGURE_RULE =
     re_compile (''(?i)(?P<prefix>~baws~b[^|;&~n]{0,128}?~bconfigure~s+set~s+(?:--~S+~s+~S+~s+){0,3}''
     @ ''(?:aws_)?(?:secret_access_key|session_token)~s+)'' @ SCOPED_VALUE)\<close>

definition REDIS_AUTH_RULE :: regex where
  \<open>REDIS_AUTH_RULE =
     re_compile (''(?i)(?P<prefix>~bredis-cli~b[^|;&~n]{0,256}?(?<![A-Za-z0-9-])(?:-a|--pass)[=~s]+)''
     @ SCOPED_VALUE)\<close>

definition ZIP_RULE :: regex where
  \<open>ZIP_RULE =
     re_compile (''(?P<prefix>~b(?:unzip|zip)~b[^|;&~n]{0,256}?(?<![A-Za-z0-9-])-P[=~s]*)'' @ SCOPED_VALUE)\<close>

definition LDAP_RULE :: regex where
  \<open>LDAP_RULE =
     re_compile (''(?P<prefix>~bldap(?:search|modify|add|delete|compare|modrdn|passwd|whoami)~b''
     @ ''[^|;&~n]{0,256}?(?<![A-Za-z0-9-])-w[=~s]*)'' @ SCOPED_VALUE)\<close>

definition COMMAND_SCOPED_PREFIX_PATTERNS :: "regex list" where
  "COMMAND_SCOPED_PREFIX_PATTERNS =
     [CURL_USER_RULE, SSHPASS_RULE, CONTAINER_LOGIN_RULE, OPENSSL_PASS_RULE, AWS_CONFIGURE_RULE,
      REDIS_AUTH_RULE, ZIP_RULE, LDAP_RULE]"

subsection \<open>Redaction: whole matches\<close>

definition PEM_RULE :: regex where
  \<open>PEM_RULE =
     re_compile (''-----BEGIN [A-Z0-9 ]{0,40}PRIVATE KEY(?: BLOCK)?-----[~s~S]{0,8192}?''
     @ ''-----END [A-Z0-9 ]{0,40}PRIVATE KEY(?: BLOCK)?-----''
     @ ''|-----BEGIN [A-Z0-9 ]{0,40}PRIVATE KEY(?: BLOCK)?-----''
     @ ''(?:~s*[A-Za-z][A-Za-z-]*:[^~r~n]{0,200}){0,4}(?:~s*[A-Za-z0-9+/=]{16,}){0,160}'')\<close>

definition GITHUB_PAT_RULE :: regex where
  \<open>GITHUB_PAT_RULE =
     re_compile ''~bgith(?:ub)?_pat_[A-Za-z0-9_]+''\<close>

definition GITHUB_TOKEN_RULE :: regex where
  \<open>GITHUB_TOKEN_RULE =
     re_compile ''~bgh[pousr]_[A-Za-z0-9]{20,}''\<close>

definition OPENAI_PROJECT_RULE :: regex where
  \<open>OPENAI_PROJECT_RULE =
     re_compile ''~bsk-(?:proj|svcacct|admin)-[A-Za-z0-9_~-]{16,}''\<close>

definition OPENAI_RULE :: regex where
  \<open>OPENAI_RULE =
     re_compile ''~bsk-[A-Za-z0-9]{16,}''\<close>

definition ANTHROPIC_RULE :: regex where
  \<open>ANTHROPIC_RULE =
     re_compile ''~bsk-ant-[A-Za-z0-9_~-]{20,}''\<close>

definition HUGGINGFACE_RULE :: regex where
  \<open>HUGGINGFACE_RULE =
     re_compile ''~bhf_[A-Za-z0-9]{34,}''\<close>

definition AWS_ID_RULE :: regex where
  \<open>AWS_ID_RULE =
     re_compile ''~bAKIA[0-9A-Z]{16}~b''\<close>

definition SLACK_RULE :: regex where
  \<open>SLACK_RULE =
     re_compile ''~bxox[baprs]-[A-Za-z0-9-]{10,}''\<close>

definition SLACK_WEBHOOK_RULE :: regex where
  \<open>SLACK_WEBHOOK_RULE =
     re_compile ''https://hooks~.slack~.com/services/T[A-Za-z0-9_]+/B[A-Za-z0-9_]+/[A-Za-z0-9_]+''\<close>

definition GOOGLE_KEY_RULE :: regex where
  \<open>GOOGLE_KEY_RULE =
     re_compile ''~bAIza[A-Za-z0-9_~-]{35,}''\<close>

definition GOOGLE_OAUTH_RULE :: regex where
  \<open>GOOGLE_OAUTH_RULE =
     re_compile ''~bya29~.[A-Za-z0-9._~-]{20,}''\<close>

definition STRIPE_RULE :: regex where
  \<open>STRIPE_RULE =
     re_compile ''~b(?:sk|rk)_(?:test|live|prod)_[A-Za-z0-9]{10,}''\<close>

definition GITLAB_RULE :: regex where
  \<open>GITLAB_RULE =
     re_compile ''~bglpat-[A-Za-z0-9_~-]{20,}''\<close>

definition NPM_RULE :: regex where
  \<open>NPM_RULE =
     re_compile ''~bnpm_[A-Za-z0-9]{36,}''\<close>

definition PYPI_RULE :: regex where
  \<open>PYPI_RULE =
     re_compile ''~bpypi-AgEIcHlwaS5vcmc[A-Za-z0-9_~-]{16,}''\<close>

definition JWT_RULE :: regex where
  \<open>JWT_RULE =
     re_compile ''~bey[A-Za-z0-9_~-]{17,}~.ey[A-Za-z0-9_~-]{8,}(?:~.[A-Za-z0-9_~-]{8,})?''\<close>

definition REDACTION_PATTERNS :: "regex list" where
  "REDACTION_PATTERNS =
     [PEM_RULE, GITHUB_PAT_RULE, GITHUB_TOKEN_RULE, OPENAI_PROJECT_RULE, OPENAI_RULE, ANTHROPIC_RULE,
      HUGGINGFACE_RULE, AWS_ID_RULE, SLACK_RULE, SLACK_WEBHOOK_RULE, GOOGLE_KEY_RULE,
      GOOGLE_OAUTH_RULE, STRIPE_RULE, GITLAB_RULE, NPM_RULE, PYPI_RULE, JWT_RULE]"

subsection \<open>Prompts, URLs and the MySQL family\<close>

definition SECRET_PROMPT_PATTERN :: regex where
  \<open>SECRET_PROMPT_PATTERN =
     re_compile (''(?i)(?:pass(?:word|phrase|code)|~bpin~b|secret|token|api[ _-]?key''
     @ ''|verification code|one-time|otp)[^~r~n]{0,80}[:?]~s*$'')\<close>

definition URL_CREDS_PATTERN :: regex where
  \<open>URL_CREDS_PATTERN =
     re_compile ''://[^/~s:@]+:[^~s/]+@''\<close>

definition URL_TOKEN_USERINFO_PATTERN :: regex where
  \<open>URL_TOKEN_USERINFO_PATTERN =
     re_compile ''(?i)~b(https?|ftps?|wss?)://[^/~s:@]{12,}@''\<close>

definition MYSQL_FAMILY_CLI_PATTERN :: regex where
  \<open>MYSQL_FAMILY_CLI_PATTERN =
     with_icase (re_compile ''~b(?:mysql~w*|mariadb~w*|mycli)~b'')\<close>

definition MYSQL_COMPACT_PASSWORD_PATTERN :: regex where
  \<open>MYSQL_COMPACT_PASSWORD_PATTERN =
     re_compile ''(?<![A-Za-z0-9-])(-p)[^~s=~-;&|][^~s;&|]*''\<close>

subsection \<open>Tiers\<close>

definition CMD :: string where
  \<open>CMD =
     ''(?:(?:^|[;&|(`~n]|~$~()[^~S~n]*(?:~w+=~S*~s+){0,6}''
     @ ''|~b(?:sudo|doas)~s+(?:-[ugCphrtUT]~s+~S+~s+|-~S+~s+|~w+=~S*~s+){0,6}''
     @ ''|~b(?:exec|xargs|nohup|time|command|env)~s+(?:-~S+~s+|~w+=~S*~s+){0,6}''
     @ ''|(?:^|[;&|(`~n]|~$~()[^~S~n]*(?:~w+=~S*~s+){0,6}(?:/[~w./-]*/)?''
     @ ''(?:nice|ionice|timeout|setsid|stdbuf|chrt|taskset)~s+''
     @ ''(?:-~S+~s+|~d[~w.:,-]*~s+|~w+=~S*~s+){0,6}''
     @ ''|~b(?:sh|bash|zsh|dash|ksh)~s+-~w*c~s+[~"']~s*'' @ '')(?:/[~w./-]*/)?''\<close>

definition TIER3_COMMON_SOURCE :: string where
  \<open>TIER3_COMMON_SOURCE =
     ''(?imx)(?:(?<![~w])('' @ ''shred|mkfs|wipefs|blkdiscard|''
     @ ''[sc]?fdisk~b(?!~s+(?:-l|--list|-s)~b)|'' @ ''sgdisk~b(?!~s+(?:-p|--print|-i|--info)~b)|''
     @ ''parted~b(?!~s+(?:-l|--list)~b)(?![^|;&~n]{0,64}~b(?:print|unit)~b)|''
     @ ''dd~s+[^|]{0,256}of=/dev/|'' @ ''>>?~s*/dev/(?:[sh]d|nvme|vd|xvd|mmcblk)|''
     @ ''tee~s+(?:-~w+~s+)*/dev/(?:[sh]d|nvme|vd|xvd|mmcblk)|''
     @ ''zpool~s+(?:destroy|labelclear)|zfs~s+destroy|lvremove|vgremove|pvremove|''
     @ ''mdadm~s+[^|;&~n]{0,64}--(?:stop|zero-superblock)|''
     @ ''cryptsetup~s+(?:luks)?(?:format|erase)|nvme~s+format|''
     @ ''hdparm~s+[^|;&~n]{0,64}--security-erase|''
     @ ''find~b[^|;&~n]{0,256}?~s-delete~b|find~b[^|;&~n]{0,256}?-exec~s+rm~b|''
     @ ''(?:terraform|tofu|pulumi)~s+destroy|''
     @ ''systemctl~s+(?:reboot|poweroff|halt|kexec)~b|>~s*/proc/sysrq-trigger|''
     @ ''drop~s+database|drop~s+table|truncate~s+table|''
     @ ''git~s+push~s+(?:~S+~s+){0,8}?(?:--force~b|-f~b|~+~S)|git~s+reset~s+--hard|''
     @ ''userdel|deluser|gpasswd|'' @ ''iptables~s+-F|nft~s+flush|''
     @ ''ip~s+link~s+set~s+~S+(?:~s+~S+){0,4}?~s+down~b|ip~s+link~s+del(?:ete)?~b|ifdown~b|''
     @ '':~s*~(~s*~)~s*~{|'' @ ''clear-disk|format-volume|initialize-disk|''
     @ ''stop-computer|restart-computer|''
     @ ''remove-service|remove-localuser|remove-localgroup|clear-eventlog|''
     @ ''diskpart|vssadmin~s+delete~s+shadows|''
     @ ''bcdedit|cipher~s+/w|(?:reg|sc)(?:~.exe)?~s+delete|wevtutil~s+cl'' @ ''))'' @ ''|'' @ CMD
     @ ''(?:'' @ ''(?:reboot|shutdown|halt|poweroff)(?![~w.-])|'' @ ''(?:init|telinit)~s+[06]~b|''
     @ ''passwd~s+~S|'' @ ''redis-cli~b[^|;&~n]{0,128}?~bflush(?:all|db)~b'' @ '')''\<close>

definition TIER3_FLAG_SOURCE :: string where
  \<open>TIER3_FLAG_SOURCE =
     ''rm~s+-[rf]|rm~s+-[a-z]*f|''
     @ ''rm~s+(?:~S+~s+){0,16}?--(?:recursive|force|no-preserve-root)~b|''
     @ ''remove-item~b(?:~s+~S+){0,16}?~s+-(?:recurse|force)~b|''
     @ ''(?:del|erase|rd|rmdir)~b(?:~s+~S+){0,8}?~s+/[sq]~b''\<close>

definition TIER3_FORMAT_SOURCE :: string where
  \<open>TIER3_FORMAT_SOURCE =
     ''format(?:~s+/~S+){0,4}~s+[a-z]:''\<close>

definition TIER3_COMMON_PATTERN :: regex where
  "TIER3_COMMON_PATTERN = re_compile TIER3_COMMON_SOURCE"

definition TIER3_FLAG_PATTERN :: regex where
  \<open>TIER3_FLAG_PATTERN =
     re_compile (''(?imx)(?<![~w])(?:'' @ TIER3_FLAG_SOURCE @ '')'')\<close>

definition TIER3_FORMAT_PATTERN :: regex where
  \<open>TIER3_FORMAT_PATTERN =
     re_compile (''(?imx)(?<![~w])'' @ TIER3_FORMAT_SOURCE)\<close>

definition TIER3_FLAG_HINT :: regex where
  \<open>TIER3_FLAG_HINT =
     re_compile ''~s[-/]''\<close>

definition TIER3_PATTERN :: regex where
  \<open>TIER3_PATTERN =
     re_compile (TIER3_COMMON_SOURCE @ ''|(?<![~w])(?:'' @ TIER3_FLAG_SOURCE @ ''|'' @ TIER3_FORMAT_SOURCE
     @ '')'')\<close>

text \<open>ASCII text goes to the table compiled with \<open>re.ASCII\<close>, and two families of rules are tried
  only on texts with the syntax they need.\<close>

definition builtin_tier3 :: "unidb \<Rightarrow> pystr \<Rightarrow> bool" where
  "builtin_tier3 U s \<longleftrightarrow>
     (let common = (if list_all (\<lambda>c. c < 128) s then with_ascii TIER3_COMMON_PATTERN
                    else TIER3_COMMON_PATTERN)
      in search U common s \<or>
         search U TIER3_FLAG_HINT s \<and> search U TIER3_FLAG_PATTERN s \<or>
         58 \<in> set s \<and> search U TIER3_FORMAT_PATTERN s)"

text \<open>One option word, with its value if it takes one.\<close>

definition opt_word :: "string \<Rightarrow> string \<Rightarrow> string" where
  \<open>opt_word valued boolean =
     ''(?:(?:'' @ valued @ '')(?:=~S+|~s+~S+)''
     @ ''|(?!(?:'' @ valued @ '')(?![~w-]))--?(?:'' @ boolean @ '')(?:=~S+)?)''\<close>

definition SYSTEMCTL_OPT :: string where
  \<open>SYSTEMCTL_OPT =
     opt_word (''-H|--host|-M|--machine|-t|--type|-p|--property|--state|--root|-n|--lines|-o|--output''
     @ ''|-s|--signal|--kill-whom|--kill-who|--job-mode|--timestamp'')
       ''[~w.-]+''\<close>

definition KUBECTL_OPT :: string where
  \<open>KUBECTL_OPT =
     opt_word (''-n|--namespace|--context|--cluster|--kubeconfig|--user|-s|--server|--as|--as-group''
     @ ''|--token|--request-timeout|--cache-dir|--certificate-authority|--client-certificate''
     @ ''|--client-key|--tls-server-name|-v|--v'')
       ''[~w-]+''\<close>

definition COMPOSE_OPT :: string where
  \<open>COMPOSE_OPT =
     opt_word (''-f|--file|-p|--project-name|--profile|--env-file|--project-directory|--ansi|--parallel''
     @ ''|--progress|-H|--host|-c|--context'')
       ''[~w-]+''\<close>

definition SENSITIVE_DEST :: string where
  \<open>SENSITIVE_DEST =
     ''[~"']?(?:'' @ ''/(?:boot|usr|bin|sbin|lib|lib32|lib64|opt|srv|root|sys)/''
     @ ''|/var/(?:spool|lib|www)/'' @ ''|[^~s~"';&|]{0,200}/~.ssh/''
     @ ''|(?:[^~s~"';&|]{0,200}/)?authorized_keys2?(?![~w.-])''
     @ ''|[^~s~"';&|]{0,200}/sudoers(?![~w-])''
     @ ''|(?:[^~s~"';&|]{0,200}/)?~.(?:bashrc|bash_profile|bash_login|profile|zshrc|zprofile)(?![~w.-])''
     @ '')''\<close>

definition TIER2_SOURCE :: string where
  \<open>TIER2_SOURCE =
     ''(?imx)(?:(?<![~w])('' @ ''systemctl~s+(?:'' @ SYSTEMCTL_OPT @ ''~s+){0,4}''
     @ ''(stop|restart|disable|mask|kill|start|enable|reload|reload-or-restart|try-restart''
     @ ''|try-reload-or-restart|unmask|isolate|daemon-reload|daemon-reexec|set-default''
     @ ''|edit|revert)(?![~w.-])|'' @ ''service~s+~S+~s+(stop|restart|start|reload)~b|''
     @ ''apt(-get)?~s+(install|remove|purge|upgrade|dist-upgrade)|''
     @ ''yum~s+(install|remove)|dnf~s+(install|remove)|pip~s+install|npm~s+(install|i)~b|''
     @ ''docker~s+(run|rm|stop|kill|build)|'' @ ''docker(?:~s+|-)compose~b(?!(?:~s+'' @ COMPOSE_OPT
     @ ''){0,6}~s+'' @ ''(?:ps|ls|logs|config|images|top|port|version|events)(?![~w.:/-]))|''
     @ ''kubectl~s+(?:'' @ KUBECTL_OPT
     @ ''~s+){0,6}(?:apply|delete|scale|rollout|exec|drain|cordon|uncordon|taint''
     @ ''|patch|edit|replace|create|label|annotate|cp|run|expose|autoscale|debug)(?![~w.-])|''
     @ ''(?:docker|podman)~s+(?:system|volume|image|container|network)~s+(?:prune|rm)~b|''
     @ ''(?:terraform|tofu)~s+apply|pulumi~s+up|git~s+clean~s+-~w*f|setenforce~b|''
     @ ''(?:curl|wget)~b[^|~n]{0,512}~|~s*(?:sudo~s+(?:-~S+~s+)*)?''
     @ ''(?:(?:ba|z|da|k)?sh|python[~d.]*|perl|ruby|node)~b|''
     @ ''(?:ba|z)?sh~s+<~(~s*(?:curl|wget)~b|'' @ ''chown|chmod~s+-R|chmod~s+[0-7]{3,4}~s+/|''
     @ ''crontab~b(?!(?:~s+-u~s+~S+)?~s+-l~b)|ln~s+-s|mv~s+/|cp~s+-[a-z]*~s+/|sed~s+-i|tee~s+/etc/|''
     @ ''>>?~s*'' @ SENSITIVE_DEST @ ''|tee~s+(?:-~w+~s+)*'' @ SENSITIVE_DEST @ ''|''
     @ ''git~s+(push|commit|merge|rebase)|'' @ ''ufw~s+(allow|deny|enable|disable)|''
     @ ''ssh-copy-id|>~s*/etc/|>>~s*/etc/|''
     @ ''stop-service|start-service|restart-service|set-service|''
     @ ''(?:sc|net)(?:~.exe)?~s+(?:stop|start)~b|''
     @ ''install-module|install-package|uninstall-module|uninstall-package|''
     @ ''choco~s+(?:install|uninstall)|winget~s+(?:install|uninstall)|''
     @ ''(?:remove|disable|set|new)-netfirewallrule|netsh~s+advfirewall|''
     @ ''(?:reg|sc)(?:~.exe)?~s+(?:add|config)|new-localuser|''
     @ ''register-scheduledtask|unregister-scheduledtask|schtasks~s+/create|''
     @ ''set-executionpolicy'' @ ''))'' @ ''|'' @ CMD
     @ ''(?:kill~s+-(?:9|KILL|SIGKILL)~b|pkill~b|killall~b|truncate~s''
     @ ''|(?:useradd|usermod|groupadd|groupmod|groupdel|adduser|addgroup|chpasswd|chage''
     @ ''|visudo|newusers)(?![~w.-])''
     @ ''|ip6?tables(?:-nft|-legacy)?~s+(?:(?:-t~s+~w+|-w~s*~d*|--wait)~s+){0,3}-[AIDRPXNZ]~b''
     @ ''|ip6?tables-restore(?![~w.-])'' @ ''|nft~s+(?:add|delete|insert|replace|create|destroy)~b''
     @ ''|firewall-cmd~b[^|;&~n]{0,64}--(?:(?:add|remove|set|new|delete|change|load)-~S|reload~b''
     @ ''|complete-reload~b|runtime-to-permanent~b|panic-(?:on|off)~b|lockdown-(?:on|off)~b)''
     @ ''|redis-cli~b[^|;&~n]{0,128}?~b(?:shutdown|config~s+set|replicaof|slaveof|debug''
     @ ''|script~s+flush|acl~s+(?:setuser|deluser))~b)''\<close>

definition TIER2_PATTERN :: regex where
  "TIER2_PATTERN = re_compile TIER2_SOURCE"

definition builtin_tier2 :: "unidb \<Rightarrow> pystr \<Rightarrow> bool" where
  "builtin_tier2 U s =
     search U (if list_all (\<lambda>c. c < 128) s then with_ascii TIER2_PATTERN else TIER2_PATTERN) s"

subsection \<open>Privilege and line continuations\<close>

definition PRIV_ESC_PATTERN :: regex where
  \<open>PRIV_ESC_PATTERN =
     re_compile ''(?ix)~b(sudo|doas|pkexec|runas)~b''\<close>

definition LINE_CONTINUATION_PATTERN :: regex where
  \<open>LINE_CONTINUATION_PATTERN =
     re_compile '''[^']*'|"(?:~~.|[^"~~])*"|~~~r?~n|~~.''\<close>

definition PRIV_ESC_EVAL_HINT :: regex where
  \<open>PRIV_ESC_EVAL_HINT =
     re_compile (''(?i)~|~s*(?:~S*/)?(?:sudo~s+)?(?:(?:ba|z|da|k)?sh|python[~d.]*|perl|ruby|node|php|xargs''
     @ ''|source|eval)(?![~w.-])|(?<![~w-])(?:eval|source|exec)(?![~w-])|[`]|~$~(|<~(|(?<![~w-])(?:ba|z|da|k)?sh~s+-~w*c(?![~w-])'')\<close>

definition PRIV_ESC_READER_SEGMENT :: regex where
  \<open>PRIV_ESC_READER_SEGMENT =
     re_compile (''(?im)(?:^|[;&|(`])[^~S~n]*(?:grep|egrep|fgrep|zgrep|rg|ag|man|which|whereis|type|apropos''
     @ ''|echo|printf|journalctl|locate)~b[^;&|~n(`]*'')\<close>

end
