(* ===== verification/PatternGates.thy ===== *)
theory PatternGates
  imports Patterns RegexProps
begin

text \<open>
  The gates in front of the tables of \<open>patterns.py\<close>: what every match of a rule contains. Two
  instances of the abstract interpretation read the answer off the expression.
\<close>

subsection \<open>Folded text\<close>

definition pat_fold :: "flags \<Rightarrow> nat \<Rightarrow> nat" where
  "pat_fold fl a = (if icase fl then lower_char a else a)"

definition folded :: "flags \<Rightarrow> pystr \<Rightarrow> pystr" where
  "folded fl s = map (fold_char fl) s"

lemma lower_upper_char [simp]: "lower_char (upper_char c) = lower_char c"
  by (auto simp: lower_char_def upper_char_def)

lemma lower_lower_char [simp]: "lower_char (lower_char c) = lower_char c"
  by (auto simp: lower_char_def)

lemma lower_fold_char: "icase fl \<Longrightarrow> lower_char (fold_char fl c) = fold_char fl c"
  by (auto simp: fold_char_def lower_char_def)

lemma range_has_one: "range_has fl a a c \<Longrightarrow> fold_char fl c = pat_fold fl a"
proof (cases "icase fl")
  case True
  assume "range_has fl a a c"
  then have "fold_char fl c = a \<or> upper_char (fold_char fl c) = a"
    by (auto simp: range_has_def Let_def)
  then show ?thesis
    using lower_fold_char [OF True, of c] lower_upper_char [of "fold_char fl c"] True
    by (auto simp: pat_fold_def)
qed (auto simp: range_has_def Let_def pat_fold_def fold_char_def)

lemma folded_ascii: "icase fl \<Longrightarrow> list_all (\<lambda>c. c < 128) s \<Longrightarrow> folded fl s = lower s"
  by (induction s) (simp_all add: folded_def lower_def fold_char_def)

lemma folded_exact: "\<not> icase fl \<Longrightarrow> folded fl s = s"
  by (simp add: folded_def fold_char_def map_idI)

subsection \<open>Literals every match contains\<close>

definition has_any :: "pystr list \<Rightarrow> pystr \<Rightarrow> bool" where
  "has_any hs s \<longleftrightarrow> list_ex (\<lambda>h. has_sub h s) hs"

lemma has_any_append: "has_any hs s \<Longrightarrow> has_any hs (s @ t)" "has_any hs t \<Longrightarrow> has_any hs (s @ t)"
  unfolding has_any_def list_ex_iff has_sub_iff by (metis append_assoc)+

text \<open>\<open>None\<close>: one of the literals was seen. \<open>Some ws\<close>: otherwise the text so far ends with one of
  \<open>ws\<close>.\<close>

fun literals :: "cls_item list \<Rightarrow> pystr option" where
  "literals [] = Some []"
| "literals (One a # is') = (case literals is' of None \<Rightarrow> None | Some as' \<Rightarrow> Some (a # as'))"
| "literals (_ # is') = None"

definition keep_open :: "pystr list \<Rightarrow> pystr list \<Rightarrow> pystr list option" where
  "keep_open hs ws = (case filter (\<lambda>w. \<not> has_any hs w) ws of [] \<Rightarrow> None | ws' \<Rightarrow> Some ws')"

fun lit_chr ::
  "flags \<Rightarrow> pystr list \<Rightarrow> bool \<Rightarrow> cls_item list \<Rightarrow> pystr list option \<Rightarrow> pystr list option" where
  "lit_chr fl hs neg items None = None"
| "lit_chr fl hs neg items (Some ws) =
     (case (if neg then None else literals items) of
        None \<Rightarrow> Some [[]]
      | Some as' \<Rightarrow> keep_open hs (concat (map (\<lambda>w. map (\<lambda>a. w @ [pat_fold fl a]) as') ws)))"

fun lit_lub :: "pystr list option \<Rightarrow> pystr list option \<Rightarrow> pystr list option" where
  "lit_lub None b = b"
| "lit_lub a None = a"
| "lit_lub (Some v) (Some w) = Some (v @ w)"

fun lit_below :: "pystr list option \<Rightarrow> pystr list option \<Rightarrow> bool" where
  "lit_below None b = True"
| "lit_below a None = False"
| "lit_below (Some v) (Some w) \<longleftrightarrow> list_all (\<lambda>x. x \<in> set w) v \<or> [] \<in> set w"

definition lit_known :: "flags \<Rightarrow> pystr list \<Rightarrow> pystr list option \<Rightarrow> pystr \<Rightarrow> bool" where
  "lit_known fl hs a l \<longleftrightarrow>
     has_any hs (folded fl (rev l)) \<or>
     (case a of None \<Rightarrow> False | Some ws \<Rightarrow> \<exists>w\<in>set ws. \<exists>u. folded fl (rev l) = u @ w)"

lemma literals_has:
  "literals items = Some as' \<Longrightarrow> cls_has U fl False items c \<Longrightarrow> \<exists>a\<in>set as'. fold_char fl c = pat_fold fl a"
  by (induction items arbitrary: as' rule: literals.induct)
     (auto simp: cls_has_def range_has_one split: option.splits)

lemma keep_open_known:
  assumes "w \<in> set ws" "folded fl (rev l) = u @ w"
  shows "lit_known fl hs (keep_open hs ws) l"
proof (cases "has_any hs w")
  case True
  then show ?thesis using assms(2) has_any_append(2) [of hs w u] by (simp add: lit_known_def)
next
  case False
  then have w: "w \<in> set (filter (\<lambda>w. \<not> has_any hs w) ws)" using assms(1) by simp
  then have "keep_open hs ws = Some (filter (\<lambda>w. \<not> has_any hs w) ws)"
    unfolding keep_open_def by (cases "filter (\<lambda>w. \<not> has_any hs w) ws") auto
  then show ?thesis using assms(2) w unfolding lit_known_def by auto
qed

interpretation lits: left_domain U fl "lit_chr fl hs" lit_lub lit_below "Some [[]]" "lit_known fl hs"
  for U fl hs
proof
  show "lit_known fl hs (Some [[]]) l" for l by (simp add: lit_known_def)
  show "lit_known fl hs (lit_lub a b) l" if "lit_known fl hs a l \<or> lit_known fl hs b l" for a b l
    using that by (cases a; cases b) (auto simp: lit_known_def)
  show "lit_known fl hs b l" if "lit_below a b" "lit_known fl hs a l" for a b l
    using that by (cases a; cases b) (auto simp: lit_known_def list_all_iff)
  show "lit_known fl hs (lit_chr fl hs neg items a) (c # l)"
    if known: "lit_known fl hs a l" and c: "cls_has U fl neg items c" for a l neg items c
  proof (cases "has_any hs (folded fl (rev l))")
    case True
    then show ?thesis using has_any_append(1) by (simp add: lit_known_def folded_def)
  next
    case False
    then obtain ws w u where a: "a = Some ws" "w \<in> set ws" "folded fl (rev l) = u @ w"
      using known by (auto simp: lit_known_def split: option.splits)
    show ?thesis
    proof (cases "if neg then None else literals items")
      case None
      then show ?thesis using a by (auto simp: lit_known_def)
    next
      case (Some as')
      then have "literals items = Some as'" "\<not> neg" by (cases neg; simp)+
      then obtain x where x: "x \<in> set as'" "fold_char fl c = pat_fold fl x"
        using literals_has c by (metis (full_types))
      then have "folded fl (rev (c # l)) = u @ (w @ [pat_fold fl x])"
        using a by (simp add: folded_def)
      moreover have "w @ [pat_fold fl x] \<in>
          set (concat (map (\<lambda>w. map (\<lambda>a. w @ [pat_fold fl a]) as') ws))"
        using a x by auto
      moreover have "lit_chr fl hs neg items a =
          keep_open hs (concat (map (\<lambda>w. map (\<lambda>a. w @ [pat_fold fl a]) as') ws))"
        using a(1) Some by simp
      ultimately show ?thesis using keep_open_known by simp
    qed
  qed
qed

definition needs_literal :: "pystr list \<Rightarrow> regex \<Rightarrow> bool" where
  "needs_literal hs R \<longleftrightarrow>
     absint (lit_chr (re_flags R) hs) lit_lub lit_below (Some [[]]) (re_rx R) (Some [[]]) = None"

lemma needs_literal_search:
  assumes "needs_literal hs R" "search U R s"
  shows "has_any hs (folded (re_flags R) s)"
proof -
  have "has_any hs (folded (re_flags R) (rev (rev s @ [])))"
  proof (rule lits.search_known [where hs = hs and a = "Some [[]]" and l = "[]"])
    show "search_from U R [] s" using assms(2) by (simp add: search_def)
  qed (use assms(1) has_any_append in
      \<open>auto simp: needs_literal_def lit_known_def folded_def\<close>)
  then show ?thesis by simp
qed

subsection \<open>A blank before a dash or a slash\<close>

fun gap_chr :: "bool \<Rightarrow> cls_item list \<Rightarrow> bool option \<Rightarrow> bool option" where
  "gap_chr neg items None = None"
| "gap_chr neg items (Some b) =
     (if \<not> neg \<and> items = [Space True] then Some True
      else if b \<and> \<not> neg \<and> (items = [One 45] \<or> items = [One 47]) then None
      else Some False)"

fun gap_lub :: "bool option \<Rightarrow> bool option \<Rightarrow> bool option" where
  "gap_lub None b = b"
| "gap_lub a None = a"
| "gap_lub (Some a) (Some b) = Some (a \<and> b)"

fun gap_below :: "bool option \<Rightarrow> bool option \<Rightarrow> bool" where
  "gap_below None b = True"
| "gap_below a None = False"
| "gap_below (Some a) (Some b) \<longleftrightarrow> b \<longrightarrow> a"

definition has_gap :: "unidb \<Rightarrow> flags \<Rightarrow> pystr \<Rightarrow> bool" where
  "has_gap U fl l \<longleftrightarrow> (\<exists>u d x v. l = u @ d # x # v \<and> (d = 45 \<or> d = 47) \<and> space_char U fl x)"

definition gap_known :: "unidb \<Rightarrow> flags \<Rightarrow> bool option \<Rightarrow> pystr \<Rightarrow> bool" where
  "gap_known U fl a l \<longleftrightarrow>
     has_gap U fl l \<or>
     (case a of None \<Rightarrow> False | Some b \<Rightarrow> b \<longrightarrow> l \<noteq> [] \<and> space_char U fl (hd l))"

lemma has_gap_Cons: "has_gap U fl l \<Longrightarrow> has_gap U fl (c # l)"
  unfolding has_gap_def by (metis append_Cons)

lemma has_gap_append: "has_gap U fl l \<Longrightarrow> has_gap U fl (w @ l)"
  unfolding has_gap_def by (metis append_assoc)

lemma dash_char: "cls_has U fl False [One d] c \<Longrightarrow> d = 45 \<or> d = 47 \<Longrightarrow> c = d"
  by (auto simp: cls_has_def range_has_def Let_def fold_char_def lower_char_def upper_char_def
      split: if_splits)

interpretation gaps: left_domain U fl gap_chr gap_lub gap_below "Some False" "gap_known U fl" for U fl
proof
  show "gap_known U fl (Some False) l" for l by (simp add: gap_known_def)
  show "gap_known U fl (gap_lub a b) l" if "gap_known U fl a l \<or> gap_known U fl b l" for a b l
    using that by (cases a; cases b) (auto simp: gap_known_def)
  show "gap_known U fl b l" if "gap_below a b" "gap_known U fl a l" for a b l
    using that by (cases a; cases b) (auto simp: gap_known_def)
  show "gap_known U fl (gap_chr neg items a) (c # l)"
    if known: "gap_known U fl a l" and c: "cls_has U fl neg items c" for a l neg items c
  proof (cases "has_gap U fl l")
    case True
    then show ?thesis using has_gap_Cons by (simp add: gap_known_def)
  next
    case False
    then obtain b where a: "a = Some b" "b \<longrightarrow> l \<noteq> [] \<and> space_char U fl (hd l)"
      using known by (auto simp: gap_known_def split: option.splits)
    show ?thesis
    proof (cases "\<not> neg \<and> items = [Space True]")
      case True
      then show ?thesis using a c by (simp add: gap_known_def cls_has_def)
    next
      case notsp: False
      show ?thesis
      proof (cases "b \<and> \<not> neg \<and> (items = [One 45] \<or> items = [One 47])")
        case True
        then obtain x v where "l = x # v" "space_char U fl x" using a by (cases l) auto
        moreover have "c = 45 \<or> c = 47" using True c dash_char by metis
        ultimately have "has_gap U fl (c # l)"
          unfolding has_gap_def by (intro exI [of _ "[]"]) auto
        then show ?thesis by (simp add: gap_known_def)
      next
        case False
        then have "gap_chr neg items a = Some False" using notsp a(1) by auto
        then show ?thesis by (simp add: gap_known_def)
      qed
    qed
  qed
qed

definition needs_gap :: "regex \<Rightarrow> bool" where
  "needs_gap R \<longleftrightarrow> absint gap_chr gap_lub gap_below (Some False) (re_rx R) (Some False) = None"

lemma needs_gap_search:
  assumes "needs_gap R" "search U R s"
  shows "has_gap U (re_flags R) (rev s)"
proof -
  have "has_gap U (re_flags R) (rev s @ [])"
  proof (rule gaps.search_known [where a = "Some False" and l = "[]"])
    show "search_from U R [] s" using assms(2) by (simp add: search_def)
  qed (use assms(1) has_gap_append in \<open>auto simp: needs_gap_def gap_known_def\<close>)
  then show ?thesis by simp
qed

subsection \<open>The Tier 3 gates\<close>

lemma tier3_flag_needs_gap: "needs_gap TIER3_FLAG_PATTERN"
  by (simp add: needs_gap_def TIER3_FLAG_PATTERN_def TIER3_FLAG_SOURCE_def read_simps)

lemma tier3_format_needs_colon: "needs_literal [[58]] TIER3_FORMAT_PATTERN"
  by (simp add: needs_literal_def TIER3_FORMAT_PATTERN_def TIER3_FORMAT_SOURCE_def read_simps
      the_flags_def pat_fold_def lower_char_def keep_open_def has_any_def starts_with_def)

lemma flag_hint_rx:
  "TIER3_FLAG_HINT = \<lparr>re_rx = Cat (Cls False [Space True]) (Cls False [One 45, One 47]),
     re_flags = the_flags False False, re_names = []\<rparr>"
  by (simp add: TIER3_FLAG_HINT_def read_simps)

lemma gap_hint:
  assumes "has_gap U fl (rev s)" "\<not> ascii_only fl"
  shows "search U TIER3_FLAG_HINT s"
proof -
  obtain u d x v where s: "rev s = u @ d # x # v" "d = 45 \<or> d = 47" "space_char U fl x"
    using assms(1) by (auto simp: has_gap_def)
  from s(1) have "s = rev (u @ d # x # v)" by (metis rev_rev_ident)
  then have "s = rev v @ (x # d # rev u)" by simp
  moreover have "space_char U (the_flags False False) x"
    using s(3) assms(2) by (auto simp: space_char_def the_flags_def split: if_splits)
  then have "found U (the_flags False False) (Cat (Cls False [Space True]) (Cls False [One 45, One 47]))
      (At (rev (rev v)) (x # d # rev u) [])"
    using s(2)
    by (auto simp: take_char_def cls_has_def range_has_def fold_char_def the_flags_def)
  ultimately show ?thesis
    unfolding search_iff flag_hint_rx by (intro exI [of _ "rev v"] exI [of _ "x # d # rev u"]) simp
qed

lemma fold_colon: "fold_char fl c = 58 \<Longrightarrow> c = 58"
  by (auto simp: fold_char_def lower_char_def split: if_splits)

lemma format_colon: "search U TIER3_FORMAT_PATTERN s \<Longrightarrow> 58 \<in> set s"
proof -
  assume "search U TIER3_FORMAT_PATTERN s"
  then have "has_sub [58] (folded (re_flags TIER3_FORMAT_PATTERN) s)"
    using needs_literal_search [OF tier3_format_needs_colon] by (simp add: has_any_def)
  then have "58 \<in> fold_char (re_flags TIER3_FORMAT_PATTERN) ` set s"
    unfolding has_sub_iff folded_def by (metis image_set in_set_conv_decomp append_Cons append_Nil)
  then show ?thesis using fold_colon by (metis imageE)
qed

text \<open>The complete expression is the common one with two more families of alternatives.\<close>

lemma common_reader:
  "\<exists>as xs n. read_all start_reader (raw TIER3_COMMON_SOURCE) = Reader Norm [] as xs n [] True True True"
  by (simp add: TIER3_COMMON_SOURCE_def CMD_def read_simps)

lemma found_alt_before:
  "found U fl (alt_before as r) p \<longleftrightarrow> (\<exists>a\<in>set as. found U fl a p) \<or> found U fl r p"
  by (induction as arbitrary: r) auto

lemma tier3_parts:
  "re_flags TIER3_COMMON_PATTERN = the_flags True True"
  "re_flags TIER3_FLAG_PATTERN = the_flags True True"
  "re_flags TIER3_FORMAT_PATTERN = the_flags True True"
  "re_flags TIER3_PATTERN = the_flags True True"
  "found U fl (re_rx TIER3_PATTERN) p \<longleftrightarrow>
     found U fl (re_rx TIER3_COMMON_PATTERN) p \<or> found U fl (re_rx TIER3_FLAG_PATTERN) p \<or>
     found U fl (re_rx TIER3_FORMAT_PATTERN) p"
proof -
  obtain as xs n where c:
    "read_all start_reader (raw TIER3_COMMON_SOURCE) = Reader Norm [] as xs n [] True True True"
    using common_reader by blast
  then have common: "TIER3_COMMON_PATTERN =
      \<lparr>re_rx = alt_before as (seq_of xs), re_flags = the_flags True True, re_names = []\<rparr>"
    by (simp add: TIER3_COMMON_PATTERN_def re_compile_def parse_re_def group_body_def)
  note defs = TIER3_PATTERN_def TIER3_FLAG_PATTERN_def TIER3_FORMAT_PATTERN_def
  show "re_flags TIER3_COMMON_PATTERN = the_flags True True" by (simp add: common)
  have "\<exists>A B C D E F.
      TIER3_PATTERN = \<lparr>re_rx = alt_before as (Alt (seq_of xs)
          (Cat (Behind False (Cls False [Word True])) (Alt A (Alt B (Alt C (Alt D (Alt E F))))))),
        re_flags = the_flags True True, re_names = []\<rparr> \<and>
      TIER3_FLAG_PATTERN = \<lparr>re_rx = Cat (Behind False (Cls False [Word True]))
          (Alt A (Alt B (Alt C (Alt D E)))),
        re_flags = the_flags True True, re_names = []\<rparr> \<and>
      TIER3_FORMAT_PATTERN = \<lparr>re_rx = Cat (Behind False (Cls False [Word True])) F,
        re_flags = the_flags True True, re_names = []\<rparr>"
    unfolding TIER3_PATTERN_def TIER3_FLAG_PATTERN_def TIER3_FORMAT_PATTERN_def re_compile_def
      parse_re_def raw_simps(2) read_all_append c
    by (simp add: TIER3_FLAG_SOURCE_def TIER3_FORMAT_SOURCE_def read_simps)
  then obtain A B C D E F where full: "TIER3_PATTERN = \<lparr>re_rx = alt_before as (Alt (seq_of xs)
          (Cat (Behind False (Cls False [Word True])) (Alt A (Alt B (Alt C (Alt D (Alt E F))))))),
        re_flags = the_flags True True, re_names = []\<rparr>"
    and flag: "TIER3_FLAG_PATTERN = \<lparr>re_rx = Cat (Behind False (Cls False [Word True]))
          (Alt A (Alt B (Alt C (Alt D E)))),
        re_flags = the_flags True True, re_names = []\<rparr>"
    and form: "TIER3_FORMAT_PATTERN = \<lparr>re_rx = Cat (Behind False (Cls False [Word True])) F,
        re_flags = the_flags True True, re_names = []\<rparr>"
    by (elim exE conjE)
  show "re_flags TIER3_FLAG_PATTERN = the_flags True True" by (simp add: flag)
  show "re_flags TIER3_FORMAT_PATTERN = the_flags True True" by (simp add: form)
  show "re_flags TIER3_PATTERN = the_flags True True" by (simp add: full)
  show "found U fl (re_rx TIER3_PATTERN) p \<longleftrightarrow>
     found U fl (re_rx TIER3_COMMON_PATTERN) p \<or> found U fl (re_rx TIER3_FLAG_PATTERN) p \<or>
     found U fl (re_rx TIER3_FORMAT_PATTERN) p"
    unfolding common full flag form by (auto simp: found_alt_before)
qed

definition separator :: "nat \<Rightarrow> bool" where
  "separator c \<longleftrightarrow> 28 \<le> c \<and> c \<le> 31"

lemma with_ascii_plain:
  assumes "list_all (\<lambda>c. c < 128) s" "\<not> list_ex separator s"
  shows "search U (with_ascii R) s = search U R s"
proof -
  have "list_all plain_char s"
    using assms by (auto simp: list_all_iff list_ex_iff plain_char_def separator_def)
  then show ?thesis using plain_search [of s U R] by (simp add: with_ascii_def asciify_def)
qed

lemma search_tier3:
  "search U TIER3_PATTERN s \<longleftrightarrow>
     search U TIER3_COMMON_PATTERN s \<or> search U TIER3_FLAG_PATTERN s \<or> search U TIER3_FORMAT_PATTERN s"
  unfolding search_iff tier3_parts by blast

lemma builtin_tier3_exact:
  assumes "list_all (\<lambda>c. c < 128) s \<longrightarrow> \<not> list_ex separator s"
  shows "builtin_tier3 U s = search U TIER3_PATTERN s"
proof -
  have "search U (if list_all (\<lambda>c. c < 128) s then with_ascii TIER3_COMMON_PATTERN
      else TIER3_COMMON_PATTERN) s = search U TIER3_COMMON_PATTERN s"
    using assms with_ascii_plain by simp
  moreover have "search U TIER3_FLAG_HINT s" if "search U TIER3_FLAG_PATTERN s"
    using gap_hint [OF needs_gap_search [OF tier3_flag_needs_gap that]]
    by (simp add: tier3_parts the_flags_def)
  ultimately show ?thesis
    using format_colon unfolding builtin_tier3_def search_tier3 Let_def by blast
qed

end
