(* ===== verification/PatternSeparators.thy ===== *)
theory PatternSeparators
  imports PatternGates
begin

text \<open>
  Where the classifier's tables and the reference tables of \<open>patterns.py\<close> agree, and the texts on
  which they do not.
\<close>

text \<open>C7: The fast matchers decide what the published tables say. On a text that is not ASCII, or has
  none of the four information separators (U+001C to U+001F), \<open>matches_tier3\<close> with its gates and its
  ASCII copy finds a match exactly when \<open>TIER3_PATTERN\<close> does, and \<open>matches_tier2\<close> exactly when
  \<open>TIER2_PATTERN\<close> does.\<close>

theorem fast_matchers_exact:
  assumes "list_all (\<lambda>c. c < 128) s \<longrightarrow> \<not> list_ex separator s"
  shows "builtin_tier3 U s = search U TIER3_PATTERN s \<and> builtin_tier2 U s = search U TIER2_PATTERN s"
  using assms with_ascii_plain builtin_tier3_exact by (simp_all add: builtin_tier2_def)

theorem fast_matchers_exact_witness:
  "builtin_tier3 ascii_db (asc ''rm -rf /'') = search ascii_db TIER3_PATTERN (asc ''rm -rf /'') \<and>
   builtin_tier2 ascii_db (asc ''rm -rf /'') = search ascii_db TIER2_PATTERN (asc ''rm -rf /'')"
  by (rule fast_matchers_exact) (simp add: asc_def separator_def)

subsection \<open>The separators\<close>

text \<open>A text the reference table calls irreversible: a fork bomb with a file separator for its
  blank.\<close>

definition separated_bomb :: pystr where
  "separated_bomb = [58, 28, 40, 41, 123]"

lemmas match_simps = search_from.simps take_char_def cls_has_def range_has_def fold_char_def
  lower_char_def upper_char_def Let_def repeat_def more_rounds_def moved_def at_bol_def
  at_word_boundary_def word_char_def space_char_def look_back_def between_def

lemmas common_eval = TIER3_COMMON_PATTERN_def TIER3_COMMON_SOURCE_def CMD_def read_simps
  with_ascii_def the_flags_def

lemma bomb_missed:
  "with_ascii TIER3_COMMON_PATTERN = R \<Longrightarrow> \<not> search U R separated_bomb"
  apply (simp add: common_eval)
  apply (drule sym)
  apply (simp add: search_def separated_bomb_def match_simps)
  done

lemma bomb_found: "TIER3_COMMON_PATTERN = R \<Longrightarrow> search U R separated_bomb"
  apply (simp add: common_eval)
  apply (drule sym)
  apply (simp add: search_def separated_bomb_def match_simps)
  done

lemma format_word: "needs_literal [asc ''format''] TIER3_FORMAT_PATTERN"
  by (simp add: needs_literal_def TIER3_FORMAT_PATTERN_def TIER3_FORMAT_SOURCE_def read_simps
      the_flags_def pat_fold_def lower_char_def keep_open_def has_any_def starts_with_def asc_def)

text \<open>C35: The claim that ASCII text means the same under \<open>re.ASCII\<close> fails for the information
  separators. They are blanks of the reference table and not of its ASCII copy, so the classifier
  passes over a text that \<open>TIER3_PATTERN\<close> calls irreversible.\<close>

theorem separator_evades_tier3:
  "search U TIER3_PATTERN separated_bomb \<and> \<not> builtin_tier3 U separated_bomb"
proof -
  have "\<not> search U TIER3_FLAG_PATTERN separated_bomb"
    using needs_gap_search [OF tier3_flag_needs_gap, of U separated_bomb]
    by (auto simp: has_gap_def separated_bomb_def Cons_eq_append_conv)
  moreover have "\<not> search U TIER3_FORMAT_PATTERN separated_bomb"
    using needs_literal_search [OF format_word, of U separated_bomb]
    by (auto simp: has_any_def folded_def separated_bomb_def starts_with_def asc_def)
  moreover have "list_all (\<lambda>c. c < 128) separated_bomb" by (simp add: separated_bomb_def)
  ultimately show ?thesis
    using bomb_found [OF refl] bomb_missed [OF refl] by (simp add: search_tier3 builtin_tier3_def)
qed

end
