(* ===== verification/PatternRedaction.thy ===== *)
theory PatternRedaction
  imports PatternGates Redaction
begin

text \<open>
  The redaction tables of \<open>patterns.py\<close> as \<open>redact\<close> uses them: the replacements, and that the gates
  in front of the rules skip only rules that would change nothing.
\<close>

definition group :: "nat \<Rightarrow> (nat \<times> pystr) list \<Rightarrow> pystr" where
  "group n g = (case dget g n of None \<Rightarrow> [] | Some w \<Rightarrow> w)"

text \<open>\<open>r"\g<prefix>[REDACTED]"\<close>.\<close>

definition keep_prefix :: "regex \<Rightarrow> replacement" where
  "keep_prefix R g w =
     (case dget (re_names R) (asc ''prefix'') of None \<Rightarrow> [] | Some n \<Rightarrow> group n g) @ REDACTION_PLACEHOLDER"

definition builtin_tables :: "unidb \<Rightarrow> redaction_tables" where
  "builtin_tables U =
     \<lparr>url_creds_sub = sub U URL_CREDS_PATTERN (\<lambda>g w. asc ''://'' @ REDACTION_PLACEHOLDER @ asc ''@''),
      url_token_sub = sub U URL_TOKEN_USERINFO_PATTERN
        (\<lambda>g w. group 1 g @ asc ''://'' @ REDACTION_PLACEHOLDER @ asc ''@''),
      prefix_rules = map (\<lambda>R. (True, sub U R (keep_prefix R))) REDACTION_PREFIX_PATTERNS,
      command_scoped_subs = map (\<lambda>R. sub U R (keep_prefix R)) COMMAND_SCOPED_PREFIX_PATTERNS,
      whole_match_subs = map (\<lambda>R. sub U R (\<lambda>g w. REDACTION_PLACEHOLDER)) REDACTION_PATTERNS,
      mysql_family = search U MYSQL_FAMILY_CLI_PATTERN,
      mysql_compact_sub = sub U MYSQL_COMPACT_PASSWORD_PATTERN
        (\<lambda>g w. group 1 g @ REDACTION_PLACEHOLDER)\<rparr>"

subsection \<open>A rule that finds nothing changes nothing\<close>

lemma sub_from_unchanged: "\<not> search_from U R l s \<Longrightarrow> sub_from U R f must l s = s"
proof (induction s arbitrary: l must)
  case Nil
  then show ?case by (simp add: search_from.simps sub_from.simps)
next
  case (Cons c s)
  then show ?case
    by (simp add: search_from.simps [of _ _ _ "c # s"] sub_from.simps [of _ _ _ _ _ "c # s"])
qed

lemma sub_unchanged: "\<not> search U R s \<Longrightarrow> sub U R f s = s"
  by (simp add: search_def sub_def sub_from_unchanged)

subsection \<open>The anchors\<close>

definition anchored_rule :: "bool \<Rightarrow> pystr list \<Rightarrow> regex \<Rightarrow> bool" where
  "anchored_rule ic hs R \<longleftrightarrow>
     re_rx R \<noteq> Cls False [] \<and> icase (re_flags R) = ic \<and> needs_literal hs R"

lemma anchored_prefix:
  assumes "anchored_rule True hs R" "is_ascii s" "\<not> any_hint hs (lower s)"
  shows "sub U R f s = s"
  using assms needs_literal_search [of hs R U s] folded_ascii [of "re_flags R" s]
  by (auto intro!: sub_unchanged simp: anchored_rule_def is_ascii_def any_hint_def has_any_def)

lemma anchored_whole:
  assumes "anchored_rule False hs R" "\<not> any_hint hs s"
  shows "sub U R f s = s"
  using assms needs_literal_search [of hs R U s] folded_exact [of "re_flags R" s]
  by (auto intro!: sub_unchanged simp: anchored_rule_def any_hint_def has_any_def)

lemmas anchor_simps = anchored_rule_def needs_literal_def read_simps the_flags_def pat_fold_def
  lower_char_def keep_open_def has_any_def starts_with_def prefix_hints_def asc_def

lemma authorization_anchor: "anchored_rule True (prefix_hints ! 0) AUTHORIZATION_RULE"
  by (simp add: AUTHORIZATION_RULE_def anchor_simps)

lemma bearer_anchor: "anchored_rule True (prefix_hints ! 1) BEARER_RULE"
  by (simp add: BEARER_RULE_def anchor_simps)

lemma quoted_keyword_anchor: "anchored_rule True (prefix_hints ! 2) QUOTED_KEYWORD_RULE"
  by (simp add: QUOTED_KEYWORD_RULE_def anchor_simps)

lemma keyword_anchor: "anchored_rule True (prefix_hints ! 3) KEYWORD_RULE"
  by (simp add: KEYWORD_RULE_def VALUE_RUN_def anchor_simps)

lemma aws_secret_anchor: "anchored_rule True (prefix_hints ! 4) AWS_SECRET_RULE"
  by (simp add: AWS_SECRET_RULE_def VALUE_RUN_def anchor_simps)

lemma azure_key_anchor: "anchored_rule True (prefix_hints ! 5) AZURE_KEY_RULE"
  by (simp add: AZURE_KEY_RULE_def anchor_simps)

lemma sas_anchor: "anchored_rule True (prefix_hints ! 6) SAS_RULE"
  by (simp add: SAS_RULE_def anchor_simps)

lemma cli_flag_anchor: "anchored_rule True (prefix_hints ! 7) CLI_FLAG_RULE"
  by (simp add: CLI_FLAG_RULE_def anchor_simps)

lemma securestring_anchor: "anchored_rule True (prefix_hints ! 8) SECURESTRING_RULE"
  by (simp add: SECURESTRING_RULE_def anchor_simps)

lemma pem_anchor: "anchored_rule False WHOLE_MATCH_HINTS PEM_RULE"
  by (simp add: PEM_RULE_def WHOLE_MATCH_HINTS_def anchor_simps)

lemma github_pat_anchor: "anchored_rule False WHOLE_MATCH_HINTS GITHUB_PAT_RULE"
  by (simp add: GITHUB_PAT_RULE_def WHOLE_MATCH_HINTS_def anchor_simps)

lemma github_token_anchor: "anchored_rule False WHOLE_MATCH_HINTS GITHUB_TOKEN_RULE"
  by (simp add: GITHUB_TOKEN_RULE_def WHOLE_MATCH_HINTS_def anchor_simps)

lemma openai_project_anchor: "anchored_rule False WHOLE_MATCH_HINTS OPENAI_PROJECT_RULE"
  by (simp add: OPENAI_PROJECT_RULE_def WHOLE_MATCH_HINTS_def anchor_simps)

lemma openai_anchor: "anchored_rule False WHOLE_MATCH_HINTS OPENAI_RULE"
  by (simp add: OPENAI_RULE_def WHOLE_MATCH_HINTS_def anchor_simps)

lemma anthropic_anchor: "anchored_rule False WHOLE_MATCH_HINTS ANTHROPIC_RULE"
  by (simp add: ANTHROPIC_RULE_def WHOLE_MATCH_HINTS_def anchor_simps)

lemma huggingface_anchor: "anchored_rule False WHOLE_MATCH_HINTS HUGGINGFACE_RULE"
  by (simp add: HUGGINGFACE_RULE_def WHOLE_MATCH_HINTS_def anchor_simps)

lemma aws_id_anchor: "anchored_rule False WHOLE_MATCH_HINTS AWS_ID_RULE"
  by (simp add: AWS_ID_RULE_def WHOLE_MATCH_HINTS_def anchor_simps)

lemma slack_anchor: "anchored_rule False WHOLE_MATCH_HINTS SLACK_RULE"
  by (simp add: SLACK_RULE_def WHOLE_MATCH_HINTS_def anchor_simps)

lemma slack_webhook_anchor: "anchored_rule False WHOLE_MATCH_HINTS SLACK_WEBHOOK_RULE"
  by (simp add: SLACK_WEBHOOK_RULE_def WHOLE_MATCH_HINTS_def anchor_simps)

lemma google_key_anchor: "anchored_rule False WHOLE_MATCH_HINTS GOOGLE_KEY_RULE"
  by (simp add: GOOGLE_KEY_RULE_def WHOLE_MATCH_HINTS_def anchor_simps)

lemma google_oauth_anchor: "anchored_rule False WHOLE_MATCH_HINTS GOOGLE_OAUTH_RULE"
  by (simp add: GOOGLE_OAUTH_RULE_def WHOLE_MATCH_HINTS_def anchor_simps)

lemma stripe_anchor: "anchored_rule False WHOLE_MATCH_HINTS STRIPE_RULE"
  by (simp add: STRIPE_RULE_def WHOLE_MATCH_HINTS_def anchor_simps)

lemma gitlab_anchor: "anchored_rule False WHOLE_MATCH_HINTS GITLAB_RULE"
  by (simp add: GITLAB_RULE_def WHOLE_MATCH_HINTS_def anchor_simps)

lemma npm_anchor: "anchored_rule False WHOLE_MATCH_HINTS NPM_RULE"
  by (simp add: NPM_RULE_def WHOLE_MATCH_HINTS_def anchor_simps)

lemma pypi_anchor: "anchored_rule False WHOLE_MATCH_HINTS PYPI_RULE"
  by (simp add: PYPI_RULE_def WHOLE_MATCH_HINTS_def anchor_simps)

lemma jwt_anchor: "anchored_rule False WHOLE_MATCH_HINTS JWT_RULE"
  by (simp add: JWT_RULE_def WHOLE_MATCH_HINTS_def anchor_simps)

lemmas prefix_anchors =
  authorization_anchor bearer_anchor quoted_keyword_anchor keyword_anchor aws_secret_anchor
  azure_key_anchor sas_anchor cli_flag_anchor securestring_anchor

lemmas whole_anchors =
  pem_anchor github_pat_anchor github_token_anchor openai_project_anchor openai_anchor
  anthropic_anchor huggingface_anchor aws_id_anchor slack_anchor slack_webhook_anchor
  google_key_anchor google_oauth_anchor stripe_anchor gitlab_anchor npm_anchor pypi_anchor
  jwt_anchor

lemma builtin_anchored: "anchored_tables (builtin_tables U)"
proof -
  have "sub U (REDACTION_PREFIX_PATTERNS ! i) (keep_prefix (REDACTION_PREFIX_PATTERNS ! i)) s = s"
    if "i < length REDACTION_PREFIX_PATTERNS" "is_ascii s" "\<not> any_hint (prefix_hints ! i) (lower s)"
    for i s
  proof -
    have "i \<in> {0, 1, 2, 3, 4, 5, 6, 7, 8}"
      using that(1) by (auto simp: REDACTION_PREFIX_PATTERNS_def)
    then have "anchored_rule True (prefix_hints ! i) (REDACTION_PREFIX_PATTERNS ! i)"
      using prefix_anchors by (auto simp: REDACTION_PREFIX_PATTERNS_def)
    then show ?thesis using anchored_prefix that(2,3) by blast
  qed
  moreover have "sub U R (\<lambda>g w. REDACTION_PLACEHOLDER) s = s"
    if "R \<in> set REDACTION_PATTERNS" "\<not> any_hint WHOLE_MATCH_HINTS s" for R s
  proof -
    have "anchored_rule False WHOLE_MATCH_HINTS R"
      using that(1) whole_anchors by (auto simp: REDACTION_PATTERNS_def)
    then show ?thesis using anchored_whole that(2) by blast
  qed
  ultimately show ?thesis by (auto simp: anchored_tables_def builtin_tables_def)
qed

text \<open>C8: With the shipped tables, skipping rules loses no redaction. On every text, \<open>redact\<close>, which
  passes over a rule when none of its literal anchors occurs, yields what running every
  expression in order would: every match of a skipped rule would contain one of its anchors.\<close>

theorem builtin_gates_lose_nothing:
  "redact (builtin_tables U) s = redact_all (builtin_tables U) s"
  by (rule gated_redaction_complete [OF builtin_anchored])

end
