(* ===== verification/PatternPolicy.thy ===== *)
theory PatternPolicy
  imports PatternGates Policy
begin

text \<open>
  The classifier of \<open>policy.py\<close> on the shipped tables of \<open>patterns.py\<close>.
\<close>

definition builtin_scans :: "unidb \<Rightarrow> scans" where
  "builtin_scans U =
     \<lparr>matches_tier3 = builtin_tier3 U, matches_tier2 = builtin_tier2 U,
      priv_esc = search U PRIV_ESC_PATTERN,
      priv_esc_eval_hint = search U PRIV_ESC_EVAL_HINT,
      priv_esc_reader_sub = sub U PRIV_ESC_READER_SEGMENT (\<lambda>g w. asc '' '')\<rparr>"

subsection \<open>Reading an expression along a text\<close>

lemma matches_run:
  assumes "list_all (cls_has U fl neg items) w"
  shows "(matches U fl (Cls neg items) ^^ length w) (At l (w @ s) g) (At (rev w @ l) s g)"
  using assms
proof (induction w arbitrary: l)
  case (Cons c w)
  then have "(matches U fl (Cls neg items) ^^ length w) (At (c # l) (w @ s) g) (At (rev w @ c # l) s g)"
    by (simp del: matches.simps)
  moreover have "matches U fl (Cls neg items) (At l ((c # w) @ s) g) (At (c # l) (w @ s) g)"
    using Cons.prems by simp
  ultimately show ?case unfolding list.size(4) add_Suc_right add_0_right relpowp_Suc_left by auto
qed simp

lemma matches_plus:
  assumes "list_all (cls_has U fl neg items) w" "w \<noteq> []"
  shows "matches U fl (Rep g 1 None (Cls neg items)) (At l (w @ s) c) (At (rev w @ l) s c)"
  using matches_run [OF assms(1)] assms(2) by (auto simp: Suc_le_eq intro!: exI [of _ "length w"])

lemma found_matches: "regular r \<Longrightarrow> matches U fl r p q \<Longrightarrow> found U fl r p"
  using outs_iff_matches by (metis empty_iff empty_set)

subsection \<open>Recursive deletes\<close>

lemma flag_first_rule:
  "\<exists>r. TIER3_FLAG_PATTERN = \<lparr>re_rx = Cat (Behind False (Cls False [Word True]))
      (Alt (Cat (Lit 114) (Cat (Lit 109) (Cat (Rep Greedy 1 None (Cls False [Space True]))
        (Cat (Lit 45) (Cls False [One 114, One 102]))))) r),
     re_flags = the_flags True True, re_names = []\<rparr>"
  by (simp add: TIER3_FLAG_PATTERN_def TIER3_FLAG_SOURCE_def read_simps)

definition rm_flag :: "nat \<Rightarrow> bool" where
  "rm_flag c \<longleftrightarrow> c = 114 \<or> c = 102 \<or> c = 82 \<or> c = 70"

lemma rm_found:
  assumes "list_all (space_char U (the_flags True True)) ws" "ws \<noteq> []" "rm_flag c"
    "pre = [] \<or> \<not> word_char U (the_flags True True) (last pre)"
  shows "search U TIER3_FLAG_PATTERN (pre @ asc ''rm'' @ ws @ 45 # c # post)"
proof -
  let ?fl = "the_flags True True"
  obtain r where rx: "TIER3_FLAG_PATTERN = \<lparr>re_rx = Cat (Behind False (Cls False [Word True]))
      (Alt (Cat (Lit 114) (Cat (Lit 109) (Cat (Rep Greedy 1 None (Cls False [Space True]))
        (Cat (Lit 45) (Cls False [One 114, One 102]))))) r),
     re_flags = ?fl, re_names = []\<rparr>"
    using flag_first_rule by blast
  let ?r = "Cat (Rep Greedy 1 None (Cls False [Space True])) (Cat (Lit 45) (Cls False [One 114, One 102]))"
  let ?rm = "114 # 109 # ws @ 45 # c # post"
  have fl: "icase ?fl" by (simp add: the_flags_def)
  have "list_all (cls_has U ?fl False [Space True]) ws"
    using assms(1) by (simp add: list_all_iff cls_has_def)
  then have "matches U ?fl (Rep Greedy 1 None (Cls False [Space True]))
      (At (109 # 114 # rev pre) (ws @ 45 # c # post) []) (At (rev ws @ 109 # 114 # rev pre) (45 # c # post) [])"
    using matches_plus assms(2) by blast
  moreover have "matches U ?fl (Cat (Lit 45) (Cls False [One 114, One 102]))
      (At (rev ws @ 109 # 114 # rev pre) (45 # c # post) [])
      (At (c # 45 # rev ws @ 109 # 114 # rev pre) post [])"
    using assms(3) fl
    by (auto simp: rm_flag_def cls_has_def range_has_def fold_char_def lower_char_def upper_char_def)
  ultimately have r: "matches U ?fl ?r (At (109 # 114 # rev pre) (ws @ 45 # c # post) [])
      (At (c # 45 # rev ws @ 109 # 114 # rev pre) post [])"
    unfolding matches.simps(7) by blast
  moreover have "matches U ?fl (Lit 114) (At (rev pre) ?rm [])
      (At (114 # rev pre) (109 # ws @ 45 # c # post) [])"
    and "matches U ?fl (Lit 109) (At (114 # rev pre) (109 # ws @ 45 # c # post) [])
      (At (109 # 114 # rev pre) (ws @ 45 # c # post) [])"
    using fl by (simp_all add: cls_has_def range_has_def fold_char_def lower_char_def)
  ultimately have "matches U ?fl (Cat (Lit 114) (Cat (Lit 109) ?r)) (At (rev pre) ?rm [])
      (At (c # 45 # rev ws @ 109 # 114 # rev pre) post [])"
    unfolding matches.simps(7) by blast
  then have "found U ?fl (Cat (Lit 114) (Cat (Lit 109) ?r)) (At (rev pre) ?rm [])"
    by (rule found_matches [rotated]) simp
  moreover have "found U ?fl (Behind False (Cls False [Word True])) (At (rev pre) ?rm [])"
    using assms(4)
    by (cases pre rule: rev_cases) (auto simp: look_back_def take_char_def cls_has_def)
  ultimately have "found U ?fl (re_rx TIER3_FLAG_PATTERN) (At (rev pre) ?rm [])"
    unfolding rx regex.simps found_after_look found_Alt by blast
  then show ?thesis
    unfolding search_iff by (intro exI [of _ pre] exI [of _ ?rm]) (simp add: rx asc_def)
qed

text \<open>C6: A recursive or forced delete is always Tier 3. Whatever surrounds it, once line
  continuations are removed, a word \<open>rm\<close>, blanks and a flag group that begins with \<open>r\<close> or \<open>f\<close> in
  either case make a command irreversible: read-only mode refuses it, guarded mode refuses it
  unless the operator's allow expression matches.\<close>

theorem recursive_delete_is_tier3:
  assumes "tool \<notin> set READ_ONLY_TOOLS"
    and "strip_line_continuations command = pre @ asc ''rm'' @ ws @ 45 # c # post"
    and "list_all (space_char U (the_flags True True)) ws" "ws \<noteq> []" "rm_flag c"
    and "pre = [] \<or> \<not> word_char U (the_flags True True) (last pre)"
  shows "assess (builtin_scans U) tool command =
      \<lparr>a_tier = IRREVERSIBLE, a_basis = BASIS_IRREVERSIBLE\<rparr> \<and>
    (mode p = asc ''readonly'' \<longrightarrow> \<not> allowed (policy_check (builtin_scans U) p tool command m)) \<and>
    (mode p = asc ''guarded'' \<and> \<not> hits (allow p) (probe_text tool command) \<longrightarrow>
       \<not> allowed (policy_check (builtin_scans U) p tool command m))"
proof -
  let ?t = "pre @ asc ''rm'' @ ws @ 45 # c # post"
  have flag: "search U TIER3_FLAG_PATTERN ?t" using rm_found assms(3-6) by blast
  have "search U TIER3_FLAG_HINT ?t"
    using gap_hint [OF needs_gap_search [OF tier3_flag_needs_gap flag]]
    by (simp add: tier3_parts the_flags_def)
  then have "builtin_tier3 U ?t" using flag by (simp add: builtin_tier3_def Let_def)
  then have a: "assess (builtin_scans U) tool command =
      \<lparr>a_tier = IRREVERSIBLE, a_basis = BASIS_IRREVERSIBLE\<rparr>"
    using assms(1,2) by (simp add: assess_def builtin_scans_def)
  have "max IRREVERSIBLE m = IRREVERSIBLE" by (simp add: max_def)
  then show ?thesis using a by (simp add: check_allowed_iff)
qed

theorem recursive_delete_is_tier3_witness:
  "\<not> allowed (policy_check (builtin_scans ascii_db) \<lparr>mode = asc ''readonly'', deny = None, allow = None\<rparr>
     (asc ''shell_exec'') (asc ''sudo rm '' @ [92, 10] @ asc ''-Rv /srv'') READ_ONLY)"
proof -
  let ?c = "asc ''sudo rm '' @ [92, 10] @ asc ''-Rv /srv''"
  have "strip_continuations (asc ''sudo rm '' @ [92, 10] @ asc ''-Rv /srv'') =
      asc ''sudo rm '' @ asc ''-Rv /srv''"
    by (subst strip_plain) (auto simp: asc_def strip_continuations.simps(2) strip_plain_all)
  then have "strip_line_continuations ?c = asc ''sudo '' @ asc ''rm'' @ [32] @ 45 # 82 # asc ''v /srv''"
    by (simp add: strip_line_continuations_eq asc_def)
  then show ?thesis
    using recursive_delete_is_tier3 [where U = ascii_db and ws = "[32]" and c = 82
        and pre = "asc ''sudo ''" and tool = "asc ''shell_exec''" and command = ?c
        and p = "\<lparr>mode = asc ''readonly'', deny = None, allow = None\<rparr>" and m = READ_ONLY
        and post = "asc ''v /srv''"]
    by (simp add: READ_ONLY_TOOLS_def rm_flag_def space_char_def word_char_def asc_def)
qed

subsection \<open>Line continuations\<close>

text \<open>\<open>_strip_line_continuations\<close> is the substitution with \<open>LINE_CONTINUATION_PATTERN\<close>: what
  \<open>strip_continuations\<close> writes out is what the expression does.\<close>

definition drop_continuation :: replacement where
  "drop_continuation g w = (if w = [92, 10] \<or> w = [92, 13, 10] then [] else w)"

abbreviation dq_body :: rx where
  "dq_body \<equiv> Alt (Cat (Lit 92) Dot) (Cls True [One 34, One 92])"

lemma continuation_rx:
  "LINE_CONTINUATION_PATTERN =
     \<lparr>re_rx = Alt (Cat (Lit 39) (Cat (Rep Greedy 0 None (Cls True [One 39])) (Lit 39)))
       (Alt (Cat (Lit 34) (Cat (Rep Greedy 0 None dq_body) (Lit 34)))
         (Alt (Cat (Lit 92) (Cat (Rep Greedy 0 (Some 1) (Lit 13)) (Lit 10)))
           (Cat (Lit 92) Dot))),
      re_flags = the_flags False False, re_names = []\<rparr>"
  by (simp add: LINE_CONTINUATION_PATTERN_def read_simps)

abbreviation nofl :: flags where
  "nofl \<equiv> the_flags False False"

lemma nofl_one [simp]: "cls_has U nofl neg [One a] c \<longleftrightarrow> (c = a) \<noteq> neg"
  by (auto simp: cls_has_def range_has_def fold_char_def the_flags_def)

lemma nofl_two [simp]: "cls_has U nofl neg [One a, One b] c \<longleftrightarrow> (c = a \<or> c = b) \<noteq> neg"
  by (auto simp: cls_has_def range_has_def fold_char_def the_flags_def)

lemma nofl_Lit [simp]:
  "outs U nofl (Lit a) (At l [] g) = []"
  "outs U nofl (Lit a) (At l (c # s) g) = (if c = a then [At (c # l) s g] else [])"
  by (simp_all add: take_char_def)

text \<open>A greedy loop whose body can go on in one way, and stops where a closing character may be.\<close>

definition closing :: "unidb \<Rightarrow> nat \<Rightarrow> place list \<Rightarrow> place list" where
  "closing U a ps = concat (map (outs U nofl (Lit a)) ps)"

lemma closing_again:
  assumes "f p = [q]" "moved p q" "outs U nofl (Lit a) p = []"
  shows "closing U a (again f False (Suc n) p) = closing U a (again f False n q)"
  using assms by (simp add: closing_def)

lemma closing_stop:
  assumes "f p = []"
  shows "closing U a (again f False n p) = outs U nofl (Lit a) p"
  using assms by (cases n) (simp_all add: closing_def)

lemma single_quoted:
  "length s \<le> n \<Longrightarrow>
     map right (closing U 39 (again (outs U nofl (Cls True [One 39])) False n (At l s g))) =
     (if 39 \<in> set s then [tl (dropWhile (\<lambda>x. x \<noteq> 39) s)] else [])"
proof (induction s arbitrary: l n)
  case Nil
  then show ?case by (subst closing_stop) (simp_all add: take_char_def)
next
  case (Cons c s)
  show ?case
  proof (cases "c = 39")
    case True
    then show ?thesis by (subst closing_stop) (simp_all add: take_char_def)
  next
    case False
    obtain m where n: "n = Suc m" using Cons.prems by (cases n) auto
    have "closing U 39 (again (outs U nofl (Cls True [One 39])) False (Suc m) (At l (c # s) g)) =
        closing U 39 (again (outs U nofl (Cls True [One 39])) False m (At (c # l) s g))"
      by (rule closing_again) (use False in \<open>simp_all add: take_char_def moved_def\<close>)
    then show ?thesis
      using False n Cons.IH [of m "c # l"] Cons.prems by (simp del: outs.simps again.simps)
  qed
qed

lemma double_quoted:
  "length s \<le> n \<Longrightarrow>
     map right (closing U 34 (again (outs U nofl dq_body) False n (At l s g))) =
     (case dquote_rest s of None \<Rightarrow> [] | Some r \<Rightarrow> [r])"
proof (induction s arbitrary: l n rule: dquote_rest.induct)
  case 1
  then show ?case by (subst closing_stop) (simp_all add: take_char_def)
next
  case (2 c s)
  obtain m where n: "n = Suc m" using "2.prems" by (cases n) auto
  consider "c = 34" | "c = 92" "s = []" | d t where "c = 92" "s = d # t" | "c \<noteq> 34" "c \<noteq> 92"
    by (cases s) auto
  then show ?case
  proof cases
    case 1
    then show ?thesis by (subst closing_stop) (simp_all add: take_char_def)
  next
    case 2
    then show ?thesis by (subst closing_stop) (simp_all add: take_char_def)
  next
    case (3 d t)
    show ?thesis
    proof (cases "d = 10")
      case True
      then show ?thesis using 3 by (subst closing_stop) (simp_all add: take_char_def)
    next
      case False
      have "closing U 34 (again (outs U nofl dq_body) False (Suc m) (At l (c # s) g)) =
          closing U 34 (again (outs U nofl dq_body) False m (At (d # c # l) t g))"
        by (rule closing_again) (use 3 False in \<open>simp_all add: take_char_def moved_def\<close>)
      then show ?thesis
        using 3 False n "2.IH"(1) [of d t m "d # c # l"] "2.prems"
        by (simp del: outs.simps again.simps)
    qed
  next
    case 4
    have "closing U 34 (again (outs U nofl dq_body) False (Suc m) (At l (c # s) g)) =
        closing U 34 (again (outs U nofl dq_body) False m (At (c # l) s g))"
      by (rule closing_again) (use 4 in \<open>simp_all add: take_char_def moved_def\<close>)
    then show ?thesis
      using 4 n "2.IH"(2) [of m "c # l"] "2.prems" by (simp del: outs.simps again.simps)
  qed
qed

definition lc_rights :: "unidb \<Rightarrow> pystr \<Rightarrow> pystr \<Rightarrow> pystr list" where
  "lc_rights U l s = map right (outs U nofl (re_rx LINE_CONTINUATION_PATTERN) (At l s []))"

lemma star_outs:
  "outs U fl (Rep Greedy 0 None r) (At l s g) = again (outs U fl r) False (length s) (At l s g)"
  by (simp add: repeat_def more_rounds_def del: again.simps)

lemmas closing_eval = outs.simps(7) nofl_Lit star_outs closing_def if_True if_False list.map
  concat.simps append_Nil2 map_append list.simps simp_thms

lemma lc_rights_eq:
  "lc_rights U l (c # s) =
     (if c = 39 \<and> 39 \<in> set s then [tl (dropWhile (\<lambda>x. x \<noteq> 39) s)] else []) @
     (if c = 34 then (case dquote_rest s of None \<Rightarrow> [] | Some r \<Rightarrow> [r]) else []) @
     (if c = 92 \<and> take 1 s = [10] then [drop 1 s]
      else if c = 92 \<and> take 2 s = [13, 10] then [drop 2 s] else []) @
     (if c = 92 \<and> s \<noteq> [] \<and> hd s \<noteq> 10 then [tl s] else [])"
proof -
  have A: "map right (outs U nofl (Cat (Lit 39) (Cat (Rep Greedy 0 None (Cls True [One 39])) (Lit 39)))
      (At l (c # s) [])) = (if c = 39 \<and> 39 \<in> set s then [tl (dropWhile (\<lambda>x. x \<noteq> 39) s)] else [])"
    using single_quoted [of s "length s" U "c # l" "[]"]
    by (cases "c = 39") (simp_all only: closing_eval order_refl)
  have B: "map right (outs U nofl (Cat (Lit 34) (Cat (Rep Greedy 0 None dq_body) (Lit 34)))
      (At l (c # s) [])) = (if c = 34 then (case dquote_rest s of None \<Rightarrow> [] | Some r \<Rightarrow> [r]) else [])"
    using double_quoted [of s "length s" U "c # l" "[]"]
    by (cases "c = 34") (simp_all only: closing_eval order_refl)
  have C: "map right (outs U nofl (Cat (Lit 92) (Cat (Rep Greedy 0 (Some 1) (Lit 13)) (Lit 10)))
      (At l (c # s) [])) = (if c = 92 \<and> take 1 s = [10] then [drop 1 s]
      else if c = 92 \<and> take 2 s = [13, 10] then [drop 2 s] else [])"
    by (cases s; cases "tl s")
       (auto simp: repeat_def more_rounds_def take_char_def moved_def min_def numeral_2_eq_2)
  have D: "map right (outs U nofl (Cat (Lit 92) Dot) (At l (c # s) [])) =
      (if c = 92 \<and> s \<noteq> [] \<and> hd s \<noteq> 10 then [tl s] else [])"
    by (cases s) (auto simp: take_char_def)
  show ?thesis
    unfolding lc_rights_def continuation_rx regex.simps outs.simps(8) map_append A B C D by simp
qed

lemma lc_step:
  assumes "lc_rights U l (c # s) = r # rs" "length r \<le> length s"
  shows "\<exists>l' g. sub_from U LINE_CONTINUATION_PATTERN f False l (c # s) =
    f g (take (Suc (length s) - length r) (c # s)) @ sub_from U LINE_CONTINUATION_PATTERN f False l' r"
proof -
  have fl: "re_flags LINE_CONTINUATION_PATTERN = nofl" by (simp add: continuation_rx)
  obtain q qs where q: "outs U nofl (re_rx LINE_CONTINUATION_PATTERN) (At l (c # s) []) = q # qs" "right q = r"
    using assms(1) unfolding lc_rights_def by (auto simp: map_eq_Cons_conv)
  then have "moved (At l (c # s) []) q" "between (At l (c # s) []) q = take (Suc (length s) - length r) (c # s)"
    using assms(2) by (simp_all add: moved_def between_def)
  then have "sub_from U LINE_CONTINUATION_PATTERN f False l (c # s) =
      f (caps q) (take (Suc (length s) - length r) (c # s)) @
      sub_from U LINE_CONTINUATION_PATTERN f False (left q) r"
    using q by (subst sub_from.simps) (simp add: fl)
  then show ?thesis by blast
qed

lemma lc_skip:
  assumes "lc_rights U l (c # s) = []"
  shows "sub_from U LINE_CONTINUATION_PATTERN f False l (c # s) =
    c # sub_from U LINE_CONTINUATION_PATTERN f False (c # l) s"
proof -
  have fl: "re_flags LINE_CONTINUATION_PATTERN = nofl" by (simp add: continuation_rx)
  show ?thesis
    using assms unfolding lc_rights_def by (subst sub_from.simps) (simp add: fl)
qed

lemma lc_end: "sub_from U LINE_CONTINUATION_PATTERN f False l [] = []"
  by (subst sub_from.simps) (simp add: continuation_rx take_char_def)

lemma lc_sub_from:
  "sub_from U LINE_CONTINUATION_PATTERN drop_continuation False l s = strip_continuations s"
proof (induction "length s" arbitrary: l s rule: less_induct)
  case less
  let ?sub = "sub_from U LINE_CONTINUATION_PATTERN drop_continuation False"
  show ?case
  proof (cases s)
    case Nil
    then show ?thesis by (simp add: lc_end)
  next
    case (Cons c t)
    have step: "\<exists>g. ?sub l (c # t) =
        drop_continuation g (take (Suc (length t) - length r) (c # t)) @ strip_continuations r"
      if "lc_rights U l (c # t) = r # rs" "length r \<le> length t" for r rs
      using lc_step [OF that, of drop_continuation] less Cons that(2) by fastforce
    have skip: "?sub l (c # t) = c # strip_continuations t" if "lc_rights U l (c # t) = []"
      using lc_skip [OF that] less [of t "c # l"] Cons by simp
    show ?thesis
    proof (cases "c = 39 \<and> 39 \<in> set t")
      case True
      define w where "w = takeWhile (\<lambda>x. x \<noteq> 39) t"
      define r where "r = tl (dropWhile (\<lambda>x. x \<noteq> 39) t)"
      have "dropWhile (\<lambda>x. x \<noteq> 39) t \<noteq> []" using True by simp
      then have "dropWhile (\<lambda>x. x \<noteq> 39) t = 39 # r"
        using hd_dropWhile [of "\<lambda>x. x \<noteq> 39" t] unfolding r_def by (metis list.collapse)
      then have t: "t = w @ 39 # r"
        unfolding w_def by (metis takeWhile_dropWhile_id)
      have "lc_rights U l (c # t) = [r]"
        using True by (simp add: lc_rights_eq r_def)
      then obtain g where "?sub l (c # t) =
          drop_continuation g (take (Suc (length t) - length r) (c # t)) @ strip_continuations r"
        using step t by fastforce
      moreover have "take (Suc (length t) - length r) (c # t) = 39 # w @ [39]"
        using t True by simp
      moreover have "strip_continuations (c # t) = (39 # w @ [39]) @ strip_continuations r"
        using True by (simp add: strip_continuations.simps(2) Let_def w_def r_def)
      ultimately show ?thesis using Cons by (simp add: drop_continuation_def)
    next
      case nq: False
      show ?thesis
      proof (cases "c = 34 \<and> dquote_rest t \<noteq> None")
        case True
        then obtain r where r: "dquote_rest t = Some r" by auto
        then have "length r < length t" by (rule dquote_rest_length)
        then show ?thesis
          using True r nq step [of r "[]"] Cons
          by (auto simp: lc_rights_eq strip_continuations.simps(2) Let_def drop_continuation_def Suc_diff_le)
      next
        case nd: False
        show ?thesis
        proof (cases "c = 92 \<and> t \<noteq> []")
          case True
          then obtain d u where t: "t = d # u" by (cases t) auto
          consider "d = 10" | v where "d = 13" "u = 10 # v" | "d \<noteq> 10" "take 2 t \<noteq> [13, 10]"
            using t by (cases u) (auto simp: numeral_2_eq_2)
          then show ?thesis
          proof cases
            case 1
            then show ?thesis
              using True t step [of u "[]"] Cons
              by (auto simp: lc_rights_eq strip_continuations.simps(2) drop_continuation_def)
          next
            case (2 v)
            then show ?thesis
              using True t step [of v "[u]"] Cons
              by (auto simp: lc_rights_eq strip_continuations.simps(2) drop_continuation_def)
          next
            case 3
            then show ?thesis
              using True t step [of u "[]"] Cons
              by (auto simp: lc_rights_eq strip_continuations.simps(2) drop_continuation_def)
          qed
        next
          case False
          then show ?thesis
            using nq nd skip Cons
            by (auto simp: lc_rights_eq strip_continuations.simps(2))
        qed
      qed
    qed
  qed
qed

text \<open>The classifier removes exactly what \<open>LINE_CONTINUATION_PATTERN\<close> matches as a continuation.
  Substituting nothing for every match of that expression that is a backslash and a line end, and
  each other match by itself, yields the text the tiers are read from.\<close>

theorem continuations_are_the_pattern:
  "strip_line_continuations s = sub U LINE_CONTINUATION_PATTERN drop_continuation s"
  by (simp add: strip_line_continuations_eq sub_def lc_sub_from)

end
