(* ===== verification/Spec2Isabelle.thy ===== *)
theory Spec2Isabelle
  imports RelayGate OAuthProps SessionProps SeccompProps MonitorProps SshPoolProps PtyTransport Startup
    InstallRecovery TokenResource CiGate ReconcileRuntime HealthMetrics
    ToolsProps FleetProps FanoutProps EvidenceLogs
    PatternSeparators PatternRedaction PatternPolicy
begin

text \<open>
  A model of relay-shell (\<open>src/relay_shell\<close>), an MCP server through which a language model runs
  shell and SSH commands on behalf of an operator.

  \<^bold>\<open>How the program works.\<close> A tool (\<open>build_server\<close> in \<open>server.py\<close>) turns its arguments into a
  call: what is to be audited, the text the policy is to see, the output budget. \<open>Relay.run\<close> asks
  the policy (\<open>policy.py\<close>) for the tier of that text and whether it is admitted; an irreversible
  call is parked with the confirmation broker (\<open>broker.py\<close>) and runs only when
  \<open>operation_confirm\<close> has armed its single-use token and the same call is made again. The work of
  an admitted call starts local children (\<open>shelltools.py\<close>, supervised by \<open>seccomp.py\<close>), drives
  interactive sessions (\<open>sessions.py\<close>), or uses pooled SSH connections (\<open>sshpool.py\<close>) to hosts
  resolved by the inventory (\<open>inventory.py\<close>). Whatever happens, one record goes through redaction
  (\<open>redaction.py\<close>) to the hash-chained audit log (\<open>audit.py\<close>), a series is counted
  (\<open>metrics.py\<close>) and notices (\<open>notices.py\<close>) are attached. Under HTTP, clients are admitted by the
  OAuth provider and its operator (\<open>auth/oauth.py\<close>, \<open>auth/admin.py\<close>). Settings are validated once
  (\<open>config.py\<close>).

  \<^bold>\<open>Data.\<close> Python strings are lists of code points (\<open>pystr\<close>), bytes lists of naturals below 256,
  dictionaries association lists in insertion order (\<open>dict\<close>, \<open>dget\<close>, \<open>dset\<close>, \<open>ddel\<close>), JSON
  values a datatype, integers \<open>int\<close>; registers and instruction words of the filter are
  machine words. An exception is the left side of a sum, an early return a branch. State is
  passed explicitly; where coroutines interleave, a component is the steps between two awaits.

  \<^bold>\<open>Shared theories.\<close> \<open>Prelude\<close> (dictionaries, strings, joining and splitting, the collections
  \<open>dict_simps\<close> and \<open>str_simps\<close>), \<open>Machines\<close> (the locales \<open>machine_inv\<close>, an invariant along a run,
  and \<open>ledger\<close>, nothing is spent that was not earned; interpreted by the broker, the metrics, the
  OAuth provider, the session registry, the pool, the runner, the evidence job and the
  installer's transaction), \<open>Numerals\<close>, \<open>Util\<close> (\<open>util.py\<close>,
  \<open>errors.py\<close>, the UTF-8 codec) and \<open>Json\<close> (printer, parser, the round trip; the locale
  \<open>json_codec\<close>).

  \<^bold>\<open>Components.\<close>
  \<^item> \<open>Policy\<close> (\<open>policy.py\<close>): \<open>assess\<close>, \<open>policy_check\<close>; tiers are a linear order. A line continuation
    inside a command does not change its tier.
  \<^item> \<open>Config\<close> (\<open>config.py\<close>): the settings record, validators, \<open>load_settings\<close>; what it accepts is
    in range and accepted again.
  \<^item> \<open>Notices\<close>, \<open>Redaction\<close>, \<open>Metrics\<close>: skipping rules by their anchors changes nothing; every
    string of redacted arguments passed the scrubber; the counters count.
  \<^item> \<open>AuditLog\<close>, \<open>AuditChain\<close> (\<open>audit.py\<close>): the logger with restart and rotation, the formatters,
    the verifier. What the logger writes verifies; the verifier accepts exactly the linked
    sequences of records; under a collision-free hash the last chain value determines the history.
  \<^item> \<open>Broker\<close> (\<open>broker.py\<close>, \<open>_confirm_op_key\<close>): tokens are single use, and arming survives a flood
    of new ones.
  \<^item> \<open>Relay\<close>, \<open>RelayGate\<close> (\<open>Relay.run\<close>, \<open>operation_confirm\<close>): the runner for any work function on
    any world, its exits, and what they record.
  \<^item> \<open>PolicyText\<close>, \<open>PolicyTextProps\<close> (\<open>_policy_text_*\<close>, \<open>_canonical_ips\<close>, \<open>_jump_hosts\<close>): the probe
    texts show every argument, and a literal address in dotted form however it is spelled.
  \<^item> \<open>Inventory\<close> (\<open>inventory.py\<close>): the ssh\_config reader, the JSON inventory, merging, resolution.
  \<^item> \<open>SshConnect\<close>, \<open>SshConnectProps\<close> (the pure half of \<open>sshpool.py\<close>): the cache key, the plan of a
    connection, known hosts. A caller cannot weaken host key verification; the first contact is
    recorded and then verified.
  \<^item> \<open>SshPool\<close>, \<open>SshPoolProps\<close> (the stateful half): cache, pins, single-flight connects, forwards,
    shutdown as a machine. Every connection opened is in the pool, held or closed; a pinned one is
    not closed by a sweep; every waiter is answered; the caps hold.
  \<^item> \<open>Sessions\<close>, \<open>SessionProps\<close> (\<open>sessions.py\<close>): ring buffer, wakeups, the pending line the
    policy classifies, teardown. \<open>PtyTransport\<close> (\<open>LocalPtyTransport\<close>): starting the child of a
    session, writing, reading, and closing it with its process group.
  \<^item> \<open>Shelltools\<close>, \<open>ShelltoolsProps\<close> (\<open>shelltools.py\<close>): environment, \<open>shlex\<close>, capped output, one-shot
    runs as the ordered requests they make of the operating system.
  \<^item> \<open>Seccomp\<close>, \<open>SeccompProps\<close> (\<open>seccomp.py\<close>): assembler and filter to packed bytes. The locale \<open>bpf_vm\<close>
    states the five instructions of the kernel's machine; every accepted label program
    is executed as it reads, and the shipped filter decides by its table. \<open>SeccompMonitor\<close>,
    \<open>MonitorProps\<close>: notifications, cap, hand-over.
  \<^item> \<open>OAuth\<close>, \<open>OAuthProps\<close>: registration, authorization, codes, refresh rotation with reuse
    detection, approval and rejection, lockdown.
  \<^item> \<open>World\<close>, \<open>LocalTools\<close>, \<open>SshTools\<close>, \<open>Diagnostics\<close> (\<open>build_server\<close>): every tool as its
    call and its work on the composed state (\<open>world\<close>), submitted to the runner. \<open>SessionToolProps\<close>,
    \<open>ToolsProps\<close>, \<open>FleetProps\<close>, \<open>FanoutProps\<close>: properties of whole calls.
  \<^item> \<open>Evidence\<close>, \<open>EvidenceProps\<close>, \<open>EvidenceTrust\<close>, \<open>EvidenceLogs\<close>
    (\<open>deploy/evidence/relay-audit-evidence.py\<close>): the daily job that verifies the retained segments,
    keeps checkpoints of heads and compares its anchor with the published one. The library it calls
    is the argument \<open>evidence_lib\<close>; \<open>evidence_runs\<close> interprets \<open>machine_inv\<close>. What it accepts is
    chained and grounded; what the logger writes is accepted; publishing never goes back.
  \<^item> \<open>Regex\<close>, \<open>RegexSyntax\<close>, \<open>RegexProps\<close>: the part of Python's \<open>re\<close> the program uses, as syntax
    trees, a backtracking matcher with its priorities, and a reader of the pattern texts. A group
    that may match the empty text is repeated at most as often as the text is long. \<open>matches\<close>
    is the same language without the search. \<open>absint\<close> is an abstract interpretation over a
    \<open>left_domain\<close> (interpreted by \<open>lits\<close>, literals every match contains, and \<open>gaps\<close>, what precedes
    them). \<open>Patterns\<close> holds the tables of \<open>patterns.py\<close> as written, a tilde standing for a
    backslash, which a HOL string cannot hold; \<open>PatternGates\<close>, \<open>PatternRedaction\<close>, \<open>PatternPolicy\<close>,
    \<open>PatternSeparators\<close> state what the shipped tables do in \<open>Policy\<close> and \<open>Redaction\<close>, which are
    written for any tables.
  \<^item> \<open>Verifier\<close> (\<open>verifier.py\<close>), \<open>Startup\<close> (\<open>__main__.py\<close>, the start and shutdown half of
    \<open>server.py\<close>): the comparison of the shipped templates with the installed files, the
    subcommands with what each prints and returns, and the order in which \<open>main\<close> tries them. What
    exit status 0 means for each; a server that has stopped holds no connection or session.
  \<^item> \<open>TokenResource\<close> (\<open>auth/resource.py\<close>): which token requests reach the handler, and that the body
    is replayed as it came.
  \<^item> \<open>InstallTx\<close>, \<open>InstallTxProps\<close>, \<open>InstallRecovery\<close> (\<open>scripts/installer_transaction.py\<close>): file trees,
    inventories, the snapshot and its seal, \<open>begin\<close>, \<open>restore\<close> and \<open>complete\<close>. An interrupted
    installation can be undone whatever it left; a restore that reports success returned the
    original trees.
  \<^item> \<open>ReconcileRuntime\<close> (\<open>scripts/reconcile_runtime.py\<close>), \<open>CiGate\<close> (\<open>scripts/check_ci_checks.py\<close>),
    \<open>HealthMetrics\<close> (\<open>deploy/monitoring/relay-health-metrics.py\<close>): the virtual environment against
    its lock, the gate on the checks of a revision, the probes and the page of the collector.

  \<^bold>\<open>Parameters.\<close> Code outside the repository is an argument: SHA-256 (\<open>sha\<close>; where a property
  needs it, injectivity on the texts at hand is a hypothesis), the operator's compiled expressions,
  the character classes of \<open>re\<close> above code point 127 (\<open>unidb\<close>), the IPv6 reader and \<open>is_loopback\<close> of \<open>ipaddress\<close>, \<open>repr\<close> of
  values the code only prints, \<open>asyncssh\<close> and the operating system (their answers are \<open>outside\<close>,
  \<open>child\<close>, the events of the machines), the file system and the commands the scripts run (\<open>cp\<close>,
  \<open>sync\<close>, \<open>pip\<close>, \<open>systemctl\<close>), \<open>pydantic\<close>'s reading of the environment and of URLs, clock
  readings, fresh identifiers and tokens.

  \<^bold>\<open>Termination.\<close> Every definition is total. Loops over text or bytes recurse on what is left, with a
  measure where that is not structural (the line reader, the backward tail reader, the scanner of
  \<open>shlex\<close>). The wait of \<open>session_recv\<close> is a recursion over the clock readings it makes; that it
  returns is a property. Retries of an interrupted system call are bounded as in the code
  (\<open>EINTR_RETRIES\<close>).

  \<^bold>\<open>What the model showed.\<close> Each is a lemma: a character still arriving is split by a read
  (\<open>recv_splits_late_character\<close>); an edit to a lone surrogate leaves the chain value
  (\<open>surrogate_edit_undetected\<close>); the rotated file of another log is taken as predecessor
  (\<open>rotated_sibling_of_another_log\<close>); a user part hides an address from the deny list
  (\<open>userinfo_hides_address\<close>); a second name of a known key is never recorded
  (\<open>shared_key_never_recorded\<close>); digits that are not decimal raise before the audit
  (\<open>superscript_host_raises\<close>, \<open>superscript_port_raises\<close>); an unset port shares the connection of
  port 22 (\<open>unset_port_shares_key\<close>); an unencodable script abandons its child
  (\<open>unencodable_script_abandons\<close>); remote output over its budget is cut without a mark
  (\<open>remote_output_cut_silently\<close>); escapes defeat the budget of a fan-out
  (\<open>fanout_escapes_overflow\<close>); a damaged archive ends the evidence job with the old anchor in place
  (\<open>damaged_archive_leaves_anchor\<close>), and a record with a lone surrogate is refused by it for ever
  (\<open>surrogate_row_refused\<close>); words separated by U+001C to U+001F are blanks for the reference
  table and not for the classifier (\<open>separator_evades_tier3\<close>); an installed copy with other line
  ends is reported as shipped (\<open>crlf_copy_is_clean\<close>), and a directory that may not be entered ends
  the comparison with a traceback (\<open>denied_directory_raises\<close>); JSON that is not an object ends the
  health collector with the page of its last run in place (\<open>foreign_json_keeps_old_page\<close>); a close
  that is cancelled just after the leader was reaped spares its descendants
  (\<open>cancelled_close_spares_group\<close>).

  \<^bold>\<open>Not modelled.\<close> The reading of \<open>argv\<close> by \<open>argparse\<close>; registration of tools with the MCP library;
  threads, locks, file permissions and atomic renames; the launcher and the \<open>ctypes\<close> half of the
  seccomp monitor; the rehearsal scripts under \<open>scripts\<close>, which drive a disposable machine and
  compare what comes back.
\<close>

end
